(* ===== verification/Moltis_Prelude.thy ===== *)
theory Moltis_Prelude
  imports Main "HOL-Library.Sublist" "HOL-Library.AList"
begin

text \<open>
  Shared material of the development.

  \<^item> The types that every component uses: a Rust \<open>Instant\<close> is an integer number of
    milliseconds since an arbitrary origin, a \<open>Duration\<close> is a natural number of
    milliseconds, a \<open>u64\<close>/\<open>usize\<close> is a natural number whose wrap-around is written out
    where the code can reach it, and \<open>Result<T, E>\<close> is the sum \<open>'e + 't\<close>.
  \<^item> Hash maps: \<open>'k \<rightharpoonup> 'v\<close> where the code only looks keys up, an association list with
    distinct keys where it counts or iterates.
  \<^item> The locale \<open>event_machine\<close>: an invariant kept by every guarded event is kept by every
    guarded run. The stateful components interpret it with their own step function.
  \<^item> The locale \<open>sliding_window\<close>: the contract of a sliding-window rate limiter, and the bound
    on admissions that follows from it. The limiters of the code interpret it.
  \<^item> The locale \<open>fixed_window\<close>: the same for a limiter with fixed windows.
\<close>

section \<open>Collections and types\<close>

named_theorems machine_defs \<open>unfoldings of step functions and invariants\<close>
named_theorems map_upd \<open>laws of finite maps and association lists\<close>

type_synonym instant = int
type_synonym duration = nat

text \<open>\<open>std::net::IpAddr\<close>: the 32 or 128 bits of the address.\<close>

datatype ip_addr = V4 nat | V6 nat

definition duration_since :: "instant \<Rightarrow> instant \<Rightarrow> duration" where
  "duration_since later earlier = nat (later - earlier)"

definition instant_add :: "instant \<Rightarrow> duration \<Rightarrow> instant" where
  "instant_add t d = t + int d"

lemma duration_since_add [simp]: "duration_since (instant_add t d) t = d"
  by (simp add: duration_since_def instant_add_def)

lemma instant_add_less: "t < instant_add t d \<longleftrightarrow> 0 < d"
  by (simp add: instant_add_def)

lemma instant_add_mono: "s \<le> t \<Longrightarrow> instant_add s d \<le> instant_add t d"
  by (simp add: instant_add_def)

lemma duration_since_less_iff: "0 < d \<Longrightarrow> duration_since now t < d \<longleftrightarrow> now < instant_add t d"
  by (auto simp: duration_since_def instant_add_def)

lemma duration_since_ge_iff: "0 < d \<Longrightarrow> d \<le> duration_since now t \<longleftrightarrow> instant_add t d \<le> now"
  by (auto simp: duration_since_def instant_add_def)

text \<open>The last \<open>n\<close> elements, or all: what a bounded buffer keeps.\<close>

definition last_n :: "nat \<Rightarrow> 'a list \<Rightarrow> 'a list" where
  "last_n n xs = drop (length xs - n) xs"

section \<open>Finite maps\<close>

text \<open>\<open>HashMap::retain\<close> on a map given as a partial function.\<close>

definition map_retain :: "('v \<Rightarrow> bool) \<Rightarrow> ('k \<rightharpoonup> 'v) \<Rightarrow> ('k \<rightharpoonup> 'v)" where
  "map_retain P m = (\<lambda>k. case m k of Some v \<Rightarrow> (if P v then Some v else None) | None \<Rightarrow> None)"

lemma map_retain_Some [map_upd, simp]: "map_retain P m k = Some v \<longleftrightarrow> m k = Some v \<and> P v"
  by (auto simp: map_retain_def split: option.splits)

lemma map_retain_None: "map_retain P m k = None \<longleftrightarrow> m k = None \<or> (\<exists>v. m k = Some v \<and> \<not> P v)"
  by (auto simp: map_retain_def split: option.splits)

lemma dom_map_retain: "dom (map_retain P m) \<subseteq> dom m"
  by (auto simp: dom_def)

text \<open>\<open>HashMap::retain\<close>, \<open>len\<close> and \<open>contains_key\<close> on an association list.\<close>

definition alist_retain :: "('v \<Rightarrow> bool) \<Rightarrow> ('k \<times> 'v) list \<Rightarrow> ('k \<times> 'v) list" where
  "alist_retain P al = filter (\<lambda>(k, v). P v) al"

abbreviation distinct_keys :: "('k \<times> 'v) list \<Rightarrow> bool" where
  "distinct_keys al \<equiv> distinct (map fst al)"

lemma distinct_keys_retain [simp, intro]: "distinct_keys al \<Longrightarrow> distinct_keys (alist_retain P al)"
  unfolding alist_retain_def by (induction al) (auto simp: image_iff)

lemma length_alist_retain: "length (alist_retain P al) \<le> length al"
  by (simp add: alist_retain_def)

lemma set_alist_retain [simp]: "set (alist_retain P al) = {(k, v) \<in> set al. P v}"
  by (auto simp: alist_retain_def)

lemma map_of_alist_retain [map_upd]:
  assumes "distinct_keys al"
  shows "map_of (alist_retain P al) = map_retain P (map_of al)"
proof (rule ext)
  fix k
  show "map_of (alist_retain P al) k = map_retain P (map_of al) k"
    using assms
  proof (induction al)
    case Nil
    then show ?case by (simp add: alist_retain_def map_retain_def)
  next
    case (Cons p al)
    then have IH: "map_of (alist_retain P al) k = map_retain P (map_of al) k"
      and notin: "map_of al (fst p) = None"
      by (auto simp: map_of_eq_None_iff)
    then show ?case
      by (cases p) (auto simp: alist_retain_def map_retain_def)
  qed
qed

lemma length_alist_update:
  "length (AList.update k v al) \<le> Suc (length al)"
  by (induction al) auto

lemma length_alist_update_mem:
  "k \<in> fst ` set al \<Longrightarrow> length (AList.update k v al) = length al"
  by (induction al) auto

lemma length_alist_delete_mem:
  assumes "k \<in> fst ` set al"
  shows "length (AList.delete k al) < length al"
proof -
  from assms obtain v where "(k, v) \<in> set al" by auto
  then show ?thesis
    unfolding AList.delete_eq by (rule length_filter_less) simp
qed

lemmas alist_laws [map_upd] =
  update_conv' AList.delete_conv' distinct_update distinct_delete

section \<open>Lists\<close>

lemma last_filter:
  assumes "filter P xs = y # ys"
  shows "P (last (y # ys))"
proof -
  have "last (y # ys) \<in> set (filter P xs)"
    unfolding assms by (rule last_in_set) simp
  then show ?thesis by simp
qed

lemma set_alist_updateD: "x \<in> set (AList.update k v al) \<Longrightarrow> x = (k, v) \<or> x \<in> set al"
  by (induction al) (auto split: if_splits)

section \<open>Machines\<close>

text \<open>
  A component with state: a step function over its events, a guard that says which events
  may happen (monotone clocks, for instance), and an invariant that every guarded step keeps.
\<close>

primrec guarded_run :: "('s \<Rightarrow> 'e \<Rightarrow> bool) \<Rightarrow> ('s \<Rightarrow> 'e \<Rightarrow> 's) \<Rightarrow> 's \<Rightarrow> 'e list \<Rightarrow> bool" where
  "guarded_run ok step s [] = True"
| "guarded_run ok step s (e # es) = (ok s e \<and> guarded_run ok step (step s e) es)"

locale event_machine =
  fixes step :: "'s \<Rightarrow> 'e \<Rightarrow> 's"
    and ok :: "'s \<Rightarrow> 'e \<Rightarrow> bool"
    and inv :: "'s \<Rightarrow> bool"
  assumes inv_step: "inv s \<Longrightarrow> ok s e \<Longrightarrow> inv (step s e)"
begin

lemma inv_run: "inv s \<Longrightarrow> guarded_run ok step s es \<Longrightarrow> inv (foldl step s es)"
  by (induction es arbitrary: s) (auto intro: inv_step)

lemma inv_prefix:
  assumes "inv s" "guarded_run ok step s es" "prefix ds es"
  shows "inv (foldl step s ds)"
proof -
  have "guarded_run ok step s (xs @ ys) \<Longrightarrow> guarded_run ok step s xs" for xs ys
    by (induction xs arbitrary: s) auto
  with assms(2,3) have "guarded_run ok step s ds"
    by (auto elim!: prefixE)
  with assms(1) show ?thesis by (rule inv_run)
qed

end

lemma guarded_run_True [simp]: "guarded_run (\<lambda>_ _. True) step s es"
  by (induction es arbitrary: s) auto

section \<open>Sliding windows\<close>

text \<open>
  \<open>while window.front().is_some_and(|&t| t < cutoff) { window.pop_front(); }\<close>, with
  \<open>cutoff = now.saturating_sub(width)\<close>: the subtraction of \<^typ>\<open>nat\<close> saturates as the
  code's does.
\<close>

definition prune_window :: "nat \<Rightarrow> nat \<Rightarrow> nat list \<Rightarrow> nat list" where
  "prune_window width now ts = dropWhile (\<lambda>t. t < now - width) ts"

definition in_window :: "nat \<Rightarrow> nat \<Rightarrow> nat list \<Rightarrow> nat list" where
  "in_window width t ts = filter (\<lambda>x. t \<le> x + width \<and> x \<le> t) ts"

lemma prune_window_split:
  obtains old where "ts = old @ prune_window width now ts" "\<forall>x\<in>set old. x + width < now"
proof
  show "ts = takeWhile (\<lambda>t. t < now - width) ts @ prune_window width now ts"
    by (simp add: prune_window_def)
  show "\<forall>x\<in>set (takeWhile (\<lambda>t. t < now - width) ts). x + width < now"
    by (auto dest: set_takeWhileD)
qed

text \<open>
  The contract of a limiter that records the times it admitted. Some events do not concern
  the window at all (another key of the same limiter); those leave it or only prune it.
\<close>

primrec admissions :: "('s \<Rightarrow> 'e \<Rightarrow> bool) \<Rightarrow> ('e \<Rightarrow> nat) \<Rightarrow> ('s \<Rightarrow> 'e \<Rightarrow> 's) \<Rightarrow> 's \<Rightarrow> 'e list \<Rightarrow> nat list" where
  "admissions admits time step s [] = []"
| "admissions admits time step s (e # es) =
     (if admits s e then [time e] else []) @ admissions admits time step (step s e) es"

locale sliding_window =
  fixes step :: "'s \<Rightarrow> 'e \<Rightarrow> 's"
    and time :: "'e \<Rightarrow> nat"
    and admits :: "'s \<Rightarrow> 'e \<Rightarrow> bool"
    and win :: "'s \<Rightarrow> nat list"
    and width :: nat
    and limit :: nat
  assumes admit: "admits s e \<Longrightarrow>
      win (step s e) = prune_window width (time e) (win s) @ [time e] \<and>
      length (prune_window width (time e) (win s)) < limit"
    and skip: "\<not> admits s e \<Longrightarrow>
      win (step s e) = win s \<or> win (step s e) = prune_window width (time e) (win s)"
begin

definition tracks :: "nat list \<Rightarrow> 's \<Rightarrow> nat \<Rightarrow> bool" where
  "tracks H s now \<longleftrightarrow>
     (\<exists>old. H = old @ win s \<and> (\<forall>x\<in>set old. x + width < now)) \<and>
     (\<forall>x\<in>set H. x \<le> now) \<and>
     (\<forall>t. length (in_window width t H) \<le> limit)"

lemma tracks_skip:
  assumes "tracks H s now" "now \<le> time e" "\<not> admits s e"
  shows "tracks H (step s e) (time e)"
proof -
  from assms(1) obtain old where H: "H = old @ win s" and old: "\<forall>x\<in>set old. x + width < now"
    by (auto simp: tracks_def)
  obtain p where p: "win s = p @ prune_window width (time e) (win s)"
    and pw: "\<forall>x\<in>set p. x + width < time e"
    by (rule prune_window_split)
  have "\<exists>old. H = old @ win (step s e) \<and> (\<forall>x\<in>set old. x + width < time e)"
  proof (cases "win (step s e) = win s")
    case True
    with H old assms(2) show ?thesis by (intro exI [of _ old]) auto
  next
    case False
    with skip [OF assms(3)] have "win (step s e) = prune_window width (time e) (win s)" by blast
    with H p have "H = (old @ p) @ win (step s e)" by simp
    moreover have "\<forall>x\<in>set (old @ p). x + width < time e"
      using old pw assms(2) by auto
    ultimately show ?thesis by blast
  qed
  with assms(1,2) show ?thesis by (auto simp: tracks_def)
qed

lemma tracks_admit:
  assumes "tracks H s now" "now \<le> time e" "admits s e"
  shows "tracks (H @ [time e]) (step s e) (time e)"
proof -
  let ?n = "time e" and ?w = "prune_window width (time e) (win s)"
  from assms(1) obtain old where H: "H = old @ win s" and old: "\<forall>x\<in>set old. x + width < now"
    and le: "\<forall>x\<in>set H. x \<le> now" and cnt: "\<And>t. length (in_window width t H) \<le> limit"
    by (auto simp: tracks_def)
  obtain p where p: "win s = p @ ?w" and pw: "\<forall>x\<in>set p. x + width < ?n"
    by (rule prune_window_split)
  from admit [OF assms(3)] have w: "win (step s e) = ?w @ [?n]" and lt: "length ?w < limit"
    by auto
  let ?d = "old @ p"
  have dead: "\<forall>x\<in>set ?d. x + width < ?n"
    using old pw assms(2) by auto
  have H': "H @ [?n] = ?d @ win (step s e)"
    using H p w by (metis append.assoc)
  have "length (in_window width t (H @ [?n])) \<le> limit" for t
  proof (cases "?n \<le> t")
    case True
    have "\<not> t \<le> x + width" if "x \<in> set ?d" for x
      using dead that True by fastforce
    then have "in_window width t ?d = []"
      by (auto simp: in_window_def filter_empty_conv)
    then have "length (in_window width t (H @ [?n])) \<le> length (win (step s e))"
      unfolding H' by (simp add: in_window_def)
    also have "\<dots> \<le> limit" using w lt by simp
    finally show ?thesis .
  next
    case False
    then show ?thesis using cnt [of t] by (simp add: in_window_def)
  qed
  moreover have "\<forall>x\<in>set (H @ [?n]). x \<le> ?n"
    using le assms(2) by auto
  ultimately show ?thesis
    unfolding tracks_def using H' dead by blast
qed

lemma tracks_run:
  "tracks H s now \<Longrightarrow> sorted (now # map time es) \<Longrightarrow>
   \<exists>now'. tracks (H @ admissions admits time step s es) (foldl step s es) now'"
proof (induction es arbitrary: H s now)
  case Nil
  then show ?case by auto
next
  case (Cons e es)
  then have le: "now \<le> time e" and srt: "sorted (time e # map time es)" by auto
  show ?case
  proof (cases "admits s e")
    case True
    with Cons.IH [OF tracks_admit [OF Cons.prems(1) le True] srt] show ?thesis by simp
  next
    case False
    with Cons.IH [OF tracks_skip [OF Cons.prems(1) le False] srt] show ?thesis by simp
  qed
qed

theorem admissions_bounded:
  assumes "win s = []" "sorted (map time es)"
  shows "length (in_window width t (admissions admits time step s es)) \<le> limit"
proof -
  have "tracks [] s 0"
    using assms(1) by (simp add: tracks_def in_window_def)
  with assms(2) obtain now' where "tracks (admissions admits time step s es) (foldl step s es) now'"
    using tracks_run [of "[]" s 0 es] by auto
  then show ?thesis by (simp add: tracks_def)
qed

end

section \<open>Fixed windows\<close>

text \<open>
  The contract of a limiter with fixed windows: an entry holds the start of the current window and
  the number of requests it admitted. An event opens a window when there is none or the old one is
  over, or is counted in the open window, or is refused; entries whose window is over may be dropped.
\<close>

definition within :: "instant \<Rightarrow> nat \<Rightarrow> instant list \<Rightarrow> nat" where
  "within t width ts = length (filter (\<lambda>x. t \<le> x \<and> x < instant_add t width) ts)"

primrec grants :: "('s \<Rightarrow> 'e \<Rightarrow> bool) \<Rightarrow> ('e \<Rightarrow> instant) \<Rightarrow> ('s \<Rightarrow> 'e \<Rightarrow> 's) \<Rightarrow> 's \<Rightarrow> 'e list \<Rightarrow> instant list" where
  "grants admits time step s [] = []"
| "grants admits time step s (e # es) =
     (if admits s e then [time e] else []) @ grants admits time step (step s e) es"

locale fixed_window =
  fixes step :: "'s \<Rightarrow> 'e \<Rightarrow> 's"
    and time :: "'e \<Rightarrow> instant"
    and admits :: "'s \<Rightarrow> 'e \<Rightarrow> bool"
    and entry :: "'s \<Rightarrow> (instant \<times> nat) option"
    and width :: nat
    and limit :: nat
  assumes grant: "admits s e \<Longrightarrow>
      (entry (step s e) = Some (time e, 1) \<and> 1 \<le> limit \<and>
        (\<forall>b n. entry s = Some (b, n) \<longrightarrow> width \<le> duration_since (time e) b)) \<or>
      (\<exists>b n. entry s = Some (b, n) \<and> n < limit \<and> duration_since (time e) b < width \<and>
        entry (step s e) = Some (b, n + 1))"
    and refuse: "\<not> admits s e \<Longrightarrow> entry (step s e) = entry s \<or>
      (entry (step s e) = None \<and> (\<forall>b n. entry s = Some (b, n) \<longrightarrow> width \<le> duration_since (time e) b))"
begin

text \<open>The history splits into the requests of earlier windows and those of the open one; of the
  earlier ones, at most \<open>limit\<close> are less than one width before its start.\<close>

definition follows :: "instant list \<Rightarrow> 's \<Rightarrow> instant \<Rightarrow> bool" where
  "follows H s now \<longleftrightarrow> (\<forall>t. within t width H \<le> 2 * limit) \<and> (\<forall>x\<in>set H. x \<le> now) \<and>
     (case entry s of
        None \<Rightarrow> length (filter (\<lambda>x. now < instant_add x width) H) \<le> limit
      | Some (b, n) \<Rightarrow> b \<le> now \<and> (\<exists>A B. H = A @ B \<and> length B = n \<and> n \<le> limit \<and>
          (\<forall>x\<in>set A. x \<le> b) \<and>
          length (filter (\<lambda>x. b < instant_add x width) A) \<le> limit))"

lemma filter_le_split:
  "(\<And>x. x \<in> set xs \<Longrightarrow> P x \<Longrightarrow> Q x) \<Longrightarrow> length (filter P xs) \<le> length (filter Q xs)"
  by (induction xs) (auto intro: le_SucI)

text \<open>Once the window is over, few requests are recent.\<close>

lemma follows_over:
  assumes "follows H s now" "now \<le> t" "\<forall>b n. entry s = Some (b, n) \<longrightarrow> width \<le> duration_since t b"
  shows "length (filter (\<lambda>x. t < instant_add x width) H) \<le> limit"
proof (cases "entry s")
  case None
  then have "length (filter (\<lambda>x. now < instant_add x width) H) \<le> limit"
    using assms(1) by (simp add: follows_def)
  moreover have "length (filter (\<lambda>x. t < instant_add x width) H) \<le> length (filter (\<lambda>x. now < instant_add x width) H)"
    using assms(2) by (intro filter_le_split) simp
  ultimately show ?thesis by simp
next
  case (Some p)
  then obtain b n A B where e: "entry s = Some (b, n)" and H: "H = A @ B" "length B = n" "n \<le> limit"
    and A: "\<forall>x\<in>set A. x \<le> b"
    using assms(1) by (cases p) (auto simp: follows_def)
  have "b \<le> now" using assms(1) e by (auto simp: follows_def)
  then have "instant_add b width \<le> t"
    using assms(2,3) e by (auto simp: duration_since_def instant_add_def)
  then have "filter (\<lambda>x. t < instant_add x width) A = []"
    using A by (force simp: filter_empty_conv instant_add_def)
  then show ?thesis
    using H le_trans [OF length_filter_le [of "\<lambda>x. t < instant_add x width" B]] by simp
qed

lemma within_snoc_old: "now < t \<or> instant_add t width \<le> now \<Longrightarrow> within t width (H @ [now]) = within t width H"
  by (auto simp: within_def)

lemma follows_open:
  assumes "follows H s now" "now \<le> time e" "entry (step s e) = Some (time e, 1)" "1 \<le> limit"
    and "\<forall>b n. entry s = Some (b, n) \<longrightarrow> width \<le> duration_since (time e) b"
  shows "follows (H @ [time e]) (step s e) (time e)"
proof -
  let ?t = "time e"
  have few: "length (filter (\<lambda>x. ?t < instant_add x width) H) \<le> limit"
    by (rule follows_over [OF assms(1,2,5)])
  have H: "\<And>t. within t width H \<le> 2 * limit" "\<And>x. x \<in> set H \<Longrightarrow> x \<le> ?t"
    using assms(1,2) by (force simp: follows_def)+
  have "within t width (H @ [?t]) \<le> 2 * limit" for t
  proof (cases "?t < t \<or> instant_add t width \<le> ?t")
    case True
    then show ?thesis using within_snoc_old [OF True] H(1) by simp
  next
    case False
    have "within t width H \<le> length (filter (\<lambda>x. ?t < instant_add x width) H)"
      unfolding within_def using False by (intro filter_le_split) (simp add: instant_add_def)
    then show ?thesis using few assms(4) by (simp add: within_def)
  qed
  moreover have "\<exists>A B. H @ [?t] = A @ B \<and> length B = 1 \<and>
      (\<forall>x\<in>set A. x \<le> ?t) \<and> length (filter (\<lambda>x. ?t < instant_add x width) A) \<le> limit"
    using few H(2) by (intro exI [of _ H] exI [of _ "[?t]"]) (auto simp: instant_add_def)
  ultimately show ?thesis
    using assms(3,4) H(2) by (auto simp: follows_def)
qed

lemma follows_count:
  assumes "follows H s now" "now \<le> time e" "entry s = Some (b, n)" "n < limit"
    and "duration_since (time e) b < width" "entry (step s e) = Some (b, n + 1)"
  shows "follows (H @ [time e]) (step s e) (time e)"
proof -
  let ?t = "time e"
  obtain A B where H: "H = A @ B" "length B = n" and b: "b \<le> now"
    and A: "\<forall>x\<in>set A. x \<le> b"
    and few: "length (filter (\<lambda>x. b < instant_add x width) A) \<le> limit"
    using assms(1,3) by (auto simp: follows_def)
  have old: "\<And>t. within t width H \<le> 2 * limit" "\<And>x. x \<in> set H \<Longrightarrow> x \<le> ?t"
    using assms(1,2) by (force simp: follows_def)+
  have "within t width (H @ [?t]) \<le> 2 * limit" for t
  proof (cases "?t < t \<or> instant_add t width \<le> ?t")
    case True
    then show ?thesis using within_snoc_old [OF True] old(1) by simp
  next
    case False
    have "within t width A \<le> length (filter (\<lambda>x. b < instant_add x width) A)"
      unfolding within_def using False b assms(2) by (intro filter_le_split) (simp add: instant_add_def)
    moreover have "within t width (B @ [?t]) \<le> limit"
      unfolding within_def using H(2) assms(4) by (intro le_trans [OF length_filter_le]) simp
    ultimately show ?thesis using few H(1) by (simp add: within_def)
  qed
  moreover have "\<exists>A' B'. H @ [?t] = A' @ B' \<and> length B' = n + 1 \<and>
      (\<forall>x\<in>set A'. x \<le> b) \<and> length (filter (\<lambda>x. b < instant_add x width) A') \<le> limit"
    using H A few by (intro exI [of _ A] exI [of _ "B @ [?t]"]) auto
  ultimately show ?thesis
    using assms(2,4,6) old(2) b by (auto simp: follows_def)
qed

lemma follows_refuse:
  assumes "follows H s now" "now \<le> time e" "\<not> admits s e"
  shows "follows H (step s e) (time e)"
proof -
  have old: "\<And>t. within t width H \<le> 2 * limit" "\<And>x. x \<in> set H \<Longrightarrow> x \<le> time e"
    using assms(1,2) by (force simp: follows_def)+
  show ?thesis
  proof (cases "entry (step s e) = None")
    case True
    then have "\<forall>b n. entry s = Some (b, n) \<longrightarrow> width \<le> duration_since (time e) b"
      using refuse [OF assms(3)] by auto
    from follows_over [OF assms(1,2) this] old True show ?thesis
      by (simp add: follows_def)
  next
    case False
    then have "entry (step s e) = entry s" using refuse [OF assms(3)] by (auto simp del: not_None_eq)
    with assms(1,2) False old show ?thesis
      by (fastforce simp: follows_def split: option.splits)
  qed
qed

lemma follows_run:
  "follows H s now \<Longrightarrow> sorted (now # map time es) \<Longrightarrow>
   \<exists>now'. follows (H @ grants admits time step s es) (foldl step s es) now'"
proof (induction es arbitrary: H s now)
  case Nil
  then show ?case by auto
next
  case (Cons e es)
  then have le: "now \<le> time e" and srt: "sorted (time e # map time es)" by auto
  show ?case
  proof (cases "admits s e")
    case True
    then have "follows (H @ [time e]) (step s e) (time e)"
      using grant [OF True] follows_open [OF Cons.prems(1) le] follows_count [OF Cons.prems(1) le] by blast
    from Cons.IH [OF this srt] True show ?thesis by simp
  next
    case False
    from Cons.IH [OF follows_refuse [OF Cons.prems(1) le False] srt] False show ?thesis by simp
  qed
qed

theorem grants_bounded:
  assumes "entry s = None" "sorted (map time es)"
  shows "within t width (grants admits time step s es) \<le> 2 * limit"
proof -
  obtain now where "sorted (now # map time es)"
  proof (cases es)
    case Nil
    then show ?thesis using that by simp
  next
    case (Cons e es')
    then show ?thesis using that [of "time e"] assms(2) by simp
  qed
  moreover have "follows [] s now"
    using assms(1) by (simp add: follows_def within_def)
  ultimately obtain now' where "follows (grants admits time step s es) (foldl step s es) now'"
    using follows_run [of "[]" s now es] by auto
  then show ?thesis by (simp add: follows_def)
qed

end

end
