(* ===== verification/Rust_Text.thy ===== *)
theory Rust_Text
  imports Moltis_Prelude
begin

text \<open>
  The parts of Rust's \<open>str\<close> and \<open>char\<close> API that the modelled code calls.

  A Rust string is a \<^typ>\<open>string\<close>, one \<^typ>\<open>char\<close> per code point, for code points below
  256 (ASCII and Latin-1). On this range \<open>is_whitespace\<close>, \<open>is_alphabetic\<close> and
  \<open>to_lowercase\<close> below agree with Rust's Unicode tables, and none of them leaves it.
  Slicing by byte offsets at the positions \<open>find\<close>, \<open>strip_suffix\<close> or \<open>split\<close> return is
  slicing by character positions here.
\<close>

section \<open>Characters\<close>

definition is_whitespace :: "char \<Rightarrow> bool" where
  "is_whitespace c \<longleftrightarrow>
     (let n = (of_char c :: nat) in (9 \<le> n \<and> n \<le> 13) \<or> n = 32 \<or> n = 133 \<or> n = 160)"

definition is_ascii_digit :: "char \<Rightarrow> bool" where
  "is_ascii_digit c \<longleftrightarrow> (let n = (of_char c :: nat) in 48 \<le> n \<and> n \<le> 57)"

definition is_alphabetic :: "char \<Rightarrow> bool" where
  "is_alphabetic c \<longleftrightarrow>
     (let n = (of_char c :: nat) in
       (65 \<le> n \<and> n \<le> 90) \<or> (97 \<le> n \<and> n \<le> 122) \<or> n = 170 \<or> n = 181 \<or> n = 186 \<or>
       (192 \<le> n \<and> n \<le> 255 \<and> n \<noteq> 215 \<and> n \<noteq> 247))"

definition ascii_lower :: "char \<Rightarrow> char" where
  "ascii_lower c =
     (let n = (of_char c :: nat) in if 65 \<le> n \<and> n \<le> 90 then char_of (n + 32) else c)"

definition lower :: "char \<Rightarrow> char" where
  "lower c =
     (let n = (of_char c :: nat) in
       if (65 \<le> n \<and> n \<le> 90) \<or> (192 \<le> n \<and> n \<le> 222 \<and> n \<noteq> 215) then char_of (n + 32) else c)"

definition newline :: char where
  "newline = CHR 0x0A"

definition tab :: char where
  "tab = CHR 0x09"

definition carriage_return :: char where
  "carriage_return = CHR 0x0D"

definition double_quote :: char where
  "double_quote = CHR 0x22"

definition single_quote :: char where
  "single_quote = CHR 0x27"

definition backslash :: char where
  "backslash = CHR 0x5C"

section \<open>Strings\<close>

definition to_ascii_lowercase :: "string \<Rightarrow> string" where
  "to_ascii_lowercase s = map ascii_lower s"

definition to_lowercase :: "string \<Rightarrow> string" where
  "to_lowercase s = map lower s"

definition eq_ignore_ascii_case :: "string \<Rightarrow> string \<Rightarrow> bool" where
  "eq_ignore_ascii_case a b \<longleftrightarrow> to_ascii_lowercase a = to_ascii_lowercase b"

definition trim_start_by :: "(char \<Rightarrow> bool) \<Rightarrow> string \<Rightarrow> string" where
  "trim_start_by P s = dropWhile P s"

definition trim_end_by :: "(char \<Rightarrow> bool) \<Rightarrow> string \<Rightarrow> string" where
  "trim_end_by P s = rev (dropWhile P (rev s))"

definition trim :: "string \<Rightarrow> string" where
  "trim s = trim_end_by is_whitespace (trim_start_by is_whitespace s)"

definition starts_with :: "string \<Rightarrow> string \<Rightarrow> bool" where
  "starts_with s p \<longleftrightarrow> prefix p s"

definition ends_with :: "string \<Rightarrow> string \<Rightarrow> bool" where
  "ends_with s p \<longleftrightarrow> prefix (rev p) (rev s)"

definition strip_prefix :: "string \<Rightarrow> string \<Rightarrow> string option" where
  "strip_prefix s p = (if prefix p s then Some (drop (length p) s) else None)"

definition strip_suffix :: "string \<Rightarrow> string \<Rightarrow> string option" where
  "strip_suffix s p = (if ends_with s p then Some (take (length s - length p) s) else None)"

fun split_by :: "(char \<Rightarrow> bool) \<Rightarrow> string \<Rightarrow> string list" where
  "split_by P [] = [[]]"
| "split_by P (c # cs) =
     (if P c then [] # split_by P cs
      else (case split_by P cs of [] \<Rightarrow> [[c]] | p # ps \<Rightarrow> (c # p) # ps))"

abbreviation split_on :: "char \<Rightarrow> string \<Rightarrow> string list" where
  "split_on c \<equiv> split_by (\<lambda>x. x = c)"

definition split_whitespace :: "string \<Rightarrow> string list" where
  "split_whitespace s = filter (\<lambda>w. w \<noteq> []) (split_by is_whitespace s)"

fun split_once :: "char \<Rightarrow> string \<Rightarrow> (string \<times> string) option" where
  "split_once c [] = None"
| "split_once c (x # xs) =
     (if x = c then Some ([], xs) else map_option (apfst (Cons x)) (split_once c xs))"

fun find_sub :: "string \<Rightarrow> string \<Rightarrow> nat option" where
  "find_sub p [] = (if p = [] then Some 0 else None)"
| "find_sub p (c # cs) = (if prefix p (c # cs) then Some 0 else map_option Suc (find_sub p cs))"

definition contains_sub :: "string \<Rightarrow> string \<Rightarrow> bool" where
  "contains_sub s p \<longleftrightarrow> find_sub p s \<noteq> None"

fun find_char :: "(char \<Rightarrow> bool) \<Rightarrow> string \<Rightarrow> nat option" where
  "find_char P [] = None"
| "find_char P (c # cs) = (if P c then Some 0 else map_option Suc (find_char P cs))"

text \<open>\<open>split_inclusive('\\n')\<close>: every piece but the last ends in a newline; no empty last piece.\<close>

fun split_inclusive :: "string \<Rightarrow> string list" where
  "split_inclusive [] = []"
| "split_inclusive (c # cs) =
     (if c = newline then [c] # split_inclusive cs
      else (case split_inclusive cs of [] \<Rightarrow> [[c]] | p # ps \<Rightarrow> (c # p) # ps))"

text \<open>\<open>str::lines\<close>: a line ends in \<open>\\n\<close> or \<open>\\r\\n\<close>, which is removed; no empty last line.\<close>

definition strip_line_end :: "string \<Rightarrow> string" where
  "strip_line_end l =
     (case rev l of
        a # b # r \<Rightarrow> if a = newline then (if b = carriage_return then rev r else rev (b # r)) else l
      | [a] \<Rightarrow> if a = newline then [] else l
      | [] \<Rightarrow> [])"

definition lines :: "string \<Rightarrow> string list" where
  "lines s = map strip_line_end (split_inclusive s)"

text \<open>\<open>replace(pattern, "")\<close> for a non-empty pattern: the non-overlapping matches from the left.\<close>

function remove_all :: "string \<Rightarrow> string \<Rightarrow> string" where
  "remove_all p [] = []"
| "remove_all p (c # cs) =
     (if p \<noteq> [] \<and> prefix p (c # cs) then remove_all p (drop (length p) (c # cs))
      else c # remove_all p cs)"
  by pat_completeness auto
termination
  by (relation "measure (\<lambda>(p, s). length s)") auto

text \<open>\<open>str::len\<close>: the bytes of the UTF-8 encoding.\<close>

definition char_len :: "char \<Rightarrow> nat" where
  "char_len c = (if (of_char c :: nat) < 128 then 1 else 2)"

definition byte_len :: "string \<Rightarrow> nat" where
  "byte_len s = sum_list (map char_len s)"

lemma byte_len_Cons [simp]: "byte_len [] = 0" "byte_len (c # cs) = char_len c + byte_len cs"
  by (simp_all add: byte_len_def)

text \<open>\<open>str::parse::<u64>\<close>: an optional plus sign, at least one digit, and no overflow.\<close>

definition u64_max :: nat where
  "u64_max = 2 ^ 64 - 1"

fun digits_value :: "nat \<Rightarrow> string \<Rightarrow> nat option" where
  "digits_value acc [] = Some acc"
| "digits_value acc (c # cs) =
     (if is_ascii_digit c then digits_value (10 * acc + (of_char c - 48)) cs else None)"

definition parse_u64 :: "string \<Rightarrow> nat option" where
  "parse_u64 s =
     (let ds = (case s of c # cs \<Rightarrow> if c = CHR ''+'' then cs else s | [] \<Rightarrow> s) in
      if ds = [] then None
      else case digits_value 0 ds of
        None \<Rightarrow> None
      | Some v \<Rightarrow> if v \<le> u64_max then Some v else None)"

definition u64_mul :: "nat \<Rightarrow> nat \<Rightarrow> nat" where
  "u64_mul a b = (a * b) mod 2 ^ 64"

definition u64_add :: "nat \<Rightarrow> nat \<Rightarrow> nat" where
  "u64_add a b = (a + b) mod 2 ^ 64"

section \<open>Laws\<close>

text \<open>Decimal digits, and the longest prefix of at most \<open>n\<close> bytes that ends between two characters.\<close>

fun show_nat :: "nat \<Rightarrow> string" where
  "show_nat n = (if n < 10 then [char_of (48 + n)] else show_nat (n div 10) @ [char_of (48 + n mod 10)])"

declare show_nat.simps [simp del]

fun truncate_chars :: "nat \<Rightarrow> string \<Rightarrow> string" where
  "truncate_chars n [] = []"
| "truncate_chars n (c # cs) = (if char_len c \<le> n then c # truncate_chars (n - char_len c) cs else [])"

lemma truncate_chars_bound: "byte_len (truncate_chars n s) \<le> n"
  by (induction n s rule: truncate_chars.induct) auto

lemma truncate_chars_prefix: "prefix (truncate_chars n s) s"
  by (induction n s rule: truncate_chars.induct) auto

text \<open>No longer prefix would have fitted.\<close>

lemma truncate_chars_longest: "prefix p s \<Longrightarrow> byte_len p \<le> n \<Longrightarrow> prefix p (truncate_chars n s)"
  by (induction n s arbitrary: p rule: truncate_chars.induct) (auto simp: prefix_Cons)

lemma prefix_drop_append: "prefix p s \<Longrightarrow> s = p @ drop (length p) s"
  by (auto elim: prefixE)

lemma strip_prefix_Some: "strip_prefix s p = Some r \<longleftrightarrow> s = p @ r"
  by (auto simp: strip_prefix_def elim: prefixE)

lemma ends_with_iff: "ends_with s p \<longleftrightarrow> (\<exists>r. s = r @ p)"
proof
  assume "ends_with s p"
  then obtain z where "rev s = rev p @ z" by (auto simp: ends_with_def elim: prefixE)
  then have "s = rev z @ p" by (metis rev_append rev_rev_ident)
  then show "\<exists>r. s = r @ p" ..
next
  assume "\<exists>r. s = r @ p"
  then show "ends_with s p" by (auto simp: ends_with_def)
qed

lemma strip_suffix_Some: "strip_suffix s p = Some r \<longleftrightarrow> s = r @ p"
  by (auto simp: strip_suffix_def ends_with_iff)

lemma split_by_nonempty [simp]: "split_by P s \<noteq> []"
  by (induction s) (auto split: list.splits)

lemma split_by_no_sep: "p \<in> set (split_by P s) \<Longrightarrow> \<forall>c\<in>set p. \<not> P c"
proof (induction s arbitrary: p)
  case Nil
  then show ?case by simp
next
  case (Cons c cs)
  obtain q qs where q: "split_by P cs = q # qs"
    by (cases "split_by P cs") auto
  with Cons.IH [of q] Cons.IH [of p] Cons.prems show ?case by (auto split: if_splits)
qed

fun join_with :: "char \<Rightarrow> string list \<Rightarrow> string" where
  "join_with c [] = []"
| "join_with c [p] = p"
| "join_with c (p # q # ps) = p @ c # join_with c (q # ps)"

lemma join_with_Cons: "ps \<noteq> [] \<Longrightarrow> join_with c (p # ps) = p @ c # join_with c ps"
  by (cases ps) auto

lemma join_split_on: "join_with c (split_on c s) = s"
proof (induction s)
  case Nil
  then show ?case by simp
next
  case (Cons x xs)
  obtain q qs where q: "split_on c xs = q # qs"
    by (cases "split_on c xs") auto
  with Cons show ?case
    by (cases qs) auto
qed

lemma split_whitespace_words: "w \<in> set (split_whitespace s) \<Longrightarrow> w \<noteq> [] \<and> (\<forall>c\<in>set w. \<not> is_whitespace c)"
  by (auto simp: split_whitespace_def dest: split_by_no_sep)

lemma split_once_Some: "split_once c s = Some (a, b) \<longleftrightarrow> s = a @ c # b \<and> c \<notin> set a"
proof (induction s arbitrary: a)
  case Nil
  then show ?case by simp
next
  case (Cons x xs)
  show ?case
  proof (cases "x = c")
    case True
    then show ?thesis by (cases a) auto
  next
    case False
    with Cons show ?thesis by (cases a) (auto simp: apfst_def map_prod_def)
  qed
qed

lemma split_once_None: "split_once c s = None \<longleftrightarrow> c \<notin> set s"
  by (induction s) auto

lemma find_sub_Some_prefix: "find_sub p s = Some i \<Longrightarrow> prefix p (drop i s) \<and> i \<le> length s"
  by (induction s arbitrary: i) (auto split: if_splits)

lemma find_sub_None: "find_sub p s = None \<Longrightarrow> \<not> prefix p (drop i s)"
  by (induction s arbitrary: i) (auto split: if_splits simp: drop_Cons' )

lemma find_sub_least: "find_sub p s = Some i \<Longrightarrow> j < i \<Longrightarrow> \<not> prefix p (drop j s)"
proof (induction s arbitrary: i j)
  case Nil
  then show ?case by (auto split: if_splits)
next
  case (Cons c cs)
  then show ?case by (cases j) (auto split: if_splits)
qed

lemma find_sub_Some_append: "find_sub p s = Some i \<Longrightarrow> s = take i s @ p @ drop (i + length p) s"
proof -
  assume "find_sub p s = Some i"
  then have "prefix p (drop i s)" by (simp add: find_sub_Some_prefix)
  then have "drop i s = p @ drop (length p) (drop i s)" by (rule prefix_drop_append)
  then have "drop i s = p @ drop (i + length p) s" by (simp add: add.commute)
  then show ?thesis by (metis append_take_drop_id)
qed

lemma concat_split_inclusive [simp]: "concat (split_inclusive s) = s"
proof (induction s)
  case Nil
  then show ?case by simp
next
  case (Cons c cs)
  then show ?case by (cases "split_inclusive cs") auto
qed

lemma trim_eq_Nil: "trim s = [] \<longleftrightarrow> (\<forall>c\<in>set s. is_whitespace c)"
proof
  assume "trim s = []"
  then have "dropWhile is_whitespace (rev (dropWhile is_whitespace s)) = []"
    by (simp add: trim_def trim_end_by_def trim_start_by_def)
  then have all: "\<forall>c\<in>set (dropWhile is_whitespace s). is_whitespace c"
    by (simp add: dropWhile_eq_Nil_conv)
  show "\<forall>c\<in>set s. is_whitespace c"
  proof (cases "dropWhile is_whitespace s")
    case Nil
    then show ?thesis by (simp add: dropWhile_eq_Nil_conv)
  next
    case (Cons d ds)
    then have "\<not> is_whitespace d" by (simp add: dropWhile_eq_Cons_conv)
    with all Cons show ?thesis by simp
  qed
next
  assume "\<forall>c\<in>set s. is_whitespace c"
  then show "trim s = []"
    by (auto simp: trim_def trim_end_by_def trim_start_by_def dest: set_dropWhileD)
qed

lemma digits_value_append:
  "digits_value acc (xs @ ys) = Option.bind (digits_value acc xs) (\<lambda>v. digits_value v ys)"
  by (induction xs arbitrary: acc) auto

text \<open>Decimal digits are read back.\<close>

lemma show_nat_digits: "list_all is_ascii_digit (show_nat n)"
proof (induction n rule: show_nat.induct)
  case (1 n)
  have d: "is_ascii_digit (char_of (48 + k))" if "k < 10" for k :: nat
    using that by (simp add: is_ascii_digit_def)
  show ?case
  proof (cases "n < 10")
    case True
    then show ?thesis using d by (subst show_nat.simps) simp
  next
    case False
    then show ?thesis using 1 d [of "n mod 10"] by (subst show_nat.simps) simp
  qed
qed

lemma digits_value_show_nat: "digits_value 0 (show_nat n) = Some n"
proof (induction n rule: show_nat.induct)
  case (1 n)
  have d: "digits_value m [char_of (48 + k)] = Some (10 * m + k)" if "k < 10" for m k :: nat
    using that by (simp add: is_ascii_digit_def)
  show ?case
  proof (cases "n < 10")
    case True
    then show ?thesis by (subst show_nat.simps) (use d [OF True, of 0] in simp)
  next
    case False
    then have "digits_value 0 (show_nat (n div 10)) = Some (n div 10)" using 1 by simp
    then show ?thesis using False d [of "n mod 10" "n div 10"]
      by (subst show_nat.simps) (simp add: digits_value_append del: digits_value.simps)
  qed
qed

lemma show_nat_inject: "show_nat m = show_nat n \<longleftrightarrow> m = n"
  by (metis digits_value_show_nat option.inject)

text \<open>A length, a separator and the text: what is written this way is read back in one way.\<close>

lemma byte_len_prefix: "a @ x = b @ y \<Longrightarrow> byte_len a = byte_len b \<Longrightarrow> a = b"
proof (induction a arbitrary: b)
  case Nil
  then show ?case by (cases b) (auto simp: char_len_def split: if_splits)
next
  case (Cons c a)
  then show ?case by (cases b) (auto simp: char_len_def split: if_splits)
qed

lemma first_separator: "a @ c # x = b @ c # y \<Longrightarrow> c \<notin> set a \<Longrightarrow> c \<notin> set b \<Longrightarrow> a = b \<and> x = y"
  for a b :: string
proof -
  assume eq: "a @ c # x = b @ c # y" and "c \<notin> set a" "c \<notin> set b"
  then have "split_once c (a @ c # x) = Some (a, x)" "split_once c (a @ c # x) = Some (b, y)"
    unfolding split_once_Some by auto
  then show ?thesis by simp
qed

lemma length_prefixed:
  assumes "show_nat (byte_len a) @ CHR '':'' # a @ x = show_nat (byte_len b) @ CHR '':'' # b @ y"
  shows "a = b \<and> x = y"
proof -
  have "CHR '':'' \<notin> set (show_nat n)" for n
    using show_nat_digits [of n] by (auto simp: list_all_iff is_ascii_digit_def)
  then have "show_nat (byte_len a) = show_nat (byte_len b)" and t: "a @ x = b @ y"
    using first_separator [OF assms] by blast+
  then have "byte_len a = byte_len b" by (simp add: show_nat_inject)
  with t have "a = b" by (rule byte_len_prefix)
  with t show ?thesis by simp
qed


lemma parse_u64_bound: "parse_u64 s = Some v \<Longrightarrow> v \<le> u64_max"
  by (auto simp: parse_u64_def Let_def split: option.splits if_splits list.splits)

end
