(* ===== verification/Approval.thy ===== *)
theory Approval
  imports Rust_Text "HOL-Library.Char_ord" "HOL-Library.List_Lexorder"
begin

text \<open>
  The exec approval gate, \<open>crates/tools/src/approval.rs\<close>: the parsers of the two configuration
  values, the scan for dangerous command patterns (with here-document bodies removed first), the
  extraction of the first binary, the safe-bin and allowlist tests, \<open>check_command\<close>, and the
  table of pending approval requests with its operations.

  The regular-expression engine is the \<open>regex\<close> crate: \<open>check_dangerous\<close> takes the matcher
  \<open>re\<close> (pattern, text) as an argument. The table of patterns is the source's, each backslash
  written \<open>%\<close> under \<open>re_src\<close>. Identifiers of requests are UUIDs that the caller of
  \<open>create_request\<close> supplies here, and a oneshot sender is the number of its channel.
\<close>

section \<open>Configuration values\<close>

datatype approval_decision = Approved | Denied | Timeout

datatype approval_mode = Off | OnMiss | Always

datatype security_level = Deny | Allowlist | Full

datatype approval_action = Proceed | NeedsApproval

definition parse_approval_mode :: "string \<Rightarrow> approval_mode option" where
  "parse_approval_mode value =
     (let v = to_ascii_lowercase (trim value) in
      if v = ''off'' \<or> v = ''never'' then Some Off
      else if v = ''on-miss'' \<or> v = ''on_miss'' \<or> v = ''smart'' then Some OnMiss
      else if v = ''always'' then Some Always
      else None)"

definition parse_security_level :: "string \<Rightarrow> security_level option" where
  "parse_security_level value =
     (let v = to_ascii_lowercase (trim value) in
      if v = ''allowlist'' then Some Allowlist
      else if v = ''permissive'' \<or> v = ''full'' then Some Full
      else if v = ''strict'' \<or> v = ''deny'' then Some Deny
      else None)"

definition SAFE_BINS :: "string list" where
  "SAFE_BINS =
    [''cat'', ''echo'', ''printf'', ''head'', ''tail'', ''wc'', ''sort'', ''uniq'', ''cut'', ''tr'',
     ''grep'', ''egrep'', ''fgrep'', ''awk'', ''sed'', ''jq'', ''yq'', ''date'', ''cal'', ''ls'',
     ''pwd'', ''whoami'', ''hostname'', ''uname'', ''env'', ''printenv'', ''basename'', ''dirname'',
     ''realpath'', ''readlink'', ''diff'', ''comm'', ''paste'', ''tee'', ''xargs'', ''true'',
     ''false'', ''test'', ''['', ''seq'', ''yes'', ''rev'', ''fold'', ''expand'', ''unexpand'',
     ''md5sum'', ''sha256sum'', ''sha1sum'', ''b2sum'', ''file'', ''stat'', ''du'', ''df'',
     ''free'', ''which'', ''type'', ''command'']"

definition DANGEROUS_ENV_VARS :: "string list" where
  "DANGEROUS_ENV_VARS =
    [''LD_PRELOAD'', ''LD_LIBRARY_PATH'', ''LD_AUDIT'', ''LD_CONFIG'',
     ''DYLD_INSERT_LIBRARIES'', ''DYLD_LIBRARY_PATH'', ''DYLD_FRAMEWORK_PATH'',
     ''PATH'',
     ''PYTHONPATH'', ''PYTHONSTARTUP'', ''NODE_OPTIONS'', ''NODE_PATH'', ''JAVA_TOOL_OPTIONS'',
     ''_JAVA_OPTIONS'', ''JDK_JAVA_OPTIONS'', ''PERL5OPT'', ''PERL5LIB'', ''RUBYOPT'', ''RUBYLIB'',
     ''CLASSPATH'',
     ''BASH_ENV'', ''ZDOTDIR'']"

section \<open>Dangerous patterns\<close>

definition re_src :: "string \<Rightarrow> string" where
  "re_src p = map (\<lambda>c. if c = CHR ''%'' then backslash else c) p"

definition DANGEROUS_PATTERN_DEFS :: "(string \<times> string) list" where
  "DANGEROUS_PATTERN_DEFS =
    [(re_src ''rm%s+(-%S*[rR]%S*%s+)*/(%s|$|%*)'', ''rm -r on filesystem root''),
     (re_src ''rm%s+(-%S*[rR]%S*%s+)+(~|%$HOME)'', ''rm -r on home directory''),
     (re_src ''%bmkfs%b'', ''make filesystem''),
     (re_src ''%bdd%b.*%bif=/dev/(zero|urandom)%b'', ''disk overwrite with dd''),
     (re_src '':%(%)%s*%{.*%|.*&%s*%}%s*;'', ''fork bomb''),
     (re_src ''git%s+reset%s+--hard'', ''git reset --hard''),
     (re_src ''git%s+push%s+.*(-%S*f%S*|--force%b|--force-with-lease%b)'', ''git force push''),
     (re_src ''git%s+clean%s+(-%S*f)'', ''git clean with force''),
     (re_src ''git%s+stash%s+(drop|clear)%b'', ''git stash drop/clear''),
     (re_src ''(?i)%bDROP%s+(TABLE|DATABASE|SCHEMA)%b'', ''DROP TABLE/DATABASE''),
     (re_src ''(?i)%bTRUNCATE%b'', ''TRUNCATE''),
     (re_src ''docker%s+system%s+prune'', ''docker system prune''),
     (re_src ''kubectl%s+delete%s+namespace'', ''kubectl delete namespace''),
     (re_src ''terraform%s+destroy'', ''terraform destroy''),
     (re_src ''chmod%s+(-%S*R%S*%s+)*777%s+/'', ''recursive chmod 777 on root''),
     (re_src ''(?i)(?:^|[;&|]%s*)(LD_PRELOAD|LD_LIBRARY_PATH|LD_AUDIT|LD_CONFIG)=%S'',
      ''dangerous dynamic linker env var''),
     (re_src ''(?i)(?:^|[;&|]%s*)(DYLD_INSERT_LIBRARIES|DYLD_LIBRARY_PATH|DYLD_FRAMEWORK_PATH)=%S'',
      ''dangerous macOS dynamic linker env var''),
     (re_src ''(?i)(?:^|[;&|]%s*)PATH=%S'', ''PATH override''),
     (re_src ''(?i)(?:^|[;&|]%s*)(PYTHONPATH|PYTHONSTARTUP|NODE_OPTIONS|NODE_PATH|JAVA_TOOL_OPTIONS|_JAVA_OPTIONS|JDK_JAVA_OPTIONS)=%S'',
      ''dangerous language runtime env var''),
     (re_src ''(?i)(?:^|[;&|]%s*)(PERL5OPT|PERL5LIB|RUBYOPT|RUBYLIB|CLASSPATH)=%S'',
      ''dangerous language runtime env var''),
     (re_src ''(?i)(?:^|[;&|]%s*)(BASH_ENV|ZDOTDIR)=%S'', ''dangerous shell startup env var'')]"

section \<open>Here-documents\<close>

record heredoc_delimiter =
  marker :: string
  strip_tabs :: bool

text \<open>
  The scanners of the code walk an index over the characters of a line; here they walk the
  remaining suffix. \<open>parse_heredoc_marker\<close> returns the marker and where it stopped.
\<close>

fun marker_loop :: "bool \<Rightarrow> bool \<Rightarrow> string \<Rightarrow> string \<Rightarrow> string \<times> string" where
  "marker_loop in_single in_double acc [] = (acc, [])"
| "marker_loop in_single in_double acc (c # cs) =
     (if \<not> in_single \<and> \<not> in_double \<and> (is_whitespace c \<or> c \<in> {CHR '';'', CHR ''&'', CHR ''|''})
      then (acc, c # cs)
      else if c = single_quote \<and> \<not> in_double then marker_loop (\<not> in_single) in_double acc cs
      else if c = double_quote \<and> \<not> in_single then marker_loop in_single (\<not> in_double) acc cs
      else if c = backslash \<and> \<not> in_single then
        (case cs of [] \<Rightarrow> (acc, []) | e # es \<Rightarrow> marker_loop in_single in_double (acc @ [e]) es)
      else marker_loop in_single in_double (acc @ [c]) cs)"

definition parse_heredoc_marker :: "string \<Rightarrow> string option \<times> string" where
  "parse_heredoc_marker cs =
     (let (m, rest) = marker_loop False False [] cs in (if m = [] then None else Some m, rest))"

declare marker_loop.simps(2) [simp del]

lemma marker_loop_shrinks: "length (snd (marker_loop s d acc cs)) \<le> length cs"
proof (induction "length cs" arbitrary: s d acc cs rule: less_induct)
  case less
  show ?case
  proof (cases cs)
    case Nil
    then show ?thesis by simp
  next
    case (Cons c r)
    have IH: "length (snd (marker_loop s d acc ys)) \<le> length ys"
      if "length ys \<le> length r" for s d acc ys
      using less.hyps [of ys s d acc] that Cons by simp
    have A: "length (snd (marker_loop s d acc r)) \<le> Suc (length r)" for s d acc
      using IH [of r s d acc] by simp
    show ?thesis
    proof (cases r)
      case Nil
      then show ?thesis using A unfolding Cons marker_loop.simps(2) by simp
    next
      case (Cons e es)
      have "length (snd (marker_loop s d acc es)) \<le> Suc (length r)" for s d acc
        using IH [of es s d acc] Cons by simp
      with A Cons show ?thesis
        unfolding \<open>cs = c # r\<close> marker_loop.simps(2) by simp
    qed
  qed
qed

lemma parse_heredoc_marker_shrinks: "length (snd (parse_heredoc_marker cs)) \<le> length cs"
  using marker_loop_shrinks [of False False "[]" cs]
  by (simp add: parse_heredoc_marker_def case_prod_unfold Let_def)

definition heredoc_open :: "string \<Rightarrow> bool \<times> string" where
  "heredoc_open cs =
     (case cs of
        c # r \<Rightarrow> if c = CHR ''-'' then (True, dropWhile is_whitespace r)
                 else (False, dropWhile is_whitespace cs)
      | [] \<Rightarrow> (False, []))"

lemma heredoc_open_shrinks: "length (snd (heredoc_open cs)) \<le> length cs"
  by (auto simp: heredoc_open_def le_SucI length_dropWhile_le split: list.splits)

function delimiters_loop :: "bool \<Rightarrow> bool \<Rightarrow> string \<Rightarrow> heredoc_delimiter list" where
  "delimiters_loop in_single in_double [] = []"
| "delimiters_loop in_single in_double (c # cs) =
     (if c = single_quote \<and> \<not> in_double then delimiters_loop (\<not> in_single) in_double cs
      else if c = double_quote \<and> \<not> in_single then delimiters_loop in_single (\<not> in_double) cs
      else if c = backslash \<and> \<not> in_single then delimiters_loop in_single in_double (drop 1 cs)
      else if c = CHR ''<'' \<and> \<not> in_single \<and> \<not> in_double \<and> prefix ''<'' cs then
        (if prefix ''<<'' cs then delimiters_loop in_single in_double (drop 2 cs)
         else
           let (tabs, r) = heredoc_open (drop 1 cs); (m, rest) = parse_heredoc_marker r in
           (case m of Some m \<Rightarrow> [\<lparr>marker = m, strip_tabs = tabs\<rparr>] | None \<Rightarrow> []) @
           delimiters_loop in_single in_double rest)
      else delimiters_loop in_single in_double cs)"
  by pat_completeness auto
termination
proof (relation "measure (\<lambda>(s, d, cs). length cs)", goal_cases)
  case (6 in_single in_double c cs x tabs r y m rest)
  have "length rest \<le> length r"
    using parse_heredoc_marker_shrinks [of r] 6(8,9) by (metis snd_conv)
  also have "\<dots> \<le> length (drop 1 cs)"
    using heredoc_open_shrinks [of "drop 1 cs"] 6(6,7) by (metis snd_conv)
  finally show ?case by simp
qed auto

definition heredoc_delimiters :: "string \<Rightarrow> heredoc_delimiter list" where
  "heredoc_delimiters line = delimiters_loop False False line"

declare delimiters_loop.simps(2) [simp del]

record strip_state =
  stripped :: string
  changed :: bool
  pending_docs :: "heredoc_delimiter list"
  omitted :: string

definition strip_line :: "strip_state \<Rightarrow> string \<Rightarrow> strip_state" where
  "strip_line st line =
     (let bare = trim_end_by (\<lambda>c. c = newline) line in
      case pending_docs st of
        d # ds \<Rightarrow>
          (let candidate = (if strip_tabs d then trim_start_by (\<lambda>c. c = tab) bare else bare) in
           if candidate = marker d then
             st\<lparr>pending_docs := ds, omitted := (if ds = [] then [] else omitted st), changed := True\<rparr>
           else st\<lparr>omitted := omitted st @ line, changed := True\<rparr>)
      | [] \<Rightarrow>
          (let delims = heredoc_delimiters bare in
           st\<lparr>stripped := stripped st @ line,
              changed := (if delims = [] then changed st else True),
              pending_docs := pending_docs st @ delims\<rparr>))"

definition strip_heredoc_bodies :: "string \<Rightarrow> string" where
  "strip_heredoc_bodies command =
     (let st = foldl strip_line \<lparr>stripped = [], changed = False, pending_docs = [], omitted = []\<rparr>
                 (split_inclusive command);
          out = (if pending_docs st \<noteq> [] then stripped st @ omitted st else stripped st)
      in if changed st then out else command)"

definition check_dangerous :: "(string \<Rightarrow> string \<Rightarrow> bool) \<Rightarrow> string \<Rightarrow> string option" where
  "check_dangerous re command =
     (let scan_command = strip_heredoc_bodies command in
      map_option snd (find (\<lambda>(p, _). re p scan_command) DANGEROUS_PATTERN_DEFS))"

section \<open>First binary, safe bins, allowlist\<close>

fun first_bin :: "string list \<Rightarrow> string option" where
  "first_bin [] = None"
| "first_bin (part # parts) =
     (case split_once CHR ''='' part of
        Some (key, _) \<Rightarrow>
          if list_ex (\<lambda>d. eq_ignore_ascii_case d key) DANGEROUS_ENV_VARS then None
          else first_bin parts
      | None \<Rightarrow> Some (last (split_on CHR ''/'' part)))"

definition extract_first_bin :: "string \<Rightarrow> string option" where
  "extract_first_bin command = first_bin (split_whitespace (trim command))"

definition is_safe_command :: "string \<Rightarrow> bool" where
  "is_safe_command command =
     (case extract_first_bin command of Some bin \<Rightarrow> bin \<in> set SAFE_BINS | None \<Rightarrow> False)"

fun allowlist_loop :: "string option \<Rightarrow> string \<Rightarrow> string list \<Rightarrow> bool" where
  "allowlist_loop bin command [] = False"
| "allowlist_loop bin command (pattern # rest) =
     (let bin_name = (case bin of Some b \<Rightarrow> b | None \<Rightarrow> []) in
      if pattern = ''*'' then True
      else if pattern = bin_name then True
      else if ends_with pattern ''*'' \<and>
              (let pre = take (length pattern - 1) pattern in
               starts_with bin_name pre \<or> (bin \<noteq> None \<and> starts_with command pre)) then True
      else allowlist_loop bin command rest)"

definition matches_allowlist :: "string \<Rightarrow> string list \<Rightarrow> bool" where
  "matches_allowlist command al = allowlist_loop (extract_first_bin command) command al"

section \<open>The approval manager\<close>

record pending_approval =
  pa_command :: string
  pa_session_key :: "string option"
  pa_tx :: nat

record pending_approval_view =
  pv_id :: string
  pv_command :: string
  pv_session_key :: "string option"

record approval_manager =
  mode :: approval_mode
  level :: security_level
  allowlist :: "string list"
  timeout :: duration
  pending :: "(string \<times> pending_approval) list"
  approved_commands :: "string set"

definition default_manager :: approval_manager where
  "default_manager = \<lparr>mode = OnMiss, level = Allowlist, allowlist = [], timeout = 120000,
     pending = [], approved_commands = {}\<rparr>"

datatype exec_error =
    DangerousPattern string string
  | DangerousEnvPrefix string
  | SecurityLevelDeny
  | NotInAllowlist string

definition off_mode :: "approval_manager \<Rightarrow> string \<Rightarrow> exec_error + approval_action" where
  "off_mode m command =
     (if allowlist m = [] then Inr Proceed
      else if matches_allowlist command (allowlist m) then Inr Proceed
      else if is_safe_command command then Inr Proceed
      else Inl (NotInAllowlist command))"

definition on_miss_mode :: "approval_manager \<Rightarrow> string \<Rightarrow> exec_error + approval_action" where
  "on_miss_mode m command =
     (if is_safe_command command then Inr Proceed
      else if matches_allowlist command (allowlist m) then Inr Proceed
      else if command \<in> approved_commands m then Inr Proceed
      else Inr NeedsApproval)"

definition check_policy :: "approval_manager \<Rightarrow> string \<Rightarrow> exec_error + approval_action" where
  "check_policy m command =
     (case level m of
        Deny \<Rightarrow> Inl SecurityLevelDeny
      | Full \<Rightarrow> Inr Proceed
      | Allowlist \<Rightarrow>
          (case mode m of
             Off \<Rightarrow> off_mode m command
           | Always \<Rightarrow> Inr NeedsApproval
           | OnMiss \<Rightarrow> on_miss_mode m command))"

definition check_env_prefix :: "approval_manager \<Rightarrow> string \<Rightarrow> exec_error + approval_action" where
  "check_env_prefix m command =
     (if trim command \<noteq> [] \<and> extract_first_bin command = None \<and>
         \<not> matches_allowlist command (allowlist m)
      then if mode m = Off then Inl (DangerousEnvPrefix command) else Inr NeedsApproval
      else check_policy m command)"

definition check_command ::
    "(string \<Rightarrow> string \<Rightarrow> bool) \<Rightarrow> approval_manager \<Rightarrow> string \<Rightarrow> exec_error + approval_action" where
  "check_command re m command =
     (case check_dangerous re command of
        Some desc \<Rightarrow>
          if \<not> matches_allowlist command (allowlist m)
          then if mode m = Off then Inl (DangerousPattern desc command) else Inr NeedsApproval
          else check_env_prefix m command
      | None \<Rightarrow> check_env_prefix m command)"

definition create_request ::
    "approval_manager \<Rightarrow> string \<Rightarrow> nat \<Rightarrow> string \<Rightarrow> string option \<Rightarrow> approval_manager" where
  "create_request m rid tx command session_key =
     m\<lparr>pending := AList.update rid \<lparr>pa_command = command, pa_session_key = session_key, pa_tx = tx\<rparr>
                    (pending m)\<rparr>"

definition resolve ::
    "approval_manager \<Rightarrow> string \<Rightarrow> approval_decision \<Rightarrow> string option
      \<Rightarrow> approval_manager \<times> (nat \<times> approval_decision) option" where
  "resolve m rid decision command =
     (case map_of (pending m) rid of
        Some p \<Rightarrow>
          (let m' = m\<lparr>pending := AList.delete rid (pending m)\<rparr> in
           ((if decision = Approved \<and> command \<noteq> None
             then m'\<lparr>approved_commands := insert (pa_command p) (approved_commands m)\<rparr> else m'),
            Some (pa_tx p, decision)))
      | None \<Rightarrow> (m, None))"

definition pending_ids :: "approval_manager \<Rightarrow> string list" where
  "pending_ids m = sort (map fst (pending m))"

definition pending_requests :: "approval_manager \<Rightarrow> pending_approval_view list" where
  "pending_requests m =
     sort_key pv_id
       (map (\<lambda>(i, p). \<lparr>pv_id = i, pv_command = pa_command p, pv_session_key = pa_session_key p\<rparr>)
         (pending m))"

definition pending_requests_for_session ::
    "approval_manager \<Rightarrow> string \<Rightarrow> pending_approval_view list" where
  "pending_requests_for_session m session_key =
     filter (\<lambda>r. pv_session_key r = Some session_key) (pending_requests m)"

text \<open>How waiting on the receiver ended: a decision arrived, the sender was dropped, or the
  timeout elapsed first.\<close>

datatype rx_outcome = Received approval_decision | Closed | Elapsed

fun wait_for_decision :: "rx_outcome \<Rightarrow> approval_decision" where
  "wait_for_decision (Received d) = d"
| "wait_for_decision Closed = Denied"
| "wait_for_decision Elapsed = Timeout"

section \<open>Lemmas\<close>

lemma find_sub_None_sublist: "find_sub p s = None \<longleftrightarrow> \<not> sublist p s"
proof
  assume "find_sub p s = None"
  then have "\<not> prefix p (drop i s)" for i by (rule find_sub_None)
  then show "\<not> sublist p s"
    by (metis append_eq_conv_conj prefixI sublist_def)
next
  assume "\<not> sublist p s"
  then show "find_sub p s = None"
    by (metis append.assoc find_sub_Some_append not_None_eq sublist_appendI)
qed

lemma delimiters_loop_no_operator:
  "\<not> sublist ''<<'' cs \<Longrightarrow> delimiters_loop s d cs = []"
proof (induction s d cs rule: delimiters_loop.induct)
  case (1 s d)
  then show ?case by simp
next
  case (2 s d c cs)
  have suf: "\<not> sublist ''<<'' (drop n cs)" for n
    using 2(7) by (metis sublist_Cons_right sublist_order.order_trans suffix_drop suffix_imp_sublist)
  have "\<not> (c = CHR ''<'' \<and> prefix ''<'' cs)"
    using 2(7) by (auto simp: sublist_Cons_right)
  with 2(1-3) 2(6) suf [of 0] suf [of 1] show ?case
    by (subst delimiters_loop.simps) auto
qed

lemma trim_end_by_prefix: "prefix (trim_end_by P s) s"
  by (metis rev_rev_ident suffix_dropWhile suffix_to_prefix trim_end_by_def)

lemma split_inclusive_sublist: "l \<in> set (split_inclusive s) \<Longrightarrow> sublist l s"
  by (metis concat.simps(2) concat_append concat_split_inclusive split_list sublist_appendI)

lemma line_no_delimiters:
  assumes "find_sub ''<<'' command = None" "l \<in> set (split_inclusive command)"
  shows "heredoc_delimiters (trim_end_by P l) = []"
proof -
  have "sublist (trim_end_by P l) command"
    using split_inclusive_sublist [OF assms(2)] trim_end_by_prefix
    by (meson prefix_imp_sublist sublist_order.order_trans)
  then have "\<not> sublist ''<<'' (trim_end_by P l)"
    using assms(1) unfolding find_sub_None_sublist by (meson sublist_order.order_trans)
  then show ?thesis
    unfolding heredoc_delimiters_def by (rule delimiters_loop_no_operator)
qed

lemma strip_lines_plain:
  assumes "\<forall>l\<in>set ls. heredoc_delimiters (trim_end_by (\<lambda>c. c = newline) l) = []"
    and "pending_docs st = []"
  shows "foldl strip_line st ls = st\<lparr>stripped := stripped st @ concat ls\<rparr>"
  using assms
proof (induction ls arbitrary: st)
  case Nil
  then show ?case by simp
next
  case (Cons l ls)
  then have "strip_line st l = st\<lparr>stripped := stripped st @ l\<rparr>"
    by (simp add: strip_line_def Let_def)
  with Cons show ?case by simp
qed

lemma strip_heredoc_bodies_plain:
  assumes "find_sub ''<<'' command = None"
  shows "strip_heredoc_bodies command = command"
proof -
  have "\<forall>l\<in>set (split_inclusive command). heredoc_delimiters (trim_end_by (\<lambda>c. c = newline) l) = []"
    using line_no_delimiters [OF assms] by blast
  from strip_lines_plain [OF this] show ?thesis
    by (simp add: strip_heredoc_bodies_def Let_def)
qed

definition closes :: "heredoc_delimiter \<Rightarrow> string \<Rightarrow> bool" where
  "closes d line \<longleftrightarrow>
     (let bare = trim_end_by (\<lambda>c. c = newline) line in
      (if strip_tabs d then trim_start_by (\<lambda>c. c = tab) bare else bare) = marker d)"

lemma strip_lines_open:
  assumes "pending_docs st = d # ds" "\<forall>l\<in>set ls. \<not> closes d l"
  shows "foldl strip_line st ls =
    st\<lparr>omitted := omitted st @ concat ls, changed := (if ls = [] then changed st else True)\<rparr>"
  using assms
proof (induction ls arbitrary: st)
  case Nil
  then show ?case by simp
next
  case (Cons l ls)
  then have "strip_line st l = st\<lparr>omitted := omitted st @ l, changed := True\<rparr>"
    by (simp add: strip_line_def closes_def Let_def)
  with Cons show ?case by simp
qed

lemma strip_heredoc_bodies_unclosed:
  assumes "split_inclusive command = pre @ l0 # ls"
    and "\<forall>l\<in>set pre. heredoc_delimiters (trim_end_by (\<lambda>c. c = newline) l) = []"
    and "heredoc_delimiters (trim_end_by (\<lambda>c. c = newline) l0) = d # ds"
    and "\<forall>l\<in>set ls. \<not> closes d l"
  shows "strip_heredoc_bodies command = command"
proof -
  let ?ini = "\<lparr>stripped = [], changed = False, pending_docs = [], omitted = []\<rparr>"
  let ?st = "\<lparr>stripped = concat pre @ l0, changed = True, pending_docs = d # ds, omitted = []\<rparr>"
  have "strip_line (foldl strip_line ?ini pre) l0 = ?st"
    using strip_lines_plain [OF assms(2)] assms(3) by (simp add: strip_line_def Let_def)
  moreover have "foldl strip_line ?st ls = ?st\<lparr>omitted := concat ls\<rparr>"
    using strip_lines_open [of ?st d ds ls] assms(4) by simp
  ultimately have "foldl strip_line ?ini (split_inclusive command) = ?st\<lparr>omitted := concat ls\<rparr>"
    by (simp add: assms(1))
  moreover have "concat pre @ l0 @ concat ls = command"
    by (metis assms(1) concat.simps(2) concat_append concat_split_inclusive)
  ultimately show ?thesis
    by (simp add: strip_heredoc_bodies_def Let_def)
qed

text \<open>The words in front of the first word that is not an assignment.\<close>

definition leading_assignments :: "string \<Rightarrow> string list" where
  "leading_assignments command =
     takeWhile (\<lambda>w. CHR ''='' \<in> set w) (split_whitespace (trim command))"

definition hijacks :: "string \<Rightarrow> bool" where
  "hijacks w \<longleftrightarrow>
     (case split_once CHR ''='' w of
        Some (key, _) \<Rightarrow> to_ascii_lowercase key \<in> to_ascii_lowercase ` set DANGEROUS_ENV_VARS
      | None \<Rightarrow> False)"

lemma dangerous_key_iff:
  "list_ex (\<lambda>d. eq_ignore_ascii_case d key) DANGEROUS_ENV_VARS \<longleftrightarrow>
   to_ascii_lowercase key \<in> to_ascii_lowercase ` set DANGEROUS_ENV_VARS"
  by (auto simp: list_ex_iff eq_ignore_ascii_case_def image_iff) metis

lemma first_bin_None_iff:
  "first_bin ws = None \<longleftrightarrow>
     (\<exists>w\<in>set (takeWhile (\<lambda>w. CHR ''='' \<in> set w) ws). hijacks w) \<or> (\<forall>w\<in>set ws. CHR ''='' \<in> set w)"
proof (induction ws)
  case Nil
  then show ?case by simp
next
  case (Cons w ws)
  show ?case
  proof (cases "split_once CHR ''='' w")
    case None
    then have "CHR ''='' \<notin> set w" by (simp add: split_once_None)
    with None show ?thesis by simp
  next
    case (Some kv)
    then have eq: "CHR ''='' \<in> set w" by (metis option.distinct(1) split_once_None)
    obtain k v where kv: "kv = (k, v)" by fastforce
    show ?thesis
      using Some kv eq Cons.IH by (auto simp: dangerous_key_iff hijacks_def split: if_splits)
  qed
qed

lemma allowlist_loop_iff:
  "allowlist_loop bin command al \<longleftrightarrow>
     (\<exists>p\<in>set al. p = ''*'' \<or> p = case_option [] (\<lambda>b. b) bin \<or>
        (\<exists>pre. p = pre @ ''*'' \<and>
           (prefix pre (case_option [] (\<lambda>b. b) bin) \<or> (bin \<noteq> None \<and> prefix pre command))))"
proof (induction al)
  case Nil
  then show ?case by simp
next
  case (Cons p al)
  have "(ends_with p ''*'' \<and>
      (let pre = take (length p - 1) p in
        starts_with b pre \<or> (bin \<noteq> None \<and> starts_with command pre))) \<longleftrightarrow>
    (\<exists>pre. p = pre @ ''*'' \<and> (prefix pre b \<or> (bin \<noteq> None \<and> prefix pre command)))" for b
    by (auto simp: ends_with_iff starts_with_def)
  with Cons show ?case by (auto simp: Let_def)
qed

lemma matches_allowlist_no_bin:
  "extract_first_bin command = None \<Longrightarrow>
   matches_allowlist command al \<longleftrightarrow> ''*'' \<in> set al \<or> [] \<in> set al"
  by (auto simp: matches_allowlist_def allowlist_loop_iff)

section \<open>Runs of the manager\<close>

datatype approval_event =
    CreateRequest string nat string "string option"
  | Resolve string approval_decision "string option"

fun approval_step :: "approval_manager \<Rightarrow> approval_event \<Rightarrow> approval_manager" where
  "approval_step m (CreateRequest rid tx c sk) = create_request m rid tx c sk"
| "approval_step m (Resolve rid d w) = fst (resolve m rid d w)"

interpretation appr: event_machine approval_step "\<lambda>_ _. True" "\<lambda>m. distinct_keys (pending m)"
proof (unfold_locales, goal_cases)
  case (1 s e)
  then show ?case
    by (cases e) (auto simp: create_request_def resolve_def Let_def distinct_update distinct_delete
        split: option.splits)
qed

definition created_in :: "approval_event list \<Rightarrow> string \<Rightarrow> nat \<Rightarrow> string \<Rightarrow> bool" where
  "created_in es rid tx c \<longleftrightarrow> (\<exists>xs ys sk. es = xs @ CreateRequest rid tx c sk # ys)"

definition approved_in :: "approval_event list \<Rightarrow> string \<Rightarrow> bool" where
  "approved_in es c \<longleftrightarrow> (\<exists>xs ys zs rid tx sk w.
     es = xs @ CreateRequest rid tx c sk # ys @ Resolve rid Approved (Some w) # zs)"

lemma created_in_snoc: "created_in es rid tx c \<Longrightarrow> created_in (es @ [e]) rid tx c"
  unfolding created_in_def by fastforce

lemma created_in_last: "created_in (es @ [CreateRequest rid tx c sk]) rid tx c"
  unfolding created_in_def by blast

lemma approved_in_snoc: "approved_in es c \<Longrightarrow> approved_in (es @ [e]) c"
  unfolding approved_in_def by fastforce

lemma approved_in_last:
  "created_in es rid tx c \<Longrightarrow> approved_in (es @ [Resolve rid Approved (Some w)]) c"
  unfolding created_in_def approved_in_def by fastforce

definition approval_trace_inv :: "approval_event list \<Rightarrow> approval_manager \<Rightarrow> bool" where
  "approval_trace_inv es m \<longleftrightarrow>
     (\<forall>rid p. (rid, p) \<in> set (pending m) \<longrightarrow> created_in es rid (pa_tx p) (pa_command p)) \<and>
     (\<forall>c\<in>approved_commands m. approved_in es c)"

lemma approval_trace_step:
  assumes "approval_trace_inv es m"
  shows "approval_trace_inv (es @ [e]) (approval_step m e)"
proof (cases e)
  case (CreateRequest rid tx c sk)
  with assms show ?thesis
    unfolding approval_trace_inv_def
    by (auto simp: create_request_def created_in_last created_in_snoc approved_in_snoc
        dest!: set_alist_updateD)
next
  case (Resolve rid d w)
  have sub: "set (AList.delete rid (pending m)) \<subseteq> set (pending m)"
    by (auto simp: AList.delete_eq)
  from assms Resolve sub show ?thesis
    unfolding approval_trace_inv_def
    by (auto simp: resolve_def Let_def created_in_snoc approved_in_snoc
        split: option.splits dest!: map_of_SomeD intro: approved_in_last)
qed

lemma approval_trace_run:
  "approval_trace_inv ds m \<Longrightarrow> approval_trace_inv (ds @ es) (foldl approval_step m es)"
proof (induction es arbitrary: ds m)
  case Nil
  then show ?case by simp
next
  case (Cons e es)
  from Cons.IH [OF approval_trace_step [OF Cons.prems]] show ?case by simp
qed

section \<open>Properties\<close>

text \<open>C2: \<open>check_command\<close> lets a command run without asking exactly when a dangerous pattern or a
  dangerous environment prefix is covered by the allowlist and the security level and mode permit
  it: never at level \<open>Deny\<close>, always at level \<open>Full\<close>; at level \<open>Allowlist\<close> in mode \<open>Off\<close> with an
  empty allowlist, a listed command or a safe binary, in mode \<open>OnMiss\<close> for a safe binary, a listed
  command or one approved before, and never in mode \<open>Always\<close>.\<close>

theorem check_command_proceeds_iff:
  "check_command re m c = Inr Proceed \<longleftrightarrow>
     (check_dangerous re c \<noteq> None \<longrightarrow> matches_allowlist c (allowlist m)) \<and>
     (trim c \<noteq> [] \<and> extract_first_bin c = None \<longrightarrow> matches_allowlist c (allowlist m)) \<and>
     (level m = Full \<or>
      level m = Allowlist \<and>
        (mode m = Off \<and> (allowlist m = [] \<or> matches_allowlist c (allowlist m) \<or> is_safe_command c) \<or>
         mode m = OnMiss \<and>
           (is_safe_command c \<or> matches_allowlist c (allowlist m) \<or> c \<in> approved_commands m)))"
  by (cases "level m"; cases "mode m")
    (auto simp: check_command_def check_env_prefix_def check_policy_def off_mode_def on_miss_mode_def
      split: option.splits)

theorem check_command_proceeds_iff_witness:
  "check_command (\<lambda>_ _. False) default_manager ''cat notes.txt'' = Inr Proceed"
proof -
  have "extract_first_bin ''cat notes.txt'' = Some ''cat''" "is_safe_command ''cat notes.txt''"
    by code_simp+
  then show ?thesis
    unfolding check_command_proceeds_iff
    by (simp add: check_dangerous_def DANGEROUS_PATTERN_DEFS_def default_manager_def)
qed

text \<open>In mode \<open>Off\<close>, where nobody is there to answer, a command is run or refused but never
  left waiting for an approval; and a dangerous command that the allowlist does not name is refused
  there whatever the security level.\<close>

theorem check_command_headless:
  assumes "mode m = Off"
  shows "check_command re m c \<noteq> Inr NeedsApproval \<and>
    (check_dangerous re c \<noteq> None \<and> \<not> matches_allowlist c (allowlist m) \<longrightarrow>
       (\<exists>e. check_command re m c = Inl e))"
  using assms
  by (cases "level m")
    (auto simp: check_command_def check_env_prefix_def check_policy_def off_mode_def
      split: option.splits)

theorem check_command_headless_witness:
  "check_command (\<lambda>_ _. True) (default_manager\<lparr>mode := Off, level := Full\<rparr>) ''ls'' \<noteq> Inr NeedsApproval \<and>
   (\<exists>e. check_command (\<lambda>_ _. True) (default_manager\<lparr>mode := Off, level := Full\<rparr>) ''ls'' = Inl e)"
proof -
  let ?m = "default_manager\<lparr>mode := Off, level := Full\<rparr>"
  have "check_dangerous (\<lambda>_ _. True) ''ls'' \<noteq> None"
    by (simp add: check_dangerous_def DANGEROUS_PATTERN_DEFS_def)
  moreover have "\<not> matches_allowlist ''ls'' (allowlist ?m)"
    by (simp add: matches_allowlist_def default_manager_def)
  moreover have "mode ?m = Off" by simp
  ultimately show ?thesis
    using check_command_headless [of ?m "\<lambda>_ _. True" "''ls''"] by simp
qed

text \<open>C1: a command that starts with variable assignments, one of which sets a variable that can
  hijack the process (in any letter case), never runs without an approval: not as a safe binary,
  not at security level \<open>Full\<close>, not after an earlier approval. The exceptions are an allowlist
  with the entry \<open>*\<close> or with an empty entry.\<close>

theorem env_prefix_never_proceeds:
  assumes "w \<in> set (leading_assignments c)" "hijacks w"
    and "''*'' \<notin> set (allowlist m)" "[] \<notin> set (allowlist m)"
  shows "\<not> is_safe_command c \<and> check_command re m c \<noteq> Inr Proceed"
proof -
  have none: "extract_first_bin c = None"
    using assms(1,2) by (auto simp: extract_first_bin_def first_bin_None_iff leading_assignments_def)
  have "trim c \<noteq> []"
    using assms(1) by (auto simp: leading_assignments_def split_whitespace_def)
  moreover have "\<not> matches_allowlist c (allowlist m)"
    using assms(3,4) none by (simp add: matches_allowlist_no_bin)
  ultimately show ?thesis
    using none by (auto simp: is_safe_command_def check_command_def check_env_prefix_def
        split: option.splits)
qed

theorem env_prefix_never_proceeds_witness:
  "\<not> is_safe_command ''A=1 Ld_Preload=/x.so cat f'' \<and>
   check_command (\<lambda>_ _. False) (default_manager\<lparr>level := Full\<rparr>) ''A=1 Ld_Preload=/x.so cat f'' \<noteq> Inr Proceed"
proof -
  have "''Ld_Preload=/x.so'' \<in> set (leading_assignments ''A=1 Ld_Preload=/x.so cat f'')"
    "hijacks ''Ld_Preload=/x.so''"
    by code_simp+
  then show ?thesis
    by (rule env_prefix_never_proceeds) (simp_all add: default_manager_def)
qed

text \<open>The scan for dangerous patterns reads the whole command when it holds no here-document
  operator, and also when its first here-document is never closed: hiding text from the scan takes
  a here-document that the shell would really skip.\<close>

theorem check_dangerous_scans_whole:
  assumes "find_sub ''<<'' c = None \<or>
    (\<exists>pre l0 ls d ds. split_inclusive c = pre @ l0 # ls \<and>
       (\<forall>l\<in>set pre. heredoc_delimiters (trim_end_by (\<lambda>x. x = newline) l) = []) \<and>
       heredoc_delimiters (trim_end_by (\<lambda>x. x = newline) l0) = d # ds \<and>
       (\<forall>l\<in>set ls. \<not> closes d l))"
  shows "check_dangerous re c = map_option snd (find (\<lambda>(p, _). re p c) DANGEROUS_PATTERN_DEFS)"
proof -
  from assms have "strip_heredoc_bodies c = c"
    using strip_heredoc_bodies_plain strip_heredoc_bodies_unclosed by metis
  then show ?thesis by (simp add: check_dangerous_def)
qed

theorem check_dangerous_scans_whole_witness:
  "check_dangerous (\<lambda>p t. p = re_src ''%bmkfs%b'' \<and> sublist ''mkfs'' t) (''cat <<E'' @ [newline] @ ''mkfs /dev/sda'')
     = Some ''make filesystem''"
proof -
  let ?c = "''cat <<E'' @ [newline] @ ''mkfs /dev/sda''"
  let ?d = "\<lparr>marker = ''E'', strip_tabs = False\<rparr>"
  have "split_inclusive ?c = [] @ (''cat <<E'' @ [newline]) # [''mkfs /dev/sda'']"
    "heredoc_delimiters (trim_end_by (\<lambda>x. x = newline) (''cat <<E'' @ [newline])) = [?d]"
    "\<not> closes ?d ''mkfs /dev/sda''"
    by code_simp+
  then have "check_dangerous re ?c = map_option snd (find (\<lambda>(p, _). re p ?c) DANGEROUS_PATTERN_DEFS)" for re
    by (intro check_dangerous_scans_whole disjI2 exI [of _ "[]"] exI [of _ "''cat <<E'' @ [newline]"]
        exI [of _ "[''mkfs /dev/sda'']"] exI [of _ ?d]) simp
  moreover have "sublist ''mkfs'' ?c" by code_simp
  ultimately show ?thesis
    by (simp add: DANGEROUS_PATTERN_DEFS_def re_src_def backslash_def)
qed

text \<open>C3: in every run of create and resolve operations from an empty manager, a command is on the
  list of approved commands only if a request was created for exactly that command and a later
  resolution of that request's identifier was an approval that asked to remember it.\<close>

theorem approved_only_after_approval:
  assumes "pending m = []" "approved_commands m = {}"
    and "c \<in> approved_commands (foldl approval_step m es)"
  shows "\<exists>xs ys zs rid tx sk w.
    es = xs @ CreateRequest rid tx c sk # ys @ Resolve rid Approved (Some w) # zs"
proof -
  have "approval_trace_inv [] m"
    using assms(1,2) by (simp add: approval_trace_inv_def)
  from approval_trace_run [OF this, of es] assms(3) show ?thesis
    by (auto simp: approval_trace_inv_def approved_in_def)
qed

theorem approved_only_after_approval_witness:
  "\<exists>xs ys zs rid tx sk w.
    [CreateRequest ''r1'' 7 ''make'' None, Resolve ''r1'' Approved (Some ''make'')] =
    xs @ CreateRequest rid tx ''make'' sk # ys @ Resolve rid Approved (Some w) # zs"
  by (rule approved_only_after_approval [of default_manager])
    (simp_all add: default_manager_def create_request_def resolve_def Let_def)

text \<open>Creating a request under a fresh identifier and resolving it delivers the decision to that
  request's own channel, restores the table of pending requests, remembers the command exactly when
  the approval asked for it, and leaves nothing to deliver a second time.\<close>

theorem create_resolve_roundtrip:
  assumes "rid \<notin> fst ` set (pending m)"
  shows "resolve (create_request m rid tx c sk) rid d w =
      (m\<lparr>approved_commands := (if d = Approved \<and> w \<noteq> None then insert c (approved_commands m)
                               else approved_commands m)\<rparr>, Some (tx, d)) \<and>
    snd (resolve (fst (resolve (create_request m rid tx c sk) rid d w)) rid d' w') = None"
proof -
  have "AList.delete rid (AList.update rid p (pending m)) = pending m" for p
    using assms by (simp add: delete_update_same)
  moreover have "map_of (pending m) rid = None"
    using assms by (simp add: map_of_eq_None_iff)
  ultimately show ?thesis
    by (auto simp: create_request_def resolve_def update_conv' Let_def)
qed

theorem create_resolve_roundtrip_witness:
  "resolve (create_request default_manager ''r'' 3 ''make'' None) ''r'' Approved (Some ''y'') =
     (default_manager\<lparr>approved_commands :=
        (if Approved = Approved \<and> Some ''y'' \<noteq> None then insert ''make'' (approved_commands default_manager)
         else approved_commands default_manager)\<rparr>, Some (3, Approved)) \<and>
   snd (resolve (fst (resolve (create_request default_manager ''r'' 3 ''make'' None) ''r'' Approved (Some ''y'')))
     ''r'' Denied None) = None"
  by (rule create_resolve_roundtrip) (simp add: default_manager_def)

text \<open>In every reachable manager the list of pending identifiers is sorted, free of duplicates and
  names exactly the open requests; the listing for a session holds exactly the open requests of that
  session.\<close>

theorem pending_views_exact:
  assumes "m = foldl approval_step default_manager es"
  shows "sorted (pending_ids m) \<and> distinct (pending_ids m) \<and>
    set (pending_ids m) = dom (map_of (pending m)) \<and>
    set (pending_requests_for_session m k) =
      {\<lparr>pv_id = i, pv_command = pa_command p, pv_session_key = Some k\<rparr> | i p.
         map_of (pending m) i = Some p \<and> pa_session_key p = Some k}"
proof -
  have d: "distinct_keys (pending m)"
    unfolding assms by (rule appr.inv_run) (simp_all add: default_manager_def)
  then have mem: "map_of (pending m) i = Some p \<longleftrightarrow> (i, p) \<in> set (pending m)" for i p
    by simp
  have "sorted (pending_ids m) \<and> distinct (pending_ids m) \<and> set (pending_ids m) = dom (map_of (pending m))"
    using d by (simp add: pending_ids_def dom_map_of_conv_image_fst)
  moreover have "set (pending_requests_for_session m k) =
      {\<lparr>pv_id = i, pv_command = pa_command p, pv_session_key = Some k\<rparr> | i p.
         map_of (pending m) i = Some p \<and> pa_session_key p = Some k}"
    unfolding mem by (force simp: pending_requests_for_session_def pending_requests_def)
  ultimately show ?thesis by blast
qed

theorem pending_views_exact_witness:
  "sorted (pending_ids (foldl approval_step default_manager [CreateRequest ''b'' 1 ''ls'' (Some ''s'')]))"
  using pending_views_exact [OF refl] by blast

end
