(* ===== verification/Tool_Policy.thy ===== *)
theory Tool_Policy
  imports Rust_Text
begin

text \<open>
  The layered tool policy, \<open>crates/tools/src/policy.rs\<close>: glob patterns, one policy's decision,
  the merge of two policies, and \<open>resolve_effective_policy\<close> over the six layers of the
  configuration. The configuration is the part of \<open>MoltisConfig\<close> that the resolution reads; its
  hash maps are partial functions, and \<open>tool_policy_for_account\<close>, which deserialises a JSON
  value on demand, is the partial function from channel and account to the override it yields.

  The locale \<open>layering\<close> holds the algebra of a merge with a neutral element, and the fact that
  skipping neutral layers does not change the result; policies are an instance.
\<close>

section \<open>Model\<close>

record tool_policy =
  allow :: "string list"
  deny :: "string list"

definition empty_policy :: tool_policy where
  "empty_policy = \<lparr>allow = [], deny = []\<rparr>"

record policy_context =
  agent_id :: string
  provider :: "string option"
  channel :: "string option"
  channel_account_id :: "string option"
  group_id :: "string option"
  sender_id :: "string option"
  sandboxed :: bool

record tool_policy_config =
  cfg_allow :: "string list"
  cfg_deny :: "string list"
  cfg_profile :: "string option"

datatype preset_mcp_policy = McpAll | McpDeny "string list" | McpAllow "string list"

record agent_preset =
  preset_allow :: "string list"
  preset_deny :: "string list"
  preset_mcp :: preset_mcp_policy

record group_tool_policy =
  group_allow :: "string list"
  group_deny :: "string list"
  by_sender :: "string \<rightharpoonup> tool_policy_config"

record policy_sources =
  tools_policy :: tool_policy_config
  provider_policies :: "string \<rightharpoonup> tool_policy_config option"
  presets :: "string \<rightharpoonup> agent_preset"
  channel_groups :: "string \<Rightarrow> string \<rightharpoonup> (string \<rightharpoonup> group_tool_policy)"
  sandbox_tools_policy :: "tool_policy_config option"

definition profile_tools :: "string \<Rightarrow> tool_policy" where
  "profile_tools profile =
     (if profile = ''minimal'' then \<lparr>allow = [''exec''], deny = []\<rparr>
      else if profile = ''coding'' then \<lparr>allow = [''exec'', ''browser'', ''memory''], deny = []\<rparr>
      else if profile = ''full'' then \<lparr>allow = [''*''], deny = []\<rparr>
      else empty_policy)"

definition pattern_matches :: "string \<Rightarrow> string \<Rightarrow> bool" where
  "pattern_matches pattern name =
     (if pattern = ''*'' then True
      else case strip_suffix pattern ''*'' of
        Some pre \<Rightarrow> starts_with name pre
      | None \<Rightarrow> pattern = name)"

definition is_allowed :: "tool_policy \<Rightarrow> string \<Rightarrow> bool" where
  "is_allowed p tool_name =
     (if list_ex (\<lambda>pattern. pattern_matches pattern tool_name) (deny p) then False
      else if allow p = [] then True
      else list_ex (\<lambda>pattern. pattern_matches pattern tool_name) (allow p))"

definition merge_with :: "tool_policy \<Rightarrow> tool_policy \<Rightarrow> tool_policy" where
  "merge_with self other =
     \<lparr>allow = (if allow other = [] then allow self else allow other),
      deny = deny self @ deny other\<rparr>"

definition to_deny_pattern :: "string \<Rightarrow> string" where
  "to_deny_pattern server = ''mcp__'' @ server @ ''__*''"

text \<open>A layer is applied only when one of its lists is not empty.\<close>

definition apply_layer :: "tool_policy \<Rightarrow> tool_policy \<Rightarrow> tool_policy" where
  "apply_layer effective p =
     (if allow p \<noteq> [] \<or> deny p \<noteq> [] then merge_with effective p else effective)"

definition profile_policy :: "string option \<Rightarrow> tool_policy" where
  "profile_policy profile =
     (case profile of Some name \<Rightarrow> (if name \<noteq> [] then profile_tools name else empty_policy)
      | None \<Rightarrow> empty_policy)"

definition policy_from_config :: "tool_policy_config \<Rightarrow> tool_policy" where
  "policy_from_config cfg =
     apply_layer (profile_policy (cfg_profile cfg)) \<lparr>allow = cfg_allow cfg, deny = cfg_deny cfg\<rparr>"

definition global_layer :: "policy_sources \<Rightarrow> tool_policy \<Rightarrow> tool_policy" where
  "global_layer config effective =
     apply_layer
       (case cfg_profile (tools_policy config) of
          Some profile \<Rightarrow>
            if profile \<noteq> [] then merge_with effective (profile_tools profile) else effective
        | None \<Rightarrow> effective)
       \<lparr>allow = cfg_allow (tools_policy config), deny = cfg_deny (tools_policy config)\<rparr>"

definition provider_layer :: "policy_sources \<Rightarrow> policy_context \<Rightarrow> tool_policy \<Rightarrow> tool_policy" where
  "provider_layer config ctx effective =
     (case provider ctx of
        Some name \<Rightarrow>
          (case provider_policies config name of
             Some (Some p) \<Rightarrow> apply_layer effective (policy_from_config p)
           | _ \<Rightarrow> effective)
      | None \<Rightarrow> effective)"

definition preset_policy :: "agent_preset \<Rightarrow> tool_policy" where
  "preset_policy preset =
     \<lparr>allow = preset_allow preset,
      deny = preset_deny preset @
        (case preset_mcp preset of
           McpDeny servers \<Rightarrow> map to_deny_pattern servers
         | McpAll \<Rightarrow> []
         | McpAllow _ \<Rightarrow> [])\<rparr>"

definition preset_layer :: "policy_sources \<Rightarrow> policy_context \<Rightarrow> tool_policy \<Rightarrow> tool_policy" where
  "preset_layer config ctx effective =
     (case presets config (agent_id ctx) of
        Some preset \<Rightarrow> apply_layer effective (preset_policy preset)
      | None \<Rightarrow> effective)"

definition selected_group :: "policy_sources \<Rightarrow> policy_context \<Rightarrow> group_tool_policy option" where
  "selected_group config ctx =
     Option.bind (channel ctx) (\<lambda>ch.
     Option.bind (channel_account_id ctx) (\<lambda>acc.
     Option.bind (group_id ctx) (\<lambda>g.
     Option.bind (channel_groups config ch acc) (\<lambda>groups. groups g))))"

definition channel_layers :: "policy_sources \<Rightarrow> policy_context \<Rightarrow> tool_policy \<Rightarrow> tool_policy" where
  "channel_layers config ctx effective =
     (case selected_group config ctx of
        Some gp \<Rightarrow>
          (let eff = apply_layer effective \<lparr>allow = group_allow gp, deny = group_deny gp\<rparr> in
           case sender_id ctx of
             Some s \<Rightarrow>
               (case by_sender gp s of
                  Some sp \<Rightarrow> apply_layer eff (policy_from_config sp)
                | None \<Rightarrow> eff)
           | None \<Rightarrow> eff)
      | None \<Rightarrow> effective)"

definition sandbox_layer :: "policy_sources \<Rightarrow> policy_context \<Rightarrow> tool_policy \<Rightarrow> tool_policy" where
  "sandbox_layer config ctx effective =
     (if sandboxed ctx then
        (case sandbox_tools_policy config of
           Some p \<Rightarrow> apply_layer effective (policy_from_config p)
         | None \<Rightarrow> effective)
      else effective)"

definition resolve_effective_policy :: "policy_sources \<Rightarrow> policy_context \<Rightarrow> tool_policy" where
  "resolve_effective_policy config ctx =
     sandbox_layer config ctx (channel_layers config ctx (preset_layer config ctx
       (provider_layer config ctx (global_layer config empty_policy))))"

section \<open>The algebra of layers\<close>

locale layering =
  fixes merge :: "'p \<Rightarrow> 'p \<Rightarrow> 'p"
    and neutral :: 'p
  assumes merge_assoc: "merge (merge a b) c = merge a (merge b c)"
    and merge_neutral_left: "merge neutral a = a"
    and merge_neutral_right: "merge a neutral = a"
begin

definition overlay :: "'p list \<Rightarrow> 'p" where
  "overlay ps = foldl merge neutral ps"

lemma foldl_merge: "foldl merge a ps = merge a (overlay ps)"
proof (induction ps arbitrary: a)
  case Nil
  then show ?case by (simp add: overlay_def merge_neutral_right)
next
  case (Cons p ps)
  have "foldl merge a (p # ps) = merge (merge a p) (overlay ps)"
    using Cons by simp
  also have "\<dots> = merge a (foldl merge p ps)"
    using Cons [of p] by (simp add: merge_assoc)
  finally show ?case by (simp add: overlay_def merge_neutral_left)
qed

lemma overlay_Nil [simp]: "overlay [] = neutral"
  by (simp add: overlay_def)

lemma overlay_append: "overlay (ps @ qs) = merge (overlay ps) (overlay qs)"
  using foldl_merge [of "overlay ps" qs] by (simp add: overlay_def)

lemma overlay_Cons: "overlay (p # ps) = merge p (overlay ps)"
  using foldl_merge [of p ps] by (simp add: overlay_def merge_neutral_left)

lemma overlay_skip_neutral: "overlay (filter (\<lambda>p. p \<noteq> neutral) ps) = overlay ps"
proof (induction ps)
  case Nil
  then show ?case by simp
next
  case (Cons p ps)
  then show ?case by (cases "p = neutral") (simp_all add: overlay_Cons merge_neutral_left)
qed

end

interpretation tp: layering merge_with empty_policy
  by unfold_locales (simp_all add: merge_with_def empty_policy_def)

section \<open>Lemmas\<close>

lemma empty_policy_sel [simp]: "allow empty_policy = []" "deny empty_policy = []"
  by (simp_all add: empty_policy_def)

lemma apply_layer_eq [simp]: "apply_layer effective p = merge_with effective p"
  by (cases p) (auto simp: apply_layer_def merge_with_def)

lemma pattern_matches_star: "pattern_matches (pre @ ''*'') name \<longleftrightarrow> prefix pre name"
  by (auto simp: pattern_matches_def strip_suffix_def ends_with_def starts_with_def)

definition denies :: "tool_policy \<Rightarrow> string \<Rightarrow> bool" where
  "denies p t \<longleftrightarrow> (\<exists>pattern\<in>set (deny p). pattern_matches pattern t)"

definition grants :: "tool_policy \<Rightarrow> string \<Rightarrow> bool" where
  "grants p t \<longleftrightarrow> (\<exists>pattern\<in>set (allow p). pattern_matches pattern t)"

lemma is_allowed_iff: "is_allowed p t \<longleftrightarrow> \<not> denies p t \<and> (allow p = [] \<or> grants p t)"
  by (auto simp: is_allowed_def denies_def grants_def list_ex_iff)

lemma allow_merge: "allow (merge_with p q) = (if allow q = [] then allow p else allow q)"
  by (simp add: merge_with_def)

lemma denies_merge: "denies (merge_with p q) t \<longleftrightarrow> denies p t \<or> denies q t"
  by (auto simp: denies_def merge_with_def)

lemma denies_overlay: "denies (tp.overlay ps) t \<longleftrightarrow> (\<exists>p\<in>set ps. denies p t)"
proof (induction ps)
  case Nil
  then show ?case by (simp add: denies_def)
next
  case (Cons p ps)
  then show ?case by (simp add: tp.overlay_Cons denies_merge)
qed

lemma allow_overlay:
  "allow (tp.overlay ps) = (case filter (\<lambda>a. a \<noteq> []) (map allow ps) of [] \<Rightarrow> [] | as \<Rightarrow> last as)"
proof (induction ps)
  case Nil
  then show ?case by simp
next
  case (Cons p ps)
  have "allow (tp.overlay ps) = [] \<longleftrightarrow> filter (\<lambda>a. a \<noteq> []) (map allow ps) = []"
    unfolding Cons by (auto split: list.split dest: last_filter)
  with Cons show ?case
    by (auto simp: tp.overlay_Cons allow_merge split: list.split)
qed

text \<open>The layers of a resolution, least specific first.\<close>

definition policy_layers :: "policy_sources \<Rightarrow> policy_context \<Rightarrow> tool_policy list" where
  "policy_layers config ctx =
     [profile_policy (cfg_profile (tools_policy config)),
      \<lparr>allow = cfg_allow (tools_policy config), deny = cfg_deny (tools_policy config)\<rparr>] @
     (case Option.bind (provider ctx) (provider_policies config) of
        Some (Some p) \<Rightarrow> [policy_from_config p] | _ \<Rightarrow> []) @
     (case presets config (agent_id ctx) of Some preset \<Rightarrow> [preset_policy preset] | None \<Rightarrow> []) @
     (case selected_group config ctx of
        Some gp \<Rightarrow>
          \<lparr>allow = group_allow gp, deny = group_deny gp\<rparr> #
          (case Option.bind (sender_id ctx) (by_sender gp) of
             Some sp \<Rightarrow> [policy_from_config sp] | None \<Rightarrow> [])
      | None \<Rightarrow> []) @
     (case sandbox_tools_policy config of
        Some p \<Rightarrow> (if sandboxed ctx then [policy_from_config p] else []) | None \<Rightarrow> [])"

lemma global_layer_overlay:
  "global_layer config e =
   merge_with (merge_with e (profile_policy (cfg_profile (tools_policy config))))
     \<lparr>allow = cfg_allow (tools_policy config), deny = cfg_deny (tools_policy config)\<rparr>"
  by (auto simp: global_layer_def profile_policy_def tp.merge_neutral_right split: option.splits)

lemma resolve_is_overlay: "resolve_effective_policy config ctx = tp.overlay (policy_layers config ctx)"
  unfolding resolve_effective_policy_def policy_layers_def tp.overlay_def global_layer_overlay
  by (auto simp: sandbox_layer_def channel_layers_def preset_layer_def provider_layer_def Let_def
      split: option.splits)

section \<open>Properties\<close>

text \<open>C4: the effective policy allows a tool exactly when no applicable layer denies it and the most
  specific layer with an allow list, if there is one, grants it. A denial of any layer (global,
  provider, preset, group, sender, sandbox) cannot be undone by another.\<close>

theorem effective_policy_decision:
  "is_allowed (resolve_effective_policy config ctx) t \<longleftrightarrow>
     \<not> (\<exists>l\<in>set (policy_layers config ctx). denies l t) \<and>
     (case filter (\<lambda>a. a \<noteq> []) (map allow (policy_layers config ctx)) of
        [] \<Rightarrow> True
      | as \<Rightarrow> list_ex (\<lambda>pattern. pattern_matches pattern t) (last as))"
proof -
  show ?thesis
    unfolding is_allowed_iff resolve_is_overlay denies_overlay grants_def allow_overlay
    by (auto simp: list_ex_iff split: list.splits dest: last_filter)
qed

text \<open>A server named in the preset's MCP deny list is shut off: none of its tools is allowed,
  whatever the other layers grant.\<close>

theorem mcp_denied_server_unreachable:
  assumes "presets config (agent_id ctx) = Some preset" "preset_mcp preset = McpDeny servers"
    and "server \<in> set servers"
  shows "\<not> is_allowed (resolve_effective_policy config ctx) (''mcp__'' @ server @ ''__'' @ tool)"
proof -
  have "pattern_matches (to_deny_pattern server) (''mcp__'' @ server @ ''__'' @ tool)"
    using pattern_matches_star [of "''mcp__'' @ server @ ''__''"] by (simp add: to_deny_pattern_def)
  then have "denies (preset_policy preset) (''mcp__'' @ server @ ''__'' @ tool)"
    using assms(2,3) by (auto simp: denies_def preset_policy_def)
  moreover have "preset_policy preset \<in> set (policy_layers config ctx)"
    using assms(1) by (simp add: policy_layers_def)
  ultimately show ?thesis
    unfolding is_allowed_iff resolve_is_overlay denies_overlay by blast
qed

theorem mcp_denied_server_unreachable_witness:
  "\<not> is_allowed
     (resolve_effective_policy
       \<lparr>tools_policy = \<lparr>cfg_allow = [''*''], cfg_deny = [], cfg_profile = Some ''full''\<rparr>,
        provider_policies = Map.empty,
        presets = [''main'' \<mapsto> \<lparr>preset_allow = [], preset_deny = [], preset_mcp = McpDeny [''git'']\<rparr>],
        channel_groups = (\<lambda>_ _. None), sandbox_tools_policy = None\<rparr>
       \<lparr>agent_id = ''main'', provider = None, channel = None, channel_account_id = None,
        group_id = None, sender_id = None, sandboxed = False\<rparr>)
     (''mcp__'' @ ''git'' @ ''__'' @ ''push'')"
  by (rule mcp_denied_server_unreachable [where servers = "[''git'']" and preset =
        "\<lparr>preset_allow = [], preset_deny = [], preset_mcp = McpDeny [''git'']\<rparr>"]) simp_all

text \<open>Turning the sandbox on never lifts a denial, and a sandbox policy that only denies can
  only take tools away.\<close>

theorem sandbox_only_restricts:
  assumes "\<forall>p. sandbox_tools_policy config = Some p \<longrightarrow> allow (policy_from_config p) = []"
  shows "is_allowed (resolve_effective_policy config (ctx\<lparr>sandboxed := True\<rparr>)) t \<Longrightarrow>
    is_allowed (resolve_effective_policy config (ctx\<lparr>sandboxed := False\<rparr>)) t"
proof -
  let ?off = "resolve_effective_policy config (ctx\<lparr>sandboxed := False\<rparr>)"
  have on: "resolve_effective_policy config (ctx\<lparr>sandboxed := True\<rparr>) =
    (case sandbox_tools_policy config of Some p \<Rightarrow> merge_with ?off (policy_from_config p) | None \<Rightarrow> ?off)"
    by (simp add: resolve_effective_policy_def sandbox_layer_def channel_layers_def selected_group_def
        preset_layer_def provider_layer_def split: option.split)
  assume "is_allowed (resolve_effective_policy config (ctx\<lparr>sandboxed := True\<rparr>)) t"
  with assms on show ?thesis
    by (auto simp: is_allowed_iff denies_merge grants_def allow_merge split: option.splits)
qed

theorem sandbox_only_restricts_witness:
  "let config = \<lparr>tools_policy = \<lparr>cfg_allow = [], cfg_deny = [], cfg_profile = None\<rparr>,
        provider_policies = Map.empty, presets = Map.empty, channel_groups = (\<lambda>_ _. None),
        sandbox_tools_policy = Some \<lparr>cfg_allow = [], cfg_deny = [''exec''], cfg_profile = None\<rparr>\<rparr>;
      ctx = \<lparr>agent_id = ''main'', provider = None, channel = None, channel_account_id = None,
        group_id = None, sender_id = None, sandboxed = False\<rparr>
   in is_allowed (resolve_effective_policy config (ctx\<lparr>sandboxed := True\<rparr>)) ''browser'' \<and>
      is_allowed (resolve_effective_policy config (ctx\<lparr>sandboxed := False\<rparr>)) ''browser''"
proof -
  let ?config = "\<lparr>tools_policy = \<lparr>cfg_allow = [], cfg_deny = [], cfg_profile = None\<rparr>,
        provider_policies = Map.empty, presets = Map.empty, channel_groups = (\<lambda>_ _. None),
        sandbox_tools_policy = Some \<lparr>cfg_allow = [], cfg_deny = [''exec''], cfg_profile = None\<rparr>\<rparr>"
  let ?ctx = "\<lparr>agent_id = ''main'', provider = None, channel = None, channel_account_id = None,
        group_id = None, sender_id = None, sandboxed = False\<rparr>"
  have h: "\<forall>p. sandbox_tools_policy ?config = Some p \<longrightarrow> allow (policy_from_config p) = []"
    by (simp add: policy_from_config_def profile_policy_def empty_policy_def merge_with_def)
  have on: "is_allowed (resolve_effective_policy ?config (?ctx\<lparr>sandboxed := True\<rparr>)) ''browser''"
    by (simp add: resolve_effective_policy_def sandbox_layer_def channel_layers_def selected_group_def
        preset_layer_def provider_layer_def global_layer_def is_allowed_def policy_from_config_def
        profile_policy_def merge_with_def pattern_matches_def strip_suffix_def ends_with_def)
  show ?thesis
    using on sandbox_only_restricts [OF h on] by simp
qed

end
