(* ===== verification/Loop_Detector.thy ===== *)
theory Loop_Detector
  imports Rust_Text "HOL-Library.Char_ord" "HOL-Library.List_Lexorder" "HOL-Library.Multiset"
begin

text \<open>
  The tool-call loop detector of the agent runner, \<open>crates/agents/src/tool_loop_detector.rs\<close>:
  fingerprints of tool calls, the ring of recent failures, the two escalation stages, and the
  canonical text of the arguments from which the fingerprint is taken.

  \<open>DefaultHasher\<close> is the argument \<open>h\<close>: its algorithm is not specified. A JSON number is its
  printed text, and an object is the list of its members. The two functions that format the
  messages for the model build text only and are left out.
\<close>

section \<open>Canonical arguments\<close>

datatype json =
    JNull
  | JBool bool
  | JNumber string
  | JString string
  | JArray "json list"
  | JObject "(string \<times> json) list"

fun join_strings :: "string \<Rightarrow> string list \<Rightarrow> string" where
  "join_strings sep [] = []"
| "join_strings sep [s] = s"
| "join_strings sep (s # t # ts) = s @ sep @ join_strings sep (t # ts)"

definition quoted :: "string \<Rightarrow> string" where
  "quoted s = [double_quote] @ s @ [double_quote]"

text \<open>The members are visited in the order of their keys; a JSON object has each key once.\<close>

fun canonicalize :: "json \<Rightarrow> string" where
  "canonicalize JNull = ''null''"
| "canonicalize (JBool b) = (if b then ''true'' else ''false'')"
| "canonicalize (JNumber n) = n"
| "canonicalize (JString s) = quoted s"
| "canonicalize (JArray arr) = ''['' @ join_strings '','' (map canonicalize arr) @ '']''"
| "canonicalize (JObject members) =
     ''{'' @ join_strings '',''
       (map (\<lambda>(k, c). quoted k @ '':'' @ c)
         (sort_key fst (map (\<lambda>(k, v). (k, canonicalize v)) members))) @ ''}''"

definition hash_value :: "(string \<Rightarrow> nat) \<Rightarrow> json \<Rightarrow> nat" where
  "hash_value h v = h (canonicalize v)"

section \<open>The detector\<close>

record fingerprint =
  tool_name :: string
  args_hash :: nat
  failed :: bool
  error_hash :: "nat option"
  error_text :: "string option"
  arguments :: json

definition success_fp :: "(string \<Rightarrow> nat) \<Rightarrow> string \<Rightarrow> json \<Rightarrow> fingerprint" where
  "success_fp h name args =
     \<lparr>tool_name = name, args_hash = hash_value h args, failed = False, error_hash = None,
      error_text = None, arguments = args\<rparr>"

definition failure_fp :: "(string \<Rightarrow> nat) \<Rightarrow> string \<Rightarrow> json \<Rightarrow> string option \<Rightarrow> fingerprint" where
  "failure_fp h name args err =
     \<lparr>tool_name = name, args_hash = hash_value h args, failed = True,
      error_hash = map_option h err, error_text = err, arguments = args\<rparr>"

datatype intervention_stage = NoStage | Nudged | StripStage

datatype detector_action = NoAction | InjectNudge | StripTools

record detector =
  recent :: "fingerprint list"
  window :: nat
  strip_on_second_fire :: bool
  stage :: intervention_stage
  nudge_delivered :: bool

definition new_detector :: "nat \<Rightarrow> bool \<Rightarrow> detector" where
  "new_detector w strip =
     \<lparr>recent = [], window = w, strip_on_second_fire = strip, stage = NoStage, nudge_delivered = False\<rparr>"

definition is_enabled :: "detector \<Rightarrow> bool" where
  "is_enabled d \<longleftrightarrow> 0 < window d"

definition reset :: "detector \<Rightarrow> detector" where
  "reset d = d\<lparr>recent := [], stage := NoStage, nudge_delivered := False\<rparr>"

definition all_match :: "fingerprint list \<Rightarrow> bool" where
  "all_match fps =
     (case fps of
        [] \<Rightarrow> False
      | first # _ \<Rightarrow>
          if \<not> list_all (\<lambda>fp. tool_name fp = tool_name first) fps then False
          else list_all (\<lambda>fp. args_hash fp = args_hash first) fps \<or>
               (error_hash first \<noteq> None \<and> list_all (\<lambda>fp. error_hash fp = error_hash first) fps))"

definition push_recent :: "nat \<Rightarrow> fingerprint list \<Rightarrow> fingerprint \<Rightarrow> fingerprint list" where
  "push_recent w fps fp = drop (Suc (length fps) - w) (fps @ [fp])"

definition escalate :: "detector \<Rightarrow> detector \<times> detector_action" where
  "escalate d =
     (case stage d of
        NoStage \<Rightarrow> (d\<lparr>stage := Nudged\<rparr>, InjectNudge)
      | Nudged \<Rightarrow>
          if strip_on_second_fire d then (d\<lparr>stage := StripStage\<rparr>, StripTools) else (d, NoAction)
      | StripStage \<Rightarrow> (d, NoAction))"

definition record_call :: "detector \<Rightarrow> fingerprint \<Rightarrow> detector \<times> detector_action" where
  "record_call d fp =
     (if window d = 0 then (d, NoAction)
      else if \<not> failed fp then (reset d, NoAction)
      else
        let d' = d\<lparr>recent := push_recent (window d) (recent d) fp\<rparr> in
        if length (recent d') < window d then (d', NoAction)
        else if \<not> all_match (recent d') then (d', NoAction)
        else escalate d')"

definition clear_strip_tools :: "detector \<Rightarrow> detector" where
  "clear_strip_tools d =
     (if stage d = StripStage
      then d\<lparr>stage := NoStage, recent := [], nudge_delivered := False\<rparr> else d)"

definition consume_pending_action :: "detector \<Rightarrow> detector \<times> detector_action" where
  "consume_pending_action d =
     (case stage d of
        NoStage \<Rightarrow> (d, NoAction)
      | Nudged \<Rightarrow>
          if nudge_delivered d then (d, NoAction)
          else (d\<lparr>nudge_delivered := True\<rparr>, InjectNudge)
      | StripStage \<Rightarrow>
          if nudge_delivered d then (d, StripTools)
          else (d\<lparr>stage := Nudged, nudge_delivered := True\<rparr>, InjectNudge))"

definition window_snapshot :: "detector \<Rightarrow> fingerprint list" where
  "window_snapshot d = recent d"

section \<open>Runs\<close>

text \<open>What the runner does with a detector: it records outcomes, takes the pending action after a
  batch, and clears the strip stage after the turn without tools.\<close>

datatype detector_event = Record fingerprint | Consume | ClearStrip

fun detector_step :: "detector \<Rightarrow> detector_event \<Rightarrow> detector \<times> detector_action" where
  "detector_step d (Record fp) = record_call d fp"
| "detector_step d Consume = consume_pending_action d"
| "detector_step d ClearStrip = (clear_strip_tools d, NoAction)"

fun detector_run :: "detector \<Rightarrow> detector_event list \<Rightarrow> detector \<times> (detector_event \<times> detector_action) list" where
  "detector_run d [] = (d, [])"
| "detector_run d (e # es) =
     (let (d', a) = detector_step d e; (d'', out) = detector_run d' es in (d'', (e, a) # out))"

definition detector_inv :: "detector \<Rightarrow> bool" where
  "detector_inv d \<longleftrightarrow>
     length (recent d) \<le> window d \<and> list_all failed (recent d) \<and>
     (stage d = NoStage \<longrightarrow> \<not> nudge_delivered d) \<and>
     (stage d = StripStage \<longrightarrow> strip_on_second_fire d) \<and>
     (stage d \<noteq> NoStage \<longrightarrow> 0 < window d)"

lemmas detector_defs [machine_defs] =
  detector_inv_def record_call_def escalate_def reset_def clear_strip_tools_def
  consume_pending_action_def new_detector_def

lemma length_push_recent: "0 < w \<Longrightarrow> length fps \<le> w \<Longrightarrow>
   length (push_recent w fps fp) = min w (Suc (length fps))"
  by (auto simp: push_recent_def)

lemma set_push_recent: "set (push_recent w fps fp) \<subseteq> insert fp (set fps)"
  by (metis append.assoc list.simps(15) push_recent_def rotate1.simps(2) set_drop_subset set_rotate1)

lemma detector_inv_step: "detector_inv d \<Longrightarrow> detector_inv (fst (detector_step d e))"
proof (cases e)
  case (Record fp)
  assume inv: "detector_inv d"
  have "list_all failed (push_recent (window d) (recent d) fp)" if "failed fp"
    using inv that set_push_recent [of "window d" "recent d" fp]
    by (auto simp: detector_inv_def list_all_iff)
  with inv Record show ?thesis
    by (auto simp: machine_defs length_push_recent Let_def split: intervention_stage.split)
qed (auto simp: machine_defs split: intervention_stage.split)

interpretation det: event_machine "\<lambda>d e. fst (detector_step d e)" "\<lambda>_ _. True" detector_inv
  by unfold_locales (rule detector_inv_step)

section \<open>Lemmas\<close>

lemma detector_run_snoc:
  "detector_run d (es @ [e]) =
     (let (d', out) = detector_run d es; (d'', a) = detector_step d' e in (d'', out @ [(e, a)]))"
  by (induction es arbitrary: d) (auto simp: Let_def split: prod.splits)

lemma fst_detector_run: "fst (detector_run d es) = foldl (\<lambda>d e. fst (detector_step d e)) d es"
  by (induction es arbitrary: d) (simp_all add: Let_def case_prod_unfold)

lemma detector_inv_run: "detector_inv d \<Longrightarrow> detector_inv (fst (detector_run d es))"
  unfolding fst_detector_run by (rule det.inv_run) simp_all

lemma new_detector_inv: "detector_inv (new_detector w strip)"
  by (simp add: detector_inv_def new_detector_def)

definition keeps_failing :: "detector_event \<times> detector_action \<Rightarrow> bool" where
  "keeps_failing ea \<longleftrightarrow> (case fst ea of Record fp \<Rightarrow> failed fp | _ \<Rightarrow> True)"

definition nudged_before :: "(detector_event \<times> detector_action) list \<Rightarrow> bool" where
  "nudged_before out \<longleftrightarrow>
     (\<exists>ys zs. out = ys @ (Consume, InjectNudge) # zs \<and> list_all keeps_failing zs)"

lemma nudged_before_snoc: "nudged_before out \<Longrightarrow> keeps_failing ea \<Longrightarrow> nudged_before (out @ [ea])"
  unfolding nudged_before_def by fastforce

lemma nudged_before_now: "nudged_before (out @ [(Consume, InjectNudge)])"
  unfolding nudged_before_def by fastforce

lemma nudge_delivered_trace:
  assumes "detector_inv d" "\<not> nudge_delivered d"
  shows "nudge_delivered (fst (detector_run d es)) \<Longrightarrow> nudged_before (snd (detector_run d es))"
proof (induction es rule: rev_induct)
  case Nil
  with assms show ?case by simp
next
  case (snoc e es)
  obtain d' out where run: "detector_run d es = (d', out)" by fastforce
  obtain d'' a where st: "detector_step d' e = (d'', a)" by fastforce
  have inv: "detector_inv d'"
    using detector_inv_run [OF assms(1), of es] run by simp
  have delivered: "nudge_delivered d''"
    using snoc.prems run st by (simp add: detector_run_snoc)
  have step: "a = InjectNudge \<and> e = Consume \<or> nudge_delivered d' \<and> keeps_failing (e, a)"
    using delivered st inv
    by (cases e) (auto simp: machine_defs keeps_failing_def Let_def
        split: if_splits intervention_stage.splits)
  then show ?case
    using snoc.IH run st
    by (auto simp: detector_run_snoc intro: nudged_before_snoc nudged_before_now)
qed

fun recorded :: "detector_event list \<Rightarrow> fingerprint list" where
  "recorded [] = []"
| "recorded (Record fp # es) = fp # recorded es"
| "recorded (_ # es) = recorded es"

lemma recorded_append [simp]: "recorded (xs @ ys) = recorded xs @ recorded ys"
  by (induction xs rule: recorded.induct) auto

definition trailing_failures :: "fingerprint list \<Rightarrow> fingerprint list" where
  "trailing_failures fps = rev (takeWhile failed (rev fps))"

lemma trailing_failures_snoc:
  "trailing_failures (fps @ [fp]) = (if failed fp then trailing_failures fps @ [fp] else [])"
  by (simp add: trailing_failures_def)

lemma push_recent_last_n: "0 < w \<Longrightarrow> push_recent w (last_n w xs) x = last_n w (xs @ [x])"
  by (cases "w \<le> length xs") (simp_all add: push_recent_def last_n_def Suc_diff_le)

lemma window_constant [simp]: "window (fst (detector_step d e)) = window d"
  by (cases e) (auto simp: machine_defs Let_def split: intervention_stage.splits)

lemma window_run [simp]: "window (fst (detector_run d es)) = window d"
  by (induction es arbitrary: d) (simp_all add: Let_def case_prod_unfold)

lemma recent_record: "0 < window d \<Longrightarrow> recent (fst (record_call d fp)) =
    (if failed fp then push_recent (window d) (recent d) fp else [])"
  by (auto simp: machine_defs Let_def split: intervention_stage.split)

lemma recent_run:
  assumes "0 < w" "ClearStrip \<notin> set es"
  shows "recent (fst (detector_run (new_detector w strip) es)) = last_n w (trailing_failures (recorded es))"
  using assms(2)
proof (induction es rule: rev_induct)
  case Nil
  then show ?case by (simp add: new_detector_def trailing_failures_def last_n_def)
next
  case (snoc e es)
  let ?d = "fst (detector_run (new_detector w strip) es)"
  have w: "window ?d = w" by (simp add: new_detector_def)
  have "fst (detector_run (new_detector w strip) (es @ [e])) = fst (detector_step ?d e)"
    by (simp add: detector_run_snoc case_prod_unfold Let_def)
  moreover have "recent (fst (detector_step ?d e)) = last_n w (trailing_failures (recorded (es @ [e])))"
  proof (cases e)
    case (Record fp)
    with snoc w assms(1) show ?thesis
      by (simp add: recent_record trailing_failures_snoc push_recent_last_n) (simp add: last_n_def)
  next
    case Consume
    with snoc show ?thesis
      by (auto simp: consume_pending_action_def split: intervention_stage.split)
  next
    case ClearStrip
    with snoc show ?thesis by simp
  qed
  ultimately show ?case by simp
qed

lemma record_fires:
  assumes "0 < window d" "snd (record_call d fp) \<noteq> NoAction"
  shows "failed fp \<and> window d \<le> length (push_recent (window d) (recent d) fp) \<and>
    all_match (push_recent (window d) (recent d) fp)"
  using assms by (auto simp: record_call_def Let_def split: if_splits)

lemma record_below_window:
  assumes "stage d = NoStage" "Suc (length (recent d)) < window d" "failed fp"
  shows "record_call d fp = (d\<lparr>recent := recent d @ [fp]\<rparr>, NoAction)"
  using assms by (simp add: record_call_def push_recent_def Let_def)

lemma run_below_window:
  assumes "length (recent d) + length fps < window d" "stage d = NoStage" "list_all failed fps"
  shows "detector_run d (map Record fps) =
     (d\<lparr>recent := recent d @ fps\<rparr>, map (\<lambda>fp. (Record fp, NoAction)) fps)"
  using assms
proof (induction fps arbitrary: d)
  case Nil
  then show ?case by simp
next
  case (Cons fp fps)
  then have "record_call d fp = (d\<lparr>recent := recent d @ [fp]\<rparr>, NoAction)"
    by (intro record_below_window) auto
  with Cons show ?case by (simp add: Let_def)
qed

lemma detector_run_append:
  "detector_run d (xs @ ys) =
     (let (d', o1) = detector_run d xs; (d'', o2) = detector_run d' ys in (d'', o1 @ o2))"
  by (induction xs arbitrary: d) (auto simp: Let_def split: prod.splits)

text \<open>Equality of JSON values up to the order of the members of their objects.\<close>

inductive same_json :: "json \<Rightarrow> json \<Rightarrow> bool" where
  same_refl: "same_json v v"
| same_array: "list_all2 same_json xs ys \<Longrightarrow> same_json (JArray xs) (JArray ys)"
| same_object: "distinct_keys ms \<Longrightarrow> mset ms = mset ms' \<Longrightarrow> map fst ms' = map fst ns \<Longrightarrow>
    list_all2 same_json (map snd ms') (map snd ns) \<Longrightarrow>
    same_json (JObject ms) (JObject ns)"

lemma sort_key_eq_of_mset:
  assumes "mset xs = mset ys" "inj_on f (set xs)"
  shows "sort_key f xs = sort_key f ys"
proof (rule properties_for_sort_key)
  show "mset (sort_key f ys) = mset xs"
    using assms(1) by simp
  show "filter (\<lambda>x. f k = f x) (sort_key f ys) = filter (\<lambda>x. f k = f x) xs" if "k \<in> set (sort_key f ys)" for k
  proof -
    have k: "k \<in> set xs" and st: "set xs = set ys"
      using that assms(1) by (auto dest: mset_eq_setD)
    have eq: "f k = f x \<longleftrightarrow> x = k" if "x \<in> set xs" for x
      using assms(2) k that by (auto dest: inj_onD)
    have "filter (\<lambda>x. f k = f x) zs = replicate (count_list zs k) k" if "set zs = set xs" for zs
    proof -
      have "filter (\<lambda>x. f k = f x) zs = filter (\<lambda>x. x = k) zs"
        using eq that by (intro filter_cong) auto
      also have "\<dots> = replicate (count_list zs k) k"
        by (induction zs) auto
      finally show ?thesis .
    qed
    moreover have "count_list (sort_key f ys) k = count_list xs k"
      using assms(1) by (simp flip: count_mset)
    ultimately show ?thesis using st by simp
  qed
qed simp

lemma same_json_canonical: "same_json v w \<Longrightarrow> canonicalize v = canonicalize w"
proof (induction rule: same_json.induct)
  case (same_refl v)
  show ?case ..
next
  case (same_array xs ys)
  then have "map canonicalize xs = map canonicalize ys"
    by (auto simp: list_all2_conv_all_nth intro!: nth_equalityI)
  then show ?case by simp
next
  case (same_object ms ms' ns)
  let ?f = "\<lambda>(k, v). (k, canonicalize v)"
  have zip_f: "map ?f xs = zip (map fst xs) (map canonicalize (map snd xs))" for xs
    by (induction xs) auto
  have "map canonicalize (map snd ms') = map canonicalize (map snd ns)"
    using same_object(4) by (auto simp: list_all2_conv_all_nth intro!: nth_equalityI)
  then have eq: "map ?f ms' = map ?f ns"
    unfolding zip_f same_object(3) by simp
  have inj: "inj_on fst (set (map ?f ms))"
    using same_object(1) by (fastforce simp: inj_on_def distinct_map)
  have mm: "mset (map ?f ms) = mset (map ?f ms')"
    using same_object(2) by (simp only: mset_map)
  have "sort_key fst (map ?f ms) = sort_key fst (map ?f ms')"
    by (rule sort_key_eq_of_mset [OF mm inj])
  with eq show ?case by simp
qed

lemma last_n_append: "n \<le> length ys \<Longrightarrow> last_n n (xs @ ys) = last_n n ys"
  by (simp add: last_n_def)

section \<open>Properties\<close>

text \<open>An intervention is raised only for a real loop. When recording a call raises an action, the
  last \<open>window\<close> recorded calls are all failures with no success among or after them, all of one tool,
  and all with the same arguments or all with the same error.\<close>

theorem intervention_only_on_loop:
  assumes "0 < w" "ClearStrip \<notin> set es"
    and "snd (record_call (fst (detector_run (new_detector w strip) es)) fp) \<noteq> NoAction"
  shows "let calls = recorded es @ [fp]; loop = last_n w calls in
    w \<le> length (trailing_failures calls) \<and> list_all failed loop \<and> all_match loop"
proof -
  let ?d = "fst (detector_run (new_detector w strip) es)" and ?calls = "recorded es @ [fp]"
  have w: "window ?d = w" by (simp add: new_detector_def)
  with assms have f: "failed fp" and len: "w \<le> length (push_recent w (recent ?d) fp)"
    and am: "all_match (push_recent w (recent ?d) fp)"
    using record_fires [of ?d fp] by auto
  have push: "push_recent w (recent ?d) fp = last_n w (trailing_failures ?calls)"
    using f assms(1,2) by (simp add: recent_run push_recent_last_n trailing_failures_snoc)
  have len': "w \<le> length (trailing_failures ?calls)"
    using len push by (simp add: last_n_def)
  obtain pre where split: "?calls = pre @ trailing_failures ?calls"
    by (metis rev_append rev_rev_ident takeWhile_dropWhile_id trailing_failures_def)
  have last: "last_n w ?calls = last_n w (trailing_failures ?calls)"
    using len' by (subst split) (rule last_n_append)
  have "list_all failed (trailing_failures ?calls)"
    by (auto simp: trailing_failures_def list_all_iff dest: set_takeWhileD)
  then have "list_all failed (last_n w ?calls)"
    unfolding last by (auto simp: last_n_def list_all_iff dest: in_set_dropD)
  with len' am push last show ?thesis by simp
qed

theorem intervention_only_on_loop_witness:
  "let f = failure_fp (\<lambda>_. 0) ''exec'' JNull None;
      calls = recorded [Record f] @ [f]; loop = last_n 2 calls in
    2 \<le> length (trailing_failures calls) \<and> list_all failed loop \<and> all_match loop"
proof -
  let ?f = "failure_fp (\<lambda>_. 0) ''exec'' JNull None"
  have "snd (record_call (fst (detector_run (new_detector 2 True) [Record ?f])) ?f) \<noteq> NoAction"
    by (simp add: machine_defs push_recent_def all_match_def failure_fp_def Let_def numeral_2_eq_2)
  then show ?thesis
    using intervention_only_on_loop [of 2 "[Record ?f]" True ?f] by (simp add: Let_def)
qed

text \<open>The escalation never skips the nudge. In every run, when the runner is told to strip the
  tools, it was handed the nudge before, and every call recorded since then failed.\<close>

theorem strip_only_after_nudge:
  assumes "snd (detector_run (new_detector w strip) es) = out @ [(Consume, StripTools)]"
  shows "\<exists>ys zs. out = ys @ (Consume, InjectNudge) # zs \<and>
    (\<forall>ea\<in>set zs. case fst ea of Record fp \<Rightarrow> failed fp | _ \<Rightarrow> True)"
proof -
  from assms obtain ds e where es: "es = ds @ [e]"
    by (cases es rule: rev_cases) simp_all
  let ?d = "fst (detector_run (new_detector w strip) ds)"
  have "snd (detector_run (new_detector w strip) es) =
      snd (detector_run (new_detector w strip) ds) @ [(e, snd (detector_step ?d e))]"
    by (simp add: es detector_run_snoc Let_def case_prod_unfold)
  with assms have out: "out = snd (detector_run (new_detector w strip) ds)" and e: "e = Consume"
    and a: "snd (consume_pending_action ?d) = StripTools"
    by auto
  have "nudge_delivered ?d"
    using a by (auto simp: consume_pending_action_def split: intervention_stage.splits if_splits)
  then have "nudged_before out"
    unfolding out using nudge_delivered_trace [OF new_detector_inv, of w strip ds] by (simp add: new_detector_def)
  then show ?thesis
    by (simp add: nudged_before_def keeps_failing_def list_all_iff)
qed

theorem strip_only_after_nudge_witness:
  "let f = Record (failure_fp (\<lambda>_. 0) ''exec'' JNull None) in
   \<exists>ys zs. [(f, InjectNudge), (Consume, InjectNudge), (f, StripTools)] = ys @ (Consume, InjectNudge) # zs \<and>
    (\<forall>ea\<in>set zs. case fst ea of Record fp \<Rightarrow> failed fp | _ \<Rightarrow> True)"
proof -
  let ?f = "Record (failure_fp (\<lambda>_. 0) ''exec'' JNull None)"
  have "snd (detector_run (new_detector 1 True) [?f, Consume, ?f, Consume]) =
     [(?f, InjectNudge), (Consume, InjectNudge), (?f, StripTools)] @ [(Consume, StripTools)]"
    by (simp add: machine_defs push_recent_def all_match_def failure_fp_def Let_def)
  from strip_only_after_nudge [OF this] show ?thesis
    by (simp add: Let_def)
qed

text \<open>C5: a model that is stuck is stopped. With escalation on, \<open>window\<close> matching failures in a row
  hand the runner the nudge, and one more matching failure makes it strip the tools.\<close>

theorem stuck_model_is_stopped:
  assumes "length fps = w" "0 < w" "list_all failed fps" "all_match fps"
    and "failed fp" "all_match (tl fps @ [fp])"
  shows "snd (detector_run (new_detector w True) (map Record fps @ [Consume, Record fp, Consume])) =
    map (\<lambda>f. (Record f, NoAction)) (butlast fps) @
    [(Record (last fps), InjectNudge), (Consume, InjectNudge), (Record fp, StripTools),
     (Consume, StripTools)]"
proof -
  let ?d0 = "new_detector w True"
  have fps: "fps = butlast fps @ [last fps]"
    using assms(1,2) by (metis append_butlast_last_id length_greater_0_conv)
  have "list_all failed (butlast fps)"
    using assms(3) by (metis fps list_all_append)
  then have r1: "detector_run ?d0 (map Record (butlast fps)) =
      (?d0\<lparr>recent := butlast fps\<rparr>, map (\<lambda>f. (Record f, NoAction)) (butlast fps))"
    using run_below_window [of ?d0 "butlast fps"] assms(1,2) by (simp add: new_detector_def)
  let ?d1 = "?d0\<lparr>recent := butlast fps\<rparr>"
  have f: "failed (last fps)"
    using assms(1-3) by (auto simp: list_all_iff)
  have p1: "push_recent w (butlast fps) (last fps) = fps"
    using assms(1,2) fps by (simp add: push_recent_def)
  have r2: "record_call ?d1 (last fps) = (?d0\<lparr>recent := fps, stage := Nudged\<rparr>, InjectNudge)"
    using f p1 assms(1,2,4) by (simp add: machine_defs Let_def)
  have p2: "push_recent w fps fp = tl fps @ [fp]"
    using assms(1,2) by (simp add: push_recent_def drop_Suc)
  let ?d2 = "?d0\<lparr>recent := fps, stage := Nudged, nudge_delivered := True\<rparr>"
  have r3: "record_call ?d2 fp = (?d2\<lparr>recent := tl fps @ [fp], stage := StripStage\<rparr>, StripTools)"
    using p2 assms by (simp add: machine_defs Let_def)
  have "map Record fps @ [Consume, Record fp, Consume] =
      map Record (butlast fps) @ [Record (last fps), Consume, Record fp, Consume]"
    by (subst fps) simp
  then show ?thesis
    using r1 r2 r3 by (simp add: detector_run_append Let_def consume_pending_action_def new_detector_def)
qed

theorem stuck_model_is_stopped_witness:
  "let f = failure_fp (\<lambda>_. 0) ''exec'' JNull (Some ''e'') in
   snd (detector_run (new_detector 2 True) (map Record [f, f] @ [Consume, Record f, Consume])) =
    map (\<lambda>f. (Record f, NoAction)) (butlast [f, f]) @
    [(Record (last [f, f]), InjectNudge), (Consume, InjectNudge), (Record f, StripTools),
     (Consume, StripTools)]"
  unfolding Let_def
  by (rule stuck_model_is_stopped) (simp_all add: failure_fp_def all_match_def)

text \<open>The fingerprint of a call does not depend on the order in which the model writes the members
  of the argument objects, at any depth.\<close>

theorem fingerprint_ignores_member_order:
  assumes "same_json v w"
  shows "failure_fp h name v err = (failure_fp h name w err)\<lparr>arguments := v\<rparr> \<and>
    all_match [failure_fp h name v err, failure_fp h name w err']"
  using same_json_canonical [OF assms] by (simp add: failure_fp_def hash_value_def all_match_def)

theorem fingerprint_ignores_member_order_witness:
  "let v = JObject [(''a'', JNull), (''b'', JBool True)]; w = JObject [(''b'', JBool True), (''a'', JNull)] in
   failure_fp length ''t'' v None = (failure_fp length ''t'' w None)\<lparr>arguments := v\<rparr> \<and>
   all_match [failure_fp length ''t'' v None, failure_fp length ''t'' w (Some ''e'')]"
  unfolding Let_def
  by (rule fingerprint_ignores_member_order)
    (rule same_object [where ms' = "[(''b'', JBool True), (''a'', JNull)]"],
      simp_all add: same_refl add_mset_commute)

text \<open>The canonical text does not escape quotes, so different arguments can share it.\<close>

lemma canonicalize_collision:
  "JArray [JString ''a'', JString ''b''] \<noteq> JArray [JString (''a'' @ [double_quote] @ '','' @ [double_quote] @ ''b'')] \<and>
   canonicalize (JArray [JString ''a'', JString ''b'']) =
   canonicalize (JArray [JString (''a'' @ [double_quote] @ '','' @ [double_quote] @ ''b'')])"
  by (simp add: quoted_def)

end
