(* ===== verification/Fair_Queue.thy ===== *)
theory Fair_Queue
  imports Moltis_Prelude "HOL-Library.Multiset"
begin

text \<open>
  The account-fair work queue of the channel callbacks, \<open>crates/channels/src/fair_queue.rs\<close>: the
  queues behind the mutex, admission, and the concurrent system of the supervisor task and its
  workers.

  The concurrent part is a transition system. A transition is what one task does between two points
  where another can interfere: one critical section of the mutex, one channel operation, one branch
  of the supervisor's \<open>select!\<close>. \<open>admit\<close> reads the cancellation token before it takes the lock, so
  its view of the token may be old; it fails when the lock is contended. A job that panics finishes
  like any other: the worker awaits the spawned task. The lists \<open>admitted\<close>, \<open>started\<close> and
  \<open>finished\<close> are history only; no operation reads them.
\<close>

section \<open>The queues\<close>

record 'p job =
  account_id :: string
  payload :: 'p

datatype admission = Admitted | Rejected

record queue_config =
  cfg_capacity :: nat
  cfg_workers :: nat
  cfg_per_account_capacity :: nat

definition new_config :: "nat \<Rightarrow> nat \<Rightarrow> queue_config" where
  "new_config capacity workers =
     \<lparr>cfg_capacity = capacity, cfg_workers = max workers 1,
      cfg_per_account_capacity = max (capacity div max workers 1) 1\<rparr>"

record 'p account_queue =
  jobs :: "'p job list"
  active_account :: bool

record 'p queues =
  accounts_of :: "string \<rightharpoonup> 'p account_queue"
  ready :: "string list"
  per_account_capacity :: nat

definition new_queues :: "nat \<Rightarrow> 'p queues" where
  "new_queues cap = \<lparr>accounts_of = Map.empty, ready = [], per_account_capacity = cap\<rparr>"

definition has_capacity :: "'p queues \<Rightarrow> string \<Rightarrow> bool" where
  "has_capacity q a =
     (case accounts_of q a of
        None \<Rightarrow> True
      | Some aq \<Rightarrow> length (jobs aq) + (if active_account aq then 1 else 0) < per_account_capacity q)"

definition try_enqueue :: "'p queues \<Rightarrow> 'p job \<Rightarrow> 'p queues \<times> bool" where
  "try_enqueue q j =
     (let a = account_id j in
      if \<not> has_capacity q a then (q, False)
      else
        let aq = (case accounts_of q a of Some x \<Rightarrow> x | None \<Rightarrow> \<lparr>jobs = [], active_account = False\<rparr>);
            became_ready = (\<not> active_account aq \<and> jobs aq = []);
            q = q\<lparr>accounts_of := (accounts_of q)(a \<mapsto> aq\<lparr>jobs := jobs aq @ [j]\<rparr>)\<rparr>
        in (if became_ready then q\<lparr>ready := ready q @ [a]\<rparr> else q, True))"

definition rollback_last :: "'p queues \<Rightarrow> string \<Rightarrow> 'p queues" where
  "rollback_last q a =
     (case accounts_of q a of
        None \<Rightarrow> q
      | Some aq \<Rightarrow>
          let aq = aq\<lparr>jobs := butlast (jobs aq)\<rparr> in
          if \<not> active_account aq \<and> jobs aq = []
          then q\<lparr>ready := filter (\<lambda>r. r \<noteq> a) (ready q), accounts_of := (accounts_of q)(a := None)\<rparr>
          else q\<lparr>accounts_of := (accounts_of q)(a \<mapsto> aq)\<rparr>)"

fun take_loop :: "(string \<rightharpoonup> 'p account_queue) \<Rightarrow> string list \<Rightarrow>
    (string \<rightharpoonup> 'p account_queue) \<times> string list \<times> 'p job option" where
  "take_loop acc [] = (acc, [], None)"
| "take_loop acc (a # rs) =
     (case acc a of
        None \<Rightarrow> take_loop acc rs
      | Some aq \<Rightarrow>
          (case jobs aq of
             [] \<Rightarrow> take_loop acc rs
           | j # js \<Rightarrow> (acc(a \<mapsto> aq\<lparr>jobs := js, active_account := True\<rparr>), rs, Some j)))"

definition take_next :: "'p queues \<Rightarrow> 'p queues \<times> 'p job option" where
  "take_next q =
     (let (acc, rs, j) = take_loop (accounts_of q) (ready q)
      in (q\<lparr>accounts_of := acc, ready := rs\<rparr>, j))"

definition complete :: "'p queues \<Rightarrow> string \<Rightarrow> 'p queues" where
  "complete q a =
     (case accounts_of q a of
        None \<Rightarrow> q
      | Some aq \<Rightarrow>
          if jobs aq = [] then q\<lparr>accounts_of := (accounts_of q)(a := None)\<rparr>
          else q\<lparr>accounts_of := (accounts_of q)(a \<mapsto> aq\<lparr>active_account := False\<rparr>),
                 ready := ready q @ [a]\<rparr>)"

definition queues_empty :: "'p queues \<Rightarrow> bool" where
  "queues_empty q \<longleftrightarrow> accounts_of q = Map.empty"

section \<open>The concurrent system\<close>

text \<open>Where the supervisor is in its loop: filling idle workers, testing for the end of the drain,
  waiting in \<open>select!\<close>, ended after the drain, or ended by the error branch of \<open>try_send\<close>.\<close>

datatype phase = Filling | Checking | Waiting | Stopped | Failed

datatype 'p worker_phase = Receiving | Processing "'p job" | Reporting string

record 'p worker =
  mailbox :: "'p job option"
  wphase :: "'p worker_phase"

record 'p fair_queue =
  fq_queues :: "'p queues"
  capacity :: nat
  permits :: nat
  cancelled :: bool
  dropped :: bool
  wake_pending :: bool
  wake_closed :: bool
  accepting :: bool
  sphase :: phase
  idle :: "nat list"
  pool :: "nat \<Rightarrow> 'p worker"
  completions :: "(nat \<times> string) list"
  admitted :: "'p job list"
  started :: "'p job list"
  finished :: "'p job list"

definition start_queue :: "queue_config \<Rightarrow> 'p fair_queue" where
  "start_queue cfg =
     \<lparr>fq_queues = new_queues (cfg_per_account_capacity cfg), capacity = cfg_capacity cfg,
      permits = cfg_capacity cfg, cancelled = False, dropped = False, wake_pending = False,
      wake_closed = False, accepting = True, sphase = Filling, idle = [0..<cfg_workers cfg],
      pool = (\<lambda>_. \<lparr>mailbox = None, wphase = Receiving\<rparr>), completions = [], admitted = [], started = [],
      finished = []\<rparr>"

text \<open>\<open>admit\<close>, with what it read from the token and whether it found the lock taken. Taking a permit
  fails when none is left; the slot that is not enqueued, or that \<open>rollback_last\<close> pops, returns it.\<close>

definition admit :: "'p fair_queue \<Rightarrow> bool \<Rightarrow> bool \<Rightarrow> 'p job \<Rightarrow> 'p fair_queue \<times> admission" where
  "admit s saw_cancelled contended j =
     (if saw_cancelled then (s, Rejected)
      else if contended then (s, Rejected)
      else if \<not> has_capacity (fq_queues s) (account_id j) then (s, Rejected)
      else if permits s = 0 then (s, Rejected)
      else
        let (q, ok) = try_enqueue (fq_queues s) j in
        if \<not> ok then (s, Rejected)
        else if wake_closed s
        then (s\<lparr>fq_queues := rollback_last q (account_id j)\<rparr>, Rejected)
        else (s\<lparr>fq_queues := q, permits := permits s - 1, wake_pending := True,
                admitted := admitted s @ [j]\<rparr>, Admitted))"

definition in_flight :: "'p fair_queue \<Rightarrow> nat" where
  "in_flight s = capacity s - permits s"

datatype 'p event =
    Admit bool bool "'p job"
  | Cancel
  | DropHandle
  | Fill
  | CheckDrained
  | SeeCancelled
  | SeeWake
  | SeeClosed
  | TakeCompletion
  | WorkerStart nat
  | WorkerFinish nat
  | WorkerReport nat

definition fill_step :: "'p fair_queue \<Rightarrow> 'p fair_queue" where
  "fill_step s =
     (case idle s of
        [] \<Rightarrow> s\<lparr>sphase := Checking\<rparr>
      | i # rest \<Rightarrow>
          (case take_next (fq_queues s) of
             (q, None) \<Rightarrow> s\<lparr>fq_queues := q, sphase := Checking\<rparr>
           | (q, Some j) \<Rightarrow>
               if mailbox (pool s i) \<noteq> None then s\<lparr>fq_queues := q, idle := rest, sphase := Failed\<rparr>
               else s\<lparr>fq_queues := q, idle := rest, pool := (pool s)(i := (pool s i)\<lparr>mailbox := Some j\<rparr>)\<rparr>))"

fun fq_step :: "'p fair_queue \<Rightarrow> 'p event \<Rightarrow> 'p fair_queue option" where
  "fq_step s (Admit saw contended j) =
     (if dropped s \<or> (saw \<and> \<not> cancelled s) then None else Some (fst (admit s saw contended j)))"
| "fq_step s Cancel = Some (s\<lparr>cancelled := True\<rparr>)"
| "fq_step s DropHandle = Some (s\<lparr>cancelled := True, dropped := True\<rparr>)"
| "fq_step s Fill = (if sphase s = Filling then Some (fill_step s) else None)"
| "fq_step s CheckDrained =
     (if sphase s = Checking
      then Some (if \<not> accepting s \<and> queues_empty (fq_queues s)
                 then s\<lparr>sphase := Stopped, wake_closed := True\<rparr> else s\<lparr>sphase := Waiting\<rparr>)
      else None)"
| "fq_step s SeeCancelled =
     (if sphase s = Waiting \<and> accepting s \<and> cancelled s
      then Some (s\<lparr>accepting := False, wake_closed := True, sphase := Filling\<rparr>) else None)"
| "fq_step s SeeWake =
     (if sphase s = Waiting \<and> accepting s \<and> wake_pending s
      then Some (s\<lparr>wake_pending := False, sphase := Filling\<rparr>) else None)"
| "fq_step s SeeClosed =
     (if sphase s = Waiting \<and> accepting s \<and> dropped s \<and> \<not> wake_pending s
      then Some (s\<lparr>accepting := False, sphase := Filling\<rparr>) else None)"
| "fq_step s TakeCompletion =
     (if sphase s = Waiting
      then (case completions s of
              [] \<Rightarrow> None
            | (i, a) # cs \<Rightarrow>
                Some (s\<lparr>completions := cs, fq_queues := complete (fq_queues s) a,
                        idle := idle s @ [i], sphase := Filling\<rparr>))
      else None)"
| "fq_step s (WorkerStart i) =
     (case (wphase (pool s i), mailbox (pool s i)) of
        (Receiving, Some j) \<Rightarrow>
          Some (s\<lparr>pool := (pool s)(i := \<lparr>mailbox = None, wphase = Processing j\<rparr>), started := started s @ [j]\<rparr>)
      | _ \<Rightarrow> None)"
| "fq_step s (WorkerFinish i) =
     (case wphase (pool s i) of
        Processing j \<Rightarrow>
          Some (s\<lparr>pool := (pool s)(i := (pool s i)\<lparr>wphase := Reporting (account_id j)\<rparr>),
                  permits := permits s + 1, finished := finished s @ [j]\<rparr>)
      | _ \<Rightarrow> None)"
| "fq_step s (WorkerReport i) =
     (case wphase (pool s i) of
        Reporting a \<Rightarrow>
          Some (s\<lparr>pool := (pool s)(i := (pool s i)\<lparr>wphase := Receiving\<rparr>),
                  completions := completions s @ [(i, a)]\<rparr>)
      | _ \<Rightarrow> None)"

inductive reachable :: "queue_config \<Rightarrow> 'p fair_queue \<Rightarrow> bool" for cfg where
  reach_start: "reachable cfg (start_queue cfg)"
| reach_step: "reachable cfg s \<Longrightarrow> fq_step s e = Some s' \<Longrightarrow> reachable cfg s'"

section \<open>The contract of the queues\<close>

text \<open>What the supervisor and admission rely on: each account has a queue, in arrival order, and is
  held by at most one worker; an account is ready when it has work and is not held; ready accounts
  are served in turn.\<close>

locale account_queues =
  fixes inv :: "'q \<Rightarrow> bool"
    and waiting :: "'q \<Rightarrow> string \<Rightarrow> 'p job list"
    and held :: "'q \<Rightarrow> string \<Rightarrow> bool"
    and turn :: "'q \<Rightarrow> string list"
    and enq :: "'q \<Rightarrow> 'p job \<Rightarrow> 'q"
    and room :: "'q \<Rightarrow> string \<Rightarrow> bool"
    and deq :: "'q \<Rightarrow> 'q \<times> 'p job option"
    and release :: "'q \<Rightarrow> string \<Rightarrow> 'q"
  assumes turn_iff: "inv q \<Longrightarrow> a \<in> set (turn q) \<longleftrightarrow> waiting q a \<noteq> [] \<and> \<not> held q a"
    and turn_distinct: "inv q \<Longrightarrow> distinct (turn q)"
    and waiting_account: "inv q \<Longrightarrow> j \<in> set (waiting q a) \<Longrightarrow> account_id j = a"
    and enq_inv: "inv q \<Longrightarrow> room q (account_id j) \<Longrightarrow> inv (enq q j)"
    and enq_waiting: "inv q \<Longrightarrow> room q (account_id j) \<Longrightarrow>
      waiting (enq q j) = (waiting q)(account_id j := waiting q (account_id j) @ [j])"
    and enq_held: "inv q \<Longrightarrow> room q (account_id j) \<Longrightarrow> held (enq q j) = held q"
    and deq_empty: "inv q \<Longrightarrow> turn q = [] \<Longrightarrow> deq q = (q, None)"
    and deq_next: "inv q \<Longrightarrow> turn q = a # rs \<Longrightarrow> waiting q a = j # js \<Longrightarrow>
      \<exists>q'. deq q = (q', Some j) \<and> inv q' \<and> turn q' = rs \<and> waiting q' = (waiting q)(a := js) \<and>
        held q' = (held q)(a := True)"
    and release_inv: "inv q \<Longrightarrow> held q a \<Longrightarrow> inv (release q a)"
    and release_waiting: "inv q \<Longrightarrow> held q a \<Longrightarrow> waiting (release q a) = waiting q"
    and release_held: "inv q \<Longrightarrow> held q a \<Longrightarrow> held (release q a) = (held q)(a := False)"
begin

text \<open>Serving a job: it is the oldest of an account that no worker holds, and the account is held
  from then on.\<close>

lemma deq_Some:
  assumes "inv q" "deq q = (q', Some j)"
  shows "inv q' \<and> \<not> held q (account_id j) \<and> held q' = (held q)(account_id j := True) \<and>
    waiting q = (waiting q')(account_id j := j # waiting q' (account_id j)) \<and>
    turn q = account_id j # turn q'"
proof (cases "turn q")
  case Nil
  then show ?thesis using deq_empty [OF assms(1)] assms(2) by simp
next
  case (Cons a rs)
  then have a: "waiting q a \<noteq> []" "\<not> held q a"
    using turn_iff [OF assms(1), of a] by auto
  then obtain j' js where w: "waiting q a = j' # js" by (cases "waiting q a") auto
  from deq_next [OF assms(1) Cons w] assms(2) have "j' = j" "inv q'" "turn q' = rs"
    "waiting q' = (waiting q)(a := js)" "held q' = (held q)(a := True)" by auto
  moreover have "account_id j' = a"
    using waiting_account [OF assms(1), of j' a] w by simp
  ultimately show ?thesis using w Cons a by auto
qed

lemma deq_None:
  assumes "inv q" "deq q = (q', None)"
  shows "q' = q \<and> turn q = []"
proof (cases "turn q")
  case Nil
  then show ?thesis using deq_empty [OF assms(1)] assms(2) by simp
next
  case (Cons a rs)
  then obtain j js where "waiting q a = j # js"
    using turn_iff [OF assms(1), of a] by (cases "waiting q a") auto
  from deq_next [OF assms(1) Cons this] assms(2) show ?thesis by auto
qed

end

definition queued :: "'p queues \<Rightarrow> string \<Rightarrow> 'p job list" where
  "queued q a = (case accounts_of q a of Some aq \<Rightarrow> jobs aq | None \<Rightarrow> [])"

definition is_active :: "'p queues \<Rightarrow> string \<Rightarrow> bool" where
  "is_active q a = (case accounts_of q a of Some aq \<Rightarrow> active_account aq | None \<Rightarrow> False)"

definition account_queue_ok :: "nat \<Rightarrow> string \<Rightarrow> 'p account_queue \<Rightarrow> bool" where
  "account_queue_ok cap a aq \<longleftrightarrow> (jobs aq \<noteq> [] \<or> active_account aq) \<and> (\<forall>j\<in>set (jobs aq). account_id j = a) \<and>
     length (jobs aq) + (if active_account aq then 1 else 0) \<le> max 1 cap"

definition queue_inv :: "'p queues \<Rightarrow> bool" where
  "queue_inv q \<longleftrightarrow>
     distinct (ready q) \<and> (\<forall>a. a \<in> set (ready q) \<longleftrightarrow> queued q a \<noteq> [] \<and> \<not> is_active q a) \<and>
     (\<forall>a aq. accounts_of q a = Some aq \<longrightarrow> account_queue_ok (per_account_capacity q) a aq)"

lemmas queue_abs = queued_def is_active_def

lemma queue_invD:
  assumes "queue_inv q"
  shows "distinct (ready q)" "a \<in> set (ready q) \<longleftrightarrow> queued q a \<noteq> [] \<and> \<not> is_active q a"
    and "accounts_of q a = Some aq \<Longrightarrow> account_queue_ok (per_account_capacity q) a aq"
  using assms unfolding queue_inv_def by blast+

lemma queued_try_enqueue:
  "has_capacity q (account_id j) \<Longrightarrow>
   queued (fst (try_enqueue q j)) = (queued q)(account_id j := queued q (account_id j) @ [j])"
  by (auto simp: queue_abs try_enqueue_def Let_def fun_eq_iff split: option.splits)

lemma is_active_try_enqueue: "is_active (fst (try_enqueue q j)) = is_active q"
  by (auto simp: queue_abs try_enqueue_def Let_def fun_eq_iff split: option.splits)

lemma ready_try_enqueue:
  "has_capacity q (account_id j) \<Longrightarrow>
   ready (fst (try_enqueue q j)) =
     (if queued q (account_id j) = [] \<and> \<not> is_active q (account_id j) then ready q @ [account_id j] else ready q)"
  by (auto simp: queue_abs try_enqueue_def Let_def split: option.splits)

lemma queue_inv_try_enqueue:
  assumes "queue_inv q" "has_capacity q (account_id j)"
  shows "queue_inv (fst (try_enqueue q j))"
proof -
  let ?q = "fst (try_enqueue q j)" and ?a = "account_id j"
  have "distinct (ready ?q)" "\<forall>a. a \<in> set (ready ?q) \<longleftrightarrow> queued ?q a \<noteq> [] \<and> \<not> is_active ?q a"
    using assms by (auto simp: queue_inv_def ready_try_enqueue queued_try_enqueue is_active_try_enqueue)
  moreover have "\<forall>a aq. accounts_of ?q a = Some aq \<longrightarrow> account_queue_ok (per_account_capacity ?q) a aq"
    using assms by (auto simp: queue_inv_def account_queue_ok_def try_enqueue_def has_capacity_def Let_def split: option.splits if_splits)
  ultimately show ?thesis by (simp add: queue_inv_def)
qed

lemma take_next_ready:
  assumes "queue_inv q" "ready q = a # rs" "queued q a = j # js"
  shows "\<exists>q'. take_next q = (q', Some j) \<and> queue_inv q' \<and> ready q' = rs \<and> queued q' = (queued q)(a := js) \<and>
     is_active q' = (is_active q)(a := True)"
proof -
  obtain aq where aq: "accounts_of q a = Some aq" "jobs aq = j # js"
    using assms(3) by (auto simp: queued_def split: option.splits)
  let ?q = "q\<lparr>accounts_of := (accounts_of q)(a \<mapsto> aq\<lparr>jobs := js, active_account := True\<rparr>), ready := rs\<rparr>"
  have t: "take_next q = (?q, Some j)"
    using assms(2) aq by (simp add: take_next_def)
  have abs: "queued ?q = (queued q)(a := js)" "is_active ?q = (is_active q)(a := True)"
    by (auto simp: queue_abs fun_eq_iff)
  have na: "\<not> active_account aq" and nr: "a \<notin> set rs"
    using queue_invD(1) [OF assms(1)] queue_invD(2) [OF assms(1), of a] assms(2) aq by (auto simp: queue_abs)
  have "distinct rs \<and> (\<forall>b. b \<in> set rs \<longleftrightarrow> queued ?q b \<noteq> [] \<and> \<not> is_active ?q b)"
    using assms nr unfolding abs queue_inv_def by auto
  moreover have "\<forall>b bq. accounts_of ?q b = Some bq \<longrightarrow> account_queue_ok (per_account_capacity ?q) b bq"
    using queue_invD(3) [OF assms(1)] queue_invD(3) [OF assms(1) aq(1)] aq na by (auto simp: account_queue_ok_def [of _ a])
  ultimately have "queue_inv ?q" by (simp add: queue_inv_def)
  with t abs show ?thesis by (intro exI [of _ ?q]) simp
qed

lemma complete_laws:
  assumes "queue_inv q" "is_active q a"
  shows "queue_inv (complete q a) \<and> queued (complete q a) = queued q \<and>
    is_active (complete q a) = (is_active q)(a := False)"
proof -
  obtain aq where aq: "accounts_of q a = Some aq" "active_account aq"
    using assms(2) by (auto simp: is_active_def split: option.splits)
  have abs: "queued (complete q a) = queued q" "is_active (complete q a) = (is_active q)(a := False)"
    using aq by (auto simp: queue_abs complete_def fun_eq_iff)
  have r: "ready (complete q a) = (if queued q a = [] then ready q else ready q @ [a])"
    using aq by (simp add: complete_def queued_def)
  have "a \<notin> set (ready q)" using assms by (simp add: queue_inv_def)
  then have "distinct (ready (complete q a)) \<and>
      (\<forall>b. b \<in> set (ready (complete q a)) \<longleftrightarrow> queued (complete q a) b \<noteq> [] \<and> \<not> is_active (complete q a) b)"
    using assms(1) unfolding r abs queue_inv_def by auto
  moreover have "\<forall>b bq. accounts_of (complete q a) b = Some bq \<longrightarrow> account_queue_ok (per_account_capacity (complete q a)) b bq"
    using queue_invD(3) [OF assms(1)] queue_invD(3) [OF assms(1) aq(1)] aq
    by (auto simp: complete_def account_queue_ok_def [of _ a] split: if_splits)
  ultimately show ?thesis using abs by (simp add: queue_inv_def)
qed

interpretation fq: account_queues queue_inv queued is_active ready "\<lambda>q j. fst (try_enqueue q j)"
  has_capacity take_next complete
proof
  fix q :: "'p queues" and j :: "'p job" and a
  show "queue_inv q \<Longrightarrow> a \<in> set (ready q) \<longleftrightarrow> queued q a \<noteq> [] \<and> \<not> is_active q a"
    and "queue_inv q \<Longrightarrow> distinct (ready q)"
    by (simp_all add: queue_inv_def)
  show "queue_inv q \<Longrightarrow> j \<in> set (queued q a) \<Longrightarrow> account_id j = a"
    by (cases "accounts_of q a") (auto simp: queued_def account_queue_ok_def dest!: queue_invD(3))
  show "queue_inv q \<Longrightarrow> ready q = [] \<Longrightarrow> take_next q = (q, None)"
    by (simp add: take_next_def)
qed (auto simp: queue_inv_try_enqueue queued_try_enqueue is_active_try_enqueue complete_laws intro: take_next_ready)

text \<open>Undoing the enqueue that could not be announced restores the queues.\<close>

lemma rollback_restores:
  assumes "queue_inv q" "has_capacity q (account_id j)"
  shows "rollback_last (fst (try_enqueue q j)) (account_id j) = q"
proof (cases "accounts_of q (account_id j)")
  case None
  then have "account_id j \<notin> set (ready q)"
    using assms(1) by (auto simp: queue_inv_def queued_def)
  then have "filter (\<lambda>r. r \<noteq> account_id j) (ready q) = ready q"
    by (auto intro: filter_True)
  moreover have "(accounts_of q)(account_id j := None) = accounts_of q"
    using None by auto
  ultimately show ?thesis
    using assms(2) None by (cases q) (simp add: rollback_last_def try_enqueue_def Let_def)
next
  case (Some aq)
  then have "jobs aq \<noteq> [] \<or> active_account aq"
    using assms(1) by (auto simp: queue_inv_def account_queue_ok_def)
  moreover have "(accounts_of q)(account_id j \<mapsto> aq) = accounts_of q"
    using Some by auto
  ultimately show ?thesis
    using assms(2) Some by (cases q; cases aq) (auto simp: rollback_last_def try_enqueue_def Let_def)
qed

section \<open>The invariant of the system\<close>

definition held_by :: "'p worker \<Rightarrow> string option" where
  "held_by w =
     (case mailbox w of
        Some j \<Rightarrow> Some (account_id j)
      | None \<Rightarrow>
          (case wphase w of Receiving \<Rightarrow> None | Processing j \<Rightarrow> Some (account_id j) | Reporting a \<Rightarrow> Some a))"

definition holding :: "'p fair_queue \<Rightarrow> nat \<Rightarrow> string option" where
  "holding s i = held_by (pool s i)"

lemma held_by_simps [simp]:
  "held_by \<lparr>mailbox = Some j, wphase = p\<rparr> = Some (account_id j)"
  "held_by \<lparr>mailbox = None, wphase = Receiving\<rparr> = None"
  "held_by \<lparr>mailbox = None, wphase = Processing j\<rparr> = Some (account_id j)"
  "held_by \<lparr>mailbox = None, wphase = Reporting a\<rparr> = Some a"
  "held_by (w\<lparr>mailbox := Some j\<rparr>) = Some (account_id j)"
  by (simp_all add: held_by_def)

lemma held_by_None: "held_by w = None \<longleftrightarrow> mailbox w = None \<and> wphase w = Receiving"
  by (simp add: held_by_def split: option.splits worker_phase.splits)

text \<open>A worker holds an account from the moment the supervisor hands it a job until the supervisor has
  read the completion.\<close>

definition holder :: "'p fair_queue \<Rightarrow> nat \<Rightarrow> string \<Rightarrow> bool" where
  "holder s i a \<longleftrightarrow> holding s i = Some a \<or> (i, a) \<in> set (completions s)"

definition workers_inv :: "nat \<Rightarrow> 'p fair_queue \<Rightarrow> bool" where
  "workers_inv W s \<longleftrightarrow>
     distinct (idle s @ map fst (completions s)) \<and>
     (\<forall>i. i \<in> set (idle s @ map fst (completions s)) \<longleftrightarrow> i < W \<and> holding s i = None) \<and>
     (\<forall>i. holding s i \<noteq> None \<longrightarrow> i < W) \<and>
     (\<forall>i. mailbox (pool s i) \<noteq> None \<longrightarrow> wphase (pool s i) = Receiving)"

definition active_inv :: "'p fair_queue \<Rightarrow> bool" where
  "active_inv s \<longleftrightarrow>
     (\<forall>a. is_active (fq_queues s) a \<longleftrightarrow> (\<exists>i. holder s i a)) \<and>
     (\<forall>i i' a. holder s i a \<longrightarrow> holder s i' a \<longrightarrow> i = i')"

abbreviation by_account :: "string \<Rightarrow> 'p job list \<Rightarrow> 'p job list" where
  "by_account a js \<equiv> filter (\<lambda>j. account_id j = a) js"

definition mails :: "'p fair_queue \<Rightarrow> nat \<Rightarrow> 'p job \<Rightarrow> bool" where
  "mails s i j \<longleftrightarrow> mailbox (pool s i) = Some j"

definition runs :: "'p fair_queue \<Rightarrow> nat \<Rightarrow> 'p job \<Rightarrow> bool" where
  "runs s i j \<longleftrightarrow> wphase (pool s i) = Processing j"

definition history_inv :: "'p fair_queue \<Rightarrow> bool" where
  "history_inv s \<longleftrightarrow>
     permits s + length (admitted s) = capacity s + length (finished s) \<and>
     (\<forall>i j. mails s i j \<longrightarrow>
        by_account (account_id j) (admitted s) =
        by_account (account_id j) (started s) @ j # queued (fq_queues s) (account_id j)) \<and>
     (\<forall>a. (\<forall>i j. mails s i j \<longrightarrow> account_id j \<noteq> a) \<longrightarrow>
        by_account a (admitted s) = by_account a (started s) @ queued (fq_queues s) a) \<and>
     (\<forall>i j. runs s i j \<longrightarrow>
        by_account (account_id j) (started s) = by_account (account_id j) (finished s) @ [j]) \<and>
     (\<forall>a. (\<forall>i j. runs s i j \<longrightarrow> account_id j \<noteq> a) \<longrightarrow> by_account a (started s) = by_account a (finished s))"

definition phase_inv :: "'p fair_queue \<Rightarrow> bool" where
  "phase_inv s \<longleftrightarrow> sphase s \<noteq> Failed \<and>
     (sphase s \<in> {Checking, Waiting} \<longrightarrow>
        ready (fq_queues s) = [] \<or> idle s = [] \<or> accepting s \<and> wake_pending s) \<and>
     (sphase s = Waiting \<and> \<not> accepting s \<longrightarrow> \<not> queues_empty (fq_queues s)) \<and>
     (sphase s = Stopped \<longrightarrow> \<not> accepting s \<and> queues_empty (fq_queues s)) \<and>
     (accepting s \<longrightarrow> \<not> wake_closed s) \<and> (\<not> accepting s \<longrightarrow> (wake_closed s \<or> dropped s) \<and> cancelled s) \<and>
     (dropped s \<longrightarrow> cancelled s)"

definition fq_inv :: "nat \<Rightarrow> 'p fair_queue \<Rightarrow> bool" where
  "fq_inv W s \<longleftrightarrow> queue_inv (fq_queues s) \<and> workers_inv W s \<and> active_inv s \<and> history_inv s \<and> phase_inv s"

lemma holding_mails: "mails s i j \<Longrightarrow> holding s i = Some (account_id j)"
  by (simp add: mails_def holding_def held_by_def)

lemma holding_runs: "workers_inv W s \<Longrightarrow> runs s i j \<Longrightarrow> holding s i = Some (account_id j)"
  unfolding workers_inv_def runs_def holding_def held_by_def by (cases "mailbox (pool s i)") fastforce+

lemma mails_not_runs: "workers_inv W s \<Longrightarrow> mails s i j \<Longrightarrow> \<not> runs s i j'"
  unfolding workers_inv_def runs_def mails_def by (metis option.distinct(1) worker_phase.distinct(1))

lemma unique_holding:
  "active_inv s \<Longrightarrow> holding s i = Some a \<Longrightarrow> holding s i' = Some a \<Longrightarrow> i = i'"
  unfolding active_inv_def holder_def by blast

lemma history_invD:
  assumes "history_inv s"
  shows "permits s + length (admitted s) = capacity s + length (finished s)"
    and "mails s i j \<Longrightarrow> by_account (account_id j) (admitted s) =
        by_account (account_id j) (started s) @ j # queued (fq_queues s) (account_id j)"
    and "(\<And>i j. mails s i j \<Longrightarrow> account_id j \<noteq> a) \<Longrightarrow>
        by_account a (admitted s) = by_account a (started s) @ queued (fq_queues s) a"
    and "runs s i j \<Longrightarrow>
        by_account (account_id j) (started s) = by_account (account_id j) (finished s) @ [j]"
    and "(\<And>i j. runs s i j \<Longrightarrow> account_id j \<noteq> a) \<Longrightarrow> by_account a (started s) = by_account a (finished s)"
  using assms unfolding history_inv_def by blast+

lemma workers_invD:
  assumes "workers_inv W s"
  shows "i \<in> set (idle s) \<Longrightarrow> i < W \<and> holding s i = None"
    and "(i, a) \<in> set (completions s) \<Longrightarrow> i < W \<and> holding s i = None"
    and "holding s i \<noteq> None \<Longrightarrow> i < W"
    and "mailbox (pool s i) \<noteq> None \<Longrightarrow> wphase (pool s i) = Receiving"
    and "i < W \<Longrightarrow> holding s i = None \<Longrightarrow> i \<in> set (idle s) \<or> i \<in> fst ` set (completions s)"
proof -
  have iff: "i \<in> set (idle s @ map fst (completions s)) \<longleftrightarrow> i < W \<and> holding s i = None"
    using assms unfolding workers_inv_def by blast
  show "i \<in> set (idle s) \<Longrightarrow> i < W \<and> holding s i = None" using iff by simp
  show "(i, a) \<in> set (completions s) \<Longrightarrow> i < W \<and> holding s i = None" using iff by force
  show "i < W \<Longrightarrow> holding s i = None \<Longrightarrow> i \<in> set (idle s) \<or> i \<in> fst ` set (completions s)"
    using iff by simp
qed (use assms in \<open>unfold workers_inv_def, blast+\<close>)

lemma fq_inv_start: "fq_inv (cfg_workers cfg) (start_queue cfg)"
  by (auto simp: fq_inv_def start_queue_def queue_inv_def new_queues_def queue_abs workers_inv_def
      active_inv_def holder_def holding_def history_inv_def mails_def runs_def phase_inv_def)

text \<open>Only the flags and the phase of the supervisor change.\<close>

lemma fq_inv_control:
  assumes "fq_inv W s" "phase_inv s'"
    and eqs: "fq_queues s' = fq_queues s" "idle s' = idle s" "pool s' = pool s" "completions s' = completions s"
    "permits s' = permits s" "capacity s' = capacity s" "admitted s' = admitted s" "started s' = started s"
    "finished s' = finished s"
  shows "fq_inv W s'"
proof -
  have h: "holding s' = holding s" "holder s' = holder s" "mails s' = mails s" "runs s' = runs s"
    by (simp_all add: fun_eq_iff holder_def holding_def mails_def runs_def eqs)
  have "workers_inv W s' = workers_inv W s" "active_inv s' = active_inv s" "history_inv s' = history_inv s"
    unfolding workers_inv_def active_inv_def history_inv_def h eqs by (rule refl)+
  with assms(1,2) eqs(1) show ?thesis by (simp add: fq_inv_def)
qed

subsection \<open>Admission\<close>

lemma admit_cases:
  assumes "queue_inv (fq_queues s)"
  shows "admit s saw contended j = (s, Rejected) \<or>
    has_capacity (fq_queues s) (account_id j) \<and> 0 < permits s \<and> \<not> wake_closed s \<and>
    admit s saw contended j =
      (s\<lparr>fq_queues := fst (try_enqueue (fq_queues s) j), permits := permits s - 1, wake_pending := True,
         admitted := admitted s @ [j]\<rparr>, Admitted)"
proof (cases "saw \<or> contended \<or> \<not> has_capacity (fq_queues s) (account_id j) \<or> permits s = 0")
  case True
  then show ?thesis by (auto simp: admit_def)
next
  case False
  then have ok: "snd (try_enqueue (fq_queues s) j)" by (simp add: try_enqueue_def Let_def)
  show ?thesis
  proof (cases "wake_closed s")
    case True
    with False ok have "admit s saw contended j =
        (s\<lparr>fq_queues := rollback_last (fst (try_enqueue (fq_queues s) j)) (account_id j)\<rparr>, Rejected)"
      by (simp add: admit_def case_prod_unfold Let_def)
    with rollback_restores [OF assms] False show ?thesis by simp
  next
    case wake: False
    with False ok show ?thesis by (simp add: admit_def case_prod_unfold Let_def)
  qed
qed

lemma fq_inv_admit:
  assumes "fq_inv W s" "\<not> dropped s"
  shows "fq_inv W (fst (admit s saw contended j))"
proof -
  have q: "queue_inv (fq_queues s)" using assms by (simp add: fq_inv_def)
  from admit_cases [OF q, of saw contended j] show ?thesis
  proof (elim disjE conjE)
    assume "admit s saw contended j = (s, Rejected)"
    then show ?thesis using assms(1) by simp
  next
    assume room: "has_capacity (fq_queues s) (account_id j)" and p: "0 < permits s" and "\<not> wake_closed s"
      and eq: "admit s saw contended j =
      (s\<lparr>fq_queues := fst (try_enqueue (fq_queues s) j), permits := permits s - 1, wake_pending := True,
         admitted := admitted s @ [j]\<rparr>, Admitted)"
    let ?s = "fst (admit s saw contended j)"
    have h: "holding ?s = holding s" "holder ?s = holder s" "mails ?s = mails s" "runs ?s = runs s"
      by (simp_all add: eq holding_def holder_def mails_def runs_def fun_eq_iff)
    have "queue_inv (fq_queues ?s)"
      using fq.enq_inv [OF q room] by (simp add: eq)
    moreover have "workers_inv W ?s"
      using assms(1) h unfolding fq_inv_def workers_inv_def by (simp add: eq)
    moreover have "active_inv ?s"
      using assms(1) fq.enq_held [OF q room] unfolding fq_inv_def active_inv_def h by (simp add: eq)
    moreover have "history_inv ?s"
      using assms(1) p fq.enq_waiting [OF q room] unfolding fq_inv_def history_inv_def h by (auto simp: eq)
    moreover have "phase_inv ?s"
      using assms \<open>\<not> wake_closed s\<close> unfolding fq_inv_def phase_inv_def
      by (auto simp: eq queues_empty_def)
    ultimately show ?thesis by (simp add: fq_inv_def)
  qed
qed

subsection \<open>The supervisor\<close>

lemma fq_inv_fill:
  assumes inv: "fq_inv W s" and ph: "sphase s = Filling"
  shows "fq_inv W (fill_step s)"
proof -
  have q: "queue_inv (fq_queues s)" and w: "workers_inv W s" and a: "active_inv s" and h: "history_inv s"
    and p: "phase_inv s"
    using inv by (simp_all add: fq_inv_def)
  have to_check: "fq_inv W (s\<lparr>sphase := Checking\<rparr>)" if "ready (fq_queues s) = [] \<or> idle s = []"
  proof (rule fq_inv_control [OF inv])
    show "phase_inv (s\<lparr>sphase := Checking\<rparr>)" using p that by (auto simp: phase_inv_def)
  qed simp_all
  show ?thesis
  proof (cases "idle s")
    case Nil
    then show ?thesis using to_check by (simp add: fill_step_def)
  next
    case (Cons i rest)
    obtain q' o1 where tn: "take_next (fq_queues s) = (q', o1)" by fastforce
    show ?thesis
    proof (cases o1)
      case None
      with fq.deq_None [OF q] tn have "q' = fq_queues s" "ready (fq_queues s) = []" by auto
      then show ?thesis using Cons tn None to_check by (simp add: fill_step_def)
    next
      case (Some j)
      let ?a = "account_id j"
      have d: "queue_inv q'" "\<not> is_active (fq_queues s) ?a" "is_active q' = (is_active (fq_queues s))(?a := True)"
        "queued (fq_queues s) = (queued q')(?a := j # queued q' ?a)"
        using fq.deq_Some [OF q] tn Some by auto
      have i: "i < W" "holding s i = None"
        using w Cons unfolding workers_inv_def by (metis append_Cons list.set_intros(1))+
      then have mi: "mailbox (pool s i) = None" "wphase (pool s i) = Receiving"
        by (simp_all add: holding_def held_by_None)
      let ?s = "s\<lparr>fq_queues := q', idle := rest, pool := (pool s)(i := (pool s i)\<lparr>mailbox := Some j\<rparr>)\<rparr>"
      have s': "fill_step s = ?s"
        using Cons tn Some mi by (simp add: fill_step_def)
      have hold: "holding ?s = (holding s)(i := Some ?a)"
        by (auto simp: holding_def fun_eq_iff)
      have free: "\<not> holder s k ?a" for k
        using a d(2) by (auto simp: active_inv_def)
      have nc: "(i, b) \<notin> set (completions s)" for b
        using w Cons by (auto simp: workers_inv_def image_iff)
      have ni: "\<not> holder s i b" for b
        using nc i by (simp add: holder_def)
      have hr: "holder ?s k b \<longleftrightarrow> k = i \<and> b = ?a \<or> holder s k b" for k b
        using nc i by (auto simp: holder_def hold)
      have ms: "mails ?s k x \<longleftrightarrow> k = i \<and> x = j \<or> mails s k x" for k x
        using mi by (auto simp: mails_def)
      have rs: "runs ?s = runs s" using mi by (auto simp: runs_def fun_eq_iff)
      have no_mail: "mails s k x \<Longrightarrow> account_id x \<noteq> ?a" for k x
        using free [of k] holding_mails [of s k x] by (auto simp: holder_def)
      have "workers_inv W ?s"
        using w Cons i mi(2) nc unfolding workers_inv_def hold by auto
      moreover have "active_inv ?s"
        using a free ni unfolding active_inv_def hr by (auto simp: d(3))
      moreover have "history_inv ?s"
      proof -
        have "by_account ?a (admitted s) = by_account ?a (started s) @ j # queued q' ?a"
          using h no_mail d(4) unfolding history_inv_def by (metis fun_upd_same)
        moreover have "queued (fq_queues s) b = queued q' b" if "b \<noteq> ?a" for b
          using d(4) that by simp
        ultimately show ?thesis
          using h no_mail mi unfolding history_inv_def ms rs by auto (metis)
      qed
      moreover have "phase_inv ?s"
        using p ph by (simp add: phase_inv_def)
      ultimately show ?thesis using d(1) by (simp add: s' fq_inv_def)
    qed
  qed
qed

lemma fq_inv_completion:
  assumes inv: "fq_inv W s" and ph: "sphase s = Waiting" and c: "completions s = (i, b) # cs"
  shows "fq_inv W (s\<lparr>completions := cs, fq_queues := complete (fq_queues s) b, idle := idle s @ [i], sphase := Filling\<rparr>)"
    (is "fq_inv W ?s")
proof -
  have q: "queue_inv (fq_queues s)" and w: "workers_inv W s" and a: "active_inv s" and h: "history_inv s"
    and p: "phase_inv s"
    using inv by (simp_all add: fq_inv_def)
  have hb: "holder s i b" using c by (simp add: holder_def)
  then have act: "is_active (fq_queues s) b" using a by (auto simp: active_inv_def)
  have hold: "holding ?s = holding s" by (simp add: holding_def fun_eq_iff)
  have i: "holding s i = None" "i \<notin> fst ` set cs"
    using w c by (auto simp: workers_inv_def)
  have uniq: "holder s k b \<Longrightarrow> k = i" for k
    using a hb by (auto simp: active_inv_def)
  have hr: "holder ?s k x \<longleftrightarrow> holder s k x \<and> x \<noteq> b" for k x
    using c i uniq [of k] by (auto simp: holder_def hold image_iff)
  have "queue_inv (fq_queues ?s)"
    using fq.release_inv [OF q act] by simp
  moreover have "workers_inv W ?s"
    using w c unfolding workers_inv_def hold by auto
  moreover have "active_inv ?s"
    using a fq.release_held [OF q act] unfolding active_inv_def hr by auto
  moreover have "history_inv ?s"
    using h fq.release_waiting [OF q act] unfolding history_inv_def mails_def runs_def by simp
  moreover have "phase_inv ?s"
    using p ph by (simp add: phase_inv_def)
  ultimately show ?thesis by (simp add: fq_inv_def)
qed

subsection \<open>The workers\<close>

lemma fq_inv_start_job:
  assumes inv: "fq_inv W s" and mb: "wphase (pool s i) = Receiving" "mailbox (pool s i) = Some j"
  shows "fq_inv W (s\<lparr>pool := (pool s)(i := \<lparr>mailbox = None, wphase = Processing j\<rparr>), started := started s @ [j]\<rparr>)"
    (is "fq_inv W ?s")
proof -
  have q: "queue_inv (fq_queues s)" and w: "workers_inv W s" and a: "active_inv s" and h: "history_inv s"
    and p: "phase_inv s"
    using inv by (simp_all add: fq_inv_def)
  let ?a = "account_id j"
  have m: "mails s i j" using mb by (simp add: mails_def)
  have hi: "holding s i = Some ?a" using holding_mails [OF m] .
  have hold: "holding ?s = holding s"
    using hi by (auto simp: holding_def fun_eq_iff)
  have hr: "holder ?s = holder s" unfolding holder_def hold by simp
  have ms: "mails ?s k x \<longleftrightarrow> k \<noteq> i \<and> mails s k x" for k x by (auto simp: mails_def)
  have rs: "runs ?s k x \<longleftrightarrow> k = i \<and> x = j \<or> runs s k x" for k x
    using mb by (auto simp: runs_def)
  have um: "mails s k x \<Longrightarrow> account_id x = ?a \<Longrightarrow> k = i" for k x
    using unique_holding [OF a _ hi, of k] holding_mails [of s k x] by auto
  have ur: "runs s k x \<Longrightarrow> account_id x \<noteq> ?a" for k x
    using unique_holding [OF a _ hi, of k] holding_runs [OF w, of k x] mb by (auto simp: runs_def)
  have "workers_inv W ?s"
    using w unfolding workers_inv_def hold by auto
  moreover have "active_inv ?s"
    using a unfolding active_inv_def hr by simp
  moreover have "history_inv ?s"
  proof -
    have "by_account ?a (admitted s) = by_account ?a (started s) @ j # queued (fq_queues s) ?a"
      "by_account ?a (started s) = by_account ?a (finished s)"
      using h m ur unfolding history_inv_def by blast+
    note eqs = this
    have k1: "permits ?s + length (admitted ?s) = capacity ?s + length (finished ?s)"
      using history_invD(1) [OF h] by simp
    have k2: "by_account (account_id x) (admitted ?s) =
        by_account (account_id x) (started ?s) @ x # queued (fq_queues ?s) (account_id x)" if "mails ?s k x" for k x
      using history_invD(2) [OF h, of k x] um [of k x] that by (auto simp: ms)
    have k3: "by_account b (admitted ?s) = by_account b (started ?s) @ queued (fq_queues ?s) b"
      if nm: "\<And>k x. mails ?s k x \<Longrightarrow> account_id x \<noteq> b" for b
    proof (cases "b = ?a")
      case True
      with eqs show ?thesis by simp
    next
      case False
      then have "mails s k x \<Longrightarrow> account_id x \<noteq> b" for k x
        using nm [of k x] m by (cases "k = i") (auto simp: ms mails_def)
      then show ?thesis using history_invD(3) [OF h, of b] False by simp
    qed
    have k4: "by_account (account_id x) (started ?s) = by_account (account_id x) (finished ?s) @ [x]"
      if "runs ?s k x" for k x
      using history_invD(4) [OF h, of k x] eqs ur [of k x] that by (auto simp: rs)
    have k5: "by_account b (started ?s) = by_account b (finished ?s)"
      if nr: "\<And>k x. runs ?s k x \<Longrightarrow> account_id x \<noteq> b" for b
      using history_invD(5) [OF h, of b] nr [of i j] nr by (auto simp: rs)
    show ?thesis unfolding history_inv_def using k1 k2 k3 k4 k5 by blast
  qed
  moreover have "phase_inv ?s" using p by (simp add: phase_inv_def)
  ultimately show ?thesis using q by (simp add: fq_inv_def)
qed

lemma fq_inv_finish_job:
  assumes inv: "fq_inv W s" and wp: "wphase (pool s i) = Processing j"
  shows "fq_inv W (s\<lparr>pool := (pool s)(i := (pool s i)\<lparr>wphase := Reporting (account_id j)\<rparr>),
    permits := permits s + 1, finished := finished s @ [j]\<rparr>)" (is "fq_inv W ?s")
proof -
  have q: "queue_inv (fq_queues s)" and w: "workers_inv W s" and a: "active_inv s" and h: "history_inv s"
    and p: "phase_inv s"
    using inv by (simp_all add: fq_inv_def)
  let ?a = "account_id j"
  have r: "runs s i j" using wp by (simp add: runs_def)
  have mb: "mailbox (pool s i) = None" using w wp unfolding workers_inv_def by (metis worker_phase.distinct(1))
  have hi: "holding s i = Some ?a" using holding_runs [OF w r] .
  have hold: "holding ?s = holding s"
    using hi mb by (auto simp: holding_def held_by_def fun_eq_iff)
  have hr: "holder ?s = holder s" unfolding holder_def hold by simp
  have ms: "mails ?s = mails s" by (auto simp: mails_def fun_eq_iff)
  have rs: "runs ?s k x \<longleftrightarrow> k \<noteq> i \<and> runs s k x" for k x by (auto simp: runs_def)
  have ur: "runs s k x \<Longrightarrow> account_id x = ?a \<Longrightarrow> k = i" for k x
    using unique_holding [OF a _ hi, of k] holding_runs [OF w, of k x] by auto
  have "workers_inv W ?s"
    using w mb unfolding workers_inv_def hold by auto
  moreover have "active_inv ?s"
    using a unfolding active_inv_def hr by simp
  moreover have "history_inv ?s"
  proof -
    have "by_account ?a (started s) = by_account ?a (finished s) @ [j]"
      using h r unfolding history_inv_def by blast
    note eqs = this
    have k1: "permits ?s + length (admitted ?s) = capacity ?s + length (finished ?s)"
      using history_invD(1) [OF h] by simp
    have k2: "by_account (account_id x) (admitted ?s) =
        by_account (account_id x) (started ?s) @ x # queued (fq_queues ?s) (account_id x)" if "mails ?s k x" for k x
      using history_invD(2) [OF h, of k x] that [unfolded ms] by simp
    have k3: "by_account b (admitted ?s) = by_account b (started ?s) @ queued (fq_queues ?s) b"
      if nm: "\<And>k x. mails ?s k x \<Longrightarrow> account_id x \<noteq> b" for b
      using history_invD(3) [OF h, of b] nm [unfolded ms] by simp
    have k4: "by_account (account_id x) (started ?s) = by_account (account_id x) (finished ?s) @ [x]"
      if "runs ?s k x" for k x
      using history_invD(4) [OF h, of k x] ur [of k x] that [unfolded rs] by auto
    have k5: "by_account b (started ?s) = by_account b (finished ?s)"
      if nr: "\<And>k x. runs ?s k x \<Longrightarrow> account_id x \<noteq> b" for b
    proof (cases "b = ?a")
      case True
      with eqs show ?thesis by simp
    next
      case False
      then have "runs s k x \<Longrightarrow> account_id x \<noteq> b" for k x
        using nr [of k x, unfolded rs] r by (cases "k = i") (auto simp: runs_def)
      then show ?thesis using history_invD(5) [OF h, of b] False by simp
    qed
    show ?thesis unfolding history_inv_def using k1 k2 k3 k4 k5 by blast
  qed
  moreover have "phase_inv ?s" using p by (simp add: phase_inv_def)
  ultimately show ?thesis using q by (simp add: fq_inv_def)
qed

lemma fq_inv_report:
  assumes inv: "fq_inv W s" and wp: "wphase (pool s i) = Reporting b"
  shows "fq_inv W (s\<lparr>pool := (pool s)(i := (pool s i)\<lparr>wphase := Receiving\<rparr>),
    completions := completions s @ [(i, b)]\<rparr>)" (is "fq_inv W ?s")
proof -
  have q: "queue_inv (fq_queues s)" and w: "workers_inv W s" and a: "active_inv s" and h: "history_inv s"
    and p: "phase_inv s"
    using inv by (simp_all add: fq_inv_def)
  have mb: "mailbox (pool s i) = None" using w wp unfolding workers_inv_def by (metis worker_phase.distinct(3))
  have hi: "holding s i = Some b" using wp mb by (simp add: holding_def held_by_def)
  then have i: "i < W" "i \<notin> set (idle s)" "i \<notin> fst ` set (completions s)"
    using workers_invD(1-3) [OF w] by force+
  have hold: "holding ?s = (holding s)(i := None)"
    using mb by (auto simp: holding_def held_by_None fun_eq_iff)
  have hr: "holder ?s = holder s"
    using hi i by (auto simp: holder_def hold fun_eq_iff)
  have ms: "mails ?s = mails s" "runs ?s = runs s"
    using wp by (auto simp: mails_def runs_def fun_eq_iff)
  have "workers_inv W ?s"
    using w i mb unfolding workers_inv_def hold by auto
  moreover have "active_inv ?s"
    using a unfolding active_inv_def hr by simp
  moreover have "history_inv ?s"
    using h unfolding history_inv_def ms by simp
  moreover have "phase_inv ?s" using p by (simp add: phase_inv_def)
  ultimately show ?thesis using q by (simp add: fq_inv_def)
qed

subsection \<open>Every step\<close>

lemma fq_inv_step:
  assumes inv: "fq_inv W s" and st: "fq_step s e = Some s'"
  shows "fq_inv W s'"
proof -
  have p: "phase_inv s" using inv by (simp add: fq_inv_def)
  show ?thesis
  proof (cases e)
    case (Admit saw contended j)
    then show ?thesis using st fq_inv_admit [OF inv] by (auto split: if_splits)
  next
    case Cancel
    then have s': "s' = s\<lparr>cancelled := True\<rparr>" using st by simp
    show ?thesis by (rule fq_inv_control [OF inv]) (use p s' in \<open>auto simp: phase_inv_def\<close>)
  next
    case DropHandle
    then have s': "s' = s\<lparr>cancelled := True, dropped := True\<rparr>" using st by simp
    show ?thesis by (rule fq_inv_control [OF inv]) (use p s' in \<open>auto simp: phase_inv_def\<close>)
  next
    case Fill
    then show ?thesis using st fq_inv_fill [OF inv] by (auto split: if_splits)
  next
    case CheckDrained
    then have s': "sphase s = Checking" "s' = (if \<not> accepting s \<and> queues_empty (fq_queues s)
        then s\<lparr>sphase := Stopped, wake_closed := True\<rparr> else s\<lparr>sphase := Waiting\<rparr>)"
      using st by (auto split: if_splits)
    show ?thesis by (rule fq_inv_control [OF inv]) (use p s' in \<open>auto simp: phase_inv_def\<close>)
  next
    case SeeCancelled
    then have s': "cancelled s" "s' = s\<lparr>accepting := False, wake_closed := True, sphase := Filling\<rparr>"
      using st by (simp_all split: if_splits)
    show ?thesis by (rule fq_inv_control [OF inv]) (use p s' in \<open>auto simp: phase_inv_def\<close>)
  next
    case SeeWake
    then have s': "s' = s\<lparr>wake_pending := False, sphase := Filling\<rparr>"
      using st by (simp split: if_splits)
    show ?thesis by (rule fq_inv_control [OF inv]) (use p s' in \<open>auto simp: phase_inv_def\<close>)
  next
    case SeeClosed
    then have s': "dropped s" "s' = s\<lparr>accepting := False, sphase := Filling\<rparr>"
      using st by (simp_all split: if_splits)
    show ?thesis by (rule fq_inv_control [OF inv]) (use p s' in \<open>auto simp: phase_inv_def\<close>)
  next
    case TakeCompletion
    then show ?thesis using st fq_inv_completion [OF inv] by (auto split: if_splits list.splits)
  next
    case (WorkerStart i)
    then show ?thesis using st fq_inv_start_job [OF inv] by (auto split: worker_phase.splits option.splits)
  next
    case (WorkerFinish i)
    then show ?thesis using st fq_inv_finish_job [OF inv] by (auto split: worker_phase.splits)
  next
    case (WorkerReport i)
    then show ?thesis using st fq_inv_report [OF inv] by (auto split: worker_phase.splits)
  qed
qed

interpretation fqm: event_machine "\<lambda>s e. the (fq_step s e)" "\<lambda>s e. fq_step s e \<noteq> None" "fq_inv W" for W
  by unfold_locales (auto intro: fq_inv_step)

lemma reachable_inv: "reachable cfg s \<Longrightarrow> fq_inv (cfg_workers cfg) s"
  by (induction rule: reachable.induct) (auto intro: fq_inv_start fq_inv_step)

section \<open>Progress\<close>

text \<open>The steps of the supervisor and the workers, as opposed to those of the callers.\<close>

fun internal :: "'p event \<Rightarrow> bool" where
  "internal (Admit _ _ _) = False"
| "internal Cancel = False"
| "internal DropHandle = False"
| "internal _ = True"

definition stuck :: "'p fair_queue \<Rightarrow> bool" where
  "stuck s \<longleftrightarrow> (\<forall>e. internal e \<longrightarrow> fq_step s e = None)"

lemma stuckD:
  assumes "stuck s"
  shows "sphase s \<noteq> Filling" "sphase s \<noteq> Checking" "sphase s = Waiting \<Longrightarrow> completions s = []"
    "sphase s = Waiting \<Longrightarrow> accepting s \<Longrightarrow> \<not> wake_pending s \<and> \<not> cancelled s"
    "holding s i = None"
proof -
  have n: "internal e \<Longrightarrow> fq_step s e = None" for e using assms by (simp add: stuck_def)
  show "sphase s \<noteq> Filling" using n [of Fill] by auto
  show "sphase s \<noteq> Checking" using n [of CheckDrained] by auto
  show "sphase s = Waiting \<Longrightarrow> completions s = []"
    using n [of TakeCompletion] by (auto split: list.splits)
  show "sphase s = Waiting \<Longrightarrow> accepting s \<Longrightarrow> \<not> wake_pending s \<and> \<not> cancelled s"
    using n [of SeeWake] n [of SeeCancelled] by (auto split: if_splits)
  show "holding s i = None"
    using n [of "WorkerStart i"] n [of "WorkerFinish i"] n [of "WorkerReport i"]
    by (auto simp: holding_def held_by_None split: worker_phase.splits option.splits)
qed

text \<open>A system that cannot move has nothing left to do: no wake-up is lost.\<close>

lemma stuck_done:
  assumes inv: "fq_inv W s" and "0 < W" "stuck s"
  shows "queues_empty (fq_queues s) \<and> (cancelled s \<longrightarrow> sphase s = Stopped)"
proof -
  note inv' = inv [unfolded fq_inv_def phase_inv_def]
  have ph: "sphase s = Waiting \<or> sphase s = Stopped"
    using stuckD(1,2) [OF assms(3)] inv' by (cases "sphase s") auto
  have empty: "queues_empty (fq_queues s)"
  proof (cases "sphase s = Stopped")
    case True
    then show ?thesis using inv' by simp
  next
    case False
    with ph have wait: "sphase s = Waiting" by simp
    have c: "completions s = []" and nh: "\<And>i. holding s i = None"
      using stuckD(3) [OF assms(3) wait] stuckD(5) [OF assms(3)] by auto
    have "0 \<in> set (idle s)"
      using inv' c nh assms(2) unfolding workers_inv_def by auto
    then have "ready (fq_queues s) = []"
      using inv' wait stuckD(4) [OF assms(3) wait] by auto
    moreover have "\<not> is_active (fq_queues s) a" for a
      using inv' c nh by (auto simp: active_inv_def holder_def)
    moreover have "queue_inv (fq_queues s)" using inv' by simp
    ultimately have "accounts_of (fq_queues s) a = None" for a
      using queue_invD(2,3) [of "fq_queues s" a] by (fastforce simp: queue_abs account_queue_ok_def split: option.splits)
    then show ?thesis by (auto simp: queues_empty_def)
  qed
  moreover have "sphase s = Stopped" if "cancelled s"
  proof (rule ccontr)
    assume "sphase s \<noteq> Stopped"
    with ph have wait: "sphase s = Waiting" by simp
    then have "\<not> accepting s" using stuckD(4) [OF assms(3) wait] that by auto
    then show False using inv' wait empty by auto
  qed
  ultimately show ?thesis by blast
qed

subsection \<open>Every internal step gets closer to the end\<close>

definition worker_weight :: "'p worker \<Rightarrow> nat" where
  "worker_weight w =
     (case mailbox w of
        Some _ \<Rightarrow> 0
      | None \<Rightarrow> (case wphase w of Receiving \<Rightarrow> 2 | Processing _ \<Rightarrow> 9 | Reporting _ \<Rightarrow> 8))"

definition control_weight :: "'p fair_queue \<Rightarrow> nat" where
  "control_weight s =
     (case sphase s of Filling \<Rightarrow> 2 | Checking \<Rightarrow> 1 | _ \<Rightarrow> 0) +
     (if accepting s then 3 else 0) + (if wake_pending s then 3 else 0)"

definition remaining :: "nat \<Rightarrow> 'p fair_queue \<Rightarrow> nat" where
  "remaining W s =
     10 * (length (admitted s) - length (started s)) + (\<Sum>i<W. worker_weight (pool s i)) +
     5 * length (completions s) + control_weight s"

lemma started_prefix:
  assumes "fq_inv W s"
  shows "prefix (by_account a (started s)) (by_account a (admitted s))"
    and "prefix (by_account a (finished s)) (by_account a (started s))"
proof -
  have h: "history_inv s" using assms by (simp add: fq_inv_def)
  show "prefix (by_account a (started s)) (by_account a (admitted s))"
  proof (cases "\<exists>i j. mails s i j \<and> account_id j = a")
    case True
    then show ?thesis using history_invD(2) [OF h] by auto
  next
    case False
    then show ?thesis using history_invD(3) [OF h, of a] by auto
  qed
  show "prefix (by_account a (finished s)) (by_account a (started s))"
  proof (cases "\<exists>i j. runs s i j \<and> account_id j = a")
    case True
    then show ?thesis using history_invD(4) [OF h] by auto
  next
    case False
    then show ?thesis using history_invD(5) [OF h, of a] by auto
  qed
qed

lemma mset_of_accounts:
  fixes xs ys :: "'p job list"
  assumes "\<And>a. prefix (by_account a xs) (by_account a ys)"
  shows "mset xs \<subseteq># mset ys"
proof (rule mset_subset_eqI)
  fix x :: "'p job"
  have c: "count (mset zs) x = count (mset (by_account (account_id x) zs)) x" for zs :: "'p job list"
    by (simp add: mset_filter)
  from assms [of "account_id x"] obtain zs where "by_account (account_id x) ys = by_account (account_id x) xs @ zs"
    by (auto elim: prefixE)
  then show "count (mset xs) x \<le> count (mset ys) x"
    unfolding c [of xs] c [of ys] by simp
qed

lemma started_le_admitted: "fq_inv W s \<Longrightarrow> length (started s) \<le> length (admitted s)"
  using size_mset_mono [OF mset_of_accounts [of "started s" "admitted s"]] started_prefix(1) by fastforce

lemma sum_pool:
  fixes W :: nat
  assumes "i < W"
  shows "(\<Sum>k<W. worker_weight ((p(i := w)) k)) + worker_weight (p i) =
    (\<Sum>k<W. worker_weight (p k)) + worker_weight w"
proof -
  have i: "i \<in> {..<W}" "finite {..<W}" using assms by auto
  have "(\<Sum>k\<in>{..<W} - {i}. worker_weight ((p(i := w)) k)) = (\<Sum>k\<in>{..<W} - {i}. worker_weight (p k))"
    by (rule sum.cong) auto
  then show ?thesis
    using sum.remove [OF i(2,1), of "\<lambda>k. worker_weight ((p(i := w)) k)"]
      sum.remove [OF i(2,1), of "\<lambda>k. worker_weight (p k)"] by simp
qed

lemma remaining_fill:
  assumes inv: "fq_inv W s" and ph: "sphase s = Filling"
  shows "remaining W (fill_step s) < remaining W s"
proof (cases "idle s")
  case Nil
  then show ?thesis using ph by (simp add: fill_step_def remaining_def control_weight_def)
next
  case (Cons i rest)
  have w: "workers_inv W s" using inv by (simp add: fq_inv_def)
  have i: "i < W" "mailbox (pool s i) = None" "wphase (pool s i) = Receiving"
    using workers_invD(1) [OF w, of i] Cons by (auto simp: holding_def held_by_None)
  obtain q' o1 where tn: "take_next (fq_queues s) = (q', o1)" by fastforce
  show ?thesis
  proof (cases o1)
    case None
    then show ?thesis using ph Cons tn by (simp add: fill_step_def remaining_def control_weight_def)
  next
    case (Some j)
    have "worker_weight ((pool s i)\<lparr>mailbox := Some j\<rparr>) = 0" "worker_weight (pool s i) = 2"
      using i by (simp_all add: worker_weight_def)
    with sum_pool [OF i(1), of "pool s" "(pool s i)\<lparr>mailbox := Some j\<rparr>"]
    show ?thesis
      using ph Cons tn Some i by (simp add: fill_step_def remaining_def control_weight_def)
  qed
qed

lemma remaining_start:
  assumes inv: "fq_inv W s" and mb: "wphase (pool s i) = Receiving" "mailbox (pool s i) = Some j"
  shows "remaining W (s\<lparr>pool := (pool s)(i := \<lparr>mailbox = None, wphase = Processing j\<rparr>), started := started s @ [j]\<rparr>)
    < remaining W s"
proof -
  have w: "workers_inv W s" using inv by (simp add: fq_inv_def)
  have i: "i < W"
    using workers_invD(3) [OF w, of i] mb by (simp add: holding_def held_by_None)
  have "worker_weight (pool s i) = 0" using mb by (simp add: worker_weight_def)
  moreover have "length (started s) < length (admitted s)"
    using started_le_admitted [OF fq_inv_start_job [OF inv mb]] by simp
  moreover have "worker_weight (\<lparr>mailbox = None, wphase = Processing j\<rparr>) = 9"
    by (simp add: worker_weight_def)
  ultimately show ?thesis
    using sum_pool [OF i, of "pool s" "\<lparr>mailbox = None, wphase = Processing j\<rparr>"]
    by (simp add: remaining_def control_weight_def)
qed

lemma remaining_step:
  assumes inv: "fq_inv W s" and st: "fq_step s e = Some s'" "internal e"
  shows "remaining W s' < remaining W s"
proof -
  have w: "workers_inv W s" using inv by (simp add: fq_inv_def)
  show ?thesis
  proof (cases e)
    case Fill
    then show ?thesis using st remaining_fill [OF inv] by (auto split: if_splits)
  next
    case CheckDrained
    then show ?thesis using st by (auto simp: remaining_def control_weight_def split: if_splits)
  next
    case TakeCompletion
    then show ?thesis using st by (auto simp: remaining_def control_weight_def split: if_splits list.splits)
  next
    case (WorkerStart i)
    then show ?thesis using st remaining_start [OF inv] by (auto split: worker_phase.splits option.splits)
  next
    case (WorkerFinish i)
    then obtain j where wp: "wphase (pool s i) = Processing j" using st by (auto split: worker_phase.splits)
    then have s': "s' = s\<lparr>pool := (pool s)(i := (pool s i)\<lparr>wphase := Reporting (account_id j)\<rparr>),
                  permits := permits s + 1, finished := finished s @ [j]\<rparr>" using st WorkerFinish by simp
    have mb: "mailbox (pool s i) = None" using workers_invD(4) [OF w, of i] wp by force
    then have i: "i < W" using workers_invD(3) [OF w, of i] wp by (simp add: holding_def held_by_def)
    show ?thesis
      using sum_pool [OF i, of "pool s" "(pool s i)\<lparr>wphase := Reporting (account_id j)\<rparr>"] wp mb
      by (simp add: s' remaining_def control_weight_def worker_weight_def)
  next
    case (WorkerReport i)
    then obtain a where wp: "wphase (pool s i) = Reporting a" using st by (auto split: worker_phase.splits)
    then have s': "s' = s\<lparr>pool := (pool s)(i := (pool s i)\<lparr>wphase := Receiving\<rparr>),
                  completions := completions s @ [(i, a)]\<rparr>" using st WorkerReport by simp
    have mb: "mailbox (pool s i) = None" using workers_invD(4) [OF w, of i] wp by force
    then have i: "i < W" using workers_invD(3) [OF w, of i] wp by (simp add: holding_def held_by_def)
    show ?thesis
      using sum_pool [OF i, of "pool s" "(pool s i)\<lparr>wphase := Receiving\<rparr>"] wp mb
      by (simp add: s' remaining_def control_weight_def worker_weight_def)
  qed (use st in \<open>auto simp: remaining_def control_weight_def split: if_splits\<close>)
qed

text \<open>Runs as sequences of events.\<close>

fun fq_run :: "'p fair_queue \<Rightarrow> 'p event list \<Rightarrow> 'p fair_queue option" where
  "fq_run s [] = Some s"
| "fq_run s (e # es) = (case fq_step s e of Some s' \<Rightarrow> fq_run s' es | None \<Rightarrow> None)"

lemma fq_run_inv: "fq_inv W s \<Longrightarrow> fq_run s es = Some s' \<Longrightarrow> fq_inv W s'"
  by (induction es arbitrary: s) (auto split: option.splits intro: fq_inv_step)

lemma fq_run_reachable: "reachable cfg s \<Longrightarrow> fq_run s es = Some s' \<Longrightarrow> reachable cfg s'"
  by (induction es arbitrary: s) (auto split: option.splits intro: reach_step)

lemma internal_run_bound:
  "fq_inv W s \<Longrightarrow> fq_run s es = Some s' \<Longrightarrow> list_all internal es \<Longrightarrow> length es + remaining W s' \<le> remaining W s"
proof (induction es arbitrary: s)
  case Nil
  then show ?case by simp
next
  case (Cons e es)
  then obtain s1 where s1: "fq_step s e = Some s1" "fq_run s1 es = Some s'"
    by (auto split: option.splits)
  have "length es + remaining W s' \<le> remaining W s1"
    using Cons.IH [OF fq_inv_step [OF Cons.prems(1) s1(1)] s1(2)] Cons.prems(3) by simp
  moreover have "remaining W s1 < remaining W s"
    using remaining_step [OF Cons.prems(1) s1(1)] Cons.prems(3) by simp
  ultimately show ?case by simp
qed

lemma internal_run_capacity:
  "fq_run s es = Some s' \<Longrightarrow> list_all internal es \<Longrightarrow> admitted s' = admitted s \<and> cancelled s' = cancelled s"
proof (induction es arbitrary: s)
  case Nil
  then show ?case by simp
next
  case (Cons e es)
  then obtain s1 where s1: "fq_step s e = Some s1" "fq_run s1 es = Some s'"
    by (auto split: option.splits)
  have "admitted s1 = admitted s \<and> cancelled s1 = cancelled s"
    using s1(1) Cons.prems(2)
    by (cases e) (auto simp: fill_step_def Let_def split: if_splits list.splits option.splits worker_phase.splits prod.splits)
  with Cons s1 show ?case by simp
qed

lemma stuck_finished:
  assumes inv: "fq_inv W s" and "0 < W" "stuck s"
  shows "by_account a (finished s) = by_account a (admitted s)"
proof -
  have h: "history_inv s" and w: "workers_inv W s" using inv by (simp_all add: fq_inv_def)
  have nh: "holding s i = None" for i by (rule stuckD(5) [OF assms(3)])
  then have "\<not> mails s i j" "\<not> runs s i j" for i j
    using holding_mails [of s i j] holding_runs [OF w, of i j] by auto
  moreover have "queued (fq_queues s) a = []"
    using stuck_done [OF assms] by (simp add: queues_empty_def queued_def)
  ultimately show ?thesis
    using history_invD(3,5) [OF h, of a] by simp
qed

lemma take_loop_capacity: "per_account_capacity (fst (take_next q)) = per_account_capacity q"
  by (simp add: take_next_def case_prod_unfold Let_def)

lemma queue_capacity_constant:
  "per_account_capacity (fst (try_enqueue q j)) = per_account_capacity q"
  "per_account_capacity (rollback_last q a) = per_account_capacity q"
  "per_account_capacity (complete q a) = per_account_capacity q"
  by (simp_all add: try_enqueue_def rollback_last_def complete_def Let_def split: option.split)

lemma capacity_step:
  assumes "fq_step s e = Some s'"
  shows "capacity s' = capacity s \<and> per_account_capacity (fq_queues s') = per_account_capacity (fq_queues s)"
proof (cases e)
  case (Admit saw contended j)
  then show ?thesis
    using assms by (auto simp: admit_def Let_def case_prod_unfold queue_capacity_constant split: if_splits)
next
  case Fill
  then show ?thesis
    using assms take_loop_capacity [of "fq_queues s"]
    by (auto simp: fill_step_def split: if_splits list.splits prod.splits option.splits)
qed (use assms in \<open>auto simp: queue_capacity_constant split: if_splits list.splits option.splits worker_phase.splits\<close>)

lemma reachable_capacity:
  "reachable cfg s \<Longrightarrow> capacity s = cfg_capacity cfg \<and>
     per_account_capacity (fq_queues s) = cfg_per_account_capacity cfg"
proof (induction rule: reachable.induct)
  case reach_start
  show ?case by (simp add: start_queue_def new_queues_def)
next
  case (reach_step s e s')
  with capacity_step [OF reach_step(2)] show ?case by simp
qed

lemma account_load:
  assumes inv: "fq_inv W s"
  shows "length (by_account a (admitted s)) \<le>
    length (by_account a (finished s)) + max 1 (per_account_capacity (fq_queues s))"
proof -
  have h: "history_inv s" and w: "workers_inv W s" and ac: "active_inv s" and q: "queue_inv (fq_queues s)"
    using inv by (simp_all add: fq_inv_def)
  let ?q = "fq_queues s"
  have load: "length (queued ?q a) + (if is_active ?q a then 1 else 0) \<le> max 1 (per_account_capacity ?q)"
    using queue_invD(3) [OF q, of a]
    by (cases "accounts_of ?q a") (auto simp: queue_abs account_queue_ok_def)
  have act: "holding s i = Some a \<Longrightarrow> is_active ?q a" for i
    using ac by (auto simp: active_inv_def holder_def)
  show ?thesis
  proof (cases "\<exists>i j. mails s i j \<and> account_id j = a")
    case True
    then obtain i j where m: "mails s i j" "account_id j = a" by blast
    have hi: "holding s i = Some a" using holding_mails [OF m(1)] m(2) by simp
    have "account_id x \<noteq> a" if "runs s k x" for k x
      using unique_holding [OF ac _ hi, of k] holding_runs [OF w that] mails_not_runs [OF w m(1)] that by auto
    then have "by_account a (started s) = by_account a (finished s)"
      using history_invD(5) [OF h, of a] by blast
    then show ?thesis
      using history_invD(2) [OF h m(1)] m(2) load act [OF hi] by simp
  next
    case nomail: False
    then have adm: "by_account a (admitted s) = by_account a (started s) @ queued ?q a"
      using history_invD(3) [OF h, of a] by blast
    show ?thesis
    proof (cases "\<exists>i j. runs s i j \<and> account_id j = a")
      case True
      then obtain i j where r: "runs s i j" "account_id j = a" by blast
      with history_invD(4) [OF h r(1)] adm load act [of i] holding_runs [OF w r(1)] show ?thesis by simp
    next
      case False
      then have "by_account a (started s) = by_account a (finished s)"
        using history_invD(5) [OF h, of a] by blast
      with adm load show ?thesis by (simp split: if_splits)
    qed
  qed
qed

definition demo_config :: queue_config where
  "demo_config = new_config 4 2"

definition demo_job :: "string \<Rightarrow> nat \<Rightarrow> nat job" where
  "demo_job a n = \<lparr>account_id = a, payload = n\<rparr>"

definition demo_events :: "nat event list" where
  "demo_events = [Admit False False (demo_job ''a'' 1), Admit False False (demo_job ''a'' 2),
     Admit False False (demo_job ''b'' 3), Fill, Fill, WorkerStart 0, WorkerStart 1, WorkerFinish 0]"

lemma demo_config_eq: "demo_config = \<lparr>cfg_capacity = 4, cfg_workers = 2, cfg_per_account_capacity = 2\<rparr>"
  by (simp add: demo_config_def new_config_def max_def)

lemma upt_0_2: "[0..<2] = [0, 1 :: nat]"
  by (simp add: upt_rec)

lemma demo_run: "\<exists>s. fq_run (start_queue demo_config) demo_events = Some s \<and>
    started s = [demo_job ''a'' 1, demo_job ''b'' 3] \<and> finished s = [demo_job ''a'' 1] \<and>
    admitted s = [demo_job ''a'' 1, demo_job ''a'' 2, demo_job ''b'' 3]"
  by (simp add: demo_events_def demo_config_eq start_queue_def upt_0_2 new_queues_def demo_job_def
      admit_def has_capacity_def try_enqueue_def fill_step_def take_next_def Let_def)

lemma demo_reachable:
  obtains s where "reachable demo_config s" "started s = [demo_job ''a'' 1, demo_job ''b'' 3]"
    "finished s = [demo_job ''a'' 1]" "admitted s = [demo_job ''a'' 1, demo_job ''a'' 2, demo_job ''b'' 3]"
  using demo_run fq_run_reachable [OF reach_start] by blast

section \<open>Properties\<close>

text \<open>C6: the callbacks of an account are processed one at a time and in the order they arrived. In every
  reachable state, whatever the interleaving of admissions, cancellation, supervisor and workers, no
  two workers process the same account, and the jobs of an account were started, and finished, in
  their order of admission, with none skipped.\<close>

theorem account_order_kept:
  assumes "reachable cfg s"
  shows "prefix (by_account a (started s)) (by_account a (admitted s)) \<and>
    prefix (by_account a (finished s)) (by_account a (started s)) \<and>
    (\<forall>i i' j j'. wphase (pool s i) = Processing j \<and> wphase (pool s i') = Processing j' \<and>
       account_id j = account_id j' \<longrightarrow> i = i')"
proof -
  have inv: "fq_inv (cfg_workers cfg) s" by (rule reachable_inv [OF assms])
  then have w: "workers_inv (cfg_workers cfg) s" and ac: "active_inv s" by (simp_all add: fq_inv_def)
  have "i = i'" if "runs s i j" "runs s i' j'" "account_id j = account_id j'" for i i' j j'
    using unique_holding [OF ac] holding_runs [OF w that(1)] holding_runs [OF w that(2)] that(3) by simp
  with started_prefix [OF inv] show ?thesis by (auto simp: runs_def)
qed

theorem account_order_kept_witness:
  "\<exists>s :: nat fair_queue. reachable demo_config s \<and> length (started s) = 2 \<and>
    prefix (by_account ''a'' (started s)) (by_account ''a'' (admitted s)) \<and>
    prefix (by_account ''a'' (finished s)) (by_account ''a'' (started s)) \<and>
    (\<forall>i i' j j'. wphase (pool s i) = Processing j \<and> wphase (pool s i') = Processing j' \<and>
       account_id j = account_id j' \<longrightarrow> i = i')"
proof -
  obtain s where s: "reachable demo_config s" "started s = [demo_job ''a'' 1, demo_job ''b'' 3]"
    by (rule demo_reachable)
  have "length (started s) = 2" using s(2) by simp
  with s(1) account_order_kept [OF s(1), of "''a''"] show ?thesis by blast
qed

text \<open>C7: memory is bounded and no account takes more than its share. In every reachable state the jobs
  that were admitted and are not finished are as many as \<open>in_flight\<close> reports and at most the
  configured capacity, and those of one account are at most its own capacity (but at least one).\<close>

theorem queue_is_bounded_and_fair:
  assumes "reachable cfg s"
  shows "length (admitted s) = length (finished s) + in_flight s \<and> in_flight s \<le> cfg_capacity cfg \<and>
    length (by_account a (admitted s)) \<le>
      length (by_account a (finished s)) + max 1 (cfg_per_account_capacity cfg)"
proof -
  have inv: "fq_inv (cfg_workers cfg) s" by (rule reachable_inv [OF assms])
  then have h: "history_inv s" by (simp add: fq_inv_def)
  have "length (finished s) \<le> length (admitted s)"
    using size_mset_mono [OF mset_of_accounts [of "finished s" "started s"]] started_prefix(2) [OF inv]
      started_le_admitted [OF inv] by fastforce
  then show ?thesis
    using history_invD(1) [OF h] account_load [OF inv, of a] reachable_capacity [OF assms]
    by (auto simp: in_flight_def)
qed

theorem queue_is_bounded_and_fair_witness:
  "\<exists>s :: nat fair_queue. reachable demo_config s \<and> length (finished s) = 1 \<and>
    length (admitted s) = length (finished s) + in_flight s \<and> in_flight s \<le> cfg_capacity demo_config \<and>
    length (by_account ''a'' (admitted s)) \<le>
      length (by_account ''a'' (finished s)) + max 1 (cfg_per_account_capacity demo_config)"
proof -
  obtain s where s: "reachable demo_config s" "finished s = [demo_job ''a'' 1]"
    by (rule demo_reachable)
  have "length (finished s) = 1" using s(2) by simp
  with s(1) queue_is_bounded_and_fair [OF s(1), of "''a''"] show ?thesis by blast
qed

text \<open>C8: every admitted callback is processed, and shutdown completes. From every reachable state the
  supervisor and the workers can make only a bounded number of steps without a new admission; when
  none of them can move, every admitted job of every account is finished in order, and the supervisor
  has stopped if shutdown was requested. No wake-up is lost and no account is forgotten.\<close>

theorem queue_drains:
  assumes "reachable cfg s" "0 < cfg_workers cfg"
  shows "\<exists>n. \<forall>es s'. fq_run s es = Some s' \<and> list_all internal es \<longrightarrow>
    length es \<le> n \<and>
    (stuck s' \<longrightarrow> (\<forall>a. by_account a (finished s') = by_account a (admitted s)) \<and>
       queues_empty (fq_queues s') \<and> (cancelled s \<longrightarrow> sphase s' = Stopped))"
proof -
  let ?W = "cfg_workers cfg"
  have inv: "fq_inv ?W s" by (rule reachable_inv [OF assms(1)])
  have "length es \<le> remaining ?W s \<and>
    (stuck s' \<longrightarrow> (\<forall>a. by_account a (finished s') = by_account a (admitted s)) \<and>
       queues_empty (fq_queues s') \<and> (cancelled s \<longrightarrow> sphase s' = Stopped))"
    if run: "fq_run s es = Some s'" "list_all internal es" for es s'
  proof -
    have inv': "fq_inv ?W s'" by (rule fq_run_inv [OF inv run(1)])
    show ?thesis
      using internal_run_bound [OF inv run] internal_run_capacity [OF run]
        stuck_finished [OF inv' assms(2)] stuck_done [OF inv' assms(2)] by auto
  qed
  then show ?thesis by blast
qed

theorem queue_drains_witness:
  "\<exists>s :: nat fair_queue. reachable demo_config s \<and> length (admitted s) = 3 \<and>
    (\<exists>n. \<forall>es s'. fq_run s es = Some s' \<and> list_all internal es \<longrightarrow>
    length es \<le> n \<and>
    (stuck s' \<longrightarrow> (\<forall>a. by_account a (finished s') = by_account a (admitted s)) \<and>
       queues_empty (fq_queues s') \<and> (cancelled s \<longrightarrow> sphase s' = Stopped)))"
proof -
  obtain s where s: "reachable demo_config s"
    "admitted s = [demo_job ''a'' 1, demo_job ''a'' 2, demo_job ''b'' 3]"
    by (rule demo_reachable)
  have "0 < cfg_workers demo_config" by (simp add: demo_config_def new_config_def)
  from queue_drains [OF s(1) this] have d: "\<exists>n. \<forall>es s'. fq_run s es = Some s' \<and> list_all internal es \<longrightarrow>
    length es \<le> n \<and>
    (stuck s' \<longrightarrow> (\<forall>a. by_account a (finished s') = by_account a (admitted s)) \<and>
       queues_empty (fq_queues s') \<and> (cancelled s \<longrightarrow> sphase s' = Stopped))" .
  have "length (admitted s) = 3" using s(2) by simp
  with s(1) d show ?thesis by blast
qed

end
