(* ===== verification/Request_Throttle.thy ===== *)
theory Request_Throttle
  imports Rust_Text
begin

text \<open>
  The per-address request throttle of the HTTP server, \<open>crates/httpd/src/request_throttle.rs\<close>:
  the scope of a request, the fixed windows per address and scope, the periodic removal of stale
  windows, and the address a request is charged to. The standard library's parsers of \<open>IpAddr\<close> and
  \<open>SocketAddr\<close> are arguments (\<open>ip_of\<close>, \<open>socket_ip_of\<close>). The middleware that uses the throttle is in
  the theory of the HTTP gates.
\<close>

section \<open>Data\<close>

definition CLEANUP_EVERY_REQUESTS :: nat where "CLEANUP_EVERY_REQUESTS = 512"

datatype throttle_scope = Login | AuthApi | Api | Share | Ws | SlackCallbackPreauth

datatype http_method = GET | POST | OtherMethod string

record throttle_key =
  key_ip :: ip_addr
  key_scope :: throttle_scope

record window_state =
  started_at :: instant
  wcount :: nat

record rate_limit =
  max_requests :: nat
  rwindow :: duration

record throttle_limits =
  login_limit :: rate_limit
  auth_api_limit :: rate_limit
  api_limit :: rate_limit
  share_limit :: rate_limit
  ws_limit :: rate_limit
  callback_preauth_limit :: rate_limit

definition default_limits :: throttle_limits where
  "default_limits =
     \<lparr>login_limit = \<lparr>max_requests = 5, rwindow = 60 * 1000\<rparr>,
      auth_api_limit = \<lparr>max_requests = 120, rwindow = 60 * 1000\<rparr>,
      api_limit = \<lparr>max_requests = 180, rwindow = 60 * 1000\<rparr>,
      share_limit = \<lparr>max_requests = 90, rwindow = 60 * 1000\<rparr>,
      ws_limit = \<lparr>max_requests = 30, rwindow = 60 * 1000\<rparr>,
      callback_preauth_limit = \<lparr>max_requests = 5000, rwindow = 60 * 1000\<rparr>\<rparr>"

datatype throttle_decision = Allowed | Denied duration

record request_throttle =
  limits :: throttle_limits
  buckets :: "throttle_key \<rightharpoonup> window_state"
  requests_seen :: nat

section \<open>Scopes\<close>

definition is_slack_callback_path :: "string \<Rightarrow> bool" where
  "is_slack_callback_path path =
     (case strip_prefix path ''/api/channels/slack/'' of
        None \<Rightarrow> False
      | Some rest \<Rightarrow>
          (case split_once (CHR ''/'') rest of
             Some (account_id, endpoint) \<Rightarrow>
               account_id \<noteq> [] \<and> endpoint \<in> {''events'', ''interactions'', ''commands''}
           | None \<Rightarrow> False))"

definition scope_from_request :: "http_method \<Rightarrow> string \<Rightarrow> throttle_scope option" where
  "scope_from_request meth path =
     (if meth = POST \<and> is_slack_callback_path path then Some SlackCallbackPreauth
      else if path = ''/api/auth/login'' \<and> meth = POST then Some Login
      else if starts_with path ''/api/auth/'' then Some AuthApi
      else if starts_with path ''/api/'' then Some Api
      else if starts_with path ''/share/'' then Some Share
      else if starts_with path ''/ws/'' then Some Ws
      else None)"

definition permits_authenticated_bypass :: "throttle_scope \<Rightarrow> bool" where
  "permits_authenticated_bypass scope \<longleftrightarrow> scope \<noteq> SlackCallbackPreauth"

section \<open>The throttle\<close>

definition with_limits :: "throttle_limits \<Rightarrow> request_throttle" where
  "with_limits l = \<lparr>limits = l, buckets = Map.empty, requests_seen = 0\<rparr>"

definition new_throttle :: request_throttle where
  "new_throttle = with_limits default_limits"

definition limit_for :: "request_throttle \<Rightarrow> throttle_scope \<Rightarrow> rate_limit" where
  "limit_for t scope =
     (case scope of
        Login \<Rightarrow> login_limit (limits t)
      | AuthApi \<Rightarrow> auth_api_limit (limits t)
      | Api \<Rightarrow> api_limit (limits t)
      | Share \<Rightarrow> share_limit (limits t)
      | Ws \<Rightarrow> ws_limit (limits t)
      | SlackCallbackPreauth \<Rightarrow> callback_preauth_limit (limits t))"

definition max_window :: "request_throttle \<Rightarrow> duration" where
  "max_window t =
     (let l = limits t;
          w = fold max [rwindow (auth_api_limit l), rwindow (api_limit l), rwindow (share_limit l),
                rwindow (ws_limit l)] (rwindow (login_limit l))
      in max w (rwindow (callback_preauth_limit l)))"

definition cleanup_if_needed :: "request_throttle \<Rightarrow> instant \<Rightarrow> request_throttle" where
  "cleanup_if_needed t now =
     (let seen = (requests_seen t + 1) mod 2 ^ 64;
          t = t\<lparr>requests_seen := seen\<rparr>
      in if seen mod CLEANUP_EVERY_REQUESTS \<noteq> 0 then t
         else t\<lparr>buckets := map_retain
                  (\<lambda>st. duration_since now (started_at st) \<le> max_window t * 3) (buckets t)\<rparr>)"

definition throttle_entry :: "rate_limit \<Rightarrow> window_state option \<Rightarrow> instant \<Rightarrow> window_state \<times> throttle_decision" where
  "throttle_entry limit entry now =
     (case entry of
        Some st \<Rightarrow>
          let elapsed = duration_since now (started_at st) in
          if rwindow limit \<le> elapsed then (\<lparr>started_at = now, wcount = 1\<rparr>, Allowed)
          else if wcount st < max_requests limit then (st\<lparr>wcount := wcount st + 1\<rparr>, Allowed)
          else (st, Denied (rwindow limit - elapsed))
      | None \<Rightarrow> (\<lparr>started_at = now, wcount = 1\<rparr>, Allowed))"

definition throttle_check_at ::
    "request_throttle \<Rightarrow> ip_addr \<Rightarrow> throttle_scope \<Rightarrow> instant \<Rightarrow> request_throttle \<times> throttle_decision" where
  "throttle_check_at t ip scope now =
     (let limit = limit_for t scope in
      if max_requests limit = 0 then (t, Denied (max (rwindow limit) 1000))
      else
        let key = \<lparr>key_ip = ip, key_scope = scope\<rparr>;
            (st, decision) = throttle_entry limit (buckets t key) now;
            t = t\<lparr>buckets := (buckets t)(key \<mapsto> st)\<rparr>
        in (cleanup_if_needed t now, decision))"

section \<open>The client address\<close>

type_synonym header_map = "(string \<times> string) list"

text \<open>\<open>HeaderMap::get\<close> returns the first value of a name; \<open>HeaderValue::to_str\<close> fails unless every
  byte is visible ASCII or a tab.\<close>

definition visible_ascii :: "char \<Rightarrow> bool" where
  "visible_ascii c \<longleftrightarrow> (let n = (of_char c :: nat) in 32 \<le> n \<and> n < 127 \<or> n = 9)"

definition header_str :: "header_map \<Rightarrow> string \<Rightarrow> string option" where
  "header_str headers name =
     (case map_of headers name of
        Some v \<Rightarrow> if list_all visible_ascii v then Some v else None
      | None \<Rightarrow> None)"

definition parse_ip ::
    "(string \<Rightarrow> ip_addr option) \<Rightarrow> (string \<Rightarrow> ip_addr option) \<Rightarrow> string \<Rightarrow> ip_addr option" where
  "parse_ip ip_of socket_ip_of value =
     (if value = [] then None
      else case ip_of value of Some ip \<Rightarrow> Some ip | None \<Rightarrow> socket_ip_of value)"

fun find_map :: "('a \<Rightarrow> 'b option) \<Rightarrow> 'a list \<Rightarrow> 'b option" where
  "find_map f [] = None"
| "find_map f (x # xs) = (case f x of Some y \<Rightarrow> Some y | None \<Rightarrow> find_map f xs)"

definition extract_forwarded_ip ::
    "(string \<Rightarrow> ip_addr option) \<Rightarrow> (string \<Rightarrow> ip_addr option) \<Rightarrow> header_map \<Rightarrow> ip_addr option" where
  "extract_forwarded_ip ip_of socket_ip_of headers =
     (let parse = parse_ip ip_of socket_ip_of in
      case Option.bind (header_str headers ''x-forwarded-for'')
             (\<lambda>xff. find_map (\<lambda>candidate. parse (trim candidate)) (split_on (CHR '','') xff)) of
        Some ip \<Rightarrow> Some ip
      | None \<Rightarrow>
          (case Option.bind (header_str headers ''x-real-ip'') (\<lambda>xri. parse (trim xri)) of
             Some ip \<Rightarrow> Some ip
           | None \<Rightarrow> Option.bind (header_str headers ''cf-connecting-ip'') (\<lambda>cf_ip. parse (trim cf_ip))))"

definition resolve_client_ip ::
    "(string \<Rightarrow> ip_addr option) \<Rightarrow> (string \<Rightarrow> ip_addr option) \<Rightarrow> header_map \<Rightarrow> ip_addr \<Rightarrow> bool \<Rightarrow> ip_addr" where
  "resolve_client_ip ip_of socket_ip_of headers addr behind_proxy =
     (if behind_proxy
      then case extract_forwarded_ip ip_of socket_ip_of headers of Some ip \<Rightarrow> ip | None \<Rightarrow> addr
      else addr)"

section \<open>Lemmas\<close>

lemma limit_for_window: "rwindow (limit_for t scope) \<le> max_window t"
  by (auto simp: limit_for_def max_window_def Let_def split: throttle_scope.split)

lemma limits_cleanup [simp]: "limits (cleanup_if_needed t now) = limits t"
  by (simp add: cleanup_if_needed_def Let_def)

lemma limits_check [simp]: "limits (fst (throttle_check_at t ip scope now)) = limits t"
  by (simp add: throttle_check_at_def Let_def case_prod_unfold)

lemma max_window_limits: "limits t = limits t' \<Longrightarrow> max_window t = max_window t'"
  by (simp add: max_window_def)

lemma limit_for_limits: "limits t = limits t' \<Longrightarrow> limit_for t scope = limit_for t' scope"
  by (simp add: limit_for_def split: throttle_scope.split)

text \<open>Cleanup removes an entry only when its window is over, whatever the scope.\<close>

lemma cleanup_entry:
  "buckets (cleanup_if_needed t now) key = buckets t key \<or>
   buckets (cleanup_if_needed t now) key = None \<and>
   (\<forall>st. buckets t key = Some st \<longrightarrow> 3 * max_window t < duration_since now (started_at st))"
proof (cases "buckets t key")
  case None
  then show ?thesis
    by (auto simp: cleanup_if_needed_def map_retain_def Let_def)
next
  case (Some st)
  have "max_window (t\<lparr>requests_seen := n\<rparr>) = max_window t" for n
    by (rule max_window_limits) simp
  with Some show ?thesis
    by (auto simp: cleanup_if_needed_def map_retain_def Let_def)
qed

abbreviation key_of :: "ip_addr \<Rightarrow> throttle_scope \<Rightarrow> throttle_key" where
  "key_of ip scope \<equiv> \<lparr>key_ip = ip, key_scope = scope\<rparr>"

type_synonym throttle_event = "ip_addr \<times> throttle_scope \<times> instant"

definition throttle_step :: "throttle_limits \<Rightarrow> request_throttle \<Rightarrow> throttle_event \<Rightarrow> request_throttle" where
  "throttle_step l t e = (case e of (ip, scope, now) \<Rightarrow> fst (throttle_check_at (t\<lparr>limits := l\<rparr>) ip scope now))"

definition throttle_admits :: "throttle_limits \<Rightarrow> ip_addr \<Rightarrow> throttle_scope \<Rightarrow> request_throttle \<Rightarrow> throttle_event \<Rightarrow> bool" where
  "throttle_admits l ip scope t e =
     (case e of (ip', scope', now) \<Rightarrow>
        ip' = ip \<and> scope' = scope \<and> snd (throttle_check_at (t\<lparr>limits := l\<rparr>) ip scope now) = Allowed)"

definition window_of :: "throttle_key \<Rightarrow> request_throttle \<Rightarrow> (instant \<times> nat) option" where
  "window_of key t = map_option (\<lambda>st. (started_at st, wcount st)) (buckets t key)"

lemma window_of_Some: "window_of key t = Some (b, n) \<longleftrightarrow>
    (\<exists>st. buckets t key = Some st \<and> started_at st = b \<and> wcount st = n)"
  by (auto simp: window_of_def)

lemma cleanup_window:
  assumes "limits t = l"
  shows "window_of (key_of ip scope) (cleanup_if_needed t now) = window_of (key_of ip scope) t \<or>
     window_of (key_of ip scope) (cleanup_if_needed t now) = None \<and>
     (\<forall>b n. window_of (key_of ip scope) t = Some (b, n) \<longrightarrow>
        rwindow (limit_for t scope) < duration_since now b)"
proof -
  have "rwindow (limit_for t scope) < duration_since now (started_at st)"
    if "3 * max_window t < duration_since now (started_at st)" for st
    using that limit_for_window [of t scope] by simp
  then show ?thesis
    using cleanup_entry [of t now "key_of ip scope"] by (auto simp: window_of_def)
qed

lemma check_other_key:
  assumes "(ip', scope') \<noteq> (ip, scope)" "limits t = l"
  shows "window_of (key_of ip scope) (fst (throttle_check_at t ip' scope' now)) = window_of (key_of ip scope) t \<or>
     window_of (key_of ip scope) (fst (throttle_check_at t ip' scope' now)) = None \<and>
     (\<forall>b n. window_of (key_of ip scope) t = Some (b, n) \<longrightarrow>
        rwindow (limit_for t scope) \<le> duration_since now b)"
proof (cases "max_requests (limit_for t scope') = 0")
  case True
  then show ?thesis by (simp add: throttle_check_at_def Let_def)
next
  case False
  let ?t = "t\<lparr>buckets := (buckets t)(key_of ip' scope' \<mapsto>
      fst (throttle_entry (limit_for t scope') (buckets t (key_of ip' scope')) now))\<rparr>"
  have t: "fst (throttle_check_at t ip' scope' now) = cleanup_if_needed ?t now"
    using False by (simp add: throttle_check_at_def Let_def case_prod_unfold)
  have w: "window_of (key_of ip scope) ?t = window_of (key_of ip scope) t"
    using assms(1) by (auto simp: window_of_def)
  have "limit_for ?t scope = limit_for t scope"
    by (rule limit_for_limits) simp
  then show ?thesis
    using cleanup_window [of ?t l ip scope now] assms(2) unfolding t w by force
qed

lemma check_own_key:
  assumes "max_requests (limit_for t scope) \<noteq> 0"
    and r_def: "r = throttle_entry (limit_for t scope) (buckets t (key_of ip scope)) now"
  shows "snd (throttle_check_at t ip scope now) = snd r \<and>
     buckets (fst (throttle_check_at t ip scope now)) (key_of ip scope) = Some (fst r)"
proof -
  let ?t = "t\<lparr>buckets := (buckets t)(key_of ip scope \<mapsto> fst r)\<rparr>"
  have t: "throttle_check_at t ip scope now = (cleanup_if_needed ?t now, snd r)"
    using assms by (simp add: throttle_check_at_def Let_def case_prod_unfold)
  have "duration_since now (started_at (fst r)) \<le> rwindow (limit_for t scope)"
    unfolding r_def throttle_entry_def Let_def
    by (auto split: option.split simp: duration_since_def)
  then have "\<not> 3 * max_window ?t < duration_since now (started_at (fst r))"
    using limit_for_window [of t scope] max_window_limits [of ?t t] by simp
  then show ?thesis
    using cleanup_entry [of ?t now "key_of ip scope"] unfolding t by auto
qed

lemma throttle_entry_cases:
  fixes entry :: "window_state option"
  assumes "max_requests l \<noteq> 0" "throttle_entry l entry now = (st, d)"
  shows "d = Allowed \<and> st = \<lparr>started_at = now, wcount = 1\<rparr> \<and>
      (\<forall>st0. entry = Some st0 \<longrightarrow> rwindow l \<le> duration_since now (started_at st0)) \<or>
    (\<exists>st0. entry = Some st0 \<and> duration_since now (started_at st0) < rwindow l \<and>
      (if wcount st0 < max_requests l then d = Allowed \<and> st = st0\<lparr>wcount := wcount st0 + 1\<rparr>
       else st = st0 \<and> d = Denied (rwindow l - duration_since now (started_at st0))))"
  using assms by (auto simp: throttle_entry_def Let_def not_le split: option.splits if_splits)

interpretation throttle_window: fixed_window "throttle_step l" "\<lambda>(_, _, now). now"
  "throttle_admits l ip scope" "window_of (key_of ip scope)"
  "rwindow (limit_for (with_limits l) scope)" "max_requests (limit_for (with_limits l) scope)" for l ip scope
proof
  fix t :: request_throttle and e :: throttle_event
  obtain ip' scope' now where e: "e = (ip', scope', now)" by (cases e)
  let ?t = "t\<lparr>limits := l\<rparr>" and ?key = "key_of ip scope"
  have lim: "limit_for ?t s = limit_for (with_limits l) s" for s
    by (rule limit_for_limits) (simp add: with_limits_def)
  have w: "window_of ?key ?t = window_of ?key t" by (simp add: window_of_def)
  let ?limit = "limit_for (with_limits l) scope"
  let ?P = "\<lambda>t'. \<forall>b n. window_of ?key t = Some (b, n) \<longrightarrow> rwindow ?limit \<le> duration_since (case e of (_, _, now) \<Rightarrow> now) b"
  have own: "\<exists>st d. snd (throttle_check_at ?t ip scope now) = d \<and> window_of ?key (fst (throttle_check_at ?t ip scope now)) = Some (started_at st, wcount st) \<and>
     throttle_entry ?limit (buckets t ?key) now = (st, d)" if "max_requests ?limit \<noteq> 0"
    using check_own_key [of ?t scope _ ip now] that lim
    by (cases "throttle_entry ?limit (buckets t ?key) now") (simp add: window_of_def)
  {
    assume a: "throttle_admits l ip scope t e"
    then have same: "ip' = ip" "scope' = scope" and al: "snd (throttle_check_at ?t ip scope now) = Allowed"
      by (auto simp: throttle_admits_def e)
    then have m: "max_requests ?limit \<noteq> 0"
      using lim by (auto simp: throttle_check_at_def Let_def split: if_splits)
    from own [OF m] al obtain st where
      st: "window_of ?key (throttle_step l t e) = Some (started_at st, wcount st)"
      and en: "throttle_entry ?limit (buckets t ?key) now = (st, Allowed)"
      using same by (auto simp: throttle_step_def e)
    from throttle_entry_cases [OF m en] st m
    show "(window_of ?key (throttle_step l t e) = Some (case e of (_, _, now) \<Rightarrow> now, 1) \<and> 1 \<le> max_requests ?limit \<and>
        (\<forall>b n. window_of ?key t = Some (b, n) \<longrightarrow> rwindow ?limit \<le> duration_since (case e of (_, _, now) \<Rightarrow> now) b)) \<or>
      (\<exists>b n. window_of ?key t = Some (b, n) \<and> n < max_requests ?limit \<and>
        duration_since (case e of (_, _, now) \<Rightarrow> now) b < rwindow ?limit \<and>
        window_of ?key (throttle_step l t e) = Some (b, n + 1))"
      by (auto simp: window_of_Some e split: if_splits)
  next
    assume a: "\<not> throttle_admits l ip scope t e"
    show "window_of ?key (throttle_step l t e) = window_of ?key t \<or>
      (window_of ?key (throttle_step l t e) = None \<and>
       (\<forall>b n. window_of ?key t = Some (b, n) \<longrightarrow> rwindow ?limit \<le> duration_since (case e of (_, _, now) \<Rightarrow> now) b))"
    proof (cases "(ip', scope') = (ip, scope) \<and> max_requests ?limit \<noteq> 0")
      case True
      then obtain st d where "d \<noteq> Allowed" and
        st: "window_of ?key (throttle_step l t e) = Some (started_at st, wcount st)"
        and en: "throttle_entry ?limit (buckets t ?key) now = (st, d)"
        using own a by (auto simp: throttle_step_def throttle_admits_def e)
      with throttle_entry_cases [OF _ en] True show ?thesis
        by (auto simp: window_of_def split: if_splits)
    next
      case False
      show ?thesis
      proof (cases "max_requests ?limit = 0 \<and> scope' = scope")
        case True
        then have "throttle_step l t e = ?t"
          using lim [of scope] by (simp add: throttle_step_def e throttle_check_at_def Let_def)
        with w show ?thesis by simp
      next
        case other: False
        with False have "(ip', scope') \<noteq> (ip, scope)" by auto
        from check_other_key [OF this refl, of ?t now] show ?thesis
          using w lim by (simp add: throttle_step_def e)
      qed
    qed
  }
qed

text \<open>The run of the throttle itself, and the times at which it let the requests of one address and
  scope pass.\<close>

fun allowed_times :: "ip_addr \<Rightarrow> throttle_scope \<Rightarrow> request_throttle \<Rightarrow> throttle_event list \<Rightarrow> instant list" where
  "allowed_times ip scope t [] = []"
| "allowed_times ip scope t ((ip', scope', now) # es) =
     (let (t', d) = throttle_check_at t ip' scope' now in
      (if ip' = ip \<and> scope' = scope \<and> d = Allowed then [now] else []) @ allowed_times ip scope t' es)"

lemma allowed_times_grants:
  "limits t = l \<Longrightarrow> allowed_times ip scope t es =
     grants (throttle_admits l ip scope) (\<lambda>(_, _, now). now) (throttle_step l) t es"
proof (induction es arbitrary: t)
  case Nil
  then show ?case by simp
next
  case (Cons e es)
  obtain ip' scope' now where e: "e = (ip', scope', now)" by (cases e)
  have t: "t\<lparr>limits := l\<rparr> = t" using Cons.prems by (cases t) simp
  have "limits (fst (throttle_check_at t ip' scope' now)) = l" using Cons.prems by simp
  from Cons.IH [OF this] show ?case
    by (auto simp: e throttle_admits_def throttle_step_def t case_prod_unfold Let_def)
qed

lemma allowed_times_bounded:
  assumes "sorted (map (\<lambda>(_, _, now). now) es)"
  shows "within t (rwindow (limit_for (with_limits l) scope)) (allowed_times ip scope (with_limits l) es)
    \<le> 2 * max_requests (limit_for (with_limits l) scope)"
proof -
  have "window_of (key_of ip scope) (with_limits l) = None" "limits (with_limits l) = l"
    by (simp_all add: window_of_def with_limits_def)
  with throttle_window.grants_bounded [OF _ assms] show ?thesis
    by (simp add: allowed_times_grants)
qed

section \<open>Properties\<close>

text \<open>The throttle bounds what one client gets through. Whatever the other clients send, in any
  stretch of time as long as the window of a scope, at most twice the configured number of requests
  of one address and scope pass, and the periodic cleanup never resets an open window.\<close>

theorem throttle_bounds_requests:
  assumes "sorted (map (\<lambda>(_, _, now). now) es)"
  shows "within t (rwindow (limit_for (with_limits l) scope)) (allowed_times ip scope (with_limits l) es)
    \<le> 2 * max_requests (limit_for (with_limits l) scope)"
  using assms by (rule allowed_times_bounded)

theorem throttle_bounds_requests_witness:
  "within 0 (rwindow (limit_for new_throttle Login))
     (allowed_times (V4 7) Login new_throttle [(V4 7, Login, 0), (V4 8, Api, 0), (V4 7, Login, 59000), (V4 7, Login, 60001)])
    \<le> 2 * max_requests (limit_for new_throttle Login)"
  unfolding new_throttle_def by (rule throttle_bounds_requests) simp

text \<open>A refusal says exactly how long to wait. When a request is refused and the scope is not
  switched off, the next request of that client passes from the announced moment on and not before
  (the clock never reads less than the start of the window).\<close>

theorem retry_after_is_exact:
  assumes "throttle_check_at t ip scope now = (t', Denied d)" "0 < max_requests (limit_for t scope)"
    and "now \<le> now'" "\<And>st. buckets t (key_of ip scope) = Some st \<Longrightarrow> started_at st \<le> now"
  shows "snd (throttle_check_at t' ip scope now') = Allowed \<longleftrightarrow> instant_add now d \<le> now'"
proof -
  let ?l = "limit_for t scope" and ?key = "key_of ip scope"
  from assms(2) have m: "max_requests ?l \<noteq> 0" by simp
  obtain st where en: "throttle_entry ?l (buckets t ?key) now = (st, Denied d)"
    and b: "buckets t' ?key = Some st"
    using check_own_key [OF m refl, of ip now] assms(1)
    by (cases "throttle_entry ?l (buckets t ?key) now") auto
  have st: "duration_since now (started_at st) < rwindow ?l" "max_requests ?l \<le> wcount st"
    "d = rwindow ?l - duration_since now (started_at st)"
    "started_at st \<le> now"
    using throttle_entry_cases [OF m en] assms(4) by (auto split: if_splits)
  have l': "limit_for t' scope = ?l"
    using assms(1) limits_check [of t ip scope now] by (intro limit_for_limits) simp
  have "snd (throttle_check_at t' ip scope now') = snd (throttle_entry ?l (Some st) now')"
    using check_own_key [of t' scope _ ip now'] l' m b by simp
  also have "\<dots> = Allowed \<longleftrightarrow> rwindow ?l \<le> duration_since now' (started_at st)"
    using st(2) by (simp add: throttle_entry_def Let_def)
  also have "\<dots> \<longleftrightarrow> instant_add now d \<le> now'"
    using st(1,3,4) assms(3) by (auto simp: duration_since_def instant_add_def)
  finally show ?thesis .
qed

definition one_per_minute :: throttle_limits where
  "one_per_minute = default_limits\<lparr>login_limit := \<lparr>max_requests = 1, rwindow = 60000\<rparr>\<rparr>"

theorem retry_after_is_exact_witness:
  "\<exists>t'. throttle_check_at (fst (throttle_check_at (with_limits one_per_minute) (V4 7) Login 1000)) (V4 7) Login 11000 =
      (t', Denied 50000) \<and>
    (snd (throttle_check_at t' (V4 7) Login 61000) = Allowed \<longleftrightarrow> instant_add 11000 50000 \<le> 61000)"
proof -
  let ?t = "fst (throttle_check_at (with_limits one_per_minute) (V4 7) Login 1000)"
  obtain t' where t': "throttle_check_at ?t (V4 7) Login 11000 = (t', Denied 50000)"
    by (simp add: throttle_check_at_def throttle_entry_def with_limits_def limit_for_def one_per_minute_def
        cleanup_if_needed_def CLEANUP_EVERY_REQUESTS_def duration_since_def Let_def)
  have "limits ?t = one_per_minute" by (simp add: with_limits_def)
  then have "0 < max_requests (limit_for ?t Login)"
    by (simp add: limit_for_def one_per_minute_def)
  moreover have "started_at st \<le> 11000" if "buckets ?t (key_of (V4 7) Login) = Some st" for st
    using that by (auto simp: throttle_check_at_def throttle_entry_def with_limits_def limit_for_def
        one_per_minute_def cleanup_if_needed_def CLEANUP_EVERY_REQUESTS_def Let_def)
  ultimately show ?thesis
    using retry_after_is_exact [OF t', of 61000] t' by auto
qed

end
