(* ===== verification/Http_Gates.thy ===== *)
theory Http_Gates
  imports Request_Throttle
begin

text \<open>
  The gates every HTTP request passes before a handler runs: the locality test of
  \<open>crates/auth/src/locality.rs\<close>, the authentication decision, the auth gate, the vault guard and the
  extractors of \<open>crates/httpd/src/auth_middleware.rs\<close>, the throttle gate of
  \<open>crates/httpd/src/request_throttle.rs\<close>, and the order in which
  \<open>crates/httpd/src/server/builder.rs\<close> stacks them (a layer added later runs earlier).

  The credential store is the record of the answers it gives: its two flags, the validity of a
  session token and the scopes of an API key (\<open>None\<close> for a database error or an unknown key). The
  build has the default features. Log lines are left out.
\<close>

section \<open>Data\<close>

datatype auth_method = Password | Passkey | ApiKey | Loopback

record auth_identity =
  auth_method_of :: auth_method
  scopes :: "string list"

record credential_store =
  auth_disabled :: bool
  setup_complete :: bool
  validate_session :: "string \<Rightarrow> bool option"
  verify_api_key :: "string \<Rightarrow> string list option"

datatype auth_result = AuthAllowed auth_identity | SetupRequired | Unauthorized

datatype vault_status = Uninitialized | Sealed | Unsealed

record gateway_state =
  credential_store_of :: "credential_store option"
  behind_proxy :: bool
  trust_docker_loopback :: bool
  wizard_onboarded :: "bool option"
  vault :: "vault_status option option"

record http_request =
  meth :: http_method
  path :: string
  headers :: header_map
  remote :: ip_addr

text \<open>The outcome: the handler runs with the identity in the request's extensions, or a response.\<close>

datatype response =
    Handler "auth_identity option"
  | StatusCode nat string
  | Redirect string
  | TooManyRequests nat

section \<open>Locality\<close>

definition has_proxy_headers :: "header_map \<Rightarrow> bool" where
  "has_proxy_headers h \<longleftrightarrow>
     map_of h ''x-forwarded-for'' \<noteq> None \<or> map_of h ''x-real-ip'' \<noteq> None \<or>
     map_of h ''cf-connecting-ip'' \<noteq> None \<or> map_of h ''forwarded'' \<noteq> None"

text \<open>\<open>rsplit_once\<close>: what stands before the last occurrence of the separator.\<close>

definition before_last :: "string \<Rightarrow> string \<Rightarrow> string option" where
  "before_last sep s =
     (case find_sub (rev sep) (rev s) of
        Some i \<Rightarrow> Some (rev (drop (i + length sep) (rev s)))
      | None \<Rightarrow> None)"

definition is_loopback_host :: "string \<Rightarrow> bool" where
  "is_loopback_host host =
     (let name =
        (if starts_with host ''['' then
           (let addr = (case before_last '']:'' host of Some a \<Rightarrow> a | None \<Rightarrow> host)
            in trim_end_by (\<lambda>c. c = CHR '']'') (trim_start_by (\<lambda>c. c = CHR ''['') addr))
         else if 1 < length (filter (\<lambda>c. c = CHR '':'') host) then host
         else (case before_last '':'' host of Some a \<Rightarrow> a | None \<Rightarrow> host))
      in name \<in> {''localhost'', ''127.0.0.1'', ''::1''} \<or> ends_with name ''.localhost'')"

definition is_loopback :: "ip_addr \<Rightarrow> bool" where
  "is_loopback ip = (case ip of V4 n \<Rightarrow> n div 2 ^ 24 = 127 | V6 n \<Rightarrow> n = 1)"

definition is_local_connection :: "header_map \<Rightarrow> ip_addr \<Rightarrow> bool \<Rightarrow> bool \<Rightarrow> bool" where
  "is_local_connection h addr proxied docker =
     (if proxied then False
      else if has_proxy_headers h then False
      else if (case header_str h ''host'' of Some host \<Rightarrow> \<not> is_loopback_host host | None \<Rightarrow> False) then False
      else if is_loopback addr then True
      else docker)"

section \<open>Credentials of a request\<close>

definition cookie_header :: "header_map \<Rightarrow> string option" where
  "cookie_header h = header_str h ''cookie''"

definition bearer_token :: "header_map \<Rightarrow> string option" where
  "bearer_token h = Option.bind (header_str h ''authorization'') (\<lambda>v. strip_prefix v ''Bearer '')"

definition cookie_part :: "string \<Rightarrow> string \<Rightarrow> string option" where
  "cookie_part name part =
     Option.bind (strip_prefix (trim part) name) (\<lambda>v. strip_prefix v ''='')"

definition parse_cookie :: "string \<Rightarrow> string \<Rightarrow> string option" where
  "parse_cookie header name = find_map (cookie_part name) (split_on (CHR '';'') header)"

definition SESSION_COOKIE :: string where "SESSION_COOKIE = ''moltis_session''"

definition session_token :: "header_map \<Rightarrow> string option" where
  "session_token h = Option.bind (cookie_header h) (\<lambda>v. parse_cookie v SESSION_COOKIE)"

definition has_scope :: "auth_identity \<Rightarrow> string \<Rightarrow> bool" where
  "has_scope identity scope =
     (if auth_method_of identity \<noteq> ApiKey then True
      else scopes identity = [] \<or> scope \<in> set (scopes identity))"

section \<open>The authentication decision\<close>

definition loopback_identity :: auth_identity where
  "loopback_identity = \<lparr>auth_method_of = Loopback, scopes = []\<rparr>"

definition check_auth :: "credential_store \<Rightarrow> header_map \<Rightarrow> bool \<Rightarrow> auth_result" where
  "check_auth store h is_local =
     (if auth_disabled store then
        (if is_local then AuthAllowed loopback_identity else SetupRequired)
      else if \<not> setup_complete store then
        (if is_local then AuthAllowed loopback_identity else SetupRequired)
      else if (case session_token h of
                 Some token \<Rightarrow> validate_session store token = Some True | None \<Rightarrow> False) then
        AuthAllowed \<lparr>auth_method_of = Password, scopes = []\<rparr>
      else
        (case Option.bind (bearer_token h) (verify_api_key store) of
           Some sc \<Rightarrow> AuthAllowed \<lparr>auth_method_of = ApiKey, scopes = sc\<rparr>
         | None \<Rightarrow> Unauthorized))"

definition is_public_path :: "string \<Rightarrow> bool" where
  "is_public_path p \<longleftrightarrow>
     p \<in> {''/health'', ''/auth/callback'', ''/manifest.json'', ''/offline.html'', ''/sw.js'', ''/login'',
        ''/setup-required'', ''/ws''} \<or>
     starts_with p ''/api/auth/'' \<or> starts_with p ''/api/public/'' \<or>
     starts_with p ''/api/channels/msteams/'' \<or> is_slack_callback_path p \<or>
     starts_with p ''/api/webhooks/ingest/'' \<or> starts_with p ''/assets/'' \<or> starts_with p ''/share/''"

definition is_onboarding_bypass_path :: "string \<Rightarrow> bool" where
  "is_onboarding_bypass_path p \<longleftrightarrow>
     starts_with p ''/api/sessions/'' \<or> starts_with p ''/api/bootstrap'' \<or> p = ''/api/gon'' \<or>
     starts_with p ''/api/tailscale/'' \<or> starts_with p ''/ws/''"

definition request_is_local :: "gateway_state \<Rightarrow> http_request \<Rightarrow> bool" where
  "request_is_local gw req =
     is_local_connection (headers req) (remote req) (behind_proxy gw) (trust_docker_loopback gw)"

definition setup_required_response :: "bool \<Rightarrow> string \<Rightarrow> response" where
  "setup_required_response is_local p =
     (if starts_with p ''/api/'' \<or> starts_with p ''/ws/'' then StatusCode 401 ''AUTH_SETUP_REQUIRED''
      else if is_local \<or> p = ''/onboarding'' \<or> p = ''/onboarding/'' then Handler (Some loopback_identity)
      else Redirect ''/onboarding'')"

definition unauthorized_response :: "gateway_state \<Rightarrow> bool \<Rightarrow> string \<Rightarrow> response" where
  "unauthorized_response gw is_local p =
     (if is_local \<and> is_onboarding_bypass_path p \<and>
         \<not> (case wizard_onboarded gw of Some b \<Rightarrow> b | None \<Rightarrow> True)
      then Handler (Some loopback_identity)
      else if starts_with p ''/api/'' \<or> starts_with p ''/ws/'' then StatusCode 401 ''AUTH_NOT_AUTHENTICATED''
      else Redirect ''/login'')"

definition auth_gate :: "gateway_state \<Rightarrow> http_request \<Rightarrow> response" where
  "auth_gate gw req =
     (if is_public_path (path req) then Handler None
      else case credential_store_of gw of
        None \<Rightarrow> Handler None
      | Some store \<Rightarrow>
          let is_local = request_is_local gw req in
          case check_auth store (headers req) is_local of
            AuthAllowed identity \<Rightarrow> Handler (Some identity)
          | SetupRequired \<Rightarrow> setup_required_response is_local (path req)
          | Unauthorized \<Rightarrow> unauthorized_response gw is_local (path req))"

section \<open>The vault guard\<close>

definition is_vault_guard_exempt_path :: "string \<Rightarrow> bool" where
  "is_vault_guard_exempt_path p \<longleftrightarrow>
     starts_with p ''/api/auth/'' \<or> starts_with p ''/api/public/'' \<or> p = ''/api/gon'' \<or>
     p = ''/api/bootstrap'' \<or> p = ''/api/sessions'' \<or> starts_with p ''/api/sessions/''"

definition vault_guard :: "gateway_state \<Rightarrow> http_request \<Rightarrow> response \<Rightarrow> response" where
  "vault_guard gw req next_run =
     (case vault gw of
        None \<Rightarrow> next_run
      | Some status \<Rightarrow>
          if \<not> starts_with (path req) ''/api/'' \<or> is_vault_guard_exempt_path (path req) then next_run
          else if status = Some Sealed then StatusCode 423 ''vault is sealed''
          else next_run)"

section \<open>The throttle gate\<close>

definition should_bypass_throttling :: "gateway_state \<Rightarrow> http_request \<Rightarrow> bool" where
  "should_bypass_throttling gw req =
     (case credential_store_of gw of
        None \<Rightarrow> True
      | Some store \<Rightarrow>
          (case check_auth store (headers req) (request_is_local gw req) of
             AuthAllowed _ \<Rightarrow> True | _ \<Rightarrow> False))"

definition rate_limited_response :: "duration \<Rightarrow> response" where
  "rate_limited_response retry_after = TooManyRequests (max (retry_after div 1000) 1)"

definition throttle_gate ::
    "(string \<Rightarrow> ip_addr option) \<Rightarrow> (string \<Rightarrow> ip_addr option) \<Rightarrow> gateway_state \<Rightarrow> request_throttle \<Rightarrow>
     http_request \<Rightarrow> instant \<Rightarrow> response \<Rightarrow> request_throttle \<times> response" where
  "throttle_gate ip_of socket_ip_of gw t req now next_run =
     (case scope_from_request (meth req) (path req) of
        None \<Rightarrow> (t, next_run)
      | Some scope \<Rightarrow>
          if permits_authenticated_bypass scope \<and> should_bypass_throttling gw req then (t, next_run)
          else
            let client_ip = resolve_client_ip ip_of socket_ip_of (headers req) (remote req) (behind_proxy gw) in
            (case throttle_check_at t client_ip scope now of
               (t', Allowed) \<Rightarrow> (t', next_run)
             | (t', Denied retry_after) \<Rightarrow> (t', rate_limited_response retry_after)))"

section \<open>The stack and the extractors\<close>

definition finalize_gateway_app ::
    "(string \<Rightarrow> ip_addr option) \<Rightarrow> (string \<Rightarrow> ip_addr option) \<Rightarrow> gateway_state \<Rightarrow> request_throttle \<Rightarrow>
     http_request \<Rightarrow> instant \<Rightarrow> request_throttle \<times> response" where
  "finalize_gateway_app ip_of socket_ip_of gw t req now =
     throttle_gate ip_of socket_ip_of gw t req now (vault_guard gw req (auth_gate gw req))"

definition auth_session ::
    "gateway_state \<Rightarrow> http_request \<Rightarrow> auth_identity option \<Rightarrow> (nat \<times> string) + auth_identity" where
  "auth_session gw req extension =
     (case extension of
        Some identity \<Rightarrow> Inr identity
      | None \<Rightarrow>
          (case credential_store_of gw of
             None \<Rightarrow> Inl (401, ''not authenticated'')
           | Some store \<Rightarrow>
               (case check_auth store (headers req) (request_is_local gw req) of
                  AuthAllowed identity \<Rightarrow> Inr identity
                | _ \<Rightarrow> Inl (401, ''not authenticated''))))"

definition require_admin ::
    "gateway_state \<Rightarrow> http_request \<Rightarrow> auth_identity option \<Rightarrow> (nat \<times> string) + auth_identity" where
  "require_admin gw req extension =
     (case auth_session gw req extension of
        Inl e \<Rightarrow> Inl e
      | Inr identity \<Rightarrow>
          if has_scope identity ''operator.admin'' then Inr identity
          else Inl (403, ''insufficient scope: operator.admin required''))"

section \<open>Lemmas\<close>

text \<open>The credentials a request presents, as the store judges them.\<close>

definition valid_session :: "credential_store \<Rightarrow> header_map \<Rightarrow> bool" where
  "valid_session store h \<longleftrightarrow> (\<exists>token. session_token h = Some token \<and> validate_session store token = Some True)"

definition valid_api_key :: "credential_store \<Rightarrow> header_map \<Rightarrow> string list \<Rightarrow> bool" where
  "valid_api_key store h sc \<longleftrightarrow> (\<exists>key. bearer_token h = Some key \<and> verify_api_key store key = Some sc)"

definition auth_active :: "credential_store \<Rightarrow> bool" where
  "auth_active store \<longleftrightarrow> \<not> auth_disabled store \<and> setup_complete store"

lemma check_auth_allowed:
  "check_auth store h is_local = AuthAllowed identity \<longleftrightarrow>
     (if auth_active store
      then valid_session store h \<and> identity = \<lparr>auth_method_of = Password, scopes = []\<rparr> \<or>
           \<not> valid_session store h \<and> (\<exists>sc. valid_api_key store h sc \<and> identity = \<lparr>auth_method_of = ApiKey, scopes = sc\<rparr>)
      else is_local \<and> identity = loopback_identity)"
  by (auto simp: check_auth_def auth_active_def valid_session_def valid_api_key_def bind_eq_Some_conv
      split: option.splits)

lemma check_auth_setup: "check_auth store h is_local = SetupRequired \<longleftrightarrow> \<not> auth_active store \<and> \<not> is_local"
  by (auto simp: check_auth_def auth_active_def split: option.splits)

lemma vault_guard_handler: "vault_guard gw req r = Handler ext \<Longrightarrow> r = Handler ext"
  by (auto simp: vault_guard_def split: option.splits if_splits)

lemma throttle_gate_cases:
  "snd (throttle_gate ip_of socket_ip_of gw t req now r) = r \<or>
   (\<exists>d. snd (throttle_gate ip_of socket_ip_of gw t req now r) = rate_limited_response d)"
  by (auto simp: throttle_gate_def Let_def split: option.splits throttle_decision.splits prod.splits)

lemma stack_handler:
  assumes "snd (finalize_gateway_app ip_of socket_ip_of gw t req now) = Handler ext"
  shows "auth_gate gw req = Handler ext \<and> vault_guard gw req (auth_gate gw req) = Handler ext"
proof -
  have "vault_guard gw req (auth_gate gw req) = Handler ext"
    using assms throttle_gate_cases [of ip_of socket_ip_of gw t req now "vault_guard gw req (auth_gate gw req)"]
    by (auto simp: finalize_gateway_app_def rate_limited_response_def)
  then show ?thesis using vault_guard_handler by blast
qed

lemma starts_with_head: "starts_with p (c # s) \<Longrightarrow> p \<noteq> []"
  by (auto simp: starts_with_def)

lemma not_onboarding: "starts_with p ''/api/'' \<Longrightarrow> p \<noteq> ''/onboarding'' \<and> p \<noteq> ''/onboarding/''"
  by (auto simp: starts_with_def)

text \<open>What the gate passes to a handler of an API route of a request that is not local.\<close>

lemma remote_api_identity:
  assumes "credential_store_of gw = Some store" "\<not> request_is_local gw req" "starts_with (path req) ''/api/''"
    and "auth_gate gw req = Handler ext" "auth_session gw req ext = Inr identity"
  shows "auth_active store \<and>
    (valid_session store (headers req) \<or>
     (\<exists>sc. valid_api_key store (headers req) sc \<and> identity = \<lparr>auth_method_of = ApiKey, scopes = sc\<rparr>))"
proof -
  have "check_auth store (headers req) False = AuthAllowed identity"
  proof (cases ext)
    case None
    then show ?thesis
      using assms by (auto simp: auth_session_def split: auth_result.splits)
  next
    case (Some i)
    then have "i = identity" using assms(5) by (simp add: auth_session_def)
    then show ?thesis
      using assms Some not_onboarding [OF assms(3)]
      by (auto simp: auth_gate_def Let_def setup_required_response_def unauthorized_response_def
          split: if_splits auth_result.splits)
  qed
  then show ?thesis by (auto simp: check_auth_allowed split: if_splits)
qed

section \<open>Properties\<close>

text \<open>C9: administration needs administrator credentials. A request that is not a direct local
  connection reaches the admin handler of an API route, through the throttle, the vault guard and the
  auth gate and on public and protected paths alike, only when authentication is set up and switched
  on and it carries a valid session, or an API key that is unrestricted or has the admin scope.\<close>

theorem remote_admin_needs_credentials:
  assumes "credential_store_of gw = Some store" "\<not> request_is_local gw req" "starts_with (path req) ''/api/''"
    and "snd (finalize_gateway_app ip_of socket_ip_of gw t req now) = Handler ext"
    and "require_admin gw req ext = Inr identity"
  shows "\<not> auth_disabled store \<and> setup_complete store \<and>
    (valid_session store (headers req) \<or>
     (\<exists>sc. valid_api_key store (headers req) sc \<and> (sc = [] \<or> ''operator.admin'' \<in> set sc)))"
proof -
  have sess: "auth_session gw req ext = Inr identity" and sc: "has_scope identity ''operator.admin''"
    using assms(5) by (auto simp: require_admin_def split: sum.splits if_splits)
  have "auth_gate gw req = Handler ext" using stack_handler [OF assms(4)] by simp
  from remote_api_identity [OF assms(1-3) this sess] sc show ?thesis
    by (auto simp: auth_active_def has_scope_def)
qed

definition example_store :: credential_store where
  "example_store = \<lparr>auth_disabled = False, setup_complete = True, validate_session = (\<lambda>_. None),
     verify_api_key = (\<lambda>k. if k = ''k1'' then Some [''operator.admin''] else None)\<rparr>"

definition example_gateway :: gateway_state where
  "example_gateway = \<lparr>credential_store_of = Some example_store, behind_proxy = False,
     trust_docker_loopback = False, wizard_onboarded = Some True, vault = Some (Some Unsealed)\<rparr>"

definition example_request :: "string \<Rightarrow> http_request" where
  "example_request p = \<lparr>meth = GET, path = p, headers = [(''authorization'', ''Bearer k1'')], remote = V4 16909060\<rparr>"

lemmas example_defs = example_store_def example_gateway_def example_request_def

lemma example_allowed: "check_auth example_store [(''authorization'', ''Bearer k1'')] b =
    AuthAllowed \<lparr>auth_method_of = ApiKey, scopes = [''operator.admin'']\<rparr>"
  by (simp add: check_auth_def example_store_def session_token_def cookie_header_def bearer_token_def
      header_str_def visible_ascii_def strip_prefix_def)

theorem remote_admin_needs_credentials_witness:
  "let req = example_request ''/api/config'' in
   snd (finalize_gateway_app (\<lambda>_. None) (\<lambda>_. None) example_gateway new_throttle req 0) =
     Handler (Some \<lparr>auth_method_of = ApiKey, scopes = [''operator.admin'']\<rparr>) \<and>
   \<not> auth_disabled example_store \<and> setup_complete example_store \<and>
    (valid_session example_store (headers req) \<or>
     (\<exists>sc. valid_api_key example_store (headers req) sc \<and> (sc = [] \<or> ''operator.admin'' \<in> set sc)))"
proof -
  let ?req = "example_request ''/api/config''" and ?id = "\<lparr>auth_method_of = ApiKey, scopes = [''operator.admin'']\<rparr>"
  have run: "snd (finalize_gateway_app (\<lambda>_. None) (\<lambda>_. None) example_gateway new_throttle ?req 0) = Handler (Some ?id)"
    using example_allowed
    by (simp add: finalize_gateway_app_def throttle_gate_def vault_guard_def auth_gate_def is_public_path_def
        should_bypass_throttling_def scope_from_request_def is_slack_callback_path_def starts_with_def
        strip_prefix_def example_gateway_def example_request_def permits_authenticated_bypass_def Let_def)
  have "\<not> request_is_local example_gateway ?req" "starts_with (path ?req) ''/api/''"
    "credential_store_of example_gateway = Some example_store" "require_admin example_gateway ?req (Some ?id) = Inr ?id"
    by (simp_all add: request_is_local_def is_local_connection_def is_loopback_def example_gateway_def
        example_request_def starts_with_def require_admin_def auth_session_def has_scope_def)
  with run remote_admin_needs_credentials [OF _ _ _ run] show ?thesis
    by (simp only: Let_def) blast
qed

text \<open>The auth gate passes exactly the authorised requests. On a protected path the handler runs if
  and only if the request is local while authentication is not active, or presents a valid session or
  API key while it is, or asks for the onboarding page while it is not, or is local, on one of the
  wizard's paths, and the wizard is not finished.\<close>

theorem auth_gate_exact:
  assumes "credential_store_of gw = Some store" "\<not> is_public_path (path req)"
  shows "(\<exists>ext. auth_gate gw req = Handler ext) \<longleftrightarrow>
    (if auth_active store
     then valid_session store (headers req) \<or> (\<exists>sc. valid_api_key store (headers req) sc) \<or>
       (request_is_local gw req \<and> is_onboarding_bypass_path (path req) \<and> wizard_onboarded gw = Some False)
     else request_is_local gw req \<or> path req = ''/onboarding'' \<or> path req = ''/onboarding/'')"
proof (cases "check_auth store (headers req) (request_is_local gw req)")
  case (AuthAllowed identity)
  then have "auth_gate gw req = Handler (Some identity)"
    using assms by (simp add: auth_gate_def Let_def)
  moreover have "if auth_active store then valid_session store (headers req) \<or> (\<exists>sc. valid_api_key store (headers req) sc)
     else request_is_local gw req"
    using AuthAllowed by (auto simp: check_auth_allowed split: if_splits)
  ultimately show ?thesis by (auto split: if_splits)
next
  case SetupRequired
  have "\<not> starts_with p ''/api/''" "\<not> starts_with p ''/ws/''"
    if "p = ''/onboarding'' \<or> p = ''/onboarding/''" for p
    using that by (auto simp: starts_with_def)
  moreover have "auth_gate gw req = setup_required_response (request_is_local gw req) (path req)"
    using assms SetupRequired by (simp add: auth_gate_def Let_def)
  moreover have "\<not> auth_active store" "\<not> request_is_local gw req"
    using SetupRequired by (simp_all add: check_auth_setup)
  ultimately show ?thesis by (auto simp: setup_required_response_def)
next
  case Unauthorized
  then have "auth_active store" "\<not> valid_session store (headers req)" "\<nexists>sc. valid_api_key store (headers req) sc"
    using check_auth_setup [of store "headers req" "request_is_local gw req"]
      check_auth_allowed [of store "headers req" "request_is_local gw req"]
    by (auto simp: check_auth_def auth_active_def valid_session_def valid_api_key_def split: option.splits if_splits)
  then show ?thesis
    using assms Unauthorized
    by (auto simp: auth_gate_def Let_def unauthorized_response_def split: option.splits)
qed

theorem auth_gate_exact_witness:
  "(\<exists>ext. auth_gate example_gateway (example_request ''/settings'') = Handler ext) \<longleftrightarrow>
    (if auth_active example_store
     then valid_session example_store (headers (example_request ''/settings'')) \<or>
       (\<exists>sc. valid_api_key example_store (headers (example_request ''/settings'')) sc) \<or>
       (request_is_local example_gateway (example_request ''/settings'') \<and>
        is_onboarding_bypass_path (path (example_request ''/settings'')) \<and> wizard_onboarded example_gateway = Some False)
     else request_is_local example_gateway (example_request ''/settings'') \<or>
       path (example_request ''/settings'') = ''/onboarding'' \<or> path (example_request ''/settings'') = ''/onboarding/'')"
  by (rule auth_gate_exact)
    (simp_all add: example_gateway_def example_request_def is_public_path_def starts_with_def
      is_slack_callback_path_def strip_prefix_def)

text \<open>A sealed vault protects the encrypted surfaces. While the vault is sealed no request, with or
  without credentials, reaches a handler of an API path outside the exempt ones; every such request
  that is not throttled is answered with 423.\<close>

theorem sealed_vault_blocks_api:
  assumes "vault gw = Some (Some Sealed)" "starts_with (path req) ''/api/''"
    and "\<not> is_vault_guard_exempt_path (path req)"
  shows "snd (finalize_gateway_app ip_of socket_ip_of gw t req now) = StatusCode 423 ''vault is sealed'' \<or>
    (\<exists>secs\<ge>1. snd (finalize_gateway_app ip_of socket_ip_of gw t req now) = TooManyRequests secs)"
proof -
  have "vault_guard gw req (auth_gate gw req) = StatusCode 423 ''vault is sealed''"
    using assms by (simp add: vault_guard_def)
  then show ?thesis
    using throttle_gate_cases [of ip_of socket_ip_of gw t req now "vault_guard gw req (auth_gate gw req)"]
    by (auto simp: finalize_gateway_app_def rate_limited_response_def)
qed

theorem sealed_vault_blocks_api_witness:
  "let gw = example_gateway\<lparr>vault := Some (Some Sealed)\<rparr>; req = example_request ''/api/config'' in
   snd (finalize_gateway_app (\<lambda>_. None) (\<lambda>_. None) gw new_throttle req 0) = StatusCode 423 ''vault is sealed'' \<or>
    (\<exists>secs\<ge>1. snd (finalize_gateway_app (\<lambda>_. None) (\<lambda>_. None) gw new_throttle req 0) = TooManyRequests secs)"
  unfolding Let_def
  by (rule sealed_vault_blocks_api)
    (simp_all add: example_request_def is_vault_guard_exempt_path_def starts_with_def)

text \<open>The guard runs before the auth gate: a request without credentials is told that the vault is
  sealed, where the auth gate would have answered 401.\<close>

lemma vault_checked_before_auth:
  assumes "vault gw = Some (Some Sealed)" "starts_with (path req) ''/api/''"
    "\<not> is_vault_guard_exempt_path (path req)" "auth_gate gw req = StatusCode 401 code"
  shows "vault_guard gw req (auth_gate gw req) = StatusCode 423 ''vault is sealed''"
  using assms by (simp add: vault_guard_def)

section \<open>Throttled requests\<close>

type_synonym http_event = "gateway_state \<times> http_request \<times> instant"

text \<open>The times at which a handler ran, or an answer other than 429 was sent, for a request of one
  client and scope that is not let through as authenticated.\<close>

definition anonymous :: "(string \<Rightarrow> ip_addr option) \<Rightarrow> (string \<Rightarrow> ip_addr option) \<Rightarrow> ip_addr \<Rightarrow> throttle_scope \<Rightarrow>
    http_event \<Rightarrow> bool" where
  "anonymous ip_of socket_ip_of ip scope e =
     (case e of (gw, req, now) \<Rightarrow>
        scope_from_request (meth req) (path req) = Some scope \<and>
        resolve_client_ip ip_of socket_ip_of (headers req) (remote req) (behind_proxy gw) = ip \<and>
        \<not> (permits_authenticated_bypass scope \<and> should_bypass_throttling gw req))"

fun served_times :: "(string \<Rightarrow> ip_addr option) \<Rightarrow> (string \<Rightarrow> ip_addr option) \<Rightarrow> ip_addr \<Rightarrow> throttle_scope \<Rightarrow>
    request_throttle \<Rightarrow> http_event list \<Rightarrow> instant list" where
  "served_times ip_of socket_ip_of ip scope t [] = []"
| "served_times ip_of socket_ip_of ip scope t ((gw, req, now) # es) =
     (let (t', r) = finalize_gateway_app ip_of socket_ip_of gw t req now in
      (if anonymous ip_of socket_ip_of ip scope (gw, req, now) \<and> (\<nexists>secs. r = TooManyRequests secs) then [now] else []) @
      served_times ip_of socket_ip_of ip scope t' es)"

fun throttle_events :: "(string \<Rightarrow> ip_addr option) \<Rightarrow> (string \<Rightarrow> ip_addr option) \<Rightarrow> http_event list \<Rightarrow> throttle_event list" where
  "throttle_events ip_of socket_ip_of [] = []"
| "throttle_events ip_of socket_ip_of ((gw, req, now) # es) =
     (case scope_from_request (meth req) (path req) of
        None \<Rightarrow> throttle_events ip_of socket_ip_of es
      | Some scope \<Rightarrow>
          if permits_authenticated_bypass scope \<and> should_bypass_throttling gw req
          then throttle_events ip_of socket_ip_of es
          else (resolve_client_ip ip_of socket_ip_of (headers req) (remote req) (behind_proxy gw), scope, now) #
            throttle_events ip_of socket_ip_of es)"

lemma throttle_gate_not_429:
  "\<nexists>secs. r = TooManyRequests secs \<Longrightarrow> vault_guard gw req r \<noteq> TooManyRequests secs"
  by (auto simp: vault_guard_def split: option.splits)

lemma auth_gate_not_429: "auth_gate gw req \<noteq> TooManyRequests secs"
  by (auto simp: auth_gate_def Let_def setup_required_response_def unauthorized_response_def
      split: option.splits auth_result.splits)

lemma inner_not_429: "vault_guard gw req (auth_gate gw req) \<noteq> TooManyRequests secs"
  using throttle_gate_not_429 auth_gate_not_429 by blast

lemma served_times_allowed:
  "served_times ip_of socket_ip_of ip scope t es = allowed_times ip scope t (throttle_events ip_of socket_ip_of es)"
proof (induction es arbitrary: t)
  case Nil
  then show ?case by simp
next
  case (Cons e es)
  obtain gw req now where e: "e = (gw, req, now)" by (cases e)
  show ?case
  proof (cases "scope_from_request (meth req) (path req)")
    case None
    then show ?thesis
      using Cons.IH by (simp add: e finalize_gateway_app_def throttle_gate_def anonymous_def)
  next
    case (Some sc)
    show ?thesis
    proof (cases "permits_authenticated_bypass sc \<and> should_bypass_throttling gw req")
      case True
      then show ?thesis
        using Some Cons.IH by (auto simp: e finalize_gateway_app_def throttle_gate_def anonymous_def)
    next
      case False
      let ?ip = "resolve_client_ip ip_of socket_ip_of (headers req) (remote req) (behind_proxy gw)"
      obtain t' d where c: "throttle_check_at t ?ip sc now = (t', d)" by fastforce
      show ?thesis
      proof (cases d)
        case Allowed
        then show ?thesis
          using Some False c Cons.IH inner_not_429
          by (auto simp: e finalize_gateway_app_def throttle_gate_def anonymous_def Let_def)
      next
        case (Denied w)
        then show ?thesis
          using Some False c Cons.IH
          by (auto simp: e finalize_gateway_app_def throttle_gate_def rate_limited_response_def Let_def)
      qed
    qed
  qed
qed

lemma throttle_events_sorted:
  "sorted (map (\<lambda>(_, _, now). now) es) \<Longrightarrow>
   sorted (map (\<lambda>(_, _, now). now) (throttle_events ip_of socket_ip_of es))"
proof (induction es)
  case Nil
  then show ?case by simp
next
  case (Cons e es)
  have sub: "x \<in> set (throttle_events ip_of socket_ip_of xs) \<Longrightarrow> \<exists>y\<in>set xs. snd (snd y) = snd (snd x)" for x xs
    by (induction xs) (auto split: option.splits if_splits)
  have "\<forall>x\<in>set (throttle_events ip_of socket_ip_of es). snd (snd e) \<le> snd (snd x)"
    using Cons.prems sub [of _ es] by (fastforce simp: case_prod_unfold)
  with Cons show ?case
    by (cases e) (auto simp: case_prod_unfold split: option.split)
qed

text \<open>Password guessing over HTTP is bounded. Whatever the other clients, the stored credentials and
  the vault do, at most ten unauthenticated login posts of one client address are answered otherwise
  than with 429 in any sixty seconds.\<close>

theorem login_attempts_bounded:
  assumes "sorted (map (\<lambda>(_, _, now). now) es)"
  shows "within t (60 * 1000) (served_times ip_of socket_ip_of ip Login new_throttle es) \<le> 10"
proof -
  have "limit_for (with_limits default_limits) Login = \<lparr>max_requests = 5, rwindow = 60 * 1000\<rparr>"
    by (simp add: limit_for_def with_limits_def default_limits_def)
  with allowed_times_bounded [OF throttle_events_sorted [OF assms], of t default_limits Login]
  show ?thesis
    unfolding served_times_allowed new_throttle_def by simp
qed

theorem login_attempts_bounded_witness:
  "within 5 (60 * 1000) (served_times (\<lambda>_. None) (\<lambda>_. None) (V4 9) Login new_throttle
     (map (\<lambda>i. (example_gateway, \<lparr>meth = POST, path = ''/api/auth/login'', headers = [], remote = V4 9\<rparr>, int i)) [0..<40])) \<le> 10"
  by (rule login_attempts_bounded) (simp add: comp_def sorted_iff_nth_mono)

end
