(* ===== verification/Login_Guard.thy ===== *)
theory Login_Guard
  imports Moltis_Prelude
begin

text \<open>
  The brute-force guard of the login endpoints, \<open>crates/httpd/src/login_guard.rs\<close>: bans of
  addresses with growing duration, lockout of an account that several addresses attack, and the
  periodic cleanup of both tables. The two \<open>DashMap\<close>s are partial maps; the guard's operations
  lock one entry at a time and are taken as atomic. The \<open>u32\<close> and \<open>u64\<close> counters wrap.
\<close>

section \<open>Data\<close>

definition IP_BAN_THRESHOLD :: nat where "IP_BAN_THRESHOLD = 10"
definition IP_BAN_BASE :: duration where "IP_BAN_BASE = 5 * 60 * 1000"
definition IP_BAN_CAP :: duration where "IP_BAN_CAP = 24 * 60 * 60 * 1000"
definition ACCOUNT_LOCKOUT_IP_THRESHOLD :: nat where "ACCOUNT_LOCKOUT_IP_THRESHOLD = 3"
definition ACCOUNT_LOCKOUT_WINDOW :: duration where "ACCOUNT_LOCKOUT_WINDOW = 15 * 60 * 1000"
definition ACCOUNT_LOCKOUT_DURATION :: duration where "ACCOUNT_LOCKOUT_DURATION = 15 * 60 * 1000"
definition CLEANUP_EVERY :: nat where "CLEANUP_EVERY = 128"

lemmas guard_constants =
  IP_BAN_THRESHOLD_def IP_BAN_BASE_def IP_BAN_CAP_def ACCOUNT_LOCKOUT_IP_THRESHOLD_def
  ACCOUNT_LOCKOUT_WINDOW_def ACCOUNT_LOCKOUT_DURATION_def CLEANUP_EVERY_def

record ip_record =
  consecutive_failures :: nat
  ban_count :: nat
  banned_until :: "instant option"
  last_failure_at :: instant

record account_record =
  recent_ips :: "(ip_addr \<times> instant) list"
  locked_until :: "instant option"

datatype block_reason = IpBanned duration | AccountLocked duration

record login_guard =
  ips :: "ip_addr \<rightharpoonup> ip_record"
  accounts :: "string \<rightharpoonup> account_record"
  calls :: nat

definition new_guard :: login_guard where
  "new_guard = \<lparr>ips = Map.empty, accounts = Map.empty, calls = 0\<rparr>"

section \<open>Operations\<close>

definition active :: "instant option \<Rightarrow> instant \<Rightarrow> duration option" where
  "active until now =
     (case until of Some u \<Rightarrow> if now < u then Some (duration_since u now) else None | None \<Rightarrow> None)"

definition check_at :: "login_guard \<Rightarrow> ip_addr \<Rightarrow> string \<Rightarrow> instant \<Rightarrow> block_reason option" where
  "check_at g ip account now =
     (case Option.bind (ips g ip) (\<lambda>rec. active (banned_until rec) now) of
        Some d \<Rightarrow> Some (IpBanned d)
      | None \<Rightarrow>
          (case Option.bind (accounts g account) (\<lambda>rec. active (locked_until rec) now) of
             Some d \<Rightarrow> Some (AccountLocked d)
           | None \<Rightarrow> None))"

definition ban_duration :: "nat \<Rightarrow> duration" where
  "ban_duration count = min (IP_BAN_BASE * 2 ^ min (count - 1) 10) IP_BAN_CAP"

definition fail_ip :: "instant \<Rightarrow> ip_record option \<Rightarrow> ip_record" where
  "fail_ip now entry =
     (let rec = (case entry of Some r \<Rightarrow> r
                 | None \<Rightarrow> \<lparr>consecutive_failures = 0, ban_count = 0, banned_until = None,
                           last_failure_at = now\<rparr>);
          rec = rec\<lparr>consecutive_failures := (consecutive_failures rec + 1) mod 2 ^ 32,
                    last_failure_at := now\<rparr>
      in if IP_BAN_THRESHOLD \<le> consecutive_failures rec
         then let count = (ban_count rec + 1) mod 2 ^ 32
              in rec\<lparr>ban_count := count,
                     banned_until := Some (instant_add now (ban_duration count)),
                     consecutive_failures := 0\<rparr>
         else rec)"

definition in_lockout_window :: "instant \<Rightarrow> (ip_addr \<times> instant) list \<Rightarrow> (ip_addr \<times> instant) list" where
  "in_lockout_window now xs = filter (\<lambda>(_, t). duration_since now t < ACCOUNT_LOCKOUT_WINDOW) xs"

definition fail_account :: "ip_addr \<Rightarrow> instant \<Rightarrow> account_record option \<Rightarrow> account_record" where
  "fail_account ip now entry =
     (let rec = (case entry of Some r \<Rightarrow> r | None \<Rightarrow> \<lparr>recent_ips = [], locked_until = None\<rparr>);
          recent = in_lockout_window now (recent_ips rec);
          recent = (if ip \<in> fst ` set recent then recent else recent @ [(ip, now)])
      in if ACCOUNT_LOCKOUT_IP_THRESHOLD \<le> length (remdups (map fst recent))
         then \<lparr>recent_ips = [], locked_until = Some (instant_add now ACCOUNT_LOCKOUT_DURATION)\<rparr>
         else rec\<lparr>recent_ips := recent\<rparr>)"

definition keep_ip :: "instant \<Rightarrow> ip_record \<Rightarrow> bool" where
  "keep_ip now rec \<longleftrightarrow>
     active (banned_until rec) now \<noteq> None \<or>
     0 < consecutive_failures rec \<and> duration_since now (last_failure_at rec) < ACCOUNT_LOCKOUT_WINDOW"

definition sweep_account :: "instant \<Rightarrow> account_record \<Rightarrow> account_record option" where
  "sweep_account now rec =
     (let recent = in_lockout_window now (recent_ips rec)
      in if recent \<noteq> [] \<or> active (locked_until rec) now \<noteq> None
         then Some (rec\<lparr>recent_ips := recent\<rparr>) else None)"

definition cleanup_guard :: "login_guard \<Rightarrow> instant \<Rightarrow> login_guard" where
  "cleanup_guard g now =
     g\<lparr>ips := map_retain (keep_ip now) (ips g),
       accounts := (\<lambda>a. Option.bind (accounts g a) (sweep_account now))\<rparr>"

definition record_failure_at :: "login_guard \<Rightarrow> ip_addr \<Rightarrow> string \<Rightarrow> instant \<Rightarrow> login_guard" where
  "record_failure_at g ip account now =
     (let g = g\<lparr>ips := (ips g)(ip \<mapsto> fail_ip now (ips g ip))\<rparr>;
          g = g\<lparr>accounts := (accounts g)(account \<mapsto> fail_account ip now (accounts g account))\<rparr>;
          n = (calls g + 1) mod 2 ^ 64;
          g = g\<lparr>calls := n\<rparr>
      in if n mod CLEANUP_EVERY = 0 then cleanup_guard g now else g)"

definition record_success :: "login_guard \<Rightarrow> ip_addr \<Rightarrow> login_guard" where
  "record_success g ip =
     (case ips g ip of
        Some rec \<Rightarrow> g\<lparr>ips := (ips g)(ip \<mapsto> rec\<lparr>consecutive_failures := 0, banned_until := None\<rparr>)\<rparr>
      | None \<Rightarrow> g)"

section \<open>Runs\<close>

datatype guard_event = Failure ip_addr string instant | Success ip_addr

fun guard_step :: "login_guard \<Rightarrow> guard_event \<Rightarrow> login_guard" where
  "guard_step g (Failure ip account now) = record_failure_at g ip account now"
| "guard_step g (Success ip) = record_success g ip"

abbreviation guard_run :: "login_guard \<Rightarrow> guard_event list \<Rightarrow> login_guard" where
  "guard_run \<equiv> foldl guard_step"

section \<open>Lemmas\<close>

lemma active_Some: "active until now = Some d \<longleftrightarrow> (\<exists>u. until = Some u \<and> now < u \<and> d = duration_since u now)"
  by (auto simp: active_def split: option.splits)

lemma active_not_None: "active until now \<noteq> None \<longleftrightarrow> (\<exists>u. until = Some u \<and> now < u)"
  by (auto simp: active_def split: option.splits)

lemma ban_duration_mono: "m \<le> n \<Longrightarrow> ban_duration m \<le> ban_duration n"
  unfolding ban_duration_def
  by (intro min.mono mult_le_mono power_increasing) auto

lemma ban_duration_bounds: "IP_BAN_BASE \<le> ban_duration n \<and> ban_duration n \<le> IP_BAN_CAP"
  using ban_duration_mono [of 0 n] by (simp add: ban_duration_def guard_constants)

lemma ips_failure:
  "ips (record_failure_at g ip a now) j =
     (let e = if j = ip then Some (fail_ip now (ips g ip)) else ips g j
      in if (calls g + 1) mod 2 ^ 64 mod CLEANUP_EVERY = 0
         then Option.bind e (\<lambda>r. if keep_ip now r then Some r else None) else e)"
  by (auto simp: record_failure_at_def cleanup_guard_def map_retain_def Let_def split: option.splits)

lemma accounts_failure:
  "accounts (record_failure_at g ip a now) b =
     (let e = if b = a then Some (fail_account ip now (accounts g a)) else accounts g b
      in if (calls g + 1) mod 2 ^ 64 mod CLEANUP_EVERY = 0 then Option.bind e (sweep_account now) else e)"
  by (auto simp: record_failure_at_def cleanup_guard_def Let_def)

lemma accounts_success [simp]: "accounts (record_success g ip) = accounts g"
  by (simp add: record_success_def split: option.splits)

lemma ips_success_other: "j \<noteq> ip \<Longrightarrow> ips (record_success g ip) j = ips g j"
  by (simp add: record_success_def split: option.splits)

text \<open>Cleanup drops only what no check looks at any more.\<close>

lemma cleanup_transparent:
  assumes "now \<le> t"
  shows "check_at (cleanup_guard g now) ip account t = check_at g ip account t"
proof -
  have "Option.bind (ips (cleanup_guard g now) ip) (\<lambda>rec. active (banned_until rec) t) =
      Option.bind (ips g ip) (\<lambda>rec. active (banned_until rec) t)"
    using assms
    by (auto simp: cleanup_guard_def map_retain_def keep_ip_def active_def split: option.splits)
  moreover have "Option.bind (accounts (cleanup_guard g now) account) (\<lambda>rec. active (locked_until rec) t) =
      Option.bind (accounts g account) (\<lambda>rec. active (locked_until rec) t)"
    using assms
    by (cases "accounts g account")
      (auto simp: cleanup_guard_def sweep_account_def active_def Let_def split: option.splits)
  ultimately show ?thesis by (simp only: check_at_def)
qed

text \<open>The escalation of an address is lost when a cleanup meets its expired ban.\<close>

lemma cleanup_forgets_ban_count:
  "ips (cleanup_guard g now) ip = None"
  if "ips g ip = Some rec" "banned_until rec = Some u" "u \<le> now" "consecutive_failures rec = 0"
  using that by (simp add: cleanup_guard_def map_retain_def keep_ip_def active_def)

subsection \<open>Reaching a ban\<close>

fun failures_of :: "ip_addr \<Rightarrow> guard_event list \<Rightarrow> nat" where
  "failures_of ip [] = 0"
| "failures_of ip (Failure j a t # es) = (if j = ip then 1 else 0) + failures_of ip es"
| "failures_of ip (Success j # es) = failures_of ip es"

lemma failures_of_append [simp]: "failures_of ip (xs @ ys) = failures_of ip xs + failures_of ip ys"
  by (induction xs rule: failures_of.induct) auto

fun at_times :: "(instant \<Rightarrow> bool) \<Rightarrow> guard_event \<Rightarrow> bool" where
  "at_times P (Failure ip a t) = P t"
| "at_times P (Success ip) = True"

abbreviation lockout_span :: "instant \<Rightarrow> instant \<Rightarrow> bool" where
  "lockout_span t0 t \<equiv> t0 \<le> t \<and> t < instant_add t0 ACCOUNT_LOCKOUT_WINDOW"

lemma lockout_span_recent:
  "lockout_span t0 t \<Longrightarrow> lockout_span t0 now \<Longrightarrow> duration_since now t < ACCOUNT_LOCKOUT_WINDOW"
  by (auto simp: duration_since_def instant_add_def guard_constants nat_less_iff)

definition counting :: "instant \<Rightarrow> nat \<Rightarrow> ip_record option \<Rightarrow> bool" where
  "counting t0 n e \<longleftrightarrow>
     (if n = 0 then e = None
      else \<exists>r. e = Some r \<and> consecutive_failures r = n \<and> ban_count r = 0 \<and> banned_until r = None \<and>
             lockout_span t0 (last_failure_at r))"

lemma counting_step:
  assumes "counting t0 (failures_of ip es) (ips g ip)" "failures_of ip (es @ [e]) < IP_BAN_THRESHOLD"
    and "at_times (lockout_span t0) e" "e \<noteq> Success ip"
  shows "counting t0 (failures_of ip (es @ [e])) (ips (guard_step g e) ip)"
proof (cases e)
  case (Success j)
  with assms show ?thesis by (simp add: ips_success_other)
next
  case (Failure j a now)
  then have now: "lockout_span t0 now" using assms(3) by simp
  have keep: "keep_ip now r" if "0 < consecutive_failures r" "lockout_span t0 (last_failure_at r)" for r
    using that now lockout_span_recent by (simp add: keep_ip_def)
  show ?thesis
  proof (cases "j = ip")
    case True
    have "counting t0 (Suc (failures_of ip es)) (Some (fail_ip now (ips g ip)))"
      using assms(1,2) now Failure True
      by (auto simp: counting_def fail_ip_def Let_def IP_BAN_THRESHOLD_def split: if_splits)
    then show ?thesis
      using Failure True keep by (auto simp: ips_failure Let_def counting_def)
  next
    case False
    then show ?thesis
      using Failure assms(1) keep by (auto simp: ips_failure Let_def counting_def split: if_splits)
  qed
qed

lemma counting_run:
  assumes "ips g ip = None" "failures_of ip es < IP_BAN_THRESHOLD" "Success ip \<notin> set es"
    and "list_all (at_times (lockout_span t0)) es"
  shows "counting t0 (failures_of ip es) (ips (guard_run g es) ip)"
  using assms(2-)
proof (induction es rule: rev_induct)
  case Nil
  then show ?case using assms(1) by (simp add: counting_def)
next
  case (snoc e es)
  then show ?case
    using counting_step [of t0 ip es "guard_run g es" e] by fastforce
qed

lemma tenth_failure_bans:
  assumes "counting t0 9 (ips g ip)"
  shows "\<exists>r. ips (record_failure_at g ip a now) ip = Some r \<and>
     banned_until r = Some (instant_add now IP_BAN_BASE)"
proof -
  have f: "fail_ip now (ips g ip) = (the (ips g ip))\<lparr>consecutive_failures := 0, ban_count := 1,
      banned_until := Some (instant_add now IP_BAN_BASE), last_failure_at := now\<rparr>"
    using assms by (auto simp: counting_def fail_ip_def Let_def guard_constants ban_duration_def)
  then show ?thesis
    by (auto simp: ips_failure Let_def keep_ip_def active_def instant_add_def guard_constants)
qed

subsection \<open>Reaching a lockout\<close>

definition attackers :: "string \<Rightarrow> guard_event list \<Rightarrow> ip_addr set" where
  "attackers a es = {ip. \<exists>t. Failure ip a t \<in> set es}"

lemma attackers_snoc:
  "attackers a (es @ [e]) =
     (case e of Failure ip b t \<Rightarrow> if b = a then insert ip (attackers a es) else attackers a es
      | Success ip \<Rightarrow> attackers a es)"
  by (auto simp: attackers_def split: guard_event.split)

lemma finite_attackers: "finite (attackers a es)"
proof -
  have "attackers a es \<subseteq> (\<lambda>e. case e of Failure ip b t \<Rightarrow> ip | Success ip \<Rightarrow> ip) ` set es"
    unfolding attackers_def by force
  then show ?thesis by (rule finite_subset) simp
qed

definition collecting :: "instant \<Rightarrow> ip_addr set \<Rightarrow> account_record option \<Rightarrow> bool" where
  "collecting t0 I e \<longleftrightarrow>
     (if I = {} then e = None
      else \<exists>r. e = Some r \<and> fst ` set (recent_ips r) = I \<and> locked_until r = None \<and>
             list_all (\<lambda>(_, t). lockout_span t0 t) (recent_ips r))"

lemma in_lockout_window_span:
  "list_all (\<lambda>(_, t). lockout_span t0 t) xs \<Longrightarrow> lockout_span t0 now \<Longrightarrow> in_lockout_window now xs = xs"
  unfolding in_lockout_window_def
  by (rule filter_True) (auto simp: list_all_iff intro: lockout_span_recent)

lemma sweep_collecting:
  assumes "collecting t0 I e" "lockout_span t0 now"
  shows "collecting t0 I (Option.bind e (sweep_account now))"
  using assms
  by (auto simp: collecting_def sweep_account_def in_lockout_window_span Let_def split: if_splits)

lemma fail_account_cases:
  assumes "collecting t0 I (accounts g a)" "lockout_span t0 now"
  shows "(if card (insert ip I) < ACCOUNT_LOCKOUT_IP_THRESHOLD
     then collecting t0 (insert ip I) (Some (fail_account ip now (accounts g a)))
     else locked_until (fail_account ip now (accounts g a)) =
       Some (instant_add now ACCOUNT_LOCKOUT_DURATION))"
proof -
  let ?r = "case accounts g a of Some r \<Rightarrow> r | None \<Rightarrow> \<lparr>recent_ips = [], locked_until = None\<rparr>"
  have r: "fst ` set (recent_ips ?r) = I" "locked_until ?r = None"
    and sp: "list_all (\<lambda>(_, t). lockout_span t0 t) (recent_ips ?r)"
    using assms(1) by (auto simp: collecting_def split: if_splits)
  let ?recent = "if ip \<in> I then recent_ips ?r else recent_ips ?r @ [(ip, now)]"
  have fa: "fail_account ip now (accounts g a) =
     (if ACCOUNT_LOCKOUT_IP_THRESHOLD \<le> length (remdups (map fst ?recent))
      then \<lparr>recent_ips = [], locked_until = Some (instant_add now ACCOUNT_LOCKOUT_DURATION)\<rparr>
      else ?r\<lparr>recent_ips := ?recent\<rparr>)"
    unfolding fail_account_def Let_def in_lockout_window_span [OF sp assms(2)] r(1) ..
  have st: "fst ` set ?recent = insert ip I"
    using r(1) by auto
  then have "length (remdups (map fst ?recent)) = card (insert ip I)"
    by (metis length_remdups_card_conv set_map)
  with st fa r(2) sp assms(2) show ?thesis
    by (auto simp: collecting_def)
qed

lemma collecting_run:
  assumes "accounts g a = None" "card (attackers a es) < ACCOUNT_LOCKOUT_IP_THRESHOLD"
    and "list_all (at_times (lockout_span t0)) es"
  shows "collecting t0 (attackers a es) (accounts (guard_run g es) a)"
  using assms(2-)
proof (induction es rule: rev_induct)
  case Nil
  then show ?case using assms(1) by (simp add: collecting_def attackers_def)
next
  case (snoc e es)
  have "attackers a es \<subseteq> attackers a (es @ [e])"
    by (auto simp: attackers_def)
  then have "card (attackers a es) \<le> card (attackers a (es @ [e]))"
    by (intro card_mono finite_attackers)
  with snoc have IH: "collecting t0 (attackers a es) (accounts (guard_run g es) a)"
    by simp
  show ?case
  proof (cases e)
    case (Success j)
    with IH show ?thesis by (simp add: attackers_snoc)
  next
    case (Failure ip b now)
    then have now: "lockout_span t0 now" using snoc.prems by simp
    have c: "collecting t0 (attackers a (es @ [e]))
       (if a = b then Some (fail_account ip now (accounts (guard_run g es) a)) else accounts (guard_run g es) a)"
      using fail_account_cases [OF IH now, of ip] Failure IH snoc.prems(1)
      by (auto simp: attackers_snoc split: if_splits)
    from c sweep_collecting [OF c now] Failure show ?thesis
      by (auto simp: accounts_failure Let_def split: if_splits)
  qed
qed

subsection \<open>The invariant of the guard\<close>

text \<open>The machine of the guard with the time and the number of the events it has seen: a ban or a
  lockout never reaches further into the future than its own duration.\<close>

fun timed_step :: "login_guard \<times> instant \<times> nat \<Rightarrow> guard_event \<Rightarrow> login_guard \<times> instant \<times> nat" where
  "timed_step (g, c, n) (Failure ip a now) = (record_failure_at g ip a now, now, n + 1)"
| "timed_step (g, c, n) (Success ip) = (record_success g ip, c, n + 1)"

fun timed_ok :: "login_guard \<times> instant \<times> nat \<Rightarrow> guard_event \<Rightarrow> bool" where
  "timed_ok (g, c, n) e \<longleftrightarrow> at_times (\<lambda>t. c \<le> t) e \<and> n + 1 < 2 ^ 32"

definition ip_ok :: "instant \<Rightarrow> nat \<Rightarrow> ip_record \<Rightarrow> bool" where
  "ip_ok c n r \<longleftrightarrow> consecutive_failures r < IP_BAN_THRESHOLD \<and> ban_count r \<le> n \<and>
     (\<forall>u. banned_until r = Some u \<longrightarrow> u \<le> instant_add c (ban_duration (ban_count r)))"

definition account_ok :: "instant \<Rightarrow> account_record \<Rightarrow> bool" where
  "account_ok c r \<longleftrightarrow> distinct (map fst (recent_ips r)) \<and>
     length (recent_ips r) < ACCOUNT_LOCKOUT_IP_THRESHOLD \<and>
     (\<forall>u. locked_until r = Some u \<longrightarrow> u \<le> instant_add c ACCOUNT_LOCKOUT_DURATION)"

fun guard_inv :: "login_guard \<times> instant \<times> nat \<Rightarrow> bool" where
  "guard_inv (g, c, n) \<longleftrightarrow> (\<forall>ip r. ips g ip = Some r \<longrightarrow> ip_ok c n r) \<and>
     (\<forall>a r. accounts g a = Some r \<longrightarrow> account_ok c r)"

lemma ip_ok_mono: "ip_ok c n r \<Longrightarrow> c \<le> c' \<Longrightarrow> n \<le> n' \<Longrightarrow> ip_ok c' n' r"
  unfolding ip_ok_def by (meson instant_add_mono order_trans)

lemma account_ok_mono: "account_ok c r \<Longrightarrow> c \<le> c' \<Longrightarrow> account_ok c' r"
  unfolding account_ok_def by (meson instant_add_mono order_trans)

lemma fail_ip_ok:
  assumes "\<And>r. e = Some r \<Longrightarrow> ip_ok c n r" "c \<le> now" "n + 1 < 2 ^ 32"
  shows "ip_ok now (n + 1) (fail_ip now e)"
proof (cases e)
  case None
  then show ?thesis
    by (simp add: ip_ok_def fail_ip_def Let_def guard_constants)
next
  case (Some r)
  have le: "instant_add c d \<le> instant_add now d" for d
    using assms(2) by (rule instant_add_mono)
  have r: "consecutive_failures r < 10" "ban_count r \<le> n"
    "\<And>u. banned_until r = Some u \<Longrightarrow> u \<le> instant_add now (ban_duration (ban_count r))"
    using assms(1) [OF Some] le by (auto simp: ip_ok_def IP_BAN_THRESHOLD_def intro: order_trans)
  then show ?thesis
    using assms(3) Some by (auto simp: ip_ok_def fail_ip_def Let_def IP_BAN_THRESHOLD_def)
qed

lemma fail_account_ok:
  assumes "\<And>r. e = Some r \<Longrightarrow> account_ok c r" "c \<le> now"
  shows "account_ok now (fail_account ip now e)"
proof -
  let ?r = "case e of Some r \<Rightarrow> r | None \<Rightarrow> \<lparr>recent_ips = [], locked_until = None\<rparr>"
  let ?w = "in_lockout_window now (recent_ips ?r)"
  let ?recent = "if ip \<in> fst ` set ?w then ?w else ?w @ [(ip, now)]"
  have r: "account_ok now ?r"
    using assms account_ok_mono [of c _ now] by (cases e) (auto simp: account_ok_def [of now] guard_constants)
  then have d: "distinct (map fst ?recent)"
    by (auto simp: account_ok_def in_lockout_window_def distinct_map_filter)
  then have "length (remdups (map fst ?recent)) = length ?recent"
    by (metis distinct_remdups_id length_map)
  with r d show ?thesis
    unfolding fail_account_def Let_def
    by (auto simp: account_ok_def not_le simp del: length_append)
qed

lemma sweep_account_ok:
  "account_ok c r \<Longrightarrow> sweep_account now r = Some r' \<Longrightarrow> account_ok c r'"
  by (auto simp: sweep_account_def account_ok_def in_lockout_window_def distinct_map_filter Let_def
      split: if_splits intro: le_less_trans [OF length_filter_le])

lemma guard_inv_step:
  assumes "guard_inv s" "timed_ok s e"
  shows "guard_inv (timed_step s e)"
proof -
  obtain g c n where s: "s = (g, c, n)" by (cases s)
  show ?thesis
  proof (cases e)
    case (Success ip)
    have "ip_ok c (Suc n) (r\<lparr>consecutive_failures := 0, banned_until := None\<rparr>)" if "ip_ok c n r" for r
      using that by (simp add: ip_ok_def IP_BAN_THRESHOLD_def)
    then show ?thesis
      using assms s Success ip_ok_mono [OF _ order_refl, of c n _ "Suc n"]
      by (auto simp: record_success_def split: option.splits)
  next
    case (Failure ip a now)
    have now: "c \<le> now" and n: "n + 1 < 2 ^ 32"
      using assms(2) s Failure by auto
    have "ip_ok now (n + 1) (fail_ip now (ips g ip))"
      using assms(1) s n now by (intro fail_ip_ok) auto
    moreover have "account_ok now (fail_account ip now (accounts g a))"
      using assms(1) s now by (intro fail_account_ok) auto
    moreover have "ip_ok now (n + 1) r" if "ips g j = Some r" for j r
      using assms(1) s now that by (auto intro: ip_ok_mono [of c n])
    moreover have "account_ok now r" if "accounts g b = Some r" for b r
      using assms(1) s now that by (auto intro: account_ok_mono [of c])
    ultimately show ?thesis
      unfolding s Failure
      by (auto simp: ips_failure accounts_failure Let_def split: if_splits bind_splits
          intro: sweep_account_ok [rotated])
  qed
qed

interpretation lg: event_machine timed_step timed_ok guard_inv
  by unfold_locales (rule guard_inv_step)

subsection \<open>A ban and a lockout stay\<close>

definition banned_beyond :: "ip_record option \<Rightarrow> instant \<Rightarrow> bool" where
  "banned_beyond e u \<longleftrightarrow> (\<exists>r v. e = Some r \<and> banned_until r = Some v \<and> u \<le> v)"

definition locked_beyond :: "account_record option \<Rightarrow> instant \<Rightarrow> bool" where
  "locked_beyond e u \<longleftrightarrow> (\<exists>r v. e = Some r \<and> locked_until r = Some v \<and> u \<le> v)"

lemma fail_ip_banned:
  "banned_until (fail_ip now (Some r)) \<in>
     {Some (instant_add now (ban_duration ((ban_count r + 1) mod 2 ^ 32))), banned_until r}"
  by (simp add: fail_ip_def Let_def)

lemma banned_step:
  assumes "guard_inv (g, c, n)" "timed_ok (g, c, n) e" "banned_beyond (ips g ip) u"
    and "e \<noteq> Success ip" "at_times (\<lambda>t. t < u) e"
  shows "banned_beyond (ips (guard_step g e) ip) u"
proof (cases e)
  case (Success j)
  with assms show ?thesis by (simp add: ips_success_other)
next
  case (Failure j a now)
  obtain r v where r: "ips g ip = Some r" "banned_until r = Some v" and v: "u \<le> v"
    using assms(3) by (auto simp: banned_beyond_def)
  have ok: "v \<le> instant_add c (ban_duration (ban_count r))" "ban_count r \<le> n"
    using assms(1) r by (auto simp: ip_ok_def)
  have le: "v \<le> instant_add now (ban_duration (ban_count r + 1))"
    using ok(1) ban_duration_mono [of "ban_count r" "ban_count r + 1"] assms(2) Failure
    by (simp add: instant_add_def)
  have "ban_count r + 1 < 2 ^ 32" using ok(2) assms(2) by simp
  then obtain w where w: "banned_until (fail_ip now (Some r)) = Some w" "v \<le> w"
    using fail_ip_banned [of now r] le r(2) by auto
  have keep: "keep_ip now x" if "banned_until x = Some y" "u \<le> y" for x y
    using that assms(5) Failure by (auto simp: keep_ip_def active_def)
  show ?thesis
    using Failure r v w keep [OF r(2) v] keep [OF w(1) order_trans [OF v w(2)]]
    by (auto simp: banned_beyond_def ips_failure Let_def)
qed

lemma fail_account_locked:
  "locked_until (fail_account ip now (Some r)) \<in>
     {Some (instant_add now ACCOUNT_LOCKOUT_DURATION), locked_until r}"
  by (simp add: fail_account_def Let_def)

lemma locked_step:
  assumes "guard_inv (g, c, n)" "timed_ok (g, c, n) e" "locked_beyond (accounts g a) u"
    and "at_times (\<lambda>t. t < u) e"
  shows "locked_beyond (accounts (guard_step g e) a) u"
proof (cases e)
  case (Success j)
  with assms show ?thesis by simp
next
  case (Failure ip b now)
  obtain r v where r: "accounts g a = Some r" "locked_until r = Some v" and v: "u \<le> v"
    using assms(3) by (auto simp: locked_beyond_def)
  have "v \<le> instant_add c ACCOUNT_LOCKOUT_DURATION"
    using assms(1) r by (auto simp: account_ok_def)
  moreover have "instant_add c ACCOUNT_LOCKOUT_DURATION \<le> instant_add now ACCOUNT_LOCKOUT_DURATION"
    using assms(2) Failure by (intro instant_add_mono) simp
  ultimately have "v \<le> instant_add now ACCOUNT_LOCKOUT_DURATION" by (rule order_trans)
  then obtain w where w: "locked_until (fail_account ip now (Some r)) = Some w" "v \<le> w"
    using fail_account_locked [of ip now r] r(2) by auto
  have sweep: "locked_beyond (sweep_account now x) u" if "locked_until x = Some y" "u \<le> y" for x y
    using that assms(4) Failure by (auto simp: locked_beyond_def sweep_account_def active_def Let_def)
  show ?thesis
    using Failure r v w sweep [OF r(2) v] sweep [OF w(1) order_trans [OF v w(2)]]
    by (auto simp: accounts_failure Let_def locked_beyond_def)
qed

lemma timed_fst [simp]: "fst (timed_step s e) = guard_step (fst s) e"
  by (cases s; cases e) auto

lemma timed_run_fst [simp]: "fst (foldl timed_step s es) = guard_run (fst s) es"
  by (induction es arbitrary: s) simp_all

lemma blocked_run:
  assumes "guard_inv s" "guarded_run timed_ok timed_step s es" "list_all (at_times (\<lambda>t. t < u)) es"
  shows "(Success ip \<notin> set es \<longrightarrow> banned_beyond (ips (fst s) ip) u \<longrightarrow> banned_beyond (ips (guard_run (fst s) es) ip) u) \<and>
    (locked_beyond (accounts (fst s) a) u \<longrightarrow> locked_beyond (accounts (guard_run (fst s) es) a) u)"
  using assms
proof (induction es arbitrary: s)
  case Nil
  then show ?case by simp
next
  case (Cons e es)
  obtain g c n where s: "s = (g, c, n)" by (cases s)
  have ok: "guard_inv (g, c, n)" "timed_ok (g, c, n) e"
    using Cons.prems unfolding s by simp_all
  have "guard_inv (timed_step s e)"
    using guard_inv_step [OF ok] s by simp
  with Cons.prems have IH: "(Success ip \<notin> set es \<longrightarrow> banned_beyond (ips (guard_step g e) ip) u \<longrightarrow> banned_beyond (ips (guard_run (guard_step g e) es) ip) u) \<and>
    (locked_beyond (accounts (guard_step g e) a) u \<longrightarrow> locked_beyond (accounts (guard_run (guard_step g e) es) a) u)"
    using Cons.IH [of "timed_step s e"] unfolding s by simp
  have "at_times (\<lambda>t. t < u) e" using Cons.prems(3) by simp
  then show ?case
    using IH banned_step [OF ok, of ip u] locked_step [OF ok, of a u] unfolding s by auto
qed

fun failure_times :: "guard_event list \<Rightarrow> instant list" where
  "failure_times [] = []"
| "failure_times (Failure ip a t # es) = t # failure_times es"
| "failure_times (Success ip # es) = failure_times es"

lemma timed_guarded:
  "sorted (c # failure_times es) \<Longrightarrow> n + length es < 2 ^ 32 \<Longrightarrow> guarded_run timed_ok timed_step (g, c, n) es"
  by (induction es arbitrary: g c n rule: failure_times.induct) auto

lemma guarded_run_append:
  "guarded_run ok step s (xs @ ys) \<longleftrightarrow> guarded_run ok step s xs \<and> guarded_run ok step (foldl step s xs) ys"
  by (induction xs arbitrary: s) auto

lemma fresh_guarded:
  assumes "sorted (failure_times es)" "length es < 2 ^ 32"
  obtains c where "guarded_run timed_ok timed_step (new_guard, c, 0) es"
proof (cases "failure_times es")
  case Nil
  then show ?thesis using timed_guarded [of 0 es 0] assms by (intro that [of 0]) simp
next
  case (Cons t ts)
  then show ?thesis using timed_guarded [of t es 0] assms by (intro that [of t]) simp
qed

lemma locked_now_survives:
  "locked_until r = Some (instant_add now ACCOUNT_LOCKOUT_DURATION) \<Longrightarrow>
   \<exists>r'. sweep_account now r = Some r' \<and> locked_until r' = locked_until r"
  by (simp add: sweep_account_def active_def Let_def instant_add_less ACCOUNT_LOCKOUT_DURATION_def)

lemma failures_of_replicate: "failures_of ip (replicate n (Failure ip a t)) = n"
  by (induction n) simp_all

section \<open>Properties\<close>

text \<open>Guessing passwords from one address is stopped. Whatever else the guard records meanwhile, the
  tenth failure of an address that never succeeded, all within the lockout window, bans it: for the
  next five minutes every attempt from it is refused for every account.\<close>

theorem brute_force_is_banned:
  assumes "ips g ip = None" "failures_of ip es = 9" "Success ip \<notin> set es"
    and "list_all (at_times (lockout_span t0)) (es @ [Failure ip a now])"
    and "t < instant_add now IP_BAN_BASE"
  shows "check_at (guard_run g (es @ [Failure ip a now])) ip b t =
    Some (IpBanned (duration_since (instant_add now IP_BAN_BASE) t))"
proof -
  have "counting t0 9 (ips (guard_run g es) ip)"
    using counting_run [of g ip es t0] assms by (simp add: IP_BAN_THRESHOLD_def)
  then obtain r where "ips (record_failure_at (guard_run g es) ip a now) ip = Some r"
    "banned_until r = Some (instant_add now IP_BAN_BASE)"
    using tenth_failure_bans by blast
  with assms(5) show ?thesis
    by (simp add: check_at_def active_def)
qed

theorem brute_force_is_banned_witness:
  "check_at (guard_run new_guard (replicate 9 (Failure (V4 1) ''admin'' 0) @ [Failure (V4 1) ''admin'' 60000]))
     (V4 1) ''other'' 120000 = Some (IpBanned (duration_since (instant_add 60000 IP_BAN_BASE) 120000))"
proof (rule brute_force_is_banned [of new_guard "V4 1" "replicate 9 (Failure (V4 1) ''admin'' 0)" 0
      "''admin''" 60000 120000 "''other''"])
  show "failures_of (V4 1) (replicate 9 (Failure (V4 1) ''admin'' 0)) = 9"
    by (rule failures_of_replicate)
qed (simp_all add: new_guard_def list_all_iff instant_add_def guard_constants)

text \<open>A distributed attack on one account is stopped. Whatever else the guard records meanwhile, the
  failure of the third distinct address within the lockout window locks the account: for fifteen
  minutes no address can try to log into it.\<close>

theorem account_lockout:
  assumes "accounts g a = None" "card (attackers a es) = 2" "ip \<notin> attackers a es"
    and "list_all (at_times (lockout_span t0)) (es @ [Failure ip a now])"
    and "t < instant_add now ACCOUNT_LOCKOUT_DURATION"
  shows "check_at (guard_run g (es @ [Failure ip a now])) j a t \<noteq> None"
proof -
  have now: "lockout_span t0 now" using assms(4) by simp
  have "collecting t0 (attackers a es) (accounts (guard_run g es) a)"
    using collecting_run [of g a es t0] assms by (simp add: ACCOUNT_LOCKOUT_IP_THRESHOLD_def)
  from fail_account_cases [OF this now, of ip]
  have "locked_until (fail_account ip now (accounts (guard_run g es) a)) =
      Some (instant_add now ACCOUNT_LOCKOUT_DURATION)" (is "locked_until ?f = _")
    using assms(2,3) finite_attackers by (simp add: ACCOUNT_LOCKOUT_IP_THRESHOLD_def)
  with locked_now_survives [OF this] obtain r where "accounts (record_failure_at (guard_run g es) ip a now) a = Some r"
    "locked_until r = Some (instant_add now ACCOUNT_LOCKOUT_DURATION)"
    by (cases "(calls (guard_run g es) + 1) mod 2 ^ 64 mod CLEANUP_EVERY = 0")
      (auto simp: accounts_failure Let_def)
  with assms(5) show ?thesis
    by (simp add: check_at_def active_def split: option.split)
qed

theorem account_lockout_witness:
  "check_at (guard_run new_guard ([Failure (V4 1) ''admin'' 0, Failure (V4 2) ''admin'' 5, Success (V4 1)] @
     [Failure (V6 3) ''admin'' 9])) (V4 7) ''admin'' 800000 \<noteq> None"
proof (rule account_lockout [of new_guard "''admin''"
      "[Failure (V4 1) ''admin'' 0, Failure (V4 2) ''admin'' 5, Success (V4 1)]" "V6 3" 0 9])
  have "attackers ''admin'' [Failure (V4 1) ''admin'' 0, Failure (V4 2) ''admin'' 5, Success (V4 1)] = {V4 1, V4 2}"
    by (auto simp: attackers_def)
  then show "card (attackers ''admin'' [Failure (V4 1) ''admin'' 0, Failure (V4 2) ''admin'' 5, Success (V4 1)]) = 2"
    and "V6 3 \<notin> attackers ''admin'' [Failure (V4 1) ''admin'' 0, Failure (V4 2) ''admin'' 5, Success (V4 1)]"
    by simp_all
qed (simp_all add: new_guard_def instant_add_def guard_constants)

text \<open>No sequence of attempts lifts a block early. In every run of the guard, an attempt that is
  refused now for a moment \<open>t\<close> is still refused for \<open>t\<close> after any later events up to \<open>t\<close>, and the
  ban of an address that does not log in in between is never shortened.\<close>

theorem blocked_stays_blocked:
  assumes "sorted (failure_times (ds @ es))" "length (ds @ es) < 2 ^ 32"
    and "list_all (at_times (\<lambda>t'. t' \<le> t)) es"
    and "check_at (guard_run new_guard ds) ip a t = Some reason"
    and "\<And>d. reason = IpBanned d \<Longrightarrow> Success ip \<notin> set es"
  shows "\<exists>reason'. check_at (guard_run new_guard (ds @ es)) ip a t = Some reason' \<and>
    (\<forall>d. reason = IpBanned d \<longrightarrow> (\<exists>d'\<ge>d. reason' = IpBanned d'))"
proof -
  obtain c where run: "guarded_run timed_ok timed_step (new_guard, c, 0) (ds @ es)"
    using fresh_guarded [OF assms(1,2)] .
  let ?s = "foldl timed_step (new_guard, c, 0) ds" and ?g = "guard_run new_guard ds"
  have inv: "guard_inv ?s"
    by (rule lg.inv_run) (use run in \<open>simp_all add: new_guard_def guarded_run_append\<close>)
  have r: "guarded_run timed_ok timed_step ?s es" using run by (simp add: guarded_run_append)
  have times: "list_all (at_times (\<lambda>t'. t' < u)) es" if "t < u" for u
    using assms(3) that by (auto simp: list_all_iff elim!: at_times.elims)
  consider (ban) rec u where "ips ?g ip = Some rec" "banned_until rec = Some u" "t < u"
      "reason = IpBanned (duration_since u t)"
    | (lock) rec u where "accounts ?g a = Some rec" "locked_until rec = Some u" "t < u"
      "reason = AccountLocked (duration_since u t)"
    using assms(4) by (auto simp: check_at_def active_Some bind_eq_Some_conv split: option.splits)
  then show ?thesis
  proof cases
    case ban
    then have "banned_beyond (ips (guard_run ?g es) ip) u"
      using blocked_run [OF inv r times, of u ip a] assms(5) by (auto simp: banned_beyond_def)
    with ban show ?thesis
      by (auto simp: banned_beyond_def check_at_def active_def duration_since_def)
  next
    case lock
    then have "locked_beyond (accounts (guard_run ?g es) a) u"
      using blocked_run [OF inv r times, of u ip a] by (auto simp: locked_beyond_def)
    with lock show ?thesis
      by (auto simp: locked_beyond_def check_at_def active_def split: option.split)
  qed
qed

theorem blocked_stays_blocked_witness:
  "let ds = [Failure (V4 1) ''admin'' 0, Failure (V4 2) ''admin'' 5, Failure (V6 3) ''admin'' 9];
       es = [Failure (V4 1) ''x'' 50, Success (V4 2)]; reason = AccountLocked 899009 in
   \<exists>reason'. check_at (guard_run new_guard (ds @ es)) (V4 1) ''admin'' 1000 = Some reason' \<and>
    (\<forall>d. reason = IpBanned d \<longrightarrow> (\<exists>d'\<ge>d. reason' = IpBanned d'))"
  unfolding Let_def
proof (rule blocked_stays_blocked)
  show "check_at (guard_run new_guard [Failure (V4 1) ''admin'' 0, Failure (V4 2) ''admin'' 5,
      Failure (V6 3) ''admin'' 9]) (V4 1) ''admin'' 1000 = Some (AccountLocked 899009)"
    by (auto simp: check_at_def new_guard_def record_failure_at_def fail_ip_def fail_account_def
        in_lockout_window_def active_def duration_since_def instant_add_def guard_constants Let_def)
qed simp_all

end
