(* ===== verification/Channel_Access.thy ===== *)
theory Channel_Access
  imports Rust_Text
begin

text \<open>
  Who may talk to the assistant: the allowlist matcher of \<open>crates/channels/src/gating.rs\<close> and the
  access checks of the Telegram, Discord, Matrix, WhatsApp and Nostr channels
  (\<open>crates/<channel>/src/access.rs\<close>) and of Slack (\<open>socket.rs\<close>), Teams (\<open>plugin.rs\<close>) and Signal
  (\<open>inbound.rs\<close>), whose checks stand beside their handlers. The locale \<open>channel_gate\<close> is the contract
  the seven channels with groups share; it is interpreted on each of them. A Nostr public key is an argument type. The enums
  \<open>AccessDenied\<close> of the channels are one datatype with all their constructors; the texts of the
  reasons are left out.
\<close>

section \<open>Allowlists\<close>

text \<open>The loop of \<open>glob_match_lower\<close> over the segments, on the text that is left (\<open>text[pos..]\<close>);
  \<open>first\<close> is \<open>i == 0\<close>.\<close>

fun glob_loop :: "bool \<Rightarrow> string list \<Rightarrow> string \<Rightarrow> string option" where
  "glob_loop first [] t = Some t"
| "glob_loop first (p # ps) t =
     (if p = [] then glob_loop False ps t
      else (case find_sub p t of
              Some idx \<Rightarrow> if first \<and> idx \<noteq> 0 then None else glob_loop False ps (drop (idx + length p) t)
            | None \<Rightarrow> None))"

definition glob_match_lower :: "string \<Rightarrow> string \<Rightarrow> bool" where
  "glob_match_lower pattern t =
     (let parts = split_on (CHR ''*'') pattern in
      if length parts = 1 then pattern = t
      else (case glob_loop True parts t of
              None \<Rightarrow> False
            | Some rest \<Rightarrow> if last parts \<noteq> [] then rest = [] else True))"

definition is_allowed :: "string \<Rightarrow> string list \<Rightarrow> bool" where
  "is_allowed peer_id allowlist =
     (if allowlist = [] then True
      else
        let peer_lower = to_lowercase peer_id in
        list_ex (\<lambda>pattern.
          let pat = to_lowercase pattern in
          if CHR ''*'' \<in> set pat then glob_match_lower pat peer_lower else pat = peer_lower) allowlist)"

definition sender_matches_allowlist :: "string \<Rightarrow> string list \<Rightarrow> bool" where
  "sender_matches_allowlist sender_id allowlist \<longleftrightarrow>
     is_allowed sender_id allowlist \<or>
     (case split_once (CHR ''@'') sender_id of Some (user, _) \<Rightarrow> is_allowed user allowlist | None \<Rightarrow> False)"

section \<open>Policies\<close>

datatype mention_mode = Mention | Always | NoMention
datatype dm_policy = DmOpen | DmAllowlist | DmDisabled
datatype group_policy = GroupOpen | GroupAllowlist | GroupDisabled
datatype chat_type = Dm | Group | Channel

datatype access_denied =
    DmsDisabled | NotOnAllowlist
  | GroupsDisabled | GroupNotOnAllowlist
  | GuildsDisabled | GuildNotOnAllowlist
  | RoomsDisabled | RoomNotOnAllowlist
  | MentionModeNone | NotMentioned

record telegram_config =
  tg_dm_policy :: dm_policy
  tg_allowlist :: "string list"
  tg_group_policy :: group_policy
  tg_group_allowlist :: "string list"
  tg_mention_mode :: mention_mode

record discord_config =
  dc_dm_policy :: dm_policy
  dc_allowlist :: "string list"
  dc_group_policy :: group_policy
  dc_guild_allowlist :: "string list"
  dc_mention_mode :: mention_mode
  dc_channel_name_patterns :: "string list"
  dc_category_allowlist :: "string list"

record matrix_config =
  mx_dm_policy :: dm_policy
  mx_user_allowlist :: "string list"
  mx_room_policy :: group_policy
  mx_room_allowlist :: "string list"
  mx_mention_mode :: mention_mode

record whatsapp_config =
  wa_dm_policy :: dm_policy
  wa_allowlist :: "string list"
  wa_group_policy :: group_policy
  wa_group_allowlist :: "string list"
  wa_mention_mode :: mention_mode

abbreviation unwrap_or_empty :: "string option \<Rightarrow> string" where
  "unwrap_or_empty x \<equiv> (case x of Some s \<Rightarrow> s | None \<Rightarrow> [])"

definition option_allowed :: "string option \<Rightarrow> string list \<Rightarrow> bool" where
  "option_allowed x allowlist = (case x of Some u \<Rightarrow> is_allowed u allowlist | None \<Rightarrow> False)"

definition mention_gate :: "mention_mode \<Rightarrow> bool \<Rightarrow> access_denied + unit" where
  "mention_gate mode bot_mentioned =
     (case mode of
        Always \<Rightarrow> Inr ()
      | NoMention \<Rightarrow> Inl MentionModeNone
      | Mention \<Rightarrow> if bot_mentioned then Inr () else Inl NotMentioned)"

section \<open>Telegram\<close>

definition telegram_dm_access :: "telegram_config \<Rightarrow> string \<Rightarrow> string option \<Rightarrow> access_denied + unit" where
  "telegram_dm_access config peer_id username =
     (case tg_dm_policy config of
        DmDisabled \<Rightarrow> Inl DmsDisabled
      | DmOpen \<Rightarrow> Inr ()
      | DmAllowlist \<Rightarrow>
          if tg_allowlist config = [] then Inl NotOnAllowlist
          else if is_allowed peer_id (tg_allowlist config) \<or> option_allowed username (tg_allowlist config)
          then Inr () else Inl NotOnAllowlist)"

definition telegram_group_access :: "telegram_config \<Rightarrow> string option \<Rightarrow> bool \<Rightarrow> access_denied + unit" where
  "telegram_group_access config group_id bot_mentioned =
     (case tg_group_policy config of
        GroupDisabled \<Rightarrow> Inl GroupsDisabled
      | GroupAllowlist \<Rightarrow>
          if tg_group_allowlist config = [] \<or> \<not> is_allowed (unwrap_or_empty group_id) (tg_group_allowlist config)
          then Inl GroupNotOnAllowlist else mention_gate (tg_mention_mode config) bot_mentioned
      | GroupOpen \<Rightarrow> mention_gate (tg_mention_mode config) bot_mentioned)"

definition telegram_check_access ::
    "telegram_config \<Rightarrow> chat_type \<Rightarrow> string \<Rightarrow> string option \<Rightarrow> string option \<Rightarrow> bool \<Rightarrow> access_denied + unit" where
  "telegram_check_access config chat peer_id username group_id bot_mentioned =
     (case chat of
        Dm \<Rightarrow> telegram_dm_access config peer_id username
      | Group \<Rightarrow> telegram_group_access config group_id bot_mentioned
      | Channel \<Rightarrow> telegram_group_access config group_id bot_mentioned)"

section \<open>Discord\<close>

definition discord_dm_access :: "discord_config \<Rightarrow> string \<Rightarrow> string option \<Rightarrow> access_denied + unit" where
  "discord_dm_access config peer_id username =
     (case dc_dm_policy config of
        DmDisabled \<Rightarrow> Inl DmsDisabled
      | DmOpen \<Rightarrow> Inr ()
      | DmAllowlist \<Rightarrow>
          if dc_allowlist config = [] then Inl NotOnAllowlist
          else if is_allowed peer_id (dc_allowlist config) \<or> option_allowed username (dc_allowlist config)
          then Inr () else Inl NotOnAllowlist)"

definition discord_guild_access :: "discord_config \<Rightarrow> string option \<Rightarrow> bool \<Rightarrow> access_denied + unit" where
  "discord_guild_access config guild_id bot_mentioned =
     (case dc_group_policy config of
        GroupDisabled \<Rightarrow> Inl GuildsDisabled
      | GroupAllowlist \<Rightarrow>
          if dc_guild_allowlist config = [] \<or> \<not> is_allowed (unwrap_or_empty guild_id) (dc_guild_allowlist config)
          then Inl GuildNotOnAllowlist else mention_gate (dc_mention_mode config) bot_mentioned
      | GroupOpen \<Rightarrow> mention_gate (dc_mention_mode config) bot_mentioned)"

definition discord_check_access ::
    "discord_config \<Rightarrow> chat_type \<Rightarrow> string \<Rightarrow> string option \<Rightarrow> string option \<Rightarrow> bool \<Rightarrow> access_denied + unit" where
  "discord_check_access config chat peer_id username guild_id bot_mentioned =
     (case chat of
        Dm \<Rightarrow> discord_dm_access config peer_id username
      | Group \<Rightarrow> discord_guild_access config guild_id bot_mentioned
      | Channel \<Rightarrow> discord_guild_access config guild_id bot_mentioned)"

definition channel_matches_filter :: "discord_config \<Rightarrow> string option \<Rightarrow> string option \<Rightarrow> bool" where
  "channel_matches_filter config channel_name category_id =
     (if dc_channel_name_patterns config = [] \<and> dc_category_allowlist config = [] then True
      else
        let name_match = (dc_channel_name_patterns config \<noteq> [] \<and>
              option_allowed channel_name (dc_channel_name_patterns config));
            cat_match = (dc_category_allowlist config \<noteq> [] \<and>
              option_allowed category_id (dc_category_allowlist config))
        in name_match \<or> cat_match)"

section \<open>Matrix\<close>

definition matrix_dm_access :: "matrix_config \<Rightarrow> string \<Rightarrow> access_denied + unit" where
  "matrix_dm_access config sender_id =
     (case mx_dm_policy config of
        DmDisabled \<Rightarrow> Inl DmsDisabled
      | DmOpen \<Rightarrow> Inr ()
      | DmAllowlist \<Rightarrow>
          if mx_user_allowlist config = [] then Inl NotOnAllowlist
          else if is_allowed sender_id (mx_user_allowlist config) then Inr () else Inl NotOnAllowlist)"

definition matrix_room_access :: "matrix_config \<Rightarrow> string \<Rightarrow> bool \<Rightarrow> access_denied + unit" where
  "matrix_room_access config room_id bot_mentioned =
     (case (case mx_room_policy config of
              GroupDisabled \<Rightarrow> Inl RoomsDisabled
            | GroupOpen \<Rightarrow> Inr ()
            | GroupAllowlist \<Rightarrow>
                if mx_room_allowlist config = [] \<or> \<not> is_allowed room_id (mx_room_allowlist config)
                then Inl RoomNotOnAllowlist else Inr ()) of
        Inl e \<Rightarrow> Inl e
      | Inr _ \<Rightarrow> mention_gate (mx_mention_mode config) bot_mentioned)"

definition matrix_check_access ::
    "matrix_config \<Rightarrow> chat_type \<Rightarrow> string \<Rightarrow> string \<Rightarrow> bool \<Rightarrow> access_denied + unit" where
  "matrix_check_access config chat sender_id room_id bot_mentioned =
     (case chat of
        Dm \<Rightarrow> matrix_dm_access config sender_id
      | Group \<Rightarrow> matrix_room_access config room_id bot_mentioned
      | Channel \<Rightarrow> matrix_room_access config room_id bot_mentioned)"

section \<open>WhatsApp\<close>

definition whatsapp_dm_access :: "whatsapp_config \<Rightarrow> string \<Rightarrow> string option \<Rightarrow> access_denied + unit" where
  "whatsapp_dm_access config peer_id username =
     (case wa_dm_policy config of
        DmDisabled \<Rightarrow> Inl DmsDisabled
      | DmOpen \<Rightarrow> Inr ()
      | DmAllowlist \<Rightarrow>
          if wa_allowlist config = [] then Inl NotOnAllowlist
          else if is_allowed peer_id (wa_allowlist config) \<or> option_allowed username (wa_allowlist config)
          then Inr () else Inl NotOnAllowlist)"

definition whatsapp_group_access :: "whatsapp_config \<Rightarrow> string option \<Rightarrow> bool \<Rightarrow> access_denied + unit" where
  "whatsapp_group_access config group_id bot_mentioned =
     (case wa_group_policy config of
        GroupDisabled \<Rightarrow> Inl GroupsDisabled
      | GroupAllowlist \<Rightarrow>
          if wa_group_allowlist config = [] \<or> \<not> is_allowed (unwrap_or_empty group_id) (wa_group_allowlist config)
          then Inl GroupNotOnAllowlist else mention_gate (wa_mention_mode config) bot_mentioned
      | GroupOpen \<Rightarrow> mention_gate (wa_mention_mode config) bot_mentioned)"

definition whatsapp_check_access ::
    "whatsapp_config \<Rightarrow> bool \<Rightarrow> string \<Rightarrow> string option \<Rightarrow> string option \<Rightarrow> bool \<Rightarrow> access_denied + unit" where
  "whatsapp_check_access config is_group peer_id username group_id bot_mentioned =
     (if is_group then whatsapp_group_access config group_id bot_mentioned
      else whatsapp_dm_access config peer_id username)"

section \<open>Slack\<close>

record slack_config =
  sl_dm_policy :: dm_policy
  sl_group_policy :: group_policy
  sl_allowlist :: "string list"
  sl_channel_allowlist :: "string list"
  sl_mention_mode :: mention_mode
  sl_reaction_triggers :: bool
  sl_reaction_trigger_emojis :: "string list"

definition slack_check_access ::
    "bool \<Rightarrow> string \<Rightarrow> string \<Rightarrow> dm_policy \<Rightarrow> group_policy \<Rightarrow> string list \<Rightarrow> string list \<Rightarrow> bool" where
  "slack_check_access is_dm user_id channel_id dms groups user_allowlist channel_allowlist =
     (if is_dm then
        (case dms of
           DmOpen \<Rightarrow> True
         | DmAllowlist \<Rightarrow> user_allowlist \<noteq> [] \<and> is_allowed user_id user_allowlist
         | DmDisabled \<Rightarrow> False)
      else
        (case groups of
           GroupOpen \<Rightarrow> True
         | GroupAllowlist \<Rightarrow> channel_allowlist \<noteq> [] \<and> is_allowed channel_id channel_allowlist
         | GroupDisabled \<Rightarrow> False))"

definition slack_access :: "slack_config \<Rightarrow> bool \<Rightarrow> string \<Rightarrow> string \<Rightarrow> bool" where
  "slack_access c is_dm user_id channel_id =
     slack_check_access is_dm user_id channel_id (sl_dm_policy c) (sl_group_policy c) (sl_allowlist c) (sl_channel_allowlist c)"

text \<open>The identifiers of direct conversations start with a D. Outside of them the message handler also asks for
  the mention; the handler of reactions does not.\<close>

definition slack_is_dm :: "string \<Rightarrow> bool" where
  "slack_is_dm channel_id = starts_with ''D'' channel_id"

definition slack_message_goes_on :: "slack_config \<Rightarrow> bool \<Rightarrow> string \<Rightarrow> string \<Rightarrow> bool \<Rightarrow> bool" where
  "slack_message_goes_on c is_dm user_id channel_id is_mention =
     (if \<not> slack_access c is_dm user_id channel_id then False
      else if \<not> is_dm then (case sl_mention_mode c of Mention \<Rightarrow> is_mention | NoMention \<Rightarrow> False | Always \<Rightarrow> True)
      else True)"

definition slack_admits :: "slack_config \<Rightarrow> string \<Rightarrow> string \<Rightarrow> bool \<Rightarrow> bool" where
  "slack_admits c user_id channel_id is_mention = slack_message_goes_on c (slack_is_dm channel_id) user_id channel_id is_mention"

definition reaction_should_trigger :: "bool \<Rightarrow> bool \<Rightarrow> bool \<Rightarrow> bool \<Rightarrow> string \<Rightarrow> string list \<Rightarrow> bool" where
  "reaction_should_trigger on added is_self target_is_bot emoji allowlist \<longleftrightarrow>
     on \<and> added \<and> \<not> is_self \<and> target_is_bot \<and> (allowlist = [] \<or> emoji \<in> set allowlist)"

definition slack_reaction_admits ::
    "slack_config \<Rightarrow> string option \<Rightarrow> string option \<Rightarrow> string \<Rightarrow> string \<Rightarrow> bool \<Rightarrow> string \<Rightarrow> bool" where
  "slack_reaction_admits c bot_user_id item_user user_id channel_id added emoji =
     (let is_self = (bot_user_id = Some user_id);
          target_is_bot = (bot_user_id \<noteq> None \<and> bot_user_id = item_user) in
      reaction_should_trigger (sl_reaction_triggers c) added is_self target_is_bot emoji (sl_reaction_trigger_emojis c) \<and>
      slack_access c (slack_is_dm channel_id) user_id channel_id)"

section \<open>Teams\<close>

record teams_team =
  tt_mention_mode :: "mention_mode option"
  tt_channels :: "string \<rightharpoonup> mention_mode option"

record teams_config =
  tc_dm_policy :: dm_policy
  tc_group_policy :: group_policy
  tc_allowlist :: "string list"
  tc_group_allowlist :: "string list"
  tc_mention_mode :: mention_mode
  tc_teams :: "string \<rightharpoonup> teams_team"

text \<open>What of an activity the gate reads; \<open>ta_channel_data\<close> says of the channel data, if there are any, whether
  they name a team and whether they name a channel.\<close>

record teams_activity =
  ta_conversation_type :: "string option"
  ta_channel_data :: "(bool \<times> bool) option"
  ta_recipient_id :: "string option"
  ta_entities :: "(string \<times> string option) list"

definition is_group_chat :: "teams_activity \<Rightarrow> bool" where
  "is_group_chat a =
     (if (case ta_conversation_type a of Some t \<Rightarrow> eq_ignore_ascii_case t ''personal'' | None \<Rightarrow> False) then False
      else (case ta_channel_data a of Some (has_team, has_channel) \<Rightarrow> has_team \<or> has_channel | None \<Rightarrow> True))"

definition bot_is_mentioned :: "teams_activity \<Rightarrow> bool" where
  "bot_is_mentioned a =
     (case ta_recipient_id a of
        None \<Rightarrow> False
      | Some recipient \<Rightarrow>
          list_ex (\<lambda>(entity_type, mentioned). eq_ignore_ascii_case entity_type ''mention'' \<and> mentioned = Some recipient)
            (ta_entities a))"

definition resolve_mention_mode :: "teams_config \<Rightarrow> string option \<Rightarrow> string option \<Rightarrow> mention_mode" where
  "resolve_mention_mode c team_id channel_id =
     (case Option.bind team_id (tc_teams c) of
        None \<Rightarrow> tc_mention_mode c
      | Some team \<Rightarrow>
          (case Option.bind (Option.bind channel_id (tt_channels team)) id of
             Some mode \<Rightarrow> mode
           | None \<Rightarrow> (case tt_mention_mode team of Some mode \<Rightarrow> mode | None \<Rightarrow> tc_mention_mode c)))"

definition policy_allowed :: "teams_config \<Rightarrow> bool \<Rightarrow> string \<Rightarrow> string \<Rightarrow> bool" where
  "policy_allowed c is_group chat_id peer_id =
     (if is_group then
        (case tc_group_policy c of
           GroupOpen \<Rightarrow> True
         | GroupAllowlist \<Rightarrow> tc_group_allowlist c \<noteq> [] \<and> is_allowed chat_id (tc_group_allowlist c)
         | GroupDisabled \<Rightarrow> False)
      else
        (case tc_dm_policy c of
           DmOpen \<Rightarrow> True
         | DmAllowlist \<Rightarrow> tc_allowlist c \<noteq> [] \<and> is_allowed peer_id (tc_allowlist c)
         | DmDisabled \<Rightarrow> False))"

definition teams_goes_on :: "teams_config \<Rightarrow> string option \<Rightarrow> string option \<Rightarrow> bool \<Rightarrow> string \<Rightarrow> string \<Rightarrow> bool \<Rightarrow> bool" where
  "teams_goes_on c team_id channel_id is_group chat_id peer_id bot_mentioned \<longleftrightarrow>
     policy_allowed c is_group chat_id peer_id \<and>
     (if is_group
      then (case resolve_mention_mode c team_id channel_id of Always \<Rightarrow> True | Mention \<Rightarrow> bot_mentioned | NoMention \<Rightarrow> False)
      else True)"

definition teams_admits :: "teams_config \<Rightarrow> string option \<Rightarrow> string option \<Rightarrow> teams_activity \<Rightarrow> string \<Rightarrow> string \<Rightarrow> bool" where
  "teams_admits c team_id channel_id a chat_id peer_id =
     teams_goes_on c team_id channel_id (is_group_chat a) chat_id peer_id (bot_is_mentioned a)"

section \<open>Signal\<close>

record signal_config =
  sg_dm_policy :: dm_policy
  sg_allowlist :: "string list"
  sg_group_policy :: group_policy
  sg_group_allowlist :: "string list"
  sg_mention_mode :: mention_mode
  sg_account :: "string option"
  sg_account_uuid :: "string option"

text \<open>A text that is trimmed and, when nothing is left of it, taken for missing.\<close>

definition trimmed_field :: "string option \<Rightarrow> string option" where
  "trimmed_field x = (case x of Some s \<Rightarrow> if trim s \<noteq> [] then Some (trim s) else None | None \<Rightarrow> None)"

definition signal_account :: "signal_config \<Rightarrow> string option" where
  "signal_account c = trimmed_field (sg_account c)"

definition identity_allowed :: "string \<Rightarrow> string option \<Rightarrow> string list \<Rightarrow> bool" where
  "identity_allowed sender sender_uuid allowlist =
     (if allowlist = [] then False
      else is_allowed sender allowlist \<or>
        (case sender_uuid of
           Some uuid \<Rightarrow> is_allowed uuid allowlist \<or> is_allowed (''uuid:'' @ uuid) allowlist
         | None \<Rightarrow> False))"

definition dm_access_allowed :: "string \<Rightarrow> string option \<Rightarrow> signal_config \<Rightarrow> bool" where
  "dm_access_allowed sender sender_uuid c =
     (case sg_dm_policy c of
        DmOpen \<Rightarrow> True
      | DmDisabled \<Rightarrow> False
      | DmAllowlist \<Rightarrow> identity_allowed sender sender_uuid (sg_allowlist c))"

text \<open>The mentions of a message are the members \<open>number\<close> and \<open>uuid\<close> of the entries of the array, \<open>None\<close> when there
  is no array.\<close>

type_synonym signal_mentions = "(string option \<times> string option) list option"

definition signal_mentioned :: "signal_config \<Rightarrow> string \<Rightarrow> signal_mentions \<Rightarrow> bool" where
  "signal_mentioned c body mentions \<longleftrightarrow>
     (case signal_account c of Some a \<Rightarrow> contains_sub body a | None \<Rightarrow> False) \<or>
     (case sg_account_uuid c of Some u \<Rightarrow> contains_sub body u | None \<Rightarrow> False) \<or>
     (case mentions of
        None \<Rightarrow> False
      | Some ms \<Rightarrow>
          list_ex (\<lambda>(num, uuid).
            (case signal_account c of Some a \<Rightarrow> trimmed_field num = Some a | None \<Rightarrow> False) \<or>
            (case sg_account_uuid c of Some u \<Rightarrow> trimmed_field uuid = Some u | None \<Rightarrow> False)) ms)"

definition signal_group_gate :: "signal_config \<Rightarrow> string \<Rightarrow> bool \<Rightarrow> bool" where
  "signal_group_gate c group_id mentioned =
     (let policy_allows = (case sg_group_policy c of
              GroupOpen \<Rightarrow> True
            | GroupAllowlist \<Rightarrow> sg_group_allowlist c \<noteq> [] \<and> is_allowed group_id (sg_group_allowlist c)
            | GroupDisabled \<Rightarrow> False) in
      if \<not> policy_allows then False
      else (case sg_mention_mode c of Always \<Rightarrow> True | NoMention \<Rightarrow> False | Mention \<Rightarrow> mentioned))"

definition group_access_allowed :: "string option \<Rightarrow> string \<Rightarrow> signal_mentions \<Rightarrow> signal_config \<Rightarrow> bool" where
  "group_access_allowed group_id body mentions c =
     (case group_id of None \<Rightarrow> False | Some g \<Rightarrow> signal_group_gate c g (signal_mentioned c body mentions))"

definition signal_admits :: "signal_config \<Rightarrow> string \<Rightarrow> string option \<Rightarrow> string option \<Rightarrow> string \<Rightarrow> signal_mentions \<Rightarrow> bool" where
  "signal_admits c sender sender_uuid group_id body mentions =
     (if group_id = None then dm_access_allowed sender sender_uuid c else group_access_allowed group_id body mentions c)"

section \<open>Nostr\<close>

definition nostr_dm_access :: "'key \<Rightarrow> dm_policy \<Rightarrow> 'key list \<Rightarrow> access_denied + unit" where
  "nostr_dm_access sender policy allowed =
     (case policy of
        DmDisabled \<Rightarrow> Inl DmsDisabled
      | DmOpen \<Rightarrow> Inr ()
      | DmAllowlist \<Rightarrow> if sender \<in> set allowed then Inr () else Inl NotOnAllowlist)"

section \<open>The meaning of a pattern\<close>

text \<open>A star stands for any text, every other character for itself.\<close>

fun glob :: "string \<Rightarrow> string \<Rightarrow> bool" where
  "glob [] t = (t = [])"
| "glob (c # p) t =
     (if c = CHR ''*'' then list_ex (\<lambda>k. glob p (drop k t)) [0..<Suc (length t)]
      else (case t of [] \<Rightarrow> False | x # xs \<Rightarrow> x = c \<and> glob p xs))"

lemma glob_star: "glob (CHR ''*'' # p) t \<longleftrightarrow> (\<exists>k\<le>length t. glob p (drop k t))"
  by (auto simp: list_ex_iff less_Suc_eq_le Bex_def simp del: upt_Suc)

declare glob.simps(2) [simp del]

lemma glob_literal:
  "CHR ''*'' \<notin> set p \<Longrightarrow> glob (p @ q) t \<longleftrightarrow> prefix p t \<and> glob q (drop (length p) t)"
proof (induction p arbitrary: t)
  case Nil
  then show ?case by simp
next
  case (Cons c p)
  then show ?case by (cases t) (auto simp: glob.simps(2))
qed

definition floats :: "string list \<Rightarrow> string \<Rightarrow> bool" where
  "floats ps t \<longleftrightarrow> (\<exists>k\<le>length t. glob (join_with (CHR ''*'') ps) (drop k t))"

abbreviation starless :: "string list \<Rightarrow> bool" where
  "starless ps \<equiv> \<forall>p\<in>set ps. CHR ''*'' \<notin> set p"

lemma floats_later: "floats ps (drop n t) \<Longrightarrow> floats ps t"
  unfolding floats_def
proof (elim exE conjE)
  fix k assume "k \<le> length (drop n t)" "glob (join_with (CHR ''*'') ps) (drop k (drop n t))"
  then show "\<exists>k\<le>length t. glob (join_with (CHR ''*'') ps) (drop k t)"
    by (cases "n \<le> length t") (auto intro: exI [of _ "k + n"] simp: add.commute)
qed

lemma glob_segment:
  "CHR ''*'' \<notin> set p \<Longrightarrow> ps \<noteq> [] \<Longrightarrow>
   glob (join_with (CHR ''*'') (p # ps)) t \<longleftrightarrow> prefix p t \<and> floats ps (drop (length p) t)"
  by (simp add: join_with_Cons glob_literal glob_star floats_def)

lemma glob_last: "CHR ''*'' \<notin> set p \<Longrightarrow> glob (join_with (CHR ''*'') [p]) t \<longleftrightarrow> t = p"
  using glob_literal [of p "[]" t] by (auto simp: prefix_def)

lemma glob_loop_sound:
  "starless ps \<Longrightarrow> ps \<noteq> [] \<Longrightarrow> glob_loop False ps t = Some r \<Longrightarrow> last ps = [] \<or> r = [] \<Longrightarrow> floats ps t"
proof (induction ps arbitrary: t)
  case Nil
  then show ?case by simp
next
  case (Cons p ps)
  show ?case
  proof (cases "p = []")
    case empty: True
    show ?thesis
    proof (cases "ps = []")
      case True
      then show ?thesis using empty by (auto simp: floats_def intro!: exI [of _ "length t"])
    next
      case False
      then have "floats ps t" using Cons empty by auto
      then have "glob (join_with (CHR ''*'') (p # ps)) t" using glob_segment [of p ps t] empty False by simp
      then show ?thesis by (auto simp: floats_def intro!: exI [of _ 0])
    qed
  next
    case False
    with Cons.prems obtain idx where idx: "find_sub p t = Some idx"
      and rest: "glob_loop False ps (drop (idx + length p) t) = Some r"
      by (auto split: option.splits)
    have px: "prefix p (drop idx t)" "idx \<le> length t"
      using find_sub_Some_prefix [OF idx] by auto
    have "glob (join_with (CHR ''*'') (p # ps)) (drop idx t)"
    proof (cases "ps = []")
      case True
      then have "drop (idx + length p) t = []" using rest Cons.prems(4) False by simp
      moreover obtain zs where zs: "drop idx t = p @ zs" using px(1) by (auto elim: prefixE)
      moreover have "zs = drop (length p) (drop idx t)" by (simp only: zs append_eq_conv_conj) simp
      ultimately have "drop idx t = p" by (simp add: add.commute)
      then show ?thesis using glob_last [of p] Cons.prems(1) True by simp
    next
      case ne: False
      then have "floats ps (drop (idx + length p) t)" using Cons rest by auto
      then show ?thesis using glob_segment [of p ps "drop idx t"] Cons.prems(1) px ne by (simp add: add.commute)
    qed
    with px(2) show ?thesis by (auto simp: floats_def)
  qed
qed

lemma find_sub_first:
  assumes "prefix p (drop k t)" "k \<le> length t"
  shows "\<exists>idx\<le>k. find_sub p t = Some idx"
proof (cases "find_sub p t")
  case None
  with find_sub_None assms(1) show ?thesis by blast
next
  case (Some idx)
  then have "idx \<le> k" using find_sub_least assms(1) by (meson not_le)
  with Some show ?thesis by blast
qed

text \<open>Taking the first occurrence of each segment loses nothing as long as the text may end anywhere.\<close>

lemma glob_loop_complete:
  "starless ps \<Longrightarrow> ps \<noteq> [] \<Longrightarrow> last ps = [] \<Longrightarrow> floats ps t \<Longrightarrow> \<exists>r. glob_loop False ps t = Some r"
proof (induction ps arbitrary: t)
  case Nil
  then show ?case by simp
next
  case (Cons p ps)
  show ?case
  proof (cases "ps = []")
    case True
    then show ?thesis using Cons.prems(3) by simp
  next
    case ne: False
    from Cons.prems(4) obtain k where k: "k \<le> length t" "glob (join_with (CHR ''*'') (p # ps)) (drop k t)"
      by (auto simp: floats_def)
    then have px: "prefix p (drop k t)" and fl: "floats ps (drop (k + length p) t)"
      using glob_segment [of p ps "drop k t"] Cons.prems(1) ne by (simp_all add: add.commute)
    show ?thesis
    proof (cases "p = []")
      case True
      then show ?thesis using Cons.IH [of t] Cons.prems ne floats_later [OF fl] by simp
    next
      case False
      obtain idx where idx: "idx \<le> k" "find_sub p t = Some idx"
        using find_sub_first [OF px k(1)] by blast
      have "floats ps (drop (idx + length p) t)"
      proof (rule floats_later)
        show "floats ps (drop (k - idx) (drop (idx + length p) t))"
          using fl idx(1) by (simp add: add.commute add.left_commute)
      qed
      with Cons.IH [of "drop (idx + length p) t"] Cons.prems ne idx False show ?thesis by simp
    qed
  qed
qed

lemma starless_split: "starless (split_on (CHR ''*'') pattern)"
  using split_by_no_sep by blast

lemma length_one: "length (xs :: 'a list) = 1 \<longleftrightarrow> (\<exists>x. xs = [x])"
  by (cases xs) auto

lemma starred_parts:
  "length (split_on (CHR ''*'') pattern) \<noteq> 1 \<Longrightarrow>
   \<exists>p ps. split_on (CHR ''*'') pattern = p # ps \<and> ps \<noteq> [] \<and> CHR ''*'' \<notin> set p \<and> starless ps \<and>
     pattern = join_with (CHR ''*'') (p # ps)"
  using starless_split [of pattern] join_split_on [of "CHR ''*''" pattern]
    split_by_nonempty [of "\<lambda>x. x = CHR ''*''" pattern]
  by (cases "split_on (CHR ''*'') pattern") auto

lemma unstarred_pattern:
  assumes "length (split_on (CHR ''*'') pattern) = 1"
  shows "CHR ''*'' \<notin> set pattern"
proof -
  from assms obtain x where "split_on (CHR ''*'') pattern = [x]" by (metis length_one)
  then show ?thesis
    using starless_split [of pattern] join_split_on [of "CHR ''*''" pattern] by auto
qed

lemma glob_first:
  assumes "p \<noteq> []" "find_sub p t = Some 0"
  shows "prefix p t"
  using find_sub_Some_prefix [OF assms(2)] by simp

lemma prefix_find_sub: "prefix p t \<Longrightarrow> find_sub p t = Some 0"
  using find_sub_first [of p 0 t] by auto

lemma glob_match_sound:
  assumes "glob_match_lower pattern t"
  shows "glob pattern t"
proof (cases "length (split_on (CHR ''*'') pattern) = 1")
  case True
  with assms unstarred_pattern [OF True] show ?thesis
    using glob_literal [of pattern "[]" t] by (simp add: glob_match_lower_def)
next
  case False
  obtain p ps where sp: "split_on (CHR ''*'') pattern = p # ps" "ps \<noteq> []" "CHR ''*'' \<notin> set p" "starless ps"
    and pat: "pattern = join_with (CHR ''*'') (p # ps)"
    using starred_parts [OF False] by blast
  have final: "glob_loop True (p # ps) t = Some r \<Longrightarrow> last ps = [] \<or> r = [] \<Longrightarrow> glob pattern t" for r
    unfolding pat glob_segment [OF sp(3,2)]
    using glob_loop_sound [OF sp(4,2)] glob_first [of p t] by (auto split: if_splits option.splits)
  have "\<exists>r. glob_loop True (p # ps) t = Some r \<and> (last ps = [] \<or> r = [])"
    using assms False sp(1,2) by (auto simp: glob_match_lower_def Let_def split: option.splits if_splits)
  with final show ?thesis by blast
qed

lemma glob_match_complete:
  assumes "glob pattern t" "pattern = [] \<or> last pattern = CHR ''*'' \<or> CHR ''*'' \<notin> set pattern"
  shows "glob_match_lower pattern t"
proof (cases "length (split_on (CHR ''*'') pattern) = 1")
  case True
  with assms unstarred_pattern [OF True] show ?thesis
    using glob_literal [of pattern "[]" t] by (auto simp: glob_match_lower_def prefix_def)
next
  case False
  obtain p ps where sp: "split_on (CHR ''*'') pattern = p # ps" "ps \<noteq> []" "CHR ''*'' \<notin> set p" "starless ps"
    and pat: "pattern = join_with (CHR ''*'') (p # ps)"
    using starred_parts [OF False] by blast
  have star: "CHR ''*'' \<in> set pattern" "pattern \<noteq> []"
    unfolding pat using sp(2) by (simp_all add: join_with_Cons)
  have lp: "last (join_with c (q # qs)) = c \<Longrightarrow> join_with c (q # qs) \<noteq> [] \<Longrightarrow> \<forall>x\<in>set (q # qs). c \<notin> set x \<Longrightarrow> last (q # qs) = []"
    for c :: char and q qs
  proof (induction qs arbitrary: q)
    case Nil
    then show ?case by (metis join_with.simps(2) last.simps last_in_set list.set_intros(1))
  next
    case (Cons q' qs)
    show ?case
    proof (cases "join_with c (q' # qs) = []")
      case True
      then show ?thesis by (cases qs) (auto simp: join_with_Cons)
    next
      case False
      with Cons show ?thesis by (simp add: join_with_Cons)
    qed
  qed
  have lst: "last ps = []"
    using lp [of "CHR ''*''" p ps] assms(2) star sp pat by auto
  have px: "prefix p t" and fl: "floats ps (drop (length p) t)"
    using assms(1) unfolding pat glob_segment [OF sp(3,2)] by auto
  obtain r where "glob_loop False ps (drop (length p) t) = Some r"
    using glob_loop_complete [OF sp(4,2) lst fl] by blast
  then have "glob_loop True (p # ps) t = Some r"
    using prefix_find_sub [OF px] by (cases "p = []") auto
  then show ?thesis
    using sp(1,2) lst False by (simp add: glob_match_lower_def Let_def)
qed

text \<open>The matcher takes the first occurrence of the last segment too, so it refuses some texts that the
  pattern describes.\<close>

lemma glob_match_incomplete:
  "glob ''*ab'' ''abab'' \<and> \<not> glob_match_lower ''*ab'' ''abab''"
  by code_simp

lemma is_allowed_Cons:
  "allowlist \<noteq> [] \<Longrightarrow> is_allowed x allowlist \<longleftrightarrow>
     (\<exists>e\<in>set allowlist. if CHR ''*'' \<in> set (to_lowercase e) then glob_match_lower (to_lowercase e) (to_lowercase x)
        else to_lowercase e = to_lowercase x)"
  by (auto simp: is_allowed_def list_ex_iff Let_def)

lemma is_allowed_glob:
  assumes "is_allowed x allowlist" "allowlist \<noteq> []"
  shows "\<exists>e\<in>set allowlist. glob (to_lowercase e) (to_lowercase x)"
proof -
  have lit: "CHR ''*'' \<notin> set p \<Longrightarrow> glob p p" for p
    using glob_literal [of p "[]" p] by simp
  from assms obtain e where "e \<in> set allowlist"
    "if CHR ''*'' \<in> set (to_lowercase e) then glob_match_lower (to_lowercase e) (to_lowercase x)
        else to_lowercase e = to_lowercase x"
    by (auto simp: is_allowed_Cons)
  then show ?thesis using lit [of "to_lowercase e"] glob_match_sound by (auto split: if_splits intro!: bexI [of _ e])
qed

section \<open>The contract of the channels\<close>

locale channel_gate =
  fixes admits :: "'cfg \<Rightarrow> bool \<Rightarrow> string \<Rightarrow> string option \<Rightarrow> string option \<Rightarrow> bool \<Rightarrow> bool"
    and names :: "string \<Rightarrow> string option \<Rightarrow> string list"
    and dm_policy_of :: "'cfg \<Rightarrow> dm_policy"
    and dm_list_of :: "'cfg \<Rightarrow> string list"
    and group_policy_of :: "'cfg \<Rightarrow> group_policy"
    and group_list_of :: "'cfg \<Rightarrow> string list"
    and mention_of :: "'cfg \<Rightarrow> mention_mode"
  assumes dm: "admits c True peer user place m \<longleftrightarrow>
      dm_policy_of c = DmOpen \<or>
      dm_policy_of c = DmAllowlist \<and> dm_list_of c \<noteq> [] \<and> list_ex (\<lambda>n. is_allowed n (dm_list_of c)) (names peer user)"
    and group: "admits c False peer user place m \<longleftrightarrow>
      (group_policy_of c = GroupOpen \<or>
       group_policy_of c = GroupAllowlist \<and> group_list_of c \<noteq> [] \<and> is_allowed (unwrap_or_empty place) (group_list_of c)) \<and>
      (mention_of c = Always \<or> mention_of c = Mention \<and> m)"
begin

text \<open>A direct message under an allowlist comes from a sender that some entry describes.\<close>

lemma dm_sender_listed:
  assumes "admits c True peer user place m" "dm_policy_of c \<noteq> DmOpen"
  shows "\<exists>n\<in>set (names peer user). \<exists>e\<in>set (dm_list_of c). glob (to_lowercase e) (to_lowercase n)"
  using assms by (fastforce simp: dm list_ex_iff dest: is_allowed_glob)

lemma empty_list_closed:
  "dm_policy_of c = DmAllowlist \<Longrightarrow> dm_list_of c = [] \<Longrightarrow> \<not> admits c True peer user place m"
  "group_policy_of c = GroupAllowlist \<Longrightarrow> group_list_of c = [] \<Longrightarrow> \<not> admits c False peer user place m"
  by (simp_all add: dm group)

lemma group_listed:
  assumes "admits c False peer user place m" "group_policy_of c \<noteq> GroupOpen"
  shows "\<exists>e\<in>set (group_list_of c). glob (to_lowercase e) (to_lowercase (unwrap_or_empty place))"
  using assms is_allowed_glob by (auto simp: group)

text \<open>The three facts at once.\<close>

lemma admitted_is_listed:
  assumes "admits c is_dm peer user place m"
  shows "if is_dm
     then dm_policy_of c = DmOpen \<or>
       dm_policy_of c = DmAllowlist \<and>
       (\<exists>n\<in>set (names peer user). \<exists>e\<in>set (dm_list_of c). glob (to_lowercase e) (to_lowercase n))
     else (group_policy_of c = GroupOpen \<or>
       group_policy_of c = GroupAllowlist \<and>
       (\<exists>e\<in>set (group_list_of c). glob (to_lowercase e) (to_lowercase (unwrap_or_empty place)))) \<and>
       mention_of c \<noteq> NoMention \<and> (mention_of c = Mention \<longrightarrow> m)"
  using assms dm_sender_listed [of c peer user place m] group_listed [of c peer user place m]
  by (cases is_dm; cases "mention_of c") (auto simp: dm group)

end

abbreviation peer_and_username :: "string \<Rightarrow> string option \<Rightarrow> string list" where
  "peer_and_username peer user \<equiv> peer # (case user of Some u \<Rightarrow> [u] | None \<Rightarrow> [])"

lemma mention_gate_ok: "mention_gate mode m = Inr () \<longleftrightarrow> mode = Always \<or> mode = Mention \<and> m"
  by (simp add: mention_gate_def split: mention_mode.split)

interpretation telegram: channel_gate
  "\<lambda>c is_dm peer user place m. telegram_check_access c (if is_dm then Dm else Group) peer user place m = Inr ()"
  peer_and_username tg_dm_policy tg_allowlist tg_group_policy tg_group_allowlist tg_mention_mode
  by unfold_locales
    (auto simp: telegram_check_access_def telegram_dm_access_def telegram_group_access_def option_allowed_def
      mention_gate_ok split: dm_policy.splits group_policy.splits option.splits)

interpretation discord: channel_gate
  "\<lambda>c is_dm peer user place m. discord_check_access c (if is_dm then Dm else Group) peer user place m = Inr ()"
  peer_and_username dc_dm_policy dc_allowlist dc_group_policy dc_guild_allowlist dc_mention_mode
  by unfold_locales
    (auto simp: discord_check_access_def discord_dm_access_def discord_guild_access_def option_allowed_def
      mention_gate_ok split: dm_policy.splits group_policy.splits option.splits)

interpretation matrix: channel_gate
  "\<lambda>c is_dm peer user place m. matrix_check_access c (if is_dm then Dm else Group) peer (unwrap_or_empty place) m = Inr ()"
  "\<lambda>peer _. [peer]" mx_dm_policy mx_user_allowlist mx_room_policy mx_room_allowlist mx_mention_mode
  by unfold_locales
    (auto simp: matrix_check_access_def matrix_dm_access_def matrix_room_access_def
      mention_gate_ok split: dm_policy.splits group_policy.splits option.splits)

interpretation whatsapp: channel_gate
  "\<lambda>c is_dm peer user place m. whatsapp_check_access c (\<not> is_dm) peer user place m = Inr ()"
  peer_and_username wa_dm_policy wa_allowlist wa_group_policy wa_group_allowlist wa_mention_mode
  by unfold_locales
    (auto simp: whatsapp_check_access_def whatsapp_dm_access_def whatsapp_group_access_def option_allowed_def
      mention_gate_ok split: dm_policy.splits group_policy.splits option.splits)

interpretation slack: channel_gate
  "\<lambda>c is_dm peer user place m. slack_message_goes_on c is_dm peer (unwrap_or_empty place) m"
  "\<lambda>peer _. [peer]" sl_dm_policy sl_allowlist sl_group_policy sl_channel_allowlist sl_mention_mode
  by unfold_locales
    (auto simp: slack_message_goes_on_def slack_access_def slack_check_access_def
      split: dm_policy.splits group_policy.splits mention_mode.splits)

lemma teams_goes_on_iff:
  "teams_goes_on c team chan is_group chat peer m \<longleftrightarrow> policy_allowed c is_group chat peer \<and>
     (is_group \<longrightarrow> resolve_mention_mode c team chan = Always \<or> resolve_mention_mode c team chan = Mention \<and> m)"
  by (cases "resolve_mention_mode c team chan") (auto simp: teams_goes_on_def)

interpretation teams: channel_gate
  "\<lambda>(c, team, chan) is_dm peer user place m. teams_goes_on c team chan (\<not> is_dm) (unwrap_or_empty place) peer m"
  "\<lambda>peer _. [peer]" "\<lambda>(c, _). tc_dm_policy c" "\<lambda>(c, _). tc_allowlist c" "\<lambda>(c, _). tc_group_policy c"
  "\<lambda>(c, _). tc_group_allowlist c" "\<lambda>(c, team, chan). resolve_mention_mode c team chan"
  by unfold_locales
    (auto simp: teams_goes_on_iff policy_allowed_def split: dm_policy.splits group_policy.splits)

abbreviation sender_and_uuid :: "string \<Rightarrow> string option \<Rightarrow> string list" where
  "sender_and_uuid sender uuid \<equiv> sender # (case uuid of Some u \<Rightarrow> [u, ''uuid:'' @ u] | None \<Rightarrow> [])"

interpretation signal: channel_gate
  "\<lambda>c is_dm peer user place m. if is_dm then dm_access_allowed peer user c else signal_group_gate c (unwrap_or_empty place) m"
  sender_and_uuid sg_dm_policy sg_allowlist sg_group_policy sg_group_allowlist sg_mention_mode
  by unfold_locales
    (auto simp: dm_access_allowed_def identity_allowed_def signal_group_gate_def
      split: dm_policy.splits group_policy.splits mention_mode.splits option.splits)

text \<open>A reaction that starts a turn is on a message of the bot and comes from where a message could come from.\<close>

lemma slack_reaction_listed:
  assumes "slack_reaction_admits c own author user_id channel_id added emoji"
  shows "author = own \<and> own \<noteq> Some user_id \<and>
    (slack_is_dm channel_id \<longrightarrow> slack_admits c user_id channel_id m) \<and>
    (sl_mention_mode c = Always \<longrightarrow> slack_admits c user_id channel_id m)"
  using assms by (auto simp: slack_reaction_admits_def reaction_should_trigger_def slack_admits_def slack_message_goes_on_def Let_def)

lemma lower_star: "lower c = CHR ''*'' \<longleftrightarrow> c = CHR ''*''"
proof
  assume "lower c = CHR ''*''"
  then have "(of_char (lower c) :: nat) = 42" by simp
  then have "(of_char c :: nat) = 42"
    by (auto simp: lower_def Let_def split: if_splits)
  moreover have "char_of (42 :: nat) = CHR ''*''" by code_simp
  ultimately show "c = CHR ''*''" by (metis char_of_char)
qed (simp add: lower_def)

lemma star_to_lowercase: "CHR ''*'' \<in> set (to_lowercase e) \<longleftrightarrow> CHR ''*'' \<in> set e"
proof -
  have "CHR ''*'' = lower c \<longleftrightarrow> CHR ''*'' = c" for c
    using lower_star [of c] by metis
  then show ?thesis by (induction e) (simp_all add: to_lowercase_def)
qed

lemma last_to_lowercase: "e \<noteq> [] \<Longrightarrow> last (to_lowercase e) = CHR ''*'' \<longleftrightarrow> last e = CHR ''*''"
  using lower_star by (simp add: to_lowercase_def last_map)

lemma glob_allowed:
  assumes "e \<in> set allowlist" "glob (to_lowercase e) (to_lowercase x)" "CHR ''*'' \<notin> set e \<or> last e = CHR ''*''"
  shows "is_allowed x allowlist"
proof -
  have ne: "allowlist \<noteq> []" using assms(1) by auto
  have "if CHR ''*'' \<in> set (to_lowercase e) then glob_match_lower (to_lowercase e) (to_lowercase x)
      else to_lowercase e = to_lowercase x"
  proof (cases "CHR ''*'' \<in> set e")
    case True
    then have "last (to_lowercase e) = CHR ''*''" using assms(3) last_to_lowercase [of e] by (cases e) auto
    then show ?thesis using glob_match_complete [OF assms(2)] True star_to_lowercase by simp
  next
    case False
    then show ?thesis
      using assms(2) glob_literal [of "to_lowercase e" "[]" "to_lowercase x"]
      by (auto simp: star_to_lowercase prefix_def)
  qed
  with assms(1) show ?thesis unfolding is_allowed_Cons [OF ne] by (rule bexI [rotated])
qed

text \<open>The channel filter of Discord is a disjunction of the two lists, open when both are empty.\<close>

lemma channel_filter_iff:
  "channel_matches_filter config name cat \<longleftrightarrow>
     dc_channel_name_patterns config = [] \<and> dc_category_allowlist config = [] \<or>
     (\<exists>n. name = Some n \<and> dc_channel_name_patterns config \<noteq> [] \<and> is_allowed n (dc_channel_name_patterns config)) \<or>
     (\<exists>c. cat = Some c \<and> dc_category_allowlist config \<noteq> [] \<and> is_allowed c (dc_category_allowlist config))"
  by (auto simp: channel_matches_filter_def option_allowed_def split: option.splits)

lemma slack_admitted_is_listed:
  assumes "slack_admits sl peer chan m"
  shows "if slack_is_dm chan
      then sl_dm_policy sl = DmOpen \<or> sl_dm_policy sl = DmAllowlist \<and>
        (\<exists>n\<in>set ([peer]). \<exists>e\<in>set (sl_allowlist sl). glob (to_lowercase e) (to_lowercase n))
      else (sl_group_policy sl = GroupOpen \<or> sl_group_policy sl = GroupAllowlist \<and>
        (\<exists>e\<in>set (sl_channel_allowlist sl). glob (to_lowercase e) (to_lowercase chan))) \<and>
        sl_mention_mode sl \<noteq> NoMention \<and> (sl_mention_mode sl = Mention \<longrightarrow> m)"
  using slack.admitted_is_listed [where c = sl and is_dm = "slack_is_dm chan" and peer = peer and place = "Some chan" and m = m] assms
  by (cases "slack_is_dm chan") (simp_all add: slack_admits_def)

lemma teams_admitted_is_listed:
  assumes "teams_admits tc team room act chat peer"
  shows "if \<not> is_group_chat act
      then tc_dm_policy tc = DmOpen \<or> tc_dm_policy tc = DmAllowlist \<and>
        (\<exists>n\<in>set ([peer]). \<exists>e\<in>set (tc_allowlist tc). glob (to_lowercase e) (to_lowercase n))
      else (tc_group_policy tc = GroupOpen \<or> tc_group_policy tc = GroupAllowlist \<and>
        (\<exists>e\<in>set (tc_group_allowlist tc). glob (to_lowercase e) (to_lowercase chat))) \<and>
        resolve_mention_mode tc team room \<noteq> NoMention \<and> (resolve_mention_mode tc team room = Mention \<longrightarrow> bot_is_mentioned act)"
  using teams.admitted_is_listed [of "(tc, team, room)" "\<not> is_group_chat act" peer None "Some chat" "bot_is_mentioned act"] assms
  by (cases "is_group_chat act") (simp_all add: teams_admits_def)

lemma signal_admitted_is_listed:
  assumes "signal_admits sg peer uuid gid body mentions"
  shows "if gid = None
      then sg_dm_policy sg = DmOpen \<or> sg_dm_policy sg = DmAllowlist \<and>
        (\<exists>n\<in>set (sender_and_uuid peer uuid). \<exists>e\<in>set (sg_allowlist sg). glob (to_lowercase e) (to_lowercase n))
      else (sg_group_policy sg = GroupOpen \<or> sg_group_policy sg = GroupAllowlist \<and>
        (\<exists>e\<in>set (sg_group_allowlist sg). glob (to_lowercase e) (to_lowercase (unwrap_or_empty gid)))) \<and>
        sg_mention_mode sg \<noteq> NoMention \<and> (sg_mention_mode sg = Mention \<longrightarrow> signal_mentioned sg body mentions)"
  using signal.admitted_is_listed [where c = sg and is_dm = "gid = None" and peer = peer and user = uuid and place = gid
      and m = "signal_mentioned sg body mentions"] assms
  by (cases gid) (auto simp: signal_admits_def group_access_allowed_def split: option.splits)

section \<open>Properties\<close>

text \<open>An allowlist means its patterns. With a non-empty list, a name is let through only if some
  entry describes it, case ignored, with a star for any text; and for entries without a star or ending
  in one the matcher lets through everything they describe.\<close>

theorem allowlist_means_patterns:
  assumes "allowlist \<noteq> []"
  shows "(is_allowed x allowlist \<longrightarrow> (\<exists>e\<in>set allowlist. glob (to_lowercase e) (to_lowercase x))) \<and>
    ((\<forall>e\<in>set allowlist. CHR ''*'' \<notin> set e \<or> last e = CHR ''*'') \<longrightarrow>
       (is_allowed x allowlist \<longleftrightarrow> (\<exists>e\<in>set allowlist. glob (to_lowercase e) (to_lowercase x))))"
  using is_allowed_glob [OF _ assms] glob_allowed by blast

theorem allowlist_means_patterns_witness:
  "is_allowed ''Bob_7'' [''alice'', ''bob_*''] \<and> \<not> is_allowed ''bo'' [''alice'', ''bob_*''] \<and>
   (\<exists>e\<in>set [''alice'', ''bob_*'']. glob (to_lowercase e) (to_lowercase ''Bob_7'')) \<and>
   \<not> (\<exists>e\<in>set [''alice'', ''bob_*'']. glob (to_lowercase e) (to_lowercase ''bo''))"
proof -
  have "is_allowed ''Bob_7'' [''alice'', ''bob_*'']" "\<not> is_allowed ''bo'' [''alice'', ''bob_*'']"
    by code_simp+
  then show ?thesis
    using allowlist_means_patterns [of "[''alice'', ''bob_*'']" "''Bob_7''"]
      allowlist_means_patterns [of "[''alice'', ''bob_*'']" "''bo''"] by simp
qed

text \<open>C10: only listed people and groups reach the assistant. On Telegram, Discord, WhatsApp, Matrix, Slack, Teams
  and Signal, a message that passes the access check is a direct message under an open policy, or one whose
  sender, by an identifier or name the channel looks at, an allowlist entry describes, or a group message under
  an open policy or in a group an entry describes, and then only in the mention mode that answers it. An empty
  allowlist lets nobody through.\<close>

theorem admitted_senders_are_listed:
  "(telegram_check_access tg (if is_dm then Dm else Group) peer user place m = Inr () \<longrightarrow>
     (if is_dm
      then tg_dm_policy tg = DmOpen \<or> tg_dm_policy tg = DmAllowlist \<and>
        (\<exists>n\<in>set (peer_and_username peer user). \<exists>e\<in>set (tg_allowlist tg). glob (to_lowercase e) (to_lowercase n))
      else (tg_group_policy tg = GroupOpen \<or> tg_group_policy tg = GroupAllowlist \<and>
        (\<exists>e\<in>set (tg_group_allowlist tg). glob (to_lowercase e) (to_lowercase (unwrap_or_empty place)))) \<and>
        tg_mention_mode tg \<noteq> NoMention \<and> (tg_mention_mode tg = Mention \<longrightarrow> m))) \<and>
   (discord_check_access dc (if is_dm then Dm else Group) peer user place m = Inr () \<longrightarrow>
     (if is_dm
      then dc_dm_policy dc = DmOpen \<or> dc_dm_policy dc = DmAllowlist \<and>
        (\<exists>n\<in>set (peer_and_username peer user). \<exists>e\<in>set (dc_allowlist dc). glob (to_lowercase e) (to_lowercase n))
      else (dc_group_policy dc = GroupOpen \<or> dc_group_policy dc = GroupAllowlist \<and>
        (\<exists>e\<in>set (dc_guild_allowlist dc). glob (to_lowercase e) (to_lowercase (unwrap_or_empty place)))) \<and>
        dc_mention_mode dc \<noteq> NoMention \<and> (dc_mention_mode dc = Mention \<longrightarrow> m))) \<and>
   (whatsapp_check_access wa (\<not> is_dm) peer user place m = Inr () \<longrightarrow>
     (if is_dm
      then wa_dm_policy wa = DmOpen \<or> wa_dm_policy wa = DmAllowlist \<and>
        (\<exists>n\<in>set (peer_and_username peer user). \<exists>e\<in>set (wa_allowlist wa). glob (to_lowercase e) (to_lowercase n))
      else (wa_group_policy wa = GroupOpen \<or> wa_group_policy wa = GroupAllowlist \<and>
        (\<exists>e\<in>set (wa_group_allowlist wa). glob (to_lowercase e) (to_lowercase (unwrap_or_empty place)))) \<and>
        wa_mention_mode wa \<noteq> NoMention \<and> (wa_mention_mode wa = Mention \<longrightarrow> m))) \<and>
   (matrix_check_access mx (if is_dm then Dm else Group) peer (unwrap_or_empty place) m = Inr () \<longrightarrow>
     (if is_dm
      then mx_dm_policy mx = DmOpen \<or> mx_dm_policy mx = DmAllowlist \<and>
        (\<exists>n\<in>set ([peer]). \<exists>e\<in>set (mx_user_allowlist mx). glob (to_lowercase e) (to_lowercase n))
      else (mx_room_policy mx = GroupOpen \<or> mx_room_policy mx = GroupAllowlist \<and>
        (\<exists>e\<in>set (mx_room_allowlist mx). glob (to_lowercase e) (to_lowercase (unwrap_or_empty place)))) \<and>
        mx_mention_mode mx \<noteq> NoMention \<and> (mx_mention_mode mx = Mention \<longrightarrow> m))) \<and>
   (slack_admits sl peer chan m \<longrightarrow>
     (if slack_is_dm chan
      then sl_dm_policy sl = DmOpen \<or> sl_dm_policy sl = DmAllowlist \<and>
        (\<exists>n\<in>set ([peer]). \<exists>e\<in>set (sl_allowlist sl). glob (to_lowercase e) (to_lowercase n))
      else (sl_group_policy sl = GroupOpen \<or> sl_group_policy sl = GroupAllowlist \<and>
        (\<exists>e\<in>set (sl_channel_allowlist sl). glob (to_lowercase e) (to_lowercase chan))) \<and>
        sl_mention_mode sl \<noteq> NoMention \<and> (sl_mention_mode sl = Mention \<longrightarrow> m))) \<and>
   (teams_admits tc team room act chat peer \<longrightarrow>
     (if \<not> is_group_chat act
      then tc_dm_policy tc = DmOpen \<or> tc_dm_policy tc = DmAllowlist \<and>
        (\<exists>n\<in>set ([peer]). \<exists>e\<in>set (tc_allowlist tc). glob (to_lowercase e) (to_lowercase n))
      else (tc_group_policy tc = GroupOpen \<or> tc_group_policy tc = GroupAllowlist \<and>
        (\<exists>e\<in>set (tc_group_allowlist tc). glob (to_lowercase e) (to_lowercase chat))) \<and>
        resolve_mention_mode tc team room \<noteq> NoMention \<and> (resolve_mention_mode tc team room = Mention \<longrightarrow> bot_is_mentioned act))) \<and>
   (signal_admits sg peer uuid gid body mentions \<longrightarrow>
     (if gid = None
      then sg_dm_policy sg = DmOpen \<or> sg_dm_policy sg = DmAllowlist \<and>
        (\<exists>n\<in>set (sender_and_uuid peer uuid). \<exists>e\<in>set (sg_allowlist sg). glob (to_lowercase e) (to_lowercase n))
      else (sg_group_policy sg = GroupOpen \<or> sg_group_policy sg = GroupAllowlist \<and>
        (\<exists>e\<in>set (sg_group_allowlist sg). glob (to_lowercase e) (to_lowercase (unwrap_or_empty gid)))) \<and>
        sg_mention_mode sg \<noteq> NoMention \<and> (sg_mention_mode sg = Mention \<longrightarrow> signal_mentioned sg body mentions)))"
  by (intro conjI impI telegram.admitted_is_listed discord.admitted_is_listed whatsapp.admitted_is_listed
      matrix.admitted_is_listed slack_admitted_is_listed teams_admitted_is_listed signal_admitted_is_listed) assumption+

definition strict_telegram :: telegram_config where
  "strict_telegram = \<lparr>tg_dm_policy = DmAllowlist, tg_allowlist = [''alice*''], tg_group_policy = GroupDisabled,
     tg_group_allowlist = [], tg_mention_mode = Mention\<rparr>"

theorem admitted_senders_are_listed_witness:
  "telegram_check_access strict_telegram Dm ''42'' (Some ''Alice_B'') None False = Inr () \<and>
   (\<exists>n\<in>set (peer_and_username ''42'' (Some ''Alice_B'')). \<exists>e\<in>set (tg_allowlist strict_telegram).
      glob (to_lowercase e) (to_lowercase n))"
proof -
  have "telegram_check_access strict_telegram Dm ''42'' (Some ''Alice_B'') None False = Inr ()"
    by code_simp
  moreover have "tg_dm_policy strict_telegram = DmAllowlist" by (simp add: strict_telegram_def)
  ultimately show ?thesis
    using admitted_senders_are_listed [of strict_telegram True "''42''" "Some ''Alice_B''" None False] by simp
qed

section \<open>What the code does not do\<close>

text \<open>A group chat of Teams whose channel data name neither a team nor a channel is taken for a direct message: its
  members come under the policy for direct messages, and no mention is asked for.\<close>

lemma teams_group_chat_is_direct:
  assumes "ta_conversation_type a = Some ''groupChat''" "ta_channel_data a = Some (False, False)" "tc_dm_policy c = DmOpen"
  shows "teams_admits c team room a chat peer"
  using assms by (simp add: teams_admits_def teams_goes_on_def is_group_chat_def policy_allowed_def eq_ignore_ascii_case_def)

text \<open>Signal looks for its number anywhere in the text, so a longer number mentions it.\<close>

lemma longer_number_mentions:
  assumes "signal_account c = Some ''+1555''"
  shows "signal_mentioned c ''call +15551234'' None"
proof -
  have "contains_sub ''call +15551234'' ''+1555''" by code_simp
  then show ?thesis using assms by (simp add: signal_mentioned_def)
qed

end
