(* ===== verification/Otp.thy ===== *)
theory Otp
  imports Rust_Text
begin

text \<open>
  One-time codes for the self-approval of unknown senders, \<open>crates/channels/src/otp.rs\<close>: challenges,
  attempts, lockouts. The clock is an argument of every operation; the number drawn by the random
  generator is an argument of \<open>initiate\<close>. The two hash maps are association lists with one entry per
  peer (the listing iterates over them, in an order that is not specified). The functions that emit
  events to the sink are not modelled.
\<close>

section \<open>Data\<close>

definition OTP_TTL :: duration where "OTP_TTL = 300 * 1000"
definition MAX_ATTEMPTS :: nat where "MAX_ATTEMPTS = 3"

record otp_challenge =
  code :: string
  peer_id :: string
  username :: "string option"
  sender_name :: "string option"
  created_at :: instant
  expires_at :: instant
  attempts :: nat

record otp_state =
  challenges :: "(string \<times> otp_challenge) list"
  lockouts :: "(string \<times> instant) list"
  cooldown :: duration

datatype otp_init_result = Created string | AlreadyPending | InitLockedOut

datatype otp_verify_result = Approved | WrongCode nat | LockedOut | NoPending | Expired

record otp_challenge_info =
  info_peer_id :: string
  info_username :: "string option"
  info_sender_name :: "string option"
  info_code :: string
  info_expires_at :: int

definition new_otp :: "nat \<Rightarrow> otp_state" where
  "new_otp cooldown_secs = \<lparr>challenges = [], lockouts = [], cooldown = cooldown_secs * 1000\<rparr>"

definition set_cooldown :: "otp_state \<Rightarrow> nat \<Rightarrow> otp_state" where
  "set_cooldown s secs = s\<lparr>cooldown := secs * 1000\<rparr>"

section \<open>Operations\<close>

text \<open>A number drawn from \<open>100_000..1_000_000\<close>, as text.\<close>

definition generate_otp_code :: "nat \<Rightarrow> string" where
  "generate_otp_code draw = show_nat draw"

definition initiate ::
    "otp_state \<Rightarrow> string \<Rightarrow> string option \<Rightarrow> string option \<Rightarrow> instant \<Rightarrow> nat \<Rightarrow> otp_state \<times> otp_init_result" where
  "initiate s peer user name now draw =
     (let (s, locked) =
        (case map_of (lockouts s) peer of
           Some until \<Rightarrow>
             if now < until then (s, True) else (s\<lparr>lockouts := AList.delete peer (lockouts s)\<rparr>, False)
         | None \<Rightarrow> (s, False))
      in if locked then (s, InitLockedOut)
         else
           let (s, pending) =
             (case map_of (challenges s) peer of
                Some existing \<Rightarrow>
                  if now < expires_at existing then (s, True)
                  else (s\<lparr>challenges := AList.delete peer (challenges s)\<rparr>, False)
              | None \<Rightarrow> (s, False))
           in if pending then (s, AlreadyPending)
              else
                let c = generate_otp_code draw;
                    challenge = \<lparr>code = c, peer_id = peer, username = user, sender_name = name,
                      created_at = now, expires_at = instant_add now OTP_TTL, attempts = 0\<rparr>
                in (s\<lparr>challenges := AList.update peer challenge (challenges s)\<rparr>, Created c))"

definition verify :: "otp_state \<Rightarrow> string \<Rightarrow> string \<Rightarrow> instant \<Rightarrow> otp_state \<times> otp_verify_result" where
  "verify s peer guess now =
     (let (s, locked) =
        (case map_of (lockouts s) peer of
           Some until \<Rightarrow>
             if now < until then (s, True) else (s\<lparr>lockouts := AList.delete peer (lockouts s)\<rparr>, False)
         | None \<Rightarrow> (s, False))
      in if locked then (s, LockedOut)
         else
           (case map_of (challenges s) peer of
              None \<Rightarrow> (s, NoPending)
            | Some challenge \<Rightarrow>
                if expires_at challenge \<le> now
                then (s\<lparr>challenges := AList.delete peer (challenges s)\<rparr>, Expired)
                else if code challenge = guess
                then (s\<lparr>challenges := AList.delete peer (challenges s)\<rparr>, Approved)
                else
                  let n = attempts challenge + 1 in
                  if MAX_ATTEMPTS \<le> n
                  then (s\<lparr>challenges := AList.delete peer (challenges s),
                          lockouts := AList.update peer (instant_add now (cooldown s)) (lockouts s)\<rparr>, LockedOut)
                  else (s\<lparr>challenges := AList.update peer (challenge\<lparr>attempts := n\<rparr>) (challenges s)\<rparr>,
                        WrongCode (MAX_ATTEMPTS - n))))"

definition has_pending :: "otp_state \<Rightarrow> string \<Rightarrow> instant \<Rightarrow> bool" where
  "has_pending s peer now = (case map_of (challenges s) peer of Some c \<Rightarrow> now < expires_at c | None \<Rightarrow> False)"

definition is_locked_out :: "otp_state \<Rightarrow> string \<Rightarrow> instant \<Rightarrow> bool" where
  "is_locked_out s peer now = (case map_of (lockouts s) peer of Some until \<Rightarrow> now < until | None \<Rightarrow> False)"

text \<open>\<open>epoch_ms\<close> is the system clock at the same moment; a time before the epoch gives 0.\<close>

definition list_pending :: "otp_state \<Rightarrow> instant \<Rightarrow> int \<Rightarrow> otp_challenge_info list" where
  "list_pending s now epoch_ms =
     map (\<lambda>c. let remaining = duration_since (expires_at c) now;
                 t = epoch_ms + int remaining
             in \<lparr>info_peer_id = peer_id c, info_username = username c, info_sender_name = sender_name c,
                 info_code = code c, info_expires_at = (if 0 \<le> t then t div 1000 else 0)\<rparr>)
       (filter (\<lambda>c. now < expires_at c) (map snd (challenges s)))"

definition evict_expired :: "otp_state \<Rightarrow> instant \<Rightarrow> otp_state" where
  "evict_expired s now =
     s\<lparr>challenges := alist_retain (\<lambda>c. now < expires_at c) (challenges s),
       lockouts := alist_retain (\<lambda>until. now < until) (lockouts s)\<rparr>"

section \<open>Runs\<close>

datatype otp_op =
    Initiate string "string option" "string option" nat
  | Verify string string
  | SetCooldown nat
  | Evict

text \<open>An operation and the time it happens; what the caller of \<open>verify\<close> and \<open>initiate\<close> sees.\<close>

type_synonym otp_event = "instant \<times> otp_op"

datatype otp_output = Init otp_init_result | Verified otp_verify_result | NoOutput

fun otp_step :: "otp_state \<Rightarrow> otp_event \<Rightarrow> otp_state \<times> otp_output" where
  "otp_step s (now, Initiate peer user name draw) = apsnd Init (initiate s peer user name now draw)"
| "otp_step s (now, Verify peer guess) = apsnd Verified (verify s peer guess now)"
| "otp_step s (now, SetCooldown secs) = (set_cooldown s secs, NoOutput)"
| "otp_step s (now, Evict) = (evict_expired s now, NoOutput)"

fun otp_run :: "otp_state \<Rightarrow> otp_event list \<Rightarrow> otp_state \<times> (otp_event \<times> otp_output) list" where
  "otp_run s [] = (s, [])"
| "otp_run s (e # es) =
     (let (s', out) = otp_step s e; (s'', outs) = otp_run s' es in (s'', (e, out) # outs))"

section \<open>The invariant\<close>

definition otp_inv :: "otp_state \<Rightarrow> bool" where
  "otp_inv s \<longleftrightarrow> distinct_keys (challenges s) \<and> distinct_keys (lockouts s) \<and>
     (\<forall>p c. map_of (challenges s) p = Some c \<longrightarrow>
        peer_id c = p \<and> attempts c < MAX_ATTEMPTS \<and> map_of (lockouts s) p = None)"

text \<open>What the next operations do to the entries, as maps.\<close>

abbreviation challenge_of :: "otp_state \<Rightarrow> string \<rightharpoonup> otp_challenge" where
  "challenge_of s \<equiv> map_of (challenges s)"

abbreviation lockout_of :: "otp_state \<Rightarrow> string \<rightharpoonup> instant" where
  "lockout_of s \<equiv> map_of (lockouts s)"

lemma map_of_delete [map_upd]: "map_of (AList.delete k al) = (map_of al)(k := None)"
  by (rule AList.delete_conv')

lemma map_of_update [map_upd]: "map_of (AList.update k v al) = (map_of al)(k \<mapsto> v)"
  by (rule update_conv')

lemma delete_absent: "map_of al k = None \<Longrightarrow> AList.delete k al = al"
  by (force simp: AList.delete_eq map_of_eq_None_iff filter_id_conv)

text \<open>The two operations by the state of the peer.\<close>

lemma initiate_cases:
  assumes "otp_inv s"
  obtains (locked) u where "lockout_of s p = Some u" "now < u" "initiate s p user name now draw = (s, InitLockedOut)"
  | (pending) c where "lockout_of s p = None" "challenge_of s p = Some c" "now < expires_at c"
      "initiate s p user name now draw = (s, AlreadyPending)"
  | (created) s' where "initiate s p user name now draw = (s', Created (generate_otp_code draw))"
      "otp_inv s'" "cooldown s' = cooldown s" "lockout_of s' = (lockout_of s)(p := None)"
      "challenge_of s' = (challenge_of s)(p \<mapsto> \<lparr>code = generate_otp_code draw, peer_id = p, username = user,
         sender_name = name, created_at = now, expires_at = instant_add now OTP_TTL, attempts = 0\<rparr>)"
proof -
  let ?c = "\<lparr>code = generate_otp_code draw, peer_id = p, username = user,
         sender_name = name, created_at = now, expires_at = instant_add now OTP_TTL, attempts = 0\<rparr>"
  let ?s = "s\<lparr>lockouts := AList.delete p (lockouts s),
              challenges := AList.update p ?c (AList.delete p (challenges s))\<rparr>"
  have inv: "otp_inv ?s"
    using assms by (auto simp: otp_inv_def map_upd MAX_ATTEMPTS_def split: if_splits)
  have maps: "lockout_of ?s = (lockout_of s)(p := None)" "challenge_of ?s = (challenge_of s)(p \<mapsto> ?c)"
    by (simp_all add: map_upd)
  consider (l) u where "lockout_of s p = Some u" "now < u"
    | (n) "\<forall>u. lockout_of s p = Some u \<longrightarrow> \<not> now < u" by blast
  then show thesis
  proof cases
    case l
    then have "initiate s p user name now draw = (s, InitLockedOut)"
      by (simp add: initiate_def)
    with l show thesis by (rule locked)
  next
    case n
    show thesis
    proof (cases "\<exists>c. challenge_of s p = Some c \<and> now < expires_at c")
      case True
      then obtain c where c: "challenge_of s p = Some c" "now < expires_at c" by blast
      moreover have "lockout_of s p = None" using assms c by (auto simp: otp_inv_def)
      moreover then have "initiate s p user name now draw = (s, AlreadyPending)"
        using c by (simp add: initiate_def)
      ultimately show thesis by (intro pending)
    next
      case False
      have "initiate s p user name now draw = (?s, Created (generate_otp_code draw))"
        using n False delete_absent [of "lockouts s" p] delete_absent [of "challenges s" p]
        by (cases "lockout_of s p"; cases "challenge_of s p") (auto simp: initiate_def Let_def)
      then show thesis using inv maps by (intro created [of ?s]) simp_all
    qed
  qed
qed

lemma verify_cases:
  assumes "otp_inv s"
  obtains (locked) u where "lockout_of s p = Some u" "now < u" "verify s p g now = (s, LockedOut)"
  | (gone) s' r where "verify s p g now = (s', r)" "r \<in> {NoPending, Expired}" "otp_inv s'" "cooldown s' = cooldown s"
      "lockout_of s' = (lockout_of s)(p := None)" "challenge_of s' = (challenge_of s)(p := None)"
  | (approved) s' c where "challenge_of s p = Some c" "now < expires_at c" "code c = g"
      "verify s p g now = (s', Approved)" "otp_inv s'" "cooldown s' = cooldown s"
      "lockout_of s' = lockout_of s" "challenge_of s' = (challenge_of s)(p := None)"
  | (third) s' c where "challenge_of s p = Some c" "now < expires_at c" "code c \<noteq> g" "attempts c + 1 = MAX_ATTEMPTS"
      "verify s p g now = (s', LockedOut)" "otp_inv s'" "cooldown s' = cooldown s"
      "lockout_of s' = (lockout_of s)(p \<mapsto> instant_add now (cooldown s))"
      "challenge_of s' = (challenge_of s)(p := None)"
  | (wrong) s' c where "challenge_of s p = Some c" "now < expires_at c" "code c \<noteq> g" "attempts c + 1 < MAX_ATTEMPTS"
      "verify s p g now = (s', WrongCode (MAX_ATTEMPTS - (attempts c + 1)))" "otp_inv s'" "cooldown s' = cooldown s"
      "lockout_of s' = lockout_of s" "challenge_of s' = (challenge_of s)(p \<mapsto> c\<lparr>attempts := attempts c + 1\<rparr>)"
proof (cases "\<exists>u. lockout_of s p = Some u \<and> now < u")
  case True
  then obtain u where u: "lockout_of s p = Some u" "now < u" by blast
  then have "verify s p g now = (s, LockedOut)" by (simp add: verify_def)
  with u show thesis by (rule locked)
next
  case nl: False
  let ?s = "s\<lparr>lockouts := AList.delete p (lockouts s)\<rparr>"
  have inv: "otp_inv ?s" using assms by (auto simp: otp_inv_def map_upd split: if_splits)
  have v: "verify s p g now =
      (case challenge_of s p of
         None \<Rightarrow> (?s, NoPending)
       | Some c \<Rightarrow>
           if expires_at c \<le> now then (?s\<lparr>challenges := AList.delete p (challenges s)\<rparr>, Expired)
           else if code c = g then (?s\<lparr>challenges := AList.delete p (challenges s)\<rparr>, Approved)
           else if MAX_ATTEMPTS \<le> attempts c + 1
           then (?s\<lparr>challenges := AList.delete p (challenges s),
                   lockouts := AList.update p (instant_add now (cooldown s)) (lockouts ?s)\<rparr>, LockedOut)
           else (?s\<lparr>challenges := AList.update p (c\<lparr>attempts := attempts c + 1\<rparr>) (challenges s)\<rparr>,
                 WrongCode (MAX_ATTEMPTS - (attempts c + 1))))"
    using nl delete_absent [of "lockouts s" p]
    by (cases "lockout_of s p"; cases "challenge_of s p") (auto simp: verify_def Let_def)
  have del: "otp_inv (?s\<lparr>challenges := AList.delete p (challenges s)\<rparr>)"
    using assms by (auto simp: otp_inv_def map_upd split: if_splits)
  show thesis
  proof (cases "challenge_of s p")
    case None
    with v inv show thesis by (intro gone [of ?s NoPending]) (auto simp: map_upd)
  next
    case (Some c)
    have nlock: "lockout_of s p = None" and at: "attempts c < MAX_ATTEMPTS" using assms Some by (auto simp: otp_inv_def)
    then have ls: "(lockout_of s)(p := None) = lockout_of s" by auto
    consider (ex) "expires_at c \<le> now" | (ap) "now < expires_at c" "code c = g"
      | (th) "now < expires_at c" "code c \<noteq> g" "attempts c + 1 = MAX_ATTEMPTS"
      | (wr) "now < expires_at c" "code c \<noteq> g" "attempts c + 1 < MAX_ATTEMPTS"
      using at by linarith
    then show thesis
    proof cases
      case ex
      with v Some del show thesis
        by (intro gone [of "?s\<lparr>challenges := AList.delete p (challenges s)\<rparr>" Expired]) (auto simp: map_upd)
    next
      case ap
      with v Some del ls show thesis
        by (intro approved [of c "?s\<lparr>challenges := AList.delete p (challenges s)\<rparr>"]) (auto simp: map_upd)
    next
      case th
      let ?t = "?s\<lparr>challenges := AList.delete p (challenges s),
          lockouts := AList.update p (instant_add now (cooldown s)) (lockouts ?s)\<rparr>"
      have "otp_inv ?t" using assms by (auto simp: otp_inv_def map_upd split: if_splits)
      with th v Some show thesis by (intro third [of c ?t]) (auto simp: map_upd)
    next
      case wr
      let ?t = "?s\<lparr>challenges := AList.update p (c\<lparr>attempts := attempts c + 1\<rparr>) (challenges s)\<rparr>"
      have "otp_inv ?t" using assms wr Some nlock by (auto simp: otp_inv_def map_upd split: if_splits)
      with wr v Some ls show thesis by (intro wrong [of c ?t]) (auto simp: map_upd)
    qed
  qed
qed

lemma otp_inv_evict: "otp_inv s \<Longrightarrow> otp_inv (evict_expired s now)"
  by (auto simp: otp_inv_def evict_expired_def map_of_alist_retain map_retain_None)

lemma otp_inv_step:
  assumes "otp_inv s"
  shows "otp_inv (fst (otp_step s e))"
proof -
  obtain now a where e: "e = (now, a)" by (cases e)
  show ?thesis
  proof (cases a)
    case (Initiate p user name draw)
    show ?thesis
      by (rule initiate_cases [OF assms, of p now user name draw]) (use assms e Initiate in auto)
  next
    case (Verify p g)
    show ?thesis
      by (rule verify_cases [OF assms, of p now g]) (use assms e Verify in auto)
  next
    case Evict
    then show ?thesis using otp_inv_evict [OF assms] e by simp
  qed (use assms e in \<open>simp add: set_cooldown_def otp_inv_def\<close>)
qed

interpretation otp: event_machine "\<lambda>s e. fst (otp_step s e)" "\<lambda>_ _. True" otp_inv
  by unfold_locales (rule otp_inv_step)

lemma fst_otp_run: "fst (otp_run s es) = foldl (\<lambda>s e. fst (otp_step s e)) s es"
  by (induction es arbitrary: s) (simp_all add: Let_def case_prod_unfold)

lemma new_otp_inv: "otp_inv (new_otp secs)"
  by (simp add: otp_inv_def new_otp_def)

lemma otp_inv_run: "otp_inv s \<Longrightarrow> otp_inv (fst (otp_run s es))"
  unfolding fst_otp_run by (rule otp.inv_run) simp_all

lemma otp_run_snoc:
  "otp_run s (es @ [e]) =
     (let (s', outs) = otp_run s es; (s'', out) = otp_step s' e in (s'', outs @ [(e, out)]))"
  by (induction es arbitrary: s) (auto simp: Let_def split: prod.splits)

section \<open>The life of a challenge\<close>

text \<open>The events of one peer, and the life of a code: issued, then only wrong guesses.\<close>

fun concerns :: "string \<Rightarrow> otp_event \<times> otp_output \<Rightarrow> bool" where
  "concerns p ((now, Initiate q _ _ _), _) = (q = p)"
| "concerns p ((now, Verify q _), _) = (q = p)"
| "concerns p _ = False"

fun wrong_guess :: "string \<Rightarrow> otp_event \<times> otp_output \<Rightarrow> bool" where
  "wrong_guess p ((now, Verify q g), Verified (WrongCode n)) = (q = p)"
| "wrong_guess p _ = False"

definition harmless :: "string \<Rightarrow> otp_event \<times> otp_output \<Rightarrow> bool" where
  "harmless p x \<longleftrightarrow> (concerns p x \<longrightarrow> wrong_guess p x \<or> snd x = Init AlreadyPending)"

definition issued_before :: "string \<Rightarrow> otp_challenge \<Rightarrow> (otp_event \<times> otp_output) list \<Rightarrow> bool" where
  "issued_before p c outs \<longleftrightarrow>
     (\<exists>xs ys user name draw. outs = xs @ ((created_at c, Initiate p user name draw), Init (Created (code c))) # ys \<and>
        list_all (harmless p) ys \<and> length (filter (wrong_guess p) ys) = attempts c \<and>
        expires_at c = instant_add (created_at c) OTP_TTL)"

lemma issued_before_snoc:
  "issued_before p c outs \<Longrightarrow> harmless p x \<Longrightarrow> \<not> wrong_guess p x \<Longrightarrow> issued_before p c (outs @ [x])"
  unfolding issued_before_def by fastforce

lemma issued_before_wrong:
  "issued_before p c outs \<Longrightarrow> wrong_guess p x \<Longrightarrow> issued_before p (c\<lparr>attempts := attempts c + 1\<rparr>) (outs @ [x])"
  unfolding issued_before_def by (fastforce simp: harmless_def)

lemma not_concerned: "\<not> concerns p x \<Longrightarrow> harmless p x \<and> \<not> wrong_guess p x"
  by (cases "(p, x)" rule: wrong_guess.cases) (auto simp: harmless_def)

lemma step_other:
  assumes "otp_inv s" "\<not> concerns p (e, snd (otp_step s e))" "challenge_of (fst (otp_step s e)) p = Some c"
  shows "challenge_of s p = Some c"
proof -
  obtain now a where e: "e = (now, a)" by (cases e)
  show ?thesis
  proof (cases a)
    case (Initiate q user name draw)
    show ?thesis
      by (rule initiate_cases [OF assms(1), of q now user name draw])
        (use assms(2,3) e Initiate in \<open>auto split: if_splits\<close>)
  next
    case (Verify q g)
    show ?thesis
      by (rule verify_cases [OF assms(1), of q now g]) (use assms(2,3) e Verify in \<open>auto split: if_splits\<close>)
  next
    case Evict
    have "distinct_keys (challenges s)" using assms(1) by (simp add: otp_inv_def)
    with Evict assms(3) e show ?thesis by (simp add: evict_expired_def map_of_alist_retain)
  qed (use assms(3) e in \<open>simp add: set_cooldown_def\<close>)
qed

lemma challenge_issued:
  "challenge_of (fst (otp_run (new_otp secs) es)) p = Some c \<Longrightarrow>
   issued_before p c (snd (otp_run (new_otp secs) es))"
proof (induction es arbitrary: c rule: rev_induct)
  case Nil
  then show ?case by (simp add: new_otp_def)
next
  case (snoc e es)
  let ?s = "fst (otp_run (new_otp secs) es)" and ?outs = "snd (otp_run (new_otp secs) es)"
  have inv: "otp_inv ?s" using otp_inv_run new_otp_inv by blast
  have run: "fst (otp_run (new_otp secs) (es @ [e])) = fst (otp_step ?s e)"
    "snd (otp_run (new_otp secs) (es @ [e])) = ?outs @ [(e, snd (otp_step ?s e))]"
    by (simp_all add: otp_run_snoc Let_def case_prod_unfold)
  have c: "challenge_of (fst (otp_step ?s e)) p = Some c" using snoc.prems run by simp
  obtain now a where e: "e = (now, a)" by (cases e)
  show ?case
  proof (cases "concerns p (e, snd (otp_step ?s e))")
    case False
    then have "issued_before p c ?outs" using step_other [OF inv _ c] snoc.IH by blast
    then show ?thesis unfolding run using not_concerned [OF False] issued_before_snoc by blast
  next
    case True
    then consider (init) user name draw where "a = Initiate p user name draw" | (ver) g where "a = Verify p g"
      unfolding e by (cases a) auto
    then show ?thesis
    proof cases
      case init
      show ?thesis
      proof (rule initiate_cases [OF inv, of p now user name draw])
        fix c' assume r: "challenge_of ?s p = Some c'" "initiate ?s p user name now draw = (?s, AlreadyPending)"
        then have "issued_before p c ?outs" using snoc.IH c init e by simp
        then show ?thesis
          unfolding run using r init e by (intro issued_before_snoc) (auto simp: harmless_def)
      next
        fix u assume "lockout_of ?s p = Some u" "initiate ?s p user name now draw = (?s, InitLockedOut)"
        then show ?thesis using inv c init e by (auto simp: otp_inv_def)
      next
        fix s' assume r: "initiate ?s p user name now draw = (s', Created (generate_otp_code draw))"
          "challenge_of s' = (challenge_of ?s)(p \<mapsto> \<lparr>code = generate_otp_code draw, peer_id = p, username = user,
         sender_name = name, created_at = now, expires_at = instant_add now OTP_TTL, attempts = 0\<rparr>)"
        then have "c = \<lparr>code = generate_otp_code draw, peer_id = p, username = user,
         sender_name = name, created_at = now, expires_at = instant_add now OTP_TTL, attempts = 0\<rparr>"
          using c init e by simp
        then show ?thesis unfolding run issued_before_def using r init e by fastforce
      qed
    next
      case ver
      show ?thesis
      proof (rule verify_cases [OF inv, of p now g])
        fix u assume "lockout_of ?s p = Some u" "verify ?s p g now = (?s, LockedOut)"
        then show ?thesis using inv c ver e by (auto simp: otp_inv_def)
      next
        fix s' c' assume r: "challenge_of ?s p = Some c'" "challenge_of s' = (challenge_of ?s)(p \<mapsto> c'\<lparr>attempts := attempts c' + 1\<rparr>)"
          "verify ?s p g now = (s', WrongCode (MAX_ATTEMPTS - (attempts c' + 1)))"
        then have "c = c'\<lparr>attempts := attempts c' + 1\<rparr>" using c ver e by simp
        then show ?thesis unfolding run using issued_before_wrong [OF snoc.IH [OF r(1)]] r ver e by simp
      qed (use c ver e in auto)
    qed
  qed
qed

section \<open>A lockout holds\<close>

lemma otp_locked_step:
  assumes "otp_inv s" "lockout_of s p = Some u" "fst e < u"
  shows "lockout_of (fst (otp_step s e)) p = Some u \<and>
    (\<forall>user name draw. snd e = Initiate p user name draw \<longrightarrow> snd (otp_step s e) = Init InitLockedOut) \<and>
    (\<forall>g. snd e = Verify p g \<longrightarrow> snd (otp_step s e) = Verified LockedOut)"
proof -
  obtain now a where e: "e = (now, a)" by (cases e)
  have nc: "challenge_of s p = None"
    using assms(1,2) by (cases "challenge_of s p") (auto simp: otp_inv_def)
  show ?thesis
  proof (cases a)
    case (Initiate q user name draw)
    show ?thesis
      by (rule initiate_cases [OF assms(1), of q now user name draw]) (use assms e Initiate in \<open>auto simp: initiate_def\<close>)
  next
    case (Verify q g)
    show ?thesis
      by (rule verify_cases [OF assms(1), of q now g]) (use assms nc e Verify in \<open>auto simp: verify_def\<close>)
  next
    case Evict
    have "distinct_keys (lockouts s)" using assms(1) by (simp add: otp_inv_def)
    with Evict assms e show ?thesis by (simp add: evict_expired_def map_of_alist_retain)
  qed (use assms e in \<open>simp add: set_cooldown_def\<close>)
qed

lemma locked_run:
  "otp_inv s \<Longrightarrow> lockout_of s p = Some u \<Longrightarrow> list_all (\<lambda>e. fst e < u) es \<Longrightarrow>
   (e, out) \<in> set (snd (otp_run s es)) \<Longrightarrow>
   (\<forall>user name draw. snd e = Initiate p user name draw \<longrightarrow> out = Init InitLockedOut) \<and>
   (\<forall>g. snd e = Verify p g \<longrightarrow> out = Verified LockedOut)"
proof (induction es arbitrary: s)
  case Nil
  then show ?case by simp
next
  case (Cons e' es)
  have st: "lockout_of (fst (otp_step s e')) p = Some u"
    "(\<forall>user name draw. snd e' = Initiate p user name draw \<longrightarrow> snd (otp_step s e') = Init InitLockedOut) \<and>
     (\<forall>g. snd e' = Verify p g \<longrightarrow> snd (otp_step s e') = Verified LockedOut)"
    using otp_locked_step [OF Cons.prems(1,2), of e'] Cons.prems(3) by auto
  have "(e, out) = (e', snd (otp_step s e')) \<or> (e, out) \<in> set (snd (otp_run (fst (otp_step s e')) es))"
    using Cons.prems(4) by (auto simp: Let_def case_prod_unfold)
  then show ?case
    using Cons.IH [OF otp_inv_step [OF Cons.prems(1)] st(1)] Cons.prems(3) st(2) by auto
qed

definition demo_challenge :: "nat \<Rightarrow> otp_challenge" where
  "demo_challenge n = \<lparr>code = ''123456'', peer_id = ''p'', username = None, sender_name = None,
     created_at = 0, expires_at = 300000, attempts = n\<rparr>"

abbreviation demo_state :: "nat \<Rightarrow> otp_state" where
  "demo_state n \<equiv> \<lparr>challenges = [(''p'', demo_challenge n)], lockouts = [], cooldown = 60000\<rparr>"

lemma demo_initiate: "initiate (new_otp 60) ''p'' None None 0 123456 = (demo_state 0, Created ''123456'')"
proof -
  have "char_of (49 :: nat) = CHR ''1''" "char_of (50 :: nat) = CHR ''2''" "char_of (51 :: nat) = CHR ''3''"
    "char_of (52 :: nat) = CHR ''4''" "char_of (53 :: nat) = CHR ''5''" "char_of (54 :: nat) = CHR ''6''"
    by code_simp+
  then have c: "show_nat 123456 = ''123456''" by (simp add: show_nat.simps)
  show ?thesis
    by (simp add: initiate_def new_otp_def generate_otp_code_def c demo_challenge_def OTP_TTL_def instant_add_def Let_def)
qed

lemma demo_verify:
  assumes "t < 300000"
  shows "verify (demo_state n) ''p'' ''123456'' t = (\<lparr>challenges = [], lockouts = [], cooldown = 60000\<rparr>, Approved)"
    and "g \<noteq> ''123456'' \<Longrightarrow> n + 1 < MAX_ATTEMPTS \<Longrightarrow>
      verify (demo_state n) ''p'' g t = (demo_state (n + 1), WrongCode (MAX_ATTEMPTS - (n + 1)))"
    and "g \<noteq> ''123456'' \<Longrightarrow> MAX_ATTEMPTS \<le> n + 1 \<Longrightarrow>
      verify (demo_state n) ''p'' g t = (\<lparr>challenges = [], lockouts = [(''p'', t + 60000)], cooldown = 60000\<rparr>, LockedOut)"
  using assms by (auto simp: verify_def demo_challenge_def instant_add_def)

lemma verify_approved:
  assumes "otp_inv s" "snd (verify s p g now) = Approved"
  shows "\<exists>c. challenge_of s p = Some c \<and> now < expires_at c \<and> code c = g \<and> attempts c < MAX_ATTEMPTS"
proof (rule verify_cases [OF assms(1), of p now g])
  fix s' c
  assume "challenge_of s p = Some c" "now < expires_at c" "code c = g"
  then show ?thesis using assms(1) by (auto simp: otp_inv_def)
qed (use assms(2) in auto)

lemma evict_keeps_view:
  assumes "otp_inv s" "now \<le> t"
  shows "has_pending (evict_expired s now) p t = has_pending s p t \<and>
    is_locked_out (evict_expired s now) p t = is_locked_out s p t"
proof -
  have "distinct_keys (challenges s)" "distinct_keys (lockouts s)"
    using assms(1) by (simp_all add: otp_inv_def)
  with assms(2) show ?thesis
    by (auto simp: has_pending_def is_locked_out_def evict_expired_def map_of_alist_retain map_retain_def
        split: option.splits)
qed

section \<open>Properties\<close>

text \<open>C11: a stranger is approved only with the code that was issued for them. In every run, when a reply
  is approved, the bot had issued exactly that code to that peer less than five minutes before, and in
  between the peer made at most two guesses, all wrong, and was never locked out.\<close>

theorem approved_only_with_issued_code:
  assumes "snd (otp_run (new_otp secs) es) = outs @ [((now, Verify p g), Verified Approved)]"
  shows "\<exists>xs ys t0 user name draw.
    outs = xs @ ((t0, Initiate p user name draw), Init (Created g)) # ys \<and>
    now < instant_add t0 OTP_TTL \<and>
    length (filter (wrong_guess p) ys) < MAX_ATTEMPTS \<and>
    (\<forall>x\<in>set ys. concerns p x \<longrightarrow> wrong_guess p x \<or> snd x = Init AlreadyPending)"
proof -
  from assms obtain ds e where es: "es = ds @ [e]"
    by (cases es rule: rev_cases) simp_all
  let ?s = "fst (otp_run (new_otp secs) ds)"
  have outs: "outs = snd (otp_run (new_otp secs) ds)" and e: "e = (now, Verify p g)"
    and v: "snd (otp_step ?s e) = Verified Approved"
    using assms by (auto simp: es otp_run_snoc Let_def case_prod_unfold)
  have inv: "otp_inv ?s" using otp_inv_run new_otp_inv by blast
  have "snd (verify ?s p g now) = Approved" using v e by simp
  then obtain c where c: "challenge_of ?s p = Some c" "now < expires_at c" "code c = g" "attempts c < MAX_ATTEMPTS"
    using verify_approved [OF inv] by blast
  obtain xs ys user name draw where
    "outs = xs @ ((created_at c, Initiate p user name draw), Init (Created g)) # ys"
    "list_all (harmless p) ys" "length (filter (wrong_guess p) ys) = attempts c"
    "expires_at c = instant_add (created_at c) OTP_TTL"
    using challenge_issued [OF c(1)] c(3) unfolding outs issued_before_def by blast
  with c show ?thesis
    by (intro exI [of _ xs] exI [of _ ys] exI [of _ "created_at c"] exI [of _ user] exI [of _ name] exI [of _ draw])
      (auto simp: list_all_iff harmless_def)
qed

theorem approved_only_with_issued_code_witness:
  "let outs = [((0, Initiate ''p'' None None 123456), Init (Created ''123456'')),
      ((5, Verify ''p'' ''999999''), Verified (WrongCode 2))] in
   \<exists>xs ys t0 user name draw.
    outs = xs @ ((t0, Initiate ''p'' user name draw), Init (Created ''123456'')) # ys \<and>
    9 < instant_add t0 OTP_TTL \<and>
    length (filter (wrong_guess ''p'') ys) < MAX_ATTEMPTS \<and>
    (\<forall>x\<in>set ys. concerns ''p'' x \<longrightarrow> wrong_guess ''p'' x \<or> snd x = Init AlreadyPending)"
proof -
  have "snd (otp_run (new_otp 60) [(0, Initiate ''p'' None None 123456), (5, Verify ''p'' ''999999''), (9, Verify ''p'' ''123456'')]) =
     [((0, Initiate ''p'' None None 123456), Init (Created ''123456'')),
      ((5, Verify ''p'' ''999999''), Verified (WrongCode 2))] @ [((9, Verify ''p'' ''123456''), Verified Approved)]"
    using demo_verify(1) [of 9 1] demo_verify(2) [of 5 "''999999''" 0]
    by (simp add: demo_initiate MAX_ATTEMPTS_def)
  from approved_only_with_issued_code [OF this] show ?thesis by (simp only: Let_def)
qed

text \<open>Guessing is cut off. The wrong reply that exhausts the attempts removes the code and locks the
  peer out; until the cooldown is over every reply of that peer is refused and no new code is issued to
  them, whatever other peers, evictions and changes of the cooldown come in between.\<close>

theorem lockout_stops_guessing:
  assumes "s = fst (otp_run (new_otp secs) ds)" "\<not> is_locked_out s p t"
    and "verify s p g t = (s', LockedOut)" "list_all (\<lambda>e. fst e < instant_add t (cooldown s)) es"
    and "(e, out) \<in> set (snd (otp_run s' es))"
  shows "(\<forall>user name draw. snd e = Initiate p user name draw \<longrightarrow> out = Init InitLockedOut) \<and>
    (\<forall>g. snd e = Verify p g \<longrightarrow> out = Verified LockedOut)"
proof -
  have inv: "otp_inv s" using assms(1) otp_inv_run new_otp_inv by blast
  have "lockout_of s' p = Some (instant_add t (cooldown s)) \<and> otp_inv s'"
    by (rule verify_cases [OF inv, of p t g]) (use assms(2,3) in \<open>auto simp: is_locked_out_def\<close>)
  with locked_run [of s' p _ es e out] assms(4,5) show ?thesis by blast
qed

theorem lockout_stops_guessing_witness:
  "let s = fst (otp_run (new_otp 60) [(0, Initiate ''p'' None None 123456), (1, Verify ''p'' ''a''), (2, Verify ''p'' ''b'')]);
       s' = fst (verify s ''p'' ''c'' 3) in
   snd (verify s ''p'' ''c'' 3) = LockedOut \<and>
   ((59000, Verify ''p'' ''123456''), Verified LockedOut) \<in> set (snd (otp_run s' [(59000, Verify ''p'' ''123456'')])) \<and>
   (\<forall>g. Verify ''p'' ''123456'' = Verify ''p'' g \<longrightarrow> Verified LockedOut = Verified LockedOut)"
proof -
  let ?ds = "[(0, Initiate ''p'' None None 123456), (1, Verify ''p'' ''a''), (2, Verify ''p'' ''b'')]"
  let ?s = "fst (otp_run (new_otp 60) ?ds)" and ?es = "[(59000, Verify ''p'' ''123456'')]"
  have ds: "?s = demo_state 2"
    using demo_verify(2) [of 1 "''a''" 0] demo_verify(2) [of 2 "''b''" 1]
    by (simp add: demo_initiate MAX_ATTEMPTS_def numeral_2_eq_2)
  obtain s' where s': "verify ?s ''p'' ''c'' 3 = (s', LockedOut)"
    unfolding ds using demo_verify(3) [of 3 "''c''" 2] by (simp add: MAX_ATTEMPTS_def)
  have nl: "\<not> is_locked_out ?s ''p'' 3" and cd: "cooldown ?s = 60000"
    unfolding ds by (simp_all add: is_locked_out_def)
  have t: "list_all (\<lambda>e. fst e < instant_add 3 (cooldown ?s)) ?es" unfolding cd by (simp add: instant_add_def)
  obtain out where out: "snd (otp_run s' ?es) = [((59000, Verify ''p'' ''123456''), out)]"
    by (cases "verify s' ''p'' ''123456'' 59000") simp
  then have "((59000, Verify ''p'' ''123456''), out) \<in> set (snd (otp_run s' ?es))" by simp
  from lockout_stops_guessing [OF refl nl s' t this] out s' show ?thesis by (simp add: Let_def)
qed

text \<open>The listing for the owner is exact. In every run the pending challenges are listed once each,
  for exactly the peers that have one, with their codes, and eviction changes neither who is pending
  nor who is locked out.\<close>

theorem list_pending_exact:
  fixes es :: "otp_event list"
  assumes "s = fst (otp_run (new_otp secs) es)"
  shows "distinct (map info_peer_id (list_pending s now epoch)) \<and>
    set (map info_peer_id (list_pending s now epoch)) = {p. has_pending s p now} \<and>
    (\<forall>i\<in>set (list_pending s now epoch). \<exists>c. challenge_of s (info_peer_id i) = Some c \<and> info_code i = code c) \<and>
    (\<forall>p t. now \<le> t \<longrightarrow> has_pending (evict_expired s now) p t = has_pending s p t \<and>
       is_locked_out (evict_expired s now) p t = is_locked_out s p t)"
proof -
  have inv: "otp_inv s" using assms otp_inv_run new_otp_inv by blast
  then have dk: "distinct_keys (challenges s)" by (simp add: otp_inv_def)
  have id: "peer_id c = p" if "(p, c) \<in> set (challenges s)" for p c
    using inv that dk by (auto simp: otp_inv_def)
  let ?live = "filter (\<lambda>c. now < expires_at c) (map snd (challenges s))"
  have lp: "map info_peer_id (list_pending s now epoch) = map peer_id ?live"
    by (simp add: list_pending_def Let_def)
  have "map peer_id ?live = map fst (filter (\<lambda>(p, c). now < expires_at c) (challenges s))"
    using id by (auto simp: filter_map comp_def case_prod_unfold)
  then have d: "distinct (map info_peer_id (list_pending s now epoch))"
    unfolding lp using dk by (simp add: distinct_map_filter)
  have st: "set (map info_peer_id (list_pending s now epoch)) = {p. has_pending s p now}"
  proof -
    have "has_pending s p now \<longleftrightarrow> (\<exists>c. (p, c) \<in> set (challenges s) \<and> now < expires_at c)" for p
    proof (cases "challenge_of s p")
      case None
      then have "(p, c) \<notin> set (challenges s)" for c
        by (auto simp: map_of_eq_None_iff image_iff)
      with None show ?thesis by (simp add: has_pending_def)
    next
      case (Some c')
      have "(p, c) \<in> set (challenges s) \<longleftrightarrow> c = c'" for c
        using dk Some by (metis map_of_eq_Some_iff option.inject)
      with Some show ?thesis by (simp add: has_pending_def del: map_of_eq_Some_iff)
    qed
    moreover have "set (map peer_id ?live) = {p. \<exists>c. (p, c) \<in> set (challenges s) \<and> now < expires_at c}"
      using id by (auto simp: image_iff) fastforce+
    ultimately show ?thesis unfolding lp by simp
  qed
  have "\<exists>c. challenge_of s (info_peer_id i) = Some c \<and> info_code i = code c"
    if "i \<in> set (list_pending s now epoch)" for i
  proof -
    from that obtain p c where pc: "(p, c) \<in> set (challenges s)" and i: "info_peer_id i = peer_id c" "info_code i = code c"
      by (auto simp: list_pending_def Let_def)
    then show ?thesis using id [OF pc] dk by auto
  qed
  with d st evict_keeps_view [OF inv] show ?thesis by blast
qed

theorem list_pending_exact_witness:
  "let s = fst (otp_run (new_otp 60) [(0, Initiate ''p'' None None 123456), (0, Initiate ''q'' None None 654321)]) in
   distinct (map info_peer_id (list_pending s 10 0)) \<and>
    set (map info_peer_id (list_pending s 10 0)) = {p. has_pending s p 10} \<and>
    (\<forall>i\<in>set (list_pending s 10 0). \<exists>c. challenge_of s (info_peer_id i) = Some c \<and> info_code i = code c) \<and>
    (\<forall>p t. 10 \<le> t \<longrightarrow> has_pending (evict_expired s 10) p t = has_pending s p t \<and>
       is_locked_out (evict_expired s 10) p t = is_locked_out s p t)"
  unfolding Let_def by (rule list_pending_exact [OF refl])

end
