(* ===== verification/Cron_Types.thy ===== *)
theory Cron_Types
  imports Rust_Text
begin

text \<open>
  The data of the cron scheduler (\<open>crates/cron/src/types.rs\<close>, \<open>error.rs\<close>), the next run of a
  schedule (\<open>schedule.rs\<close>), durations (\<open>parse.rs\<close>) and the validation of a job (\<open>service.rs\<close>).

  The crates \<open>cron\<close>, \<open>chrono\<close> and \<open>chrono_tz\<close> are an argument, the record
  \<open>cron_library\<close>: which expressions and time zones parse, which timestamps \<open>chrono\<close> represents, and
  the next time of an expression after a timestamp. A \<open>u64\<close> wraps where the code can overflow.
  The texts of the errors are shortened.
\<close>

section \<open>Errors and data\<close>

datatype cron_error =
    CronIo string
  | CronMessage string
  | JobNotFound string
  | UnknownTimezone string
  | External string

datatype cron_wake_mode = WakeNow | NextHeartbeat

datatype cron_schedule =
    At nat
  | Every nat "nat option"
  | Cron string "string option"

datatype tool_choice = AutoChoice | NoChoice | AnyChoice | ToolChoice string

record agent_tool_controls =
  active_tools :: "string list option"
  tool_choice_of :: "tool_choice option"

record agent_turn =
  at_message :: string
  at_model :: "string option"
  at_agent_id :: "string option"
  at_timeout_secs :: "nat option"
  at_tool_controls :: agent_tool_controls
  at_deliver :: bool
  at_channel :: "string option"
  at_to :: "string option"

datatype cron_payload = SystemEvent string | AgentTurn agent_turn

datatype session_target = MainTarget | Isolated | Named string

datatype run_status = RunOk | RunError | RunSkipped

record cron_job_state =
  next_run_at_ms :: "nat option"
  running_at_ms :: "nat option"
  last_run_at_ms :: "nat option"
  last_status :: "run_status option"
  last_error :: "string option"
  last_duration_ms :: "nat option"

definition default_job_state :: cron_job_state where
  "default_job_state = \<lparr>next_run_at_ms = None, running_at_ms = None, last_run_at_ms = None,
     last_status = None, last_error = None, last_duration_ms = None\<rparr>"

record cron_sandbox_config =
  sandbox_enabled :: bool
  sandbox_image :: "string option"
  auto_prune_container :: "bool option"

record cron_job =
  job_id :: string
  job_name :: string
  enabled :: bool
  delete_after_run :: bool
  schedule :: cron_schedule
  job_payload :: cron_payload
  target :: session_target
  jstate :: cron_job_state
  job_sandbox :: cron_sandbox_config
  wake_mode :: cron_wake_mode
  system :: bool
  created_at_ms :: nat
  updated_at_ms :: nat

record cron_run_record =
  run_job_id :: string
  started_at_ms :: nat
  finished_at_ms :: nat
  run_status_of :: run_status
  run_error :: "string option"
  duration_ms :: nat
  run_output :: "string option"
  input_tokens :: "nat option"
  output_tokens :: "nat option"
  session_key :: "string option"

record cron_job_create =
  c_id :: "string option"
  c_name :: string
  c_schedule :: cron_schedule
  c_payload :: cron_payload
  c_target :: session_target
  c_delete_after_run :: bool
  c_enabled :: bool
  c_system :: bool
  c_sandbox :: cron_sandbox_config
  c_wake_mode :: cron_wake_mode

record cron_job_patch =
  p_name :: "string option"
  p_schedule :: "cron_schedule option"
  p_payload :: "cron_payload option"
  p_target :: "session_target option"
  p_enabled :: "bool option"
  p_delete_after_run :: "bool option"
  p_sandbox :: "cron_sandbox_config option"
  p_wake_mode :: "cron_wake_mode option"

record cron_status =
  status_running :: bool
  job_count :: nat
  enabled_count :: nat
  status_next_run :: "nat option"

datatype cron_notification = JobCreated cron_job | JobUpdated cron_job | JobRemoved string

section \<open>The next run\<close>

record cron_library =
  parses :: "string \<Rightarrow> bool"
  known_timezone :: "string \<Rightarrow> bool"
  representable :: "int \<Rightarrow> bool"
  next_after :: "string \<Rightarrow> string option \<Rightarrow> int \<Rightarrow> int option"

definition as_i64 :: "nat \<Rightarrow> int" where
  "as_i64 n = (if n < 2 ^ 63 then int n else int n - 2 ^ 64)"

definition as_u64 :: "int \<Rightarrow> nat" where
  "as_u64 i = nat (i mod 2 ^ 64)"

definition next_every :: "nat \<Rightarrow> nat \<Rightarrow> nat \<Rightarrow> nat" where
  "next_every every anchor now =
     (anchor + ((now - anchor) div every + 1) * every) mod 2 ^ 64"

definition padded_expr :: "string \<Rightarrow> string" where
  "padded_expr expr = ''0 '' @ expr @ '' *''"

definition next_cron :: "cron_library \<Rightarrow> string \<Rightarrow> string option \<Rightarrow> nat \<Rightarrow> cron_error + nat option" where
  "next_cron lib expr tz now =
     (case (if parses lib expr then Some expr
            else if parses lib (padded_expr expr) then Some (padded_expr expr) else None) of
        None \<Rightarrow> Inl (External (''invalid cron expression '' @ expr))
      | Some e \<Rightarrow>
          let dt = (if representable lib (as_i64 now) then as_i64 now else 0) in
          (case tz of
             Some name \<Rightarrow>
               if known_timezone lib name then Inr (map_option as_u64 (next_after lib e (Some name) dt))
               else Inl (UnknownTimezone name)
           | None \<Rightarrow> Inr (map_option as_u64 (next_after lib e None dt))))"

definition compute_next_run :: "cron_library \<Rightarrow> cron_schedule \<Rightarrow> nat \<Rightarrow> cron_error + nat option" where
  "compute_next_run lib s now =
     (case s of
        At at_ms \<Rightarrow> Inr (if now < at_ms then Some at_ms else None)
      | Every every_ms anchor_ms \<Rightarrow>
          if every_ms = 0 then Inl (CronMessage ''every_ms must be > 0'')
          else
            let anchor = (case anchor_ms of Some a \<Rightarrow> a | None \<Rightarrow> now) in
            if now < anchor then Inr (Some anchor) else Inr (Some (next_every every_ms anchor now))
      | Cron expr tz \<Rightarrow> next_cron lib expr tz now)"

text \<open>\<open>compute_next_run(...).unwrap_or(None)\<close>\<close>

definition next_or_none :: "cron_library \<Rightarrow> cron_schedule \<Rightarrow> nat \<Rightarrow> nat option" where
  "next_or_none lib s now = (case compute_next_run lib s now of Inr t \<Rightarrow> t | Inl _ \<Rightarrow> None)"

section \<open>Durations\<close>

definition unit_ms :: "string \<Rightarrow> nat option" where
  "unit_ms sfx =
     (if sfx = ''s'' then Some 1000 else if sfx = ''m'' then Some 60000
      else if sfx = ''h'' then Some 3600000 else if sfx = ''d'' then Some 86400000 else None)"

definition parse_duration_ms :: "string \<Rightarrow> cron_error + nat" where
  "parse_duration_ms input =
     (let input = trim input in
      if input = [] then Inl (CronMessage ''empty duration string'')
      else if input = ''0'' then Inr 0
      else
        (case find_char is_alphabetic input of
           None \<Rightarrow> Inl (CronMessage ''duration missing unit suffix (s/m/h/d)'')
         | Some i \<Rightarrow>
             (case parse_u64 (take i input) of
                None \<Rightarrow> Inl (CronMessage ''invalid number in duration'')
              | Some value \<Rightarrow>
                  if value = 0 then Inl (CronMessage ''duration must be > 0'')
                  else
                    (case unit_ms (drop i input) of
                       None \<Rightarrow> Inl (CronMessage ''unknown duration suffix'')
                     | Some u \<Rightarrow> Inr (u64_mul value u)))))"

section \<open>Validation\<close>

definition validate_job_spec :: "cron_job \<Rightarrow> cron_error + unit" where
  "validate_job_spec job =
     (case (case (target job, job_payload job) of
              (MainTarget, AgentTurn _) \<Rightarrow> Inl (CronMessage ''sessionTarget=main requires payload kind=systemEvent'')
            | (Isolated, SystemEvent _) \<Rightarrow> Inl (CronMessage ''sessionTarget=isolated/named requires payload kind=agentTurn'')
            | (Named _, SystemEvent _) \<Rightarrow> Inl (CronMessage ''sessionTarget=isolated/named requires payload kind=agentTurn'')
            | _ \<Rightarrow> Inr ()) of
        Inl e \<Rightarrow> Inl e
      | Inr _ \<Rightarrow>
          (case job_payload job of
             AgentTurn a \<Rightarrow>
               if at_deliver a then
                 (if at_channel a = None \<or> at_channel a = Some []
                  then Inl (CronMessage ''deliver=true requires a non-empty 'channel' (account_id)'')
                  else if at_to a = None \<or> at_to a = Some []
                  then Inl (CronMessage ''deliver=true requires a non-empty 'to' (chat_id)'')
                  else Inr ())
               else Inr ()
           | SystemEvent _ \<Rightarrow> Inr ()))"

section \<open>Lemmas\<close>

lemma next_every_grid:
  assumes "0 < every" "anchor \<le> now" "now + every < 2 ^ 64"
  shows "next_every every anchor now = anchor + ((now - anchor) div every + 1) * every \<and>
    now < next_every every anchor now \<and> next_every every anchor now \<le> now + every"
proof -
  let ?d = "now - anchor"
  define m where "m = (?d div every) * every"
  have "m \<le> ?d" "?d < m + every"
    unfolding m_def using assms(1) dividend_less_div_times [of every ?d] by (simp_all add: add.commute)
  then have b: "anchor + (m + every) \<le> now + every" "now < anchor + (m + every)"
    using assms(2) by linarith+
  have e: "anchor + (?d div every + 1) * every = anchor + (m + every)"
    by (simp add: m_def algebra_simps)
  have "anchor + (m + every) < 2 ^ 64" using b(1) assms(3) by (rule le_less_trans)
  then have "next_every every anchor now = anchor + (m + every)"
    unfolding next_every_def e by (rule mod_less)
  with b e show ?thesis by simp
qed

lemma validate_ok_iff:
  "validate_job_spec job = Inr () \<longleftrightarrow>
     (case job_payload job of
        SystemEvent _ \<Rightarrow> target job = MainTarget
      | AgentTurn a \<Rightarrow> target job \<noteq> MainTarget \<and>
          (at_deliver a \<longrightarrow> (\<exists>c\<noteq>[]. at_channel a = Some c) \<and> (\<exists>t\<noteq>[]. at_to a = Some t)))"
  by (cases "target job"; cases "job_payload job")
    (auto simp: validate_job_spec_def split: option.splits)


section \<open>Properties\<close>

text \<open>C12: a job's next run is the right one. A one-shot job runs at its time if that is in the future and
  never otherwise; a repeating job runs at the first point after now of the grid of its interval
  through its anchor (at the anchor itself when that is ahead), unless the sum passes the largest
  \<open>u64\<close>; an interval of zero is refused.\<close>

theorem next_run_correct:
  "compute_next_run lib (At t) now = Inr (if now < t then Some t else None) \<and>
   compute_next_run lib (Every 0 a) now = Inl (CronMessage ''every_ms must be > 0'') \<and>
   (0 < every \<and> now + every < 2 ^ 64 \<longrightarrow>
     (\<exists>n. compute_next_run lib (Every every a) now = Inr (Some n) \<and> now < n \<and>
        (let anchor = (case a of Some x \<Rightarrow> x | None \<Rightarrow> now) in
           if now < anchor then n = anchor
           else n \<le> now + every \<and> (\<exists>k. n = anchor + k * every) \<and>
             (\<forall>k. now < anchor + k * every \<longrightarrow> n \<le> anchor + k * every))))"
proof (intro conjI impI)
  assume asm: "0 < every \<and> now + every < 2 ^ 64"
  let ?anchor = "case a of Some x \<Rightarrow> x | None \<Rightarrow> now"
  show "\<exists>n. compute_next_run lib (Every every a) now = Inr (Some n) \<and> now < n \<and>
        (let anchor = ?anchor in
           if now < anchor then n = anchor
           else n \<le> now + every \<and> (\<exists>k. n = anchor + k * every) \<and>
             (\<forall>k. now < anchor + k * every \<longrightarrow> n \<le> anchor + k * every))"
  proof (cases "now < ?anchor")
    case True
    then show ?thesis using asm by (simp add: compute_next_run_def Let_def)
  next
    case False
    then have g: "next_every every ?anchor now = ?anchor + ((now - ?anchor) div every + 1) * every"
      "now < next_every every ?anchor now" "next_every every ?anchor now \<le> now + every"
      using next_every_grid [of every ?anchor now] asm by auto
    have least: "next_every every ?anchor now \<le> ?anchor + k * every" if "now < ?anchor + k * every" for k
    proof -
      have "(now - ?anchor) div every < k"
        using that asm False by (simp add: div_less_iff_less_mult less_diff_conv2 add.commute)
      then have "((now - ?anchor) div every + 1) * every \<le> k * every"
        by (intro mult_right_mono) auto
      then show ?thesis unfolding g(1) by simp
    qed
    have "compute_next_run lib (Every every a) now = Inr (Some (next_every every ?anchor now))"
      using False asm by (simp add: compute_next_run_def Let_def)
    then show ?thesis
      using False g(2,3) least exI [of "\<lambda>k. next_every every ?anchor now = ?anchor + k * every", OF g(1)]
      by (simp add: Let_def)
  qed
qed (simp_all add: compute_next_run_def)

definition no_cron :: cron_library where
  "no_cron = \<lparr>parses = (\<lambda>_. False), known_timezone = (\<lambda>_. False), representable = (\<lambda>_. True),
     next_after = (\<lambda>_ _ _. None)\<rparr>"

theorem next_run_correct_witness:
  "compute_next_run no_cron (Every 60000 (Some 10000)) 130000 = Inr (Some 190000) \<and>
   (\<exists>n. compute_next_run no_cron (Every 60000 (Some 10000)) 130000 = Inr (Some n) \<and> 130000 < n \<and> n \<le> 190000)"
proof -
  have "compute_next_run no_cron (Every 60000 (Some 10000)) 130000 = Inr (Some 190000)"
    by (simp add: compute_next_run_def next_every_def)
  then show ?thesis
    using next_run_correct [where lib = no_cron and now = 130000 and every = 60000 and a = "Some 10000"] by (simp add: Let_def)
qed

end
