(* ===== verification/Cron_Store.thy ===== *)
theory Cron_Store
  imports Cron_Types
begin

text \<open>
  The persistence of cron jobs: the trait \<open>CronStore\<close> (\<open>crates/cron/src/store.rs\<close>) as the record of
  operations \<open>store_ops\<close>, its contract as the locale \<open>cron_store\<close>, and two of its implementations,
  the in-memory store (\<open>store_memory.rs\<close>) and the file store (\<open>store_file.rs\<close>), each with an
  interpretation of the locale.

  A hash map is an association list; its order stands for the iteration order of the map. The files
  of the file store are the lists of records that \<open>serde_json\<close> reads from them. What the store itself
  makes fail is modelled: reading the directory of runs before it exists, and a path that cannot be
  opened because the identifier of the job in it has a \<open>/\<close>, is too long or the like. Failures of the disk
  and files damaged by others are not.
\<close>

section \<open>The trait\<close>

record 's store_ops =
  load_jobs :: "'s \<Rightarrow> cron_error + cron_job list"
  save_job :: "cron_job \<Rightarrow> 's \<Rightarrow> (cron_error + unit) \<times> 's"
  delete_job :: "string \<Rightarrow> 's \<Rightarrow> (cron_error + unit) \<times> 's"
  update_job :: "cron_job \<Rightarrow> 's \<Rightarrow> (cron_error + unit) \<times> 's"
  append_run :: "string \<Rightarrow> cron_run_record \<Rightarrow> 's \<Rightarrow> (cron_error + unit) \<times> 's"
  get_runs :: "string \<Rightarrow> nat \<Rightarrow> 's \<Rightarrow> cron_error + cron_run_record list"
  prune_runs_before :: "nat \<Rightarrow> 's \<Rightarrow> (cron_error + nat) \<times> 's"
  list_session_keys_before :: "nat \<Rightarrow> 's \<Rightarrow> cron_error + string list"

text \<open>The contract: the store is a map from identifiers to jobs; an operation that fails changes
  nothing, and the history of runs is separate from the jobs.\<close>

locale cron_store =
  fixes ops :: "'s store_ops"
    and stored :: "'s \<Rightarrow> string \<Rightarrow> cron_job option"
    and sound :: "'s \<Rightarrow> bool"
  assumes load_law: "sound s \<Longrightarrow> load_jobs ops s = Inr js \<Longrightarrow>
      distinct (map job_id js) \<and> (\<forall>j. j \<in> set js \<longleftrightarrow> stored s (job_id j) = Some j)"
    and keyed_law: "sound s \<Longrightarrow> stored s i = Some j \<Longrightarrow> job_id j = i"
    and save_law: "sound s \<Longrightarrow> save_job ops j s = (r, s') \<Longrightarrow>
      sound s' \<and> stored s' = (case r of Inr _ \<Rightarrow> (stored s)(job_id j \<mapsto> j) | Inl _ \<Rightarrow> stored s)"
    and delete_law: "sound s \<Longrightarrow> delete_job ops i s = (r, s') \<Longrightarrow>
      sound s' \<and> stored s' = (case r of Inr _ \<Rightarrow> (stored s)(i := None) | Inl _ \<Rightarrow> stored s) \<and>
      (r = Inr () \<longrightarrow> stored s i \<noteq> None)"
    and update_law: "sound s \<Longrightarrow> update_job ops j s = (r, s') \<Longrightarrow>
      sound s' \<and> stored s' = (case r of Inr _ \<Rightarrow> (stored s)(job_id j \<mapsto> j) | Inl _ \<Rightarrow> stored s) \<and>
      (r = Inr () \<longleftrightarrow> stored s (job_id j) \<noteq> None)"
    and append_law: "sound s \<Longrightarrow> append_run ops i rec s = (r, s') \<Longrightarrow>
      sound s' \<and> stored s' = stored s"
    and prune_law: "sound s \<Longrightarrow> prune_runs_before ops t s = (p, s') \<Longrightarrow>
      sound s' \<and> stored s' = stored s"
begin

lemma load_ids:
  assumes "sound s" "load_jobs ops s = Inr js"
  shows "job_id ` set js = dom (stored s)"
proof (rule set_eqI)
  fix i
  show "i \<in> job_id ` set js \<longleftrightarrow> i \<in> dom (stored s)"
  proof
    assume "i \<in> job_id ` set js"
    then show "i \<in> dom (stored s)" using load_law [OF assms] by auto
  next
    assume "i \<in> dom (stored s)"
    then obtain j where "stored s i = Some j" by auto
    moreover from this have "job_id j = i" by (rule keyed_law [OF assms(1)])
    ultimately have "j \<in> set js" using load_law [OF assms] by simp
    with \<open>job_id j = i\<close> show "i \<in> job_id ` set js" by blast
  qed
qed

lemma saved_is_stored: "sound s \<Longrightarrow> save_job ops j s = (Inr (), s') \<Longrightarrow> stored s' (job_id j) = Some j"
  using save_law by fastforce

lemma deleted_is_gone: "sound s \<Longrightarrow> delete_job ops i s = (Inr (), s') \<Longrightarrow> stored s' i = None"
  using delete_law by fastforce

lemma save_dom:
  "sound s \<Longrightarrow> save_job ops j s = (Inr u, s') \<Longrightarrow> sound s' \<and> dom (stored s') = insert (job_id j) (dom (stored s))"
  using save_law [of s j "Inr u" s'] by simp

lemma save_err: "sound s \<Longrightarrow> save_job ops j s = (Inl e, s') \<Longrightarrow> sound s' \<and> stored s' = stored s"
  using save_law [of s j "Inl e" s'] by simp

lemma delete_dom:
  "sound s \<Longrightarrow> delete_job ops i s = (Inr u, s') \<Longrightarrow> sound s' \<and> dom (stored s') = dom (stored s) - {i}"
  using delete_law [of s i "Inr u" s'] by auto

lemma delete_err: "sound s \<Longrightarrow> delete_job ops i s = (Inl e, s') \<Longrightarrow> sound s' \<and> stored s' = stored s"
  using delete_law [of s i "Inl e" s'] by simp

lemma update_dom: "sound s \<Longrightarrow> update_job ops j s = (r, s') \<Longrightarrow> sound s' \<and> dom (stored s') = dom (stored s)"
  using update_law [of s j r s'] by (auto split: sum.splits)

end


text \<open>A store on a working disk: the error of an operation says which job is missing, and the runs of a job
  are a list that grows at the end. The runs are kept for the identifiers that are \<open>proper\<close>; requests over
  all runs succeed once the store is \<open>ready\<close>, which storing a job or a run makes it for good.\<close>

definition count_before :: "nat \<Rightarrow> cron_run_record list \<Rightarrow> nat" where
  "count_before t rs = length rs - length (filter (\<lambda>r. t \<le> started_at_ms r) rs)"

definition keys_before :: "nat \<Rightarrow> cron_run_record list \<Rightarrow> string set" where
  "keys_before t rs = {k. \<exists>r\<in>set rs. started_at_ms r < t \<and> session_key r = Some k}"

locale reliable_store = cron_store ops stored sound
  for ops :: "'s store_ops" and stored sound +
  fixes history :: "'s \<Rightarrow> string \<Rightarrow> cron_run_record list"
    and proper :: "'s \<Rightarrow> string \<Rightarrow> bool"
    and ready :: "'s \<Rightarrow> bool"
    and unready :: cron_error
  assumes load_total: "sound s \<Longrightarrow> \<exists>js. load_jobs ops s = Inr js"
    and save_total: "sound s \<Longrightarrow> fst (save_job ops j s) = Inr ()"
    and delete_exact: "sound s \<Longrightarrow>
      fst (delete_job ops i s) = (if stored s i = None then Inl (JobNotFound i) else Inr ())"
    and update_exact: "sound s \<Longrightarrow>
      fst (update_job ops j s) = (if stored s (job_id j) = None then Inl (JobNotFound (job_id j)) else Inr ())"
    and jobs_keep_history: "sound s \<Longrightarrow>
      history (snd (save_job ops j s)) = history s \<and> history (snd (delete_job ops i s)) = history s \<and>
      history (snd (update_job ops j s)) = history s"
    and append_exact: "sound s \<Longrightarrow> proper s i \<Longrightarrow> fst (append_run ops i r s) = Inr () \<and>
      history (snd (append_run ops i r s)) = (history s)(i := history s i @ [r])"
    and runs_exact: "sound s \<Longrightarrow> proper s i \<Longrightarrow>
      get_runs ops i n s = Inr (drop (length (history s i) - n) (history s i))"
    and finite_history: "sound s \<Longrightarrow> finite {i. history s i \<noteq> []}"
    and prune_exact: "sound s \<Longrightarrow> ready s \<Longrightarrow>
      fst (prune_runs_before ops t s) = Inr (\<Sum>i | history s i \<noteq> []. count_before t (history s i)) \<and>
      history (snd (prune_runs_before ops t s)) = (\<lambda>i. filter (\<lambda>r. t \<le> started_at_ms r) (history s i))"
    and keys_exact: "sound s \<Longrightarrow> ready s \<Longrightarrow>
      \<exists>ks. list_session_keys_before ops t s = Inr ks \<and> distinct ks \<and> set ks = (\<Union>i. keys_before t (history s i))"
    and unready_fails: "sound s \<Longrightarrow> \<not> ready s \<Longrightarrow>
      prune_runs_before ops t s = (Inl unready, s) \<and> list_session_keys_before ops t s = Inl unready"
    and getting_ready: "sound s \<Longrightarrow> ready (snd (save_job ops j s)) \<and> ready (snd (append_run ops i r s)) \<and>
      (ready (snd (delete_job ops i s)) \<longleftrightarrow> ready s) \<and> (ready (snd (update_job ops j s)) \<longleftrightarrow> ready s) \<and>
      (ready (snd (prune_runs_before ops t s)) \<longleftrightarrow> ready s)"
    and proper_kept: "sound s \<Longrightarrow> proper (snd (save_job ops j s)) = proper s \<and>
      proper (snd (append_run ops i r s)) = proper s \<and> proper (snd (delete_job ops i s)) = proper s \<and>
      proper (snd (update_job ops j s)) = proper s \<and> proper (snd (prune_runs_before ops t s)) = proper s"

section \<open>The in-memory store\<close>

record memory_store =
  mem_jobs :: "(string \<times> cron_job) list"
  mem_runs :: "(string \<times> cron_run_record list) list"

definition new_memory :: memory_store where
  "new_memory = \<lparr>mem_jobs = [], mem_runs = []\<rparr>"

definition mem_load :: "memory_store \<Rightarrow> cron_error + cron_job list" where
  "mem_load s = Inr (map snd (mem_jobs s))"

definition mem_save :: "cron_job \<Rightarrow> memory_store \<Rightarrow> (cron_error + unit) \<times> memory_store" where
  "mem_save j s = (Inr (), s\<lparr>mem_jobs := AList.update (job_id j) j (mem_jobs s)\<rparr>)"

definition mem_delete :: "string \<Rightarrow> memory_store \<Rightarrow> (cron_error + unit) \<times> memory_store" where
  "mem_delete i s =
     (if map_of (mem_jobs s) i = None then (Inl (JobNotFound i), s)
      else (Inr (), s\<lparr>mem_jobs := AList.delete i (mem_jobs s)\<rparr>))"

definition mem_update :: "cron_job \<Rightarrow> memory_store \<Rightarrow> (cron_error + unit) \<times> memory_store" where
  "mem_update j s =
     (if map_of (mem_jobs s) (job_id j) = None then (Inl (JobNotFound (job_id j)), s)
      else (Inr (), s\<lparr>mem_jobs := AList.update (job_id j) j (mem_jobs s)\<rparr>))"

definition runs_of :: "(string \<times> cron_run_record list) list \<Rightarrow> string \<Rightarrow> cron_run_record list" where
  "runs_of al i = (case map_of al i of Some rs \<Rightarrow> rs | None \<Rightarrow> [])"

definition mem_append_run :: "string \<Rightarrow> cron_run_record \<Rightarrow> memory_store \<Rightarrow> (cron_error + unit) \<times> memory_store" where
  "mem_append_run i rec s =
     (Inr (), s\<lparr>mem_runs := AList.update i (runs_of (mem_runs s) i @ [rec]) (mem_runs s)\<rparr>)"

text \<open>The most recent \<open>limit\<close> entries.\<close>

definition mem_get_runs :: "string \<Rightarrow> nat \<Rightarrow> memory_store \<Rightarrow> cron_error + cron_run_record list" where
  "mem_get_runs i limit s =
     (let records = runs_of (mem_runs s) i in Inr (drop (length records - limit) records))"

definition mem_prune_runs_before :: "nat \<Rightarrow> memory_store \<Rightarrow> (cron_error + nat) \<times> memory_store" where
  "mem_prune_runs_before before s =
     (Inr (sum_list (map (\<lambda>(i, rs). count_before before rs) (mem_runs s))),
      s\<lparr>mem_runs := map (\<lambda>(i, rs). (i, filter (\<lambda>r. before \<le> started_at_ms r) rs)) (mem_runs s)\<rparr>)"

definition push_key :: "nat \<Rightarrow> string list \<Rightarrow> cron_run_record \<Rightarrow> string list" where
  "push_key before keys r =
     (case session_key r of
        Some k \<Rightarrow> if started_at_ms r < before \<and> k \<notin> set keys then keys @ [k] else keys
      | None \<Rightarrow> keys)"

definition mem_list_session_keys_before :: "nat \<Rightarrow> memory_store \<Rightarrow> cron_error + string list" where
  "mem_list_session_keys_before before s = Inr (foldl (push_key before) [] (concat (map snd (mem_runs s))))"

definition memory_ops :: "memory_store store_ops" where
  "memory_ops = \<lparr>load_jobs = mem_load, save_job = mem_save, delete_job = mem_delete,
     update_job = mem_update, append_run = mem_append_run, get_runs = mem_get_runs,
     prune_runs_before = mem_prune_runs_before,
     list_session_keys_before = mem_list_session_keys_before\<rparr>"

definition mem_stored :: "memory_store \<Rightarrow> string \<Rightarrow> cron_job option" where
  "mem_stored s = map_of (mem_jobs s)"

definition mem_sound :: "memory_store \<Rightarrow> bool" where
  "mem_sound s \<longleftrightarrow> distinct_keys (mem_jobs s) \<and> distinct_keys (mem_runs s) \<and> (\<forall>(i, j)\<in>set (mem_jobs s). job_id j = i)"

section \<open>The file store\<close>

text \<open>Which file the path \<open>runs_dir/{id}.jsonl\<close> is, the file system decides: a file of the directory that
  has the extension \<open>jsonl\<close>, for an identifier that is a plain name; some other file, for one with \<open>..\<close>, for
  an absolute one or for the empty one (\<open>.jsonl\<close> has no extension); or nothing that can be opened, for one
  that names a directory that does not exist, is too long or has a null character.\<close>

datatype runs_place = Listed string | Stray string | Nowhere

record file_store =
  jobs_file :: "cron_job list option"
  runs_dir_exists :: bool
  runs_files :: "(string \<times> cron_run_record list) list"
  stray_files :: "(string \<times> cron_run_record list) list"
  runs_path :: "string \<Rightarrow> runs_place"

definition new_files :: "(string \<Rightarrow> runs_place) \<Rightarrow> file_store" where
  "new_files place = \<lparr>jobs_file = None, runs_dir_exists = False, runs_files = [], stray_files = [], runs_path = place\<rparr>"

text \<open>\<open>ensure_dirs\<close> and \<open>atomic_write_jobs\<close>\<close>

definition ensure_dirs :: "file_store \<Rightarrow> file_store" where
  "ensure_dirs s = s\<lparr>runs_dir_exists := True\<rparr>"

definition atomic_write_jobs :: "cron_job list \<Rightarrow> file_store \<Rightarrow> file_store" where
  "atomic_write_jobs js s = (ensure_dirs s)\<lparr>jobs_file := Some js\<rparr>"

definition no_such_file :: cron_error where
  "no_such_file = CronIo ''No such file or directory''"

definition file_jobs :: "file_store \<Rightarrow> cron_job list" where
  "file_jobs s = (case jobs_file s of None \<Rightarrow> [] | Some js \<Rightarrow> js)"

definition file_load :: "file_store \<Rightarrow> cron_error + cron_job list" where
  "file_load s = Inr (file_jobs s)"

text \<open>\<open>jobs.iter().position(|j| j.id == job.id)\<close> and \<open>jobs[pos] = job.clone()\<close>\<close>

fun replace_job :: "cron_job \<Rightarrow> cron_job list \<Rightarrow> cron_job list option" where
  "replace_job j [] = None"
| "replace_job j (k # ks) =
     (if job_id k = job_id j then Some (j # ks) else map_option ((#) k) (replace_job j ks))"

definition file_save :: "cron_job \<Rightarrow> file_store \<Rightarrow> (cron_error + unit) \<times> file_store" where
  "file_save j s =
     (Inr (), atomic_write_jobs (case replace_job j (file_jobs s) of Some js \<Rightarrow> js | None \<Rightarrow> file_jobs s @ [j]) s)"

definition file_delete :: "string \<Rightarrow> file_store \<Rightarrow> (cron_error + unit) \<times> file_store" where
  "file_delete i s =
     (let js = filter (\<lambda>j. job_id j \<noteq> i) (file_jobs s) in
      if length js = length (file_jobs s) then (Inl (JobNotFound i), s)
      else (Inr (), atomic_write_jobs js s))"

definition file_update :: "cron_job \<Rightarrow> file_store \<Rightarrow> (cron_error + unit) \<times> file_store" where
  "file_update j s =
     (case replace_job j (file_jobs s) of
        None \<Rightarrow> (Inl (JobNotFound (job_id j)), s)
      | Some js \<Rightarrow> (Inr (), atomic_write_jobs js s))"

definition file_append_run :: "string \<Rightarrow> cron_run_record \<Rightarrow> file_store \<Rightarrow> (cron_error + unit) \<times> file_store" where
  "file_append_run i rec s =
     (let s = ensure_dirs s in
      case runs_path s i of
        Listed n \<Rightarrow> (Inr (), s\<lparr>runs_files := AList.update n (runs_of (runs_files s) n @ [rec]) (runs_files s)\<rparr>)
      | Stray n \<Rightarrow> (Inr (), s\<lparr>stray_files := AList.update n (runs_of (stray_files s) n @ [rec]) (stray_files s)\<rparr>)
      | Nowhere \<Rightarrow> (Inl no_such_file, s))"

text \<open>A file that does not exist has no records.\<close>

definition file_get_runs :: "string \<Rightarrow> nat \<Rightarrow> file_store \<Rightarrow> cron_error + cron_run_record list" where
  "file_get_runs i limit s =
     (let all = (case runs_path s i of
                   Listed n \<Rightarrow> runs_of (runs_files s) n | Stray n \<Rightarrow> runs_of (stray_files s) n | Nowhere \<Rightarrow> [])
      in Inr (drop (length all - limit) all))"

text \<open>\<open>fs::read_dir(&self.runs_dir).await?\<close> fails while the directory does not exist. A file without records
  left is removed.\<close>

definition file_prune_runs_before :: "nat \<Rightarrow> file_store \<Rightarrow> (cron_error + nat) \<times> file_store" where
  "file_prune_runs_before before s =
     (if \<not> runs_dir_exists s then (Inl no_such_file, s)
      else (Inr (sum_list (map (\<lambda>(i, rs). count_before before rs) (runs_files s))),
        s\<lparr>runs_files := filter (\<lambda>(i, rs). rs \<noteq> [])
           (map (\<lambda>(i, rs). (i, filter (\<lambda>r. before \<le> started_at_ms r) rs)) (runs_files s))\<rparr>))"

definition file_list_session_keys_before :: "nat \<Rightarrow> file_store \<Rightarrow> cron_error + string list" where
  "file_list_session_keys_before before s =
     (if \<not> runs_dir_exists s then Inl no_such_file
      else Inr (foldl (push_key before) [] (concat (map snd (runs_files s)))))"

definition file_ops :: "file_store store_ops" where
  "file_ops = \<lparr>load_jobs = file_load, save_job = file_save, delete_job = file_delete,
     update_job = file_update, append_run = file_append_run, get_runs = file_get_runs,
     prune_runs_before = file_prune_runs_before,
     list_session_keys_before = file_list_session_keys_before\<rparr>"

definition find_job :: "string \<Rightarrow> cron_job list \<Rightarrow> cron_job option" where
  "find_job i js = find (\<lambda>j. job_id j = i) js"

definition file_stored :: "file_store \<Rightarrow> string \<Rightarrow> cron_job option" where
  "file_stored s i = find_job i (file_jobs s)"

definition file_sound :: "file_store \<Rightarrow> bool" where
  "file_sound s \<longleftrightarrow> distinct (map job_id (file_jobs s)) \<and> distinct_keys (runs_files s) \<and>
     (jobs_file s \<noteq> None \<longrightarrow> runs_dir_exists s)"

section \<open>Lists of jobs\<close>

lemma find_job_Nil [simp]: "find_job i [] = None"
  by (simp add: find_job_def)

lemma find_job_Cons [simp]: "find_job i (j # js) = (if job_id j = i then Some j else find_job i js)"
  by (simp add: find_job_def)

lemma find_job_append [simp]:
  "find_job i (xs @ ys) = (case find_job i xs of None \<Rightarrow> find_job i ys | Some j \<Rightarrow> Some j)"
  by (induction xs) auto

lemma find_job_None: "find_job i js = None \<longleftrightarrow> i \<notin> job_id ` set js"
  by (induction js) auto

lemma find_job_SomeD: "find_job i js = Some j \<Longrightarrow> j \<in> set js \<and> job_id j = i"
  by (induction js) (auto split: if_splits)

lemma find_job_iff:
  "distinct (map job_id js) \<Longrightarrow> find_job i js = Some j \<longleftrightarrow> j \<in> set js \<and> job_id j = i"
  by (induction js) auto

lemma find_job_filter: "find_job k (filter (\<lambda>j. job_id j \<noteq> i) js) = (if k = i then None else find_job k js)"
  by (induction js) auto

lemma length_filter_eq_iff: "length (filter P xs) = length xs \<longleftrightarrow> (\<forall>x\<in>set xs. P x)"
proof
  assume "length (filter P xs) = length xs"
  then show "\<forall>x\<in>set xs. P x" by (metis length_filter_less less_irrefl)
next
  assume "\<forall>x\<in>set xs. P x"
  then show "length (filter P xs) = length xs" by (simp add: filter_True)
qed

lemma replace_job_None: "replace_job j js = None \<longleftrightarrow> find_job (job_id j) js = None"
  by (induction js) auto

lemma replace_job_find:
  "replace_job j js = Some ks \<Longrightarrow> find_job i ks = (if i = job_id j then Some j else find_job i js)"
  by (induction js arbitrary: ks) (auto split: if_splits)

lemma replace_job_ids: "replace_job j js = Some ks \<Longrightarrow> map job_id ks = map job_id js"
  by (induction js arbitrary: ks) (auto split: if_splits)

section \<open>Histories\<close>

lemma runs_of_update [simp]: "runs_of (AList.update k v al) i = (if i = k then v else runs_of al i)"
  by (simp add: runs_of_def update_conv')

lemma runs_of_map:
  "f [] = [] \<Longrightarrow> runs_of (map (\<lambda>(i, rs). (i, f rs)) al) i = f (runs_of al i)"
  by (induction al) (auto simp: runs_of_def split: option.splits)

lemma runs_of_nonempty: "distinct_keys al \<Longrightarrow> runs_of (filter (\<lambda>(i, rs). rs \<noteq> []) al) i = runs_of al i"
proof (induction al)
  case (Cons p al)
  obtain k rs where p: "p = (k, rs)" by (cases p)
  with Cons.prems have "k \<notin> fst ` set al" by simp
  then have "map_of al k = None" by (simp add: map_of_eq_None_iff)
  moreover from this have "runs_of al k = []" by (simp add: runs_of_def)
  ultimately show ?case
    using Cons p by (cases "i = k") (auto simp: runs_of_def split: option.splits)
qed simp

lemma runs_of_mem: "distinct_keys al \<Longrightarrow> (i, rs) \<in> set al \<Longrightarrow> runs_of al i = rs"
  by (simp add: runs_of_def map_of_is_SomeI)

lemma runs_of_nonempty_key: "runs_of al i \<noteq> [] \<Longrightarrow> (i, runs_of al i) \<in> set al"
  by (auto simp: runs_of_def split: option.splits dest: map_of_SomeD)

lemma finite_runs: "finite {i. runs_of al i \<noteq> []}"
proof (rule finite_subset)
  show "{i. runs_of al i \<noteq> []} \<subseteq> fst ` set al"
    by (force dest: runs_of_nonempty_key)
qed simp

lemma sum_runs:
  fixes f :: "cron_run_record list \<Rightarrow> nat"
  assumes "distinct_keys al" "f [] = 0"
  shows "sum_list (map (\<lambda>(i, rs). f rs) al) = (\<Sum>i | runs_of al i \<noteq> []. f (runs_of al i))"
proof -
  have "sum_list (map (\<lambda>(i, rs). f rs) al) = sum_list (map (\<lambda>i. f (runs_of al i)) (map fst al))"
    using runs_of_mem [OF assms(1)] by (auto intro!: arg_cong [of _ _ sum_list])
  also have "\<dots> = (\<Sum>i\<in>fst ` set al. f (runs_of al i))"
    by (simp only: sum_list_distinct_conv_sum_set [OF assms(1)] set_map)
  also have "\<dots> = (\<Sum>i | runs_of al i \<noteq> []. f (runs_of al i))"
  proof (rule sum.mono_neutral_right)
    show "{i. runs_of al i \<noteq> []} \<subseteq> fst ` set al" by (force dest: runs_of_nonempty_key)
    show "\<forall>i\<in>fst ` set al - {i. runs_of al i \<noteq> []}. f (runs_of al i) = 0" using assms(2) by auto
  qed simp
  finally show ?thesis .
qed

lemma push_keys:
  "distinct keys \<Longrightarrow> distinct (foldl (push_key t) keys rs) \<and>
   set (foldl (push_key t) keys rs) = set keys \<union> keys_before t rs"
proof (induction rs arbitrary: keys)
  case Nil
  then show ?case by (simp add: keys_before_def)
next
  case (Cons r rs)
  have "distinct (push_key t keys r) \<and> set (push_key t keys r) = set keys \<union> keys_before t [r]"
    using Cons.prems by (auto simp: push_key_def keys_before_def split: option.splits)
  moreover have "keys_before t (r # rs) = keys_before t [r] \<union> keys_before t rs"
    by (auto simp: keys_before_def)
  ultimately show ?case using Cons.IH [of "push_key t keys r"] by auto
qed

lemma keys_of_runs:
  "distinct_keys al \<Longrightarrow> keys_before t (concat (map snd al)) = (\<Union>i. keys_before t (runs_of al i))"
proof (rule set_eqI)
  fix k
  assume d: "distinct_keys al"
  have "k \<in> keys_before t (concat (map snd al)) \<longleftrightarrow> (\<exists>i rs. (i, rs) \<in> set al \<and> k \<in> keys_before t rs)"
    by (force simp: keys_before_def)
  also have "\<dots> \<longleftrightarrow> (\<exists>i. k \<in> keys_before t (runs_of al i))"
  proof
    assume "\<exists>i rs. (i, rs) \<in> set al \<and> k \<in> keys_before t rs"
    then show "\<exists>i. k \<in> keys_before t (runs_of al i)" using runs_of_mem [OF d] by blast
  next
    assume "\<exists>i. k \<in> keys_before t (runs_of al i)"
    then obtain i where i: "k \<in> keys_before t (runs_of al i)" ..
    then have "runs_of al i \<noteq> []" by (auto simp: keys_before_def)
    with i show "\<exists>i rs. (i, rs) \<in> set al \<and> k \<in> keys_before t rs"
      using runs_of_nonempty_key by blast
  qed
  finally show "k \<in> keys_before t (concat (map snd al)) \<longleftrightarrow> k \<in> (\<Union>i. keys_before t (runs_of al i))"
    by simp
qed

lemma keys_listed:
  assumes "distinct_keys al"
  shows "\<exists>ks. foldl (push_key t) [] (concat (map snd al)) = ks \<and> distinct ks \<and>
    set ks = (\<Union>i. keys_before t (runs_of al i))"
  using push_keys [of "[]" t "concat (map snd al)"] keys_of_runs [OF assms, of t] by auto

lemma distinct_keys_prune [simp]:
  "distinct_keys al \<Longrightarrow> distinct_keys (filter P (map (\<lambda>(i, rs). (i, f rs)) al))"
  by (induction al) (auto simp: image_iff)

lemma fst_comp_prune [simp]: "fst \<circ> (\<lambda>(i, rs). (i, f rs)) = fst"
  by auto

lemma fst_prune: "map fst (map (\<lambda>(i, rs). (i, f rs)) al) = map fst al"
  by (induction al) auto

lemma set_alist_update: "set (AList.update k v al) \<subseteq> insert (k, v) (set al)"
  by (induction al) auto

lemma runs_of_prune:
  assumes "distinct_keys al"
  shows "runs_of (filter (\<lambda>(i, rs). rs \<noteq> []) (map (\<lambda>(i, rs). (i, filter P rs)) al)) i = filter P (runs_of al i)"
proof -
  have "distinct_keys (map (\<lambda>(i, rs). (i, filter P rs)) al)" unfolding fst_prune by (rule assms)
  then show ?thesis by (simp only: runs_of_nonempty runs_of_map [of "filter P", OF filter.simps(1)])
qed

lemma runs_of_prune_fun:
  "distinct_keys al \<Longrightarrow>
   runs_of (filter (\<lambda>(i, rs). rs \<noteq> []) (map (\<lambda>(i, rs). (i, filter P rs)) al)) = (\<lambda>i. filter P (runs_of al i))"
  by (rule ext) (rule runs_of_prune)

lemma set_alist_delete: "set (AList.delete k al) \<subseteq> set al"
  by (auto simp: AList.delete_eq)

section \<open>Both stores keep the contract\<close>

lemmas memory_defs =
  memory_ops_def mem_load_def mem_save_def mem_delete_def mem_update_def mem_append_run_def
  mem_get_runs_def mem_prune_runs_before_def mem_list_session_keys_before_def mem_stored_def mem_sound_def

lemmas file_defs =
  file_ops_def file_load_def file_save_def file_delete_def file_update_def file_append_run_def
  file_get_runs_def file_prune_runs_before_def file_list_session_keys_before_def file_sound_def

lemma mem_keyed: "mem_sound s \<Longrightarrow> mem_stored s i = Some j \<Longrightarrow> job_id j = i"
  by (auto simp: mem_sound_def mem_stored_def dest: map_of_SomeD)

lemma mem_sound_update:
  "mem_sound s \<Longrightarrow> mem_sound (s\<lparr>mem_jobs := AList.update (job_id j) j (mem_jobs s)\<rparr>)"
  using set_alist_update [of "job_id j" j "mem_jobs s"] by (auto simp: mem_sound_def distinct_update)

interpretation mstore: cron_store memory_ops mem_stored mem_sound
proof
  fix s js assume s: "mem_sound s" and l: "load_jobs memory_ops s = Inr js"
  have js: "js = map snd (mem_jobs s)" using l by (simp add: memory_defs)
  have ids: "map job_id js = map fst (mem_jobs s)"
    using s by (auto simp: js mem_sound_def)
  moreover have "j \<in> set js \<longleftrightarrow> mem_stored s (job_id j) = Some j" for j
    using s by (force simp: js mem_sound_def mem_stored_def dest: map_of_SomeD)
  ultimately show "distinct (map job_id js) \<and> (\<forall>j. j \<in> set js \<longleftrightarrow> mem_stored s (job_id j) = Some j)"
    using s by (simp add: mem_sound_def)
next
  fix s i j assume "mem_sound s" "mem_stored s i = Some j"
  then show "job_id j = i" by (rule mem_keyed)
next
  fix s j r s' assume "mem_sound s" "save_job memory_ops j s = (r, s')"
  then show "mem_sound s' \<and> mem_stored s' = (case r of Inr _ \<Rightarrow> (mem_stored s)(job_id j \<mapsto> j) | Inl _ \<Rightarrow> mem_stored s)"
    using mem_sound_update by (auto simp: memory_ops_def mem_save_def mem_stored_def update_conv')
next
  fix s i r s' assume "mem_sound s" "delete_job memory_ops i s = (r, s')"
  then show "mem_sound s' \<and> mem_stored s' = (case r of Inr _ \<Rightarrow> (mem_stored s)(i := None) | Inl _ \<Rightarrow> mem_stored s) \<and>
      (r = Inr () \<longrightarrow> mem_stored s i \<noteq> None)"
    using set_alist_delete [of i "mem_jobs s"]
    by (auto simp: memory_ops_def mem_delete_def mem_stored_def mem_sound_def AList.delete_conv' distinct_delete
        split: if_splits)
next
  fix s j r s' assume "mem_sound s" "update_job memory_ops j s = (r, s')"
  then show "mem_sound s' \<and> mem_stored s' = (case r of Inr _ \<Rightarrow> (mem_stored s)(job_id j \<mapsto> j) | Inl _ \<Rightarrow> mem_stored s) \<and>
      (r = Inr () \<longleftrightarrow> mem_stored s (job_id j) \<noteq> None)"
    using mem_sound_update [of s j]
    by (auto simp: memory_ops_def mem_update_def mem_stored_def update_conv' split: if_splits)
next
  fix s i r p s' assume "mem_sound s" "append_run memory_ops i r s = (p, s')"
  then show "mem_sound s' \<and> mem_stored s' = mem_stored s"
    by (auto simp: memory_ops_def mem_append_run_def mem_stored_def mem_sound_def distinct_update)
next
  fix s t p s' assume "mem_sound s" "prune_runs_before memory_ops t s = (p, s')"
  then show "mem_sound s' \<and> mem_stored s' = mem_stored s"
    by (auto simp: memory_ops_def mem_prune_runs_before_def mem_stored_def mem_sound_def)
qed

definition mem_history :: "memory_store \<Rightarrow> string \<Rightarrow> cron_run_record list" where
  "mem_history s = runs_of (mem_runs s)"

interpretation mstore: reliable_store memory_ops mem_stored mem_sound mem_history "\<lambda>_ _. True" "\<lambda>_. True" no_such_file
proof
  fix s t assume "mem_sound s"
  then show "\<exists>ks. list_session_keys_before memory_ops t s = Inr ks \<and> distinct ks \<and>
      set ks = (\<Union>i. keys_before t (mem_history s i))"
    using keys_listed [of "mem_runs s" t]
    by (simp add: memory_ops_def mem_list_session_keys_before_def mem_history_def mem_sound_def)
next
  fix s t assume s: "mem_sound s"
  have "count_before t [] = 0" by (simp add: count_before_def)
  then show "fst (prune_runs_before memory_ops t s) = Inr (\<Sum>i | mem_history s i \<noteq> []. count_before t (mem_history s i)) \<and>
      mem_history (snd (prune_runs_before memory_ops t s)) = (\<lambda>i. filter (\<lambda>r. t \<le> started_at_ms r) (mem_history s i))"
    using s sum_runs [of "mem_runs s" "count_before t"]
    by (auto simp: memory_ops_def mem_prune_runs_before_def mem_history_def mem_sound_def runs_of_map)
qed (auto simp: memory_ops_def mem_load_def mem_save_def mem_delete_def mem_update_def mem_append_run_def
    mem_get_runs_def mem_stored_def mem_history_def Let_def finite_runs)

lemmas write_defs = atomic_write_jobs_def ensure_dirs_def

lemma file_sound_replace:
  "file_sound s \<Longrightarrow> replace_job j (file_jobs s) = Some ks \<Longrightarrow>
   file_sound (atomic_write_jobs ks s) \<and> file_stored (atomic_write_jobs ks s) = (file_stored s)(job_id j \<mapsto> j)"
  by (auto simp: write_defs file_sound_def file_stored_def file_jobs_def fun_eq_iff replace_job_find dest: replace_job_ids)

interpretation fstore: cron_store file_ops file_stored file_sound
proof
  fix s js assume "file_sound s" and "load_jobs file_ops s = Inr js"
  then show "distinct (map job_id js) \<and> (\<forall>j. j \<in> set js \<longleftrightarrow> file_stored s (job_id j) = Some j)"
    by (auto simp: file_ops_def file_load_def file_sound_def file_stored_def find_job_iff)
next
  fix s i j assume "file_sound s" "file_stored s i = Some j"
  then show "job_id j = i" by (auto simp: file_stored_def dest: find_job_SomeD)
next
  fix s j r s' assume s: "file_sound s" and op: "save_job file_ops j s = (r, s')"
  show "file_sound s' \<and> file_stored s' = (case r of Inr _ \<Rightarrow> (file_stored s)(job_id j \<mapsto> j) | Inl _ \<Rightarrow> file_stored s)"
  proof (cases "replace_job j (file_jobs s)")
    case None
    then have n: "find_job (job_id j) (file_jobs s) = None" by (simp add: replace_job_None)
    then have "job_id j \<notin> job_id ` set (file_jobs s)" by (simp add: find_job_None)
    moreover have "r = Inr ()" "s' = atomic_write_jobs (file_jobs s @ [j]) s"
      using op None by (simp_all add: file_ops_def file_save_def)
    ultimately show ?thesis
      using s n by (auto simp: write_defs file_sound_def file_stored_def file_jobs_def fun_eq_iff split: option.split)
  next
    case (Some ks)
    then show ?thesis
      using op file_sound_replace [OF s Some] by (simp add: file_ops_def file_save_def) (auto split: sum.splits)
  qed
next
  fix s i r s' assume s: "file_sound s" and op: "delete_job file_ops i s = (r, s')"
  have key: "(\<forall>j\<in>set (file_jobs s). job_id j \<noteq> i) \<longleftrightarrow> file_stored s i = None"
    by (auto simp: file_stored_def find_job_None)
  have "file_sound (atomic_write_jobs (filter (\<lambda>j. job_id j \<noteq> i) (file_jobs s)) s)"
    using s by (simp add: write_defs file_sound_def file_jobs_def distinct_map_filter)
  moreover have "file_stored (atomic_write_jobs (filter (\<lambda>j. job_id j \<noteq> i) (file_jobs s)) s) = (file_stored s)(i := None)"
    by (auto simp: write_defs file_stored_def file_jobs_def find_job_filter fun_eq_iff)
  ultimately show "file_sound s' \<and> file_stored s' = (case r of Inr _ \<Rightarrow> (file_stored s)(i := None) | Inl _ \<Rightarrow> file_stored s) \<and>
      (r = Inr () \<longrightarrow> file_stored s i \<noteq> None)"
    using s op key by (auto simp: file_ops_def file_delete_def Let_def length_filter_eq_iff split: if_splits)
next
  fix s j r s' assume s: "file_sound s" and op: "update_job file_ops j s = (r, s')"
  show "file_sound s' \<and> file_stored s' = (case r of Inr _ \<Rightarrow> (file_stored s)(job_id j \<mapsto> j) | Inl _ \<Rightarrow> file_stored s) \<and>
      (r = Inr () \<longleftrightarrow> file_stored s (job_id j) \<noteq> None)"
  proof (cases "replace_job j (file_jobs s)")
    case None
    moreover from this have "file_stored s (job_id j) = None"
      by (simp only: file_stored_def replace_job_None)
    ultimately show ?thesis
      using s op by (auto simp: file_ops_def file_update_def)
  next
    case (Some ks)
    then have "file_stored s (job_id j) \<noteq> None"
      using replace_job_None [of j "file_jobs s"] by (simp add: file_stored_def)
    then show ?thesis
      using op Some file_sound_replace [OF s Some] by (auto simp: file_ops_def file_update_def)
  qed
next
  fix s i r p s' assume "file_sound s" "append_run file_ops i r s = (p, s')"
  then show "file_sound s' \<and> file_stored s' = file_stored s"
    by (auto simp: file_ops_def file_append_run_def Let_def ensure_dirs_def file_stored_def file_sound_def file_jobs_def
        distinct_update split: runs_place.splits)
next
  fix s t p s' assume "file_sound s" "prune_runs_before file_ops t s = (p, s')"
  then show "file_sound s' \<and> file_stored s' = file_stored s"
    by (auto simp: file_ops_def file_prune_runs_before_def file_stored_def file_sound_def file_jobs_def fun_eq_iff
        split: if_splits)
qed

definition file_history :: "file_store \<Rightarrow> string \<Rightarrow> cron_run_record list" where
  "file_history s = runs_of (runs_files s)"

interpretation fstore: reliable_store file_ops file_stored file_sound file_history
  "\<lambda>s i. runs_path s i = Listed i" runs_dir_exists no_such_file
proof
  fix s t assume "file_sound s" "runs_dir_exists s"
  then show "\<exists>ks. list_session_keys_before file_ops t s = Inr ks \<and> distinct ks \<and>
      set ks = (\<Union>i. keys_before t (file_history s i))"
    using keys_listed [of "runs_files s" t]
    by (simp add: file_ops_def file_list_session_keys_before_def file_history_def file_sound_def)
next
  fix s t assume s: "file_sound s" "runs_dir_exists s"
  have "count_before t [] = 0" by (simp add: count_before_def)
  then show "fst (prune_runs_before file_ops t s) = Inr (\<Sum>i | file_history s i \<noteq> []. count_before t (file_history s i)) \<and>
      file_history (snd (prune_runs_before file_ops t s)) = (\<lambda>i. filter (\<lambda>r. t \<le> started_at_ms r) (file_history s i))"
    using s sum_runs [of "runs_files s" "count_before t"]
    by (simp add: file_ops_def file_prune_runs_before_def file_history_def file_sound_def runs_of_prune_fun)
next
  fix s i assume "file_sound s"
  show "fst (delete_job file_ops i s) = (if file_stored s i = None then Inl (JobNotFound i) else Inr ())"
    by (auto simp: file_ops_def file_delete_def Let_def length_filter_eq_iff file_stored_def find_job_None)
next
  fix s j assume "file_sound s"
  show "fst (update_job file_ops j s) = (if file_stored s (job_id j) = None then Inl (JobNotFound (job_id j)) else Inr ())"
    by (auto simp: file_ops_def file_update_def file_stored_def replace_job_None split: option.splits)
      (metis not_None_eq replace_job_None)
next
  fix s i j t and r :: cron_run_record
  assume s: "file_sound s"
  have js: "file_jobs s = [] \<or> runs_dir_exists s" using s by (auto simp: file_sound_def file_jobs_def split: option.splits)
  then show "runs_dir_exists (snd (save_job file_ops j s)) \<and> runs_dir_exists (snd (append_run file_ops i r s)) \<and>
      runs_dir_exists (snd (delete_job file_ops i s)) = runs_dir_exists s \<and>
      runs_dir_exists (snd (update_job file_ops j s)) = runs_dir_exists s \<and>
      runs_dir_exists (snd (prune_runs_before file_ops t s)) = runs_dir_exists s"
    by (auto simp: file_ops_def file_save_def file_append_run_def file_delete_def file_update_def
        file_prune_runs_before_def write_defs Let_def split: runs_place.split option.split)
next
  fix s i j t and r :: cron_run_record
  show "(\<lambda>i. runs_path (snd (save_job file_ops j s)) i = Listed i) = (\<lambda>i. runs_path s i = Listed i) \<and>
      (\<lambda>k. runs_path (snd (append_run file_ops i r s)) k = Listed k) = (\<lambda>i. runs_path s i = Listed i) \<and>
      (\<lambda>k. runs_path (snd (delete_job file_ops i s)) k = Listed k) = (\<lambda>i. runs_path s i = Listed i) \<and>
      (\<lambda>i. runs_path (snd (update_job file_ops j s)) i = Listed i) = (\<lambda>i. runs_path s i = Listed i) \<and>
      (\<lambda>i. runs_path (snd (prune_runs_before file_ops t s)) i = Listed i) = (\<lambda>i. runs_path s i = Listed i)"
    by (auto simp: file_ops_def file_save_def file_append_run_def file_delete_def file_update_def
        file_prune_runs_before_def write_defs Let_def fun_eq_iff split: runs_place.split option.split)
qed (auto simp: file_ops_def file_load_def file_save_def file_delete_def file_update_def file_append_run_def
    file_get_runs_def file_prune_runs_before_def file_list_session_keys_before_def write_defs
    file_history_def Let_def finite_runs split: option.splits)

section \<open>The abstract store\<close>

text \<open>A map of jobs and a history of runs for every identifier, its operations and what a client sees of
  them: the order in which jobs and session keys are listed is not part of the contract.\<close>

record abstract_store =
  a_jobs :: "string \<Rightarrow> cron_job option"
  a_runs :: "string \<Rightarrow> cron_run_record list"

datatype store_request =
    Load | Save cron_job | Delete string | Update cron_job
  | Append string cron_run_record | GetRuns string nat | Prune nat | SessionKeys nat

datatype store_answer =
    Jobs "cron_job set" | Done "cron_error + unit" | Runs "cron_run_record list"
  | Count nat | Keys "string set" | Failed cron_error

definition answer :: "('r \<Rightarrow> store_answer) \<Rightarrow> cron_error + 'r \<Rightarrow> store_answer" where
  "answer f r = (case r of Inl e \<Rightarrow> Failed e | Inr x \<Rightarrow> f x)"

fun serve :: "'s store_ops \<Rightarrow> 's \<Rightarrow> store_request \<Rightarrow> store_answer \<times> 's" where
  "serve ops s Load = (answer (Jobs \<circ> set) (load_jobs ops s), s)"
| "serve ops s (Save j) = apfst Done (save_job ops j s)"
| "serve ops s (Delete i) = apfst Done (delete_job ops i s)"
| "serve ops s (Update j) = apfst Done (update_job ops j s)"
| "serve ops s (Append i r) = apfst Done (append_run ops i r s)"
| "serve ops s (GetRuns i n) = (answer Runs (get_runs ops i n s), s)"
| "serve ops s (Prune t) = apfst (answer Count) (prune_runs_before ops t s)"
| "serve ops s (SessionKeys t) = (answer (Keys \<circ> set) (list_session_keys_before ops t s), s)"

fun abstract_serve :: "abstract_store \<Rightarrow> store_request \<Rightarrow> store_answer \<times> abstract_store" where
  "abstract_serve a Load = (Jobs (ran (a_jobs a)), a)"
| "abstract_serve a (Save j) = (Done (Inr ()), a\<lparr>a_jobs := (a_jobs a)(job_id j \<mapsto> j)\<rparr>)"
| "abstract_serve a (Delete i) =
     (if a_jobs a i = None then (Done (Inl (JobNotFound i)), a)
      else (Done (Inr ()), a\<lparr>a_jobs := (a_jobs a)(i := None)\<rparr>))"
| "abstract_serve a (Update j) =
     (if a_jobs a (job_id j) = None then (Done (Inl (JobNotFound (job_id j))), a)
      else (Done (Inr ()), a\<lparr>a_jobs := (a_jobs a)(job_id j \<mapsto> j)\<rparr>))"
| "abstract_serve a (Append i r) = (Done (Inr ()), a\<lparr>a_runs := (a_runs a)(i := a_runs a i @ [r])\<rparr>)"
| "abstract_serve a (GetRuns i n) = (Runs (drop (length (a_runs a i) - n) (a_runs a i)), a)"
| "abstract_serve a (Prune t) =
     (Count (\<Sum>i | a_runs a i \<noteq> []. count_before t (a_runs a i)),
      a\<lparr>a_runs := \<lambda>i. filter (\<lambda>r. t \<le> started_at_ms r) (a_runs a i)\<rparr>)"
| "abstract_serve a (SessionKeys t) = (Keys (\<Union>i. keys_before t (a_runs a i)), a)"

text \<open>A store that may not be ready: it refuses the requests over all runs until a job or a run is stored.\<close>

fun all_runs :: "store_request \<Rightarrow> bool" where
  "all_runs (Prune t) = True"
| "all_runs (SessionKeys t) = True"
| "all_runs _ = False"

fun stores :: "store_request \<Rightarrow> bool" where
  "stores (Save j) = True"
| "stores (Append i r) = True"
| "stores _ = False"

fun readied_serve :: "cron_error \<Rightarrow> bool \<times> abstract_store \<Rightarrow> store_request \<Rightarrow> store_answer \<times> bool \<times> abstract_store" where
  "readied_serve e (ready, a) q =
     (if all_runs q \<and> \<not> ready then (Failed e, ready, a)
      else apsnd (Pair (ready \<or> stores q)) (abstract_serve a q))"

text \<open>The identifiers of the runs that a request is about.\<close>

fun runs_asked :: "store_request \<Rightarrow> string list" where
  "runs_asked (Append i r) = [i]"
| "runs_asked (GetRuns i n) = [i]"
| "runs_asked _ = []"

fun answers :: "('s \<Rightarrow> store_request \<Rightarrow> store_answer \<times> 's) \<Rightarrow> 's \<Rightarrow> store_request list \<Rightarrow> store_answer list" where
  "answers f s [] = []"
| "answers f s (q # qs) = (case f s q of (r, s') \<Rightarrow> r # answers f s' qs)"

context reliable_store
begin

definition abstraction :: "'s \<Rightarrow> abstract_store" where
  "abstraction s = \<lparr>a_jobs = stored s, a_runs = history s\<rparr>"

lemma serve_refines:
  assumes "sound s" "serve ops s q = (r, s')" "\<forall>i\<in>set (runs_asked q). proper s i" "all_runs q \<Longrightarrow> ready s"
  shows "sound s' \<and> abstract_serve (abstraction s) q = (r, abstraction s')"
proof (cases q)
  case Load
  obtain js where js: "load_jobs ops s = Inr js" using load_total [OF assms(1)] by blast
  have "set js = ran (stored s)"
  proof (rule set_eqI)
    fix j
    have "j \<in> set js \<longleftrightarrow> stored s (job_id j) = Some j"
      using load_law [OF assms(1) js] by blast
    also have "\<dots> \<longleftrightarrow> (\<exists>i. stored s i = Some j)"
      using keyed_law [OF assms(1)] by metis
    finally show "j \<in> set js \<longleftrightarrow> j \<in> ran (stored s)" by (simp add: ran_def)
  qed
  then show ?thesis using assms(1,2) Load js by (auto simp: answer_def abstraction_def)
next
  case (Save j)
  obtain p where p: "save_job ops j s = (p, s')" "r = Done p"
    using assms(2) Save by (cases "save_job ops j s") auto
  then have "p = Inr ()" using save_total [OF assms(1), of j] by simp
  then show ?thesis
    using Save p save_law [OF assms(1) p(1)] jobs_keep_history [OF assms(1), of j "[]"]
    by (auto simp: abstraction_def)
next
  case (Delete i)
  obtain p where p: "delete_job ops i s = (p, s')" "r = Done p"
    using assms(2) Delete by (cases "delete_job ops i s") auto
  have h: "history s' = history s"
    using jobs_keep_history [OF assms(1), of undefined i] p(1) by simp
  show ?thesis
  proof (cases "stored s (i) = None")
    case True
    have e: "p = Inl (JobNotFound (i))"
      using delete_exact [OF assms(1), of i] p(1) True by simp
    have "sound s' \<and> stored s' = stored s"
      using delete_law [OF assms(1), of i "Inl (JobNotFound (i))" s'] p(1) e by simp
    then show ?thesis using Delete p(2) e h True by (simp add: abstraction_def)
  next
    case False
    have e: "p = Inr ()"
      using delete_exact [OF assms(1), of i] p(1) False by simp
    have "sound s' \<and> stored s' = (stored s)(i := None)"
      using delete_law [OF assms(1), of i "Inr ()" s'] p(1) e by simp
    then show ?thesis using Delete p(2) e h False by (simp add: abstraction_def)
  qed
next
  case (Update j)
  obtain p where p: "update_job ops j s = (p, s')" "r = Done p"
    using assms(2) Update by (cases "update_job ops j s") auto
  have h: "history s' = history s"
    using jobs_keep_history [OF assms(1), of j "[]"] p(1) by simp
  show ?thesis
  proof (cases "stored s (job_id j) = None")
    case True
    have e: "p = Inl (JobNotFound (job_id j))"
      using update_exact [OF assms(1), of j] p(1) True by simp
    have "sound s' \<and> stored s' = stored s"
      using update_law [OF assms(1), of j "Inl (JobNotFound (job_id j))" s'] p(1) e by simp
    then show ?thesis using Update p(2) e h True by (simp add: abstraction_def)
  next
    case False
    have e: "p = Inr ()"
      using update_exact [OF assms(1), of j] p(1) False by simp
    have "sound s' \<and> stored s' = (stored s)(job_id j \<mapsto> j)"
      using update_law [OF assms(1), of j "Inr ()" s'] p(1) e by simp
    then show ?thesis using Update p(2) e h False by (simp add: abstraction_def)
  qed
next
  case (Append i x)
  obtain p where p: "append_run ops i x s = (p, s')" "r = Done p"
    using assms(2) Append by (cases "append_run ops i x s") auto
  then show ?thesis
    using Append append_law [OF assms(1) p(1)] append_exact [OF assms(1), of i x] assms(3)
    by (simp add: abstraction_def)
next
  case (GetRuns i n)
  then show ?thesis using assms(1-3) runs_exact [OF assms(1)] by (auto simp: answer_def abstraction_def)
next
  case (Prune t)
  obtain p where p: "prune_runs_before ops t s = (p, s')" "r = answer Count p"
    using assms(2) Prune by (cases "prune_runs_before ops t s") auto
  then show ?thesis
    using Prune prune_law [OF assms(1) p(1)] prune_exact [OF assms(1), of t] assms(4)
    by (simp add: abstraction_def answer_def)
next
  case (SessionKeys t)
  obtain ks where ks: "list_session_keys_before ops t s = Inr ks" "set ks = (\<Union>i. keys_before t (history s i))"
    using keys_exact [OF assms(1), of t] assms(4) SessionKeys by auto
  have "r = Keys (set ks)" "s' = s" using assms(2) SessionKeys ks(1) by (simp_all add: answer_def)
  then show ?thesis using SessionKeys ks(2) assms(1) by (simp add: abstraction_def)
qed

lemma serve_gets_ready:
  assumes "sound s" "serve ops s q = (r, s')"
  shows "proper s' = proper s \<and> (ready s' \<longleftrightarrow> ready s \<or> stores q)"
proof -
  have "s' = snd (serve ops s q)" using assms(2) by simp
  then show ?thesis using getting_ready [OF assms(1)] proper_kept [OF assms(1)] by (cases q) simp_all
qed

lemma readied_refines:
  assumes "sound s" "serve ops s q = (r, s')" "\<forall>i\<in>set (runs_asked q). proper s i"
  shows "sound s' \<and> readied_serve unready (ready s, abstraction s) q = (r, ready s', abstraction s')"
proof (cases "all_runs q \<and> \<not> ready s")
  case True
  then have "r = Failed unready" "s' = s"
    using assms(2) unready_fails [OF assms(1)] by (cases q; simp add: answer_def)+
  then show ?thesis using True assms(1) by simp
next
  case False
  have "sound s' \<and> abstract_serve (abstraction s) q = (r, abstraction s')"
    by (rule serve_refines [OF assms]) (use False in simp)
  moreover have "ready s' \<longleftrightarrow> ready s \<or> stores q" using serve_gets_ready [OF assms(1,2)] by simp
  ultimately show ?thesis using False by auto
qed

lemma answers_refine:
  "sound s \<Longrightarrow> \<forall>q\<in>set qs. \<forall>i\<in>set (runs_asked q). proper s i \<Longrightarrow>
   answers (serve ops) s qs = answers (readied_serve unready) (ready s, abstraction s) qs"
proof (induction qs arbitrary: s)
  case (Cons q qs)
  obtain r s' where step: "serve ops s q = (r, s')" by (cases "serve ops s q")
  have q: "\<forall>i\<in>set (runs_asked q). proper s i" using Cons.prems(2) by simp
  have qs: "\<forall>q\<in>set qs. \<forall>i\<in>set (runs_asked q). proper s' i"
    using Cons.prems(2) serve_gets_ready [OF Cons.prems(1) step] by simp
  from readied_refines [OF Cons.prems(1) step q] Cons.IH [OF _ qs] step show ?case
    by (simp del: readied_serve.simps)
qed simp

end

lemma answers_readied: "answers (readied_serve e) (True, a) qs = answers abstract_serve a qs"
  by (induction qs arbitrary: a) (auto split: prod.splits)

section \<open>Properties\<close>

definition empty_abstract :: abstract_store where
  "empty_abstract = \<lparr>a_jobs = \<lambda>_. None, a_runs = \<lambda>_. []\<rparr>"

text \<open>C13: the stores are interchangeable, up to one difference. Starting empty, the in-memory store gives any
  sequence of requests the answers of the abstract store: a map of jobs and a history of runs for every
  identifier. The file store, asked for the runs of identifiers that are plain file names, gives those
  answers too, but refuses to prune and to list session keys until a job or a run has been stored: the
  directory it reads does not exist before. From then on the scheduler cannot tell which store it runs on,
  but for the order of listings.\<close>

theorem stores_interchangeable:
  assumes "list_all (\<lambda>q. list_all (\<lambda>i. place i = Listed i) (runs_asked q)) qs"
  shows "answers (serve memory_ops) new_memory qs = answers abstract_serve empty_abstract qs \<and>
    answers (serve file_ops) (new_files place) qs =
      answers (readied_serve no_such_file) (False, empty_abstract) qs"
proof
  have "mem_sound new_memory" by (simp add: mem_sound_def new_memory_def)
  moreover have "mstore.abstraction new_memory = empty_abstract"
    by (auto simp: mstore.abstraction_def empty_abstract_def new_memory_def mem_stored_def mem_history_def runs_of_def)
  ultimately show "answers (serve memory_ops) new_memory qs = answers abstract_serve empty_abstract qs"
    using mstore.answers_refine [of new_memory qs] by (simp add: answers_readied)
next
  let ?s = "new_files place"
  have "file_sound ?s" by (simp add: file_sound_def new_files_def file_jobs_def)
  moreover have "fstore.abstraction ?s = empty_abstract"
    by (auto simp: fstore.abstraction_def empty_abstract_def new_files_def file_stored_def file_jobs_def file_history_def
        runs_of_def)
  moreover have "\<forall>q\<in>set qs. \<forall>i\<in>set (runs_asked q). runs_path ?s i = Listed i" "\<not> runs_dir_exists ?s"
    using assms by (simp_all add: new_files_def list_all_iff)
  ultimately show "answers (serve file_ops) ?s qs = answers (readied_serve no_such_file) (False, empty_abstract) qs"
    using fstore.answers_refine [of ?s qs] by simp
qed

definition early_run :: cron_run_record where
  "early_run = \<lparr>run_job_id = ''a'', started_at_ms = 1, finished_at_ms = 2, run_status_of = RunOk, run_error = None,
     duration_ms = 1, run_output = None, input_tokens = None, output_tokens = None, session_key = None\<rparr>"

theorem stores_interchangeable_witness:
  "answers (serve file_ops) (new_files Listed) [Prune 5, Append ''a'' early_run, GetRuns ''a'' 3, Prune 5] =
   [Failed no_such_file, Done (Inr ()), Runs [early_run], Count 1]"
proof -
  have one: "{i :: string. (if i = ''a'' then [early_run] else []) \<noteq> []} = {''a''}" by auto
  show ?thesis
    using stores_interchangeable [of Listed "[Prune 5, Append ''a'' early_run, GetRuns ''a'' 3, Prune 5]"]
    by (simp add: empty_abstract_def one count_before_def early_run_def)
qed

section \<open>What the code does not do\<close>

text \<open>Nothing checks the identifier a job is created with. The runs of one with a \<open>..\<close> are written outside the
  directory of runs, where neither pruning nor the listing of session keys looks; those of one that names a
  directory are lost, with an error each time.\<close>

lemma stray_runs_are_kept:
  assumes "runs_path s i = Stray p"
  shows "runs_of (stray_files (snd (file_append_run i r s))) p = runs_of (stray_files s) p @ [r]"
    and "stray_files (snd (file_prune_runs_before t s)) = stray_files s"
    and "file_list_session_keys_before t (ensure_dirs s) = file_list_session_keys_before t (snd (file_append_run i r s))"
  using assms
  by (simp_all add: file_append_run_def file_prune_runs_before_def file_list_session_keys_before_def ensure_dirs_def)

lemma unplaced_runs_are_lost:
  "runs_path s i = Nowhere \<Longrightarrow> file_append_run i r s = (Inl no_such_file, ensure_dirs s)"
  by (simp add: file_append_run_def ensure_dirs_def)

end
