(* ===== verification/Cron_Service.thy ===== *)
theory Cron_Service
  imports Cron_Store
begin

text \<open>
  The cron scheduler (\<open>crates/cron/src/service.rs\<close>): the record \<open>cron_service\<close> is \<open>CronService\<close>, with
  one definition per method. Every method takes the clock as an argument, the store as the record of
  its operations, and the result of an agent turn as a value: the execution of a job is split at its
  await into \<open>start_run\<close> and \<open>finish_run\<close>, so that other operations can happen between. The calls
  of the callbacks are recorded in \<open>injected\<close> and \<open>notified\<close>, and \<open>wake_permit\<close> is the permit of
  \<open>tokio::sync::Notify\<close>. Metrics and logging are left out.
\<close>

section \<open>State\<close>

record rate_limit_config =
  max_per_window :: nat
  window_ms :: nat

definition default_rate_limit :: rate_limit_config where
  "default_rate_limit = \<lparr>max_per_window = 10, window_ms = 60000\<rparr>"

record rate_limiter =
  timestamps :: "nat list"
  limit_config :: rate_limit_config

definition new_limiter :: "rate_limit_config \<Rightarrow> rate_limiter" where
  "new_limiter config = \<lparr>timestamps = [], limit_config = config\<rparr>"

record agent_turn_result =
  turn_output :: string
  turn_input_tokens :: "nat option"
  turn_output_tokens :: "nat option"
  turn_session_key :: "string option"
  delivery_error :: "string option"

record 's cron_service =
  cstore :: 's
  jobs :: "cron_job list"
  timer_handle :: bool
  wake_permit :: bool
  running :: bool
  limiter :: rate_limiter
  wake_cooldown_ms :: nat
  injected :: "string list"
  notified :: "cron_notification list"

definition STUCK_THRESHOLD_MS :: nat where "STUCK_THRESHOLD_MS = 2 * 60 * 60 * 1000"
definition DEFAULT_WAKE_COOLDOWN_MS :: nat where "DEFAULT_WAKE_COOLDOWN_MS = 5 * 60 * 1000"
definition WAKE_REASON_EXEC_EVENT :: string where "WAKE_REASON_EXEC_EVENT = ''exec-event''"
definition WAKE_REASON_CRON_EVENT :: string where "WAKE_REASON_CRON_EVENT = ''cron-event''"
definition HEARTBEAT_ID :: string where "HEARTBEAT_ID = ''__heartbeat__''"

definition with_config :: "'s \<Rightarrow> rate_limit_config \<Rightarrow> nat \<Rightarrow> 's cron_service" where
  "with_config st config cooldown = \<lparr>cstore = st, jobs = [], timer_handle = False, wake_permit = False,
     running = False, limiter = new_limiter config, wake_cooldown_ms = cooldown, injected = [], notified = []\<rparr>"

definition new_service :: "'s \<Rightarrow> 's cron_service" where
  "new_service st = with_config st default_rate_limit DEFAULT_WAKE_COOLDOWN_MS"

section \<open>Updating the jobs\<close>

text \<open>\<open>jobs.iter_mut().find(|j| j.id == id)\<close>: the first job with the identifier is changed.\<close>

fun modify_job :: "string \<Rightarrow> (cron_job \<Rightarrow> cron_job) \<Rightarrow> cron_job list \<Rightarrow> cron_job list" where
  "modify_job i f [] = []"
| "modify_job i f (j # js) = (if job_id j = i then f j # js else j # modify_job i f js)"

definition set_next_run :: "nat option \<Rightarrow> cron_job \<Rightarrow> cron_job" where
  "set_next_run t j = j\<lparr>jstate := (jstate j)\<lparr>next_run_at_ms := t\<rparr>\<rparr>"

definition set_running :: "nat option \<Rightarrow> cron_job \<Rightarrow> cron_job" where
  "set_running t j = j\<lparr>jstate := (jstate j)\<lparr>running_at_ms := t\<rparr>\<rparr>"

definition update_job_state :: "string \<Rightarrow> (cron_job_state \<Rightarrow> cron_job_state) \<Rightarrow> 's cron_service \<Rightarrow> 's cron_service" where
  "update_job_state i f s = s\<lparr>jobs := modify_job i (\<lambda>j. j\<lparr>jstate := f (jstate j)\<rparr>) (jobs s)\<rparr>"

definition notify_one :: "'s cron_service \<Rightarrow> 's cron_service" where
  "notify_one s = s\<lparr>wake_permit := True\<rparr>"

definition notify :: "cron_notification \<Rightarrow> 's cron_service \<Rightarrow> 's cron_service" where
  "notify n s = s\<lparr>notified := notified s @ [n]\<rparr>"

section \<open>Rate limit\<close>

definition rate_check :: "nat \<Rightarrow> rate_limiter \<Rightarrow> (cron_error + unit) \<times> rate_limiter" where
  "rate_check now rl =
     (let ts = prune_window (window_ms (limit_config rl)) now (timestamps rl) in
      if max_per_window (limit_config rl) \<le> length ts
      then (Inl (CronMessage ''rate limit exceeded''), rl\<lparr>timestamps := ts\<rparr>)
      else (Inr (), rl\<lparr>timestamps := ts @ [now]\<rparr>))"

section \<open>Starting, stopping, waking\<close>

definition wake :: "string \<Rightarrow> nat \<Rightarrow> 's cron_service \<Rightarrow> 's cron_service" where
  "wake reason now s =
     (case find_job HEARTBEAT_ID (jobs s) of
        Some job \<Rightarrow>
          if enabled job \<and> running_at_ms (jstate job) = None then
            if reason = WAKE_REASON_EXEC_EVENT \<and> 0 < wake_cooldown_ms s \<and>
               (case last_run_at_ms (jstate job) of
                  Some last_run \<Rightarrow> now - last_run < wake_cooldown_ms s | None \<Rightarrow> False)
            then s
            else notify_one (s\<lparr>jobs := modify_job HEARTBEAT_ID (set_next_run (Some now)) (jobs s)\<rparr>)
          else notify_one s
      | None \<Rightarrow> notify_one s)"

definition recompute_all_next_runs :: "cron_library \<Rightarrow> nat \<Rightarrow> 's cron_service \<Rightarrow> 's cron_service" where
  "recompute_all_next_runs lib now s =
     s\<lparr>jobs := map (\<lambda>j. if enabled j then set_next_run (next_or_none lib (schedule j) now) j else j) (jobs s)\<rparr>"

definition start :: "'s store_ops \<Rightarrow> cron_library \<Rightarrow> nat \<Rightarrow> 's cron_service \<Rightarrow> (cron_error + unit) \<times> 's cron_service" where
  "start ops lib now s =
     (case load_jobs ops (cstore s) of
        Inl e \<Rightarrow> (Inl e, s)
      | Inr loaded \<Rightarrow>
          let s = recompute_all_next_runs lib now (s\<lparr>jobs := loaded\<rparr>) in
          (Inr (), s\<lparr>running := True, timer_handle := True\<rparr>))"

definition stop :: "'s cron_service \<Rightarrow> 's cron_service" where
  "stop s = (notify_one (s\<lparr>running := False\<rparr>))\<lparr>timer_handle := False\<rparr>"

section \<open>Adding, changing, removing\<close>

definition job_of :: "string \<Rightarrow> nat \<Rightarrow> cron_job_create \<Rightarrow> cron_job" where
  "job_of uuid now c = \<lparr>job_id = (case c_id c of Some i \<Rightarrow> i | None \<Rightarrow> uuid), job_name = c_name c,
     enabled = c_enabled c, delete_after_run = c_delete_after_run c, schedule = c_schedule c,
     job_payload = c_payload c, target = c_target c, jstate = default_job_state,
     job_sandbox = c_sandbox c, wake_mode = c_wake_mode c, system = c_system c,
     created_at_ms = now, updated_at_ms = now\<rparr>"

text \<open>The job to save: validated, and with its next run when it is enabled.\<close>

definition prepare_job :: "cron_library \<Rightarrow> nat \<Rightarrow> cron_job \<Rightarrow> cron_error + cron_job" where
  "prepare_job lib now job =
     (case validate_job_spec job of
        Inl e \<Rightarrow> Inl e
      | Inr _ \<Rightarrow>
          if enabled job then
            (case compute_next_run lib (schedule job) now of
               Inl e \<Rightarrow> Inl e
             | Inr t \<Rightarrow> Inr (set_next_run t job))
          else Inr job)"

definition add_prepared :: "'s store_ops \<Rightarrow> cron_library \<Rightarrow> string \<Rightarrow> nat \<Rightarrow> cron_job_create \<Rightarrow> 's cron_service \<Rightarrow>
    (cron_error + cron_job) \<times> 's cron_service" where
  "add_prepared ops lib uuid now c s =
     (case prepare_job lib now (job_of uuid now c) of
        Inl e \<Rightarrow> (Inl e, s)
      | Inr job \<Rightarrow>
          (case save_job ops job (cstore s) of
             (Inl e, st) \<Rightarrow> (Inl e, s\<lparr>cstore := st\<rparr>)
           | (Inr _, st) \<Rightarrow>
               (Inr job, notify (JobCreated job) (notify_one (s\<lparr>cstore := st, jobs := jobs s @ [job]\<rparr>)))))"

definition add :: "'s store_ops \<Rightarrow> cron_library \<Rightarrow> string \<Rightarrow> nat \<Rightarrow> cron_job_create \<Rightarrow> 's cron_service \<Rightarrow>
    (cron_error + cron_job) \<times> 's cron_service" where
  "add ops lib uuid now c s =
     (case (if c_system c then (Inr (), limiter s) else rate_check now (limiter s)) of
        (Inl e, rl) \<Rightarrow> (Inl e, s\<lparr>limiter := rl\<rparr>)
      | (Inr _, rl) \<Rightarrow> add_prepared ops lib uuid now c (s\<lparr>limiter := rl\<rparr>))"

abbreviation or_keep :: "'a option \<Rightarrow> 'a \<Rightarrow> 'a" where
  "or_keep p x \<equiv> (case p of Some y \<Rightarrow> y | None \<Rightarrow> x)"

definition apply_patch :: "cron_job_patch \<Rightarrow> nat \<Rightarrow> cron_job \<Rightarrow> cron_job" where
  "apply_patch p now j = j\<lparr>job_name := or_keep (p_name p) (job_name j),
     schedule := or_keep (p_schedule p) (schedule j), job_payload := or_keep (p_payload p) (job_payload j),
     target := or_keep (p_target p) (target j), enabled := or_keep (p_enabled p) (enabled j),
     delete_after_run := or_keep (p_delete_after_run p) (delete_after_run j),
     job_sandbox := or_keep (p_sandbox p) (job_sandbox j), wake_mode := or_keep (p_wake_mode p) (wake_mode j),
     updated_at_ms := now\<rparr>"

text \<open>The job is changed in place: what the patch has done stays when a later step fails.\<close>

definition update_in_place :: "cron_library \<Rightarrow> nat \<Rightarrow> cron_job \<Rightarrow> (cron_error + unit) \<times> cron_job" where
  "update_in_place lib now j =
     (case validate_job_spec j of
        Inl e \<Rightarrow> (Inl e, j)
      | Inr _ \<Rightarrow>
          if enabled j then
            (case compute_next_run lib (schedule j) now of
               Inl e \<Rightarrow> (Inl e, j)
             | Inr t \<Rightarrow> (Inr (), set_next_run t j))
          else (Inr (), set_next_run None j))"

definition update :: "'s store_ops \<Rightarrow> cron_library \<Rightarrow> nat \<Rightarrow> string \<Rightarrow> cron_job_patch \<Rightarrow> 's cron_service \<Rightarrow>
    (cron_error + cron_job) \<times> 's cron_service" where
  "update ops lib now i p s =
     (case find_job i (jobs s) of
        None \<Rightarrow> (Inl (JobNotFound i), s)
      | Some j \<Rightarrow>
          let (r, j') = update_in_place lib now (apply_patch p now j);
              s = s\<lparr>jobs := modify_job i (\<lambda>_. j') (jobs s)\<rparr> in
          (case r of
             Inl e \<Rightarrow> (Inl e, s)
           | Inr _ \<Rightarrow>
               (case update_job ops j' (cstore s) of
                  (Inl e, st) \<Rightarrow> (Inl e, s\<lparr>cstore := st\<rparr>)
                | (Inr _, st) \<Rightarrow> (Inr j', notify (JobUpdated j') (notify_one (s\<lparr>cstore := st\<rparr>))))))"

definition remove :: "'s store_ops \<Rightarrow> string \<Rightarrow> 's cron_service \<Rightarrow> (cron_error + unit) \<times> 's cron_service" where
  "remove ops i s =
     (case delete_job ops i (cstore s) of
        (Inl e, st) \<Rightarrow> (Inl e, s\<lparr>cstore := st\<rparr>)
      | (Inr _, st) \<Rightarrow>
          (Inr (), notify (JobRemoved i) (s\<lparr>cstore := st, jobs := filter (\<lambda>j. job_id j \<noteq> i) (jobs s)\<rparr>)))"

section \<open>Queries\<close>

definition list_jobs :: "'s cron_service \<Rightarrow> cron_job list" where
  "list_jobs s = jobs s"

definition runs :: "'s store_ops \<Rightarrow> string \<Rightarrow> nat \<Rightarrow> 's cron_service \<Rightarrow> cron_error + cron_run_record list" where
  "runs ops i limit s = get_runs ops i limit (cstore s)"

definition option_min :: "nat list \<Rightarrow> nat option" where
  "option_min ts = (if ts = [] then None else Some (Min (set ts)))"

definition status :: "'s cron_service \<Rightarrow> cron_status" where
  "status s =
     (let user_jobs = filter (\<lambda>j. \<not> system j) (jobs s) in
      \<lparr>status_running = running s, job_count = length user_jobs,
       enabled_count = length (filter enabled user_jobs),
       status_next_run = option_min (List.map_filter (\<lambda>j. next_run_at_ms (jstate j)) user_jobs)\<rparr>)"

definition ms_until_next_wake :: "nat \<Rightarrow> 's cron_service \<Rightarrow> nat" where
  "ms_until_next_wake now s =
     (case option_min (map (\<lambda>t. t - now)
             (List.map_filter (\<lambda>j. next_run_at_ms (jstate j)) (filter enabled (jobs s)))) of
        Some ms \<Rightarrow> ms
      | None \<Rightarrow> 60000)"

section \<open>Running jobs\<close>

definition is_due :: "nat \<Rightarrow> cron_job \<Rightarrow> bool" where
  "is_due now j \<longleftrightarrow> enabled j \<and>
     (case next_run_at_ms (jstate j) of Some t \<Rightarrow> t \<le> now | None \<Rightarrow> False) \<and>
     running_at_ms (jstate j) = None"

text \<open>The due jobs are marked as running before they are started.\<close>

definition mark_due :: "nat \<Rightarrow> 's cron_service \<Rightarrow> cron_job list \<times> 's cron_service" where
  "mark_due now s =
     (map (set_running (Some now)) (filter (is_due now) (jobs s)),
      s\<lparr>jobs := map (\<lambda>j. if is_due now j then set_running (Some now) j else j) (jobs s)\<rparr>)"

definition is_stuck :: "nat \<Rightarrow> cron_job \<Rightarrow> bool" where
  "is_stuck now j =
     (case running_at_ms (jstate j) of Some t \<Rightarrow> STUCK_THRESHOLD_MS < now - t | None \<Rightarrow> False)"

definition mark_stuck :: "cron_job \<Rightarrow> cron_job" where
  "mark_stuck j = j\<lparr>jstate := (jstate j)\<lparr>running_at_ms := None, last_status := Some RunError,
     last_error := Some ''stuck: exceeded 2h timeout''\<rparr>\<rparr>"

definition clear_stuck_jobs :: "nat \<Rightarrow> 's cron_service \<Rightarrow> 's cron_service" where
  "clear_stuck_jobs now s = s\<lparr>jobs := map (\<lambda>j. if is_stuck now j then mark_stuck j else j) (jobs s)\<rparr>"

text \<open>The jobs to start, and the state.\<close>

definition process_due_jobs :: "nat \<Rightarrow> 's cron_service \<Rightarrow> cron_job list \<times> 's cron_service" where
  "process_due_jobs now s = (case mark_due now s of (due, s) \<Rightarrow> (due, clear_stuck_jobs now s))"

text \<open>A turn of the timer loop: how long to sleep (\<open>None\<close>: the loop ends), and what happens when the sleep
  is over; a notification takes the permit and starts the next turn.\<close>

definition timer_sleep :: "nat \<Rightarrow> 's cron_service \<Rightarrow> nat option" where
  "timer_sleep now s = (if running s then Some (ms_until_next_wake now s) else None)"

definition timer_notified :: "'s cron_service \<Rightarrow> 's cron_service" where
  "timer_notified s = s\<lparr>wake_permit := False\<rparr>"

definition timer_fire :: "nat \<Rightarrow> 's cron_service \<Rightarrow> cron_job list option \<times> 's cron_service" where
  "timer_fire now s =
     (if running s then (case process_due_jobs now s of (due, s) \<Rightarrow> (Some due, s)) else (None, s))"

text \<open>The check before a run by hand: the job to execute, as it was before it is marked.\<close>

definition run_now :: "string \<Rightarrow> bool \<Rightarrow> nat \<Rightarrow> 's cron_service \<Rightarrow> (cron_error + cron_job) \<times> 's cron_service" where
  "run_now i force now s =
     (case find_job i (jobs s) of
        None \<Rightarrow> (Inl (JobNotFound i), s)
      | Some job \<Rightarrow>
          if \<not> enabled job \<and> \<not> force
          then (Inl (CronMessage ''job is disabled (use force=true to override)''), s)
          else (Inr job, update_job_state (job_id job) (\<lambda>st. st\<lparr>running_at_ms := Some now\<rparr>) s))"

record agent_turn_request =
  req_turn :: agent_turn
  req_target :: session_target
  req_sandbox :: cron_sandbox_config

text \<open>An execution up to its await: a system event is injected at once, an agent turn is requested.\<close>

definition start_run :: "cron_job \<Rightarrow> 's cron_service \<Rightarrow> (agent_turn_request + agent_turn_result) \<times> 's cron_service" where
  "start_run job s =
     (case job_payload job of
        SystemEvent t \<Rightarrow>
          (Inr \<lparr>turn_output = ''system event injected'', turn_input_tokens = None, turn_output_tokens = None,
             turn_session_key = None, delivery_error = None\<rparr>, s\<lparr>injected := injected s @ [t]\<rparr>)
      | AgentTurn a \<Rightarrow> (Inl \<lparr>req_turn = a, req_target = target job, req_sandbox = job_sandbox job\<rparr>, s))"

definition show_error :: "cron_error \<Rightarrow> string" where
  "show_error e =
     (case e of CronIo t \<Rightarrow> t | CronMessage msg \<Rightarrow> msg | JobNotFound i \<Rightarrow> ''job not found: '' @ i
      | UnknownTimezone z \<Rightarrow> ''unknown timezone: '' @ z | External t \<Rightarrow> t)"

text \<open>\<open>finished - started\<close> on \<open>u64\<close>, which wraps when the clock went back.\<close>

definition u64_sub :: "nat \<Rightarrow> nat \<Rightarrow> nat" where
  "u64_sub a b = (if b \<le> a then a - b else 2 ^ 64 + a - b)"

definition run_record :: "cron_job \<Rightarrow> nat \<Rightarrow> nat \<Rightarrow> cron_error + agent_turn_result \<Rightarrow> cron_run_record" where
  "run_record job started finished result =
     (case result of
        Inr r \<Rightarrow> \<lparr>run_job_id = job_id job, started_at_ms = started, finished_at_ms = finished,
          run_status_of = (case delivery_error r of Some _ \<Rightarrow> RunError | None \<Rightarrow> RunOk),
          run_error = delivery_error r, duration_ms = u64_sub finished started,
          run_output = Some (turn_output r), input_tokens = turn_input_tokens r,
          output_tokens = turn_output_tokens r, session_key = turn_session_key r\<rparr>
      | Inl e \<Rightarrow> \<lparr>run_job_id = job_id job, started_at_ms = started, finished_at_ms = finished,
          run_status_of = RunError, run_error = Some (show_error e), duration_ms = u64_sub finished started,
          run_output = None, input_tokens = None, output_tokens = None, session_key = None\<rparr>)"

definition finished_state :: "cron_run_record \<Rightarrow> nat option \<Rightarrow> cron_job_state \<Rightarrow> cron_job_state" where
  "finished_state run next st = st\<lparr>running_at_ms := None, last_run_at_ms := Some (finished_at_ms run),
     last_status := Some (run_status_of run), last_error := run_error run,
     last_duration_ms := Some (duration_ms run), next_run_at_ms := next\<rparr>"

text \<open>After the run: a job without a next run is deleted or disabled, another is persisted.\<close>

definition settle_job :: "'s store_ops \<Rightarrow> cron_job \<Rightarrow> nat option \<Rightarrow> 's cron_service \<Rightarrow> 's cron_service" where
  "settle_job ops job next s =
     (if next = None then
        if delete_after_run job then snd (remove ops (job_id job) s)
        else (case find_job (job_id job) (jobs s) of
                None \<Rightarrow> s
              | Some j \<Rightarrow>
                  let j' = j\<lparr>enabled := False\<rparr> in
                  s\<lparr>jobs := modify_job (job_id job) (\<lambda>_. j') (jobs s), cstore := snd (update_job ops j' (cstore s))\<rparr>)
      else (case find_job (job_id job) (jobs s) of
              None \<Rightarrow> s
            | Some j \<Rightarrow> s\<lparr>cstore := snd (update_job ops j (cstore s))\<rparr>))"

text \<open>The rest of an execution: \<open>result\<close> is what the turn returned, \<open>finished\<close>, \<open>now\<close> and \<open>woken\<close> are
  the three readings of the clock.\<close>

definition finish_run :: "'s store_ops \<Rightarrow> cron_library \<Rightarrow> cron_job \<Rightarrow> nat \<Rightarrow> cron_error + agent_turn_result \<Rightarrow>
    nat \<Rightarrow> nat \<Rightarrow> nat \<Rightarrow> 's cron_service \<Rightarrow> cron_run_record \<times> 's cron_service" where
  "finish_run ops lib job started result finished now woken s =
     (let run = run_record job started finished result;
          s = s\<lparr>cstore := snd (append_run ops (job_id job) run (cstore s))\<rparr>;
          next = next_or_none lib (schedule job) now;
          s = update_job_state (job_id job) (finished_state run next) s;
          s = settle_job ops job next s;
          s = (if wake_mode job = WakeNow \<and> job_id job \<noteq> HEARTBEAT_ID
               then wake WAKE_REASON_CRON_EVENT woken s else s)
      in (run, s))"

section \<open>The service as a machine\<close>

text \<open>The operations, with the executions in flight: the job as it was when it was started, and when.\<close>

datatype cron_event =
    StartService nat
  | StopService
  | AddJob string nat cron_job_create
  | UpdateJob nat string cron_job_patch
  | RemoveJob string
  | WakeHeartbeat string nat
  | Tick nat
  | RunNow string bool nat
  | Finish nat "cron_error + agent_turn_result" nat nat nat

type_synonym 's cron_machine = "'s cron_service \<times> (cron_job \<times> nat) list"

definition begin_run :: "nat \<Rightarrow> 's cron_machine \<Rightarrow> cron_job \<Rightarrow> 's cron_machine" where
  "begin_run now m job = (snd (start_run job (fst m)), snd m @ [(job, now)])"

fun cron_step :: "'s store_ops \<Rightarrow> cron_library \<Rightarrow> 's cron_machine \<Rightarrow> cron_event \<Rightarrow> 's cron_machine" where
  "cron_step ops lib (s, fl) (StartService now) = (snd (start ops lib now s), fl)"
| "cron_step ops lib (s, fl) StopService = (stop s, fl)"
| "cron_step ops lib (s, fl) (AddJob uuid now c) = (snd (add ops lib uuid now c s), fl)"
| "cron_step ops lib (s, fl) (UpdateJob now i p) = (snd (update ops lib now i p s), fl)"
| "cron_step ops lib (s, fl) (RemoveJob i) = (snd (remove ops i s), fl)"
| "cron_step ops lib (s, fl) (WakeHeartbeat reason now) = (wake reason now s, fl)"
| "cron_step ops lib (s, fl) (Tick now) =
     (case timer_fire now s of
        (None, s) \<Rightarrow> (s, fl)
      | (Some due, s) \<Rightarrow> foldl (begin_run now) (s, fl) due)"
| "cron_step ops lib (s, fl) (RunNow i force now) =
     (case run_now i force now s of
        (Inl _, s) \<Rightarrow> (s, fl)
      | (Inr job, s) \<Rightarrow> begin_run now (s, fl) job)"
| "cron_step ops lib (s, fl) (Finish k result finished now woken) =
     (if k < length fl then
        (snd (finish_run ops lib (fst (fl ! k)) (snd (fl ! k)) result finished now woken s),
         take k fl @ drop (Suc k) fl)
      else (s, fl))"

section \<open>Lemmas\<close>

lemma job_id_set_next_run [simp]: "job_id (set_next_run t j) = job_id j"
  by (simp add: set_next_run_def)

lemma job_id_set_running [simp]: "job_id (set_running t j) = job_id j"
  by (simp add: set_running_def)

lemma job_id_mark_stuck [simp]: "job_id (mark_stuck j) = job_id j"
  by (simp add: mark_stuck_def)

lemma job_id_apply_patch [simp]: "job_id (apply_patch p now j) = job_id j"
  by (simp add: apply_patch_def)

lemma job_id_update_in_place: "update_in_place lib now j = (r, j') \<Longrightarrow> job_id j' = job_id j"
  by (auto simp: update_in_place_def split: sum.splits if_splits)

lemma job_id_prepare: "prepare_job lib now j = Inr j' \<Longrightarrow> job_id j' = job_id j"
  by (auto simp: prepare_job_def split: sum.splits if_splits)

lemma modify_job_ids: "(\<And>j. job_id j = i \<Longrightarrow> job_id (f j) = i) \<Longrightarrow> map job_id (modify_job i f js) = map job_id js"
  by (induction js) auto

lemma modify_job_ids_set [simp]:
  "(\<And>j. job_id j = i \<Longrightarrow> job_id (f j) = i) \<Longrightarrow> job_id ` set (modify_job i f js) = job_id ` set js"
  using modify_job_ids [of i f js] by (metis set_map)

lemma ids_map: "(\<And>j. job_id (f j) = job_id j) \<Longrightarrow> job_id ` set (map f js) = job_id ` set js"
  by (simp add: image_image)

lemma find_modify:
  "(\<And>j. job_id j = i \<Longrightarrow> job_id (f j) = i) \<Longrightarrow>
   find_job k (modify_job i f js) = (if k = i then map_option f (find_job i js) else find_job k js)"
  by (induction js) auto

lemma modify_job_other: "k \<noteq> i \<Longrightarrow> (\<And>j. job_id j = i \<Longrightarrow> job_id (f j) = i) \<Longrightarrow>
   j \<in> set (modify_job i f js) \<and> job_id j = k \<longleftrightarrow> j \<in> set js \<and> job_id j = k"
  by (induction js) auto

lemma set_modify_job: "j \<in> set (modify_job i f js) \<Longrightarrow> j \<in> set js \<or> (\<exists>k\<in>set js. job_id k = i \<and> j = f k)"
  by (induction js) (auto split: if_splits)

text \<open>The service without its jobs and its store.\<close>

lemma notify_simps [simp]:
  "jobs (notify_one s) = jobs s" "cstore (notify_one s) = cstore s" "limiter (notify_one s) = limiter s"
  "jobs (notify n s) = jobs s" "cstore (notify n s) = cstore s" "limiter (notify n s) = limiter s"
  by (simp_all add: notify_one_def notify_def)

lemma wake_simps [simp]: "cstore (wake r now s) = cstore s" "limiter (wake r now s) = limiter s"
  "job_id ` set (jobs (wake r now s)) = job_id ` set (jobs s)"
  by (auto simp: wake_def split: option.splits)

lemma stop_simps [simp]: "jobs (stop s) = jobs s" "cstore (stop s) = cstore s" "limiter (stop s) = limiter s"
  by (simp_all add: stop_def)

lemma begin_run_simps [simp]:
  "jobs (fst (foldl (begin_run now) m due)) = jobs (fst m)" "cstore (fst (foldl (begin_run now) m due)) = cstore (fst m)"
  "limiter (fst (foldl (begin_run now) m due)) = limiter (fst m)"
  by (induction due arbitrary: m) (auto simp: begin_run_def start_run_def split: cron_payload.splits)

lemma begin_run_one [simp]:
  "jobs (fst (begin_run now m j)) = jobs (fst m)" "cstore (fst (begin_run now m j)) = cstore (fst m)"
  "limiter (fst (begin_run now m j)) = limiter (fst m)"
  using begin_run_simps [of now m "[j]"] by simp_all

lemma jobs_process: "jobs (snd (process_due_jobs now s)) =
    map (\<lambda>j. if is_stuck now j then mark_stuck j else j)
      (map (\<lambda>j. if is_due now j then set_running (Some now) j else j) (jobs s))"
  by (simp add: process_due_jobs_def mark_due_def clear_stuck_jobs_def)

lemma process_simps [simp]:
  "cstore (snd (process_due_jobs now s)) = cstore s" "limiter (snd (process_due_jobs now s)) = limiter s"
  "job_id ` set (jobs (snd (process_due_jobs now s))) = job_id ` set (jobs s)"
proof -
  show "job_id ` set (jobs (snd (process_due_jobs now s))) = job_id ` set (jobs s)"
    unfolding jobs_process
    by (simp only: ids_map job_id_set_running job_id_mark_stuck if_distrib [of job_id] if_cancel)
qed (simp_all add: process_due_jobs_def mark_due_def clear_stuck_jobs_def)

lemma timer_fire_simps [simp]:
  "cstore (snd (timer_fire now s)) = cstore s" "limiter (snd (timer_fire now s)) = limiter s"
  "job_id ` set (jobs (snd (timer_fire now s))) = job_id ` set (jobs s)"
  using process_simps [of now s] by (auto simp: timer_fire_def simp del: process_simps split: prod.splits)

lemma run_now_simps [simp]:
  "cstore (snd (run_now i force now s)) = cstore s" "limiter (snd (run_now i force now s)) = limiter s"
  "job_id ` set (jobs (snd (run_now i force now s))) = job_id ` set (jobs s)"
  by (auto simp: run_now_def update_job_state_def split: option.splits)

lemma update_job_state_simps [simp]:
  "cstore (update_job_state i f s) = cstore s" "limiter (update_job_state i f s) = limiter s"
  "job_id ` set (jobs (update_job_state i f s)) = job_id ` set (jobs s)"
  by (simp_all add: update_job_state_def)

lemma recompute_simps [simp]:
  "cstore (recompute_all_next_runs lib now s) = cstore s" "limiter (recompute_all_next_runs lib now s) = limiter s"
  "job_id ` set (jobs (recompute_all_next_runs lib now s)) = job_id ` set (jobs s)"
proof -
  show "job_id ` set (jobs (recompute_all_next_runs lib now s)) = job_id ` set (jobs s)"
    using ids_map [of "\<lambda>j. if enabled j then set_next_run (next_or_none lib (schedule j) now) j else j" "jobs s"]
    by (simp add: recompute_all_next_runs_def)
qed (simp_all add: recompute_all_next_runs_def)

section \<open>Memory and store\<close>

text \<open>The scheduler knows exactly the jobs its store holds.\<close>

context cron_store
begin

definition agrees :: "'s cron_service \<Rightarrow> bool" where
  "agrees s \<longleftrightarrow> sound (cstore s) \<and> job_id ` set (jobs s) = dom (stored (cstore s))"

lemma agrees_start: "agrees s \<Longrightarrow> agrees (snd (start ops lib now s))"
  using load_ids [of "cstore s"] by (auto simp: agrees_def start_def Let_def split: sum.splits)

lemma agrees_add_prepared:
  assumes "agrees s"
  shows "agrees (snd (add_prepared ops lib uuid now c s))"
proof -
  have "agrees (s\<lparr>cstore := st\<rparr>)" if "save_job ops j (cstore s) = (Inl e, st)" for st j e
    using assms save_err [OF _ that] by (simp add: agrees_def)
  moreover have "agrees (notify n (notify_one (s\<lparr>cstore := st, jobs := jobs s @ [j]\<rparr>)))"
    if "save_job ops j (cstore s) = (Inr u, st)" for st j u n
    using assms save_dom [OF _ that] by (simp add: agrees_def)
  ultimately show ?thesis
    using assms by (auto simp: add_prepared_def split: sum.splits prod.splits)
qed

lemma agrees_add:
  assumes "agrees s"
  shows "agrees (snd (add ops lib uuid now c s))"
proof -
  have lim: "agrees (s\<lparr>limiter := rl\<rparr>)" for rl using assms by (simp add: agrees_def)
  show ?thesis
  proof (cases "c_system c")
    case True
    then show ?thesis using agrees_add_prepared [OF assms] by (simp add: add_def)
  next
    case False
    then show ?thesis
      using lim agrees_add_prepared [OF lim]
      by (cases "rate_check now (limiter s)") (simp add: add_def split: sum.splits)
  qed
qed

lemma agrees_update:
  assumes "agrees s"
  shows "agrees (snd (update ops lib now i p s))"
proof (cases "find_job i (jobs s)")
  case None
  then show ?thesis using assms by (simp add: update_def)
next
  case (Some j)
  obtain r j' where u: "update_in_place lib now (apply_patch p now j) = (r, j')" by fastforce
  have "job_id j = i" using find_job_SomeD [OF Some] by simp
  then have id: "job_id j' = i" using job_id_update_in_place [OF u] by simp
  let ?js = "modify_job i (\<lambda>_. j') (jobs s)"
  have ids: "job_id ` set ?js = job_id ` set (jobs s)" using id by (intro modify_job_ids_set)
  obtain q st where st: "update_job ops j' (cstore s) = (q, st)" by fastforce
  have "agrees (s\<lparr>jobs := ?js\<rparr>)" using assms ids by (simp add: agrees_def)
  moreover have "agrees (s\<lparr>jobs := ?js, cstore := st\<rparr>)"
    using assms ids update_dom [OF _ st] by (simp add: agrees_def)
  moreover from this have "agrees (notify n (notify_one (s\<lparr>jobs := ?js, cstore := st\<rparr>)))" for n
    by (simp add: agrees_def)
  ultimately show ?thesis
    using Some u st by (auto simp: update_def Let_def split: sum.splits)
qed

lemma agrees_remove:
  assumes "agrees s"
  shows "agrees (snd (remove ops i s))"
proof (cases "delete_job ops i (cstore s)")
  case (Pair r st)
  then show ?thesis
  proof (cases r)
    case (Inl e)
    then show ?thesis
      using Pair assms delete_err [of "cstore s" i e st] by (simp add: remove_def agrees_def)
  next
    case (Inr u)
    have "job_id ` {j \<in> set (jobs s). job_id j \<noteq> i} = job_id ` set (jobs s) - {i}" by auto
    then show ?thesis
      using Pair Inr assms delete_dom [of "cstore s" i u st] by (simp add: remove_def agrees_def)
  qed
qed

lemma agrees_settle:
  assumes "agrees s"
  shows "agrees (snd (remove ops (job_id job) s))" "agrees (settle_job ops job next s)"
proof -
  show r: "agrees (snd (remove ops (job_id job) s))" by (rule agrees_remove [OF assms])
  have u: "sound (snd (update_job ops j (cstore s))) \<and>
      dom (stored (snd (update_job ops j (cstore s)))) = dom (stored (cstore s))" for j
    using update_dom [of "cstore s" j] assms by (cases "update_job ops j (cstore s)") (simp add: agrees_def)
  have "job_id ` set (modify_job i (\<lambda>_. j\<lparr>enabled := False\<rparr>) (jobs s)) = job_id ` set (jobs s)"
    if "find_job i (jobs s) = Some j" for i j
    using find_job_SomeD [OF that] by (intro modify_job_ids_set) simp
  then show "agrees (settle_job ops job next s)"
    using r assms u by (auto simp: settle_job_def Let_def agrees_def split: option.splits)
qed

lemma agrees_finish:
  assumes "agrees s"
  shows "agrees (snd (finish_run ops lib job started result finished now woken s))"
proof -
  let ?run = "run_record job started finished result"
  have "agrees (s\<lparr>cstore := snd (append_run ops (job_id job) ?run (cstore s))\<rparr>)"
    using assms append_law [of "cstore s" "job_id job" ?run]
    by (cases "append_run ops (job_id job) ?run (cstore s)") (simp add: agrees_def)
  then have "agrees (update_job_state (job_id job) f (s\<lparr>cstore := snd (append_run ops (job_id job) ?run (cstore s))\<rparr>))" for f
    by (simp add: agrees_def)
  from agrees_settle(2) [OF this] have settled: "agrees (settle_job ops job next (update_job_state (job_id job) f
      (s\<lparr>cstore := snd (append_run ops (job_id job) ?run (cstore s))\<rparr>)))" for f "next" .
  then have "agrees (wake r t (settle_job ops job next (update_job_state (job_id job) f
      (s\<lparr>cstore := snd (append_run ops (job_id job) ?run (cstore s))\<rparr>))))" for f "next" r t
    by (simp add: agrees_def)
  with settled show ?thesis by (simp add: finish_run_def Let_def)
qed

lemma agrees_step: "agrees (fst m) \<Longrightarrow> agrees (fst (cron_step ops lib m e))"
proof (cases m)
  case (Pair s fl)
  assume a: "agrees (fst m)"
  then have s: "agrees s" using Pair by simp
  show ?thesis
  proof (cases e)
    case (Tick now)
    have "agrees (snd (timer_fire now s))" using s by (simp add: agrees_def)
    then show ?thesis
      unfolding Pair Tick by (cases "timer_fire now s") (auto simp: agrees_def split: option.splits)
  next
    case (RunNow i force now)
    have "agrees (snd (run_now i force now s))" using s by (simp add: agrees_def)
    then show ?thesis
      unfolding Pair RunNow by (cases "run_now i force now s") (auto simp: agrees_def split: sum.splits)
  next
    case (WakeHeartbeat r now)
    then show ?thesis unfolding Pair using s by (simp add: agrees_def)
  next
    case StopService
    then show ?thesis unfolding Pair using s by (simp add: agrees_def)
  qed (use s Pair in \<open>simp_all add: agrees_start agrees_add agrees_update agrees_remove agrees_finish\<close>)
qed

end

section \<open>The rate limit\<close>

lemma limiter_add: "limiter (snd (add ops lib uuid now c s)) =
    (if c_system c then limiter s else snd (rate_check now (limiter s)))"
proof -
  have p: "limiter (snd (add_prepared ops lib uuid now c s)) = limiter s" for s :: "'a cron_service"
    by (auto simp: add_prepared_def split: sum.splits prod.splits)
  show ?thesis
    by (cases "rate_check now (limiter s)") (auto simp: add_def p split: sum.splits)
qed

lemma limit_config_rate_check [simp]: "limit_config (snd (rate_check now rl)) = limit_config rl"
  by (simp add: rate_check_def Let_def)

type_synonym creation = "string \<times> nat \<times> cron_job_create"

definition add_step :: "'s store_ops \<Rightarrow> cron_library \<Rightarrow> 's cron_service \<Rightarrow> creation \<Rightarrow> 's cron_service" where
  "add_step ops lib s e = (case e of (uuid, now, c) \<Rightarrow> snd (add ops lib uuid now c s))"

definition creation_time :: "creation \<Rightarrow> nat" where
  "creation_time e = fst (snd e)"

text \<open>A job of the user that was created, and a request of the user that passed the limiter.\<close>

definition creates :: "'s store_ops \<Rightarrow> cron_library \<Rightarrow> 's cron_service \<Rightarrow> creation \<Rightarrow> bool" where
  "creates ops lib s e =
     (case e of (uuid, now, c) \<Rightarrow> \<not> c_system c \<and> (case fst (add ops lib uuid now c s) of Inr _ \<Rightarrow> True | Inl _ \<Rightarrow> False))"

definition charged :: "'s cron_service \<Rightarrow> creation \<Rightarrow> bool" where
  "charged s e = (case e of (uuid, now, c) \<Rightarrow> \<not> c_system c \<and> fst (rate_check now (limiter s)) = Inr ())"

lemma creates_charged: "creates ops lib s e \<Longrightarrow> charged s e"
  by (cases e; cases "rate_check (fst (snd e)) (limiter s)")
    (auto simp: creates_def charged_def add_def split: sum.splits if_splits)

interpretation creation_window: sliding_window "add_step ops lib" creation_time
    "\<lambda>s e. limit_config (limiter s) = config \<and> charged s e"
    "\<lambda>s. if limit_config (limiter s) = config then timestamps (limiter s) else []"
    "window_ms config" "max_per_window config"
  for ops :: "'s store_ops" and lib :: cron_library and config :: rate_limit_config
proof
  fix s :: "'s cron_service" and e :: creation
  assume "limit_config (limiter s) = config \<and> charged s e"
  then show "(if limit_config (limiter (add_step ops lib s e)) = config
       then timestamps (limiter (add_step ops lib s e)) else []) =
      prune_window (window_ms config) (creation_time e)
        (if limit_config (limiter s) = config then timestamps (limiter s) else []) @ [creation_time e] \<and>
      length (prune_window (window_ms config) (creation_time e)
        (if limit_config (limiter s) = config then timestamps (limiter s) else [])) < max_per_window config"
    by (cases e) (auto simp: charged_def add_step_def creation_time_def limiter_add rate_check_def Let_def split: if_splits)
next
  fix s :: "'s cron_service" and e :: creation
  assume "\<not> (limit_config (limiter s) = config \<and> charged s e)"
  then show "(if limit_config (limiter (add_step ops lib s e)) = config
       then timestamps (limiter (add_step ops lib s e)) else []) =
      (if limit_config (limiter s) = config then timestamps (limiter s) else []) \<or>
      (if limit_config (limiter (add_step ops lib s e)) = config
       then timestamps (limiter (add_step ops lib s e)) else []) =
      prune_window (window_ms config) (creation_time e)
        (if limit_config (limiter s) = config then timestamps (limiter s) else [])"
    by (cases e) (auto simp: charged_def add_step_def creation_time_def limiter_add rate_check_def Let_def split: if_splits)
qed

lemma admissions_mono:
  assumes "\<And>s e. P s \<Longrightarrow> P (step s e)" "\<And>s e. P s \<Longrightarrow> A s e \<Longrightarrow> B s e"
  shows "P s \<Longrightarrow> length (in_window w t (admissions A time step s es)) \<le> length (in_window w t (admissions B time step s es))"
proof (induction es arbitrary: s)
  case (Cons e es)
  then show ?case using Cons.IH [OF assms(1) [OF Cons.prems], of e] assms(2) [OF Cons.prems, of e]
    by (auto simp: in_window_def)
qed simp

section \<open>The timer\<close>

lemma is_due_not_running: "is_due now j \<Longrightarrow> running_at_ms (jstate j) = None"
  by (simp add: is_due_def)

lemma running_set_running [simp]: "running_at_ms (jstate (set_running t j)) = t"
  by (simp add: set_running_def)

lemma running_set_next_run [simp]: "running_at_ms (jstate (set_next_run t j)) = running_at_ms (jstate j)"
  by (simp add: set_next_run_def)

lemma running_apply_patch [simp]: "running_at_ms (jstate (apply_patch p now j)) = running_at_ms (jstate j)"
  by (simp add: apply_patch_def)

lemma running_update_in_place:
  "update_in_place lib now j = (r, j') \<Longrightarrow> running_at_ms (jstate j') = running_at_ms (jstate j)"
  by (auto simp: update_in_place_def split: sum.splits if_splits)

lemma due_exact:
  "timer_fire now s = (Some due, s') \<Longrightarrow> running s \<and> due = map (set_running (Some now)) (filter (is_due now) (jobs s))"
  by (auto simp: timer_fire_def process_due_jobs_def mark_due_def split: if_splits prod.splits)

lemma jobs_timer_fire: "jobs (snd (timer_fire now s)) = (if running s then jobs (snd (process_due_jobs now s)) else jobs s)"
  by (simp add: timer_fire_def split: prod.splits)

text \<open>The jobs with an identifier are all running, since \<open>t\<close> or later.\<close>

definition held :: "string \<Rightarrow> nat \<Rightarrow> cron_job list \<Rightarrow> bool" where
  "held i t js \<longleftrightarrow> (\<forall>j\<in>set js. job_id j = i \<longrightarrow> (\<exists>t'\<ge>t. running_at_ms (jstate j) = Some t'))"

text \<open>The events that do not concern the execution of \<open>i\<close> started at \<open>t\<close>.\<close>

fun undisturbed :: "string \<Rightarrow> nat \<Rightarrow> 's cron_machine \<Rightarrow> cron_event \<Rightarrow> bool" where
  "undisturbed i t m (StartService now) = False"
| "undisturbed i t m StopService = True"
| "undisturbed i t m (AddJob uuid now c) = (job_id (job_of uuid now c) \<noteq> i)"
| "undisturbed i t m (UpdateJob now k p) = True"
| "undisturbed i t m (RemoveJob k) = True"
| "undisturbed i t m (WakeHeartbeat reason now) = True"
| "undisturbed i t m (Tick now) = (now \<le> t + STUCK_THRESHOLD_MS)"
| "undisturbed i t m (RunNow k force now) = (k \<noteq> i)"
| "undisturbed i t m (Finish k result finished now woken) = (k < length (snd m) \<longrightarrow> job_id (fst (snd m ! k)) \<noteq> i)"

lemma held_modify:
  assumes "held i t js" "\<And>j. job_id j = k \<Longrightarrow> job_id (f j) = k"
    "k = i \<Longrightarrow> (\<And>j. j \<in> set js \<Longrightarrow> job_id j = i \<Longrightarrow> running_at_ms (jstate (f j)) = running_at_ms (jstate j))"
  shows "held i t (modify_job k f js)"
  using assms by (fastforce simp: held_def dest!: set_modify_job)

lemma held_filter: "held i t js \<Longrightarrow> held i t (filter P js)"
  by (simp add: held_def)

lemma held_snoc: "held i t js \<Longrightarrow> job_id j \<noteq> i \<Longrightarrow> held i t (js @ [j])"
  by (auto simp: held_def)

lemma held_process:
  assumes "held i t (jobs s)" "now \<le> t + STUCK_THRESHOLD_MS"
  shows "held i t (jobs (snd (process_due_jobs now s)))"
  unfolding held_def
proof (intro ballI impI)
  fix j assume j: "j \<in> set (jobs (snd (process_due_jobs now s)))" "job_id j = i"
  then obtain k where k: "k \<in> set (jobs s)"
    "j = (let k' = (if is_due now k then set_running (Some now) k else k) in if is_stuck now k' then mark_stuck k' else k')"
    by (auto simp: jobs_process Let_def)
  then have "job_id k = i" using j(2) by (auto simp: Let_def split: if_splits)
  with assms(1) k(1) obtain t' where t': "t \<le> t'" "running_at_ms (jstate k) = Some t'"
    by (auto simp: held_def)
  then have "\<not> is_due now k" "\<not> is_stuck now k" using assms(2) by (auto simp: is_due_def is_stuck_def)
  with k t' show "\<exists>t'\<ge>t. running_at_ms (jstate j) = Some t'" by auto
qed

lemma held_timer_fire:
  "held i t (jobs s) \<Longrightarrow> now \<le> t + STUCK_THRESHOLD_MS \<Longrightarrow> held i t (jobs (snd (timer_fire now s)))"
  by (simp add: jobs_timer_fire held_process)

lemma held_wake: "held i t (jobs s) \<Longrightarrow> held i t (jobs (wake r now s))"
  by (auto simp: wake_def split: option.splits intro!: held_modify)

lemma held_add:
  assumes "held i t (jobs s)" "job_id (job_of uuid now c) \<noteq> i"
  shows "held i t (jobs (snd (add ops lib uuid now c s)))"
proof -
  have "held i t (jobs (snd (add_prepared ops lib uuid now c s')))" if "jobs s' = jobs s" for s'
    using assms that job_id_prepare by (auto simp: add_prepared_def held_snoc split: sum.splits prod.splits)
  then show ?thesis using assms(1) by (auto simp: add_def split: sum.splits prod.splits if_splits)
qed

lemma held_update:
  assumes "held i t (jobs s)"
  shows "held i t (jobs (snd (update ops lib now k p s)))"
proof (cases "find_job k (jobs s)")
  case None
  then show ?thesis using assms by (simp add: update_def)
next
  case (Some j)
  obtain r j' where u: "update_in_place lib now (apply_patch p now j) = (r, j')" by fastforce
  have j: "j \<in> set (jobs s)" "job_id j = k" using find_job_SomeD [OF Some] by simp_all
  have id: "job_id j' = k" "running_at_ms (jstate j') = running_at_ms (jstate j)"
    using job_id_update_in_place [OF u] running_update_in_place [OF u] j(2) by simp_all
  have "held i t (modify_job k (\<lambda>_. j') (jobs s))"
    unfolding held_def
  proof (intro ballI impI)
    fix x assume "x \<in> set (modify_job k (\<lambda>_. j') (jobs s))" "job_id x = i"
    then show "\<exists>t'\<ge>t. running_at_ms (jstate x) = Some t'"
      using assms j id by (auto simp: held_def dest!: set_modify_job)
  qed
  then show ?thesis
    using Some u by (auto simp: update_def Let_def split: sum.splits prod.splits)
qed

lemma held_remove: "held i t (jobs s) \<Longrightarrow> held i t (jobs (snd (remove ops k s)))"
  by (auto simp: remove_def held_filter split: sum.splits prod.splits)

lemma held_settle:
  assumes "held i t (jobs s)" "job_id job \<noteq> i"
  shows "held i t (jobs (settle_job ops job next s))"
proof -
  have "held i t (modify_job (job_id job) (\<lambda>_. j\<lparr>enabled := False\<rparr>) (jobs s))"
    if "find_job (job_id job) (jobs s) = Some j" for j
    using assms find_job_SomeD [OF that] by (intro held_modify) auto
  then show ?thesis
    using assms(1) by (auto simp: settle_job_def Let_def held_remove split: option.splits)
qed

lemma held_finish:
  assumes "held i t (jobs s)" "job_id job \<noteq> i"
  shows "held i t (jobs (snd (finish_run ops lib job started result finished now woken s)))"
proof -
  have "held i t (jobs (update_job_state (job_id job) f (s\<lparr>cstore := st\<rparr>)))" for f st
    using assms by (auto simp: update_job_state_def intro!: held_modify)
  from held_settle [OF this assms(2)] show ?thesis
    by (simp add: finish_run_def Let_def held_wake)
qed

lemma held_run_now:
  assumes "held i t (jobs s)" "k \<noteq> i"
  shows "held i t (jobs (snd (run_now k force now s)))"
  using assms
  by (auto simp: run_now_def update_job_state_def split: option.splits dest!: find_job_SomeD intro!: held_modify)

lemma held_step:
  assumes "held i t (jobs (fst m))" "undisturbed i t m e"
  shows "held i t (jobs (fst (cron_step ops lib m e)))"
proof (cases m)
  case (Pair s fl)
  then have s: "held i t (jobs s)" using assms(1) by simp
  show ?thesis
  proof (cases e)
    case (Tick now)
    then have "held i t (jobs (snd (timer_fire now s)))" using s assms(2) by (simp add: held_timer_fire)
    then show ?thesis unfolding Pair Tick by (cases "timer_fire now s") (auto split: option.splits)
  next
    case (RunNow k force now)
    then have "held i t (jobs (snd (run_now k force now s)))" using s assms(2) by (simp add: held_run_now)
    then show ?thesis unfolding Pair RunNow by (cases "run_now k force now s") (auto split: sum.splits)
  next
    case (AddJob uuid now c)
    then show ?thesis unfolding Pair AddJob using s assms(2) AddJob by (simp add: held_add)
  next
    case (Finish k result finished now woken)
    then show ?thesis unfolding Pair Finish using s assms(2) Pair Finish by (simp add: held_finish)
  qed (use s assms(2) Pair in \<open>simp_all add: held_update held_remove held_wake\<close>)
qed

interpretation held_machine: event_machine "cron_step ops lib" "undisturbed i t" "\<lambda>m. held i t (jobs (fst m))"
  for ops :: "'s store_ops" and lib i t
  by unfold_locales (rule held_step)

lemma held_not_due: "held i t (jobs s) \<Longrightarrow> timer_fire now s = (Some due, s') \<Longrightarrow> i \<notin> job_id ` set due"
proof
  assume h: "held i t (jobs s)" and f: "timer_fire now s = (Some due, s')" and "i \<in> job_id ` set due"
  then obtain k where "k \<in> set (jobs s)" "is_due now k" "job_id k = i"
    using due_exact [OF f] by auto
  with h show False by (fastforce simp: held_def dest: is_due_not_running)
qed

lemma started_is_held:
  assumes "distinct (map job_id (jobs s))" "timer_fire now s = (Some due, s')" "i \<in> job_id ` set due"
  shows "held i now (jobs s')"
proof -
  have run: "running s" and due: "due = map (set_running (Some now)) (filter (is_due now) (jobs s))"
    using due_exact [OF assms(2)] by auto
  obtain k where k: "k \<in> set (jobs s)" "is_due now k" "job_id k = i"
    using assms(3) unfolding due by auto
  have s': "jobs s' = jobs (snd (process_due_jobs now s))"
    using jobs_timer_fire [of now s] run assms(2) by simp
  show ?thesis
    unfolding held_def s' jobs_process
  proof (intro ballI impI)
    fix j assume j: "j \<in> set (map (\<lambda>j. if is_stuck now j then mark_stuck j else j)
        (map (\<lambda>j. if is_due now j then set_running (Some now) j else j) (jobs s)))" "job_id j = i"
    then obtain x where x: "x \<in> set (jobs s)"
      "j = (let k' = (if is_due now x then set_running (Some now) x else x) in if is_stuck now k' then mark_stuck k' else k')"
      by (auto simp: Let_def)
    have "job_id j = job_id x" unfolding x(2) by (simp add: Let_def)
    then have "job_id x = i" using j(2) by (rule trans [OF sym])
    with x(1) have "find_job i (jobs s) = Some x" by (simp only: find_job_iff [OF assms(1)])
    moreover have "find_job i (jobs s) = Some k" using k(1,3) by (simp only: find_job_iff [OF assms(1)])
    ultimately have "x = k" by simp
    with x(2) k(2) have "j = (if is_stuck now (set_running (Some now) k) then mark_stuck (set_running (Some now) k) else set_running (Some now) k)"
      by simp
    moreover have "\<not> is_stuck now (set_running (Some now) k)" by (simp add: is_stuck_def)
    ultimately show "\<exists>t'\<ge>now. running_at_ms (jstate j) = Some t'" by simp
  qed
qed

lemma running_timer_fire [simp]: "running (snd (timer_fire now s)) = running s"
  by (simp add: timer_fire_def process_due_jobs_def mark_due_def clear_stuck_jobs_def)

lemma running_begin [simp]: "running (fst (foldl (begin_run now) m due)) = running (fst m)"
  by (induction due arbitrary: m) (auto simp: begin_run_def start_run_def split: cron_payload.splits)

lemma running_wake [simp]: "running (wake r now s) = running s"
  by (auto simp: wake_def notify_one_def split: option.splits)

lemma running_tick: "running (fst (cron_step ops lib (s, fl) (Tick now))) = running s"
  using running_timer_fire [of now s] by (auto simp del: running_timer_fire split: option.splits prod.splits)

lemma mark_simps [simp]:
  "enabled (set_next_run t j) = enabled j" "next_run_at_ms (jstate (set_next_run t j)) = t"
  by (simp_all add: set_next_run_def)

section \<open>The end of a run\<close>

lemma find_settle_other: "jobs (settle_job ops job (Some t) s) = jobs s"
  by (auto simp: settle_job_def split: option.splits)

lemma settle_disables:
  assumes "\<not> delete_after_run job"
  shows "find_job (job_id job) (jobs (settle_job ops job None s)) =
    map_option (\<lambda>j. j\<lparr>enabled := False\<rparr>) (find_job (job_id job) (jobs s))"
proof (cases "find_job (job_id job) (jobs s)")
  case None
  then show ?thesis using assms by (simp add: settle_job_def)
next
  case (Some j)
  then have "job_id j = job_id job" using find_job_SomeD by blast
  then show ?thesis using assms Some by (simp add: settle_job_def Let_def find_modify)
qed

lemma find_remove: "fst (remove ops i s) = Inr () \<Longrightarrow> find_job i (jobs (snd (remove ops i s))) = None"
  by (auto simp: remove_def find_job_filter split: sum.splits prod.splits)

lemma find_wake_other: "i \<noteq> HEARTBEAT_ID \<Longrightarrow> find_job i (jobs (wake r now s)) = find_job i (jobs s)"
  by (auto simp: wake_def find_modify split: option.splits)

lemma finish_find:
  fixes ops :: "'s store_ops"
  assumes "s' = update_job_state (job_id job)
      (finished_state (run_record job started finished result) (next_or_none lib (schedule job) now))
      (s\<lparr>cstore := snd (append_run ops (job_id job) (run_record job started finished result) (cstore s))\<rparr>)"
  shows "find_job (job_id job) (jobs (snd (finish_run ops lib job started result finished now woken s))) =
    find_job (job_id job) (jobs (settle_job ops job (next_or_none lib (schedule job) now) s'))"
  unfolding finish_run_def assms Let_def by (simp add: find_wake_other)

lemma find_finished_state:
  "find_job i (jobs (update_job_state i f s)) = map_option (\<lambda>j. j\<lparr>jstate := f (jstate j)\<rparr>) (find_job i (jobs s))"
  by (simp add: update_job_state_def find_modify)

lemma map_ids_finish:
  "map job_id (jobs (update_job_state i f s)) = map job_id (jobs s)"
  "distinct (map job_id (jobs s)) \<Longrightarrow> distinct (map job_id (jobs (snd (remove ops i s))))"
  "distinct (map job_id (jobs s)) \<Longrightarrow> distinct (map job_id (jobs (settle_job ops job next s)))"
  "map job_id (jobs (wake r now s)) = map job_id (jobs s)"
proof -
  show r: "distinct (map job_id (jobs (snd (remove ops i s))))" if "distinct (map job_id (jobs s))" for i and s :: "'a cron_service"
    using that by (auto simp: remove_def distinct_map_filter split: sum.splits prod.splits)
  have "map job_id (modify_job i (\<lambda>_. j\<lparr>enabled := False\<rparr>) (jobs s)) = map job_id (jobs s)"
    if "find_job i (jobs s) = Some j" for i j and s :: "'a cron_service"
    using find_job_SomeD [OF that] by (intro modify_job_ids) simp
  then show "distinct (map job_id (jobs (settle_job ops job next s)))" if "distinct (map job_id (jobs s))"
    using that r by (auto simp: settle_job_def Let_def split: option.splits)
qed (auto simp: update_job_state_def wake_def modify_job_ids split: option.splits)

lemma finish_distinct:
  "distinct (map job_id (jobs s)) \<Longrightarrow>
   distinct (map job_id (jobs (snd (finish_run ops lib job started result finished now woken s))))"
  using map_ids_finish(3) [of "update_job_state _ _ _"] by (simp add: finish_run_def Let_def map_ids_finish)

text \<open>What is left of the job after its run.\<close>

lemma finish_left:
  assumes "find_job (job_id job) (jobs (snd (finish_run ops lib job started result finished now woken s))) = Some j"
    and "\<not> (next_or_none lib (schedule job) now = None \<and> delete_after_run job)"
  shows "running_at_ms (jstate j) = None \<and> next_run_at_ms (jstate j) = next_or_none lib (schedule job) now \<and>
    (next_or_none lib (schedule job) now = None \<longrightarrow> \<not> enabled j)"
proof (cases "next_or_none lib (schedule job) now")
  case (Some t)
  then show ?thesis
    using assms(1) unfolding finish_find [OF refl] Some
    by (auto simp: find_settle_other find_finished_state finished_state_def)
next
  case None
  with assms(2) have "\<not> delete_after_run job" by simp
  then show ?thesis
    using assms(1) unfolding finish_find [OF refl] None
    by (auto simp: settle_disables find_finished_state finished_state_def)
qed

context reliable_store
begin

lemma remove_gone:
  assumes "agrees s" "snd (remove ops i s) = s'"
  shows "find_job i (jobs s') = None \<and> stored (cstore s') i = None"
proof (cases "stored (cstore s) i = None")
  case True
  then have "i \<notin> job_id ` set (jobs s)" using assms(1) by (auto simp: agrees_def)
  moreover obtain st where "delete_job ops i (cstore s) = (Inl (JobNotFound i), st)"
    using delete_exact [of "cstore s" i] True assms(1)
    by (cases "delete_job ops i (cstore s)") (simp add: agrees_def)
  moreover from this have "stored st = stored (cstore s)"
    using delete_err [of "cstore s" i _ st] assms(1) by (simp add: agrees_def)
  ultimately show ?thesis using assms(2) True by (auto simp: remove_def find_job_None)
next
  case False
  then obtain st where d: "delete_job ops i (cstore s) = (Inr (), st)"
    using delete_exact [of "cstore s" i] assms(1)
    by (cases "delete_job ops i (cstore s)") (simp add: agrees_def)
  then have "stored st i = None" using deleted_is_gone [of "cstore s" i st] assms(1) by (simp add: agrees_def)
  then show ?thesis using assms(2) d by (auto simp: remove_def find_job_filter)
qed

lemma finish_deletes:
  assumes "agrees s" "next_or_none lib (schedule job) now = None" "delete_after_run job"
    and "snd (finish_run ops lib job started result finished now woken s) = s'"
  shows "find_job (job_id job) (jobs s') = None \<and> stored (cstore s') (job_id job) = None"
proof -
  let ?run = "run_record job started finished result"
  let ?s = "update_job_state (job_id job) (finished_state ?run None) (s\<lparr>cstore := snd (append_run ops (job_id job) ?run (cstore s))\<rparr>)"
  have "agrees (s\<lparr>cstore := snd (append_run ops (job_id job) ?run (cstore s))\<rparr>)"
    using assms(1) append_law [of "cstore s" "job_id job" ?run]
    by (cases "append_run ops (job_id job) ?run (cstore s)") (simp add: agrees_def)
  then have "agrees ?s" by (simp add: agrees_def)
  from remove_gone [OF this refl] have gone: "find_job (job_id job) (jobs (snd (remove ops (job_id job) ?s))) = None"
    "stored (cstore (snd (remove ops (job_id job) ?s))) (job_id job) = None" by simp_all
  show ?thesis
    using gone assms(2-4) by (auto simp: finish_run_def Let_def settle_job_def find_wake_other)
qed

end

interpretation mem_agrees_machine: event_machine "cron_step memory_ops lib" "\<lambda>_ _. True" "\<lambda>m. mstore.agrees (fst m)" for lib
  by unfold_locales (rule mstore.agrees_step)

interpretation file_agrees_machine: event_machine "cron_step file_ops lib" "\<lambda>_ _. True" "\<lambda>m. fstore.agrees (fst m)" for lib
  by unfold_locales (rule fstore.agrees_step)

section \<open>Properties\<close>

text \<open>The user's jobs are created at a bounded rate. Among the requests of any history with a monotone
  clock, at most \<open>max_per_window\<close> jobs are created for the user within any window of the configured
  length, whatever identifiers, schedules and system jobs are requested in between.\<close>

theorem creations_bounded:
  assumes "timestamps (limiter s) = []" "sorted (map creation_time es)"
  shows "length (in_window (window_ms (limit_config (limiter s))) t
      (admissions (creates ops lib) creation_time (add_step ops lib) s es)) \<le> max_per_window (limit_config (limiter s))"
proof -
  let ?cfg = "limit_config (limiter s)"
  have "length (in_window (window_ms ?cfg) t (admissions (creates ops lib) creation_time (add_step ops lib) s es))
      \<le> length (in_window (window_ms ?cfg) t
          (admissions (\<lambda>s e. limit_config (limiter s) = ?cfg \<and> charged s e) creation_time (add_step ops lib) s es))"
    by (rule admissions_mono [where P = "\<lambda>s. limit_config (limiter s) = ?cfg"])
      (auto simp: creates_charged add_step_def limiter_add split: prod.splits)
  also have "\<dots> \<le> max_per_window ?cfg"
    using creation_window.admissions_bounded [where config = ?cfg and s = s and es = es and t = t and ops = ops and lib = lib] assms by simp
  finally show ?thesis .
qed

definition ping :: cron_job_create where
  "ping = \<lparr>c_id = None, c_name = ''ping'', c_schedule = Every 60000 None, c_payload = SystemEvent ''ping'',
     c_target = MainTarget, c_delete_after_run = False, c_enabled = True, c_system = False,
     c_sandbox = \<lparr>sandbox_enabled = True, sandbox_image = None, auto_prune_container = None\<rparr>,
     c_wake_mode = NextHeartbeat\<rparr>"

theorem creations_bounded_witness:
  "length (in_window 60000 50 (admissions (creates memory_ops no_cron) creation_time (add_step memory_ops no_cron)
      (new_service new_memory) [(''a'', 10, ping), (''b'', 20, ping)])) \<le> 10"
  using creations_bounded [of "new_service new_memory" "[(''a'', 10, ping), (''b'', 20, ping)]" 50 memory_ops no_cron]
  by (simp add: new_service_def with_config_def new_limiter_def default_rate_limit_def creation_time_def)

text \<open>C14: the timer does not start a job twice. When it has started a job, it does not start it again, through
  any sequence of ticks within two hours, stops, additions of other jobs, changes, removals, wakes and
  executions of other jobs, until that execution is finished. Excluded are a restart of the service, another
  addition under the same identifier and a run of the same job by hand: there the code does start a second
  execution (\<open>run_now_ignores_running\<close>).\<close>

theorem no_double_start:
  assumes "distinct (map job_id (jobs s))" "timer_fire now s = (Some due, s')" "i \<in> job_id ` set due"
    and "guarded_run (undisturbed i now) (cron_step ops lib) (foldl (begin_run now) (s', fl) due) es"
    and "timer_fire later (fst (foldl (cron_step ops lib) (foldl (begin_run now) (s', fl) due) es)) = (Some due', s'')"
  shows "i \<notin> job_id ` set due'"
proof -
  have "held i now (jobs (fst (foldl (begin_run now) (s', fl) due)))"
    using started_is_held [OF assms(1-3)] by simp
  from held_machine.inv_run [OF this assms(4)] show ?thesis
    using held_not_due [OF _ assms(5)] by blast
qed

definition ping_service :: "memory_store cron_service" where
  "ping_service = (snd (add memory_ops no_cron ''a'' 0 ping (new_service new_memory)))\<lparr>running := True\<rparr>"

lemma ping_service_jobs: "map job_id (jobs ping_service) = [''a'']" "running ping_service"
  "filter (is_due 60000) (jobs ping_service) = jobs ping_service"
  by (simp_all add: ping_service_def add_def add_prepared_def rate_check_def new_service_def with_config_def new_limiter_def
      default_rate_limit_def ping_def prepare_job_def job_of_def validate_job_spec_def compute_next_run_def next_every_def
      Let_def prune_window_def memory_ops_def mem_save_def set_next_run_def is_due_def default_job_state_def)

theorem no_double_start_witness:
  "\<exists>due s' due' s''. timer_fire 60000 ping_service = (Some due, s') \<and> ''a'' \<in> job_id ` set due \<and>
     timer_fire 70000 (fst (foldl (cron_step memory_ops no_cron) (foldl (begin_run 60000) (s', []) due)
          [WakeHeartbeat ''x'' 60001, Tick 65000])) = (Some due', s'') \<and> ''a'' \<notin> job_id ` set due'"
proof -
  obtain s' where f: "timer_fire 60000 ping_service = (Some (map (set_running (Some 60000)) (jobs ping_service)), s')"
    using ping_service_jobs by (simp add: timer_fire_def process_due_jobs_def mark_due_def)
  let ?due = "map (set_running (Some 60000)) (jobs ping_service)"
  let ?s = "foldl (begin_run 60000) (s', []) ?due"
  let ?es = "[WakeHeartbeat ''x'' 60001, Tick 65000]"
  let ?m = "foldl (cron_step memory_ops no_cron) ?s ?es"
  obtain j where j: "jobs ping_service = [j]" "job_id j = ''a''"
    using ping_service_jobs(1) by auto
  have mem: "''a'' \<in> job_id ` set ?due" by (simp add: j)
  have d: "distinct (map job_id (jobs ping_service))" by (simp add: j)
  have run: "guarded_run (undisturbed ''a'' 60000) (cron_step memory_ops no_cron) ?s ?es"
    by (cases ?s) (simp add: STUCK_THRESHOLD_MS_def)
  have "running s'" using f ping_service_jobs(2) running_timer_fire [of 60000 ping_service] by simp
  then have "running (fst ?s)" by simp
  then have "running (fst ?m)" by (cases ?s) (simp add: running_tick del: cron_step.simps(7))
  then obtain due' s'' where g: "timer_fire 70000 (fst ?m) = (Some due', s'')"
    by (cases "process_due_jobs 70000 (fst ?m)") (auto simp: timer_fire_def)
  from no_double_start [OF d f mem run g] f mem g show ?thesis by blast
qed

text \<open>A finished job waits for its next run. After the end of an execution, the job is not running; with
  a later next run it is not due, without one it is disabled, or deleted in memory and in the store.\<close>

theorem finished_job_waits:
  assumes "distinct (map job_id (jobs s))" "mstore.agrees s"
    and "\<And>t. next_or_none lib (schedule job) now = Some t \<Longrightarrow> now < t"
    and "snd (finish_run memory_ops lib job started result finished now woken s) = s'"
  shows "(\<forall>j\<in>set (jobs s'). job_id j = job_id job \<longrightarrow> running_at_ms (jstate j) = None \<and> \<not> is_due now j) \<and>
    (next_or_none lib (schedule job) now = None \<longrightarrow>
      (if delete_after_run job then job_id job \<notin> job_id ` set (jobs s') \<and> mem_stored (cstore s') (job_id job) = None
       else \<forall>j\<in>set (jobs s'). job_id j = job_id job \<longrightarrow> \<not> enabled j))"
proof -
  have d: "distinct (map job_id (jobs s'))" using finish_distinct [OF assms(1)] assms(4) by metis
  show ?thesis
  proof (cases "next_or_none lib (schedule job) now = None \<and> delete_after_run job")
    case True
    then have gone: "find_job (job_id job) (jobs s') = None" "mem_stored (cstore s') (job_id job) = None"
      using mstore.finish_deletes [OF assms(2) _ _ assms(4)] by simp_all
    have out: "job_id job \<notin> job_id ` set (jobs s')" by (rule find_job_None [THEN iffD1, OF gone(1)])
    then have "\<forall>j\<in>set (jobs s'). job_id j \<noteq> job_id job" by (metis imageI)
    with out gone(2) True show ?thesis by auto
  next
    case False
    have "running_at_ms (jstate j) = None \<and> next_run_at_ms (jstate j) = next_or_none lib (schedule job) now \<and>
        (next_or_none lib (schedule job) now = None \<longrightarrow> \<not> enabled j)" if "j \<in> set (jobs s')" "job_id j = job_id job" for j
    proof (rule finish_left [OF _ False])
      have "find_job (job_id job) (jobs s') = Some j" using that by (simp only: find_job_iff [OF d])
      then show "find_job (job_id job) (jobs (snd (finish_run memory_ops lib job started result finished now woken s))) = Some j"
        by (simp only: assms(4))
    qed
    then show ?thesis
      using False assms(3) by (fastforce simp: is_due_def split: option.splits)
  qed
qed

definition one_shot :: cron_job where
  "one_shot = \<lparr>job_id = ''a'', job_name = ''once'', enabled = True, delete_after_run = True, schedule = At 100,
     job_payload = SystemEvent ''hi'', target = MainTarget, jstate = default_job_state,
     job_sandbox = c_sandbox ping, wake_mode = NextHeartbeat, system = False, created_at_ms = 0, updated_at_ms = 0\<rparr>"

definition one_shot_service :: "memory_store cron_service" where
  "one_shot_service = (new_service \<lparr>mem_jobs = [(''a'', one_shot)], mem_runs = []\<rparr>)\<lparr>jobs := [one_shot]\<rparr>"

theorem finished_job_waits_witness:
  "''a'' \<notin> job_id ` set (jobs (snd (finish_run memory_ops no_cron one_shot 100 (Inl (CronMessage ''failed'')) 150 150 150 one_shot_service)))"
proof -
  have a: "mstore.agrees one_shot_service"
    by (simp add: mstore.agrees_def one_shot_service_def new_service_def with_config_def mem_sound_def mem_stored_def one_shot_def)
  have d: "distinct (map job_id (jobs one_shot_service))" by (simp add: one_shot_service_def)
  have n: "next_or_none no_cron (schedule one_shot) 150 = None"
    by (simp add: next_or_none_def compute_next_run_def one_shot_def)
  show ?thesis
    using finished_job_waits [OF d a _ refl, of no_cron one_shot 150] n by (simp add: one_shot_def)
qed

text \<open>C15: memory and store never drift apart. From an empty store, through any sequence of operations,
  ticks, executions and restarts, the scheduler holds exactly the identifiers its store holds, with the
  in-memory store and with the file store.\<close>

theorem memory_matches_store:
  "job_id ` set (jobs (fst (foldl (cron_step memory_ops lib) (new_service new_memory, []) es))) =
     dom (mem_stored (cstore (fst (foldl (cron_step memory_ops lib) (new_service new_memory, []) es)))) \<and>
   job_id ` set (jobs (fst (foldl (cron_step file_ops lib) (new_service (new_files place), []) es))) =
     dom (file_stored (cstore (fst (foldl (cron_step file_ops lib) (new_service (new_files place), []) es))))"
proof -
  have "mstore.agrees (new_service new_memory)" "fstore.agrees (new_service (new_files place))"
    by (auto simp: mstore.agrees_def fstore.agrees_def new_service_def with_config_def new_memory_def new_files_def
        mem_sound_def file_sound_def file_jobs_def mem_stored_def file_stored_def)
  then show ?thesis
    using mem_agrees_machine.inv_run [where s = "(new_service new_memory, [])" and es = es and lib = lib]
      file_agrees_machine.inv_run [where s = "(new_service (new_files place), [])" and es = es and lib = lib]
    by (simp add: mstore.agrees_def fstore.agrees_def)
qed

section \<open>What the code does not do\<close>

text \<open>A rejected change stays in memory: the patch is applied before the job is validated, and the error
  leaves it there, while the store keeps the old job.\<close>

lemma rejected_update_stays:
  assumes "find_job i (jobs s) = Some j" "validate_job_spec (apply_patch p now j) = Inl e"
  shows "fst (update ops lib now i p s) = Inl e \<and>
    find_job i (jobs (snd (update ops lib now i p s))) = Some (apply_patch p now j) \<and>
    cstore (snd (update ops lib now i p s)) = cstore s"
proof -
  have "job_id j = i" using find_job_SomeD [OF assms(1)] by simp
  then show ?thesis using assms by (simp add: update_def update_in_place_def find_modify)
qed

text \<open>While a job runs its next run stays in the past, so the timer loop does not sleep.\<close>

lemma timer_spins:
  assumes "j \<in> set (jobs s)" "enabled j" "next_run_at_ms (jstate j) = Some t" "t \<le> now"
  shows "ms_until_next_wake now s = 0"
proof -
  have "t \<in> set (List.map_filter (\<lambda>j. next_run_at_ms (jstate j)) (filter enabled (jobs s)))"
    using assms by (auto simp: List.map_filter_def image_iff intro!: bexI [of _ j])
  then have "0 \<in> (\<lambda>t. t - now) ` set (List.map_filter (\<lambda>j. next_run_at_ms (jstate j)) (filter enabled (jobs s)))"
    using assms(4) by force
  then have "Min ((\<lambda>t. t - now) ` set (List.map_filter (\<lambda>j. next_run_at_ms (jstate j)) (filter enabled (jobs s)))) = 0"
    by (intro antisym Min_le) auto
  then show ?thesis
    using \<open>t \<in> _\<close> by (auto simp: ms_until_next_wake_def option_min_def)
qed

text \<open>A run by hand does not look whether the job is running: it starts a second execution.\<close>

lemma run_now_ignores_running:
  "find_job i (jobs s) = Some j \<Longrightarrow> enabled j \<Longrightarrow> fst (run_now i force now s) = Inr j"
  by (simp add: run_now_def)

end
