(* ===== verification/Method_Auth.thy ===== *)
theory Method_Auth
  imports Rust_Text
begin

text \<open>
  Which RPC method a client of the gateway may call (\<open>crates/gateway/src/methods/dispatch.rs\<close>): the
  lists of methods by scope, \<open>authorize_method\<close>, and \<open>MethodRegistry::dispatch\<close>. The lists are those of
  the default features, which are the ones the conditional entries depend on. A handler is a function
  of the context and of the state of the gateway; the registry is a map from names to handlers.
  \<open>permitted\<close> is the table the lists are meant to give, and the property says that the dispatcher
  implements it.
\<close>

section \<open>Protocol\<close>

record error_shape =
  err_code :: string
  err_message :: string

definition FORBIDDEN :: string where "FORBIDDEN = ''FORBIDDEN''"
definition UNAUTHORIZED :: string where "UNAUTHORIZED = ''UNAUTHORIZED''"
definition UNKNOWN_METHOD :: string where "UNKNOWN_METHOD = ''UNKNOWN_METHOD''"

definition scope_admin :: string where "scope_admin = ''operator.admin''"
definition scope_read :: string where "scope_read = ''operator.read''"
definition scope_write :: string where "scope_write = ''operator.write''"
definition scope_approvals :: string where "scope_approvals = ''operator.approvals''"
definition scope_pairing :: string where "scope_pairing = ''operator.pairing''"

section \<open>Methods by scope\<close>

definition NODE_METHODS :: "string list" where
  "NODE_METHODS = [
    ''node.invoke.result'', ''node.event'', ''skills.bins'']"

definition READ_METHODS :: "string list" where
  "READ_METHODS = [
    ''health'', ''logs.tail'', ''logs.list'', ''logs.status'', ''channels.status'', ''channels.list'',
    ''channels.senders.list'', ''status'', ''usage.status'', ''usage.cost'', ''tts.status'',
    ''tts.providers'', ''stt.status'', ''stt.providers'', ''models.list'', ''models.list_all'',
    ''agents.list'', ''agents.get'', ''agents.identity.get'', ''agents.files.list'',
    ''agents.files.get'', ''agents.preset.get'', ''agents.presets_list'', ''modes.list'',
    ''agent.identity.get'', ''skills.list'', ''skills.status'', ''skills.security.status'',
    ''skills.security.scan'', ''skills.repos.list'', ''skills.recipe'', ''skills.clawhub.search'',
    ''skills.clawhub.info'', ''skills.clawhub.scan'', ''skills.bundled.categories'', ''voicewake.get'',
    ''sessions.list'', ''sessions.preview'', ''sessions.search'', ''sessions.branches'',
    ''sessions.run_detail'', ''sessions.share.list'', ''projects.list'', ''projects.get'',
    ''projects.context'', ''projects.complete_path'', ''cron.list'', ''cron.status'', ''cron.runs'',
    ''webhooks.list'', ''webhooks.profiles'', ''webhooks.deliveries'', ''webhooks.delivery.get'',
    ''webhooks.delivery.payload'', ''webhooks.delivery.actions'', ''feedback.status'',
    ''instrumentation.status'', ''heartbeat.status'', ''heartbeat.runs'', ''system-presence'',
    ''last-heartbeat'', ''node.list'', ''node.describe'', ''node.pairing.status'', ''chat.history'',
    ''chat.context'', ''chat.raw_prompt'', ''chat.full_context'', ''providers.available'',
    ''providers.oauth.status'', ''providers.local.system_info'', ''providers.local.models'',
    ''providers.local.status'', ''providers.local.search_hf'', ''mcp.list'', ''mcp.status'',
    ''mcp.tools'', ''mcp.config.get'', ''tts.generate_phrase'', ''voice.config.get'',
    ''voice.config.voxtral_requirements'', ''voice.providers.all'', ''voice.elevenlabs.catalog'',
    ''voice.personas.list'', ''voice.personas.get'', ''graphql.config.get'', ''memory.status'',
    ''memory.config.get'', ''memory.search'', ''memory.qmd.status'', ''hooks.list'',
    ''network.audit.list'', ''network.audit.tail'', ''network.audit.stats'', ''external_agents.list'',
    ''external_agents.status'', ''openclaw.detect'', ''openclaw.scan'', ''system.describe'',
    ''voicecall.status'', ''connectors.available'', ''connectors.accounts.list'',
    ''connectors.channel_sources.list'', ''connectors.datasets.list'', ''connectors.runs.list'',
    ''connectors.items.query'', ''phone.providers.all'']"

definition WRITE_METHODS :: "string list" where
  "WRITE_METHODS = [
    ''send'', ''chat.prompt_memory.refresh'', ''agent'', ''agent.wait'', ''agent.identity.update'',
    ''agent.identity.update_soul'', ''agents.create'', ''agents.update'', ''agents.delete'',
    ''agents.set_default'', ''agents.set_session'', ''agents.identity.update'',
    ''agents.identity.update_soul'', ''agents.files.set'', ''agents.preset.create'',
    ''agents.preset.update'', ''agents.preset.delete'', ''agents.preset.save'', ''modes.set_session'',
    ''wake'', ''talk.mode'', ''tts.enable'', ''tts.disable'', ''tts.convert'', ''tts.setProvider'',
    ''stt.transcribe'', ''stt.setProvider'', ''voicewake.set'', ''nodes.set_session'', ''chat.send'',
    ''chat.send_sync'', ''chat.abort'', ''chat.cancel_queued'', ''external_agents.bind'',
    ''external_agents.unbind'', ''chat.clear'', ''chat.compact'', ''browser.request'', ''logs.ack'',
    ''models.detect_supported'', ''models.cancel_detect'', ''models.test'', ''providers.save_key'',
    ''providers.save_model'', ''providers.save_models'', ''providers.validate_key'',
    ''providers.remove_key'', ''providers.add_custom'', ''providers.oauth.start'',
    ''providers.oauth.complete'', ''providers.local.configure'', ''providers.local.configure_custom'',
    ''channels.add'', ''channels.remove'', ''channels.update'', ''channels.retry_ownership'',
    ''channels.senders.approve'', ''channels.senders.deny'', ''sessions.switch'', ''sessions.fork'',
    ''sessions.voice.generate'', ''sessions.clear_all'', ''sessions.share.create'',
    ''sessions.share.revoke'', ''projects.upsert'', ''projects.delete'', ''projects.detect'',
    ''skills.install'', ''skills.clawhub.install'', ''skills.remove'', ''skills.repos.remove'',
    ''skills.repos.export'', ''skills.repos.import'', ''skills.repos.unquarantine'',
    ''skills.emergency_disable'', ''skills.skill.trust'', ''skills.skill.enable'',
    ''skills.skill.disable'', ''skills.install_dep'', ''skills.skill.save'',
    ''skills.bundled.toggle_category'', ''mcp.add'', ''mcp.remove'', ''mcp.enable'', ''mcp.disable'',
    ''mcp.restart'', ''mcp.reauth'', ''mcp.update'', ''mcp.config.update'', ''mcp.oauth.start'',
    ''mcp.oauth.complete'', ''cron.add'', ''cron.update'', ''cron.remove'', ''cron.run'',
    ''webhooks.get'', ''webhooks.create'', ''webhooks.update'', ''webhooks.delete'', ''feedback.submit'',
    ''instrumentation.test'', ''heartbeat.update'', ''heartbeat.run'', ''voice.config.save_key'',
    ''voice.config.save_settings'', ''voice.config.remove_key'', ''voice.provider.toggle'',
    ''voice.override.session.set'', ''voice.override.session.clear'', ''voice.override.channel.set'',
    ''voice.override.channel.clear'', ''voice.personas.create'', ''voice.personas.update'',
    ''voice.personas.delete'', ''voice.personas.set_active'', ''graphql.config.set'',
    ''memory.config.update'', ''hooks.enable'', ''hooks.disable'', ''hooks.save'', ''hooks.reload'',
    ''location.result'', ''openclaw.import'', ''voicecall.initiate'', ''voicecall.end'',
    ''phone.provider.toggle'', ''phone.config.save_key'', ''phone.config.save_settings'',
    ''phone.config.remove_key'', ''subscribe'', ''unsubscribe'', ''channel.join'', ''channel.leave'',
    ''connectors.accounts.remove'', ''connectors.datasets.remove'']"

definition APPROVAL_METHODS :: "string list" where
  "APPROVAL_METHODS = [
    ''exec.approval.request'', ''exec.approval.resolve'']"

definition PAIRING_METHODS :: "string list" where
  "PAIRING_METHODS = [
    ''node.pair.request'', ''node.pair.list'', ''node.pair.approve'', ''node.pair.reject'',
    ''node.pair.verify'', ''node.pairing.enable'', ''node.pairing.disable'', ''node.pairing.status'',
    ''device.pair.list'', ''device.pair.approve'', ''device.pair.reject'', ''device.token.create'',
    ''device.token.rotate'', ''device.token.revoke'', ''node.rename'']"

section \<open>Authorization\<close>

definition authorize_method :: "string \<Rightarrow> string \<Rightarrow> string list \<Rightarrow> error_shape option" where
  "authorize_method meth role scopes =
     (if meth \<in> set NODE_METHODS then
        (if role = ''node'' then None
         else Some \<lparr>err_code = FORBIDDEN, err_message = ''unauthorized role: '' @ role\<rparr>)
      else if role = ''node'' \<or> role \<noteq> ''operator'' then
        Some \<lparr>err_code = FORBIDDEN, err_message = ''unauthorized role: '' @ role\<rparr>
      else if scope_admin \<in> set scopes then None
      else if meth \<in> set APPROVAL_METHODS \<and> scope_approvals \<notin> set scopes then
        Some \<lparr>err_code = UNAUTHORIZED, err_message = ''missing scope: operator.approvals''\<rparr>
      else if meth \<in> set PAIRING_METHODS \<and> scope_pairing \<notin> set scopes then
        Some \<lparr>err_code = UNAUTHORIZED, err_message = ''missing scope: operator.pairing''\<rparr>
      else if meth \<in> set READ_METHODS \<and> \<not> (scope_read \<in> set scopes \<or> scope_write \<in> set scopes) then
        Some \<lparr>err_code = UNAUTHORIZED, err_message = ''missing scope: operator.read''\<rparr>
      else if meth \<in> set WRITE_METHODS \<and> scope_write \<notin> set scopes then
        Some \<lparr>err_code = UNAUTHORIZED, err_message = ''missing scope: operator.write''\<rparr>
      else if meth \<in> set APPROVAL_METHODS \<or> meth \<in> set PAIRING_METHODS \<or> meth \<in> set READ_METHODS \<or>
          meth \<in> set WRITE_METHODS then None
      else Some \<lparr>err_code = UNAUTHORIZED, err_message = ''missing scope: operator.admin''\<rparr>)"

section \<open>Dispatch\<close>

record 'json method_context =
  request_id :: string
  method_name :: string
  params :: 'json
  client_conn_id :: string
  client_role :: string
  client_scopes :: "string list"
  ctx_channel :: "string option"

type_synonym ('json, 's) handler = "'json method_context \<Rightarrow> 's \<Rightarrow> (error_shape + 'json) \<times> 's"

type_synonym ('json, 's) method_registry = "string \<rightharpoonup> ('json, 's) handler"

record 'json response_frame =
  response_id :: string
  response_body :: "error_shape + 'json"

definition register :: "string \<Rightarrow> ('json, 's) handler \<Rightarrow> ('json, 's) method_registry \<Rightarrow> ('json, 's) method_registry" where
  "register meth h reg = reg(meth \<mapsto> h)"

definition dispatch :: "('json, 's) method_registry \<Rightarrow> 'json method_context \<Rightarrow> 's \<Rightarrow> 'json response_frame \<times> 's" where
  "dispatch reg ctx s =
     (case authorize_method (method_name ctx) (client_role ctx) (client_scopes ctx) of
        Some err \<Rightarrow> (\<lparr>response_id = request_id ctx, response_body = Inl err\<rparr>, s)
      | None \<Rightarrow>
          (case reg (method_name ctx) of
             None \<Rightarrow> (\<lparr>response_id = request_id ctx, response_body =
                 Inl \<lparr>err_code = UNKNOWN_METHOD, err_message = ''unknown method: '' @ method_name ctx\<rparr>\<rparr>, s)
           | Some h \<Rightarrow>
               (case h ctx s of (r, s') \<Rightarrow> (\<lparr>response_id = request_id ctx, response_body = r\<rparr>, s'))))"

section \<open>The table of permissions\<close>

text \<open>A node may call the methods for nodes and no other. An operator may call any other method with the
  administration scope; without it, one of the listed methods: approvals and pairing with their scope,
  writing methods with the write scope, reading methods with the read or the write scope.\<close>

definition permitted :: "string \<Rightarrow> string list \<Rightarrow> string \<Rightarrow> bool" where
  "permitted role scopes meth \<longleftrightarrow>
     (if meth \<in> set NODE_METHODS then role = ''node''
      else role = ''operator'' \<and>
        (scope_admin \<in> set scopes \<or>
         meth \<in> set APPROVAL_METHODS \<and> scope_approvals \<in> set scopes \<or>
         meth \<in> set PAIRING_METHODS - {''node.pairing.status''} \<and> scope_pairing \<in> set scopes \<or>
         meth \<in> set READ_METHODS - set WRITE_METHODS - {''node.pairing.status''} \<and> (scope_read \<in> set scopes \<or> scope_write \<in> set scopes) \<or>
         meth \<in> set WRITE_METHODS \<and> scope_write \<in> set scopes \<or>
         meth = ''node.pairing.status'' \<and> scope_pairing \<in> set scopes \<and>
           (scope_read \<in> set scopes \<or> scope_write \<in> set scopes)))"

text \<open>The lists are compared by the family of their methods.\<close>

definition pairing_family :: "string \<Rightarrow> bool" where
  "pairing_family m \<longleftrightarrow> prefix ''node.'' m \<or> prefix ''device.'' m"

lemma families:
  "list_all pairing_family PAIRING_METHODS"
  "list_all (\<lambda>m. \<not> pairing_family m) WRITE_METHODS"
  "filter pairing_family READ_METHODS = [''node.list'', ''node.describe'', ''node.pairing.status'']"
  "list_all (\<lambda>m. prefix ''exec.'' m) APPROVAL_METHODS"
  "list_all (\<lambda>m. \<not> prefix ''exec.'' m) READ_METHODS" "list_all (\<lambda>m. \<not> prefix ''exec.'' m) WRITE_METHODS"
  "list_all (\<lambda>m. \<not> prefix ''exec.'' m) PAIRING_METHODS"
  "list_ex (\<lambda>m. m = ''node.pairing.status'') PAIRING_METHODS"
  "list_all (\<lambda>m. m \<noteq> ''node.list'' \<and> m \<noteq> ''node.describe'') PAIRING_METHODS"
  by code_simp+

lemma pairing_read: "m \<in> set PAIRING_METHODS \<Longrightarrow> m \<in> set READ_METHODS \<longleftrightarrow> m = ''node.pairing.status''"
proof -
  assume m: "m \<in> set PAIRING_METHODS"
  then have "pairing_family m" using families(1) by (simp add: list_all_iff)
  then have "m \<in> set READ_METHODS \<longleftrightarrow> m \<in> set (filter pairing_family READ_METHODS)" by simp
  also have "\<dots> \<longleftrightarrow> m = ''node.pairing.status''"
    unfolding families(3) using m families(9) by (auto simp: list_all_iff)
  finally show ?thesis .
qed

lemma pairing_write: "m \<in> set PAIRING_METHODS \<Longrightarrow> m \<notin> set WRITE_METHODS"
  using families(1,2) by (auto simp: list_all_iff)

lemma approval_apart:
  "m \<in> set APPROVAL_METHODS \<Longrightarrow> m \<notin> set READ_METHODS \<and> m \<notin> set WRITE_METHODS \<and> m \<notin> set PAIRING_METHODS"
  using families(4-7) by (auto simp: list_all_iff)

lemma status_pairing: "''node.pairing.status'' \<in> set PAIRING_METHODS"
  using families(8) by (auto simp: list_ex_iff)

lemma authorize_permitted: "authorize_method m role scopes = None \<longleftrightarrow> permitted role scopes m"
  using pairing_read [of m] pairing_write [of m] approval_apart [of m] status_pairing
  unfolding authorize_method_def permitted_def
  by (cases "m = ''node.pairing.status''"; cases "m \<in> set NODE_METHODS"; cases "m \<in> set APPROVAL_METHODS";
      cases "m \<in> set PAIRING_METHODS"; cases "m \<in> set READ_METHODS"; cases "m \<in> set WRITE_METHODS")
    (simp_all; blast)+

section \<open>Properties\<close>

text \<open>C16: the dispatcher gives every client exactly the methods of its role and scopes. A call that the table
  permits runs the handler of its name, once, and returns its result, or reports that there is none; any
  other call is answered with \<open>FORBIDDEN\<close> or \<open>UNAUTHORIZED\<close> and changes nothing.\<close>

theorem dispatch_follows_table:
  "(permitted (client_role ctx) (client_scopes ctx) (method_name ctx) \<longrightarrow>
      dispatch reg ctx s = (case reg (method_name ctx) of
        Some h \<Rightarrow> (\<lparr>response_id = request_id ctx, response_body = fst (h ctx s)\<rparr>, snd (h ctx s))
      | None \<Rightarrow> (\<lparr>response_id = request_id ctx, response_body =
          Inl \<lparr>err_code = UNKNOWN_METHOD, err_message = ''unknown method: '' @ method_name ctx\<rparr>\<rparr>, s))) \<and>
   (\<not> permitted (client_role ctx) (client_scopes ctx) (method_name ctx) \<longrightarrow>
      (\<exists>e. dispatch reg ctx s = (\<lparr>response_id = request_id ctx, response_body = Inl e\<rparr>, s) \<and>
        err_code e \<in> {FORBIDDEN, UNAUTHORIZED}))"
proof (cases "permitted (client_role ctx) (client_scopes ctx) (method_name ctx)")
  case True
  then have "authorize_method (method_name ctx) (client_role ctx) (client_scopes ctx) = None"
    by (simp only: authorize_permitted)
  then show ?thesis using True by (auto simp: dispatch_def split: option.splits prod.splits)
next
  case False
  then obtain e where e: "authorize_method (method_name ctx) (client_role ctx) (client_scopes ctx) = Some e"
    using authorize_permitted by (metis not_None_eq)
  then have "err_code e \<in> {FORBIDDEN, UNAUTHORIZED}"
    by (auto simp: authorize_method_def split: if_splits)
  with e False show ?thesis by (simp add: dispatch_def)
qed

definition reader_call :: "nat method_context" where
  "reader_call = \<lparr>request_id = ''1'', method_name = ''cron.remove'', params = 0, client_conn_id = ''c'',
     client_role = ''operator'', client_scopes = [''operator.read''], ctx_channel = None\<rparr>"

lemma cron_remove:
  "list_ex (\<lambda>m. m = ''cron.remove'') WRITE_METHODS" "list_all (\<lambda>m. m \<noteq> ''cron.remove'') NODE_METHODS"
  by code_simp+

lemmas scope_defs = scope_admin_def scope_read_def scope_write_def scope_approvals_def scope_pairing_def

lemma reader_not_permitted: "\<not> permitted ''operator'' [''operator.read''] ''cron.remove''"
  using cron_remove by (auto simp: permitted_def scope_defs list_ex_iff list_all_iff)

theorem dispatch_follows_table_witness:
  "\<exists>e. dispatch (register ''cron.remove'' (\<lambda>_ n. (Inr n, Suc n)) Map.empty) reader_call 0 =
     (\<lparr>response_id = ''1'', response_body = Inl e\<rparr>, (0 :: nat)) \<and> err_code e \<in> {FORBIDDEN, UNAUTHORIZED}"
  using dispatch_follows_table [of reader_call "register ''cron.remove'' (\<lambda>_ n. (Inr n, Suc n)) Map.empty" 0]
    reader_not_permitted
  by (simp add: reader_call_def)

text \<open>A client with the pairing scope alone can pair nodes but not ask for the state of pairing.\<close>

lemma pairing_enable:
  "list_ex (\<lambda>m. m = ''node.pairing.enable'') PAIRING_METHODS"
  "list_all (\<lambda>m. m \<noteq> ''node.pairing.enable'' \<and> m \<noteq> ''node.pairing.status'') NODE_METHODS"
  by code_simp+

lemma pairing_scope_lacks_status:
  "permitted ''operator'' [''operator.pairing''] ''node.pairing.enable''"
  "\<not> permitted ''operator'' [''operator.pairing''] ''node.pairing.status''"
  using pairing_enable approval_apart [of "''node.pairing.status''"] status_pairing
  by (auto simp: permitted_def scope_defs list_ex_iff list_all_iff)

end
