(* ===== verification/Env_Subst.thy ===== *)
theory Env_Subst
  imports Rust_Text
begin

text \<open>
  Placeholders for environment variables in configuration text (\<open>crates/config/src/env_subst.rs\<close>). The
  cursor of the code is the text that is left, and the process environment is a map. The loops take
  the rest of the text as their argument and end because it gets shorter.
\<close>

section \<open>Braced placeholders\<close>

abbreviation close_brace :: "char \<Rightarrow> bool" where
  "close_brace c \<equiv> c = CHR ''}''"

lemma find_sub_nonempty: "find_sub p s = Some k \<Longrightarrow> p \<noteq> [] \<Longrightarrow> k < length s"
  by (induction s arbitrary: k) (auto split: if_splits)

function subst_loop :: "(string \<Rightarrow> string option) \<Rightarrow> string \<Rightarrow> string" where
  "subst_loop lookup rest =
     (case find_sub ''${'' rest of
        None \<Rightarrow> rest
      | Some k \<Rightarrow>
          take k rest @
          (let after = drop (k + 2) rest in
           case find_char close_brace after of
             None \<Rightarrow> ''${'' @ after
           | Some e \<Rightarrow>
               (let name = take e after in
                if name = [] then ''${''
                else (case lookup name of Some v \<Rightarrow> v | None \<Rightarrow> ''${'' @ name @ ''}'')) @
               subst_loop lookup (drop (e + 1) after)))"
  by pat_completeness auto
termination
  by (relation "measure (\<lambda>(lookup, s). length s)") (auto dest!: find_sub_nonempty)

declare subst_loop.simps [simp del]

definition substitute_env_with :: "(string \<Rightarrow> string option) \<Rightarrow> string \<Rightarrow> string" where
  "substitute_env_with lookup input =
     (if \<not> contains_sub input ''${'' then input else subst_loop lookup input)"

definition substitute_env :: "(string \<rightharpoonup> string) \<Rightarrow> string \<Rightarrow> string" where
  "substitute_env env input = substitute_env_with env input"

definition substitute_env_with_overrides :: "(string \<rightharpoonup> string) \<Rightarrow> (string \<rightharpoonup> string) \<Rightarrow> string \<Rightarrow> string" where
  "substitute_env_with_overrides env overrides input =
     substitute_env_with (\<lambda>name. case env name of Some v \<Rightarrow> Some v | None \<Rightarrow> overrides name) input"

section \<open>Braced and bare placeholders\<close>

definition is_ascii_alphabetic :: "char \<Rightarrow> bool" where
  "is_ascii_alphabetic c \<longleftrightarrow> (let n = (of_char c :: nat) in (65 \<le> n \<and> n \<le> 90) \<or> (97 \<le> n \<and> n \<le> 122))"

definition is_env_ident_start :: "char \<Rightarrow> bool" where
  "is_env_ident_start c \<longleftrightarrow> c = CHR ''_'' \<or> is_ascii_alphabetic c"

definition is_env_ident_continue :: "char \<Rightarrow> bool" where
  "is_env_ident_continue c \<longleftrightarrow> c = CHR ''_'' \<or> is_ascii_alphabetic c \<or> is_ascii_digit c"

definition lookup_override :: "string \<Rightarrow> (string \<rightharpoonup> string) \<Rightarrow> string option" where
  "lookup_override name overrides =
     (case overrides name of Some v \<Rightarrow> (if trim v = [] then None else Some v) | None \<Rightarrow> None)"

lemma find_char_less: "find_char P s = Some k \<Longrightarrow> k < length s"
  by (induction s arbitrary: k) (auto split: if_splits)

lemma drop_Cons_length: "drop (Suc k) s = c # t \<Longrightarrow> Suc (length t) < length s"
proof -
  assume "drop (Suc k) s = c # t"
  then have "length s - Suc k = Suc (length t)" by (metis length_drop length_Cons)
  then show ?thesis by linarith
qed

lemma length_dropWhile_less: "drop (Suc k) s = c # t \<Longrightarrow> length (dropWhile P t) < length s"
  using drop_Cons_length [of k s c t] length_dropWhile_le [of P t] by linarith

text \<open>The loop on the text after the cursor. With empty braces the code writes the text from the dollar
  sign on and leaves the loop with the cursor where it was, so that the text after the cursor is
  written once more.\<close>

function placeholder_loop :: "(string \<rightharpoonup> string) \<Rightarrow> string \<Rightarrow> string" where
  "placeholder_loop overrides rest =
     (case find_char (\<lambda>c. c = CHR ''$'') rest of
        None \<Rightarrow> rest
      | Some k \<Rightarrow>
          take k rest @
          (case drop (k + 1) rest of
             [] \<Rightarrow> ''$''
           | c # after \<Rightarrow>
               if c = CHR ''{'' then
                 (case find_char close_brace after of
                    None \<Rightarrow> drop k rest
                  | Some e \<Rightarrow>
                      if 0 < e then
                        (case lookup_override (take e after) overrides of
                           Some v \<Rightarrow> v | None \<Rightarrow> ''${'' @ take e after @ ''}'') @
                        placeholder_loop overrides (drop (e + 1) after)
                      else drop k rest @ rest)
               else if \<not> is_env_ident_start c then
                 ''$'' @ placeholder_loop overrides (c # after)
               else
                 (let name = c # takeWhile is_env_ident_continue after in
                  (case lookup_override name overrides of Some v \<Rightarrow> v | None \<Rightarrow> CHR ''$'' # name) @
                  placeholder_loop overrides (dropWhile is_env_ident_continue after))))"
  by pat_completeness auto
termination
  by (relation "measure (\<lambda>(overrides, s). length s)")
    (auto dest: drop_Cons_length length_dropWhile_less)

declare placeholder_loop.simps [simp del]

definition substitute_env_placeholders :: "string \<Rightarrow> (string \<rightharpoonup> string) \<Rightarrow> string" where
  "substitute_env_placeholders input overrides = placeholder_loop overrides input"

text \<open>What follows a dollar sign is a placeholder.\<close>

definition placeholder_at :: "string \<Rightarrow> bool" where
  "placeholder_at after =
     (case after of
        [] \<Rightarrow> False
      | c # rest \<Rightarrow>
          if c = CHR ''{'' then (case find_char close_brace rest of Some e \<Rightarrow> 0 < e | None \<Rightarrow> False)
          else is_env_ident_start c)"

fun contains_env_placeholder :: "string \<Rightarrow> bool" where
  "contains_env_placeholder [] = False"
| "contains_env_placeholder (c # cs) = (c = CHR ''$'' \<and> placeholder_at cs \<or> contains_env_placeholder cs)"

definition is_entire_env_placeholder :: "string \<Rightarrow> bool" where
  "is_entire_env_placeholder v =
     (let trimmed = trim v in
      if trimmed = [] then False
      else
        (case Option.bind (strip_prefix trimmed ''${'') (\<lambda>r. strip_suffix r ''}'') of
           Some name \<Rightarrow> name \<noteq> [] \<and> list_all is_env_ident_continue name
         | None \<Rightarrow>
             (case strip_prefix trimmed ''$'' of
                Some name \<Rightarrow> name \<noteq> [] \<and> list_all is_env_ident_continue name
              | None \<Rightarrow> False)))"

section \<open>Lemmas\<close>

lemma find_char_None: "find_char P s = None \<longleftrightarrow> (\<forall>c\<in>set s. \<not> P c)"
  by (induction s) auto

lemma find_char_append:
  "(\<forall>c\<in>set a. \<not> P c) \<Longrightarrow> P d \<Longrightarrow> find_char P (a @ d # b) = Some (length a)"
  by (induction a) auto

lemma find_char_SomeD:
  "find_char P s = Some k \<Longrightarrow> (\<forall>c\<in>set (take k s). \<not> P c) \<and> P (s ! k)"
  by (induction s arbitrary: k) (auto split: if_splits)

text \<open>The first placeholder of a text whose beginning has none.\<close>

lemma find_sub_dollar_brace:
  "find_sub ''${'' a = None \<Longrightarrow> find_sub ''${'' (a @ ''${'' @ b) = Some (length a)"
proof (induction a)
  case (Cons c a)
  have "\<not> prefix ''${'' ((c # a) @ ''${'' @ b)"
    using Cons.prems by (cases a) (auto split: if_splits)
  then show ?case using Cons by (auto split: if_splits)
qed simp

lemma subst_loop_placeholder:
  assumes "find_sub ''${'' a = None" "CHR ''}'' \<notin> set name" "name \<noteq> []"
  shows "subst_loop lookup (a @ ''${'' @ name @ ''}'' @ b) =
    a @ (case lookup name of Some v \<Rightarrow> v | None \<Rightarrow> ''${'' @ name @ ''}'') @ subst_loop lookup b"
proof -
  have f: "find_sub ''${'' (a @ ''${'' @ name @ ''}'' @ b) = Some (length a)"
    by (rule find_sub_dollar_brace [OF assms(1)])
  have g: "find_char close_brace (name @ ''}'' @ b) = Some (length name)"
    using find_char_append [of name close_brace "CHR ''}''" b] assms(2) by auto
  have d: "drop (length a + 2) (a @ ''${'' @ name @ ''}'' @ b) = name @ ''}'' @ b" by simp
  have t: "take (length name) (name @ ''}'' @ b) = name" by simp
  show ?thesis
    by (subst subst_loop.simps, subst f) (simp only: option.case d Let_def g t, simp add: assms(3))
qed

lemma subst_loop_none: "find_sub ''${'' a = None \<Longrightarrow> subst_loop lookup a = a"
  by (simp add: subst_loop.simps)

lemma substitute_is_loop: "substitute_env_with lookup s = subst_loop lookup s"
  by (auto simp: substitute_env_with_def contains_sub_def subst_loop_none)

lemma undetected_suffix: "\<not> contains_env_placeholder s \<Longrightarrow> \<not> contains_env_placeholder (drop k s)"
proof (induction s arbitrary: k)
  case (Cons c s)
  then show ?case by (cases k) auto
qed simp

lemma undetected_at:
  "\<not> contains_env_placeholder s \<Longrightarrow> k < length s \<Longrightarrow> s ! k = CHR ''$'' \<Longrightarrow> \<not> placeholder_at (drop (Suc k) s)"
proof (induction s arbitrary: k)
  case (Cons c s)
  then show ?case by (cases k) auto
qed simp

lemma find_sub_drop: "find_sub p s = None \<Longrightarrow> p \<noteq> [] \<Longrightarrow> find_sub p (drop k s) = None"
proof (induction s arbitrary: k)
  case (Cons c s)
  then show ?case by (cases k) (auto split: if_splits)
qed simp

lemma not_prefix_drop: "find_sub p s = None \<Longrightarrow> p \<noteq> [] \<Longrightarrow> \<not> prefix p (drop k s)"
  using find_sub_drop [of p s k] by (cases "drop k s") (auto split: if_splits)

lemma placeholder_loop_undetected:
  "\<not> contains_env_placeholder s \<Longrightarrow> find_sub ''${}'' s = None \<Longrightarrow> placeholder_loop overrides s = s"
proof (induction overrides s rule: placeholder_loop.induct)
  case (1 overrides s)
  show ?case
  proof (cases "find_char (\<lambda>c. c = CHR ''$'') s")
    case None
    then show ?thesis by (simp add: placeholder_loop.simps)
  next
    case (Some k)
    have k: "k < length s" "s ! k = CHR ''$''" using find_char_less [OF Some] find_char_SomeD [OF Some] by auto
    have split: "take k s @ CHR ''$'' # drop (Suc k) s = s" using k id_take_nth_drop [of k s] by simp
    have d: "drop k s = CHR ''$'' # drop (Suc k) s" using k by (metis Cons_nth_drop_Suc)
    have np: "\<not> placeholder_at (drop (Suc k) s)" by (rule undetected_at [OF "1.prems"(1) k])
    show ?thesis
    proof (cases "drop (Suc k) s")
      case Nil
      then show ?thesis using Some split by (simp add: placeholder_loop.simps [of overrides s])
    next
      case (Cons c after)
      show ?thesis
      proof (cases "c = CHR ''{''")
        case True
        have "find_char close_brace after \<noteq> Some 0"
        proof
          assume "find_char close_brace after = Some 0"
          then obtain r where "after = CHR ''}'' # r" by (cases after) (auto split: if_splits)
          then have "prefix ''${}'' (drop k s)" using d Cons True by simp
          then show False using not_prefix_drop [OF "1.prems"(2), of k] by simp
        qed
        moreover have "find_char close_brace after \<noteq> Some e" if "0 < e" for e
          using np Cons True that by (auto simp: placeholder_at_def)
        ultimately have "find_char close_brace after = None"
          by (metis gr0I not_None_eq)
        then show ?thesis using Some Cons True split d by (simp add: placeholder_loop.simps [of overrides s])
      next
        case False
        then have ns: "\<not> is_env_ident_start c" using np Cons by (simp add: placeholder_at_def)
        have "placeholder_loop overrides (c # after) = c # after"
          using "1.IH"(2) [OF Some] Cons False ns undetected_suffix [OF "1.prems"(1), of "Suc k"]
            find_sub_drop [OF "1.prems"(2), of "Suc k"] by simp
        then show ?thesis using Some Cons False ns split by (simp add: placeholder_loop.simps [of overrides s])
      qed
    qed
  qed
qed

section \<open>Properties\<close>

text \<open>A placeholder becomes its value and nothing else changes. The text before the first placeholder
  stays, a known variable is replaced by its value, which is not scanned again, an unknown one stays
  as it is, and the substitution goes on behind the closing brace; text without \<open>${\<close> is unchanged, and
  the process environment comes before the overrides.\<close>

theorem substitution_exact:
  "(find_sub ''${'' a = None \<longrightarrow> substitute_env_with lookup a = a) \<and>
   (find_sub ''${'' a = None \<and> name \<noteq> [] \<and> CHR ''}'' \<notin> set name \<longrightarrow>
      substitute_env_with lookup (a @ ''${'' @ name @ ''}'' @ b) =
        a @ (case lookup name of Some v \<Rightarrow> v | None \<Rightarrow> ''${'' @ name @ ''}'') @ substitute_env_with lookup b) \<and>
   substitute_env_with_overrides env over s = substitute_env_with (over ++ env) s"
proof (intro conjI impI)
  show "substitute_env_with_overrides env over s = substitute_env_with (over ++ env) s"
    unfolding substitute_env_with_overrides_def
    by (rule arg_cong [of _ _ "\<lambda>l. substitute_env_with l s"]) (simp add: map_add_def fun_eq_iff)
qed (simp only: substitute_is_loop subst_loop_none, simp only: substitute_is_loop, elim conjE, rule subst_loop_placeholder)

theorem substitution_exact_witness:
  "substitute_env_with [''KEY'' \<mapsto> ''${KEY}''] ''a=${KEY}!'' = ''a=${KEY}!''"
proof -
  have "substitute_env_with [''KEY'' \<mapsto> ''${KEY}''] (''a='' @ ''${'' @ ''KEY'' @ ''}'' @ ''!'') =
      ''a='' @ ''${KEY}'' @ substitute_env_with [''KEY'' \<mapsto> ''${KEY}''] ''!''"
    using substitution_exact [of "''a=''" "[''KEY'' \<mapsto> ''${KEY}'']" "''KEY''" "''!''"] by simp
  moreover have "substitute_env_with [''KEY'' \<mapsto> ''${KEY}''] ''!'' = ''!''"
    using substitution_exact [of "''!''" "[''KEY'' \<mapsto> ''${KEY}'']"] by simp
  ultimately show ?thesis by simp
qed

text \<open>Text in which no placeholder is detected is left alone. When \<open>contains_env_placeholder\<close> says no
  and the text holds no empty braces, \<open>substitute_env_placeholders\<close> returns it as it is, whatever the
  overrides.\<close>

theorem undetected_text_unchanged:
  assumes "\<not> contains_env_placeholder s" "find_sub ''${}'' s = None"
  shows "substitute_env_placeholders s overrides = s"
  using placeholder_loop_undetected [OF assms] by (simp add: substitute_env_placeholders_def)

theorem undetected_text_unchanged_witness:
  "substitute_env_placeholders ''cost: $5 or {$}'' [''5'' \<mapsto> ''x''] = ''cost: $5 or {$}''"
  by (rule undetected_text_unchanged) code_simp+

section \<open>What the code does not do\<close>

text \<open>Empty braces make the text appear twice, although no placeholder is detected in it.\<close>

lemma empty_braces_duplicate:
  "substitute_env_placeholders ''a${}b'' Map.empty = ''a${}ba${}b''" "\<not> contains_env_placeholder ''a${}b''"
  by code_simp+

text \<open>The two detectors disagree about a number after the dollar sign.\<close>

lemma detectors_disagree: "is_entire_env_placeholder ''$1''" "\<not> contains_env_placeholder ''$1''"
  by code_simp+

end
