(* ===== verification/Json_Repair.thy ===== *)
theory Json_Repair
  imports Rust_Text
begin

text \<open>
  The repair of malformed JSON from small models (\<open>crates/agents/src/json_repair.rs\<close>): comments, trailing
  commas, missing closers. \<open>serde_json::from_str\<close> is the argument \<open>parse\<close>. The second pass reads the
  bytes of the text and writes each as a character; the bytes of a character are \<open>utf8\<close>.
\<close>

section \<open>The passes\<close>

lemma dropWhile_Cons_length: "dropWhile P xs = y # ys \<Longrightarrow> length ys < length xs"
  using length_dropWhile_le [of P xs] by simp

text \<open>Comments, outside of strings; the previous character tells whether a quote is escaped.\<close>

function strip_comments :: "bool \<Rightarrow> char \<Rightarrow> string \<Rightarrow> string" where
  "strip_comments in_string prev [] = []"
| "strip_comments in_string prev (c # cs) =
     (if in_string then c # strip_comments (\<not> (c = double_quote \<and> prev \<noteq> backslash)) c cs
      else if c = double_quote then c # strip_comments True c cs
      else if c = CHR ''/'' \<and> (case cs of d # _ \<Rightarrow> d = CHR ''/'' | [] \<Rightarrow> False) then
        (case dropWhile (\<lambda>x. x \<noteq> newline) cs of
           [] \<Rightarrow> []
         | _ # rest \<Rightarrow> newline # strip_comments False newline rest)
      else c # strip_comments False c cs)"
  by pat_completeness auto
termination
  by (relation "measure (\<lambda>(i, p, s). length s)") (auto dest: dropWhile_Cons_length)

declare strip_comments.simps(2) [simp del]

definition utf8 :: "char \<Rightarrow> string" where
  "utf8 c = (let n = (of_char c :: nat) in
     if n < 128 then [c] else [char_of (192 + n div 64), char_of (128 + n mod 64)])"

definition bytes :: "string \<Rightarrow> string" where
  "bytes s = concat (map utf8 s)"

definition is_ascii_whitespace :: "char \<Rightarrow> bool" where
  "is_ascii_whitespace c \<longleftrightarrow> of_char c \<in> {9, 10, 12, 13, 32 :: nat}"

text \<open>What follows a comma, past the white space, is a closer.\<close>

definition before_closer :: "string \<Rightarrow> bool" where
  "before_closer cs =
     (case dropWhile is_ascii_whitespace cs of
        d # _ \<Rightarrow> d = CHR ''}'' \<or> d = CHR '']'' | [] \<Rightarrow> False)"

fun drop_trailing_commas :: "bool \<Rightarrow> bool \<Rightarrow> string \<Rightarrow> string" where
  "drop_trailing_commas in_string escape_next [] = []"
| "drop_trailing_commas in_string escape_next (c # cs) =
     (if in_string then
        c # (if escape_next then drop_trailing_commas True False cs
             else if c = backslash then drop_trailing_commas True True cs
             else drop_trailing_commas (c \<noteq> double_quote) False cs)
      else if c = double_quote then c # drop_trailing_commas True escape_next cs
      else if c = CHR '','' \<and> before_closer cs then drop_trailing_commas False escape_next cs
      else c # drop_trailing_commas False escape_next cs)"

text \<open>The scan of the third pass: whether it is in a string, whether the next character is escaped, and the
  closers that are missing, the last one first.\<close>

type_synonym scan_state = "bool \<times> bool \<times> string"

fun scan_char :: "scan_state \<Rightarrow> char \<Rightarrow> scan_state" where
  "scan_char (in_string, escape_next, stack) c =
     (if in_string then
        (if escape_next then (True, False, stack)
         else if c = backslash then (True, True, stack)
         else (c \<noteq> double_quote, False, stack))
      else if c = double_quote then (True, escape_next, stack)
      else if c = CHR ''{'' then (False, escape_next, CHR ''}'' # stack)
      else if c = CHR ''['' then (False, escape_next, CHR '']'' # stack)
      else if (c = CHR ''}'' \<or> c = CHR '']'') \<and> (case stack of t # _ \<Rightarrow> t = c | [] \<Rightarrow> False)
      then (False, escape_next, tl stack)
      else (False, escape_next, stack))"

definition scan_text :: "string \<Rightarrow> scan_state" where
  "scan_text s = foldl scan_char (False, False, []) s"

definition balance :: "string \<Rightarrow> string" where
  "balance s = (case scan_text s of
     (in_string, _, stack) \<Rightarrow> s @ (if in_string then [double_quote] else []) @ stack)"

definition clean :: "string \<Rightarrow> string" where
  "clean s = drop_trailing_commas False False (bytes (strip_comments False (CHR 0x00) s))"

definition repair_json :: "(string \<Rightarrow> 'json option) \<Rightarrow> string \<Rightarrow> 'json option" where
  "repair_json parse input =
     (case parse input of
        Some v \<Rightarrow> Some v
      | None \<Rightarrow>
          let cleaned = clean input in
          (case parse cleaned of
             Some v \<Rightarrow> Some v
           | None \<Rightarrow> parse (balance cleaned)))"

section \<open>Lemmas\<close>

text \<open>Outside of a string nothing is escaped, and the stack holds closers.\<close>

definition scan_ok :: "scan_state \<Rightarrow> bool" where
  "scan_ok st = (case st of (q, e, stack) \<Rightarrow> (e \<longrightarrow> q) \<and> set stack \<subseteq> {CHR ''}'', CHR '']''})"

lemma scan_ok_char: "scan_ok st \<Longrightarrow> scan_ok (scan_char st c)"
  by (cases "(st, c)" rule: scan_char.cases) (auto simp: scan_ok_def split: list.splits)

lemma scan_ok_foldl: "scan_ok st \<Longrightarrow> scan_ok (foldl scan_char st s)"
  by (induction s arbitrary: st) (auto simp: scan_ok_char)

lemma scan_ok_text: "scan_ok (scan_text s)"
  unfolding scan_text_def by (rule scan_ok_foldl) (simp add: scan_ok_def)

lemma scan_closers:
  "set stack \<subseteq> {CHR ''}'', CHR '']''} \<Longrightarrow> foldl scan_char (False, False, stack) stack = (False, False, [])"
  by (induction stack) (auto simp: double_quote_def)

lemma balance_scans:
  assumes "scan_text s = (q, e, stack)" "\<not> e"
  shows "scan_text (balance s) = (False, False, [])"
proof -
  have st: "set stack \<subseteq> {CHR ''}'', CHR '']''}" using scan_ok_text [of s] assms(1) by (simp add: scan_ok_def)
  have "scan_text (balance s) = foldl scan_char (foldl scan_char (q, False, stack) (if q then [double_quote] else [])) stack"
    using assms by (simp add: balance_def scan_text_def)
  also have "foldl scan_char (q, False, stack) (if q then [double_quote] else []) = (False, False, stack)"
    by (simp add: double_quote_def backslash_def)
  also have "foldl scan_char (False, False, stack) stack = (False, False, [])"
    by (rule scan_closers [OF st])
  finally show ?thesis .
qed

text \<open>Text without slashes, commas and characters beyond ASCII is clean already.\<close>

lemma strip_comments_plain: "CHR ''/'' \<notin> set s \<Longrightarrow> strip_comments q p s = s"
  by (induction s arbitrary: q p) (auto simp: strip_comments.simps)

lemma commas_plain: "CHR '','' \<notin> set s \<Longrightarrow> drop_trailing_commas q e s = s"
  by (induction s arbitrary: q e) auto

lemma bytes_ascii: "\<forall>c\<in>set s. of_char c < (128 :: nat) \<Longrightarrow> bytes s = s"
  by (induction s) (auto simp: bytes_def utf8_def)

lemma clean_plain:
  "CHR ''/'' \<notin> set s \<Longrightarrow> CHR '','' \<notin> set s \<Longrightarrow> \<forall>c\<in>set s. of_char c < (128 :: nat) \<Longrightarrow> clean s = s"
  by (simp add: clean_def strip_comments_plain commas_plain bytes_ascii)

lemma prefix_balance: "prefix s (balance s)"
  by (auto simp: balance_def split: prod.splits)

section \<open>Properties\<close>

text \<open>The repair closes what is open and touches nothing that parses. Text that parses is returned as
  parsed; otherwise the result is that of parsing the cleaned text, or the cleaned text followed by the
  closers it lacks: in that text every string is closed and every brace and bracket has its closer, unless
  the text ends in a backslash inside a string.\<close>

theorem repair_closes:
  "(parse input = Some v \<longrightarrow> repair_json parse input = Some v) \<and>
   (repair_json parse input = Some w \<longrightarrow> (\<exists>text\<in>{input, clean input, balance (clean input)}. parse text = Some w)) \<and>
   prefix (clean input) (balance (clean input)) \<and>
   (\<not> fst (snd (scan_text (clean input))) \<longrightarrow> scan_text (balance (clean input)) = (False, False, []))"
proof (intro conjI impI)
  assume "\<not> fst (snd (scan_text (clean input)))"
  then show "scan_text (balance (clean input)) = (False, False, [])"
    by (cases "scan_text (clean input)") (simp add: balance_scans)
qed (auto simp: repair_json_def Let_def prefix_balance split: option.splits)

theorem repair_closes_witness:
  "scan_text (balance (clean ''{a: [1, {b: 2,},'')) = (False, False, [])"
proof -
  have "\<not> fst (snd (scan_text (clean ''{a: [1, {b: 2,},'')))" by code_simp
  then show ?thesis using repair_closes [of "\<lambda>_. None :: unit option" "''{a: [1, {b: 2,},''" "()" "()"] by blast
qed

section \<open>What the code does not do\<close>

text \<open>The second pass writes the bytes of a character beyond ASCII as characters of their own: it destroys
  every such character of a text that has to be repaired, inside strings too.\<close>

lemma repair_garbles_text:
  "clean [double_quote, char_of (233 :: nat), double_quote] =
     [double_quote, char_of (195 :: nat), char_of (169 :: nat), double_quote]"
  by code_simp

text \<open>The first pass takes the quote after an escaped backslash for an escaped quote, so the string stays
  open, and what follows it counts as part of the string: the comment is kept.\<close>

lemma escaped_backslash_keeps_comment:
  "strip_comments False (CHR 0x00) ([double_quote, backslash, backslash, double_quote] @ '' //x'') =
     [double_quote, backslash, backslash, double_quote] @ '' //x''"
  by code_simp

end
