(* ===== verification/Tool_Args.thy ===== *)
theory Tool_Args
  imports Rust_Text
begin

text \<open>
  The validation of tool arguments against the tool's schema and the coercion of scalars written as
  strings (\<open>crates/agents/src/tool_arg_validator.rs\<close>), in the order the agent runner calls them.

  A JSON value is \<open>'f json_value\<close>, where \<open>'f\<close> are the floating-point numbers; the operations on them are
  the record \<open>float_ops\<close>. An object is the list of its members. The texts for the model and for the
  log are left out.
\<close>

section \<open>Values\<close>

datatype 'f json_number = PosInt nat | NegInt int | Float 'f

datatype 'f json_value =
    Null
  | Bool bool
  | Number "'f json_number"
  | String string
  | Array "'f json_value list"
  | Object "(string \<times> 'f json_value) list"

record 'f float_ops =
  parse_f64 :: "string \<Rightarrow> 'f option"
  finite_f64 :: "'f \<Rightarrow> bool"
  integral_f64 :: "'f \<Rightarrow> bool"

definition as_object :: "'f json_value \<Rightarrow> (string \<times> 'f json_value) list option" where
  "as_object v = (case v of Object ms \<Rightarrow> Some ms | _ \<Rightarrow> None)"

definition as_array :: "'f json_value \<Rightarrow> 'f json_value list option" where
  "as_array v = (case v of Array vs \<Rightarrow> Some vs | _ \<Rightarrow> None)"

definition as_str :: "'f json_value \<Rightarrow> string option" where
  "as_str v = (case v of String s \<Rightarrow> Some s | _ \<Rightarrow> None)"

text \<open>\<open>str::parse::<i64>\<close> and \<open>Number::from\<close> an \<open>i64\<close>.\<close>

definition parse_i64 :: "string \<Rightarrow> int option" where
  "parse_i64 s =
     (case s of
        [] \<Rightarrow> None
      | c # cs \<Rightarrow>
          if c = CHR ''-'' then
            (if cs = [] then None
             else (case digits_value 0 cs of
                     Some n \<Rightarrow> (if n \<le> 2 ^ 63 then Some (- int n) else None)
                   | None \<Rightarrow> None))
          else (case parse_u64 s of Some n \<Rightarrow> (if n < 2 ^ 63 then Some (int n) else None) | None \<Rightarrow> None))"

definition number_from_i64 :: "int \<Rightarrow> 'f json_number" where
  "number_from_i64 i = (if 0 \<le> i then PosInt (nat i) else NegInt i)"

section \<open>Types\<close>

definition type_matches_single :: "'f float_ops \<Rightarrow> string \<Rightarrow> 'f json_value \<Rightarrow> bool" where
  "type_matches_single fl expected v =
     (if expected = ''string'' then (case v of String _ \<Rightarrow> True | _ \<Rightarrow> False)
      else if expected = ''number'' then (case v of Number _ \<Rightarrow> True | _ \<Rightarrow> False)
      else if expected = ''integer'' then
        (case v of
           Number (PosInt _) \<Rightarrow> True | Number (NegInt _) \<Rightarrow> True
         | Number (Float x) \<Rightarrow> integral_f64 fl x | _ \<Rightarrow> False)
      else if expected = ''boolean'' then (case v of Bool _ \<Rightarrow> True | _ \<Rightarrow> False)
      else if expected = ''object'' then (case v of Object _ \<Rightarrow> True | _ \<Rightarrow> False)
      else if expected = ''array'' then (case v of Array _ \<Rightarrow> True | _ \<Rightarrow> False)
      else if expected = ''null'' then v = Null
      else True)"

definition type_matches :: "'f float_ops \<Rightarrow> 'f json_value \<Rightarrow> 'f json_value \<Rightarrow> bool" where
  "type_matches fl expected v =
     (case expected of
        String t \<Rightarrow> type_matches_single fl t v
      | Array ts \<Rightarrow> list_ex (\<lambda>t. type_matches_single fl t v) (List.map_filter as_str ts)
      | _ \<Rightarrow> True)"

definition expected_type_name :: "'f json_value \<Rightarrow> string" where
  "expected_type_name expected =
     (case expected of
        String t \<Rightarrow> t
      | Array ts \<Rightarrow>
          (let labels = List.map_filter as_str ts in
           if labels = [] then ''unknown''
           else concat (hd labels # map (\<lambda>l. '' | '' @ l) (tl labels)))
      | _ \<Rightarrow> ''unknown'')"

definition value_type_name :: "'f json_value \<Rightarrow> string" where
  "value_type_name v =
     (case v of Null \<Rightarrow> ''null'' | Bool _ \<Rightarrow> ''boolean'' | Number _ \<Rightarrow> ''number'' | String _ \<Rightarrow> ''string''
      | Array _ \<Rightarrow> ''array'' | Object _ \<Rightarrow> ''object'')"

definition type_labels :: "'f json_value \<Rightarrow> string list" where
  "type_labels expected =
     (case expected of String t \<Rightarrow> [t] | Array ts \<Rightarrow> List.map_filter as_str ts | _ \<Rightarrow> [])"

text \<open>The declared type of a field, \<open>properties.<field>.type\<close>.\<close>

definition declared_type :: "'f json_value \<Rightarrow> 'f json_value option" where
  "declared_type prop_schema = Option.bind (as_object prop_schema) (\<lambda>ms. map_of ms ''type'')"

section \<open>Validation\<close>

record type_mismatch =
  mm_field :: string
  mm_expected :: string
  mm_actual :: string

record 'f tool_arg_error =
  missing_required :: "string list"
  type_mismatches :: "type_mismatch list"
  received :: "'f json_value"

definition required_list :: "(string \<times> 'f json_value) list \<Rightarrow> string list" where
  "required_list schema_obj =
     (case Option.bind (map_of schema_obj ''required'') as_array of
        Some arr \<Rightarrow> List.map_filter as_str arr
      | None \<Rightarrow> [])"

definition schema_properties :: "(string \<times> 'f json_value) list \<Rightarrow> (string \<times> 'f json_value) list option" where
  "schema_properties schema_obj = Option.bind (map_of schema_obj ''properties'') as_object"

definition missing_fields :: "string list \<Rightarrow> (string \<times> 'f json_value) list \<Rightarrow> string list" where
  "missing_fields required args_obj =
     filter (\<lambda>f. case map_of args_obj f of None \<Rightarrow> True | Some v \<Rightarrow> v = Null) required"

definition mismatch :: "'f float_ops \<Rightarrow> (string \<times> 'f json_value) list \<Rightarrow> string \<times> 'f json_value \<Rightarrow> type_mismatch option" where
  "mismatch fl args_obj p =
     (case map_of args_obj (fst p) of
        None \<Rightarrow> None
      | Some v \<Rightarrow>
          if v = Null then None
          else (case declared_type (snd p) of
                  None \<Rightarrow> None
                | Some expected \<Rightarrow>
                    if \<not> type_matches fl expected v
                    then Some \<lparr>mm_field = fst p, mm_expected = expected_type_name expected,
                               mm_actual = value_type_name v\<rparr>
                    else None))"

definition validate_tool_args :: "'f float_ops \<Rightarrow> 'f json_value \<Rightarrow> 'f json_value \<Rightarrow> 'f tool_arg_error + unit" where
  "validate_tool_args fl schema args =
     (case as_object schema of
        None \<Rightarrow> Inr ()
      | Some schema_obj \<Rightarrow>
          if schema_obj = [] then Inr ()
          else
            let required = required_list schema_obj; props = schema_properties schema_obj in
            if required = [] \<and> props = None then Inr ()
            else
              (case as_object args of
                 None \<Rightarrow>
                   if required = [] then Inr ()
                   else Inl \<lparr>missing_required = required, type_mismatches = [], received = args\<rparr>
               | Some args_obj \<Rightarrow>
                   let missing = missing_fields required args_obj;
                       wrong = (case props of None \<Rightarrow> [] | Some ps \<Rightarrow> List.map_filter (mismatch fl args_obj) ps) in
                   if missing = [] \<and> wrong = [] then Inr ()
                   else Inl \<lparr>missing_required = missing, type_mismatches = wrong, received = args\<rparr>))"

section \<open>Coercion\<close>

fun coerce_string_scalar_loop :: "'f float_ops \<Rightarrow> string \<Rightarrow> string list \<Rightarrow> 'f json_value option" where
  "coerce_string_scalar_loop fl trimmed [] = None"
| "coerce_string_scalar_loop fl trimmed (label # ls) =
     (if label = ''boolean'' then
        (if eq_ignore_ascii_case trimmed ''true'' then Some (Bool True)
         else if eq_ignore_ascii_case trimmed ''false'' then Some (Bool False)
         else coerce_string_scalar_loop fl trimmed ls)
      else if label = ''integer'' then
        (case parse_i64 trimmed of
           Some i \<Rightarrow> Some (Number (number_from_i64 i))
         | None \<Rightarrow>
             (case parse_u64 trimmed of
                Some n \<Rightarrow> Some (Number (PosInt n))
              | None \<Rightarrow> coerce_string_scalar_loop fl trimmed ls))
      else if label = ''number'' then
        (case parse_f64 fl trimmed of
           Some x \<Rightarrow> if finite_f64 fl x then Some (Number (Float x)) else coerce_string_scalar_loop fl trimmed ls
         | None \<Rightarrow> coerce_string_scalar_loop fl trimmed ls)
      else coerce_string_scalar_loop fl trimmed ls)"

definition coerce_string_scalar :: "'f float_ops \<Rightarrow> string \<Rightarrow> string list \<Rightarrow> 'f json_value option" where
  "coerce_string_scalar fl raw allowed =
     (let trimmed = trim raw in if trimmed = [] then None else coerce_string_scalar_loop fl trimmed allowed)"

text \<open>The rewrite for a property of the schema.\<close>

definition rewrite :: "'f float_ops \<Rightarrow> (string \<times> 'f json_value) list \<Rightarrow> string \<times> 'f json_value \<Rightarrow> (string \<times> 'f json_value) option" where
  "rewrite fl args_obj p =
     (case map_of args_obj (fst p) of
        Some (String raw) \<Rightarrow>
          (case declared_type (snd p) of
             None \<Rightarrow> None
           | Some expected \<Rightarrow>
               if ''string'' \<in> set (type_labels expected) then None
               else map_option (\<lambda>v. (fst p, v)) (coerce_string_scalar fl raw (type_labels expected)))
      | _ \<Rightarrow> None)"

definition coerce_scalar_args :: "'f float_ops \<Rightarrow> 'f json_value \<Rightarrow> 'f json_value \<Rightarrow> 'f json_value" where
  "coerce_scalar_args fl schema args =
     (case Option.bind (as_object schema) schema_properties of
        None \<Rightarrow> args
      | Some props \<Rightarrow>
          (case as_object args of
             None \<Rightarrow> args
           | Some args_obj \<Rightarrow>
               Object (foldl (\<lambda>ms (field, v). AList.update field v ms) args_obj
                 (List.map_filter (rewrite fl args_obj) props))))"

text \<open>The runner coerces the arguments and dispatches them when they pass.\<close>

definition prepare_args :: "'f float_ops \<Rightarrow> 'f json_value \<Rightarrow> 'f json_value \<Rightarrow> 'f tool_arg_error + 'f json_value" where
  "prepare_args fl schema args =
     (let args = coerce_scalar_args fl schema args in
      case validate_tool_args fl schema args of Inl e \<Rightarrow> Inl e | Inr _ \<Rightarrow> Inr args)"

section \<open>Lemmas\<close>

lemma map_filter_Nil: "List.map_filter f xs = [] \<longleftrightarrow> (\<forall>x\<in>set xs. f x = None)"
  by (induction xs) (auto split: option.splits)

lemma in_map_filter: "y \<in> set (List.map_filter f xs) \<longleftrightarrow> (\<exists>x\<in>set xs. f x = Some y)"
  by (induction xs) (auto split: option.splits)

text \<open>What it means that a value has the fields and types that a schema asks for.\<close>

definition conforms :: "'f float_ops \<Rightarrow> (string \<times> 'f json_value) list \<Rightarrow> 'f json_value \<Rightarrow> bool" where
  "conforms fl sch args =
     (case args of
        Object ms \<Rightarrow>
          (\<forall>f\<in>set (required_list sch). \<exists>v. map_of ms f = Some v \<and> v \<noteq> Null) \<and>
          (\<forall>ps. schema_properties sch = Some ps \<longrightarrow>
            (\<forall>(f, p)\<in>set ps. \<forall>t v. declared_type p = Some t \<longrightarrow> map_of ms f = Some v \<longrightarrow> v \<noteq> Null \<longrightarrow>
              type_matches fl t v))
      | _ \<Rightarrow> required_list sch = [])"

lemma missing_none: "missing_fields required ms = [] \<longleftrightarrow> (\<forall>f\<in>set required. \<exists>v. map_of ms f = Some v \<and> v \<noteq> Null)"
  by (auto simp: missing_fields_def filter_empty_conv split: option.splits)

lemma mismatch_none:
  "mismatch fl ms (f, p) = None \<longleftrightarrow>
   (\<forall>t v. declared_type p = Some t \<longrightarrow> map_of ms f = Some v \<longrightarrow> v \<noteq> Null \<longrightarrow> type_matches fl t v)"
  by (auto simp: mismatch_def split: option.splits)

lemma schema_empty: "required_list [] = []" "schema_properties [] = None"
  by (simp_all add: required_list_def schema_properties_def)

lemma validate_conforms: "validate_tool_args fl (Object sch) args = Inr () \<longleftrightarrow> conforms fl sch args"
proof (cases args)
  case (Object ms)
  have w: "(case schema_properties sch of None \<Rightarrow> [] | Some ps \<Rightarrow> List.map_filter (mismatch fl ms) ps) = [] \<longleftrightarrow>
      (\<forall>ps. schema_properties sch = Some ps \<longrightarrow> (\<forall>(f, p)\<in>set ps. \<forall>t v. declared_type p = Some t \<longrightarrow>
        map_of ms f = Some v \<longrightarrow> v \<noteq> Null \<longrightarrow> type_matches fl t v))"
    by (auto simp: map_filter_Nil mismatch_none split: option.splits)
  show ?thesis
    unfolding conforms_def Object json_value.case w [symmetric] missing_none [symmetric]
    by (auto simp: validate_tool_args_def as_object_def Let_def schema_empty missing_fields_def)
qed (auto simp: validate_tool_args_def as_object_def conforms_def Let_def schema_empty)

lemma integer_matches: "type_matches_single fl ''integer'' (Number (number_from_i64 i))"
  by (simp add: type_matches_single_def number_from_i64_def)

lemma coerce_step_matches:
  assumes "coerce_string_scalar_loop fl s (l # ls) = Some v"
  shows "type_matches_single fl l v \<or> coerce_string_scalar_loop fl s ls = Some v"
proof (cases "l = ''boolean''")
  case True
  then show ?thesis using assms by (simp add: type_matches_single_def split: if_splits) auto
next
  case nb: False
  show ?thesis
  proof (cases "l = ''integer''")
    case True
    have "type_matches_single fl ''integer'' (Number (PosInt n))" for n by (simp add: type_matches_single_def)
    then show ?thesis using assms nb True integer_matches
      by (cases "parse_i64 s"; cases "parse_u64 s") auto
  next
    case ni: False
    have "type_matches_single fl ''number'' (Number x)" for x by (simp add: type_matches_single_def)
    then show ?thesis using assms nb ni
      by (cases "l = ''number''"; cases "parse_f64 fl s") (auto simp del: One_nat_def split: if_splits)
  qed
qed

lemma coerce_loop_matches:
  "coerce_string_scalar_loop fl s ls = Some v \<Longrightarrow> \<exists>l\<in>set ls. type_matches_single fl l v"
  by (induction ls) (auto dest!: coerce_step_matches simp del: coerce_string_scalar_loop.simps(2))

lemma labels_match: "l \<in> set (type_labels t) \<Longrightarrow> type_matches_single fl l v \<Longrightarrow> type_matches fl t v"
  by (auto simp: type_labels_def type_matches_def list_ex_iff split: json_value.splits)

text \<open>A rewritten field held a string, may not hold one, and gets a value of a declared type.\<close>

definition rewritten :: "'f float_ops \<Rightarrow> (string \<times> 'f json_value) list \<Rightarrow> (string \<times> 'f json_value) list \<Rightarrow> string \<Rightarrow> 'f json_value \<Rightarrow> bool" where
  "rewritten fl ps ms f v \<longleftrightarrow>
     (\<exists>raw p t. map_of ms f = Some (String raw) \<and> (f, p) \<in> set ps \<and> declared_type p = Some t \<and>
       ''string'' \<notin> set (type_labels t) \<and> type_matches fl t v)"

lemma coerce_scalar_matches:
  "coerce_string_scalar fl raw (type_labels t) = Some v \<Longrightarrow> type_matches fl t v"
  by (auto simp: coerce_string_scalar_def Let_def dest!: coerce_loop_matches intro: labels_match split: if_splits)

lemma rewrite_Some:
  assumes "rewrite fl ms (f', p) = Some (f, v)"
  shows "f' = f \<and> (\<exists>raw t. map_of ms f = Some (String raw) \<and> declared_type p = Some t \<and>
    ''string'' \<notin> set (type_labels t) \<and> coerce_string_scalar fl raw (type_labels t) = Some v)"
proof -
  obtain raw where raw: "map_of ms f' = Some (String raw)"
    using assms by (auto simp: rewrite_def split: option.splits json_value.splits)
  obtain t where t: "declared_type p = Some t"
    using assms raw by (auto simp: rewrite_def split: option.splits)
  show ?thesis using assms raw t by (auto simp: rewrite_def split: if_splits)
qed

lemma rewrite_rewritten:
  assumes "(f, v) \<in> set (List.map_filter (rewrite fl ms) ps)"
  shows "rewritten fl ps ms f v"
proof -
  obtain f' p where "(f', p) \<in> set ps" "rewrite fl ms (f', p) = Some (f, v)"
    using assms by (auto simp: in_map_filter)
  with rewrite_Some [OF this(2)] coerce_scalar_matches show ?thesis
    unfolding rewritten_def by blast
qed

lemma update_keys: "f \<in> fst ` set ms \<Longrightarrow> map fst (AList.update f v ms) = map fst ms"
  by (induction ms) auto

lemma foldl_update_keys:
  "(\<And>f v. (f, v) \<in> set rs \<Longrightarrow> f \<in> set (map fst ms)) \<Longrightarrow>
   map fst (foldl (\<lambda>ms (f, v). AList.update f v ms) ms rs) = map fst ms"
proof (induction rs arbitrary: ms)
  case (Cons r rs)
  obtain f v where r: "r = (f, v)" by (cases r)
  have "f \<in> fst ` set ms" using Cons.prems [of f v] r by simp
  then have k: "map fst (AList.update f v ms) = map fst ms" by (rule update_keys)
  have "map fst (foldl (\<lambda>ms (f, v). AList.update f v ms) (AList.update f v ms) rs) = map fst (AList.update f v ms)"
    by (rule Cons.IH) (use Cons.prems k in \<open>auto simp del: list.set_map\<close>)
  then show ?case using r k by simp
qed simp

lemma foldl_update_lookup:
  "map_of (foldl (\<lambda>ms (f, v). AList.update f v ms) ms rs) f = Some v \<Longrightarrow> map_of ms f = Some v \<or> (f, v) \<in> set rs"
proof (induction rs arbitrary: ms)
  case (Cons r rs)
  then show ?case by (cases r) (fastforce simp: update_conv' split: if_splits)
qed simp

lemma coerce_members:
  assumes "coerce_scalar_args fl (Object sch) (Object ms) = out"
  shows "\<exists>ms'. out = Object ms' \<and> map fst ms' = map fst ms \<and>
    (\<forall>f v. map_of ms' f = Some v \<longrightarrow> map_of ms f = Some v \<or>
      (\<exists>ps. schema_properties sch = Some ps \<and> rewritten fl ps ms f v))"
proof (cases "schema_properties sch")
  case None
  then show ?thesis using assms by (auto simp: coerce_scalar_args_def as_object_def)
next
  case (Some ps)
  let ?rs = "List.map_filter (rewrite fl ms) ps"
  let ?out = "foldl (\<lambda>ms (f, v). AList.update f v ms) ms ?rs"
  have "out = Object ?out" using assms Some by (simp add: coerce_scalar_args_def as_object_def)
  moreover have "map fst ?out = map fst ms"
  proof (rule foldl_update_keys)
    fix f v assume "(f, v) \<in> set ?rs"
    then have "map_of ms f \<noteq> None" by (auto dest!: rewrite_rewritten simp: rewritten_def)
    then show "f \<in> set (map fst ms)" by (simp add: map_of_eq_None_iff)
  qed
  ultimately show ?thesis
    using Some foldl_update_lookup [of ms ?rs] rewrite_rewritten [of _ _ fl ms ps] by blast
qed

section \<open>Properties\<close>

text \<open>A tool gets arguments of the types it declares. When the runner's check lets arguments through,
  every required field is there and not null, every field with a declared type has a value of that type,
  and the arguments are the model's own, except for fields that held a string where the schema allows
  none, which now hold a scalar of a declared type; arguments that conform are never refused.\<close>

theorem dispatched_args_conform:
  "(prepare_args fl (Object sch) args = Inr out \<longrightarrow>
     conforms fl sch out \<and>
     (case args of
        Object ms \<Rightarrow> (\<exists>ms'. out = Object ms' \<and> map fst ms' = map fst ms \<and>
          (\<forall>f v. map_of ms' f = Some v \<longrightarrow> map_of ms f = Some v \<or>
            (\<exists>ps. schema_properties sch = Some ps \<and> rewritten fl ps ms f v)))
      | _ \<Rightarrow> out = args)) \<and>
   (conforms fl sch (coerce_scalar_args fl (Object sch) args) \<longrightarrow>
     prepare_args fl (Object sch) args = Inr (coerce_scalar_args fl (Object sch) args))"
proof (intro conjI impI)
  assume p: "prepare_args fl (Object sch) args = Inr out"
  then have v: "validate_tool_args fl (Object sch) out = Inr ()" and c: "coerce_scalar_args fl (Object sch) args = out"
    by (auto simp: prepare_args_def Let_def split: sum.splits)
  show "conforms fl sch out" using v by (simp add: validate_conforms)
  show "case args of
        Object ms \<Rightarrow> (\<exists>ms'. out = Object ms' \<and> map fst ms' = map fst ms \<and>
          (\<forall>f v. map_of ms' f = Some v \<longrightarrow> map_of ms f = Some v \<or>
            (\<exists>ps. schema_properties sch = Some ps \<and> rewritten fl ps ms f v)))
      | _ \<Rightarrow> out = args"
  proof (cases args)
    case (Object ms)
    then show ?thesis using coerce_members [of fl sch ms out] c by simp
  qed (use c in \<open>auto simp: coerce_scalar_args_def as_object_def split: option.splits\<close>)
next
  assume "conforms fl sch (coerce_scalar_args fl (Object sch) args)"
  then show "prepare_args fl (Object sch) args = Inr (coerce_scalar_args fl (Object sch) args)"
    by (simp add: prepare_args_def Let_def validate_conforms [symmetric])
qed

definition no_floats :: "unit float_ops" where
  "no_floats = \<lparr>parse_f64 = \<lambda>_. None, finite_f64 = \<lambda>_. False, integral_f64 = \<lambda>_. False\<rparr>"

definition page_schema :: "(string \<times> unit json_value) list" where
  "page_schema = [(''required'', Array [String ''full'']),
     (''properties'', Object [(''full'', Object [(''type'', String ''boolean'')])])]"

lemma page_prepared:
  "prepare_args no_floats (Object page_schema) (Object [(''full'', String '' True'')]) = Inr (Object [(''full'', Bool True)])"
  "prepare_args no_floats (Object page_schema) (Object []) =
     Inl \<lparr>missing_required = [''full''], type_mismatches = [], received = Object []\<rparr>"
  by code_simp+

theorem dispatched_args_conform_witness:
  "conforms no_floats page_schema (Object [(''full'', Bool True)])"
  using dispatched_args_conform [of no_floats page_schema "Object [(''full'', String '' True'')]"
      "Object [(''full'', Bool True)]"] page_prepared(1) by simp

end
