(* ===== verification/Heartbeat.thy ===== *)
theory Heartbeat
  imports Rust_Text
begin

text \<open>
  The heartbeat (\<open>crates/cron/src/heartbeat.rs\<close>) and the buffer of system events it drains
  (\<open>crates/cron/src/system_events.rs\<close>). The clock is an argument: \<open>current_minutes\<close> of the code reads the
  local time or that of a zone, and here its result is given. \<open>NaiveTime::parse_from_str\<close> with \<open>%H:%M\<close>
  is \<open>parse_hhmm\<close>, an hour below 24 and a minute below 60.
\<close>

section \<open>System events\<close>

definition MAX_EVENTS :: nat where "MAX_EVENTS = 20"

record system_event =
  ev_text :: string
  ev_reason :: string
  enqueued_at_ms :: nat

type_synonym events_queue = "system_event list"

definition enqueue :: "string \<Rightarrow> string \<Rightarrow> nat \<Rightarrow> events_queue \<Rightarrow> events_queue" where
  "enqueue msg reason now q =
     (if q \<noteq> [] \<and> ev_text (last q) = msg then q
      else (if MAX_EVENTS \<le> length q then tl q else q) @
        [\<lparr>ev_text = msg, ev_reason = reason, enqueued_at_ms = now\<rparr>])"

definition drain :: "events_queue \<Rightarrow> system_event list \<times> events_queue" where
  "drain q = (q, [])"

definition peek :: "events_queue \<Rightarrow> system_event list" where
  "peek q = q"

definition queue_is_empty :: "events_queue \<Rightarrow> bool" where
  "queue_is_empty q \<longleftrightarrow> q = []"

datatype queue_event = Enqueue string string nat | Drain

fun queue_step :: "events_queue \<Rightarrow> queue_event \<Rightarrow> events_queue" where
  "queue_step q (Enqueue msg reason now) = enqueue msg reason now q"
| "queue_step q Drain = snd (drain q)"

section \<open>The token\<close>

definition HEARTBEAT_OK :: string where "HEARTBEAT_OK = ''HEARTBEAT_OK''"

datatype strip_mode = Exact | TrimEdges

record strip_result =
  should_skip :: bool
  strip_text :: string
  did_strip :: bool

definition unwrap_bold :: "string \<Rightarrow> string" where
  "unwrap_bold s =
     (case Option.bind (strip_prefix s ''**'') (\<lambda>r. strip_suffix r ''**'') of
        Some inner \<Rightarrow> inner
      | None \<Rightarrow>
          (case Option.bind (strip_prefix s ''<b>'') (\<lambda>r. strip_suffix r ''</b>'') of
             Some inner \<Rightarrow> inner
           | None \<Rightarrow> s))"

definition strip_patterns :: "string list" where
  "strip_patterns = [HEARTBEAT_OK, ''**'' @ HEARTBEAT_OK @ ''**'', ''<b>'' @ HEARTBEAT_OK @ ''</b>'']"

definition strip_pattern :: "string \<times> bool \<Rightarrow> string \<Rightarrow> string \<times> bool" where
  "strip_pattern r pat = (if contains_sub (fst r) pat then (remove_all pat (fst r), True) else r)"

definition strip_heartbeat_token :: "string \<Rightarrow> strip_mode \<Rightarrow> nat \<Rightarrow> strip_result" where
  "strip_heartbeat_token msg mode max_ack_chars =
     (let trimmed = trim msg in
      if unwrap_bold trimmed = HEARTBEAT_OK then \<lparr>should_skip = True, strip_text = [], did_strip = True\<rparr>
      else if mode = Exact then \<lparr>should_skip = False, strip_text = trimmed, did_strip = False\<rparr>
      else
        let (r, did) = foldl strip_pattern (trimmed, False) strip_patterns; r = trim r in
        \<lparr>should_skip = (r = [] \<or> length r \<le> max_ack_chars \<and> r = []), strip_text = r, did_strip = did\<rparr>)"

section \<open>The prompt\<close>

definition empty_line :: "string \<Rightarrow> bool" where
  "empty_line line =
     (let t = trim line in
      t = [] \<or> starts_with t ''#'' \<or> t = ''-'' \<or> t = ''*'' \<or> t = ''- '' \<or> t = ''* '')"

definition is_heartbeat_content_empty :: "string \<Rightarrow> bool" where
  "is_heartbeat_content_empty content = list_all empty_line (lines content)"

datatype prompt_source = FromConfig | FromHeartbeatMd | FromDefault

definition prompt_source_str :: "prompt_source \<Rightarrow> string" where
  "prompt_source_str p = (case p of FromConfig \<Rightarrow> ''config'' | FromHeartbeatMd \<Rightarrow> ''heartbeat_md'' | FromDefault \<Rightarrow> ''default'')"

definition DEFAULT_PROMPT :: string where
  "DEFAULT_PROMPT =
     ''You are performing a periodic heartbeat check. Review any pending items '' @
     ''(inbox, calendar, reminders, scheduled tasks) and determine if anything '' @
     ''needs the user's attention right now.'' @ [newline, newline] @
     ''- If nothing requires attention, reply with exactly: HEARTBEAT_OK'' @ [newline] @
     ''- If something needs attention, describe it concisely (under 300 characters).'' @ [newline] @
     ''Do NOT wrap HEARTBEAT_OK in markdown formatting.''"

definition nonblank :: "string option \<Rightarrow> string option" where
  "nonblank x = (case x of Some s \<Rightarrow> (if trim s = [] then None else Some (trim s)) | None \<Rightarrow> None)"

definition resolve_heartbeat_prompt :: "string option \<Rightarrow> string option \<Rightarrow> string \<times> prompt_source" where
  "resolve_heartbeat_prompt custom heartbeat_md =
     (case nonblank custom of
        Some p \<Rightarrow> (p, FromConfig)
      | None \<Rightarrow>
          (case nonblank heartbeat_md of
             Some md \<Rightarrow>
               if \<not> is_heartbeat_content_empty md then (md, FromHeartbeatMd) else (DEFAULT_PROMPT, FromDefault)
           | None \<Rightarrow> (DEFAULT_PROMPT, FromDefault)))"

definition EVENTS_PROMPT_PREFIX :: string where
  "EVENTS_PROMPT_PREFIX =
     ''Events occurred since your last check. '' @
     ''Review them and relay anything noteworthy to the user.'' @ [newline, newline]"

definition event_line :: "system_event \<Rightarrow> string" where
  "event_line e = ''- '' @ ev_text e @ '' ['' @ ev_reason e @ '']'' @ [newline]"

definition build_event_enriched_prompt :: "system_event list \<Rightarrow> string \<Rightarrow> string" where
  "build_event_enriched_prompt events base_prompt =
     (if events = [] then base_prompt
      else EVENTS_PROMPT_PREFIX @ concat (map event_line events) @ [newline] @ base_prompt)"

section \<open>Active hours and intervals\<close>

text \<open>Up to two digits.\<close>

definition parse_2digits :: "string \<Rightarrow> (nat \<times> string) option" where
  "parse_2digits s =
     (case s of
        [] \<Rightarrow> None
      | c # cs \<Rightarrow>
          if \<not> is_ascii_digit c then None
          else (case cs of
                  d # ds \<Rightarrow> if is_ascii_digit d then Some (10 * (of_char c - 48) + (of_char d - 48), ds)
                             else Some (of_char c - 48, cs)
                | [] \<Rightarrow> Some (of_char c - 48, [])))"

definition parse_hhmm :: "string \<Rightarrow> (nat \<times> nat) option" where
  "parse_hhmm s =
     (case parse_2digits (trim_start_by is_whitespace s) of
        Some (h, c # r) \<Rightarrow>
          if c = CHR '':'' then
            (case parse_2digits (trim_start_by is_whitespace r) of
               Some (mi, []) \<Rightarrow> if h < 24 \<and> mi < 60 then Some (h, mi) else None
             | _ \<Rightarrow> None)
          else None
      | _ \<Rightarrow> None)"

definition is_within_active_hours :: "string \<Rightarrow> string \<Rightarrow> nat \<Rightarrow> bool" where
  "is_within_active_hours start_s end_s now_minutes =
     (case parse_hhmm start_s of
        None \<Rightarrow> True
      | Some (sh, sm) \<Rightarrow>
          (case parse_hhmm end_s of
             None \<Rightarrow> True
           | Some (eh, em) \<Rightarrow>
               let end_minutes = (if end_s = ''24:00'' then 24 * 60 else eh * 60 + em);
                   start_minutes = sh * 60 + sm in
               if start_minutes \<le> end_minutes then start_minutes \<le> now_minutes \<and> now_minutes < end_minutes
               else start_minutes \<le> now_minutes \<or> now_minutes < end_minutes))"

definition parse_interval_ms :: "string \<Rightarrow> nat option" where
  "parse_interval_ms s =
     (let s = trim s in
      if s = [] then None
      else
        let (num_str, multiplier) =
          (case strip_suffix s ''h'' of
             Some n \<Rightarrow> (n, 3600000)
           | None \<Rightarrow>
               (case strip_suffix s ''m'' of
                  Some n \<Rightarrow> (n, 60000)
                | None \<Rightarrow> (case strip_suffix s ''s'' of Some n \<Rightarrow> (n, 1000) | None \<Rightarrow> (s, 1))))
        in map_option (\<lambda>n. u64_mul n multiplier) (parse_u64 (trim num_str)))"

section \<open>Lemmas\<close>

text \<open>The buffer is short, and neighbours differ.\<close>

definition queue_inv :: "events_queue \<Rightarrow> bool" where
  "queue_inv q \<longleftrightarrow> length q \<le> MAX_EVENTS \<and> (\<forall>i. Suc i < length q \<longrightarrow> ev_text (q ! i) \<noteq> ev_text (q ! Suc i))"

lemma neighbours_tl:
  "(\<forall>i. Suc i < length q \<longrightarrow> f (q ! i) \<noteq> f (q ! Suc i)) \<Longrightarrow> \<forall>i. Suc i < length (tl q) \<longrightarrow> f (tl q ! i) \<noteq> f (tl q ! Suc i)"
  by (cases q) auto

lemma neighbours_snoc:
  assumes "\<forall>i. Suc i < length q \<longrightarrow> f (q ! i) \<noteq> f (q ! Suc i)" "q = [] \<or> f (last q) \<noteq> f x"
  shows "\<forall>i. Suc i < length (q @ [x]) \<longrightarrow> f ((q @ [x]) ! i) \<noteq> f ((q @ [x]) ! Suc i)"
proof (intro allI impI)
  fix i assume i: "Suc i < length (q @ [x])"
  show "f ((q @ [x]) ! i) \<noteq> f ((q @ [x]) ! Suc i)"
  proof (cases "Suc i < length q")
    case True
    then show ?thesis using assms(1) by (simp add: nth_append)
  next
    case False
    then have "i = length q - 1" "q \<noteq> []" using i by auto
    then show ?thesis using assms(2) by (auto simp: nth_append last_conv_nth)
  qed
qed

lemma queue_inv_step: "queue_inv q \<Longrightarrow> queue_inv (queue_step q e)"
proof (cases e)
  case (Enqueue msg reason now)
  assume inv: "queue_inv q"
  show ?thesis
  proof (cases "q \<noteq> [] \<and> ev_text (last q) = msg")
    case True
    then show ?thesis using inv Enqueue by (simp add: enqueue_def)
  next
    case False
    let ?q = "if MAX_EVENTS \<le> length q then tl q else q"
    let ?e = "\<lparr>ev_text = msg, ev_reason = reason, enqueued_at_ms = now\<rparr>"
    have step: "queue_step q e = ?q @ [?e]" using False Enqueue by (auto simp: enqueue_def)
    have "length (?q @ [?e]) \<le> MAX_EVENTS" using inv by (auto simp: queue_inv_def MAX_EVENTS_def)
    moreover have "\<forall>i. Suc i < length ?q \<longrightarrow> ev_text (?q ! i) \<noteq> ev_text (?q ! Suc i)"
      using inv neighbours_tl [of q ev_text] by (simp add: queue_inv_def)
    moreover have "?q = [] \<or> ev_text (last ?q) \<noteq> ev_text ?e"
      using False by (cases q) (auto simp: last_tl)
    ultimately show ?thesis
      unfolding step queue_inv_def using neighbours_snoc [of ?q ev_text ?e] by blast
  qed
qed (simp add: drain_def queue_inv_def)

interpretation events_machine: event_machine queue_step "\<lambda>_ _. True" queue_inv
  by unfold_locales (rule queue_inv_step)

text \<open>The enqueued events in order, without repetitions of the text before.\<close>

fun wanted :: "events_queue \<Rightarrow> queue_event list \<Rightarrow> system_event list" where
  "wanted acc [] = acc"
| "wanted acc (Enqueue msg reason now # es) =
     wanted (if acc \<noteq> [] \<and> ev_text (last acc) = msg then acc
             else acc @ [\<lparr>ev_text = msg, ev_reason = reason, enqueued_at_ms = now\<rparr>]) es"
| "wanted acc (Drain # es) = wanted [] es"

lemma last_suffix: "suffix q acc \<Longrightarrow> q \<noteq> [] \<Longrightarrow> last q = last acc"
  by (auto simp: suffix_def)

lemma run_suffix:
  assumes "suffix q acc" "length q = min (length acc) MAX_EVENTS"
  shows "suffix (foldl queue_step q es) (wanted acc es) \<and>
    length (foldl queue_step q es) = min (length (wanted acc es)) MAX_EVENTS"
  using assms
proof (induction es arbitrary: q acc)
  case (Cons e es)
  show ?case
  proof (cases e)
    case (Enqueue msg reason now)
    let ?e = "\<lparr>ev_text = msg, ev_reason = reason, enqueued_at_ms = now\<rparr>"
    let ?acc = "if acc \<noteq> [] \<and> ev_text (last acc) = msg then acc else acc @ [?e]"
    have ne: "q = [] \<longleftrightarrow> acc = []" using Cons.prems by (auto simp: MAX_EVENTS_def min_def split: if_splits)
    have same: "q \<noteq> [] \<and> ev_text (last q) = msg \<longleftrightarrow> acc \<noteq> [] \<and> ev_text (last acc) = msg"
      using ne last_suffix [OF Cons.prems(1)] by auto
    have "suffix (queue_step q e) ?acc \<and> length (queue_step q e) = min (length ?acc) MAX_EVENTS"
    proof (cases "acc \<noteq> [] \<and> ev_text (last acc) = msg")
      case True
      then show ?thesis using Cons.prems same Enqueue by (simp add: enqueue_def)
    next
      case False
      have "suffix (tl q) acc" using Cons.prems(1) by (meson suffix_order.trans suffix_tl)
      then have "suffix ((if MAX_EVENTS \<le> length q then tl q else q) @ [?e]) (acc @ [?e])"
        using Cons.prems(1) by (auto simp: suffix_def)
      moreover have "length ((if MAX_EVENTS \<le> length q then tl q else q) @ [?e]) = min (length (acc @ [?e])) MAX_EVENTS"
        using Cons.prems(2) by (auto simp: MAX_EVENTS_def)
      moreover have "queue_step q e = (if MAX_EVENTS \<le> length q then tl q else q) @ [?e]"
        using False same Enqueue by (auto simp: enqueue_def)
      moreover have "?acc = acc @ [?e]" using False by simp
      ultimately show ?thesis by simp
    qed
    from Cons.IH [OF conjunct1 [OF this] conjunct2 [OF this]] show ?thesis using Enqueue by simp
  next
    case Drain
    then show ?thesis using Cons.IH [of "[]" "[]"] by (simp add: drain_def)
  qed
qed simp

lemma parse_hhmm_24: "parse_hhmm ''24:00'' = None"
  by code_simp

section \<open>Properties\<close>

text \<open>The heartbeat is told the latest events, in order and without repetition. After any sequence of
  enqueues and drains the buffer holds the last \<open>MAX_EVENTS\<close> of the events enqueued since the last drain,
  consecutive repetitions of a text counted once, and no two neighbours have the same text.\<close>

theorem events_latest_in_order:
  "foldl queue_step [] es = drop (length (wanted [] es) - MAX_EVENTS) (wanted [] es) \<and>
   queue_inv (foldl queue_step [] es)"
proof
  have s: "suffix (foldl queue_step [] es) (wanted [] es)"
    "length (foldl queue_step [] es) = min (length (wanted [] es)) MAX_EVENTS"
    using run_suffix [of "[]" "[]" es] by auto
  then obtain p where p: "wanted [] es = p @ foldl queue_step [] es" by (auto simp: suffix_def)
  then have "length p = length (wanted [] es) - MAX_EVENTS" using s(2) by (auto simp: min_def split: if_splits)
  then show "foldl queue_step [] es = drop (length (wanted [] es) - MAX_EVENTS) (wanted [] es)"
    using p by (metis append_eq_conv_conj)
  show "queue_inv (foldl queue_step [] es)"
    by (rule events_machine.inv_run) (simp_all add: queue_inv_def)
qed

section \<open>What the code does not do\<close>

text \<open>The end \<open>24:00\<close> does not parse, so the window that the code means to allow is always active.\<close>

lemma end_of_day_always_active: "is_within_active_hours s ''24:00'' now"
  by (simp add: is_within_active_hours_def parse_hhmm_24 split: option.split)

text \<open>The plain token is removed before the bold patterns are tried, so they never match and the stars stay.\<close>

lemma bold_token_leaves_stars:
  "strip_heartbeat_token ''**HEARTBEAT_OK** all fine'' TrimEdges 300 =
     \<lparr>should_skip = False, strip_text = ''**** all fine'', did_strip = True\<rparr>"
  by code_simp

text \<open>The limit for acknowledgments has no effect.\<close>

lemma ack_limit_unused: "strip_heartbeat_token msg mode n = strip_heartbeat_token msg mode k"
  unfolding strip_heartbeat_token_def Let_def by (auto split: prod.splits)

end
