(* ===== verification/Vault.thy ===== *)
theory Vault
  imports Rust_Text "HOL-Library.Word"
begin

unbundle bit_operations_syntax

text \<open>
  The vault for secrets (\<open>crates/vault/src\<close>): the cipher (\<open>xchacha20.rs\<close>), key derivation (\<open>kdf.rs\<close>), key
  wrapping (\<open>key_wrap.rs\<close>), the recovery key (\<open>recovery.rs\<close>), the vault itself (\<open>vault.rs\<close>) and the files it
  protects (\<open>migration.rs\<close>).

  A byte is an \<^typ>\<open>8 word\<close>. The primitives of other crates are the record \<open>crypto\<close>: Argon2id, the
  AEAD, base64, SHA-256; \<open>crypto_laws\<close> says what the vault relies on. Random bytes are arguments. The
  table \<open>vault_metadata\<close> holds at most one row, an \<open>option\<close>; the KDF parameters are stored as the record
  that their JSON stands for. A transaction works on the row and takes effect when its commit succeeds.
\<close>

section \<open>Primitives\<close>

type_synonym byte = "8 word"
type_synonym bytes = "byte list"

record kdf_params =
  m_cost :: nat
  t_cost :: nat
  p_cost :: nat

definition default_kdf_params :: kdf_params where
  "default_kdf_params = \<lparr>m_cost = 65536, t_cost = 3, p_cost = 1\<rparr>"

definition recovery_kdf_params :: kdf_params where
  "recovery_kdf_params = \<lparr>m_cost = 16384, t_cost = 2, p_cost = 1\<rparr>"

record crypto =
  argon2 :: "kdf_params \<Rightarrow> bytes \<Rightarrow> bytes \<Rightarrow> bytes option"
  aead_seal :: "bytes \<Rightarrow> bytes \<Rightarrow> bytes \<Rightarrow> bytes \<Rightarrow> bytes option"
  aead_open :: "bytes \<Rightarrow> bytes \<Rightarrow> bytes \<Rightarrow> bytes \<Rightarrow> bytes option"
  b64_encode :: "bytes \<Rightarrow> string"
  b64_decode :: "string \<Rightarrow> bytes option"
  sha256_hex :: "bytes \<Rightarrow> string"

datatype vault_error =
    Sealed | AlreadyInitialized | NotInitialized | BadCredential
  | CipherError string | Base64Error | DatabaseError | JsonError | OtherError string

text \<open>\<open>str::as_bytes\<close> and \<open>String::from_utf8\<close> on the characters of the model.\<close>

definition char_bytes :: "char \<Rightarrow> bytes" where
  "char_bytes c = (let n = (of_char c :: nat) in
     if n < 128 then [of_nat n] else [of_nat (192 + n div 64), of_nat (128 + n mod 64)])"

definition as_bytes :: "string \<Rightarrow> bytes" where
  "as_bytes s = concat (map char_bytes s)"

fun from_utf8 :: "bytes \<Rightarrow> string option" where
  "from_utf8 [] = Some []"
| "from_utf8 (b # bs) =
     (if b < 128 then map_option ((#) (char_of (unat b))) (from_utf8 bs)
      else if b = 0xC2 \<or> b = 0xC3 then
        (case bs of
           [] \<Rightarrow> None
         | d # ds \<Rightarrow>
             if 128 \<le> d \<and> d < 192
             then map_option ((#) (char_of (64 * (unat b - 192) + (unat d - 128)))) (from_utf8 ds)
             else None)
      else None)"

section \<open>The cipher\<close>

definition VERSION_TAG :: byte where "VERSION_TAG = 1"
definition NONCE_LEN :: nat where "NONCE_LEN = 24"

definition cipher_encrypt :: "crypto \<Rightarrow> bytes \<Rightarrow> bytes \<Rightarrow> bytes \<Rightarrow> bytes \<Rightarrow> vault_error + bytes" where
  "cipher_encrypt C nonce key plaintext aad =
     (case aead_seal C key nonce plaintext aad of
        None \<Rightarrow> Inl (CipherError ''aead::Error'')
      | Some ct \<Rightarrow> Inr (nonce @ ct))"

definition cipher_decrypt :: "crypto \<Rightarrow> bytes \<Rightarrow> bytes \<Rightarrow> bytes \<Rightarrow> vault_error + bytes" where
  "cipher_decrypt C key ciphertext aad =
     (if length ciphertext < NONCE_LEN + 16 then Inl (CipherError ''ciphertext too short'')
      else
        (case aead_open C key (take NONCE_LEN ciphertext) (drop NONCE_LEN ciphertext) aad of
           None \<Rightarrow> Inl (CipherError ''aead::Error'')
         | Some pt \<Rightarrow> Inr pt))"

section \<open>Keys\<close>

definition derive_key :: "crypto \<Rightarrow> bytes \<Rightarrow> bytes \<Rightarrow> kdf_params \<Rightarrow> vault_error + bytes" where
  "derive_key C password salt params =
     (case argon2 C params password salt of None \<Rightarrow> Inl (CipherError ''KDF failed'') | Some k \<Rightarrow> Inr k)"

definition decode_salt :: "crypto \<Rightarrow> string \<Rightarrow> vault_error + bytes" where
  "decode_salt C s = (case b64_decode C s of None \<Rightarrow> Inl Base64Error | Some b \<Rightarrow> Inr b)"

definition WRAP_AAD :: bytes where "WRAP_AAD = as_bytes ''dek-wrap''"

abbreviation bind_result :: "'e + 'a \<Rightarrow> ('a \<Rightarrow> 'e + 'b) \<Rightarrow> 'e + 'b" where
  "bind_result r f \<equiv> (case r of Inl e \<Rightarrow> Inl e | Inr x \<Rightarrow> f x)"

definition wrap_dek :: "crypto \<Rightarrow> bytes \<Rightarrow> bytes \<Rightarrow> bytes \<Rightarrow> vault_error + string" where
  "wrap_dek C nonce kek dek =
     bind_result (cipher_encrypt C nonce kek dek WRAP_AAD) (\<lambda>enc. Inr (b64_encode C (VERSION_TAG # enc)))"

definition unwrap_dek :: "crypto \<Rightarrow> bytes \<Rightarrow> string \<Rightarrow> vault_error + bytes" where
  "unwrap_dek C kek wrapped =
     (case b64_decode C wrapped of
        None \<Rightarrow> Inl Base64Error
      | Some [] \<Rightarrow> Inl (CipherError ''empty wrapped DEK'')
      | Some (version # blob) \<Rightarrow>
          if version \<noteq> VERSION_TAG then Inl (CipherError ''unsupported cipher version'')
          else
            bind_result (cipher_decrypt C kek blob WRAP_AAD) (\<lambda>pt.
              if length pt \<noteq> 32 then Inl (CipherError ''unwrapped DEK has wrong length'') else Inr pt))"

section \<open>The recovery key\<close>

definition RECOVERY_SALT :: bytes where "RECOVERY_SALT = as_bytes ''moltis-vault-recovery-key-salt!!''"
definition CHARSET :: string where "CHARSET = ''ABCDEFGHJKLMNPQRSTUVWXYZ23456789''"

definition nibbles :: "byte \<Rightarrow> nat list" where
  "nibbles b = [unat (drop_bit 4 b), unat (b AND 0x0F)]"

function chunks :: "nat \<Rightarrow> 'a list \<Rightarrow> 'a list list" where
  "chunks n xs = (if xs = [] \<or> n = 0 then [] else take n xs # chunks n (drop n xs))"
  by pat_completeness auto
termination
  by (relation "measure (\<lambda>(n, xs). length xs)") auto

declare chunks.simps [simp del]

definition join_with_dash :: "string list \<Rightarrow> string" where
  "join_with_dash gs = (case gs of [] \<Rightarrow> [] | g # rest \<Rightarrow> g @ concat (map (\<lambda>x. CHR ''-'' # x) rest))"

definition generate_recovery_key :: "bytes \<Rightarrow> string" where
  "generate_recovery_key entropy =
     join_with_dash (chunks 4 (map (\<lambda>n. CHARSET ! (n mod 32)) (concat (map nibbles entropy))))"

text \<open>\<open>char::to_uppercase\<close>: the micro sign and the letter y with diaeresis leave the range of the model, the
  sharp s becomes two letters.\<close>

definition upper :: "char \<Rightarrow> string" where
  "upper c =
     (let n = (of_char c :: nat) in
       if (97 \<le> n \<and> n \<le> 122) \<or> (224 \<le> n \<and> n \<le> 254 \<and> n \<noteq> 247) then [char_of (n - 32)]
       else if n = 223 then ''SS'' else [c])"

definition normalized_phrase :: "string \<Rightarrow> string" where
  "normalized_phrase phrase = concat (map upper (filter (\<lambda>c. c \<noteq> CHR ''-'') phrase))"

definition derive_recovery_kek :: "crypto \<Rightarrow> string \<Rightarrow> vault_error + bytes" where
  "derive_recovery_kek C phrase = derive_key C (as_bytes (normalized_phrase phrase)) RECOVERY_SALT recovery_kdf_params"

definition wrap_with_recovery :: "crypto \<Rightarrow> bytes \<Rightarrow> bytes \<Rightarrow> string \<Rightarrow> vault_error + (string \<times> string)" where
  "wrap_with_recovery C nonce dek phrase =
     bind_result (derive_recovery_kek C phrase) (\<lambda>kek.
       bind_result (wrap_dek C nonce kek dek) (\<lambda>wrapped.
         Inr (wrapped, sha256_hex C (as_bytes (normalized_phrase phrase)))))"

definition unwrap_with_recovery :: "crypto \<Rightarrow> string \<Rightarrow> string \<Rightarrow> vault_error + bytes" where
  "unwrap_with_recovery C wrapped phrase =
     bind_result (derive_recovery_kek C phrase) (\<lambda>kek. unwrap_dek C kek wrapped)"

definition verify_recovery_hash :: "crypto \<Rightarrow> string \<Rightarrow> string \<Rightarrow> bool" where
  "verify_recovery_hash C phrase stored_hash \<longleftrightarrow>
     sha256_hex C (as_bytes (normalized_phrase phrase)) = stored_hash \<or> sha256_hex C (as_bytes phrase) = stored_hash"

section \<open>The vault\<close>

datatype vault_status = Uninitialized | IsSealed | Unsealed

record vault_row =
  kdf_salt :: string
  row_params :: kdf_params
  wrapped_dek :: string
  recovery_wrapped_dek :: "string option"
  recovery_key_hash :: "string option"

record vault =
  row :: "vault_row option"
  dek :: "bytes option"

definition new_vault :: "vault_row option \<Rightarrow> vault" where
  "new_vault r = \<lparr>row = r, dek = None\<rparr>"

definition vault_status_of :: "vault \<Rightarrow> vault_status" where
  "vault_status_of v =
     (case row v of None \<Rightarrow> Uninitialized | Some _ \<Rightarrow> if dek v \<noteq> None then Unsealed else IsSealed)"

text \<open>The random bytes of an initialization.\<close>

record init_random =
  rnd_dek :: bytes
  rnd_salt :: bytes
  rnd_nonce :: bytes
  rnd_entropy :: bytes
  rnd_recovery_nonce :: bytes

text \<open>The recovery key and the row, inside the transaction.\<close>

definition initialize_in_transaction :: "crypto \<Rightarrow> init_random \<Rightarrow> string \<Rightarrow> vault_row option \<Rightarrow> vault_error + (string \<times> vault_row)" where
  "initialize_in_transaction C rnd password r =
     (if r \<noteq> None then Inl AlreadyInitialized
      else
        let salt_b64 = b64_encode C (rnd_salt rnd) in
        bind_result (decode_salt C salt_b64) (\<lambda>salt.
        bind_result (derive_key C (as_bytes password) salt default_kdf_params) (\<lambda>kek.
        bind_result (wrap_dek C (rnd_nonce rnd) kek (rnd_dek rnd)) (\<lambda>wrapped.
        let phrase = generate_recovery_key (rnd_entropy rnd) in
        bind_result (wrap_with_recovery C (rnd_recovery_nonce rnd) (rnd_dek rnd) phrase) (\<lambda>(rec_wrapped, rec_hash).
        Inr (phrase, \<lparr>kdf_salt = salt_b64, row_params = default_kdf_params, wrapped_dek = wrapped,
          recovery_wrapped_dek = Some rec_wrapped, recovery_key_hash = Some rec_hash\<rparr>))))))"

definition unseal :: "crypto \<Rightarrow> string \<Rightarrow> vault \<Rightarrow> (vault_error + unit) \<times> vault" where
  "unseal C password v =
     (case row v of
        None \<Rightarrow> (Inl NotInitialized, v)
      | Some r \<Rightarrow>
          (case bind_result (decode_salt C (kdf_salt r)) (\<lambda>salt. derive_key C (as_bytes password) salt (row_params r)) of
             Inl e \<Rightarrow> (Inl e, v)
           | Inr kek \<Rightarrow>
               (case unwrap_dek C kek (wrapped_dek r) of
                  Inl _ \<Rightarrow> (Inl BadCredential, v)
                | Inr d \<Rightarrow> (Inr (), v\<lparr>dek := Some d\<rparr>))))"

definition initialize :: "crypto \<Rightarrow> init_random \<Rightarrow> bool \<Rightarrow> string \<Rightarrow> vault \<Rightarrow> (vault_error + string) \<times> vault" where
  "initialize C rnd commit_ok password v =
     (case initialize_in_transaction C rnd password (row v) of
        Inl e \<Rightarrow> (Inl e, v)
      | Inr (phrase, r) \<Rightarrow>
          if \<not> commit_ok then (Inl DatabaseError, v)
          else
            (case unseal C password (v\<lparr>row := Some r\<rparr>) of
               (Inl e, v') \<Rightarrow> (Inl e, v')
             | (Inr _, v') \<Rightarrow> (Inr phrase, v')))"

definition unseal_with_recovery :: "crypto \<Rightarrow> string \<Rightarrow> vault \<Rightarrow> (vault_error + unit) \<times> vault" where
  "unseal_with_recovery C phrase v =
     (case row v of
        None \<Rightarrow> (Inl NotInitialized, v)
      | Some r \<Rightarrow>
          (case recovery_wrapped_dek r of
             None \<Rightarrow> (Inl (CipherError ''no recovery key configured''), v)
           | Some wrapped \<Rightarrow>
               (case unwrap_with_recovery C wrapped phrase of
                  Inl _ \<Rightarrow> (Inl BadCredential, v)
                | Inr d \<Rightarrow> (Inr (), v\<lparr>dek := Some d\<rparr>))))"

definition seal :: "vault \<Rightarrow> vault" where
  "seal v = v\<lparr>dek := None\<rparr>"

text \<open>The row with the key wrapped for the new password; \<open>salt\<close> and \<open>nonce\<close> are random.\<close>

definition rewrapped_row :: "crypto \<Rightarrow> bytes \<Rightarrow> bytes \<Rightarrow> string \<Rightarrow> bytes \<Rightarrow> vault_row \<Rightarrow> vault_error + vault_row" where
  "rewrapped_row C salt nonce new d r =
     (let salt_b64 = b64_encode C salt in
      bind_result (decode_salt C salt_b64) (\<lambda>salt.
      bind_result (derive_key C (as_bytes new) salt (row_params r)) (\<lambda>kek.
      bind_result (wrap_dek C nonce kek d) (\<lambda>wrapped.
      Inr (r\<lparr>kdf_salt := salt_b64, wrapped_dek := wrapped\<rparr>)))))"

definition change_password_in_transaction :: "crypto \<Rightarrow> bytes \<Rightarrow> bytes \<Rightarrow> string \<Rightarrow> string \<Rightarrow> vault \<Rightarrow> vault_error + vault_row" where
  "change_password_in_transaction C salt nonce old new v =
     (case row v of
        None \<Rightarrow> Inl NotInitialized
      | Some r \<Rightarrow>
          bind_result (decode_salt C (kdf_salt r)) (\<lambda>old_salt.
          bind_result (derive_key C (as_bytes old) old_salt (row_params r)) (\<lambda>old_kek.
          (case unwrap_dek C old_kek (wrapped_dek r) of
             Inl _ \<Rightarrow> Inl BadCredential
           | Inr _ \<Rightarrow>
               (case dek v of
                  None \<Rightarrow> Inl Sealed
                | Some d \<Rightarrow> rewrapped_row C salt nonce new d r)))))"

definition change_password :: "crypto \<Rightarrow> bytes \<Rightarrow> bytes \<Rightarrow> bool \<Rightarrow> string \<Rightarrow> string \<Rightarrow> vault \<Rightarrow> (vault_error + unit) \<times> vault" where
  "change_password C salt nonce commit_ok old new v =
     (case change_password_in_transaction C salt nonce old new v of
        Inl e \<Rightarrow> (Inl e, v)
      | Inr r \<Rightarrow> if commit_ok then (Inr (), v\<lparr>row := Some r\<rparr>) else (Inl DatabaseError, v))"

definition rewrap_unsealed_in_transaction :: "crypto \<Rightarrow> bytes \<Rightarrow> bytes \<Rightarrow> string \<Rightarrow> vault \<Rightarrow> vault_error + vault_row" where
  "rewrap_unsealed_in_transaction C salt nonce new v =
     (case row v of
        None \<Rightarrow> Inl NotInitialized
      | Some r \<Rightarrow> (case dek v of None \<Rightarrow> Inl Sealed | Some d \<Rightarrow> rewrapped_row C salt nonce new d r))"

definition rewrap_unsealed :: "crypto \<Rightarrow> bytes \<Rightarrow> bytes \<Rightarrow> bool \<Rightarrow> string \<Rightarrow> vault \<Rightarrow> (vault_error + unit) \<times> vault" where
  "rewrap_unsealed C salt nonce commit_ok new v =
     (case rewrap_unsealed_in_transaction C salt nonce new v of
        Inl e \<Rightarrow> (Inl e, v)
      | Inr r \<Rightarrow> if commit_ok then (Inr (), v\<lparr>row := Some r\<rparr>) else (Inl DatabaseError, v))"

definition encrypt_string :: "crypto \<Rightarrow> bytes \<Rightarrow> string \<Rightarrow> string \<Rightarrow> vault \<Rightarrow> vault_error + string" where
  "encrypt_string C nonce plaintext aad v =
     (case dek v of
        None \<Rightarrow> Inl Sealed
      | Some d \<Rightarrow>
          bind_result (cipher_encrypt C nonce d (as_bytes plaintext) (as_bytes aad)) (\<lambda>enc.
            Inr (b64_encode C (VERSION_TAG # enc))))"

definition decrypt_string :: "crypto \<Rightarrow> string \<Rightarrow> string \<Rightarrow> vault \<Rightarrow> vault_error + string" where
  "decrypt_string C b64 aad v =
     (case dek v of
        None \<Rightarrow> Inl Sealed
      | Some d \<Rightarrow>
          (case b64_decode C b64 of
             None \<Rightarrow> Inl Base64Error
           | Some [] \<Rightarrow> Inl (CipherError ''empty blob'')
           | Some (version # blob) \<Rightarrow>
               if version \<noteq> VERSION_TAG then Inl (CipherError ''unsupported cipher version'')
               else
                 bind_result (cipher_decrypt C d blob (as_bytes aad)) (\<lambda>pt.
                   case from_utf8 pt of Some s \<Rightarrow> Inr s | None \<Rightarrow> Inl (CipherError ''invalid utf-8''))))"

definition is_unsealed :: "vault \<Rightarrow> bool" where
  "is_unsealed v \<longleftrightarrow> dek v \<noteq> None"

section \<open>Protected files\<close>

text \<open>A JSON file, its encrypted copy \<open>.enc\<close> and its backup \<open>.bak\<close>.\<close>

record secret_files =
  plain_file :: "string option"
  enc_file :: "string option"
  bak_file :: "string option"

definition migrate_json_file :: "crypto \<Rightarrow> bytes \<Rightarrow> vault \<Rightarrow> string \<Rightarrow> secret_files \<Rightarrow> (vault_error + bool) \<times> secret_files" where
  "migrate_json_file C nonce v aad fs =
     (case plain_file fs of
        None \<Rightarrow> (Inr False, fs)
      | Some plaintext \<Rightarrow>
          if enc_file fs \<noteq> None then (Inr False, fs)
          else if trim plaintext = [] then (Inr False, fs)
          else (case encrypt_string C nonce plaintext aad v of
                  Inl e \<Rightarrow> (Inl e, fs)
                | Inr enc \<Rightarrow> (Inr True, fs\<lparr>enc_file := Some enc, plain_file := None, bak_file := Some plaintext\<rparr>)))"

definition encrypt_json_file :: "crypto \<Rightarrow> bytes \<Rightarrow> vault \<Rightarrow> string \<Rightarrow> secret_files \<Rightarrow> (vault_error + bool) \<times> secret_files" where
  "encrypt_json_file C nonce v aad fs =
     (case plain_file fs of
        None \<Rightarrow> (Inr False, fs)
      | Some plaintext \<Rightarrow>
          if trim plaintext = [] then (Inr False, fs)
          else (case encrypt_string C nonce plaintext aad v of
                  Inl e \<Rightarrow> (Inl e, fs)
                | Inr enc \<Rightarrow> (Inr True, fs\<lparr>enc_file := Some enc\<rparr>)))"

definition load_encrypted_or_plaintext :: "crypto \<Rightarrow> vault option \<Rightarrow> string \<Rightarrow> secret_files \<Rightarrow> vault_error + string option" where
  "load_encrypted_or_plaintext C v aad fs =
     (case enc_file fs of
        Some content \<Rightarrow>
          (case v of
             Some v \<Rightarrow> bind_result (decrypt_string C content aad v) (\<lambda>s. Inr (Some s))
           | None \<Rightarrow> Inl Sealed)
      | None \<Rightarrow> Inr (plain_file fs))"

definition save_encrypted_or_plaintext :: "crypto \<Rightarrow> bytes \<Rightarrow> vault option \<Rightarrow> string \<Rightarrow> string \<Rightarrow> secret_files \<Rightarrow> (vault_error + unit) \<times> secret_files" where
  "save_encrypted_or_plaintext C nonce v aad content fs =
     (case v of
        Some v \<Rightarrow>
          (case encrypt_string C nonce content aad v of
             Inl e \<Rightarrow> (Inl e, fs)
           | Inr enc \<Rightarrow> (Inr (), fs\<lparr>enc_file := Some enc\<rparr>))
      | None \<Rightarrow> (Inr (), fs\<lparr>plain_file := Some content\<rparr>))"


section \<open>What the vault relies on\<close>

text \<open>
  The documented behaviour of the primitives: base64 round-trips; the AEAD appends a tag of 16 bytes, opens
  what it sealed, and opens a ciphertext under no other key and no other associated data.
\<close>

definition base64_law :: "crypto \<Rightarrow> bool" where
  "base64_law C \<longleftrightarrow> (\<forall>x. b64_decode C (b64_encode C x) = Some x)"

definition aead_law :: "crypto \<Rightarrow> bool" where
  "aead_law C \<longleftrightarrow> (\<forall>k n p a c. aead_seal C k n p a = Some c \<longrightarrow>
     16 \<le> length c \<and> (\<forall>k' a'. aead_open C k' n c a' = (if k' = k \<and> a' = a then Some p else None)))"

definition kdf_law :: "crypto \<Rightarrow> bool" where
  "kdf_law C \<longleftrightarrow> (\<forall>params salt p q k. argon2 C params p salt = Some k \<longrightarrow> argon2 C params q salt = Some k \<longrightarrow> p = q)"

lemma b64_inverse: "base64_law C \<Longrightarrow> b64_decode C (b64_encode C x) = Some x"
  by (simp add: base64_law_def)

lemma from_utf8_char_bytes: "from_utf8 (char_bytes c @ bs) = map_option ((#) c) (from_utf8 bs)"
proof -
  let ?n = "of_char c :: nat"
  have n: "?n < 256" by simp
  show ?thesis
  proof (cases "?n < 128")
    case True
    then have "unat (of_nat ?n :: byte) = ?n" by (simp add: unat_of_nat)
    then have "(of_nat ?n :: byte) < 128" using True by (simp add: word_less_nat_alt)
    then show ?thesis using True by (simp add: char_bytes_def unat_of_nat)
  next
    case False
    have q: "?n div 64 = 2 \<or> ?n div 64 = 3" using False n by linarith
    let ?b = "of_nat (192 + ?n div 64) :: byte" and ?d = "of_nat (128 + ?n mod 64) :: byte"
    have b: "?b = 0xC2 \<and> ?n div 64 = 2 \<or> ?b = 0xC3 \<and> ?n div 64 = 3" using q by auto
    have d: "unat ?d = 128 + ?n mod 64" by (simp only: unat_of_nat) simp
    have d_range: "128 \<le> ?d \<and> ?d < 192" using d by (simp add: word_le_nat_alt word_less_nat_alt)
    have eq: "64 * (unat ?b - 192) + (unat ?d - 128) = ?n"
    proof -
      have "unat ?b = 192 + ?n div 64" by (simp only: unat_of_nat) (use q in auto)
      then show ?thesis by (simp only: d diff_add_inverse) simp
    qed
    have "char_bytes c = [?b, ?d]" using False by (simp add: char_bytes_def Let_def)
    moreover have "\<not> ?b < 128" "?b = 0xC2 \<or> ?b = 0xC3" using b by auto
    ultimately show ?thesis using d_range eq by (simp del: of_nat_add)
  qed
qed

lemma from_utf8_as_bytes [simp]: "from_utf8 (as_bytes s) = Some s"
  by (induction s) (simp_all add: as_bytes_def from_utf8_char_bytes)

lemma as_bytes_inject [simp]: "as_bytes s = as_bytes t \<longleftrightarrow> s = t"
  by (metis from_utf8_as_bytes option.inject)

lemma cipher_decrypt_encrypt:
  assumes "aead_law C" "length nonce = NONCE_LEN" "cipher_encrypt C nonce key pt aad = Inr ct"
  shows "cipher_decrypt C key' ct aad' =
    (if key' = key \<and> aad' = aad then Inr pt else Inl (CipherError ''aead::Error''))"
proof -
  obtain c where c: "aead_seal C key nonce pt aad = Some c" "ct = nonce @ c"
    using assms(3) by (auto simp: cipher_encrypt_def split: option.splits)
  then have "16 \<le> length c" "aead_open C key' nonce c aad' = (if key' = key \<and> aad' = aad then Some pt else None)"
    using assms(1) by (auto simp: aead_law_def)
  then show ?thesis using c assms(2) by (simp add: cipher_decrypt_def)
qed

text \<open>\<open>w\<close> is the data key \<open>d\<close> wrapped with \<open>kek\<close>.\<close>

definition wraps :: "crypto \<Rightarrow> bytes \<Rightarrow> bytes \<Rightarrow> string \<Rightarrow> bool" where
  "wraps C kek d w \<longleftrightarrow> (\<forall>k. unwrap_dek C k w = (if k = kek then Inr d else Inl (CipherError ''aead::Error'')))"

lemma wrap_dek_wraps:
  assumes "base64_law C" "aead_law C" "length nonce = NONCE_LEN" "length d = 32" "wrap_dek C nonce kek d = Inr w"
  shows "wraps C kek d w"
proof -
  obtain ct where ct: "cipher_encrypt C nonce kek d WRAP_AAD = Inr ct" "w = b64_encode C (VERSION_TAG # ct)"
    using assms(5) by (auto simp: wrap_dek_def split: sum.splits)
  show ?thesis
    using cipher_decrypt_encrypt [OF assms(2,3) ct(1)] ct(2) assms(1,4)
    by (simp add: wraps_def unwrap_dek_def b64_inverse)
qed

lemma decrypt_encrypt:
  assumes "base64_law C" "aead_law C" "length nonce = NONCE_LEN"
    and "encrypt_string C nonce s aad v = Inr e" and "dek v = Some d" "dek v' = Some d"
  shows "decrypt_string C e aad' v' = (if aad' = aad then Inr s else Inl (CipherError ''aead::Error''))"
proof -
  obtain ct where ct: "cipher_encrypt C nonce d (as_bytes s) (as_bytes aad) = Inr ct"
      "e = b64_encode C (VERSION_TAG # ct)"
    using assms(4,5) by (auto simp: encrypt_string_def split: sum.splits)
  show ?thesis
    using cipher_decrypt_encrypt [OF assms(2,3) ct(1)] ct(2) assms(1,6)
    by (simp add: decrypt_string_def b64_inverse)
qed


section \<open>Runs\<close>

text \<open>
  Everything that may happen to an initialized vault: unsealing with any password or phrase, sealing, the
  two ways to change the password (with the random bytes and the outcome of the commit), another attempt to
  initialize it, and a restart of the process, which keeps the row only. The second component of the state
  is the password of the last change.
\<close>

datatype vault_event =
    UnsealWith string
  | Recover string
  | SealVault
  | ChangePassword bytes bytes bool string string
  | Rewrap bytes bytes bool string
  | InitializeAgain init_random bool string
  | Restart

fun vault_step :: "crypto \<Rightarrow> vault \<times> string \<Rightarrow> vault_event \<Rightarrow> vault \<times> string" where
  "vault_step C (v, pw) (UnsealWith p) = (snd (unseal C p v), pw)"
| "vault_step C (v, pw) (Recover phrase) = (snd (unseal_with_recovery C phrase v), pw)"
| "vault_step C (v, pw) SealVault = (seal v, pw)"
| "vault_step C (v, pw) (ChangePassword salt nonce ok old new) =
     (case change_password C salt nonce ok old new v of (r, v') \<Rightarrow> (v', if r = Inr () then new else pw))"
| "vault_step C (v, pw) (Rewrap salt nonce ok new) =
     (case rewrap_unsealed C salt nonce ok new v of (r, v') \<Rightarrow> (v', if r = Inr () then new else pw))"
| "vault_step C (v, pw) (InitializeAgain rnd ok p) = (snd (initialize C rnd ok p v), pw)"
| "vault_step C (v, pw) Restart = (new_vault (row v), pw)"

text \<open>The nonces have the length of the cipher's.\<close>

fun nonces_ok :: "vault_event \<Rightarrow> bool" where
  "nonces_ok (ChangePassword _ nonce _ _ _) = (length nonce = NONCE_LEN)"
| "nonces_ok (Rewrap _ nonce _ _) = (length nonce = NONCE_LEN)"
| "nonces_ok _ = True"

definition random_ok :: "init_random \<Rightarrow> bool" where
  "random_ok rnd \<longleftrightarrow> length (rnd_dek rnd) = 32 \<and> length (rnd_nonce rnd) = NONCE_LEN \<and>
     length (rnd_recovery_nonce rnd) = NONCE_LEN"

definition password_row :: "crypto \<Rightarrow> bytes \<Rightarrow> string \<Rightarrow> vault_row \<Rightarrow> bool" where
  "password_row C d pw r \<longleftrightarrow>
     (\<exists>salt kek. decode_salt C (kdf_salt r) = Inr salt \<and> derive_key C (as_bytes pw) salt (row_params r) = Inr kek \<and>
        wraps C kek d (wrapped_dek r))"

definition recovery_row :: "crypto \<Rightarrow> bytes \<Rightarrow> string \<Rightarrow> vault_row \<Rightarrow> bool" where
  "recovery_row C d phrase r \<longleftrightarrow>
     (\<exists>w kek. recovery_wrapped_dek r = Some w \<and> derive_recovery_kek C phrase = Inr kek \<and> wraps C kek d w)"

definition vault_inv :: "crypto \<Rightarrow> bytes \<Rightarrow> string \<Rightarrow> vault \<times> string \<Rightarrow> bool" where
  "vault_inv C d phrase = (\<lambda>(v, pw).
     length d = 32 \<and> (dek v = None \<or> dek v = Some d) \<and>
     (\<exists>r. row v = Some r \<and> password_row C d pw r \<and> recovery_row C d phrase r))"

lemma wraps_unwrap: "wraps C kek d w \<Longrightarrow> unwrap_dek C k w = Inr x \<longleftrightarrow> k = kek \<and> x = d"
  by (auto simp: wraps_def)

lemma wraps_same: "wraps C kek d w \<Longrightarrow> unwrap_dek C kek w = Inr d"
  by (simp add: wraps_def)

lemma rewrapped_row_password:
  assumes "base64_law C" "aead_law C" "length nonce = NONCE_LEN" "length d = 32"
    and "rewrapped_row C salt nonce new d r = Inr r'"
  shows "password_row C d new r'" "recovery_wrapped_dek r' = recovery_wrapped_dek r"
proof -
  obtain kek w where eqs: "derive_key C (as_bytes new) salt (row_params r) = Inr kek" "wrap_dek C nonce kek d = Inr w"
      "r' = r\<lparr>kdf_salt := b64_encode C salt, wrapped_dek := w\<rparr>"
    using assms(1,5) by (auto simp: rewrapped_row_def decode_salt_def b64_inverse Let_def split: sum.splits)
  then show "recovery_wrapped_dek r' = recovery_wrapped_dek r" by simp
  have "wraps C kek d w" using assms(1-4) eqs(2) by (rule wrap_dek_wraps)
  then show "password_row C d new r'"
    using eqs assms(1) by (auto simp: password_row_def decode_salt_def b64_inverse)
qed

lemma unseal_row [simp]: "row (snd (unseal C p v)) = row v"
  by (simp add: unseal_def split: option.splits sum.splits)

lemma unseal_with_recovery_row [simp]: "row (snd (unseal_with_recovery C p v)) = row v"
  by (simp add: unseal_with_recovery_def split: option.splits sum.splits)

lemma unseal_dek:
  assumes "row v = Some r" "password_row C d pw r"
  shows "dek (snd (unseal C p v)) = dek v \<or> dek (snd (unseal C p v)) = Some d"
  using assms by (auto simp: unseal_def password_row_def wraps_unwrap wraps_same split: sum.splits if_splits)

lemma unseal_with_recovery_dek:
  assumes "row v = Some r" "recovery_row C d phrase r"
  shows "dek (snd (unseal_with_recovery C p v)) = dek v \<or> dek (snd (unseal_with_recovery C p v)) = Some d"
  using assms
  by (auto simp: unseal_with_recovery_def unwrap_with_recovery_def recovery_row_def wraps_unwrap wraps_same split: sum.splits if_splits)

lemma change_password_new_row:
  assumes "change_password C salt nonce ok old new v = (res, v')" "row v = Some r"
  shows "res \<noteq> Inr () \<and> v' = v \<or>
    (\<exists>d r'. res = Inr () \<and> dek v = Some d \<and> rewrapped_row C salt nonce new d r = Inr r' \<and> v' = v\<lparr>row := Some r'\<rparr>)"
  using assms
  by (auto simp: change_password_def change_password_in_transaction_def split: sum.splits option.splits if_splits)

lemma rewrap_new_row:
  assumes "rewrap_unsealed C salt nonce ok new v = (res, v')" "row v = Some r"
  shows "res \<noteq> Inr () \<and> v' = v \<or>
    (\<exists>d r'. res = Inr () \<and> dek v = Some d \<and> rewrapped_row C salt nonce new d r = Inr r' \<and> v' = v\<lparr>row := Some r'\<rparr>)"
  using assms
  by (auto simp: rewrap_unsealed_def rewrap_unsealed_in_transaction_def split: sum.splits option.splits if_splits)

lemma vault_inv_new_row:
  assumes "base64_law C" "aead_law C" "length nonce = NONCE_LEN" "vault_inv C d phrase (v, pw)"
    and "row v = Some r" "dek v = Some d'" "rewrapped_row C salt nonce new d' r = Inr r'"
  shows "vault_inv C d phrase (v\<lparr>row := Some r'\<rparr>, new)"
proof -
  have d: "d' = d" "length d = 32" "recovery_row C d phrase r" using assms(4-6) by (auto simp: vault_inv_def)
  note new = rewrapped_row_password [OF assms(1-3) d(2) assms(7) [unfolded d(1)]]
  have "recovery_row C d phrase r'" using d(3) new(2) by (simp add: recovery_row_def)
  with new(1) d assms(6) show ?thesis by (simp add: vault_inv_def)
qed

lemma vault_inv_step:
  assumes laws: "base64_law C" "aead_law C" and inv: "vault_inv C d phrase s" and ok: "nonces_ok e"
  shows "vault_inv C d phrase (vault_step C s e)"
proof -
  obtain v pw where s: "s = (v, pw)" by force
  obtain r where r: "row v = Some r" "password_row C d pw r" "recovery_row C d phrase r"
      and d: "length d = 32" "dek v = None \<or> dek v = Some d"
    using inv s by (auto simp: vault_inv_def)
  note inv = inv [unfolded s]
  show ?thesis
  proof (cases e)
    case (UnsealWith p)
    then show ?thesis using r d unseal_dek [OF r(1,2), of p] by (auto simp: s vault_inv_def)
  next
    case (Recover p)
    then show ?thesis using r d unseal_with_recovery_dek [OF r(1,3), of p] by (auto simp: s vault_inv_def)
  next
    case (ChangePassword salt nonce b old new)
    obtain res v' where step: "change_password C salt nonce b old new v = (res, v')" by force
    from change_password_new_row [OF step r(1)] show ?thesis
      using ChangePassword step ok inv vault_inv_new_row [OF laws _ inv r(1)] by (auto simp: s)
  next
    case (Rewrap salt nonce b new)
    obtain res v' where step: "rewrap_unsealed C salt nonce b new v = (res, v')" by force
    from rewrap_new_row [OF step r(1)] show ?thesis
      using Rewrap step ok inv vault_inv_new_row [OF laws _ inv r(1)] by (auto simp: s)
  next
    case (InitializeAgain rnd b p)
    have "initialize C rnd b p v = (Inl AlreadyInitialized, v)"
      by (simp add: initialize_def initialize_in_transaction_def r(1))
    then show ?thesis using inv InitializeAgain by (simp add: s)
  qed (use r d in \<open>auto simp: s vault_inv_def seal_def new_vault_def\<close>)
qed


lemma vault_inv_machine:
  assumes "base64_law C" "aead_law C"
  shows "event_machine (vault_step C) (\<lambda>_. nonces_ok) (vault_inv C d phrase)"
  by unfold_locales (rule vault_inv_step [OF assms])

lemma vault_inv_run:
  assumes "base64_law C" "aead_law C" "vault_inv C d phrase s" "list_all nonces_ok es"
  shows "vault_inv C d phrase (foldl (vault_step C) s es)"
proof -
  have "list_all nonces_ok es \<Longrightarrow> guarded_run (\<lambda>_. nonces_ok) (vault_step C) s es" for s
    by (induction es arbitrary: s) auto
  with assms(4) show ?thesis
    by (intro event_machine.inv_run [OF vault_inv_machine [OF assms(1,2)] assms(3)])
qed

lemma initialize_ok:
  assumes laws: "base64_law C" "aead_law C" and rnd: "random_ok rnd"
    and init: "initialize C rnd True pw (new_vault None) = (Inr phrase, v)"
  shows "vault_inv C (rnd_dek rnd) phrase (v, pw)" "is_unsealed v"
proof -
  let ?d = "rnd_dek rnd"
  let ?salt = "rnd_salt rnd"
  have lens: "length (rnd_nonce rnd) = NONCE_LEN" "length (rnd_recovery_nonce rnd) = NONCE_LEN" "length ?d = 32"
    using rnd by (simp_all add: random_ok_def)
  obtain r where tx: "initialize_in_transaction C rnd pw None = Inr (phrase, r)"
      and un: "unseal C pw (new_vault None\<lparr>row := Some r\<rparr>) = (Inr (), v)"
    using init by (auto simp: initialize_def new_vault_def split: sum.splits prod.splits)
  obtain kek w rkek rw where
    kek: "derive_key C (as_bytes pw) ?salt default_kdf_params = Inr kek" "wrap_dek C (rnd_nonce rnd) kek ?d = Inr w"
    and rec: "derive_recovery_kek C phrase = Inr rkek" "wrap_dek C (rnd_recovery_nonce rnd) rkek ?d = Inr rw"
    and r: "kdf_salt r = b64_encode C ?salt" "row_params r = default_kdf_params" "wrapped_dek r = w"
      "recovery_wrapped_dek r = Some rw"
    using tx laws(1)
    by (auto simp: initialize_in_transaction_def wrap_with_recovery_def decode_salt_def b64_inverse Let_def split: sum.splits)
  have "password_row C ?d pw r"
    using kek(1) r wrap_dek_wraps [OF laws lens(1,3) kek(2)] laws(1)
    by (simp add: password_row_def decode_salt_def b64_inverse)
  moreover have "recovery_row C ?d phrase r"
    using rec(1) r wrap_dek_wraps [OF laws lens(2,3) rec(2)] by (simp add: recovery_row_def)
  moreover have "row v = Some r" using un by (metis snd_conv unseal_row vault.select_convs(1) vault.update_convs(1) vault.surjective)
  moreover have "dek v = Some ?d"
    using un kek(1) r wrap_dek_wraps [OF laws lens(1,3) kek(2)] laws(1)
    by (auto simp: unseal_def decode_salt_def b64_inverse wraps_def split: sum.splits)
  ultimately show "vault_inv C ?d phrase (v, pw)" "is_unsealed v"
    using lens(3) by (simp_all add: vault_inv_def is_unsealed_def)
qed

section \<open>Files under the vault\<close>

lemma migrated_file_loads:
  assumes "base64_law C" "aead_law C" "length nonce = NONCE_LEN" "dek v = Some d" "dek v' = Some d"
    and "plain_file fs = Some content" "migrate_json_file C nonce v aad fs = (Inr True, fs')"
  shows "load_encrypted_or_plaintext C (Some v') aad fs' = Inr (Some content) \<and> plain_file fs' = None \<and>
    bak_file fs' = Some content"
  using assms(6,7) decrypt_encrypt [OF assms(1-3) _ assms(4,5)]
  by (auto simp: migrate_json_file_def load_encrypted_or_plaintext_def split: if_splits sum.splits)

lemma saved_file_loads:
  assumes "base64_law C" "aead_law C" "length nonce = NONCE_LEN" "dek v = Some d" "dek v' = Some d"
    and "save_encrypted_or_plaintext C nonce (Some v) aad content fs = (Inr (), fs')"
  shows "load_encrypted_or_plaintext C (Some v') aad fs' = Inr (Some content) \<and> plain_file fs' = plain_file fs"
  using assms(6) decrypt_encrypt [OF assms(1-3) _ assms(4,5)]
  by (auto simp: save_encrypted_or_plaintext_def load_encrypted_or_plaintext_def split: sum.splits)

text \<open>A save without a vault writes the plain file only: a later load with the vault still reads the older
  encrypted copy, and a load without the vault cannot read what was just saved.\<close>

lemma plain_save_is_shadowed:
  assumes "enc_file fs = Some old"
  shows "save_encrypted_or_plaintext C nonce None aad content fs = (Inr (), fs\<lparr>plain_file := Some content\<rparr>)"
    and "load_encrypted_or_plaintext C v aad (fs\<lparr>plain_file := Some content\<rparr>) = load_encrypted_or_plaintext C v aad fs"
    and "load_encrypted_or_plaintext C None aad (fs\<lparr>plain_file := Some content\<rparr>) = Inl Sealed"
  using assms by (simp_all add: save_encrypted_or_plaintext_def load_encrypted_or_plaintext_def)

section \<open>A concrete instance of the primitives\<close>

text \<open>A cipher with the laws above that hides nothing: the key and the associated data are written in front
  of the text, each of their bytes after a byte 1, ended by a byte 0.\<close>

definition framed :: "bytes \<Rightarrow> bytes" where
  "framed xs = concat (map (\<lambda>b. [1, b]) xs) @ [0]"

definition frame_head :: "bytes \<Rightarrow> bytes \<Rightarrow> bytes" where
  "frame_head k a = replicate 16 0 @ framed k @ framed a"

definition of_word_char :: "byte \<Rightarrow> char" where
  "of_word_char b = char_of (unat b)"

definition clear_crypto :: crypto where
  "clear_crypto =
     \<lparr>argon2 = \<lambda>_ pw _. Some pw,
      aead_seal = \<lambda>k n p a. Some (frame_head k a @ p),
      aead_open = \<lambda>k n c a. if take (length (frame_head k a)) c = frame_head k a
        then Some (drop (length (frame_head k a)) c) else None,
      b64_encode = map of_word_char,
      b64_decode = \<lambda>s. Some (map of_char s),
      sha256_hex = map of_word_char\<rparr>"

lemma framed_append_eq: "framed xs @ us = framed ys @ vs \<longleftrightarrow> xs = ys \<and> us = vs"
proof (induction xs arbitrary: ys)
  case Nil
  then show ?case by (cases ys) (auto simp: framed_def)
next
  case (Cons x xs)
  then show ?case by (cases ys) (auto simp: framed_def)
qed

lemma frame_head_eq: "take (length (frame_head k' a')) (frame_head k a @ p) = frame_head k' a' \<longleftrightarrow> k' = k \<and> a' = a"
proof -
  have front: "take (length h) (frame_head k a @ p) = h \<longleftrightarrow> (\<exists>r. frame_head k a @ p = h @ r)" for h
    by (metis append_eq_conv_conj)
  show ?thesis unfolding front by (auto simp: frame_head_def framed_append_eq)
qed

lemma of_char_of_word_char [simp]: "of_char (of_word_char b) = b"
proof -
  have "of_nat (of_char (char_of (unat b) :: char)) = b" using unsigned_less [of b, where ?'a = nat] by simp
  then show ?thesis by (simp only: of_word_char_def of_nat_of_char)
qed

lemma clear_crypto_laws: "base64_law clear_crypto" "aead_law clear_crypto" "kdf_law clear_crypto"
proof -
  show "base64_law clear_crypto"
    by (simp add: base64_law_def clear_crypto_def comp_def)
  show "aead_law clear_crypto"
    by (auto simp del: take_append simp: aead_law_def clear_crypto_def frame_head_eq) (simp_all add: frame_head_def)
  show "kdf_law clear_crypto" by (simp add: kdf_law_def clear_crypto_def)
qed

text \<open>With these primitives nothing fails, so every operation with the right credential succeeds.\<close>

lemma unseal_in_force:
  assumes "vault_inv C d phrase (v, pw)"
  shows "unseal C pw v = (Inr (), v\<lparr>dek := Some d\<rparr>)"
  using assms by (auto simp: vault_inv_def password_row_def unseal_def wraps_same)

lemma clear_derive_key [simp]: "derive_key clear_crypto pw salt params = Inr pw"
  by (simp add: derive_key_def clear_crypto_def)

lemma clear_decode_salt [simp]: "decode_salt clear_crypto (b64_encode clear_crypto salt) = Inr salt"
  by (simp add: decode_salt_def b64_inverse clear_crypto_laws)

lemma clear_wrap_dek: "\<exists>w. wrap_dek clear_crypto nonce kek d = Inr w"
  by (simp add: wrap_dek_def cipher_encrypt_def clear_crypto_def)

lemma clear_encrypt: "dek v = Some d \<Longrightarrow> \<exists>blob. encrypt_string clear_crypto nonce s aad v = Inr blob"
  by (simp add: encrypt_string_def cipher_encrypt_def clear_crypto_def)

lemma clear_initialize:
  assumes "random_ok rnd"
  shows "\<exists>v. initialize clear_crypto rnd True pw (new_vault None) = (Inr (generate_recovery_key (rnd_entropy rnd)), v)"
proof -
  let ?phrase = "generate_recovery_key (rnd_entropy rnd)"
  obtain w rw where w: "wrap_dek clear_crypto (rnd_nonce rnd) (as_bytes pw) (rnd_dek rnd) = Inr w"
      "wrap_dek clear_crypto (rnd_recovery_nonce rnd) (as_bytes (normalized_phrase ?phrase)) (rnd_dek rnd) = Inr rw"
    using clear_wrap_dek by blast
  have "wraps clear_crypto (as_bytes pw) (rnd_dek rnd) w"
    using assms by (intro wrap_dek_wraps [OF clear_crypto_laws(1,2) _ _ w(1)]) (simp_all add: random_ok_def)
  then show ?thesis using w
    by (simp add: initialize_def initialize_in_transaction_def wrap_with_recovery_def derive_recovery_kek_def
      new_vault_def unseal_def wraps_same Let_def)
qed

lemma clear_change_password:
  assumes "vault_inv clear_crypto d phrase (v, pw)" "dek v = Some d"
  shows "\<exists>v'. change_password clear_crypto salt nonce True pw new v = (Inr (), v')"
proof -
  obtain w where w: "wrap_dek clear_crypto nonce (as_bytes new) d = Inr w" using clear_wrap_dek by blast
  show ?thesis using assms w
    by (auto simp: vault_inv_def password_row_def change_password_def change_password_in_transaction_def
      rewrapped_row_def wraps_same)
qed

text \<open>A vault that is initialized, gets a new password, restarts and is unsealed with it.\<close>

definition example_random :: init_random where
  "example_random = \<lparr>rnd_dek = replicate 32 7, rnd_salt = replicate 16 3, rnd_nonce = replicate 24 5,
     rnd_entropy = replicate 16 0x1F, rnd_recovery_nonce = replicate 24 6\<rparr>"

definition example_start :: "vault \<times> string" where
  "example_start = (snd (initialize clear_crypto example_random True ''old'' (new_vault None)), ''old'')"

definition example_events :: "vault_event list" where
  "example_events = [ChangePassword (replicate 16 4) (replicate 24 8) True ''old'' ''new'', Restart, UnsealWith ''new'']"

lemma example_ok [simp]: "random_ok example_random" "list_all nonces_ok example_events"
  by (simp_all add: random_ok_def example_random_def example_events_def NONCE_LEN_def)

lemma example_initialize:
  "initialize clear_crypto example_random True ''old'' (new_vault None) =
    (Inr (generate_recovery_key (rnd_entropy example_random)), fst example_start)"
  using clear_initialize [OF example_ok(1), of "''old''"] by (auto simp: example_start_def)

lemma example_inv:
  "vault_inv clear_crypto (rnd_dek example_random) (generate_recovery_key (rnd_entropy example_random)) example_start"
  "dek (fst example_start) = Some (rnd_dek example_random)"
  using initialize_ok [OF clear_crypto_laws(1,2) example_ok(1) example_initialize]
  by (auto simp: example_start_def vault_inv_def is_unsealed_def split: prod.splits)

lemma example_end:
  "is_unsealed (fst (foldl (vault_step clear_crypto) example_start example_events)) \<and>
   snd (foldl (vault_step clear_crypto) example_start example_events) = ''new''"
proof -
  let ?d = "rnd_dek example_random" and ?ph = "generate_recovery_key (rnd_entropy example_random)"
  let ?e = "ChangePassword (replicate 16 4) (replicate 24 8) True ''old'' ''new''"
  obtain v where start: "example_start = (v, ''old'')" by (simp add: example_start_def)
  obtain v' where v': "change_password clear_crypto (replicate 16 4) (replicate 24 8) True ''old'' ''new'' v = (Inr (), v')"
    using clear_change_password [OF example_inv(1) [unfolded start] example_inv(2) [unfolded start fst_conv]] by blast
  have "vault_inv clear_crypto ?d ?ph (vault_step clear_crypto (vault_step clear_crypto example_start ?e) Restart)"
    by (intro vault_inv_step clear_crypto_laws example_inv(1)) (simp_all add: NONCE_LEN_def)
  then have "vault_inv clear_crypto ?d ?ph (new_vault (row v'), ''new'')" by (simp add: start v')
  from unseal_in_force [OF this] show ?thesis by (simp add: example_events_def start v' is_unsealed_def)
qed

section \<open>Properties\<close>

text \<open>C17: secrets survive everything that happens to the vault. Let a vault be initialized, then go through any
  run of unsealing, sealing, password changes, failed commits, repeated initialization and restarts. A
  text encrypted at that point decrypts to itself after any further run, whenever the vault is unsealed; with
  other associated data it is refused, and a sealed vault gives nothing.\<close>

theorem secrets_survive:
  assumes "base64_law C" "aead_law C" "random_ok rnd"
    and "initialize C rnd True pw (new_vault None) = (Inr phrase, v)"
    and "list_all nonces_ok before" "list_all nonces_ok after" "length nonce = NONCE_LEN"
    and "encrypt_string C nonce secret aad (fst (foldl (vault_step C) (v, pw) before)) = Inr blob"
  shows "decrypt_string C blob aad' (fst (foldl (vault_step C) (v, pw) (before @ after))) =
    (if \<not> is_unsealed (fst (foldl (vault_step C) (v, pw) (before @ after))) then Inl Sealed
     else if aad' = aad then Inr secret else Inl (CipherError ''aead::Error''))"
proof -
  let ?run = "foldl (vault_step C) (v, pw)"
  have inv: "vault_inv C (rnd_dek rnd) phrase (?run es)" if "list_all nonces_ok es" for es
    using vault_inv_run [OF assms(1,2) initialize_ok(1) [OF assms(1-4)] that] .
  have here: "dek (fst (?run before)) = Some (rnd_dek rnd)"
    using inv [OF assms(5)] assms(8) by (auto simp: vault_inv_def encrypt_string_def split: prod.splits)
  have "dek (fst (?run (before @ after))) = None \<or> dek (fst (?run (before @ after))) = Some (rnd_dek rnd)"
    using inv [of "before @ after"] assms(5,6) by (auto simp: vault_inv_def split: prod.splits)
  then show ?thesis
    using decrypt_encrypt [OF assms(1,2,7,8) here, of _ aad'] by (auto simp: is_unsealed_def decrypt_string_def)
qed

theorem secrets_survive_witness:
  "\<exists>blob. encrypt_string clear_crypto (replicate 24 2) ''s3cret'' ''env:KEY'' (fst example_start) = Inr blob \<and>
     decrypt_string clear_crypto blob ''env:KEY'' (fst (foldl (vault_step clear_crypto) example_start example_events)) =
       Inr ''s3cret''"
proof -
  obtain blob where blob: "encrypt_string clear_crypto (replicate 24 2) ''s3cret'' ''env:KEY'' (fst example_start) = Inr blob"
    using clear_encrypt [OF example_inv(2)] by blast
  have start: "(fst example_start, ''old'') = example_start" by (simp add: example_start_def)
  show ?thesis
    using secrets_survive [OF clear_crypto_laws(1,2) example_ok(1) example_initialize,
        of "[]" example_events "replicate 24 2" "''s3cret''" "''env:KEY''" blob "''env:KEY''"]
      blob example_end by (simp add: start NONCE_LEN_def)
qed

text \<open>Who can open the vault. After any run, a password unseals it exactly when it is the password in
  force, that of the initialization or of the last successful change; a phrase unseals it exactly when it is
  the recovery key of the initialization up to dashes and case. Every other credential is refused, or fails in
  the key derivation, and leaves the vault as it was.\<close>

theorem only_the_credentials_in_force:
  assumes "base64_law C" "aead_law C" "kdf_law C" "random_ok rnd"
    and "initialize C rnd True pw (new_vault None) = (Inr phrase, v)"
    and "list_all nonces_ok es" and "foldl (vault_step C) (v, pw) es = (v', now)"
  shows "(fst (unseal C p v') = Inr () \<longleftrightarrow> p = now) \<and>
    (fst (unseal_with_recovery C q v') = Inr () \<longleftrightarrow> normalized_phrase q = normalized_phrase phrase) \<and>
    (p \<noteq> now \<longrightarrow> snd (unseal C p v') = v') \<and> is_unsealed (snd (unseal C now v'))"
proof -
  have inv: "vault_inv C (rnd_dek rnd) phrase (v', now)"
    using vault_inv_run [OF assms(1,2) initialize_ok(1) [OF assms(1,2,4,5)] assms(6)] assms(7) by simp
  obtain r salt kek w rkek where r: "row v' = Some r"
      "decode_salt C (kdf_salt r) = Inr salt" "derive_key C (as_bytes now) salt (row_params r) = Inr kek"
      "wraps C kek (rnd_dek rnd) (wrapped_dek r)" "recovery_wrapped_dek r = Some w"
      "derive_recovery_kek C phrase = Inr rkek" "wraps C rkek (rnd_dek rnd) w"
    using inv by (auto simp: vault_inv_def password_row_def recovery_row_def)
  have same: "derive_key C (as_bytes p) salt (row_params r) = Inr kek \<longleftrightarrow> p = now"
    using assms(3) r(3) by (auto simp: kdf_law_def derive_key_def split: option.splits) (metis as_bytes_inject)
  have phrases: "derive_recovery_kek C q = Inr rkek \<longleftrightarrow> normalized_phrase q = normalized_phrase phrase"
    using assms(3) r(6) by (auto simp: kdf_law_def derive_recovery_kek_def derive_key_def split: option.splits) (metis as_bytes_inject)
  have "fst (unseal C p v') = Inr () \<longleftrightarrow> p = now" "p \<noteq> now \<longrightarrow> snd (unseal C p v') = v'"
    using r(1-4) same by (auto simp: unseal_def wraps_def split: sum.splits)
  moreover have "fst (unseal_with_recovery C q v') = Inr () \<longleftrightarrow> normalized_phrase q = normalized_phrase phrase"
    using r(1,5-7) phrases
    by (auto simp: unseal_with_recovery_def unwrap_with_recovery_def wraps_def split: sum.splits)
  moreover have "is_unsealed (snd (unseal C now v'))"
    using r(1-4) by (simp add: unseal_def wraps_def is_unsealed_def)
  ultimately show ?thesis by blast
qed

theorem only_the_credentials_in_force_witness:
  "fst (unseal clear_crypto ''old'' (fst (foldl (vault_step clear_crypto) example_start example_events))) \<noteq> Inr () \<and>
   fst (unseal clear_crypto ''new'' (fst (foldl (vault_step clear_crypto) example_start example_events))) = Inr () \<and>
   fst (unseal_with_recovery clear_crypto (generate_recovery_key (rnd_entropy example_random))
     (fst (foldl (vault_step clear_crypto) example_start example_events))) = Inr ()"
proof -
  have run: "foldl (vault_step clear_crypto) (fst example_start, ''old'') example_events =
      (fst (foldl (vault_step clear_crypto) example_start example_events), ''new'')"
    using example_end by (simp add: example_start_def prod_eq_iff)
  show ?thesis
    using only_the_credentials_in_force [OF clear_crypto_laws example_ok(1) example_initialize example_ok(2) run]
    by simp
qed

end
