(* ===== verification/Ssrf.thy ===== *)
theory Ssrf
  imports Rust_Text "HOL-Library.Word"
begin

unbundle bit_operations_syntax

text \<open>
  The guard against requests to internal addresses: the check of the tools (\<open>crates/tools/src/ssrf.rs\<close>) and
  that of the other crates (\<open>crates/common/src/ssrf.rs\<close>).

  An address is its octets or its segments, as \<open>Ipv4Addr\<close> and \<open>Ipv6Addr\<close> give them; the predicates of the
  standard library are translated from their documentation. Networks of the \<open>ipnet\<close> crate are a type
  parameter with the function \<open>contains\<close>; parsing of addresses and name resolution are arguments.
\<close>

section \<open>Addresses\<close>

type_synonym octet = "8 word"
type_synonym segment = "16 word"

datatype ip = Ip4 octet octet octet octet | Ip6 segment segment segment segment segment segment segment segment

fun v4_is_loopback :: "ip \<Rightarrow> bool" where
  "v4_is_loopback (Ip4 a b c d) = (a = 127)"
| "v4_is_loopback _ = False"

fun v4_is_private :: "ip \<Rightarrow> bool" where
  "v4_is_private (Ip4 a b c d) = (a = 10 \<or> a = 172 \<and> 16 \<le> b \<and> b \<le> 31 \<or> a = 192 \<and> b = 168)"
| "v4_is_private _ = False"

fun v4_is_link_local :: "ip \<Rightarrow> bool" where
  "v4_is_link_local (Ip4 a b c d) = (a = 169 \<and> b = 254)"
| "v4_is_link_local _ = False"

definition v4_is_broadcast :: "ip \<Rightarrow> bool" where
  "v4_is_broadcast p = (p = Ip4 255 255 255 255)"

definition v4_is_unspecified :: "ip \<Rightarrow> bool" where
  "v4_is_unspecified p = (p = Ip4 0 0 0 0)"

fun v4_is_multicast :: "ip \<Rightarrow> bool" where
  "v4_is_multicast (Ip4 a b c d) = (224 \<le> a \<and> a \<le> 239)"
| "v4_is_multicast _ = False"

definition v6_is_loopback :: "ip \<Rightarrow> bool" where
  "v6_is_loopback p = (p = Ip6 0 0 0 0 0 0 0 1)"

definition v6_is_unspecified :: "ip \<Rightarrow> bool" where
  "v6_is_unspecified p = (p = Ip6 0 0 0 0 0 0 0 0)"

fun v6_is_multicast :: "ip \<Rightarrow> bool" where
  "v6_is_multicast (Ip6 s0 s1 s2 s3 s4 s5 s6 s7) = (s0 AND 0xff00 = 0xff00)"
| "v6_is_multicast _ = False"

fun to_ipv4_mapped :: "ip \<Rightarrow> ip option" where
  "to_ipv4_mapped (Ip6 s0 s1 s2 s3 s4 s5 s6 s7) =
     (if s0 = 0 \<and> s1 = 0 \<and> s2 = 0 \<and> s3 = 0 \<and> s4 = 0 \<and> s5 = 0xffff
      then Some (Ip4 (ucast (drop_bit 8 s6)) (ucast s6) (ucast (drop_bit 8 s7)) (ucast s7)) else None)"
| "to_ipv4_mapped _ = None"

section \<open>The checks\<close>

definition is_ssrf_allowed :: "('net \<Rightarrow> ip \<Rightarrow> bool) \<Rightarrow> ip \<Rightarrow> 'net list \<Rightarrow> bool" where
  "is_ssrf_allowed contains p allowlist = list_ex (\<lambda>net. contains net p) allowlist"

text \<open>The check of the tools.\<close>

fun tools_is_private_ip :: "ip \<Rightarrow> bool" where
  "tools_is_private_ip (Ip4 a b c d) =
     (v4_is_loopback (Ip4 a b c d) \<or> v4_is_private (Ip4 a b c d) \<or> v4_is_link_local (Ip4 a b c d) \<or>
      v4_is_broadcast (Ip4 a b c d) \<or> v4_is_unspecified (Ip4 a b c d) \<or>
      a = 100 \<and> b AND 0xC0 = 64 \<or>
      a = 192 \<and> b = 0 \<and> c = 0)"
| "tools_is_private_ip (Ip6 s0 s1 s2 s3 s4 s5 s6 s7) =
     (v6_is_loopback (Ip6 s0 s1 s2 s3 s4 s5 s6 s7) \<or> v6_is_unspecified (Ip6 s0 s1 s2 s3 s4 s5 s6 s7) \<or>
      s0 AND 0xFE00 = 0xFC00 \<or> s0 AND 0xFFC0 = 0xFE80)"

text \<open>The check of the other crates.\<close>

fun is_private_ipv4 :: "ip \<Rightarrow> bool" where
  "is_private_ipv4 (Ip4 a b c d) =
     (a = 0 \<or> v4_is_loopback (Ip4 a b c d) \<or> v4_is_private (Ip4 a b c d) \<or> v4_is_link_local (Ip4 a b c d) \<or>
      v4_is_broadcast (Ip4 a b c d) \<or> v4_is_unspecified (Ip4 a b c d) \<or> v4_is_multicast (Ip4 a b c d) \<or>
      a = 100 \<and> 64 \<le> b \<and> b \<le> 127 \<or>
      a = 192 \<and> b = 0 \<and> c = 0 \<and> \<not> (d = 9 \<or> d = 10) \<or>
      a = 192 \<and> b = 0 \<and> c = 2 \<or>
      a = 198 \<and> (b = 18 \<or> b = 19) \<or>
      a = 198 \<and> b = 51 \<and> c = 100 \<or>
      a = 192 \<and> b = 88 \<and> c = 99 \<or>
      a = 203 \<and> b = 0 \<and> c = 113 \<or>
      240 \<le> a)"
| "is_private_ipv4 _ = False"

fun ietf_protocol_exception :: "ip \<Rightarrow> bool" where
  "ietf_protocol_exception (Ip6 s0 s1 s2 s3 s4 s5 s6 s7) =
     (Ip6 s0 s1 s2 s3 s4 s5 s6 s7 = Ip6 0x2001 1 0 0 0 0 0 1 \<or>
      Ip6 s0 s1 s2 s3 s4 s5 s6 s7 = Ip6 0x2001 1 0 0 0 0 0 2 \<or>
      s0 = 0x2001 \<and> s1 = 3 \<or>
      s0 = 0x2001 \<and> s1 = 4 \<and> s2 = 0x0112 \<or>
      s0 = 0x2001 \<and> 0x20 \<le> s1 \<and> s1 \<le> 0x3f)"
| "ietf_protocol_exception _ = False"

fun common_is_private_ip :: "ip \<Rightarrow> bool" where
  "common_is_private_ip (Ip4 a b c d) = is_private_ipv4 (Ip4 a b c d)"
| "common_is_private_ip (Ip6 s0 s1 s2 s3 s4 s5 s6 s7) =
     (v6_is_loopback (Ip6 s0 s1 s2 s3 s4 s5 s6 s7) \<or>
      v6_is_unspecified (Ip6 s0 s1 s2 s3 s4 s5 s6 s7) \<or>
      v6_is_multicast (Ip6 s0 s1 s2 s3 s4 s5 s6 s7) \<or>
      to_ipv4_mapped (Ip6 s0 s1 s2 s3 s4 s5 s6 s7) \<noteq> None \<or>
      s0 AND 0xfe00 = 0xfc00 \<or>
      s0 AND 0xffc0 = 0xfe80 \<or>
      s0 AND 0xffc0 = 0xfec0 \<or>
      s0 = 0x3fff \<and> s1 AND 0xf000 = 0 \<or>
      s0 = 0x2001 \<and> s1 = 0x0db8 \<or>
      s0 = 0x0100 \<and> s1 = 0 \<and> s2 = 0 \<and> s3 = 0 \<or>
      s0 = 0x0100 \<and> s1 = 0 \<and> s2 = 0 \<and> s3 = 1 \<or>
      s0 = 0x0064 \<and> s1 = 0xff9b \<and> s2 = 1 \<or>
      s0 = 0 \<and> s1 = 0 \<and> s2 = 0 \<and> s3 = 0 \<and> s4 = 0 \<and> s5 = 0 \<or>
      s0 = 0x2001 \<and> s1 < 0x0200 \<and> \<not> ietf_protocol_exception (Ip6 s0 s1 s2 s3 s4 s5 s6 s7) \<or>
      s0 = 0x2002 \<or>
      s0 = 0x5f00)"

datatype ssrf_error = NoHost | ResolutionFailed | LookupError | Blocked ip

text \<open>The two crates have the same \<open>validate_ssrf_ips\<close> and \<open>ssrf_check\<close> over their own \<open>is_private_ip\<close>.\<close>

fun first_blocked :: "(ip \<Rightarrow> bool) \<Rightarrow> ('net \<Rightarrow> ip \<Rightarrow> bool) \<Rightarrow> ip list \<Rightarrow> 'net list \<Rightarrow> ssrf_error + unit" where
  "first_blocked private contains [] allowlist = Inr ()"
| "first_blocked private contains (p # ps) allowlist =
     (if private p \<and> \<not> is_ssrf_allowed contains p allowlist then Inl (Blocked p)
      else first_blocked private contains ps allowlist)"

definition validate_ssrf_ips :: "(ip \<Rightarrow> bool) \<Rightarrow> ('net \<Rightarrow> ip \<Rightarrow> bool) \<Rightarrow> ip list \<Rightarrow> 'net list \<Rightarrow> ssrf_error + unit" where
  "validate_ssrf_ips private contains ips allowlist =
     (if ips = [] then Inl ResolutionFailed else first_blocked private contains ips allowlist)"

text \<open>What the check reads of a URL, and the two functions of the platform. \<open>lookup\<close> answers \<open>None\<close> when the
  resolver fails.\<close>

record 'net ssrf_env =
  net_contains :: "'net \<Rightarrow> ip \<Rightarrow> bool"
  parse_addr :: "string \<Rightarrow> ip option"
  lookup :: "string \<Rightarrow> nat \<Rightarrow> ip list option"

record url_parts =
  host_str :: "string option"
  port_or_known_default :: "nat option"

definition ssrf_check :: "(ip \<Rightarrow> bool) \<Rightarrow> 'net ssrf_env \<Rightarrow> url_parts \<Rightarrow> 'net list \<Rightarrow> ssrf_error + unit" where
  "ssrf_check private E url allowlist =
     (case host_str url of
        None \<Rightarrow> Inl NoHost
      | Some host \<Rightarrow>
          (case parse_addr E host of
             Some p \<Rightarrow> validate_ssrf_ips private (net_contains E) [p] allowlist
           | None \<Rightarrow>
               (case lookup E host (case port_or_known_default url of Some p \<Rightarrow> p | None \<Rightarrow> 443) of
                  None \<Rightarrow> Inl LookupError
                | Some addrs \<Rightarrow> validate_ssrf_ips private (net_contains E) addrs allowlist)))"

section \<open>Blocks of addresses\<close>

text \<open>The value of an address, and membership in a block: the first \<open>len\<close> bits are those of the base.\<close>

fun addr4 :: "ip \<Rightarrow> nat" where
  "addr4 (Ip4 a b c d) = ((unat a * 256 + unat b) * 256 + unat c) * 256 + unat d"
| "addr4 _ = 0"

definition in_block4 :: "nat \<times> nat \<Rightarrow> ip \<Rightarrow> bool" where
  "in_block4 = (\<lambda>(base, len) p. addr4 p div 2 ^ (32 - len) = base div 2 ^ (32 - len))"

definition block4 :: "nat \<Rightarrow> nat \<Rightarrow> nat \<Rightarrow> nat \<Rightarrow> nat \<Rightarrow> nat \<times> nat" where
  "block4 a b c d len = (((a * 256 + b) * 256 + c) * 256 + d, len)"

text \<open>The blocks of RFC 6890 that the tools refuse.\<close>

definition tools_blocks :: "(nat \<times> nat) list" where
  "tools_blocks =
     [block4 127 0 0 0 8, block4 10 0 0 0 8, block4 172 16 0 0 12, block4 192 168 0 0 16, block4 169 254 0 0 16,
      block4 255 255 255 255 32, block4 0 0 0 0 32, block4 100 64 0 0 10, block4 192 0 0 0 24]"

lemma unat_octet: "unat (b :: octet) < 256"
  using unsigned_less [of b, where ?'a = nat] by simp

text \<open>Masking the low bits off compares the bits above them.\<close>

lemma unat_and_not_mask:
  fixes x :: "'a::len word"
  shows "unat (x AND NOT (mask k)) = unat x div 2 ^ k * 2 ^ k"
proof -
  have "x AND NOT (mask k) = push_bit k (drop_bit k x)"
    by (rule bit_word_eqI) (auto simp: bit_simps)
  then have "unat (x AND NOT (mask k)) = take_bit LENGTH('a) (push_bit k (unat (drop_bit k x)))"
    by (simp only: unsigned_push_bit_eq)
  also have "unat (drop_bit k x) = unat x div 2 ^ k"
    by (subst unat_drop_bit_eq) (rule drop_bit_eq_div)
  also have "take_bit LENGTH('a) (push_bit k (unat x div 2 ^ k)) = unat x div 2 ^ k * 2 ^ k"
    using le_less_trans [OF div_times_less_eq_dividend [of "unat x" "2 ^ k"] unsigned_less [of x]]
    by (simp add: push_bit_eq_mult take_bit_eq_mod)
  finally show ?thesis .
qed

lemma and_not_mask_eq_iff:
  fixes x y m :: "'a::len word"
  assumes "m = NOT (mask k)" "unat y = n * 2 ^ k"
  shows "x AND m = y \<longleftrightarrow> unat x div 2 ^ k = n"
  by (simp add: word_unat_eq_iff unat_and_not_mask assms)

lemma prefix_tests:
  "(b :: octet) AND 0xC0 = 64 \<longleftrightarrow> unat b div 2 ^ 6 = 1"
  "(s :: segment) AND 0xFE00 = 0xFC00 \<longleftrightarrow> unat s div 2 ^ 9 = 0x7E"
  "(s :: segment) AND 0xFFC0 = 0xFE80 \<longleftrightarrow> unat s div 2 ^ 6 = 0x3FA"
  "(s :: segment) AND 0xFFC0 = 0xFEC0 \<longleftrightarrow> unat s div 2 ^ 6 = 0x3FB"
  "(s :: segment) AND 0xFF00 = 0xFF00 \<longleftrightarrow> unat s div 2 ^ 8 = 0xFF"
  "(s :: segment) AND 0xF000 = 0 \<longleftrightarrow> unat s div 2 ^ 12 = 0"
  by (rule and_not_mask_eq_iff, simp add: mask_eq_exp_minus_1, simp)+

lemma octet_unat:
  "(a :: octet) = c \<longleftrightarrow> unat a = unat c" "(a :: octet) \<le> c \<longleftrightarrow> unat a \<le> unat c"
  by (simp_all add: word_unat_eq_iff word_le_nat_alt)

lemma div_eq_iff_between: "0 < m \<Longrightarrow> (n :: nat) div m = q \<longleftrightarrow> q * m \<le> n \<and> n < q * m + m"
  using dividend_less_times_div [of m n] by (auto intro: div_nat_eqI simp: mult.commute add.commute)

lemma in_block4_iff:
  "in_block4 (base, len) p \<longleftrightarrow>
     base div 2 ^ (32 - len) * 2 ^ (32 - len) \<le> addr4 p \<and>
     addr4 p < base div 2 ^ (32 - len) * 2 ^ (32 - len) + 2 ^ (32 - len)"
  by (simp only: in_block4_def split_conv) (simp add: div_eq_iff_between)

lemma tools_block_cases:
  "in_block4 (block4 0 0 0 0 32) (Ip4 a b c d) \<longleftrightarrow> a = 0 \<and> b = 0 \<and> c = 0 \<and> d = 0"
  "in_block4 (block4 10 0 0 0 8) (Ip4 a b c d) \<longleftrightarrow> a = 10"
  "in_block4 (block4 100 64 0 0 10) (Ip4 a b c d) \<longleftrightarrow> a = 100 \<and> 64 \<le> b \<and> b \<le> 127"
  "in_block4 (block4 127 0 0 0 8) (Ip4 a b c d) \<longleftrightarrow> a = 127"
  "in_block4 (block4 169 254 0 0 16) (Ip4 a b c d) \<longleftrightarrow> a = 169 \<and> b = 254"
  "in_block4 (block4 172 16 0 0 12) (Ip4 a b c d) \<longleftrightarrow> a = 172 \<and> 16 \<le> b \<and> b \<le> 31"
  "in_block4 (block4 192 0 0 0 24) (Ip4 a b c d) \<longleftrightarrow> a = 192 \<and> b = 0 \<and> c = 0"
  "in_block4 (block4 192 168 0 0 16) (Ip4 a b c d) \<longleftrightarrow> a = 192 \<and> b = 168"
  "in_block4 (block4 255 255 255 255 32) (Ip4 a b c d) \<longleftrightarrow> a = 255 \<and> b = 255 \<and> c = 255 \<and> d = 255"
  unfolding in_block4_iff block4_def octet_unat
  by (insert unat_octet [of a] unat_octet [of b] unat_octet [of c] unat_octet [of d])
    (simp; (rule iffI; (elim conjE)?; (intro context_conjI)?; linarith))+

lemma octet_mask_C0: "(b :: octet) AND 0xC0 = 64 \<longleftrightarrow> 64 \<le> b \<and> b \<le> 127"
  unfolding prefix_tests unfolding octet_unat by (auto simp: div_eq_iff_between)

lemma tools_blocks_exact:
  "tools_is_private_ip (Ip4 a b c d) \<longleftrightarrow> (\<exists>blk\<in>set tools_blocks. in_block4 blk (Ip4 a b c d))"
  unfolding tools_is_private_ip.simps octet_mask_C0
  by (simp add: tools_blocks_def tools_block_cases v4_is_broadcast_def v4_is_unspecified_def)

text \<open>IPv6: the loopback and the unspecified address, fc00::/7 and fe80::/10. Together: the addresses that
  the tools take for internal, by blocks.\<close>

fun internal :: "ip \<Rightarrow> bool" where
  "internal (Ip4 a b c d) = list_ex (\<lambda>blk. in_block4 blk (Ip4 a b c d)) tools_blocks"
| "internal (Ip6 s0 s1 s2 s3 s4 s5 s6 s7) =
     (Ip6 s0 s1 s2 s3 s4 s5 s6 s7 \<in> {Ip6 0 0 0 0 0 0 0 1, Ip6 0 0 0 0 0 0 0 0} \<or>
      unat s0 div 2 ^ 9 = 0xFC00 div 2 ^ 9 \<or> unat s0 div 2 ^ 6 = 0xFE80 div 2 ^ 6)"

lemma tools_v6_exact: "tools_is_private_ip (Ip6 s0 s1 s2 s3 s4 s5 s6 s7) = internal (Ip6 s0 s1 s2 s3 s4 s5 s6 s7)"
  unfolding tools_is_private_ip.simps prefix_tests by (simp add: v6_is_loopback_def v6_is_unspecified_def)

lemma tools_is_private_ip_exact: "tools_is_private_ip p = internal p"
  using tools_blocks_exact tools_v6_exact by (cases p) (simp_all only: internal.simps list_ex_iff)

text \<open>The check of the other crates refuses what that of the tools refuses, but for two addresses of
  192.0.0.0/24 that are globally reachable.\<close>

lemma tools_private_imp_common:
  assumes "tools_is_private_ip p" "p \<noteq> Ip4 192 0 0 9" "p \<noteq> Ip4 192 0 0 10"
  shows "common_is_private_ip p"
proof (cases p)
  case (Ip4 a b c d)
  from assms(1) [unfolded Ip4 tools_is_private_ip.simps octet_mask_C0] show ?thesis
    by (elim disjE) (use assms(2,3) in \<open>auto simp: Ip4\<close>)
next
  case (Ip6 s0 s1 s2 s3 s4 s5 s6 s7)
  show ?thesis
    using assms(1) unfolding Ip6 tools_is_private_ip.simps common_is_private_ip.simps by blast
qed

text \<open>The converse fails where it matters: an IPv4 address mapped into IPv6 passes the check of the tools, and
  so do 0.0.0.0/8 beyond its first address, multicast and the networks for documentation and benchmarks.\<close>

lemma mapped_loopback_passes:
  "to_ipv4_mapped (Ip6 0 0 0 0 0 0xffff 0x7f00 1) = Some (Ip4 127 0 0 1)"
  "\<not> tools_is_private_ip (Ip6 0 0 0 0 0 0xffff 0x7f00 1)"
  "common_is_private_ip (Ip6 0 0 0 0 0 0xffff 0x7f00 1)"
  by (simp_all add: v6_is_loopback_def v6_is_unspecified_def)

lemma reserved_blocks_pass:
  "\<not> tools_is_private_ip (Ip4 0 0 0 1)" "\<not> tools_is_private_ip (Ip4 224 0 0 1)" "\<not> tools_is_private_ip (Ip4 198 18 0 1)"
  "common_is_private_ip (Ip4 0 0 0 1)" "common_is_private_ip (Ip4 224 0 0 1)" "common_is_private_ip (Ip4 198 18 0 1)"
  by (simp_all add: v4_is_broadcast_def v4_is_unspecified_def)

section \<open>What a passed check means\<close>

definition permitted :: "(ip \<Rightarrow> bool) \<Rightarrow> 'net ssrf_env \<Rightarrow> 'net list \<Rightarrow> ip \<Rightarrow> bool" where
  "permitted private E allowlist p \<longleftrightarrow> private p \<longrightarrow> (\<exists>net\<in>set allowlist. net_contains E net p)"

lemma first_blocked_ok:
  "first_blocked private (net_contains E) ips allowlist = Inr () \<longleftrightarrow> list_all (permitted private E allowlist) ips"
  by (induction ips) (auto simp: permitted_def is_ssrf_allowed_def list_ex_iff)

lemma first_blocked_error:
  "first_blocked private contains ips allowlist = Inl e \<Longrightarrow>
     \<exists>p\<in>set ips. e = Blocked p \<and> private p \<and> \<not> is_ssrf_allowed contains p allowlist"
  by (induction ips) (auto split: if_splits)

text \<open>The addresses a URL stands for: the literal one, or the answer of the resolver.\<close>

definition addresses :: "'net ssrf_env \<Rightarrow> url_parts \<Rightarrow> ip list option" where
  "addresses E url =
     (case host_str url of
        None \<Rightarrow> None
      | Some host \<Rightarrow>
          (case parse_addr E host of
             Some p \<Rightarrow> Some [p]
           | None \<Rightarrow> lookup E host (case port_or_known_default url of Some p \<Rightarrow> p | None \<Rightarrow> 443)))"

lemma ssrf_check_ok:
  "ssrf_check private E url allowlist = Inr () \<longleftrightarrow>
     (\<exists>ips. addresses E url = Some ips \<and> ips \<noteq> [] \<and> list_all (permitted private E allowlist) ips)"
  by (auto simp del: first_blocked.simps simp: ssrf_check_def addresses_def validate_ssrf_ips_def first_blocked_ok
      split: option.splits)

end
