(* ===== verification/Firecrawl.thy ===== *)
theory Firecrawl
  imports Tool_Args
begin

text \<open>
  The Firecrawl service (\<open>crates/tools/src/firecrawl.rs\<close>), which scrapes a page for its caller: the key and
  the address that are configured, the request that is sent and what is read from the answer.

  The service is an argument: it gives a request no answer, or a status with a body, \<open>None\<close> when that is
  not JSON. Texts of errors are shortened; headers other than the key are left out. The search of the
  service is not modelled.
\<close>

section \<open>Configuration\<close>

record firecrawl_config =
  fc_enabled :: bool
  fc_api_key :: "string option"
  fc_base_url :: string
  fc_only_main_content :: bool
  fc_timeout_seconds :: nat
  fc_cache_ttl_minutes :: nat
  fc_web_fetch_fallback :: bool

definition DEFAULT_BASE_URL :: string where
  "DEFAULT_BASE_URL = ''https://api.firecrawl.dev''"

text \<open>\<open>env_key\<close> is the environment variable \<open>FIRECRAWL_API_KEY\<close>.\<close>

definition resolve_api_key :: "string option \<Rightarrow> firecrawl_config \<Rightarrow> string option" where
  "resolve_api_key env_key config =
     (let from_env = (case env_key of Some v \<Rightarrow> if trim v \<noteq> [] then Some v else None | None \<Rightarrow> None) in
      case fc_api_key config of
        Some key \<Rightarrow> if trim key \<noteq> [] then Some key else from_env
      | None \<Rightarrow> from_env)"

definition service_base_url :: "firecrawl_config \<Rightarrow> string" where
  "service_base_url config = (if trim (fc_base_url config) = [] then DEFAULT_BASE_URL else fc_base_url config)"

section \<open>A scrape\<close>

record scrape_request =
  endpoint :: string
  bearer :: string
  wanted_url :: string
  main_content_only :: bool
  service_timeout_ms :: nat
  client_timeout_ms :: nat

datatype 'f service_reply = Unreachable | Reply nat "'f json_value option"

type_synonym 'f scrape_service = "scrape_request \<Rightarrow> 'f service_reply"

record scrape_result =
  sr_markdown :: string
  sr_title :: "string option"
  sr_source_url :: "string option"
  sr_status_code :: "nat option"

datatype scrape_error = RequestFailed | ApiStatus nat | ParseFailed | ApiError string

definition member :: "string \<Rightarrow> 'f json_value \<Rightarrow> 'f json_value option" where
  "member k v = Option.bind (as_object v) (\<lambda>ms. map_of ms k)"

definition or_else :: "'a option \<Rightarrow> 'a option \<Rightarrow> 'a option" where
  "or_else a b = (case a of Some x \<Rightarrow> Some x | None \<Rightarrow> b)"

definition scrape_request_for :: "string \<Rightarrow> string \<Rightarrow> string \<Rightarrow> bool \<Rightarrow> nat \<Rightarrow> scrape_request" where
  "scrape_request_for base_url api_key url only_main_content timeout_ms =
     \<lparr>endpoint = trim_end_by (\<lambda>c. c = CHR ''/'') base_url @ ''/v1/scrape'', bearer = api_key, wanted_url = url,
       main_content_only = only_main_content, service_timeout_ms = max (timeout_ms - 5000) 5000,
       client_timeout_ms = timeout_ms\<rparr>"

text \<open>\<open>as_u64\<close>, then \<open>as u16\<close>\<close>

definition status_of :: "'f json_value \<Rightarrow> nat option" where
  "status_of v = (case v of Number (PosInt n) \<Rightarrow> Some (n mod 2 ^ 16) | _ \<Rightarrow> None)"

definition scrape_data :: "'f json_value \<Rightarrow> scrape_result option" where
  "scrape_data data =
     (let markdown = (case Option.bind (or_else (member ''markdown'' data) (member ''content'' data)) as_str of
                        Some s \<Rightarrow> s | None \<Rightarrow> []);
          metadata = member ''metadata'' data;
          meta = (\<lambda>k. Option.bind metadata (member k)) in
      if markdown = [] then None
      else Some \<lparr>sr_markdown = markdown, sr_title = Option.bind (meta ''title'') as_str,
        sr_source_url = Option.bind (or_else (meta ''sourceURL'') (member ''url'' data)) as_str,
        sr_status_code = Option.bind (or_else (meta ''statusCode'') (member ''statusCode'' data)) status_of\<rparr>)"

definition read_reply :: "'f service_reply \<Rightarrow> scrape_error + scrape_result option" where
  "read_reply r =
     (case r of
        Unreachable \<Rightarrow> Inl RequestFailed
      | Reply status body \<Rightarrow>
          if \<not> (200 \<le> status \<and> status < 300) then Inl (ApiStatus status)
          else
            (case body of
               None \<Rightarrow> Inl ParseFailed
             | Some payload \<Rightarrow>
                 if member ''success'' payload = Some (Bool False) then
                   Inl (ApiError (case Option.bind (or_else (member ''error'' payload) (member ''message'' payload)) as_str of
                                    Some e \<Rightarrow> e | None \<Rightarrow> ''unknown error''))
                 else
                   (case member ''data'' payload of
                      Some (Object ms) \<Rightarrow> Inr (scrape_data (Object ms))
                    | _ \<Rightarrow> Inr None)))"

text \<open>The answer, and the request that was sent for it.\<close>

definition firecrawl_scrape ::
  "'f scrape_service \<Rightarrow> string \<Rightarrow> string \<Rightarrow> string \<Rightarrow> bool \<Rightarrow> nat \<Rightarrow>
     (scrape_error + scrape_result option) \<times> scrape_request" where
  "firecrawl_scrape service base_url api_key url only_main_content timeout_ms =
     (let rq = scrape_request_for base_url api_key url only_main_content timeout_ms in (read_reply (service rq), rq))"

section \<open>Lemmas\<close>

lemma scrape_sends:
  "firecrawl_scrape service base key url only t = (r, rq) \<Longrightarrow> rq = scrape_request_for base key url only t"
  by (simp add: firecrawl_scrape_def Let_def)

text \<open>What a scrape gives is never empty.\<close>

lemma scrape_gives_text:
  "fst (firecrawl_scrape service base key url only t) = Inr (Some r) \<Longrightarrow> sr_markdown r \<noteq> []"
  by (auto simp: firecrawl_scrape_def Let_def read_reply_def scrape_data_def
      split: service_reply.splits option.splits if_splits json_value.splits)

lemma resolved_key_is_given: "resolve_api_key env config = Some key \<Longrightarrow> trim key \<noteq> []"
  by (auto simp: resolve_api_key_def Let_def split: option.splits if_splits)

end
