(* ===== verification/Web_Fetch.thy ===== *)
theory Web_Fetch
  imports Ssrf Moltis_Prelude Firecrawl
begin

text \<open>
  The tool \<open>web_fetch\<close> (\<open>crates/tools/src/web_fetch.rs\<close>): redirects followed by hand with the address check
  before each request, extraction and truncation of the body, the fallback to the Firecrawl service, and the
  cache; and the tool \<open>firecrawl_scrape\<close> of the same service (\<open>firecrawl.rs\<close>).

  The URL type of the \<open>url\<close> crate, the network and the HTML renderer are the record \<open>fetch_env\<close>. The
  resolver and the servers may answer differently at every hop, so they take its number. Building the
  HTTP client and its proxy are left out.
\<close>

section \<open>Truncation\<close>

text \<open>The longest prefix of at most \<open>max\<close> bytes: stepping back from byte \<open>max\<close> to a boundary.\<close>

definition truncate_at_char_boundary :: "string \<Rightarrow> nat \<Rightarrow> string" where
  "truncate_at_char_boundary s max_len = (if byte_len s \<le> max_len then s else truncate_chars max_len s)"

section \<open>The environment\<close>

record response =
  status_code :: nat
  location :: "string option"
  content_type_header :: "string option"
  body_text :: "string option"

record ('u, 'net, 'f) fetch_env =
  parse_url :: "string \<Rightarrow> 'u option"
  url_scheme :: "'u \<Rightarrow> string"
  parts_of :: "'u \<Rightarrow> url_parts"
  url_string :: "'u \<Rightarrow> string"
  join_url :: "'u \<Rightarrow> string \<Rightarrow> 'u option"
  resolver :: "nat \<Rightarrow> 'net ssrf_env"
  send :: "nat \<Rightarrow> 'u \<Rightarrow> response option"
  pretty_json :: "string \<Rightarrow> string option"
  html2text :: "string \<Rightarrow> string option"
  scraper :: "'f scrape_service"

record 'net fetch_tool =
  max_chars :: nat
  cache_ttl :: duration
  max_redirects :: nat
  readability :: bool
  ssrf_allowlist :: "'net list"
  firecrawl_fallback :: bool
  firecrawl_api_key :: "string option"
  firecrawl_base_url :: string
  firecrawl_only_main_content :: bool
  timeout_ms :: nat

text \<open>\<open>with_firecrawl\<close>\<close>

definition with_firecrawl :: "string option \<Rightarrow> firecrawl_config \<Rightarrow> 'net fetch_tool \<Rightarrow> 'net fetch_tool" where
  "with_firecrawl env_key config tool =
     (if fc_enabled config \<and> fc_web_fetch_fallback config then
        tool\<lparr>firecrawl_api_key := resolve_api_key env_key config, firecrawl_base_url := service_base_url config,
          firecrawl_only_main_content := fc_only_main_content config,
          firecrawl_fallback := (resolve_api_key env_key config \<noteq> None)\<rparr>
      else tool)"

text \<open>What the tool sends: the request for a page, or the scrape asked of the service.\<close>

datatype 'u outgoing = Get 'u | Post scrape_request

datatype fetch_error =
    BadUrl | UnsupportedScheme string | Ssrf ssrf_error | SendFailed | TooManyRedirects nat nat
  | NoLocation | BadRedirect | RedirectLoop string string | BodyFailed

datatype fetch_result =
    HttpError nat string
  | Fetched (fetched_url: string) (fetched_type: string) (fetched_mode: string) (fetched_content: string)
      (fetched_truncated: bool) (fetched_length: nat)

section \<open>Extraction\<close>

text \<open>\<open>dedup_by\<close> on blank lines, then the lines joined and trimmed.\<close>

fun dedup_blank :: "string list \<Rightarrow> string list" where
  "dedup_blank (a # b # rest) = (if a = [] \<and> b = [] then dedup_blank (b # rest) else a # dedup_blank (b # rest))"
| "dedup_blank ls = ls"

fun join_lines :: "string list \<Rightarrow> string" where
  "join_lines [] = []"
| "join_lines [l] = l"
| "join_lines (l # ls) = l @ newline # join_lines ls"

definition clean_text :: "string \<Rightarrow> string" where
  "clean_text s = trim (join_lines (dedup_blank (map (trim_end_by is_whitespace) (lines s))))"

definition html_to_text :: "('u, 'net, 'f) fetch_env \<Rightarrow> string \<Rightarrow> string" where
  "html_to_text E html = clean_text (case html2text E html of Some s \<Rightarrow> s | None \<Rightarrow> html)"

definition extract_content :: "('u, 'net, 'f) fetch_env \<Rightarrow> string \<Rightarrow> string \<Rightarrow> string \<Rightarrow> bool \<Rightarrow> string \<times> string" where
  "extract_content E body content_type requested_mode use_readability =
     (let ct_lower = to_lowercase content_type in
      if contains_sub ct_lower ''json'' then
        (case pretty_json E body of Some pretty \<Rightarrow> (pretty, ''json'') | None \<Rightarrow> (body, ''text''))
      else if contains_sub ct_lower ''text/plain'' \<or> \<not> contains_sub ct_lower ''html'' then (body, ''text'')
      else if use_readability \<and> (requested_mode = ''markdown'' \<or> requested_mode = []) then
        (html_to_text E body, ''markdown'')
      else (html_to_text E body, ''text''))"

text \<open>The fallback when little text came out of much HTML, with the request it sends to the service.\<close>

definition firecrawl_step ::
  "('u, 'net, 'f) fetch_env \<Rightarrow> 'net fetch_tool \<Rightarrow> 'u \<Rightarrow> string \<Rightarrow> string \<Rightarrow> string \<times> string \<Rightarrow>
     (string \<times> string) \<times> scrape_request list" where
  "firecrawl_step E cfg url body content_type = (\<lambda>(content, detected_mode).
     case firecrawl_api_key cfg of
       None \<Rightarrow> ((content, detected_mode), [])
     | Some api_key \<Rightarrow>
         if firecrawl_fallback cfg \<and> detected_mode \<noteq> ''json'' \<and> contains_sub (to_lowercase content_type) ''html'' \<and>
           (body \<noteq> [] \<and> byte_len content < byte_len body div 10 \<or> byte_len content < 200 \<and> 1000 < byte_len body)
         then
           (case firecrawl_scrape (scraper E) (firecrawl_base_url cfg) api_key (url_string E url)
               (firecrawl_only_main_content cfg) (timeout_ms cfg) of
              (Inr (Some scrape), rq) \<Rightarrow> ((sr_markdown scrape, ''firecrawl''), [rq])
            | (_, rq) \<Rightarrow> ((content, detected_mode), [rq]))
         else ((content, detected_mode), []))"

section \<open>Fetching\<close>

text \<open>The response that is not a redirect.\<close>

definition finish_fetch ::
  "('u, 'net, 'f) fetch_env \<Rightarrow> 'net fetch_tool \<Rightarrow> string \<Rightarrow> nat \<Rightarrow> 'u \<Rightarrow> response \<Rightarrow>
     (fetch_error + fetch_result) \<times> scrape_request list" where
  "finish_fetch E cfg extract_mode max_len url r =
     (if \<not> (200 \<le> status_code r \<and> status_code r < 300) then (Inr (HttpError (status_code r) (url_string E url)), [])
      else
        let content_type = (case content_type_header r of Some t \<Rightarrow> t | None \<Rightarrow> []) in
        (case body_text r of
           None \<Rightarrow> (Inl BodyFailed, [])
         | Some body \<Rightarrow>
             let ((content, detected_mode), scrapes) =
               firecrawl_step E cfg url body content_type (extract_content E body content_type extract_mode (readability cfg));
               truncated = (max_len < byte_len content) in
             (Inr (Fetched (url_string E url) content_type detected_mode
               (if truncated then truncate_at_char_boundary content max_len else content) truncated (byte_len body)), scrapes)))"

text \<open>The loop, with the requests it sends.\<close>

function fetch_loop ::
  "('u, 'net, 'f) fetch_env \<Rightarrow> 'net fetch_tool \<Rightarrow> string \<Rightarrow> nat \<Rightarrow> string list \<Rightarrow> nat \<Rightarrow> 'u \<Rightarrow>
     (fetch_error + fetch_result) \<times> 'u outgoing list" where
  "fetch_loop E cfg extract_mode max_len visited hops url =
     (case ssrf_check tools_is_private_ip (resolver E hops) (parts_of E url) (ssrf_allowlist cfg) of
        Inl e \<Rightarrow> (Inl (Ssrf e), [])
      | Inr _ \<Rightarrow>
          let visited = visited @ [url_string E url] in
          (case send E hops url of
             None \<Rightarrow> (Inl SendFailed, [Get url])
           | Some r \<Rightarrow>
               if 300 \<le> status_code r \<and> status_code r < 400 then
                 if max_redirects cfg \<le> hops then (Inl (TooManyRedirects (hops + 1) (max_redirects cfg)), [Get url])
                 else
                   (case location r of
                      None \<Rightarrow> (Inl NoLocation, [Get url])
                    | Some loc \<Rightarrow>
                        (case join_url E url loc of
                           None \<Rightarrow> (Inl BadRedirect, [Get url])
                         | Some next_url \<Rightarrow>
                             if url_string E next_url \<in> set visited
                             then (Inl (RedirectLoop (url_string E url) (url_string E next_url)), [Get url])
                             else
                               (case fetch_loop E cfg extract_mode max_len visited (hops + 1) next_url of
                                  (res, sent) \<Rightarrow> (res, Get url # sent))))
               else
                 (case finish_fetch E cfg extract_mode max_len url r of
                    (res, scrapes) \<Rightarrow> (res, Get url # map Post scrapes))))"
  by pat_completeness auto
termination
  by (relation "measure (\<lambda>(E, cfg, mode, n, visited, hops, url). max_redirects cfg - hops)") auto

declare fetch_loop.simps [simp del]

definition fetch_url ::
  "('u, 'net, 'f) fetch_env \<Rightarrow> 'net fetch_tool \<Rightarrow> string \<Rightarrow> string \<Rightarrow> nat \<Rightarrow> (fetch_error + fetch_result) \<times> 'u outgoing list" where
  "fetch_url E cfg url_str extract_mode max_len =
     (case parse_url E url_str of
        None \<Rightarrow> (Inl BadUrl, [])
      | Some url \<Rightarrow>
          if url_scheme E url = ''http'' \<or> url_scheme E url = ''https''
          then fetch_loop E cfg extract_mode max_len [] 0 url
          else (Inl (UnsupportedScheme (url_scheme E url)), []))"

section \<open>The cache\<close>

text \<open>Both tools have one, with the same code.\<close>

record 'v cache_entry =
  cached_value :: 'v
  expires_at :: instant

type_synonym 'v fetch_cache = "(string \<times> 'v cache_entry) list"

definition cache_key :: "string \<Rightarrow> string \<Rightarrow> nat \<Rightarrow> string" where
  "cache_key url extract_mode max_len = url @ '':'' @ extract_mode @ '':'' @ show_nat max_len"

definition cache_get :: "instant \<Rightarrow> string \<Rightarrow> 'v fetch_cache \<Rightarrow> 'v option" where
  "cache_get now key cache =
     (case map_of cache key of
        None \<Rightarrow> None
      | Some entry \<Rightarrow> if now < expires_at entry then Some (cached_value entry) else None)"

definition cache_set :: "duration \<Rightarrow> instant \<Rightarrow> string \<Rightarrow> 'v \<Rightarrow> 'v fetch_cache \<Rightarrow> 'v fetch_cache" where
  "cache_set ttl now key v cache =
     (if ttl = 0 then cache
      else
        let cache = (if 100 < length cache then filter (\<lambda>(k, e). now < expires_at e) cache else cache) in
        AList.update key \<lparr>cached_value = v, expires_at = instant_add now ttl\<rparr> cache)"

text \<open>\<open>execute\<close> for the parameters \<open>url\<close>, \<open>extract_mode\<close> and \<open>max_chars\<close>; \<open>None\<close> is a missing one. The cache
  is read at \<open>now\<close> and written at \<open>later\<close>, after the fetch.\<close>

definition fetch_execute ::
  "('u, 'net, 'f) fetch_env \<Rightarrow> 'net fetch_tool \<Rightarrow> instant \<Rightarrow> instant \<Rightarrow> string \<Rightarrow> string option \<Rightarrow> nat option \<Rightarrow>
     fetch_result fetch_cache \<Rightarrow> (fetch_error + fetch_result) \<times> 'u outgoing list \<times> fetch_result fetch_cache" where
  "fetch_execute E cfg now later url mode_param max_param cache =
     (let extract_mode = (case mode_param of Some m \<Rightarrow> m | None \<Rightarrow> ''markdown'');
          max_len = (case max_param of Some n \<Rightarrow> n | None \<Rightarrow> max_chars cfg);
          key = cache_key url extract_mode max_len in
      case cache_get now key cache of
        Some v \<Rightarrow> (Inr v, [], cache)
      | None \<Rightarrow>
          (case fetch_url E cfg url extract_mode max_len of
             (Inl e, sent) \<Rightarrow> (Inl e, sent, cache)
           | (Inr v, sent) \<Rightarrow> (Inr v, sent, cache_set (cache_ttl cfg) later key v cache)))"

section \<open>The scrape tool\<close>

record scrape_tool =
  st_api_key :: string
  st_base_url :: string
  st_only_main_content :: bool
  st_timeout_ms :: nat
  st_cache_ttl :: duration

definition scrape_tool_from_config :: "string option \<Rightarrow> firecrawl_config \<Rightarrow> scrape_tool option" where
  "scrape_tool_from_config env_key config =
     (if \<not> fc_enabled config then None
      else map_option (\<lambda>key. \<lparr>st_api_key = key, st_base_url = service_base_url config,
          st_only_main_content = fc_only_main_content config, st_timeout_ms = fc_timeout_seconds config * 1000,
          st_cache_ttl = fc_cache_ttl_minutes config * 60 * 1000\<rparr>) (resolve_api_key env_key config))"

definition strip_markdown_line :: "string \<Rightarrow> string" where
  "strip_markdown_line line = remove_all ''*'' (remove_all ''__'' (remove_all ''**'' (trim_start_by is_whitespace (trim_start_by (\<lambda>c. c = CHR ''#'') line))))"

definition strip_markdown :: "string \<Rightarrow> string" where
  "strip_markdown md = trim (concat (map (\<lambda>line. strip_markdown_line line @ [newline]) (lines md)))"

datatype scrape_answer =
    NoContent string
  | Scraped (scraped_url: string) (scraped_final: string) (scraped_title: "string option")
      (scraped_status: "nat option") (scraped_mode: string) (scraped_content: string) (scraped_truncated: bool)

definition show_bool :: "bool \<Rightarrow> string" where
  "show_bool b = (if b then ''true'' else ''false'')"

text \<open>\<open>execute\<close> of \<open>firecrawl_scrape\<close>, with the request it sends; the optional parameters are \<open>None\<close> when
  they are missing.\<close>

definition scrape_execute ::
  "'f scrape_service \<Rightarrow> scrape_tool \<Rightarrow> instant \<Rightarrow> instant \<Rightarrow> string \<Rightarrow> string option \<Rightarrow> nat option \<Rightarrow> bool option \<Rightarrow>
     scrape_answer fetch_cache \<Rightarrow>
     (scrape_error + scrape_answer) \<times> scrape_request list \<times> scrape_answer fetch_cache" where
  "scrape_execute service tool now later url mode_param max_param main_param cache =
     (let extract_mode = (case mode_param of Some m \<Rightarrow> m | None \<Rightarrow> ''markdown'');
          max_len = (case max_param of Some n \<Rightarrow> n | None \<Rightarrow> 50000);
          only_main = (case main_param of Some b \<Rightarrow> b | None \<Rightarrow> st_only_main_content tool);
          key = ''firecrawl:'' @ url @ '':'' @ extract_mode @ '':'' @ show_nat max_len @ '':'' @ show_bool only_main in
      case cache_get now key cache of
        Some v \<Rightarrow> (Inr v, [], cache)
      | None \<Rightarrow>
          (case firecrawl_scrape service (st_base_url tool) (st_api_key tool) url only_main (st_timeout_ms tool) of
             (Inl e, rq) \<Rightarrow> (Inl e, [rq], cache)
           | (Inr None, rq) \<Rightarrow> (Inr (NoContent url), [rq], cache)
           | (Inr (Some scrape), rq) \<Rightarrow>
               let content = (if extract_mode = ''text'' then strip_markdown (sr_markdown scrape) else sr_markdown scrape);
                   truncated = (max_len < byte_len content);
                   v = Scraped url (case sr_source_url scrape of Some u \<Rightarrow> u | None \<Rightarrow> url) (sr_title scrape)
                     (sr_status_code scrape) extract_mode
                     (if truncated then truncate_at_char_boundary content max_len else content) truncated in
               (Inr v, [rq], cache_set (st_cache_ttl tool) later key v cache)))"

section \<open>Lemmas\<close>

lemma truncate_bound: "byte_len (truncate_at_char_boundary s n) \<le> n"
  by (simp add: truncate_at_char_boundary_def truncate_chars_bound)

lemma finish_fetch_bound:
  "finish_fetch E cfg mode n url r = (Inr (Fetched u t m content tr len), ps) \<Longrightarrow> byte_len content \<le> n"
  by (auto simp: finish_fetch_def Let_def truncate_bound split: if_splits option.splits prod.splits)

definition guarded_from :: "('u, 'net, 'f) fetch_env \<Rightarrow> 'net fetch_tool \<Rightarrow> nat \<Rightarrow> 'u list \<Rightarrow> bool" where
  "guarded_from E cfg k sent \<longleftrightarrow>
     (\<forall>i<length sent. ssrf_check tools_is_private_ip (resolver E (k + i)) (parts_of E (sent ! i)) (ssrf_allowlist cfg) = Inr ())"

lemma guarded_from_Cons:
  "guarded_from E cfg k (u # us) \<longleftrightarrow>
     ssrf_check tools_is_private_ip (resolver E k) (parts_of E u) (ssrf_allowlist cfg) = Inr () \<and>
     guarded_from E cfg (Suc k) us"
  by (simp add: guarded_from_def All_less_Suc2)

text \<open>The pages asked for and the scrapes, in their order.\<close>

primrec pages :: "'u outgoing list \<Rightarrow> 'u list" where
  "pages [] = []"
| "pages (q # qs) = (case q of Get u \<Rightarrow> u # pages qs | Post p \<Rightarrow> pages qs)"

primrec scrapes :: "'u outgoing list \<Rightarrow> scrape_request list" where
  "scrapes [] = []"
| "scrapes (q # qs) = (case q of Get u \<Rightarrow> scrapes qs | Post p \<Rightarrow> p # scrapes qs)"

lemma pages_posts [simp]: "pages (map Post ps) = []" "scrapes (map Post ps) = ps"
  by (induction ps) simp_all

text \<open>The scrape that the configuration allows for a page.\<close>

definition scrape_of :: "('u, 'net, 'f) fetch_env \<Rightarrow> 'net fetch_tool \<Rightarrow> 'u \<Rightarrow> scrape_request \<Rightarrow> bool" where
  "scrape_of E cfg u p \<longleftrightarrow> firecrawl_fallback cfg \<and>
     (case firecrawl_api_key cfg of
        None \<Rightarrow> False
      | Some key \<Rightarrow> p = scrape_request_for (firecrawl_base_url cfg) key (url_string E u)
          (firecrawl_only_main_content cfg) (timeout_ms cfg))"

definition scrapes_fit :: "('u, 'net, 'f) fetch_env \<Rightarrow> 'net fetch_tool \<Rightarrow> 'u list \<Rightarrow> scrape_request list \<Rightarrow> bool" where
  "scrapes_fit E cfg us ps \<longleftrightarrow> ps = [] \<or> us \<noteq> [] \<and> (\<exists>p. ps = [p] \<and> scrape_of E cfg (last us) p)"

lemma firecrawl_step_scrapes:
  "firecrawl_step E cfg u body ct cm = (cm', ps) \<Longrightarrow> ps = [] \<or> (\<exists>p. ps = [p] \<and> scrape_of E cfg u p)"
  by (auto simp: firecrawl_step_def scrape_of_def dest: scrape_sends split: prod.splits option.splits sum.splits if_splits)

lemma finish_fetch_scrapes:
  "finish_fetch E cfg mode n u r = (res, ps) \<Longrightarrow> ps = [] \<or> (\<exists>p. ps = [p] \<and> scrape_of E cfg u p)"
  by (auto simp: finish_fetch_def Let_def dest: firecrawl_step_scrapes split: if_splits option.splits prod.splits)

definition fetch_fits ::
  "('u, 'net, 'f) fetch_env \<Rightarrow> 'net fetch_tool \<Rightarrow> nat \<Rightarrow> string list \<Rightarrow> nat \<Rightarrow> 'u \<Rightarrow> (fetch_error + fetch_result) \<Rightarrow>
     'u list \<Rightarrow> scrape_request list \<Rightarrow> bool" where
  "fetch_fits E cfg n visited hops url res us ps \<longleftrightarrow>
     guarded_from E cfg hops us \<and> length us \<le> Suc (max_redirects cfg - hops) \<and>
     distinct (map (url_string E) us) \<and> set (map (url_string E) us) \<inter> set visited = {} \<and>
     (us \<noteq> [] \<longrightarrow> hd us = url) \<and> scrapes_fit E cfg us ps \<and>
     (\<forall>u t m content tr len. res = Inr (Fetched u t m content tr len) \<longrightarrow> byte_len content \<le> n)"

lemma fetch_loop_spec:
  assumes "fetch_loop E cfg mode n visited hops url = (res, sent)" "url_string E url \<notin> set visited"
  shows "sent = map Get (pages sent) @ map Post (scrapes sent) \<and>
    fetch_fits E cfg n visited hops url res (pages sent) (scrapes sent)"
  using assms
proof (induction E cfg mode n visited hops url arbitrary: res sent rule: fetch_loop.induct)
  case (1 E cfg mode n visited hops url)
  show ?case
  proof (cases "ssrf_check tools_is_private_ip (resolver E hops) (parts_of E url) (ssrf_allowlist cfg)")
    case (Inl e)
    then have "res = Inl (Ssrf e)" "sent = []" using "1.prems"(1) by (simp_all add: fetch_loop.simps [of E cfg mode n visited hops url])
    then show ?thesis by (simp add: fetch_fits_def guarded_from_def scrapes_fit_def)
  next
    case (Inr u)
    note ok = Inr
    show ?thesis
    proof (cases "\<exists>r loc next_url. send E hops url = Some r \<and> 300 \<le> status_code r \<and> status_code r < 400 \<and>
        \<not> max_redirects cfg \<le> hops \<and> location r = Some loc \<and> join_url E url loc = Some next_url \<and>
        url_string E next_url \<notin> set (visited @ [url_string E url])")
      case True
      then obtain r loc next_url where hop: "send E hops url = Some r" "300 \<le> status_code r" "status_code r < 400"
          "\<not> max_redirects cfg \<le> hops" "location r = Some loc" "join_url E url loc = Some next_url"
          "url_string E next_url \<notin> set (visited @ [url_string E url])" by blast
      obtain sent' where rec: "fetch_loop E cfg mode n (visited @ [url_string E url]) (hops + 1) next_url = (res, sent')"
          and sent: "sent = Get url # sent'"
        using "1.prems"(1) ok hop by (subst (asm) fetch_loop.simps) (auto split: prod.splits)
      from 1(1) [OF ok refl hop(1) _ _ hop(5) hop(6) hop(7) rec hop(7)] hop(2-4)
      show ?thesis using ok sent "1.prems"(2) hop(4) by (auto simp: fetch_fits_def scrapes_fit_def guarded_from_Cons)
    next
      case False
      then consider e where "sent = [Get url]" "res = Inl e"
        | r ps where "finish_fetch E cfg mode n url r = (res, ps)" "sent = Get url # map Post ps"
        using "1.prems"(1) ok by (subst (asm) fetch_loop.simps) (auto simp: Let_def split: option.splits if_splits prod.splits)
      then show ?thesis
      proof cases
        case 1
        then show ?thesis using ok "1.prems"(2) by (simp add: fetch_fits_def scrapes_fit_def guarded_from_Cons guarded_from_def)
      next
        case 2
        then show ?thesis
          using ok "1.prems"(2) finish_fetch_scrapes [OF 2(1)] finish_fetch_bound [of E cfg mode n url r]
          by (auto simp: fetch_fits_def scrapes_fit_def guarded_from_Cons guarded_from_def)
      qed
    qed
  qed
qed

section \<open>The cache\<close>

text \<open>What the cache gives was stored for the same key, less than the lifetime before.\<close>

definition cache_inv :: "duration \<Rightarrow> (string \<Rightarrow> 'v \<Rightarrow> instant \<Rightarrow> bool) \<Rightarrow> 'v fetch_cache \<Rightarrow> bool" where
  "cache_inv ttl stored cache \<longleftrightarrow> distinct (map fst cache) \<and>
     (\<forall>(k, e)\<in>set cache. \<exists>t. stored k (cached_value e) t \<and> expires_at e = instant_add t ttl)"

lemma cache_set_inv:
  assumes "cache_inv ttl stored cache" "stored key v now"
  shows "cache_inv ttl stored (cache_set ttl now key v cache)"
proof -
  let ?c = "if 100 < length cache then filter (\<lambda>(k, e). now < expires_at e) cache else cache"
  have c: "distinct (map fst ?c)" "set ?c \<subseteq> set cache"
    using assms(1) by (auto simp: cache_inv_def distinct_map inj_on_def)
  have "set (AList.update key e ?c) \<subseteq> insert (key, e) (set ?c)" for e
    by (auto dest!: set_alist_updateD simp del: if_split)
  then show ?thesis
    using assms c by (fastforce simp: cache_inv_def cache_set_def Let_def distinct_update)
qed

lemma cache_get_fresh:
  assumes "cache_inv ttl stored cache" "cache_get now key cache = Some v"
  shows "\<exists>t. stored key v t \<and> now < instant_add t ttl"
  using assms by (fastforce simp: cache_inv_def cache_get_def split: option.splits if_splits dest: map_of_SomeD)

text \<open>A failed fetch that still got an answer is stored as well: while the entry lives the server is not asked
  again.\<close>

lemma error_answer_is_cached:
  assumes "cache_get now (cache_key url m n) cache = None" "0 < cache_ttl cfg"
    and "fetch_url E cfg url m n = (Inr (HttpError st u), sent)"
    and "soon < instant_add later (cache_ttl cfg)"
  shows "\<exists>cache'. fetch_execute E cfg now later url (Some m) (Some n) cache = (Inr (HttpError st u), sent, cache') \<and>
    fetch_execute E cfg soon t url (Some m) (Some n) cache' = (Inr (HttpError st u), [], cache')"
  using assms by (simp add: fetch_execute_def cache_get_def cache_set_def Let_def update_conv')

text \<open>The key does not separate its parts: two requests with different hosts share an entry.\<close>

lemma cache_keys_collide:
  "cache_key ''http://h'' ''8080:markdown'' n = cache_key ''http://h:8080'' ''markdown'' n"
  by (simp add: cache_key_def)

text \<open>The service is told the URL without any check: it may be hosted beside the gateway, and then it can reach
  what the gateway refuses to reach.\<close>

lemma scrape_tool_asks_for_any_url:
  assumes "cache_get now (''firecrawl:'' @ url @ '':markdown:'' @ show_nat 50000 @ '':true'') cache = None"
  shows "fst (snd (scrape_execute service tool now later url None None (Some True) cache)) =
    [scrape_request_for (st_base_url tool) (st_api_key tool) url True (st_timeout_ms tool)]"
  using assms
  by (simp add: scrape_execute_def firecrawl_scrape_def Let_def show_bool_def split: sum.split option.split)

text \<open>Without the key or the setting the tool never turns to the service.\<close>

lemma fallback_is_configured:
  assumes "\<not> firecrawl_fallback tool" "firecrawl_fallback (with_firecrawl env_key config tool)"
  shows "fc_enabled config \<and> fc_web_fetch_fallback config \<and> resolve_api_key env_key config \<noteq> None"
  using assms by (auto simp: with_firecrawl_def split: if_splits)

section \<open>Properties\<close>

text \<open>C18: \<open>web_fetch\<close> fetches no internal page. Whatever the servers, the resolver and the scraping service
  answer, every page it asks for, redirects included, is on a host for which the check resolved addresses,
  each outside the internal blocks or on the allowlist; there is at most one page more than redirects
  allowed, none is asked for twice, the first has the scheme http or https, and the text returned is no
  longer than was asked for. The only other request, sent last and at most once, is not checked: it goes to
  the configured Firecrawl service, with its key, when the fallback is configured, and asks it to scrape the
  last of those pages.\<close>

theorem fetch_requests_guarded:
  assumes "fetch_url E cfg url mode n = (res, sent)"
  shows "sent = map Get (pages sent) @ map Post (scrapes sent) \<and>
    (\<forall>i<length (pages sent). \<exists>ips. addresses (resolver E i) (parts_of E (pages sent ! i)) = Some ips \<and> ips \<noteq> [] \<and>
      (\<forall>p\<in>set ips. internal p \<longrightarrow> (\<exists>net\<in>set (ssrf_allowlist cfg). net_contains (resolver E i) net p))) \<and>
    length (pages sent) \<le> Suc (max_redirects cfg) \<and> distinct (map (url_string E) (pages sent)) \<and>
    (pages sent \<noteq> [] \<longrightarrow> parse_url E url = Some (hd (pages sent)) \<and> url_scheme E (hd (pages sent)) \<in> {''http'', ''https''}) \<and>
    (scrapes sent \<noteq> [] \<longrightarrow> pages sent \<noteq> [] \<and> firecrawl_fallback cfg \<and>
      (\<exists>key. firecrawl_api_key cfg = Some key \<and>
        scrapes sent = [scrape_request_for (firecrawl_base_url cfg) key (url_string E (last (pages sent)))
          (firecrawl_only_main_content cfg) (timeout_ms cfg)])) \<and>
    (\<forall>u t m content tr len. res = Inr (Fetched u t m content tr len) \<longrightarrow> byte_len content \<le> n)"
proof (cases "\<exists>u. parse_url E url = Some u \<and> url_scheme E u \<in> {''http'', ''https''}")
  case True
  then obtain u where u: "parse_url E url = Some u" "url_scheme E u \<in> {''http'', ''https''}" by blast
  then have "fetch_loop E cfg mode n [] 0 u = (res, sent)" using assms by (auto simp: fetch_url_def)
  from fetch_loop_spec [OF this] have order: "sent = map Get (pages sent) @ map Post (scrapes sent)"
    and fits: "fetch_fits E cfg n [] 0 u res (pages sent) (scrapes sent)" by simp_all
  have spec: "guarded_from E cfg 0 (pages sent)" "length (pages sent) \<le> Suc (max_redirects cfg)"
      "distinct (map (url_string E) (pages sent))" "pages sent \<noteq> [] \<longrightarrow> hd (pages sent) = u"
      "scrapes_fit E cfg (pages sent) (scrapes sent)"
      "\<forall>u t m content tr len. res = Inr (Fetched u t m content tr len) \<longrightarrow> byte_len content \<le> n"
    using fits by (simp_all add: fetch_fits_def)
  have "\<exists>ips. addresses (resolver E i) (parts_of E (pages sent ! i)) = Some ips \<and> ips \<noteq> [] \<and>
      (\<forall>p\<in>set ips. internal p \<longrightarrow> (\<exists>net\<in>set (ssrf_allowlist cfg). net_contains (resolver E i) net p))"
    if "i < length (pages sent)" for i
    using spec(1) that
    by (simp add: guarded_from_def ssrf_check_ok list_all_iff permitted_def tools_is_private_ip_exact)
  moreover have "scrapes sent \<noteq> [] \<longrightarrow> pages sent \<noteq> [] \<and> firecrawl_fallback cfg \<and>
      (\<exists>key. firecrawl_api_key cfg = Some key \<and>
        scrapes sent = [scrape_request_for (firecrawl_base_url cfg) key (url_string E (last (pages sent)))
          (firecrawl_only_main_content cfg) (timeout_ms cfg)])"
    using spec(5) by (auto simp: scrapes_fit_def scrape_of_def split: option.splits)
  ultimately show ?thesis using order spec(2-4,6) u by blast
next
  case False
  then have "sent = []" "res \<noteq> Inr r" for r using assms by (auto simp: fetch_url_def split: option.splits if_splits)
  then show ?thesis by simp
qed

text \<open>A server that redirects to the loopback address.\<close>

definition example_ssrf :: "unit ssrf_env" where
  "example_ssrf = \<lparr>net_contains = \<lambda>_ _. False,
     parse_addr = (\<lambda>h. if h = ''127.0.0.1'' then Some (Ip4 127 0 0 1) else None),
     lookup = \<lambda>_ _. Some [Ip4 93 184 216 34]\<rparr>"

definition example_env :: "(string, unit, unit) fetch_env" where
  "example_env = \<lparr>parse_url = Some, url_scheme = \<lambda>_. ''http'',
     parts_of = \<lambda>u. \<lparr>host_str = Some u, port_or_known_default = Some 80\<rparr>, url_string = \<lambda>u. u,
     join_url = \<lambda>_ l. Some l, resolver = \<lambda>_. example_ssrf,
     send = \<lambda>_ _. Some \<lparr>status_code = 302, location = Some ''127.0.0.1'', content_type_header = None, body_text = None\<rparr>,
     pretty_json = \<lambda>_. None, html2text = Some, scraper = \<lambda>_. Unreachable\<rparr>"

definition example_tool :: "unit fetch_tool" where
  "example_tool = \<lparr>max_chars = 50000, cache_ttl = 900000, max_redirects = 3, readability = True, ssrf_allowlist = [],
     firecrawl_fallback = False, firecrawl_api_key = None, firecrawl_base_url = DEFAULT_BASE_URL,
     firecrawl_only_main_content = True, timeout_ms = 30000\<rparr>"

lemma example_redirect:
  "fetch_url example_env example_tool ''example.org'' ''markdown'' 100 = (Inl (Ssrf (Blocked (Ip4 127 0 0 1))), [Get ''example.org''])"
proof -
  have "ssrf_check tools_is_private_ip example_ssrf \<lparr>host_str = Some ''example.org'', port_or_known_default = Some 80\<rparr> [] = Inr ()"
    "ssrf_check tools_is_private_ip example_ssrf \<lparr>host_str = Some ''127.0.0.1'', port_or_known_default = Some 80\<rparr> [] =
      Inl (Blocked (Ip4 127 0 0 1))"
    unfolding ssrf_check_def example_ssrf_def
    by (simp_all add: validate_ssrf_ips_def is_ssrf_allowed_def v4_is_broadcast_def v4_is_unspecified_def)
  then show ?thesis
    by (simp add: fetch_url_def example_env_def example_tool_def fetch_loop.simps)
qed

theorem fetch_requests_guarded_witness:
  "\<exists>ips. addresses example_ssrf (parts_of example_env ''example.org'') = Some ips \<and> \<not> list_ex internal ips"
  using fetch_requests_guarded [OF example_redirect]
  by (auto simp: list_ex_iff example_tool_def example_env_def)

end
