(* ===== verification/Network_Filter.thy ===== *)
theory Network_Filter
  imports Ssrf Moltis_Prelude
begin

text \<open>
  The filtering proxy of the trusted network (\<open>crates/network-filter/src\<close>): domain patterns (\<open>types.rs\<close>),
  the approval of domains (\<open>domain_approval.rs\<close>) and the proxy's handling of a connection (\<open>proxy.rs\<close>).

  A hash map is an association list with distinct keys, a hash set a list without repetitions. The
  identifier of a request and the channel it waits on are arguments; the answer to a waiting connection
  is an event of its own, so that other connections and the owner act in between. Reading and copying
  bytes, the response texts and the metrics are left out.
\<close>

section \<open>Domain patterns\<close>

datatype filter_action = FilterAllow | FilterDeny | NeedsDomainApproval

datatype approval_source = SourceConfig | SourceSession | SourceUserPrompt

datatype domain_decision = DomainApproved | DomainDenied | DomainTimeout

datatype domain_pattern = ExactDomain string | WildcardSubdomain string | Wildcard

definition parse_pattern :: "string \<Rightarrow> domain_pattern" where
  "parse_pattern s =
     (let s = to_lowercase (trim s) in
      if s = ''*'' then Wildcard
      else (case strip_prefix s ''*.'' of Some base \<Rightarrow> WildcardSubdomain base | None \<Rightarrow> ExactDomain s))"

fun pattern_matches :: "domain_pattern \<Rightarrow> string \<Rightarrow> bool" where
  "pattern_matches Wildcard domain = True"
| "pattern_matches (ExactDomain d) domain = (to_lowercase domain = d)"
| "pattern_matches (WildcardSubdomain base) domain =
     (to_lowercase domain = base \<or> ends_with (to_lowercase domain) (CHR ''.'' # base))"

section \<open>Approval of domains\<close>

record pending_domain =
  pd_tx :: nat
  pd_domain :: string
  pd_session :: string

record domain_manager =
  config_allowlist :: "domain_pattern list"
  session_allowlist :: "(string \<times> string list) list"
  pending_domains :: "(string \<times> pending_domain) list"

definition new_manager :: "string list \<Rightarrow> domain_manager" where
  "new_manager allowed_domains =
     \<lparr>config_allowlist = map parse_pattern allowed_domains, session_allowlist = [], pending_domains = []\<rparr>"

definition check_domain_with_source :: "domain_manager \<Rightarrow> string \<Rightarrow> string \<Rightarrow> filter_action \<times> approval_source option" where
  "check_domain_with_source m session domain =
     (if config_allowlist m = [] then (FilterAllow, Some SourceConfig)
      else if list_ex (\<lambda>p. pattern_matches p domain) (config_allowlist m) then (FilterAllow, Some SourceConfig)
      else
        (case map_of (session_allowlist m) session of
           Some domains \<Rightarrow>
             if to_lowercase domain \<in> set domains then (FilterAllow, Some SourceSession)
             else (NeedsDomainApproval, None)
         | None \<Rightarrow> (NeedsDomainApproval, None)))"

definition check_domain :: "domain_manager \<Rightarrow> string \<Rightarrow> string \<Rightarrow> filter_action" where
  "check_domain m session domain = fst (check_domain_with_source m session domain)"

definition create_domain_request :: "domain_manager \<Rightarrow> string \<Rightarrow> nat \<Rightarrow> string \<Rightarrow> string \<Rightarrow> domain_manager" where
  "create_domain_request m rid tx session domain =
     m\<lparr>pending_domains := AList.update rid \<lparr>pd_tx = tx, pd_domain = domain, pd_session = session\<rparr> (pending_domains m)\<rparr>"

definition set_insert :: "'a \<Rightarrow> 'a list \<Rightarrow> 'a list" where
  "set_insert x xs = (if x \<in> set xs then xs else xs @ [x])"

definition add_trusted_domain :: "domain_manager \<Rightarrow> string \<Rightarrow> string \<Rightarrow> domain_manager" where
  "add_trusted_domain m session domain =
     m\<lparr>session_allowlist :=
         AList.update session
           (set_insert (to_lowercase domain)
             (case map_of (session_allowlist m) session of Some ds \<Rightarrow> ds | None \<Rightarrow> []))
           (session_allowlist m)\<rparr>"

definition remove_trusted_domain :: "domain_manager \<Rightarrow> string \<Rightarrow> string \<Rightarrow> domain_manager" where
  "remove_trusted_domain m session domain =
     (case map_of (session_allowlist m) session of
        None \<Rightarrow> m
      | Some ds \<Rightarrow>
          m\<lparr>session_allowlist := AList.update session (filter (\<lambda>d. d \<noteq> to_lowercase domain) ds) (session_allowlist m)\<rparr>)"

text \<open>The second result is what the channel delivers.\<close>

definition resolve_domain :: "domain_manager \<Rightarrow> string \<Rightarrow> domain_decision \<Rightarrow> domain_manager \<times> (nat \<times> domain_decision) option" where
  "resolve_domain m rid decision =
     (case map_of (pending_domains m) rid of
        None \<Rightarrow> (m, None)
      | Some p \<Rightarrow>
          let m = m\<lparr>pending_domains := AList.delete rid (pending_domains m)\<rparr> in
          (if decision = DomainApproved then add_trusted_domain m (pd_session p) (pd_domain p) else m,
           Some (pd_tx p, decision)))"

text \<open>The outcome of \<open>tokio::time::timeout(self.timeout, rx)\<close>: \<open>None\<close> when the time is over, \<open>Some None\<close> when the
  channel is closed.\<close>

definition wait_for_domain :: "domain_decision option option \<Rightarrow> domain_decision" where
  "wait_for_domain outcome =
     (case outcome of Some (Some d) \<Rightarrow> d | Some None \<Rightarrow> DomainDenied | None \<Rightarrow> DomainTimeout)"

definition pending_domain_requests :: "domain_manager \<Rightarrow> (string \<times> string \<times> string) list" where
  "pending_domain_requests m = map (\<lambda>(rid, p). (rid, pd_domain p, pd_session p)) (pending_domains m)"

fun pattern_text :: "domain_pattern \<Rightarrow> string" where
  "pattern_text (ExactDomain d) = d"
| "pattern_text (WildcardSubdomain d) = ''*.'' @ d"
| "pattern_text Wildcard = ''*''"

definition list_trusted_domains :: "domain_manager \<Rightarrow> string \<Rightarrow> string list" where
  "list_trusted_domains m session =
     (let result = map pattern_text (config_allowlist m) in
      foldl (\<lambda>r d. set_insert d r) result
        (case map_of (session_allowlist m) session of Some ds \<Rightarrow> ds | None \<Rightarrow> []))"

section \<open>The proxy\<close>

definition is_cgnat :: "ip \<Rightarrow> bool" where
  "is_cgnat p = (case p of Ip4 a b c d \<Rightarrow> a = 100 \<and> b AND 0xC0 = 64 | _ \<Rightarrow> False)"

definition is_ula :: "ip \<Rightarrow> bool" where
  "is_ula p = (case p of Ip6 s0 s1 s2 s3 s4 s5 s6 s7 \<Rightarrow> s0 AND 0xFE00 = 0xFC00 | _ \<Rightarrow> False)"

definition is_private_or_loopback :: "ip \<Rightarrow> bool" where
  "is_private_or_loopback p =
     (case p of
        Ip4 _ _ _ _ \<Rightarrow> v4_is_loopback p \<or> v4_is_private p \<or> v4_is_link_local p \<or> is_cgnat p
      | Ip6 _ _ _ _ _ _ _ _ \<Rightarrow> v6_is_loopback p \<or> is_ula p)"

definition rsplit_once :: "char \<Rightarrow> string \<Rightarrow> (string \<times> string) option" where
  "rsplit_once c s = map_option (\<lambda>(a, b). (rev b, rev a)) (split_once c (rev s))"

definition parse_u16 :: "string \<Rightarrow> nat option" where
  "parse_u16 s = (case parse_u64 s of Some v \<Rightarrow> if v < 65536 then Some v else None | None \<Rightarrow> None)"

definition unwrap_or :: "'a option \<Rightarrow> 'a \<Rightarrow> 'a" where
  "unwrap_or x d = (case x of Some v \<Rightarrow> v | None \<Rightarrow> d)"

definition parse_host_port :: "string \<Rightarrow> string \<times> nat" where
  "parse_host_port target =
     (case rsplit_once CHR '':'' target of
        Some (host, port_str) \<Rightarrow> (host, unwrap_or (parse_u16 port_str) 443)
      | None \<Rightarrow> (target, 443))"

definition after_scheme :: "string \<Rightarrow> string" where
  "after_scheme url =
     (case strip_prefix url ''http://'' of
        Some r \<Rightarrow> r
      | None \<Rightarrow> (case strip_prefix url ''https://'' of Some r \<Rightarrow> r | None \<Rightarrow> url))"

definition host_port_of :: "string \<Rightarrow> string" where
  "host_port_of url = takeWhile (\<lambda>c. c \<noteq> CHR ''/'') (after_scheme url)"

definition extract_host_from_url :: "string \<Rightarrow> string" where
  "extract_host_from_url url =
     (case rsplit_once CHR '':'' (host_port_of url) of Some (host, _) \<Rightarrow> host | None \<Rightarrow> host_port_of url)"

definition extract_port_from_url :: "string \<Rightarrow> nat" where
  "extract_port_from_url url =
     (let default_port = (if starts_with url ''https://'' then 443 else 80) in
      case rsplit_once CHR '':'' (host_port_of url) of
        Some (_, port_str) \<Rightarrow> unwrap_or (parse_u16 port_str) default_port
      | None \<Rightarrow> default_port)"

definition url_to_path :: "string \<Rightarrow> string" where
  "url_to_path url =
     (case find_char (\<lambda>c. c = CHR ''/'') (after_scheme url) of
        Some k \<Rightarrow> drop k (after_scheme url)
      | None \<Rightarrow> ''/'')"

datatype network_protocol = HttpConnect | HttpForward

datatype filter_outcome = OutcomeAllowed | OutcomeDenied | OutcomeApprovedByUser | OutcomeTimeout

text \<open>A request on a connection, and what the audit log records of it.\<close>

record proxy_request =
  rq_session :: string
  rq_domain :: string
  rq_port :: nat
  rq_protocol :: network_protocol
  rq_method :: "string option"
  rq_url :: "string option"

record audit_entry =
  au_request :: proxy_request
  au_outcome :: filter_outcome
  au_bytes_sent :: nat
  au_bytes_received :: nat
  au_error :: "string option"
  au_source :: "approval_source option"

definition read_request :: "string \<Rightarrow> string \<Rightarrow> string + proxy_request" where
  "read_request peer line =
     (let line = trim_end_by is_whitespace line in
      if line = [] then Inl ''empty request''
      else
        (case split_whitespace line of
           verb # target # _ \<Rightarrow>
             if eq_ignore_ascii_case verb ''CONNECT'' then
               (case parse_host_port target of (domain, port) \<Rightarrow>
                  Inr \<lparr>rq_session = peer, rq_domain = domain, rq_port = port, rq_protocol = HttpConnect,
                    rq_method = None, rq_url = None\<rparr>)
             else
               Inr \<lparr>rq_session = peer, rq_domain = extract_host_from_url target, rq_port = extract_port_from_url target,
                 rq_protocol = HttpForward, rq_method = Some verb, rq_url = Some target\<rparr>
         | _ \<Rightarrow> Inl ''malformed request line''))"

definition refused_entry :: "proxy_request \<Rightarrow> filter_outcome \<Rightarrow> audit_entry" where
  "refused_entry rq outcome = \<lparr>au_request = rq, au_outcome = outcome, au_bytes_sent = 0, au_bytes_received = 0,
     au_error = None, au_source = None\<rparr>"

text \<open>What a handler does after the check: refuse, wait for the owner, or connect to the domain.\<close>

datatype handling = Refuse audit_entry | AwaitDecision | ConnectTo approval_source

definition after_check :: "proxy_request \<Rightarrow> filter_action \<times> approval_source option \<Rightarrow> handling" where
  "after_check rq checked =
     (case checked of
        (FilterAllow, source) \<Rightarrow> ConnectTo (unwrap_or source SourceConfig)
      | (FilterDeny, _) \<Rightarrow> Refuse (refused_entry rq OutcomeDenied)
      | (NeedsDomainApproval, _) \<Rightarrow> AwaitDecision)"

definition after_decision :: "proxy_request \<Rightarrow> domain_decision \<Rightarrow> handling" where
  "after_decision rq decision =
     (case decision of
        DomainApproved \<Rightarrow> ConnectTo SourceUserPrompt
      | DomainDenied \<Rightarrow> Refuse (refused_entry rq OutcomeDenied)
      | DomainTimeout \<Rightarrow> Refuse (refused_entry rq OutcomeTimeout))"

text \<open>The entry of a connection to the domain, after it has ended: the bytes in both directions, or the error
  of connecting.\<close>

definition upstream_entry :: "proxy_request \<Rightarrow> approval_source \<Rightarrow> string option \<Rightarrow> nat \<Rightarrow> nat \<Rightarrow> audit_entry" where
  "upstream_entry rq source error sent received =
     \<lparr>au_request = rq, au_outcome = (if source = SourceUserPrompt then OutcomeApprovedByUser else OutcomeAllowed),
      au_bytes_sent = sent, au_bytes_received = received, au_error = error, au_source = Some source\<rparr>"

section \<open>The proxy as a machine\<close>

text \<open>\<open>waiting\<close> holds the requests whose connections wait for a decision, by channel; \<open>upstream\<close> the
  connections made to domains.\<close>

record proxy =
  manager :: domain_manager
  waiting :: "(nat \<times> proxy_request) list"
  upstream :: "(proxy_request \<times> approval_source) list"
  refused :: "audit_entry list"

definition new_proxy :: "string list \<Rightarrow> proxy" where
  "new_proxy allowed = \<lparr>manager = new_manager allowed, waiting = [], upstream = [], refused = []\<rparr>"

text \<open>A client sends its request line; the owner resolves a request, trusts or distrusts a domain; a wait runs
  out, or its channel is closed.\<close>

datatype proxy_event =
    ClientRequest ip string string string nat
  | OwnerResolves string domain_decision
  | WaitEnds nat
  | Trust string string
  | Distrust string string

definition carry_out :: "proxy_request \<Rightarrow> handling \<Rightarrow> proxy \<Rightarrow> proxy" where
  "carry_out rq h s =
     (case h of
        Refuse e \<Rightarrow> s\<lparr>refused := e # refused s\<rparr>
      | AwaitDecision \<Rightarrow> s
      | ConnectTo source \<Rightarrow> s\<lparr>upstream := (rq, source) # upstream s\<rparr>)"

definition client_request :: "ip \<Rightarrow> string \<Rightarrow> string \<Rightarrow> string \<Rightarrow> nat \<Rightarrow> proxy \<Rightarrow> proxy" where
  "client_request peer_ip peer line rid tx s =
     (if \<not> is_private_or_loopback peer_ip then s
      else
        (case read_request peer line of
           Inl _ \<Rightarrow> s
         | Inr rq \<Rightarrow>
             (case after_check rq (check_domain_with_source (manager s) (rq_session rq) (rq_domain rq)) of
                AwaitDecision \<Rightarrow>
                  s\<lparr>manager := create_domain_request (manager s) rid tx (rq_session rq) (rq_domain rq),
                    waiting := (tx, rq) # waiting s\<rparr>
              | h \<Rightarrow> carry_out rq h s)))"

definition decided :: "nat \<Rightarrow> domain_decision \<Rightarrow> proxy \<Rightarrow> proxy" where
  "decided tx decision s =
     (case map_of (waiting s) tx of
        None \<Rightarrow> s
      | Some rq \<Rightarrow> carry_out rq (after_decision rq decision) (s\<lparr>waiting := filter (\<lambda>(t, _). t \<noteq> tx) (waiting s)\<rparr>))"

fun proxy_step :: "proxy \<Rightarrow> proxy_event \<Rightarrow> proxy" where
  "proxy_step s (ClientRequest peer_ip peer line rid tx) = client_request peer_ip peer line rid tx s"
| "proxy_step s (OwnerResolves rid decision) =
     (case resolve_domain (manager s) rid decision of
        (m, delivered) \<Rightarrow>
          (case delivered of
             None \<Rightarrow> s\<lparr>manager := m\<rparr>
           | Some (tx, d) \<Rightarrow> decided tx (wait_for_domain (Some (Some d))) (s\<lparr>manager := m\<rparr>)))"
| "proxy_step s (WaitEnds tx) = decided tx (wait_for_domain None) s"
| "proxy_step s (Trust session domain) = s\<lparr>manager := add_trusted_domain (manager s) session domain\<rparr>"
| "proxy_step s (Distrust session domain) = s\<lparr>manager := remove_trusted_domain (manager s) session domain\<rparr>"

section \<open>Lemmas\<close>

lemma set_set_insert [simp]: "set (set_insert x xs) = insert x (set xs)"
  by (auto simp: set_insert_def)

definition trusted :: "domain_manager \<Rightarrow> string \<Rightarrow> string set" where
  "trusted m session = (case map_of (session_allowlist m) session of Some ds \<Rightarrow> set ds | None \<Rightarrow> {})"

lemma trusted_add [simp]:
  "trusted (add_trusted_domain m session d) s =
     (if s = session then insert (to_lowercase d) (trusted m s) else trusted m s)"
  by (auto simp: trusted_def add_trusted_domain_def update_conv' split: option.splits)

lemma trusted_remove [simp]:
  "trusted (remove_trusted_domain m session d) s = (if s = session then trusted m s - {to_lowercase d} else trusted m s)"
  by (auto simp: trusted_def remove_trusted_domain_def update_conv' split: option.splits)

lemma trusted_create [simp]: "trusted (create_domain_request m rid tx session d) s = trusted m s"
  by (simp add: trusted_def create_domain_request_def)

lemma trusted_pending [simp]: "trusted (m\<lparr>pending_domains := ps\<rparr>) s = trusted m s"
  by (simp add: trusted_def)

lemma config_kept [simp]:
  "config_allowlist (add_trusted_domain m s d) = config_allowlist m"
  "config_allowlist (remove_trusted_domain m s d) = config_allowlist m"
  "config_allowlist (create_domain_request m rid tx s d) = config_allowlist m"
  "config_allowlist (fst (resolve_domain m rid dec)) = config_allowlist m"
  by (simp_all add: add_trusted_domain_def remove_trusted_domain_def create_domain_request_def resolve_domain_def Let_def
    split: option.splits)

lemma pending_kept [simp]:
  "pending_domains (add_trusted_domain m s d) = pending_domains m"
  "pending_domains (remove_trusted_domain m s d) = pending_domains m"
  by (simp_all add: add_trusted_domain_def remove_trusted_domain_def split: option.splits)

text \<open>The check, as the three sources of a permission.\<close>

definition config_permits :: "domain_pattern list \<Rightarrow> string \<Rightarrow> bool" where
  "config_permits ps domain \<longleftrightarrow> ps = [] \<or> (\<exists>p\<in>set ps. pattern_matches p domain)"

lemma check_domain_exact:
  "check_domain_with_source m session domain =
     (if config_permits (config_allowlist m) domain then (FilterAllow, Some SourceConfig)
      else if to_lowercase domain \<in> trusted m session then (FilterAllow, Some SourceSession)
      else (NeedsDomainApproval, None))"
  by (auto simp: check_domain_with_source_def config_permits_def trusted_def list_ex_iff split: option.splits)

text \<open>A pattern with a wildcard matches the domain behind it as well as its subdomains.\<close>

lemma wildcard_matches_apex: "pattern_matches (parse_pattern ''*.github.com'') ''github.com''"
  by code_simp

text \<open>An IPv6 address without a port loses its last part to the port.\<close>

lemma ipv6_target_split: "parse_host_port ''[::1]'' = (''[:'', 443)"
  by code_simp

text \<open>The scheme is only recognised in lower case.\<close>

lemma upper_case_scheme: "extract_host_from_url ''HTTP://example.org/x'' = ''HTTP''"
  by code_simp

text \<open>A request whose wait is over stays pending, and approving it later still trusts the domain.\<close>

lemma timed_out_request_stays:
  assumes "map_of (pending_domains (manager s)) rid = Some p"
  shows "map_of (pending_domains (manager (proxy_step s (WaitEnds tx)))) rid = Some p"
    and "to_lowercase (pd_domain p) \<in>
      trusted (fst (resolve_domain (manager (proxy_step s (WaitEnds tx))) rid DomainApproved)) (pd_session p)"
  using assms
  by (auto simp: decided_def wait_for_domain_def after_decision_def carry_out_def resolve_domain_def Let_def split: option.splits)

section \<open>Runs\<close>

text \<open>Identifiers and channels are not used twice while in use.\<close>

fun fresh_ids :: "proxy \<Rightarrow> proxy_event \<Rightarrow> bool" where
  "fresh_ids s (ClientRequest _ _ _ rid tx) =
     (map_of (pending_domains (manager s)) rid = None \<and> tx \<notin> fst ` set (waiting s) \<and>
      (\<forall>(r, p)\<in>set (pending_domains (manager s)). pd_tx p \<noteq> tx))"
| "fresh_ids s _ = True"

text \<open>What has happened: a client of a private address asked for something; the owner approved what had been
  asked; a domain was trusted for a session, by approval or outright.\<close>

definition asked_in :: "proxy_event list \<Rightarrow> proxy_request \<Rightarrow> string \<Rightarrow> bool" where
  "asked_in es rq rid \<longleftrightarrow>
     (\<exists>xs ys p peer line tx. es = xs @ ClientRequest p peer line rid tx # ys \<and> is_private_or_loopback p \<and>
        read_request peer line = Inr rq)"

definition domain_approved_in :: "proxy_event list \<Rightarrow> proxy_request \<Rightarrow> bool" where
  "domain_approved_in es rq \<longleftrightarrow> (\<exists>xs ys rid. es = xs @ OwnerResolves rid DomainApproved # ys \<and> asked_in xs rq rid)"

definition trusted_in :: "proxy_event list \<Rightarrow> string \<Rightarrow> string \<Rightarrow> bool" where
  "trusted_in es session d \<longleftrightarrow>
     (\<exists>dom. Trust session dom \<in> set es \<and> to_lowercase dom = d) \<or>
     (\<exists>rq. domain_approved_in es rq \<and> rq_session rq = session \<and> to_lowercase (rq_domain rq) = d)"

lemma asked_in_snoc [intro]: "asked_in es rq rid \<Longrightarrow> asked_in (es @ [e]) rq rid"
  unfolding asked_in_def by fastforce

lemma asked_in_last: "is_private_or_loopback p \<Longrightarrow> read_request peer line = Inr rq \<Longrightarrow> asked_in (es @ [ClientRequest p peer line rid tx]) rq rid"
  unfolding asked_in_def by blast

lemma domain_approved_in_snoc [intro]: "domain_approved_in es rq \<Longrightarrow> domain_approved_in (es @ [e]) rq"
  unfolding domain_approved_in_def by fastforce

lemma domain_approved_in_last: "asked_in es rq rid \<Longrightarrow> domain_approved_in (es @ [OwnerResolves rid DomainApproved]) rq"
  unfolding domain_approved_in_def by blast

lemma trusted_in_snoc [intro]: "trusted_in es s d \<Longrightarrow> trusted_in (es @ [e]) s d"
  unfolding trusted_in_def by fastforce

definition permission :: "string list \<Rightarrow> proxy_event list \<Rightarrow> proxy_request \<Rightarrow> approval_source \<Rightarrow> bool" where
  "permission allowed es rq source =
     (case source of
        SourceConfig \<Rightarrow> config_permits (map parse_pattern allowed) (rq_domain rq)
      | SourceSession \<Rightarrow> trusted_in es (rq_session rq) (to_lowercase (rq_domain rq))
      | SourceUserPrompt \<Rightarrow> domain_approved_in es rq)"

lemma permission_snoc [intro]: "permission allowed es rq source \<Longrightarrow> permission allowed (es @ [e]) rq source"
  by (auto simp: permission_def split: approval_source.splits)

definition proxy_inv :: "string list \<Rightarrow> proxy_event list \<Rightarrow> proxy \<Rightarrow> bool" where
  "proxy_inv allowed es s \<longleftrightarrow>
     config_allowlist (manager s) = map parse_pattern allowed \<and>
     distinct (map fst (waiting s)) \<and>
     (\<forall>session d. d \<in> trusted (manager s) session \<longrightarrow> trusted_in es session d) \<and>
     (\<forall>(rid, p)\<in>set (pending_domains (manager s)).
        (\<exists>rq. asked_in es rq rid \<and> rq_session rq = pd_session p \<and> rq_domain rq = pd_domain p) \<and>
        (\<forall>rq. (pd_tx p, rq) \<in> set (waiting s) \<longrightarrow> asked_in es rq rid)) \<and>
     (\<forall>(rq, source)\<in>set (upstream s). (\<exists>rid. asked_in es rq rid) \<and> permission allowed es rq source)"

text \<open>A new connection that is permitted keeps the invariant, and so does a refusal.\<close>

lemma proxy_inv_later:
  assumes "proxy_inv allowed es s"
  shows "proxy_inv allowed (es @ [e]) s"
  using assms unfolding proxy_inv_def by fast

lemma proxy_inv_carry_out:
  assumes "proxy_inv allowed es s" "\<And>source. h = ConnectTo source \<Longrightarrow> (\<exists>rid. asked_in es rq rid) \<and> permission allowed es rq source"
  shows "proxy_inv allowed es (carry_out rq h s)"
  using assms unfolding proxy_inv_def by (cases h) (auto simp: carry_out_def)

lemma proxy_inv_decided:
  assumes "proxy_inv allowed es s" "\<And>rq. (tx, rq) \<in> set (waiting s) \<Longrightarrow> d = DomainApproved \<Longrightarrow> domain_approved_in es rq"
  shows "proxy_inv allowed es (decided tx d s)"
proof (cases "map_of (waiting s) tx")
  case None
  then show ?thesis using assms(1) by (simp add: decided_def)
next
  case (Some rq)
  let ?s = "s\<lparr>waiting := filter (\<lambda>(t, _). t \<noteq> tx) (waiting s)\<rparr>"
  have inv: "proxy_inv allowed es ?s"
    using assms(1) unfolding proxy_inv_def by (auto simp: distinct_map inj_on_def)
  have mem: "(tx, rq) \<in> set (waiting s)" using Some by (rule map_of_SomeD)
  have "proxy_inv allowed es (carry_out rq (after_decision rq d) ?s)"
  proof (rule proxy_inv_carry_out [OF inv])
    fix source assume "after_decision rq d = ConnectTo source"
    then have "source = SourceUserPrompt" "domain_approved_in es rq"
      using assms(2) [OF mem] by (auto simp: after_decision_def split: domain_decision.splits)
    then show "(\<exists>rid. asked_in es rq rid) \<and> permission allowed es rq source"
      by (auto simp: permission_def domain_approved_in_def asked_in_def) fastforce
  qed
  then show ?thesis using Some by (simp add: decided_def)
qed

lemma proxy_inv_client:
  assumes inv: "proxy_inv allowed es s" and fresh: "fresh_ids s (ClientRequest pr peer line rid tx)"
  shows "proxy_inv allowed (es @ [ClientRequest pr peer line rid tx]) (client_request pr peer line rid tx s)"
proof (cases "is_private_or_loopback pr \<and> (\<exists>rq. read_request peer line = Inr rq)")
  case False
  then have "client_request pr peer line rid tx s = s" by (auto simp: client_request_def split: sum.splits)
  then show ?thesis using proxy_inv_later [OF inv] by simp
next
  case True
  then obtain rq where rq: "is_private_or_loopback pr" "read_request peer line = Inr rq" by blast
  let ?es = "es @ [ClientRequest pr peer line rid tx]"
  let ?h = "after_check rq (check_domain_with_source (manager s) (rq_session rq) (rq_domain rq))"
  have asked: "asked_in ?es rq rid" using rq by (rule asked_in_last)
  note later = proxy_inv_later [OF inv, of "ClientRequest pr peer line rid tx"]
  show ?thesis
  proof (cases "?h = AwaitDecision")
    case True
    have new: "map_of (pending_domains (manager s)) rid = None" "tx \<notin> fst ` set (waiting s)"
        "\<And>r p. (r, p) \<in> set (pending_domains (manager s)) \<Longrightarrow> pd_tx p \<noteq> tx"
      using fresh by auto
    have "proxy_inv allowed ?es
      (s\<lparr>manager := create_domain_request (manager s) rid tx (rq_session rq) (rq_domain rq), waiting := (tx, rq) # waiting s\<rparr>)"
      (is "proxy_inv allowed ?es ?s'")
    proof -
      have pend: "set (pending_domains (manager ?s')) \<subseteq>
          insert (rid, \<lparr>pd_tx = tx, pd_domain = rq_domain rq, pd_session = rq_session rq\<rparr>) (set (pending_domains (manager s)))"
        by (auto simp: create_domain_request_def dest!: set_alist_updateD)
      have "(\<exists>rq. asked_in ?es rq r \<and> rq_session rq = pd_session p \<and> rq_domain rq = pd_domain p) \<and>
          (\<forall>rq. (pd_tx p, rq) \<in> set (waiting ?s') \<longrightarrow> asked_in ?es rq r)"
        if "(r, p) \<in> set (pending_domains (manager ?s'))" for r p
      proof (cases "(r, p) \<in> set (pending_domains (manager s))")
        case True
        then show ?thesis using later new(3) [OF True] unfolding proxy_inv_def by auto
      next
        case False
        then have "r = rid" "p = \<lparr>pd_tx = tx, pd_domain = rq_domain rq, pd_session = rq_session rq\<rparr>"
          using pend that by auto
        then show ?thesis using asked new(2) by force
      qed
      then show ?thesis using later new(2) unfolding proxy_inv_def by auto
    qed
    then show ?thesis using rq True by (simp add: client_request_def)
  next
    case False
    have "proxy_inv allowed ?es (carry_out rq ?h s)"
    proof (rule proxy_inv_carry_out [OF later])
      fix source assume h: "?h = ConnectTo source"
      have "permission allowed ?es rq source"
        using h later
        by (auto simp: after_check_def check_domain_exact unwrap_or_def permission_def proxy_inv_def split: if_splits)
      then show "(\<exists>rid. asked_in ?es rq rid) \<and> permission allowed ?es rq source" using asked by blast
    qed
    moreover have "client_request pr peer line rid tx s = carry_out rq ?h s"
      using rq False by (cases ?h) (auto simp: client_request_def)
    ultimately show ?thesis by simp
  qed
qed

lemma proxy_inv_resolve:
  assumes inv: "proxy_inv allowed es s"
  shows "proxy_inv allowed (es @ [OwnerResolves rid d]) (proxy_step s (OwnerResolves rid d))"
proof (cases "map_of (pending_domains (manager s)) rid")
  case None
  then show ?thesis using proxy_inv_later [OF inv] by (simp add: resolve_domain_def)
next
  case (Some p)
  let ?es = "es @ [OwnerResolves rid d]"
  let ?m = "fst (resolve_domain (manager s) rid d)"
  have mem: "(rid, p) \<in> set (pending_domains (manager s))" using Some by (rule map_of_SomeD)
  obtain rq where rq: "asked_in es rq rid" "rq_session rq = pd_session p" "rq_domain rq = pd_domain p"
    using inv mem unfolding proxy_inv_def by blast
  have sub: "set (pending_domains ?m) \<subseteq> set (pending_domains (manager s))"
    using Some by (auto simp: resolve_domain_def Let_def AList.delete_eq)
  have tr: "x \<in> trusted ?m session \<Longrightarrow> trusted_in ?es session x" for x session
  proof -
    assume "x \<in> trusted ?m session"
    then have "x \<in> trusted (manager s) session \<or> d = DomainApproved \<and> session = pd_session p \<and> x = to_lowercase (pd_domain p)"
      using Some by (auto simp: resolve_domain_def Let_def split: if_splits)
    then show ?thesis
    proof
      assume "x \<in> trusted (manager s) session"
      then have "trusted_in es session x" using inv unfolding proxy_inv_def by blast
      then show ?thesis by (rule trusted_in_snoc)
    next
      assume "d = DomainApproved \<and> session = pd_session p \<and> x = to_lowercase (pd_domain p)"
      then show ?thesis using domain_approved_in_last [OF rq(1)] rq(2,3) unfolding trusted_in_def by auto
    qed
  qed
  have "proxy_inv allowed ?es (s\<lparr>manager := ?m\<rparr>)"
    using proxy_inv_later [OF inv, of "OwnerResolves rid d"] sub tr unfolding proxy_inv_def by (simp, blast)
  moreover have "d = DomainApproved \<Longrightarrow> (pd_tx p, r) \<in> set (waiting s) \<Longrightarrow> domain_approved_in ?es r" for r
  proof -
    assume "d = DomainApproved" "(pd_tx p, r) \<in> set (waiting s)"
    then have "asked_in es r rid" using inv mem unfolding proxy_inv_def by blast
    with \<open>d = DomainApproved\<close> show ?thesis using domain_approved_in_last by blast
  qed
  ultimately have "proxy_inv allowed ?es (decided (pd_tx p) d (s\<lparr>manager := ?m\<rparr>))"
    by (intro proxy_inv_decided) simp_all
  moreover have "proxy_step s (OwnerResolves rid d) = decided (pd_tx p) d (s\<lparr>manager := ?m\<rparr>)"
    using Some by (simp add: resolve_domain_def Let_def wait_for_domain_def)
  ultimately show ?thesis by simp
qed

lemma proxy_inv_step:
  assumes inv: "proxy_inv allowed es s" and fresh: "fresh_ids s e"
  shows "proxy_inv allowed (es @ [e]) (proxy_step s e)"
proof (cases e)
  case (ClientRequest pr peer line rid tx)
  then show ?thesis using proxy_inv_client [OF inv] fresh by simp
next
  case (OwnerResolves rid d)
  then show ?thesis using proxy_inv_resolve [OF inv] by simp
next
  case (WaitEnds tx)
  then show ?thesis
    using proxy_inv_decided [OF proxy_inv_later [OF inv], of tx DomainTimeout e] by (simp add: wait_for_domain_def)
next
  case (Trust session d)
  then have "trusted_in (es @ [e]) session (to_lowercase d)" by (auto simp: trusted_in_def)
  then show ?thesis
    using proxy_inv_later [OF inv, of e] Trust unfolding proxy_inv_def by simp
next
  case (Distrust session d)
  then show ?thesis using proxy_inv_later [OF inv, of e] unfolding proxy_inv_def by simp
qed

lemma proxy_inv_run:
  "proxy_inv allowed ds s \<Longrightarrow> guarded_run fresh_ids proxy_step s es \<Longrightarrow> proxy_inv allowed (ds @ es) (foldl proxy_step s es)"
proof (induction es arbitrary: ds s)
  case (Cons e es)
  then show ?case using Cons.IH [OF proxy_inv_step] by fastforce
qed simp

lemma proxy_inv_new: "proxy_inv allowed [] (new_proxy allowed)"
  by (simp add: proxy_inv_def new_proxy_def new_manager_def trusted_def)

section \<open>Properties\<close>

text \<open>C19: the proxy connects only where it is allowed to. In every run, whatever clients ask, owners answer and
  waits run out, each connection to a domain was asked for by a client with a private address, and its
  domain matches the configuration (an empty one permits everything), or was trusted before for the
  client's session, or the owner approved this very request; without any of them a request is refused or
  still waits.\<close>

theorem proxy_connects_only_where_permitted:
  assumes "guarded_run fresh_ids proxy_step (new_proxy allowed) es"
    and "(rq, source) \<in> set (upstream (foldl proxy_step (new_proxy allowed) es))"
  shows "(\<exists>rid. asked_in es rq rid) \<and>
    (case source of
       SourceConfig \<Rightarrow> allowed = [] \<or> (\<exists>a\<in>set allowed. pattern_matches (parse_pattern a) (rq_domain rq))
     | SourceSession \<Rightarrow> trusted_in es (rq_session rq) (to_lowercase (rq_domain rq))
     | SourceUserPrompt \<Rightarrow> domain_approved_in es rq)"
proof -
  have "proxy_inv allowed es (foldl proxy_step (new_proxy allowed) es)"
    using proxy_inv_run [OF proxy_inv_new assms(1)] by simp
  with assms(2) have "(\<exists>rid. asked_in es rq rid) \<and> permission allowed es rq source"
    unfolding proxy_inv_def by blast
  then show ?thesis by (cases source) (simp_all add: permission_def config_permits_def)
qed

definition example_run :: "proxy_event list" where
  "example_run =
     [ClientRequest (Ip4 172 17 0 2) ''c1'' ''CONNECT api.example.org HTTP/1.1'' ''r1'' 1,
      OwnerResolves ''r1'' DomainApproved]"

lemma example_request:
  "read_request ''c1'' ''CONNECT api.example.org HTTP/1.1'' =
     Inr \<lparr>rq_session = ''c1'', rq_domain = ''api.example.org'', rq_port = 443, rq_protocol = HttpConnect,
       rq_method = None, rq_url = None\<rparr>"
proof -
  have "trim_end_by is_whitespace ''CONNECT api.example.org HTTP/1.1'' = ''CONNECT api.example.org HTTP/1.1''"
    "split_whitespace ''CONNECT api.example.org HTTP/1.1'' = [''CONNECT'', ''api.example.org'', ''HTTP/1.1'']"
    "eq_ignore_ascii_case ''CONNECT'' ''CONNECT''" "rsplit_once CHR '':'' ''api.example.org'' = None"
    by code_simp+
  then show ?thesis by (simp add: read_request_def parse_host_port_def)
qed

lemma example_outcome:
  "guarded_run fresh_ids proxy_step (new_proxy [''github.com'']) example_run"
  "upstream (foldl proxy_step (new_proxy [''github.com'']) example_run) =
     [(\<lparr>rq_session = ''c1'', rq_domain = ''api.example.org'', rq_port = 443, rq_protocol = HttpConnect,
        rq_method = None, rq_url = None\<rparr>, SourceUserPrompt)]"
proof -
  let ?rq = "\<lparr>rq_session = ''c1'', rq_domain = ''api.example.org'', rq_port = 443, rq_protocol = HttpConnect,
        rq_method = None, rq_url = None\<rparr>"
  let ?s = "new_proxy [''github.com'']"
  let ?s1 = "?s\<lparr>manager := create_domain_request (manager ?s) ''r1'' 1 ''c1'' ''api.example.org'', waiting := [(1, ?rq)]\<rparr>"
  have "check_domain_with_source (new_manager [''github.com'']) ''c1'' ''api.example.org'' = (NeedsDomainApproval, None)"
    by code_simp
  moreover have "is_private_or_loopback (Ip4 172 17 0 2)" by (simp add: is_private_or_loopback_def)
  ultimately have step1: "proxy_step ?s (ClientRequest (Ip4 172 17 0 2) ''c1'' ''CONNECT api.example.org HTTP/1.1'' ''r1'' 1) = ?s1"
    by (simp add: client_request_def example_request after_check_def new_proxy_def)
  have "map_of (pending_domains (manager ?s1)) ''r1'' =
      Some \<lparr>pd_tx = 1, pd_domain = ''api.example.org'', pd_session = ''c1''\<rparr>"
    by (simp add: create_domain_request_def new_proxy_def update_conv')
  then have "upstream (proxy_step ?s1 (OwnerResolves ''r1'' DomainApproved)) = [(?rq, SourceUserPrompt)]"
    by (simp add: resolve_domain_def Let_def decided_def after_decision_def carry_out_def wait_for_domain_def new_proxy_def)
  with step1 show "upstream (foldl proxy_step ?s example_run) = [(?rq, SourceUserPrompt)]"
    by (simp only: example_run_def foldl.simps)
  show "guarded_run fresh_ids proxy_step ?s example_run"
    by (simp add: example_run_def del: proxy_step.simps) (simp add: new_proxy_def new_manager_def)
qed

theorem proxy_connects_only_where_permitted_witness:
  "domain_approved_in example_run \<lparr>rq_session = ''c1'', rq_domain = ''api.example.org'', rq_port = 443,
     rq_protocol = HttpConnect, rq_method = None, rq_url = None\<rparr>"
  using proxy_connects_only_where_permitted [OF example_outcome(1), unfolded example_outcome(2)] by simp

end
