(* ===== verification/Network_Audit.thy ===== *)
theory Network_Audit
  imports Network_Filter
begin

text \<open>
  The audit log of the proxy (\<open>crates/network-filter/src/buffer.rs\<close>): the ring buffer in memory, the lines in
  the file, queries and statistics. The file is the list of entries its lines parse to; the broadcast
  to subscribers is left out.
\<close>

section \<open>Queries\<close>

record audit_filter =
  af_domain :: "string option"
  af_protocol :: "network_protocol option"
  af_action :: "filter_outcome option"
  af_search :: "string option"

definition search_hit :: "string \<Rightarrow> audit_entry \<Rightarrow> bool" where
  "search_hit q e =
     (let q_lower = to_lowercase q; rq = au_request e in
      contains_sub (to_lowercase (rq_domain rq)) q_lower \<or>
      (case rq_url rq of Some u \<Rightarrow> contains_sub (to_lowercase u) q_lower | None \<Rightarrow> False) \<or>
      (case rq_method rq of Some m \<Rightarrow> contains_sub (to_lowercase m) q_lower | None \<Rightarrow> False) \<or>
      contains_sub (to_lowercase (rq_session rq)) q_lower)"

definition audit_matches :: "audit_filter \<Rightarrow> audit_entry \<Rightarrow> bool" where
  "audit_matches f e \<longleftrightarrow>
     (case af_domain f of
        Some d \<Rightarrow> d = [] \<or> contains_sub (to_lowercase (rq_domain (au_request e))) (to_lowercase d)
      | None \<Rightarrow> True) \<and>
     (case af_protocol f of Some p \<Rightarrow> rq_protocol (au_request e) = p | None \<Rightarrow> True) \<and>
     (case af_action f of Some a \<Rightarrow> au_outcome e = a | None \<Rightarrow> True) \<and>
     (case af_search f of Some q \<Rightarrow> q = [] \<or> search_hit q e | None \<Rightarrow> True)"

section \<open>The buffer\<close>

record audit_buffer =
  ring :: "audit_entry list"
  ring_capacity :: nat
  log_file :: "audit_entry list option"

definition new_buffer :: "nat \<Rightarrow> audit_buffer" where
  "new_buffer capacity = \<lparr>ring = [], ring_capacity = capacity, log_file = None\<rparr>"

definition enable_persistence :: "audit_entry list \<Rightarrow> audit_buffer \<Rightarrow> audit_buffer" where
  "enable_persistence old b = b\<lparr>log_file := Some old\<rparr>"

definition push_ring :: "nat \<Rightarrow> 'a list \<Rightarrow> 'a \<Rightarrow> 'a list" where
  "push_ring capacity buf x = (if capacity \<le> length buf then tl buf else buf) @ [x]"

definition push_entry :: "audit_entry \<Rightarrow> audit_buffer \<Rightarrow> audit_buffer" where
  "push_entry e b = b\<lparr>log_file := map_option (\<lambda>l. l @ [e]) (log_file b), ring := push_ring (ring_capacity b) (ring b) e\<rparr>"

definition list_entries :: "audit_filter \<Rightarrow> nat \<Rightarrow> audit_buffer \<Rightarrow> audit_entry list" where
  "list_entries f limit b = rev (take limit (filter (audit_matches f) (rev (ring b))))"

definition list_from_file :: "audit_filter \<Rightarrow> nat \<Rightarrow> audit_buffer \<Rightarrow> audit_entry list" where
  "list_from_file f limit b =
     (case log_file b of
        None \<Rightarrow> []
      | Some entries \<Rightarrow> foldl (\<lambda>acc e. if audit_matches f e then push_ring limit acc e else acc) [] entries)"

section \<open>Statistics\<close>

record audit_stats =
  total :: nat
  allowed :: nat
  denied :: nat
  by_domain :: "(string \<times> nat) list"

text \<open>The order of a hash map is unspecified; here it is that of first occurrence.\<close>

definition count_domain :: "(string \<times> nat) list \<Rightarrow> audit_entry \<Rightarrow> (string \<times> nat) list" where
  "count_domain counts e =
     (let d = rq_domain (au_request e) in
      AList.update d (unwrap_or (map_of counts d) 0 + 1) counts)"

definition is_allowed_outcome :: "filter_outcome \<Rightarrow> bool" where
  "is_allowed_outcome a \<longleftrightarrow> a = OutcomeAllowed \<or> a = OutcomeApprovedByUser"

definition stats :: "audit_buffer \<Rightarrow> audit_stats" where
  "stats b =
     \<lparr>total = length (ring b),
      allowed = length (filter (\<lambda>e. is_allowed_outcome (au_outcome e)) (ring b)),
      denied = length (filter (\<lambda>e. \<not> is_allowed_outcome (au_outcome e)) (ring b)),
      by_domain = take 20 (sort_key (\<lambda>(_, n). - int n) (foldl count_domain [] (ring b)))\<rparr>"

section \<open>Lemmas\<close>

lemma last_n_snoc: "last_n (Suc n) (xs @ [x]) = last_n n xs @ [x]"
  by (simp add: last_n_def)

lemma push_ring_last_n: "0 < n \<Longrightarrow> push_ring n (last_n n xs) x = last_n n (xs @ [x])"
proof (cases "length xs < n")
  case False
  assume n: "0 < n"
  have "length xs + 1 - n = Suc (length xs - n)" using False by simp
  then have "drop (length xs + 1 - n) xs = tl (drop (length xs - n) xs)" by (simp add: tl_drop drop_Suc)
  then show ?thesis using False n by (simp add: push_ring_def last_n_def)
qed (simp add: push_ring_def last_n_def)

lemma fold_push_ring: "0 < n \<Longrightarrow> foldl (push_ring n) [] xs = last_n n xs"
proof (induction xs rule: rev_induct)
  case Nil
  then show ?case by (simp add: last_n_def)
next
  case (snoc x xs)
  then show ?case by (simp add: push_ring_last_n)
qed

lemma foldl_filter: "foldl (\<lambda>acc e. if P e then f acc e else acc) a xs = foldl f a (filter P xs)"
  by (induction xs arbitrary: a) auto

lemma rev_take_filter_rev: "rev (take n (filter P (rev xs))) = last_n n (filter P xs)"
  by (simp add: last_n_def rev_filter [symmetric] take_rev)

lemma push_entry_ring:
  "ring (foldl (\<lambda>b e. push_entry e b) b es) = foldl (push_ring (ring_capacity b)) (ring b) es"
  "log_file (foldl (\<lambda>b e. push_entry e b) b es) = map_option (\<lambda>l. l @ es) (log_file b)"
proof (induction es arbitrary: b)
  case Nil
  case 1 show ?case by simp
  case 2 show ?case by (simp add: option.map_ident)
next
  case (Cons e es)
  case 1 show ?case by (simp add: Cons.IH(1)) (simp add: push_entry_def)
  case 2 show ?case by (simp add: Cons.IH(2)) (simp add: push_entry_def option.map_comp comp_def)
qed

section \<open>Properties\<close>

text \<open>The log keeps the latest entries and a query finds the latest that match. After any entries, the
  ring holds the last ones up to its capacity, a query gives the last \<open>limit\<close> matching ones of the ring in
  their order, the file keeps every entry since persistence was enabled and its query gives the last
  \<open>limit\<close> matching ones of all; so as long as nothing was dropped the two queries agree.\<close>

theorem audit_log_keeps_latest:
  assumes "0 < capacity" "0 < limit" "b = foldl (\<lambda>b e. push_entry e b) (enable_persistence [] (new_buffer capacity)) es"
  shows "ring b = last_n capacity es \<and>
    list_entries f limit b = last_n limit (filter (audit_matches f) (last_n capacity es)) \<and>
    list_from_file f limit b = last_n limit (filter (audit_matches f) es) \<and>
    (length es \<le> capacity \<longrightarrow> list_entries f limit b = list_from_file f limit b) \<and>
    total (stats b) = min capacity (length es) \<and> allowed (stats b) + denied (stats b) = total (stats b)"
proof -
  have ring: "ring b = last_n capacity es" and file_eq: "log_file b = Some es"
    using assms(1,3) by (simp_all add: push_entry_ring enable_persistence_def new_buffer_def fold_push_ring)
  have entries: "list_entries f limit b = last_n limit (filter (audit_matches f) (last_n capacity es))"
    by (simp add: list_entries_def rev_take_filter_rev ring)
  have from_file: "list_from_file f limit b = last_n limit (filter (audit_matches f) es)"
    using assms(2) by (simp add: list_from_file_def file_eq foldl_filter fold_push_ring)
  have "length (filter P xs) + length (filter (\<lambda>x. \<not> P x) xs) = length xs" for P and xs :: "audit_entry list"
    by (rule sum_length_filter_compl)
  then show ?thesis using ring entries from_file by (auto simp: stats_def last_n_def)
qed

definition example_entry :: audit_entry where
  "example_entry = refused_entry \<lparr>rq_session = ''c1'', rq_domain = ''example.org'', rq_port = 443, rq_protocol = HttpConnect,
     rq_method = None, rq_url = None\<rparr> OutcomeDenied"

theorem audit_log_keeps_latest_witness:
  "ring (foldl (\<lambda>b e. push_entry e b) (enable_persistence [] (new_buffer 2)) [example_entry, example_entry, example_entry]) =
     [example_entry, example_entry]"
proof -
  let ?f = "\<lparr>af_domain = None, af_protocol = None, af_action = None, af_search = None\<rparr>"
  show ?thesis
    using audit_log_keeps_latest [of 2 5 _ "[example_entry, example_entry, example_entry]" ?f] by (simp add: last_n_def)
qed

text \<open>For a limit of zero the query of the file still gives an entry.\<close>

lemma file_query_of_nothing: "list_from_file \<lparr>af_domain = None, af_protocol = None, af_action = None, af_search = None\<rparr> 0
    (enable_persistence [example_entry] (new_buffer 2)) = [example_entry]"
  by (simp add: list_from_file_def enable_persistence_def audit_matches_def push_ring_def)

end
