(* ===== verification/Calc.thy ===== *)
theory Calc
  imports Rust_Text
begin

text \<open>
  The tool \<open>calc\<close> (\<open>crates/tools/src/calc.rs\<close>): tokens, the evaluator by precedence climbing, and its limits.

  The arithmetic of \<open>f64\<close> is the record \<open>calc_floats\<close>. The evaluator of the code moves a position over the
  tokens; here its functions take the tokens left and return those they leave. Where the code goes on
  after a call, \<open>progress\<close> makes it visible that the call consumed a token; it always does
  (\<open>progress_always\<close>), so the equations of the code hold as they are written
  (\<open>parse_expression_eq\<close>, \<open>binary_loop_eq\<close>).
\<close>

section \<open>Operators and tokens\<close>

definition MAX_EXPRESSION_CHARS :: nat where "MAX_EXPRESSION_CHARS = 512"
definition MAX_TOKENS :: nat where "MAX_TOKENS = 256"
definition MAX_AST_DEPTH :: nat where "MAX_AST_DEPTH = 64"
definition MAX_OPERATIONS :: nat where "MAX_OPERATIONS = 512"

datatype operator = Add | Subtract | Multiply | Divide | Modulo | Power

fun precedence :: "operator \<Rightarrow> nat" where
  "precedence Add = 10"
| "precedence Subtract = 10"
| "precedence Multiply = 20"
| "precedence Divide = 20"
| "precedence Modulo = 20"
| "precedence Power = 30"

definition is_right_associative :: "operator \<Rightarrow> bool" where
  "is_right_associative op \<longleftrightarrow> op = Power"

datatype 'f token = Number 'f string | Plus | Minus | Star | Slash | Percent | Caret | LParen | RParen

fun token_repr :: "'f token \<Rightarrow> string" where
  "token_repr (Number v r) = r"
| "token_repr Plus = ''+''"
| "token_repr Minus = ''-''"
| "token_repr Star = ''*''"
| "token_repr Slash = ''/''"
| "token_repr Percent = ''%''"
| "token_repr Caret = ''^''"
| "token_repr LParen = ''(''"
| "token_repr RParen = '')''"

datatype calc_error =
    NonFinite | InvalidNumber | InvalidExponent | UnsupportedCharacter char | TooManyTokens | EmptyExpression
  | DivisionByZero | ModuloByZero | ExponentRange | UnexpectedToken string | TooComplex | TooDeep
  | MissingClose | UnexpectedEnd | TooLong | NotJson | MissingParameter | NoProgress

text \<open>\<open>f_in_range\<close> is finite and at most \<open>MAX_ABS_RESULT\<close> in absolute value, \<open>f_exponent_ok\<close> finite and at most
  \<open>MAX_ABS_EXPONENT\<close>, \<open>f_normal\<close> turns a negative zero into zero, \<open>f_integer\<close> is the value without
  a fraction, if it has none.\<close>

record 'f calc_floats =
  f_parse :: "string \<Rightarrow> 'f option"
  f_in_range :: "'f \<Rightarrow> bool"
  f_normal :: "'f \<Rightarrow> 'f"
  f_is_zero :: "'f \<Rightarrow> bool"
  f_exponent_ok :: "'f \<Rightarrow> bool"
  f_neg :: "'f \<Rightarrow> 'f"
  f_op :: "operator \<Rightarrow> 'f \<Rightarrow> 'f \<Rightarrow> 'f"
  f_is_finite :: "'f \<Rightarrow> bool"
  f_integer :: "'f \<Rightarrow> int option"

definition ensure_finite :: "'f calc_floats \<Rightarrow> 'f \<Rightarrow> calc_error + 'f" where
  "ensure_finite F v = (if \<not> f_in_range F v then Inl NonFinite else Inr (f_normal F v))"

definition digits :: "string \<Rightarrow> string" where
  "digits s = takeWhile is_ascii_digit s"

text \<open>The part before the exponent: its text and whether it has a digit.\<close>

definition mantissa :: "string \<Rightarrow> string \<times> bool" where
  "mantissa s =
     (case s of
        c # cs \<Rightarrow>
          if c = CHR ''.'' then (c # digits cs, digits cs \<noteq> [])
          else
            (let whole = digits s in
             case drop (length whole) s of
               d # ds \<Rightarrow>
                 if d = CHR ''.'' then (whole @ d # digits ds, whole \<noteq> [] \<or> digits ds \<noteq> [])
                 else (whole, whole \<noteq> [])
             | [] \<Rightarrow> (whole, whole \<noteq> []))
      | [] \<Rightarrow> ([], False))"

text \<open>The exponent, empty when there is none.\<close>

definition exponent :: "string \<Rightarrow> calc_error + string" where
  "exponent s =
     (case s of
        e # rest \<Rightarrow>
          if e = CHR ''e'' \<or> e = CHR ''E'' then
            (let sign = (case rest of c # _ \<Rightarrow> if c = CHR ''+'' \<or> c = CHR ''-'' then [c] else [] | [] \<Rightarrow> []);
                 ds = digits (drop (length sign) rest) in
             if ds = [] then Inl InvalidExponent else Inr (e # sign @ ds))
          else Inr []
      | [] \<Rightarrow> Inr [])"

definition parse_number_token :: "'f calc_floats \<Rightarrow> string \<Rightarrow> calc_error + ('f token \<times> string)" where
  "parse_number_token F s =
     (let (m, saw_digit) = mantissa s in
      if \<not> saw_digit then Inl InvalidNumber
      else
        (case exponent (drop (length m) s) of
           Inl e \<Rightarrow> Inl e
         | Inr x \<Rightarrow>
             (let repr = m @ x in
              case f_parse F repr of
                None \<Rightarrow> Inl InvalidNumber
              | Some v \<Rightarrow>
                  (case ensure_finite F v of
                     Inl e \<Rightarrow> Inl e
                   | Inr v \<Rightarrow> Inr (Number v repr, drop (length repr) s)))))"

fun symbol_token :: "char \<Rightarrow> 'f token option" where
  "symbol_token c =
     (if c = CHR ''+'' then Some Plus
      else if c = CHR ''-'' then Some Minus
      else if c = CHR ''*'' then Some Star
      else if c = CHR ''/'' then Some Slash
      else if c = CHR ''%'' then Some Percent
      else if c = CHR ''^'' then Some Caret
      else if c = CHR ''('' then Some LParen
      else if c = CHR '')'' then Some RParen
      else None)"

declare symbol_token.simps [simp del]

definition is_blank :: "char \<Rightarrow> bool" where
  "is_blank c \<longleftrightarrow> c = CHR '' '' \<or> c = tab \<or> c = newline \<or> c = carriage_return"

text \<open>The loop, with the tokens so far; the number of a token is bounded by what it takes from the text.\<close>

lemma mantissa_nonempty: "snd (mantissa s) \<Longrightarrow> fst (mantissa s) \<noteq> []"
  by (cases s) (auto simp: mantissa_def Let_def split: list.splits if_splits)

lemma parse_number_shorter:
  assumes "parse_number_token F s = Inr (t, rest)"
  shows "length rest < length s \<or> s = []"
proof -
  obtain m where m: "mantissa s = (m, True)" "\<exists>x. rest = drop (length (m @ x)) s"
    using assms by (auto simp: parse_number_token_def Let_def split: prod.splits if_splits sum.splits option.splits)
  then have "m \<noteq> []" using mantissa_nonempty [of s] by simp
  then show ?thesis using m by (cases s; cases m) auto
qed

function token_loop :: "'f calc_floats \<Rightarrow> 'f token list \<Rightarrow> string \<Rightarrow> calc_error + 'f token list" where
  "token_loop F acc [] = Inr acc"
| "token_loop F acc (c # cs) =
     (case (if is_blank c then Inr (acc, cs)
            else if is_ascii_digit c \<or> c = CHR ''.'' then
              (case parse_number_token F (c # cs) of Inl e \<Rightarrow> Inl e | Inr (t, rest) \<Rightarrow> Inr (acc @ [t], rest))
            else (case symbol_token c of Some t \<Rightarrow> Inr (acc @ [t], cs) | None \<Rightarrow> Inl (UnsupportedCharacter c))) of
        Inl e \<Rightarrow> Inl e
      | Inr (acc, rest) \<Rightarrow> if MAX_TOKENS < length acc then Inl TooManyTokens else token_loop F acc rest)"
  by pat_completeness auto
termination
  by (relation "measure (\<lambda>(F, acc, s). length s)")
    (auto split: if_splits sum.splits option.splits prod.splits dest: parse_number_shorter)

declare token_loop.simps(2) [simp del]

definition tokenize :: "'f calc_floats \<Rightarrow> string \<Rightarrow> calc_error + 'f token list" where
  "tokenize F expression =
     (case token_loop F [] expression of
        Inl e \<Rightarrow> Inl e
      | Inr ts \<Rightarrow> if ts = [] then Inl EmptyExpression else Inr ts)"

definition normalize_expression :: "'f token list \<Rightarrow> string" where
  "normalize_expression ts = concat (map token_repr ts)"

section \<open>The evaluator\<close>

definition apply_binary :: "'f calc_floats \<Rightarrow> operator \<Rightarrow> 'f \<Rightarrow> 'f \<Rightarrow> calc_error + 'f" where
  "apply_binary F op lhs rhs =
     (if op = Divide \<and> f_is_zero F rhs then Inl DivisionByZero
      else if op = Modulo \<and> f_is_zero F rhs then Inl ModuloByZero
      else if op = Power \<and> \<not> f_exponent_ok F rhs then Inl ExponentRange
      else ensure_finite F (f_op F op lhs rhs))"

fun binary_operator :: "'f token \<Rightarrow> operator option" where
  "binary_operator Plus = Some Add"
| "binary_operator Minus = Some Subtract"
| "binary_operator Star = Some Multiply"
| "binary_operator Slash = Some Divide"
| "binary_operator Percent = Some Modulo"
| "binary_operator Caret = Some Power"
| "binary_operator _ = None"

definition peek_binary_operator :: "'f token list \<Rightarrow> operator option" where
  "peek_binary_operator ts = (case ts of t # _ \<Rightarrow> binary_operator t | [] \<Rightarrow> None)"

definition bump_operation_count :: "nat \<Rightarrow> calc_error + nat" where
  "bump_operation_count ops = (if MAX_OPERATIONS < ops + 1 then Inl TooComplex else Inr (ops + 1))"

definition rhs_precedence :: "operator \<Rightarrow> nat" where
  "rhs_precedence op = (if is_right_associative op then precedence op else precedence op + 1)"

text \<open>What a function of the evaluator returns: a value, the operations counted, and the tokens left.\<close>

type_synonym 'f parsed = "calc_error + ('f \<times> nat \<times> 'f token list)"

definition progress :: "'f token list \<Rightarrow> 'f parsed \<Rightarrow> 'f parsed" where
  "progress ts r =
     (case r of
        Inl e \<Rightarrow> Inl e
      | Inr (v, ops, rest) \<Rightarrow> if length rest < length ts then Inr (v, ops, rest) else Inl NoProgress)"

lemma progress_Inr: "progress ts r = Inr (v, ops, rest) \<Longrightarrow> length rest < length ts"
  by (auto simp: progress_def split: sum.splits prod.splits if_splits)

function (sequential)
  parse_expression :: "'f calc_floats \<Rightarrow> nat \<Rightarrow> nat \<Rightarrow> nat \<Rightarrow> 'f token list \<Rightarrow> 'f parsed" and
  binary_loop :: "'f calc_floats \<Rightarrow> nat \<Rightarrow> nat \<Rightarrow> 'f \<Rightarrow> nat \<Rightarrow> 'f token list \<Rightarrow> 'f parsed" and
  parse_prefix :: "'f calc_floats \<Rightarrow> nat \<Rightarrow> nat \<Rightarrow> 'f token list \<Rightarrow> 'f parsed" where
  "parse_expression F min_prec depth ops ts =
     (case progress ts (parse_prefix F depth ops ts) of
        Inl e \<Rightarrow> Inl e
      | Inr (lhs, ops, rest) \<Rightarrow> binary_loop F min_prec depth lhs ops rest)"
| "binary_loop F min_prec depth lhs ops [] = Inr (lhs, ops, [])"
| "binary_loop F min_prec depth lhs ops (t # ts) =
     (case binary_operator t of
        None \<Rightarrow> Inr (lhs, ops, t # ts)
      | Some op \<Rightarrow>
          if precedence op < min_prec then Inr (lhs, ops, t # ts)
          else
            (case progress ts (parse_expression F (rhs_precedence op) (depth + 1) ops ts) of
               Inl e \<Rightarrow> Inl e
             | Inr (rhs, ops, rest) \<Rightarrow>
                 (case apply_binary F op lhs rhs of
                    Inl e \<Rightarrow> Inl e
                  | Inr v \<Rightarrow>
                      (case bump_operation_count ops of
                         Inl e \<Rightarrow> Inl e
                       | Inr ops \<Rightarrow> binary_loop F min_prec depth v ops rest))))"
| "parse_prefix F depth ops ts =
     (if MAX_AST_DEPTH < depth then Inl TooDeep
      else
        (case ts of
           [] \<Rightarrow> Inl UnexpectedEnd
         | Number v r # rest \<Rightarrow> Inr (v, ops, rest)
         | Plus # rest \<Rightarrow> parse_prefix F (depth + 1) ops rest
         | Minus # rest \<Rightarrow>
             (case parse_prefix F (depth + 1) ops rest of
                Inl e \<Rightarrow> Inl e
              | Inr (v, ops, rest) \<Rightarrow>
                  (case bump_operation_count ops of
                     Inl e \<Rightarrow> Inl e
                   | Inr ops \<Rightarrow>
                       (case ensure_finite F (f_neg F v) of Inl e \<Rightarrow> Inl e | Inr v \<Rightarrow> Inr (v, ops, rest))))
         | LParen # rest \<Rightarrow>
             (case parse_expression F 0 (depth + 1) ops rest of
                Inl e \<Rightarrow> Inl e
              | Inr (v, ops, after) \<Rightarrow>
                  (case after of RParen # rest \<Rightarrow> Inr (v, ops, rest) | _ \<Rightarrow> Inl MissingClose))
         | other # rest \<Rightarrow> Inl (UnexpectedToken (token_repr other))))"
  by pat_completeness auto
termination
  by (relation "measure (\<lambda>x. case x of
        Inl (F, m, d, ops, ts) \<Rightarrow> 3 * length ts + 2
      | Inr (Inl (F, m, d, lhs, ops, ts)) \<Rightarrow> 3 * length ts + 1
      | Inr (Inr (F, d, ops, ts)) \<Rightarrow> 3 * length ts)")
    (auto dest!: progress_Inr)


definition evaluate :: "'f calc_floats \<Rightarrow> 'f token list \<Rightarrow> calc_error + 'f" where
  "evaluate F ts =
     (case parse_expression F 0 0 0 ts of
        Inl e \<Rightarrow> Inl e
      | Inr (v, ops, t # rest) \<Rightarrow> Inl (UnexpectedToken (token_repr t))
      | Inr (v, ops, []) \<Rightarrow> ensure_finite F v)"

definition evaluate_expression :: "'f calc_floats \<Rightarrow> string \<Rightarrow> calc_error + ('f \<times> string)" where
  "evaluate_expression F expression =
     (if MAX_EXPRESSION_CHARS < byte_len expression then Inl TooLong
      else
        (case tokenize F expression of
           Inl e \<Rightarrow> Inl e
         | Inr ts \<Rightarrow>
             (case evaluate F ts of Inl e \<Rightarrow> Inl e | Inr v \<Rightarrow> Inr (v, normalize_expression ts))))"

datatype 'f calc_json = JsonInt int | JsonFloat 'f

text \<open>\<open>i64::MAX as f64\<close> is rounded to 2^63, and \<open>as i64\<close> saturates.\<close>

definition result_to_json :: "'f calc_floats \<Rightarrow> 'f \<Rightarrow> calc_error + 'f calc_json" where
  "result_to_json F v =
     (let n = f_normal F v in
      case f_integer F n of
        Some k \<Rightarrow>
          if - (2 ^ 63) \<le> k \<and> k \<le> 2 ^ 63 then Inr (JsonInt (min k (2 ^ 63 - 1)))
          else if f_is_finite F n then Inr (JsonFloat n) else Inl NotJson
      | None \<Rightarrow> if f_is_finite F n then Inr (JsonFloat n) else Inl NotJson)"

text \<open>The parameters \<open>expression\<close> and \<open>expr\<close> as far as they are there; \<open>Some None\<close> is one that is not a string.\<close>

definition calc_execute ::
  "'f calc_floats \<Rightarrow> string option option \<Rightarrow> string option option \<Rightarrow> calc_error + ('f calc_json \<times> string)" where
  "calc_execute F expression expr =
     (case (case expression of Some p \<Rightarrow> Some p | None \<Rightarrow> expr) of
        Some (Some s) \<Rightarrow>
          (case evaluate_expression F s of
             Inl e \<Rightarrow> Inl e
           | Inr (v, norm) \<Rightarrow> (case result_to_json F v of Inl e \<Rightarrow> Inl e | Inr j \<Rightarrow> Inr (j, norm)))
      | _ \<Rightarrow> Inl MissingParameter)"

section \<open>Every call consumes a token\<close>

declare parse_expression.simps [simp del] binary_loop.simps(2) [simp del] parse_prefix.simps [simp del]

lemma parse_prefix_deep: "MAX_AST_DEPTH < d \<Longrightarrow> parse_prefix F d ops ts = Inl TooDeep"
  by (subst parse_prefix.simps) simp

lemma parse_prefix_eqs:
  assumes "\<not> MAX_AST_DEPTH < d"
  shows "parse_prefix F d ops [] = Inl UnexpectedEnd"
    "parse_prefix F d ops (Number v r # rest) = Inr (v, ops, rest)"
    "parse_prefix F d ops (Plus # rest) = parse_prefix F (d + 1) ops rest"
    "parse_prefix F d ops (Minus # rest) =
       (case parse_prefix F (d + 1) ops rest of
          Inl e \<Rightarrow> Inl e
        | Inr (v, ops, rest) \<Rightarrow>
            (case bump_operation_count ops of
               Inl e \<Rightarrow> Inl e
             | Inr ops \<Rightarrow> (case ensure_finite F (f_neg F v) of Inl e \<Rightarrow> Inl e | Inr v \<Rightarrow> Inr (v, ops, rest))))"
    "parse_prefix F d ops (LParen # rest) =
       (case parse_expression F 0 (d + 1) ops rest of
          Inl e \<Rightarrow> Inl e
        | Inr (v, ops, after) \<Rightarrow> (case after of RParen # rest \<Rightarrow> Inr (v, ops, rest) | _ \<Rightarrow> Inl MissingClose))"
  using assms by (subst parse_prefix.simps, simp)+

lemma parse_prefix_other:
  "binary_operator t \<in> {Some Multiply, Some Divide, Some Modulo, Some Power} \<or> t = RParen \<Longrightarrow> parse_prefix F d ops (t # rest) \<noteq> Inr r"
  by (subst parse_prefix.simps) (cases t; simp)

lemma consumed:
  "parse_expression F m d ops ts = Inr (v, ops', rest) \<Longrightarrow> length rest < length ts"
  "binary_loop F m d lhs ops ts = Inr (v, ops', rest) \<Longrightarrow> length rest \<le> length ts"
  "parse_prefix F d ops ts = Inr (v, ops', rest) \<Longrightarrow> length rest < length ts"
proof (induction F m d ops ts and F m d lhs ops ts and F d ops ts
    arbitrary: v ops' rest and v ops' rest and v ops' rest
    rule: parse_expression_binary_loop_parse_prefix.induct)
  case (1 F m d ops ts)
  then show ?case
    by (fastforce simp: parse_expression.simps dest: progress_Inr split: sum.splits prod.splits)
next
  case (2 F m d lhs ops)
  then show ?case by simp
next
  case (3 F m d lhs ops t ts)
  then show ?case
    by (fastforce simp: binary_loop.simps(2) dest: progress_Inr split: sum.splits prod.splits option.splits if_splits)
next
  case (4 F d ops ts)
  have depth: "\<not> MAX_AST_DEPTH < d" using "4.prems" by (auto simp: parse_prefix_deep)
  then obtain t tl where ts: "ts = t # tl" using "4.prems" by (cases ts) (auto simp: parse_prefix_eqs)
  note ret = "4.prems" [unfolded ts]
  have no: "\<not> (binary_operator t \<in> {Some Multiply, Some Divide, Some Modulo, Some Power} \<or> t = RParen)"
    using ret parse_prefix_other by metis
  show ?case
  proof (cases t)
    case (Number x r)
    then show ?thesis using ret ts by (simp add: parse_prefix_eqs [OF depth])
  next
    case Plus
    then show ?thesis using ret "4.IH"(1) [OF depth ts] ts by (fastforce simp: parse_prefix_eqs [OF depth])
  next
    case Minus
    then obtain v1 ops1 where "parse_prefix F (d + 1) ops tl = Inr (v1, ops1, rest)"
      using ret by (auto simp: parse_prefix_eqs [OF depth] split: sum.splits prod.splits)
    then show ?thesis using Minus "4.IH"(2) [OF depth ts] ts by fastforce
  next
    case LParen
    then obtain v1 ops1 where "parse_expression F 0 (d + 1) ops tl = Inr (v1, ops1, RParen # rest)"
      using ret by (auto simp: parse_prefix_eqs [OF depth] split: sum.splits prod.splits list.splits token.splits)
    then show ?thesis using LParen "4.IH"(3) [OF depth ts] ts by fastforce
  qed (use no in simp_all)
qed

lemma progress_always:
  "progress ts (parse_expression F m d ops ts) = parse_expression F m d ops ts"
  "progress ts (parse_prefix F d ops ts) = parse_prefix F d ops ts"
  using consumed(1) [of F m d ops ts] consumed(3) [of F d ops ts]
  by (auto simp: progress_def split: sum.splits prod.splits)

text \<open>The equations as the code has them.\<close>

lemma parse_expression_eq:
  "parse_expression F m d ops ts =
     (case parse_prefix F d ops ts of
        Inl e \<Rightarrow> Inl e
      | Inr (lhs, ops, rest) \<Rightarrow> binary_loop F m d lhs ops rest)"
  by (subst parse_expression.simps) (simp add: progress_always)

lemma binary_loop_eq:
  "binary_loop F m d lhs ops (t # ts) =
     (case binary_operator t of
        None \<Rightarrow> Inr (lhs, ops, t # ts)
      | Some op \<Rightarrow>
          if precedence op < m then Inr (lhs, ops, t # ts)
          else
            (case parse_expression F (rhs_precedence op) (d + 1) ops ts of
               Inl e \<Rightarrow> Inl e
             | Inr (rhs, ops, rest) \<Rightarrow>
                 (case apply_binary F op lhs rhs of
                    Inl e \<Rightarrow> Inl e
                  | Inr v \<Rightarrow>
                      (case bump_operation_count ops of
                         Inl e \<Rightarrow> Inl e
                       | Inr ops \<Rightarrow> binary_loop F m d v ops rest))))"
  by (subst binary_loop.simps) (simp only: progress_always)

section \<open>Expressions\<close>

datatype 'f expr = Num 'f string | Pos "'f expr" | Neg "'f expr" | Paren "'f expr" | Bin operator "'f expr" "'f expr"

fun op_token :: "operator \<Rightarrow> 'f token" where
  "op_token Add = Plus"
| "op_token Subtract = Minus"
| "op_token Multiply = Star"
| "op_token Divide = Slash"
| "op_token Modulo = Percent"
| "op_token Power = Caret"

fun tokens_of :: "'f expr \<Rightarrow> 'f token list" where
  "tokens_of (Num v r) = [Number v r]"
| "tokens_of (Pos e) = Plus # tokens_of e"
| "tokens_of (Neg e) = Minus # tokens_of e"
| "tokens_of (Paren e) = LParen # tokens_of e @ [RParen]"
| "tokens_of (Bin op l r) = tokens_of l @ op_token op # tokens_of r"

fun eval_expr :: "'f calc_floats \<Rightarrow> 'f expr \<Rightarrow> calc_error + 'f" where
  "eval_expr F (Num v r) = Inr v"
| "eval_expr F (Pos e) = eval_expr F e"
| "eval_expr F (Neg e) = (case eval_expr F e of Inl x \<Rightarrow> Inl x | Inr v \<Rightarrow> ensure_finite F (f_neg F v))"
| "eval_expr F (Paren e) = eval_expr F e"
| "eval_expr F (Bin op l r) =
     (case eval_expr F l of
        Inl x \<Rightarrow> Inl x
      | Inr a \<Rightarrow> (case eval_expr F r of Inl x \<Rightarrow> Inl x | Inr b \<Rightarrow> apply_binary F op a b))"

text \<open>Operands of an operator bind tighter than it: to the left of a left-associative operator the same
  precedence is enough, to the right of a right-associative one. A sign applies to the smallest operand.\<close>

definition lhs_precedence :: "operator \<Rightarrow> nat" where
  "lhs_precedence op = (if is_right_associative op then precedence op + 1 else precedence op)"

fun is_prefix :: "'f expr \<Rightarrow> bool" where
  "is_prefix (Bin _ _ _) = False"
| "is_prefix _ = True"

fun well_formed :: "nat \<Rightarrow> 'f expr \<Rightarrow> bool" where
  "well_formed m (Num v r) = True"
| "well_formed m (Pos e) = (is_prefix e \<and> well_formed 0 e)"
| "well_formed m (Neg e) = (is_prefix e \<and> well_formed 0 e)"
| "well_formed m (Paren e) = well_formed 0 e"
| "well_formed m (Bin op l r) =
     (m \<le> precedence op \<and> well_formed (lhs_precedence op) l \<and> well_formed (rhs_precedence op) r)"

text \<open>The operations an expression counts, and whether it stays within the depth.\<close>

fun operations :: "'f expr \<Rightarrow> nat" where
  "operations (Num v r) = 0"
| "operations (Pos e) = operations e"
| "operations (Neg e) = operations e + 1"
| "operations (Paren e) = operations e"
| "operations (Bin op l r) = operations l + operations r + 1"

fun fits :: "nat \<Rightarrow> 'f expr \<Rightarrow> bool" where
  "fits d (Num v r) = (d \<le> MAX_AST_DEPTH)"
| "fits d (Pos e) = (d \<le> MAX_AST_DEPTH \<and> fits (d + 1) e)"
| "fits d (Neg e) = (d \<le> MAX_AST_DEPTH \<and> fits (d + 1) e)"
| "fits d (Paren e) = (d \<le> MAX_AST_DEPTH \<and> fits (d + 1) e)"
| "fits d (Bin op l r) = (fits d l \<and> fits (d + 1) r)"

lemma binary_operator_Some: "binary_operator t = Some op \<longleftrightarrow> t = op_token op"
  by (cases t; cases op) auto

lemma binary_operator_op_token [simp]: "binary_operator (op_token op) = Some op"
  by (simp add: binary_operator_Some)

lemma well_formed_prefix: "is_prefix e \<Longrightarrow> well_formed m e = well_formed 0 e"
  by (cases e) auto

lemma well_formed_mono: "well_formed m e \<Longrightarrow> k \<le> m \<Longrightarrow> well_formed k e"
  by (cases e) auto

text \<open>Where the operators of two levels meet.\<close>

lemma precedence_chain:
  "lhs_precedence q \<le> precedence op \<longleftrightarrow> precedence q < rhs_precedence op"
  by (cases q; cases op) (auto simp: lhs_precedence_def rhs_precedence_def is_right_associative_def)

lemma precedence_le_lhs: "precedence op \<le> lhs_precedence op"
  by (simp add: lhs_precedence_def)

definition stops :: "nat \<Rightarrow> 'f token list \<Rightarrow> bool" where
  "stops m ts \<longleftrightarrow> (\<forall>op. peek_binary_operator ts = Some op \<longrightarrow> precedence op < m)"

section \<open>Every well-formed expression is evaluated\<close>

lemma loop_stops: "stops m ts \<Longrightarrow> binary_loop F m d lhs ops ts = Inr (lhs, ops, ts)"
  by (cases ts) (auto simp: binary_loop_eq stops_def peek_binary_operator_def split: option.splits)

lemma loop_step:
  assumes "m \<le> precedence op"
    and "parse_expression F (rhs_precedence op) (d + 1) ops ts = Inr (b, ops', rest)"
    and "apply_binary F op a b = Inr v" "ops' < MAX_OPERATIONS"
  shows "binary_loop F m d a ops (op_token op # ts) = binary_loop F m d v (ops' + 1) rest"
  using assms by (simp add: binary_loop_eq bump_operation_count_def)

definition follows :: "'f token list \<Rightarrow> 'f expr \<Rightarrow> bool" where
  "follows rest e \<longleftrightarrow> (\<forall>q. peek_binary_operator rest = Some q \<longrightarrow> well_formed (lhs_precedence q) e)"

lemma parse_complete:
  "is_prefix e \<Longrightarrow> well_formed 0 e \<Longrightarrow> fits d e \<Longrightarrow> eval_expr F e = Inr v \<Longrightarrow> ops + operations e \<le> MAX_OPERATIONS \<Longrightarrow>
     parse_prefix F d ops (tokens_of e @ rest) = Inr (v, ops + operations e, rest)"
  "well_formed m e \<Longrightarrow> fits d e \<Longrightarrow> eval_expr F e = Inr v \<Longrightarrow> ops + operations e \<le> MAX_OPERATIONS \<Longrightarrow> follows rest e \<Longrightarrow>
     parse_expression F m d ops (tokens_of e @ rest) = binary_loop F m d v (ops + operations e) rest"
proof (induction e arbitrary: m d v ops rest)
  case (Num x r)
  { case 1 then show ?case by (simp add: parse_prefix_eqs) }
  { case 2 then show ?case by (simp add: parse_expression_eq parse_prefix_eqs) }
next
  case (Pos e)
  have p: "parse_prefix F d ops (tokens_of (Pos e) @ rest) = Inr (v, ops + operations (Pos e), rest)"
    if "well_formed 0 (Pos e)" "fits d (Pos e)" "eval_expr F (Pos e) = Inr v" "ops + operations (Pos e) \<le> MAX_OPERATIONS"
    for d v ops rest
    using that Pos.IH(1) by (simp add: parse_prefix_eqs)
  { case 1 then show ?case using p by simp }
  { case 2 then show ?case using p by (simp add: parse_expression_eq) }
next
  case (Neg e)
  have p: "parse_prefix F d ops (tokens_of (Neg e) @ rest) = Inr (v, ops + operations (Neg e), rest)"
    if wf: "well_formed 0 (Neg e)" and ft: "fits d (Neg e)" and ev: "eval_expr F (Neg e) = Inr v"
      and lim: "ops + operations (Neg e) \<le> MAX_OPERATIONS"
    for d v ops rest
  proof -
    obtain u where u: "eval_expr F e = Inr u" "ensure_finite F (f_neg F u) = Inr v"
      using ev by (auto split: sum.splits)
    show ?thesis using wf ft lim u Neg.IH(1) [of "d + 1" u ops rest] by (simp add: parse_prefix_eqs bump_operation_count_def)
  qed
  { case 1 then show ?case using p by simp }
  { case 2 then show ?case using p by (simp add: parse_expression_eq) }
next
  case (Paren e)
  have p: "parse_prefix F d ops (tokens_of (Paren e) @ rest) = Inr (v, ops + operations (Paren e), rest)"
    if wf: "well_formed 0 (Paren e)" and ft: "fits d (Paren e)" and ev: "eval_expr F (Paren e) = Inr v"
      and lim: "ops + operations (Paren e) \<le> MAX_OPERATIONS"
    for d v ops rest
  proof -
    have "parse_expression F 0 (d + 1) ops (tokens_of e @ RParen # rest) = Inr (v, ops + operations e, RParen # rest)"
      using wf ft ev lim Paren.IH(2) [of 0 "d + 1" v ops "RParen # rest"]
      by (simp add: follows_def peek_binary_operator_def binary_loop_eq)
    then show ?thesis using ft by (simp add: parse_prefix_eqs)
  qed
  { case 1 then show ?case using p by simp }
  { case 2 then show ?case using p by (simp add: parse_expression_eq) }
next
  case (Bin op l r)
  { case 1 then show ?case by simp }
  { case 2
    obtain a b where ab: "eval_expr F l = Inr a" "eval_expr F r = Inr b" "apply_binary F op a b = Inr v"
      using "2.prems"(3) by (auto split: sum.splits)
    have wf: "m \<le> precedence op" "well_formed (lhs_precedence op) l" "well_formed (rhs_precedence op) r"
      using "2.prems"(1) by simp_all
    have "well_formed m l" using wf precedence_le_lhs [of op] by (blast intro: well_formed_mono order_trans)
    moreover have "follows (op_token op # tokens_of r @ rest) l"
      using wf by (simp add: follows_def peek_binary_operator_def)
    ultimately have "parse_expression F m d ops (tokens_of (Bin op l r) @ rest) =
        binary_loop F m d a (ops + operations l) (op_token op # tokens_of r @ rest)"
      using "2.prems"(2,4) ab(1) Bin.IH(2) by simp
    also have "\<dots> = binary_loop F m d v (ops + operations l + operations r + 1) rest"
    proof (rule loop_step [OF wf(1) _ ab(3)])
      have q: "precedence q < rhs_precedence op" if "peek_binary_operator rest = Some q" for q
        using "2.prems"(5) that by (auto simp: follows_def precedence_chain [symmetric])
      have "follows rest r"
        unfolding follows_def
      proof (intro allI impI)
        fix q assume "peek_binary_operator rest = Some q"
        then have "lhs_precedence q \<le> precedence op" using q by (simp add: precedence_chain)
        then show "well_formed (lhs_precedence q) r"
          by (intro well_formed_mono [OF wf(3)]) (simp add: rhs_precedence_def)
      qed
      then have "parse_expression F (rhs_precedence op) (d + 1) (ops + operations l) (tokens_of r @ rest) =
          binary_loop F (rhs_precedence op) (d + 1) b (ops + operations l + operations r) rest"
        using "2.prems"(2,4) ab(2) wf(3) Bin.IH(4) by simp
      then show "parse_expression F (rhs_precedence op) (d + 1) (ops + operations l) (tokens_of r @ rest) =
          Inr (b, ops + operations l + operations r, rest)"
        using q by (simp add: loop_stops stops_def)
    qed (use "2.prems"(4) in simp)
    finally show ?case by (simp add: add.assoc) }
qed

section \<open>Whatever is evaluated is a well-formed expression\<close>

text \<open>An expression that accounts for what a function of the evaluator returned.\<close>

definition accounts :: "'f calc_floats \<Rightarrow> nat \<Rightarrow> nat \<Rightarrow> 'f expr \<Rightarrow> 'f \<Rightarrow> bool" where
  "accounts F m d e v \<longleftrightarrow> well_formed m e \<and> fits d e \<and> eval_expr F e = Inr v"

definition expression_sound :: "'f calc_floats \<Rightarrow> 'f token list \<Rightarrow> bool" where
  "expression_sound F ts \<longleftrightarrow>
     (\<forall>m d ops v ops' rest. parse_expression F m d ops ts = Inr (v, ops', rest) \<longrightarrow> ops \<le> MAX_OPERATIONS \<longrightarrow>
        (\<exists>e. ts = tokens_of e @ rest \<and> accounts F m d e v \<and> stops m rest \<and>
             ops' = ops + operations e \<and> ops' \<le> MAX_OPERATIONS))"

definition prefix_sound :: "'f calc_floats \<Rightarrow> 'f token list \<Rightarrow> bool" where
  "prefix_sound F ts \<longleftrightarrow>
     (\<forall>d ops v ops' rest. parse_prefix F d ops ts = Inr (v, ops', rest) \<longrightarrow> ops \<le> MAX_OPERATIONS \<longrightarrow>
        (\<exists>e. ts = tokens_of e @ rest \<and> is_prefix e \<and> accounts F 0 d e v \<and>
             ops' = ops + operations e \<and> ops' \<le> MAX_OPERATIONS))"

definition loop_sound :: "'f calc_floats \<Rightarrow> 'f token list \<Rightarrow> bool" where
  "loop_sound F ts \<longleftrightarrow>
     (\<forall>m d e0 lhs ops v ops' rest. binary_loop F m d lhs ops ts = Inr (v, ops', rest) \<longrightarrow> ops \<le> MAX_OPERATIONS \<longrightarrow>
        accounts F m d e0 lhs \<longrightarrow> follows ts e0 \<longrightarrow>
        (\<exists>e. tokens_of e0 @ ts = tokens_of e @ rest \<and> accounts F m d e v \<and> stops m rest \<and>
             ops' + operations e0 = ops + operations e \<and> ops' \<le> MAX_OPERATIONS))"

lemma bump_Inr: "bump_operation_count ops = Inr n \<longleftrightarrow> n = ops + 1 \<and> n \<le> MAX_OPERATIONS"
  by (auto simp: bump_operation_count_def)

lemma prefix_sound_step:
  assumes shorter: "\<And>ts'. length ts' < length ts \<Longrightarrow> expression_sound F ts' \<and> prefix_sound F ts'"
  shows "prefix_sound F ts"
  unfolding prefix_sound_def
proof (intro allI impI)
  fix d ops v ops' rest
  assume ret: "parse_prefix F d ops ts = Inr (v, ops', rest)" and ops: "ops \<le> MAX_OPERATIONS"
  let ?goal = "\<exists>e. ts = tokens_of e @ rest \<and> is_prefix e \<and> accounts F 0 d e v \<and>
    ops' = ops + operations e \<and> ops' \<le> MAX_OPERATIONS"
  have depth: "\<not> MAX_AST_DEPTH < d" using ret by (auto simp: parse_prefix_deep)
  then obtain t tl where ts: "ts = t # tl" using ret by (cases ts) (auto simp: parse_prefix_eqs)
  have no: "\<not> (binary_operator t \<in> {Some Multiply, Some Divide, Some Modulo, Some Power} \<or> t = RParen)"
    using ret ts parse_prefix_other by metis
  have sound: "prefix_sound F tl" "expression_sound F tl" using shorter [of tl] ts by auto
  show ?goal
  proof (cases t)
    case (Number x r)
    then show ?thesis using ret ts ops depth
      by (intro exI [of _ "Num x r"]) (auto simp: parse_prefix_eqs accounts_def)
  next
    case Plus
    then have "parse_prefix F (d + 1) ops tl = Inr (v, ops', rest)" using ret ts depth by (simp add: parse_prefix_eqs)
    then obtain e where "tl = tokens_of e @ rest" "is_prefix e" "accounts F 0 (d + 1) e v"
        "ops' = ops + operations e" "ops' \<le> MAX_OPERATIONS"
      using sound(1) ops unfolding prefix_sound_def by blast
    then show ?thesis using ts Plus depth by (intro exI [of _ "Pos e"]) (simp add: accounts_def)
  next
    case Minus
    then obtain u n where un: "parse_prefix F (d + 1) ops tl = Inr (u, n, rest)" "ensure_finite F (f_neg F u) = Inr v"
        "bump_operation_count n = Inr ops'"
      using ret ts depth by (auto simp: parse_prefix_eqs split: sum.splits prod.splits)
    then obtain e where "tl = tokens_of e @ rest" "is_prefix e" "accounts F 0 (d + 1) e u" "n = ops + operations e"
      using sound(1) ops unfolding prefix_sound_def by blast
    then show ?thesis using ts Minus depth un
      by (intro exI [of _ "Neg e"]) (simp add: accounts_def bump_Inr)
  next
    case LParen
    then have "parse_expression F 0 (d + 1) ops tl = Inr (v, ops', RParen # rest)"
      using ret ts depth by (auto simp: parse_prefix_eqs split: sum.splits prod.splits list.splits token.splits)
    then obtain e where "tl = tokens_of e @ RParen # rest" "accounts F 0 (d + 1) e v"
        "ops' = ops + operations e" "ops' \<le> MAX_OPERATIONS"
      using sound(2) ops unfolding expression_sound_def by blast
    then show ?thesis using ts LParen depth by (intro exI [of _ "Paren e"]) (simp add: accounts_def)
  qed (use no in simp_all)
qed

lemma follows_Bin:
  assumes "stops (rhs_precedence op) rest" "well_formed (lhs_precedence op) l" "well_formed (rhs_precedence op) r"
  shows "follows rest (Bin op l r)"
  using assms by (auto simp: follows_def stops_def precedence_chain)

lemma loop_sound_step:
  assumes shorter: "\<And>ts'. length ts' < length ts \<Longrightarrow> expression_sound F ts' \<and> loop_sound F ts'"
  shows "loop_sound F ts"
  unfolding loop_sound_def
proof (intro allI impI)
  fix m d e0 lhs ops v ops' rest
  assume ret: "binary_loop F m d lhs ops ts = Inr (v, ops', rest)" and ops: "ops \<le> MAX_OPERATIONS"
    and e0: "accounts F m d e0 lhs" and after: "follows ts e0"
  let ?goal = "\<exists>e. tokens_of e0 @ ts = tokens_of e @ rest \<and> accounts F m d e v \<and> stops m rest \<and>
    ops' + operations e0 = ops + operations e \<and> ops' \<le> MAX_OPERATIONS"
  show ?goal
  proof (cases "stops m ts")
    case True
    then show ?thesis using ret e0 ops by (auto simp: loop_stops)
  next
    case False
    then obtain op tl where ts: "ts = op_token op # tl" and prec: "m \<le> precedence op"
      by (cases ts) (auto simp: stops_def peek_binary_operator_def binary_operator_Some not_less)
    obtain b n rest1 a where call: "parse_expression F (rhs_precedence op) (d + 1) ops tl = Inr (b, n, rest1)"
        "apply_binary F op lhs b = Inr a" "bump_operation_count n = Inr (n + 1)"
        "binary_loop F m d a (n + 1) rest1 = Inr (v, ops', rest)"
      using ret ts prec by (auto simp: binary_loop_eq bump_Inr split: sum.splits prod.splits if_splits)
    have sound: "expression_sound F tl" "loop_sound F rest1"
      using shorter [of tl] shorter [of rest1] consumed(1) [OF call(1)] ts by auto
    obtain r where r: "tl = tokens_of r @ rest1" "accounts F (rhs_precedence op) (d + 1) r b"
        "stops (rhs_precedence op) rest1" "n = ops + operations r"
      using sound(1) call(1) ops unfolding expression_sound_def by blast
    have l: "well_formed (lhs_precedence op) e0" using after ts by (simp add: follows_def peek_binary_operator_def)
    have "accounts F m d (Bin op e0 r) a" using l r(2) e0 prec call(2) by (simp add: accounts_def)
    moreover have "follows rest1 (Bin op e0 r)" using l r by (simp add: follows_Bin accounts_def)
    moreover have "n + 1 \<le> MAX_OPERATIONS" using call(3) by (simp add: bump_Inr)
    ultimately obtain e where "tokens_of (Bin op e0 r) @ rest1 = tokens_of e @ rest" "accounts F m d e v" "stops m rest"
        "ops' + operations (Bin op e0 r) = n + 1 + operations e" "ops' \<le> MAX_OPERATIONS"
      using sound(2) call(4) unfolding loop_sound_def by blast
    then show ?thesis using ts r(1,4) by (intro exI [of _ e]) simp
  qed
qed

lemma expression_sound_step:
  assumes "prefix_sound F ts" and shorter: "\<And>ts'. length ts' < length ts \<Longrightarrow> loop_sound F ts'"
  shows "expression_sound F ts"
  unfolding expression_sound_def
proof (intro allI impI)
  fix m d ops v ops' rest
  assume "parse_expression F m d ops ts = Inr (v, ops', rest)" and ops: "ops \<le> MAX_OPERATIONS"
  then obtain lhs n rest1 where call: "parse_prefix F d ops ts = Inr (lhs, n, rest1)"
      "binary_loop F m d lhs n rest1 = Inr (v, ops', rest)"
    by (auto simp: parse_expression_eq split: sum.splits)
  then obtain e0 where e0: "ts = tokens_of e0 @ rest1" "is_prefix e0" "accounts F 0 d e0 lhs" "n = ops + operations e0"
      "n \<le> MAX_OPERATIONS"
    using assms(1) ops unfolding prefix_sound_def by blast
  have wf: "well_formed k e0" for k using e0 well_formed_prefix [of e0 k] by (simp add: accounts_def)
  then have "accounts F m d e0 lhs" "follows rest1 e0" using e0 by (simp_all add: accounts_def follows_def)
  then obtain e where "tokens_of e0 @ rest1 = tokens_of e @ rest" "accounts F m d e v" "stops m rest"
      "ops' + operations e0 = n + operations e" "ops' \<le> MAX_OPERATIONS"
    using shorter [OF consumed(3) [OF call(1)]] call(2) e0(5) unfolding loop_sound_def by blast
  then show "\<exists>e. ts = tokens_of e @ rest \<and> accounts F m d e v \<and> stops m rest \<and>
      ops' = ops + operations e \<and> ops' \<le> MAX_OPERATIONS"
    using e0 by (intro exI [of _ e]) simp
qed

lemma evaluator_sound: "expression_sound F ts \<and> prefix_sound F ts \<and> loop_sound F ts"
proof (induction "length ts" arbitrary: ts rule: less_induct)
  case less
  then have "prefix_sound F ts" "loop_sound F ts" by (auto intro: prefix_sound_step loop_sound_step)
  then show ?case using less by (auto intro: expression_sound_step)
qed

lemma evaluate_complete:
  assumes "well_formed 0 e" "fits 0 e" "operations e \<le> MAX_OPERATIONS" "eval_expr F e = Inr u"
  shows "evaluate F (tokens_of e) = ensure_finite F u"
proof -
  have "parse_expression F 0 0 0 (tokens_of e @ []) = binary_loop F 0 0 u (0 + operations e) []"
    by (rule parse_complete(2)) (use assms in \<open>simp_all add: follows_def peek_binary_operator_def\<close>)
  then show ?thesis by (simp add: evaluate_def)
qed

text \<open>C20: The calculator evaluates exactly the expressions of its grammar. A list of tokens has a value if
  and only if it is the text of an expression in which \<open>^\<close> binds tighter than \<open>*\<close>, \<open>/\<close> and \<open>%\<close>, these tighter than
  \<open>+\<close> and \<open>-\<close>, \<open>^\<close> associates to the right, the others to the left, and a sign belongs to the operand
  next to it, that is within the depth and the number of operations allowed; its value is the value
  of this expression.\<close>

theorem calculator_follows_grammar:
  "evaluate F ts = Inr v \<longleftrightarrow>
     (\<exists>e u. tokens_of e = ts \<and> well_formed 0 e \<and> fits 0 e \<and> operations e \<le> MAX_OPERATIONS \<and>
        eval_expr F e = Inr u \<and> ensure_finite F u = Inr v)"
proof
  assume "evaluate F ts = Inr v"
  then obtain u n where u: "parse_expression F 0 0 0 ts = Inr (u, n, [])" "ensure_finite F u = Inr v"
    by (auto simp: evaluate_def split: sum.splits prod.splits list.splits)
  have "expression_sound F ts" using evaluator_sound by blast
  then obtain e where "ts = tokens_of e @ []" "accounts F 0 0 e u" "n = 0 + operations e" "n \<le> MAX_OPERATIONS"
    using u(1) unfolding expression_sound_def by blast
  then show "\<exists>e u. tokens_of e = ts \<and> well_formed 0 e \<and> fits 0 e \<and> operations e \<le> MAX_OPERATIONS \<and>
      eval_expr F e = Inr u \<and> ensure_finite F u = Inr v"
    using u(2) by (auto simp: accounts_def)
next
  assume "\<exists>e u. tokens_of e = ts \<and> well_formed 0 e \<and> fits 0 e \<and> operations e \<le> MAX_OPERATIONS \<and>
      eval_expr F e = Inr u \<and> ensure_finite F u = Inr v"
  then show "evaluate F ts = Inr v" using evaluate_complete by force
qed

text \<open>A sign is applied before a power: \<open>-a^b\<close> is evaluated as \<open>(-a)^b\<close>.\<close>

lemma sign_before_power:
  assumes "ensure_finite F (f_neg F a) = Inr a'" "apply_binary F Power a' b = Inr u" "ensure_finite F u = Inr v"
  shows "evaluate F [Minus, Number a ra, Caret, Number b rb] = Inr v"
  using evaluate_complete [of "Bin Power (Neg (Num a ra)) (Num b rb)" F u] assms
  by (simp add: lhs_precedence_def rhs_precedence_def is_right_associative_def MAX_AST_DEPTH_def MAX_OPERATIONS_def)

text \<open>The largest integer reported is wrong by one for a result of 2^63.\<close>

lemma largest_integer_off_by_one:
  "f_integer F (f_normal F v) = Some (2 ^ 63) \<Longrightarrow> result_to_json F v = Inr (JsonInt (2 ^ 63 - 1))"
  by (simp add: result_to_json_def)

end
