(* ===== verification/Pairing.thy ===== *)
theory Pairing
  imports Rust_Text "HOL-Library.Char_ord" "HOL-Library.List_Lexorder"
begin

text \<open>
  Pairing of devices (\<open>crates/gateway/src/pairing.rs\<close>): the store of pair requests, devices and tokens in
  SQLite, and the state in memory that stands in for it when there is no database.

  A table is the list of its rows in the order they were inserted, a statement a function of it; a
  violated key makes the statement fail with \<open>Db\<close> and leaves what the earlier statements did. An operation
  of the store runs alone, except for the approval, which is split at the point where another task can run
  (\<open>approve_load\<close>, \<open>approve_write\<close>). Instants count nanoseconds. The formats of the \<open>time\<close> crate, SQLite's \<open>julianday\<close>,
  the digest and the random values are parameters; the JSON text of a list of scopes is the list.
\<close>

section \<open>Types\<close>

datatype pair_status = Pending | Approved | Rejected | Expired

fun status_as_str :: "pair_status \<Rightarrow> string" where
  "status_as_str Pending = ''pending''"
| "status_as_str Approved = ''approved''"
| "status_as_str Rejected = ''rejected''"
| "status_as_str Expired = ''expired''"

definition status_from_str :: "string \<Rightarrow> pair_status" where
  "status_from_str s =
     (if s = ''approved'' then Approved
      else if s = ''rejected'' then Rejected
      else if s = ''expired'' then Expired
      else Pending)"

datatype pair_error = PairRequestNotFound | PairRequestNotPending pair_status | PairRequestExpired | DeviceNotFound | Db

record 'st pair_request =
  pr_id :: string
  pr_device_id :: string
  pr_display_name :: "string option"
  pr_platform :: string
  pr_public_key :: "string option"
  pr_nonce :: string
  pr_status :: 'st
  pr_created_at :: string
  pr_expires_at :: string

record device_token =
  dt_token :: string
  dt_device_id :: string
  dt_scopes :: "string list"
  dt_issued_at_ms :: nat
  dt_revoked :: bool

record device_token_verification =
  dtv_device_id :: string
  dtv_scopes :: "string list"

datatype key_pinning_result = Match | Mismatch string | NoPinnedKey | Revoked

datatype pin_public_key_result = Pinned | AlreadyPinned | PinMismatch string | PinRevoked | PinDeviceNotFound

record paired_device =
  pd_device_id :: string
  pd_display_name :: "string option"
  pd_platform :: string
  pd_public_key :: "string option"
  pd_created_at :: string

record device_token_entry =
  de_token_prefix :: string
  de_device_id :: string
  de_scopes :: "string list"
  de_issued_at :: string

text \<open>The rows of the tables \<open>pair_requests\<close>, \<open>paired_devices\<close> and \<open>device_tokens\<close>; a status is stored as its text.\<close>

type_synonym request_row = "string pair_request"

record device_row = paired_device +
  dv_status :: string
  dv_revoked_at :: "string option"

record token_row =
  tk_hash :: string
  tk_prefix :: string
  tk_device_id :: string
  tk_scopes :: "string list"
  tk_issued_at :: string
  tk_revoked :: bool

record pairing_store =
  requests :: "request_row list"
  devices :: "device_row list"
  tokens :: "token_row list"

definition empty_store :: pairing_store where
  "empty_store = \<lparr>requests = [], devices = [], tokens = []\<rparr>"

definition pair_ttl :: nat where
  "pair_ttl = 300 * 10 ^ 9"

record pair_env =
  rfc3339 :: "nat \<Rightarrow> string"
  rfc3339_parse :: "string \<Rightarrow> nat option"
  sqlite_text :: "nat \<Rightarrow> string"
  julianday :: "string \<Rightarrow> nat option"
  sha256 :: "string \<Rightarrow> string"

text \<open>Statements.\<close>

definition row_with :: "('r \<Rightarrow> 'k) \<Rightarrow> 'k \<Rightarrow> 'r list \<Rightarrow> 'r option" where
  "row_with key k rows = find (\<lambda>r. key r = k) rows"

definition update_where :: "('r \<Rightarrow> bool) \<Rightarrow> ('r \<Rightarrow> 'r) \<Rightarrow> 'r list \<Rightarrow> 'r list" where
  "update_where P f rows = map (\<lambda>r. if P r then f r else r) rows"

section \<open>Expiry\<close>

definition is_expired_sqlite :: "pair_env \<Rightarrow> nat \<Rightarrow> string \<Rightarrow> bool" where
  "is_expired_sqlite E now expires_at \<longleftrightarrow> expires_at < sqlite_text E now"

definition is_expired :: "pair_env \<Rightarrow> nat \<Rightarrow> string \<Rightarrow> bool" where
  "is_expired E now expires_at =
     (case rfc3339_parse E expires_at of
        None \<Rightarrow> is_expired_sqlite E now expires_at
      | Some expires \<Rightarrow> expires < now)"

text \<open>Comparisons in SQL: with a missing value they do not hold.\<close>

definition sql_later :: "pair_env \<Rightarrow> string \<Rightarrow> string \<Rightarrow> bool" where
  "sql_later E a b = (case (julianday E a, julianday E b) of (Some x, Some y) \<Rightarrow> y < x | _ \<Rightarrow> False)"

definition sql_not_later :: "pair_env \<Rightarrow> string \<Rightarrow> string \<Rightarrow> bool" where
  "sql_not_later E a b = (case (julianday E a, julianday E b) of (Some x, Some y) \<Rightarrow> x \<le> y | _ \<Rightarrow> False)"

section \<open>Pair requests\<close>

definition as_pending :: "request_row \<Rightarrow> pair_status pair_request" where
  "as_pending r = \<lparr>pr_id = pr_id r, pr_device_id = pr_device_id r, pr_display_name = pr_display_name r,
     pr_platform = pr_platform r, pr_public_key = pr_public_key r, pr_nonce = pr_nonce r, pr_status = Pending,
     pr_created_at = pr_created_at r, pr_expires_at = pr_expires_at r\<rparr>"

definition request_pair ::
  "pair_env \<Rightarrow> nat \<Rightarrow> string \<Rightarrow> string \<Rightarrow> string \<Rightarrow> string option \<Rightarrow> string \<Rightarrow> string option \<Rightarrow> pairing_store
   \<Rightarrow> (pair_error + pair_status pair_request) \<times> pairing_store" where
  "request_pair E now pair_id nonce device_id display_name platform public_key s =
     (let row = \<lparr>pr_id = pair_id, pr_device_id = device_id, pr_display_name = display_name, pr_platform = platform,
          pr_public_key = public_key, pr_nonce = nonce, pr_status = ''pending'', pr_created_at = rfc3339 E now,
          pr_expires_at = rfc3339 E (now + pair_ttl)\<rparr> in
      if row_with pr_id pair_id (requests s) \<noteq> None then (Inl Db, s)
      else (Inr (as_pending row), s\<lparr>requests := requests s @ [row]\<rparr>))"

definition list_pending_at :: "pair_env \<Rightarrow> string \<Rightarrow> pairing_store \<Rightarrow> pair_status pair_request list" where
  "list_pending_at E now s =
     map as_pending (filter (\<lambda>r. pr_status r = ''pending'' \<and> sql_later E (pr_expires_at r) now) (requests s))"

definition list_pending_now :: "pair_env \<Rightarrow> nat \<Rightarrow> pairing_store \<Rightarrow> pair_status pair_request list" where
  "list_pending_now E now s = list_pending_at E (rfc3339 E now) s"

definition set_request_status :: "string \<Rightarrow> string \<Rightarrow> pairing_store \<Rightarrow> pairing_store" where
  "set_request_status pair_id status s =
     s\<lparr>requests := update_where (\<lambda>r. pr_id r = pair_id) (\<lambda>r. r\<lparr>pr_status := status\<rparr>) (requests s)\<rparr>"

definition default_scopes :: "string list" where
  "default_scopes = [''operator.read'', ''operator.write'', ''operator.approvals'']"

text \<open>A token: \<open>rand\<close> is what \<open>generate_token\<close> returns.\<close>

definition raw_token :: "string \<Rightarrow> string" where
  "raw_token rand = ''mdt_'' @ rand"

definition insert_token :: "pair_env \<Rightarrow> nat \<Rightarrow> string \<Rightarrow> string \<Rightarrow> string list \<Rightarrow> pairing_store \<Rightarrow> pairing_store option" where
  "insert_token E now raw device_id scopes s =
     (if row_with tk_hash (sha256 E raw) (tokens s) \<noteq> None \<or> row_with pd_device_id device_id (devices s) = None then None
      else Some (s\<lparr>tokens := tokens s @ [\<lparr>tk_hash = sha256 E raw, tk_prefix = take (min (length raw) 12) raw,
        tk_device_id = device_id, tk_scopes = scopes, tk_issued_at = sqlite_text E now, tk_revoked = False\<rparr>]\<rparr>))"

definition issue_token ::
  "pair_env \<Rightarrow> nat \<Rightarrow> string \<Rightarrow> string \<Rightarrow> string list \<Rightarrow> pairing_store \<Rightarrow> (pair_error + device_token) \<times> pairing_store" where
  "issue_token E now rand device_id scopes s =
     (case insert_token E now (raw_token rand) device_id scopes s of
        None \<Rightarrow> (Inl Db, s)
      | Some s \<Rightarrow> (Inr \<lparr>dt_token = raw_token rand, dt_device_id = device_id, dt_scopes = scopes,
          dt_issued_at_ms = now div 10 ^ 6, dt_revoked = False\<rparr>, s))"

definition upsert_device ::
  "pair_env \<Rightarrow> nat \<Rightarrow> string \<Rightarrow> string option \<Rightarrow> string \<Rightarrow> string option \<Rightarrow> pairing_store \<Rightarrow> pairing_store" where
  "upsert_device E now device_id display_name platform public_key s =
     (if row_with pd_device_id device_id (devices s) = None then
        s\<lparr>devices := devices s @ [\<lparr>pd_device_id = device_id, pd_display_name = display_name, pd_platform = platform,
          pd_public_key = public_key, pd_created_at = sqlite_text E now, dv_status = ''active'', dv_revoked_at = None\<rparr>]\<rparr>
      else
        s\<lparr>devices := update_where (\<lambda>d. pd_device_id d = device_id)
          (\<lambda>d. d\<lparr>pd_display_name := display_name, pd_platform := platform, pd_public_key := public_key,
             dv_status := ''active'', dv_revoked_at := None\<rparr>) (devices s)\<rparr>)"

text \<open>The first half of an approval reads the request, the second acts on what was read.\<close>

definition approve_load :: "string \<Rightarrow> pairing_store \<Rightarrow> pair_error + request_row" where
  "approve_load pair_id s =
     (case row_with pr_id pair_id (requests s) of
        None \<Rightarrow> Inl PairRequestNotFound
      | Some r \<Rightarrow>
          (let current_status = status_from_str (pr_status r) in
           if current_status \<noteq> Pending then Inl (PairRequestNotPending current_status) else Inr r))"

definition approve_write ::
  "pair_env \<Rightarrow> nat \<Rightarrow> string \<Rightarrow> string \<Rightarrow> request_row \<Rightarrow> pairing_store \<Rightarrow> (pair_error + device_token) \<times> pairing_store" where
  "approve_write E now rand pair_id r s =
     (if is_expired E now (pr_expires_at r) then (Inl PairRequestExpired, set_request_status pair_id ''expired'' s)
      else
        issue_token E now rand (pr_device_id r) default_scopes
          (upsert_device E now (pr_device_id r) (pr_display_name r) (pr_platform r) (pr_public_key r)
             (set_request_status pair_id ''approved'' s)))"

definition approve :: "pair_env \<Rightarrow> nat \<Rightarrow> string \<Rightarrow> string \<Rightarrow> pairing_store \<Rightarrow> (pair_error + device_token) \<times> pairing_store" where
  "approve E now rand pair_id s =
     (case approve_load pair_id s of
        Inl e \<Rightarrow> (Inl e, s)
      | Inr r \<Rightarrow> approve_write E now rand pair_id r s)"

definition reject_load :: "string \<Rightarrow> pairing_store \<Rightarrow> pair_error + unit" where
  "reject_load pair_id s =
     (case row_with pr_id pair_id (requests s) of
        None \<Rightarrow> Inl PairRequestNotFound
      | Some r \<Rightarrow>
          if status_from_str (pr_status r) \<noteq> Pending then Inl (PairRequestNotPending (status_from_str (pr_status r)))
          else Inr ())"

definition reject :: "string \<Rightarrow> pairing_store \<Rightarrow> (pair_error + unit) \<times> pairing_store" where
  "reject pair_id s =
     (case reject_load pair_id s of
        Inl e \<Rightarrow> (Inl e, s)
      | Inr _ \<Rightarrow> (Inr (), set_request_status pair_id ''rejected'' s))"

definition get_pair_status :: "string \<Rightarrow> pairing_store \<Rightarrow> pair_status option" where
  "get_pair_status pair_id s = map_option (\<lambda>r. status_from_str (pr_status r)) (row_with pr_id pair_id (requests s))"

definition evict_expired_at :: "pair_env \<Rightarrow> string \<Rightarrow> pairing_store \<Rightarrow> nat \<times> pairing_store" where
  "evict_expired_at E now s =
     (let gone = (\<lambda>r. pr_status r = ''pending'' \<and> sql_not_later E (pr_expires_at r) now) in
      (length (filter gone (requests s)),
       s\<lparr>requests := update_where gone (\<lambda>r. r\<lparr>pr_status := ''expired''\<rparr>) (requests s)\<rparr>))"

definition evict_expired_now :: "pair_env \<Rightarrow> nat \<Rightarrow> pairing_store \<Rightarrow> nat \<times> pairing_store" where
  "evict_expired_now E now s = evict_expired_at E (rfc3339 E now) s"

section \<open>Devices and tokens\<close>

text \<open>Rows in descending order of a key; rows with the same key stay in the order of the table.\<close>

definition order_desc :: "('r \<Rightarrow> string) \<Rightarrow> 'r list \<Rightarrow> 'r list" where
  "order_desc key rows = rev (sort_key key (rev rows))"

definition list_devices :: "pairing_store \<Rightarrow> paired_device list" where
  "list_devices s = map paired_device.truncate (order_desc pd_created_at (filter (\<lambda>d. dv_status d = ''active'') (devices s)))"

definition list_device_tokens :: "string \<Rightarrow> pairing_store \<Rightarrow> device_token_entry list" where
  "list_device_tokens device_id s =
     map (\<lambda>t. \<lparr>de_token_prefix = tk_prefix t, de_device_id = device_id, de_scopes = tk_scopes t, de_issued_at = tk_issued_at t\<rparr>)
       (order_desc tk_issued_at (filter (\<lambda>t. tk_device_id t = device_id \<and> \<not> tk_revoked t) (tokens s)))"

definition revoke_tokens_of :: "string \<Rightarrow> pairing_store \<Rightarrow> pairing_store" where
  "revoke_tokens_of device_id s =
     s\<lparr>tokens := update_where (\<lambda>t. tk_device_id t = device_id) (\<lambda>t. t\<lparr>tk_revoked := True\<rparr>) (tokens s)\<rparr>"

definition current_scopes :: "string \<Rightarrow> pairing_store \<Rightarrow> string list" where
  "current_scopes device_id s =
     (case find (\<lambda>t. tk_device_id t = device_id \<and> \<not> tk_revoked t) (tokens s) of Some t \<Rightarrow> tk_scopes t | None \<Rightarrow> default_scopes)"

definition mark_revoked :: "pair_env \<Rightarrow> nat \<Rightarrow> string \<Rightarrow> pairing_store \<Rightarrow> pairing_store" where
  "mark_revoked E now device_id s =
     s\<lparr>devices := update_where (\<lambda>d. pd_device_id d = device_id)
       (\<lambda>d. d\<lparr>dv_status := ''revoked'', dv_revoked_at := Some (sqlite_text E now)\<rparr>) (devices s)\<rparr>"

definition rotate_token :: "pair_env \<Rightarrow> nat \<Rightarrow> string \<Rightarrow> string \<Rightarrow> pairing_store \<Rightarrow> (pair_error + device_token) \<times> pairing_store" where
  "rotate_token E now rand device_id s =
     (if row_with pd_device_id device_id (devices s) = None then (Inl DeviceNotFound, s)
      else
        issue_token E now rand device_id (current_scopes device_id s) (revoke_tokens_of device_id s))"

definition revoke_token :: "pair_env \<Rightarrow> nat \<Rightarrow> string \<Rightarrow> pairing_store \<Rightarrow> (pair_error + unit) \<times> pairing_store" where
  "revoke_token E now device_id s =
     (if row_with pd_device_id device_id (devices s) = None then (Inl DeviceNotFound, s)
      else
        (Inr (), mark_revoked E now device_id (revoke_tokens_of device_id s)))"

definition verify_device_token :: "pair_env \<Rightarrow> string \<Rightarrow> pairing_store \<Rightarrow> device_token_verification option" where
  "verify_device_token E raw s =
     (case find (\<lambda>t. tk_hash t = sha256 E raw \<and> \<not> tk_revoked t) (tokens s) of
        None \<Rightarrow> None
      | Some t \<Rightarrow>
          if find (\<lambda>d. pd_device_id d = tk_device_id t \<and> dv_status d = ''active'') (devices s) = None then None
          else Some \<lparr>dtv_device_id = tk_device_id t, dtv_scopes = tk_scopes t\<rparr>)"

definition insert_device :: "pair_env \<Rightarrow> nat \<Rightarrow> string \<Rightarrow> string option \<Rightarrow> string \<Rightarrow> pairing_store \<Rightarrow> pairing_store option" where
  "insert_device E now device_id display_name platform s =
     (if row_with pd_device_id device_id (devices s) \<noteq> None then None
      else Some (s\<lparr>devices := devices s @ [\<lparr>pd_device_id = device_id, pd_display_name = display_name, pd_platform = platform,
        pd_public_key = None, pd_created_at = sqlite_text E now, dv_status = ''active'', dv_revoked_at = None\<rparr>]\<rparr>))"

definition create_device_token ::
  "pair_env \<Rightarrow> nat \<Rightarrow> string \<Rightarrow> string \<Rightarrow> string option \<Rightarrow> string \<Rightarrow> pairing_store \<Rightarrow> (pair_error + device_token) \<times> pairing_store" where
  "create_device_token E now device_id rand display_name platform s =
     (case insert_device E now device_id display_name platform s of
        None \<Rightarrow> (Inl Db, s)
      | Some s \<Rightarrow> issue_token E now rand device_id default_scopes s)"

section \<open>Keys of devices\<close>

definition find_device_by_public_key :: "string \<Rightarrow> pairing_store \<Rightarrow> paired_device option" where
  "find_device_by_public_key key s =
     map_option paired_device.truncate (find (\<lambda>d. pd_public_key d = Some key \<and> dv_status d = ''active'') (devices s))"

definition is_public_key_revoked :: "string \<Rightarrow> pairing_store \<Rightarrow> bool" where
  "is_public_key_revoked key s \<longleftrightarrow> find (\<lambda>d. pd_public_key d = Some key \<and> dv_status d = ''revoked'') (devices s) \<noteq> None"

definition pin_update :: "string \<Rightarrow> string \<Rightarrow> pairing_store \<Rightarrow> nat \<times> pairing_store" where
  "pin_update device_id key s =
     (let free = (\<lambda>d. pd_device_id d = device_id \<and> dv_status d = ''active'' \<and> pd_public_key d = None) in
      (length (filter free (devices s)),
       s\<lparr>devices := update_where free (\<lambda>d. d\<lparr>pd_public_key := Some key\<rparr>) (devices s)\<rparr>))"

definition pin_load :: "string \<Rightarrow> string \<Rightarrow> pairing_store \<Rightarrow> pin_public_key_result option" where
  "pin_load device_id key s =
     (case row_with pd_device_id device_id (devices s) of
        None \<Rightarrow> Some PinDeviceNotFound
      | Some d \<Rightarrow>
          if dv_status d = ''revoked'' then Some PinRevoked
          else if dv_status d = ''active'' then
            (case pd_public_key d of
               Some stored \<Rightarrow> Some (if stored = key then AlreadyPinned else PinMismatch stored)
             | None \<Rightarrow> None)
          else Some PinDeviceNotFound)"

definition pin_reload :: "string \<Rightarrow> string \<Rightarrow> pairing_store \<Rightarrow> pin_public_key_result" where
  "pin_reload device_id key s =
     (case row_with pd_device_id device_id (devices s) of
        None \<Rightarrow> PinDeviceNotFound
      | Some d \<Rightarrow>
          (case pd_public_key d of
             Some stored \<Rightarrow>
               if dv_status d = ''active'' \<and> stored = key then AlreadyPinned
               else if dv_status d = ''active'' then PinMismatch stored
               else if dv_status d = ''revoked'' then PinRevoked
               else PinDeviceNotFound
           | None \<Rightarrow> if dv_status d = ''revoked'' then PinRevoked else PinDeviceNotFound))"

definition pin_public_key :: "string \<Rightarrow> string \<Rightarrow> pairing_store \<Rightarrow> pin_public_key_result \<times> pairing_store" where
  "pin_public_key device_id key s =
     (case pin_load device_id key s of
        Some r \<Rightarrow> (r, s)
      | None \<Rightarrow>
          (case pin_update device_id key s of (affected, s) \<Rightarrow>
             (if 0 < affected then Pinned else pin_reload device_id key s, s)))"

definition check_key_pinning :: "string \<Rightarrow> string \<Rightarrow> pairing_store \<Rightarrow> key_pinning_result" where
  "check_key_pinning device_id presented s =
     (case row_with pd_device_id device_id (devices s) of
        None \<Rightarrow> NoPinnedKey
      | Some d \<Rightarrow>
          if dv_status d = ''active'' then
            (case pd_public_key d of
               Some stored \<Rightarrow> if stored = presented then Match else Mismatch stored
             | None \<Rightarrow> NoPinnedKey)
          else if dv_status d = ''revoked'' then Revoked
          else NoPinnedKey)"

section \<open>Challenges\<close>

text \<open>Base64, the curve and the digest; a text is the list of its bytes.\<close>

record pair_crypto =
  b64_decode :: "string \<Rightarrow> string option"
  b64_encode :: "string \<Rightarrow> string"
  is_verifying_key :: "string \<Rightarrow> bool"
  ed25519_verify :: "string \<Rightarrow> string \<Rightarrow> string \<Rightarrow> bool"
  sha256_digest :: "string \<Rightarrow> string"

datatype challenge_error = KeyBase64 | KeyLength | KeyInvalid | SignatureBase64 | SignatureLength

definition decode_key :: "pair_crypto \<Rightarrow> string \<Rightarrow> challenge_error + string" where
  "decode_key C public_key =
     (case b64_decode C public_key of
        None \<Rightarrow> Inl KeyBase64
      | Some pk \<Rightarrow>
          if length pk \<noteq> 32 then Inl KeyLength else if \<not> is_verifying_key C pk then Inl KeyInvalid else Inr pk)"

definition verify_ed25519_challenge :: "pair_crypto \<Rightarrow> string \<Rightarrow> string \<Rightarrow> string \<Rightarrow> challenge_error + bool" where
  "verify_ed25519_challenge C public_key nonce signature =
     (case decode_key C public_key of
        Inl e \<Rightarrow> Inl e
      | Inr pk \<Rightarrow>
          (case b64_decode C signature of
             None \<Rightarrow> Inl SignatureBase64
           | Some sg \<Rightarrow> if length sg \<noteq> 64 then Inl SignatureLength else Inr (ed25519_verify C pk nonce sg)))"

definition public_key_fingerprint :: "pair_crypto \<Rightarrow> string \<Rightarrow> challenge_error + string" where
  "public_key_fingerprint C public_key =
     (case decode_key C public_key of
        Inl e \<Rightarrow> Inl e
      | Inr pk \<Rightarrow> Inr (''SHA256:'' @ b64_encode C (sha256_digest C pk)))"

section \<open>The state in memory\<close>

record pairing_state =
  mem_pending :: "(string \<times> pair_status pair_request) list"
  mem_devices :: "(string \<times> device_token) list"

definition new_state :: pairing_state where
  "new_state = \<lparr>mem_pending = [], mem_devices = []\<rparr>"

definition mem_request_pair ::
  "pair_env \<Rightarrow> nat \<Rightarrow> string \<Rightarrow> string \<Rightarrow> string \<Rightarrow> string option \<Rightarrow> string \<Rightarrow> string option \<Rightarrow> pairing_state
   \<Rightarrow> pair_status pair_request \<times> pairing_state" where
  "mem_request_pair E now pair_id nonce device_id display_name platform public_key s =
     (let req = \<lparr>pr_id = pair_id, pr_device_id = device_id, pr_display_name = display_name, pr_platform = platform,
          pr_public_key = public_key, pr_nonce = nonce, pr_status = Pending, pr_created_at = rfc3339 E now,
          pr_expires_at = rfc3339 E (now + pair_ttl)\<rparr> in
      (req, s\<lparr>mem_pending := AList.update pair_id req (mem_pending s)\<rparr>))"

definition mem_list_pending :: "pair_env \<Rightarrow> nat \<Rightarrow> pairing_state \<Rightarrow> pair_status pair_request list" where
  "mem_list_pending E now s =
     filter (\<lambda>r. pr_status r = Pending \<and> rfc3339 E now < pr_expires_at r) (map snd (mem_pending s))"

definition mem_token :: "nat \<Rightarrow> string \<Rightarrow> string \<Rightarrow> string list \<Rightarrow> device_token" where
  "mem_token now uuid device_id scopes =
     \<lparr>dt_token = uuid, dt_device_id = device_id, dt_scopes = scopes, dt_issued_at_ms = now div 10 ^ 6, dt_revoked = False\<rparr>"

definition mem_approve :: "pair_env \<Rightarrow> nat \<Rightarrow> string \<Rightarrow> string \<Rightarrow> pairing_state \<Rightarrow> (pair_error + device_token) \<times> pairing_state" where
  "mem_approve E now uuid pair_id s =
     (case map_of (mem_pending s) pair_id of
        None \<Rightarrow> (Inl PairRequestNotFound, s)
      | Some req \<Rightarrow>
          if pr_status req \<noteq> Pending then (Inl (PairRequestNotPending (pr_status req)), s)
          else if pr_expires_at req \<le> rfc3339 E now then
            (Inl PairRequestExpired, s\<lparr>mem_pending := AList.update pair_id (req\<lparr>pr_status := Expired\<rparr>) (mem_pending s)\<rparr>)
          else
            (let token = mem_token now uuid (pr_device_id req) default_scopes in
             (Inr token, s\<lparr>mem_pending := AList.update pair_id (req\<lparr>pr_status := Approved\<rparr>) (mem_pending s),
                mem_devices := AList.update (pr_device_id req) token (mem_devices s)\<rparr>)))"

definition mem_reject :: "string \<Rightarrow> pairing_state \<Rightarrow> (pair_error + unit) \<times> pairing_state" where
  "mem_reject pair_id s =
     (case map_of (mem_pending s) pair_id of
        None \<Rightarrow> (Inl PairRequestNotFound, s)
      | Some req \<Rightarrow>
          if pr_status req \<noteq> Pending then (Inl (PairRequestNotPending (pr_status req)), s)
          else (Inr (), s\<lparr>mem_pending := AList.update pair_id (req\<lparr>pr_status := Rejected\<rparr>) (mem_pending s)\<rparr>))"

definition mem_list_devices :: "pairing_state \<Rightarrow> device_token list" where
  "mem_list_devices s = filter (\<lambda>d. \<not> dt_revoked d) (map snd (mem_devices s))"

definition mem_rotate_token :: "nat \<Rightarrow> string \<Rightarrow> string \<Rightarrow> pairing_state \<Rightarrow> (pair_error + device_token) \<times> pairing_state" where
  "mem_rotate_token now uuid device_id s =
     (case map_of (mem_devices s) device_id of
        None \<Rightarrow> (Inl DeviceNotFound, s)
      | Some existing \<Rightarrow>
          (let new_token = mem_token now uuid device_id (dt_scopes existing) in
           (Inr new_token, s\<lparr>mem_devices := AList.update device_id new_token (mem_devices s)\<rparr>)))"

definition mem_revoke_token :: "string \<Rightarrow> pairing_state \<Rightarrow> (pair_error + unit) \<times> pairing_state" where
  "mem_revoke_token device_id s =
     (case map_of (mem_devices s) device_id of
        None \<Rightarrow> (Inl DeviceNotFound, s)
      | Some existing \<Rightarrow>
          (Inr (), s\<lparr>mem_devices := AList.update device_id (existing\<lparr>dt_revoked := True\<rparr>) (mem_devices s)\<rparr>))"

definition mem_create_device_token :: "nat \<Rightarrow> string \<Rightarrow> string \<Rightarrow> pairing_state \<Rightarrow> device_token \<times> pairing_state" where
  "mem_create_device_token now device_id uuid s =
     (let token = mem_token now uuid device_id default_scopes in
      (token, s\<lparr>mem_devices := AList.update device_id token (mem_devices s)\<rparr>))"

definition mem_evict_expired :: "pair_env \<Rightarrow> nat \<Rightarrow> pairing_state \<Rightarrow> pairing_state" where
  "mem_evict_expired E now s =
     s\<lparr>mem_pending := alist_retain (\<lambda>r. \<not> (pr_status r = Pending \<and> pr_expires_at r \<le> rfc3339 E now)) (mem_pending s)\<rparr>"

section \<open>Runs of the store\<close>

text \<open>The operations, each made without interruption.\<close>

datatype pairing_op =
    Request nat string string string "string option" string "string option"
  | Approve nat string string
  | Reject string
  | Rotate nat string string
  | Revoke nat string
  | Create nat string string "string option" string
  | Pin string string
  | Evict nat

fun store_call :: "pair_env \<Rightarrow> pairing_store \<Rightarrow> pairing_op \<Rightarrow> pairing_store" where
  "store_call E s (Request now pair_id nonce dev name platform key) = snd (request_pair E now pair_id nonce dev name platform key s)"
| "store_call E s (Approve now rand pair_id) = snd (approve E now rand pair_id s)"
| "store_call E s (Reject pair_id) = snd (reject pair_id s)"
| "store_call E s (Rotate now rand dev) = snd (rotate_token E now rand dev s)"
| "store_call E s (Revoke now dev) = snd (revoke_token E now dev s)"
| "store_call E s (Create now dev rand name platform) = snd (create_device_token E now dev rand name platform s)"
| "store_call E s (Pin dev key) = snd (pin_public_key dev key s)"
| "store_call E s (Evict now) = snd (evict_expired_now E now s)"

text \<open>Every statement is awaited, so operations interleave between their statements. A task is an operation before its next
  statement, with what it read so far.\<close>

datatype pairing_result = GotToken device_token | GotUnit | GotPin pin_public_key_result | GotError pair_error

datatype pairing_task =
    Approving string
  | Expiring string
  | Marking string request_row
  | PairingDevice request_row
  | Issuing string "string list"
  | Rejecting string
  | MarkingRejected string
  | Rotating string
  | ReadingScopes string
  | RotateRevoking string "string list"
  | Revoking string
  | RevokingTokens string
  | RevokingDevice string
  | Creating string "string option" string
  | Pinning string string
  | PinUpdating string string
  | PinReading string string
  | Finished pairing_result

fun task_step :: "pair_env \<Rightarrow> nat \<Rightarrow> string \<Rightarrow> pairing_task \<Rightarrow> pairing_store \<Rightarrow> pairing_task \<times> pairing_store" where
  "task_step E now rand (Approving pair_id) s =
     (case approve_load pair_id s of
        Inl e \<Rightarrow> (Finished (GotError e), s)
      | Inr r \<Rightarrow> (if is_expired E now (pr_expires_at r) then Expiring pair_id else Marking pair_id r, s))"
| "task_step E now rand (Expiring pair_id) s = (Finished (GotError PairRequestExpired), set_request_status pair_id ''expired'' s)"
| "task_step E now rand (Marking pair_id r) s = (PairingDevice r, set_request_status pair_id ''approved'' s)"
| "task_step E now rand (PairingDevice r) s =
     (Issuing (pr_device_id r) default_scopes,
      upsert_device E now (pr_device_id r) (pr_display_name r) (pr_platform r) (pr_public_key r) s)"
| "task_step E now rand (Issuing dev scopes) s =
     (case issue_token E now rand dev scopes s of
        (Inr t, s) \<Rightarrow> (Finished (GotToken t), s)
      | (Inl e, s) \<Rightarrow> (Finished (GotError e), s))"
| "task_step E now rand (Rejecting pair_id) s =
     (case reject_load pair_id s of Inl e \<Rightarrow> (Finished (GotError e), s) | Inr _ \<Rightarrow> (MarkingRejected pair_id, s))"
| "task_step E now rand (MarkingRejected pair_id) s = (Finished GotUnit, set_request_status pair_id ''rejected'' s)"
| "task_step E now rand (Rotating dev) s =
     (if row_with pd_device_id dev (devices s) = None then Finished (GotError DeviceNotFound) else ReadingScopes dev, s)"
| "task_step E now rand (ReadingScopes dev) s = (RotateRevoking dev (current_scopes dev s), s)"
| "task_step E now rand (RotateRevoking dev scopes) s = (Issuing dev scopes, revoke_tokens_of dev s)"
| "task_step E now rand (Revoking dev) s =
     (if row_with pd_device_id dev (devices s) = None then Finished (GotError DeviceNotFound) else RevokingTokens dev, s)"
| "task_step E now rand (RevokingTokens dev) s = (RevokingDevice dev, revoke_tokens_of dev s)"
| "task_step E now rand (RevokingDevice dev) s = (Finished GotUnit, mark_revoked E now dev s)"
| "task_step E now rand (Creating dev name platform) s =
     (case insert_device E now dev name platform s of
        None \<Rightarrow> (Finished (GotError Db), s)
      | Some s \<Rightarrow> (Issuing dev default_scopes, s))"
| "task_step E now rand (Pinning dev key) s =
     (case pin_load dev key s of Some r \<Rightarrow> (Finished (GotPin r), s) | None \<Rightarrow> (PinUpdating dev key, s))"
| "task_step E now rand (PinUpdating dev key) s =
     (case pin_update dev key s of (affected, s) \<Rightarrow> (if 0 < affected then Finished (GotPin Pinned) else PinReading dev key, s))"
| "task_step E now rand (PinReading dev key) s = (Finished (GotPin (pin_reload dev key s)), s)"
| "task_step E now rand (Finished r) s = (Finished r, s)"

text \<open>The state of the store and of the operations under way. \<open>Go\<close> makes the next statement of one of them, at a time and with a random
  text for a new token; \<open>AskPair\<close> and \<open>EvictExpired\<close> are single statements.\<close>

record pairing_world =
  pw_store :: pairing_store
  pw_tasks :: "pairing_task list"

datatype pairing_move =
    AskPair nat string string string "string option" string "string option"
  | EvictExpired nat
  | Begin pairing_task
  | Go nat nat string

fun is_call :: "pairing_task \<Rightarrow> bool" where
  "is_call (Approving pair_id) = True"
| "is_call (Rejecting pair_id) = True"
| "is_call (Rotating dev) = True"
| "is_call (Revoking dev) = True"
| "is_call (Creating dev name platform) = True"
| "is_call (Pinning dev key) = True"
| "is_call _ = False"

fun store_step :: "pair_env \<Rightarrow> pairing_world \<Rightarrow> pairing_move \<Rightarrow> pairing_world" where
  "store_step E w (AskPair now pair_id nonce dev name platform key) =
     w\<lparr>pw_store := snd (request_pair E now pair_id nonce dev name platform key (pw_store w))\<rparr>"
| "store_step E w (EvictExpired now) = w\<lparr>pw_store := snd (evict_expired_now E now (pw_store w))\<rparr>"
| "store_step E w (Begin t) = (if is_call t then w\<lparr>pw_tasks := pw_tasks w @ [t]\<rparr> else w)"
| "store_step E w (Go k now rand) =
     (if k < length (pw_tasks w) then
        (case task_step E now rand (pw_tasks w ! k) (pw_store w) of (t, s) \<Rightarrow> \<lparr>pw_store = s, pw_tasks = (pw_tasks w)[k := t]\<rparr>)
      else w)"

definition empty_world :: pairing_world where
  "empty_world = \<lparr>pw_store = empty_store, pw_tasks = []\<rparr>"

abbreviation store_run :: "pair_env \<Rightarrow> pairing_move list \<Rightarrow> pairing_world" where
  "store_run E ms \<equiv> foldl (store_step E) empty_world ms"

text \<open>The token a move hands out, and the moves that withdraw those of a device: the insertion of a token, and the statement of a
  rotation or a revocation that revokes.\<close>

definition next_statement :: "pairing_world \<Rightarrow> nat \<Rightarrow> pairing_task option" where
  "next_statement w k = (if k < length (pw_tasks w) then Some (pw_tasks w ! k) else None)"

fun hands_out :: "pair_env \<Rightarrow> pairing_world \<Rightarrow> pairing_move \<Rightarrow> device_token option" where
  "hands_out E w (Go k now rand) =
     (case next_statement w k of
        Some (Issuing dev scopes) \<Rightarrow> (case fst (issue_token E now rand dev scopes (pw_store w)) of Inr t \<Rightarrow> Some t | Inl e \<Rightarrow> None)
      | _ \<Rightarrow> None)"
| "hands_out E w _ = None"

fun withdraws :: "string \<Rightarrow> pairing_world \<Rightarrow> pairing_move \<Rightarrow> bool" where
  "withdraws dev w (Go k now rand) =
     (case next_statement w k of
        Some (RotateRevoking d scopes) \<Rightarrow> d = dev
      | Some (RevokingTokens d) \<Rightarrow> d = dev
      | _ \<Rightarrow> False)"
| "withdraws dev w _ = False"

definition device_active :: "string \<Rightarrow> pairing_store \<Rightarrow> bool" where
  "device_active dev s \<longleftrightarrow> list_ex (\<lambda>d. pd_device_id d = dev \<and> dv_status d = ''active'') (devices s)"

section \<open>Rows\<close>

lemma row_with_None: "row_with key k rows = None \<longleftrightarrow> k \<notin> key ` set rows"
  by (auto simp: row_with_def find_None_iff)

lemma row_with_SomeD: "row_with key k rows = Some r \<Longrightarrow> r \<in> set rows \<and> key r = k"
  by (auto simp: row_with_def find_Some_iff)

lemma row_with_update_where:
  "(\<And>r. key (f r) = key r) \<Longrightarrow>
   row_with key k (update_where P f rows) = map_option (\<lambda>r. if P r then f r else r) (row_with key k rows)"
  by (induction rows) (auto simp: row_with_def update_where_def)

lemma row_with_snoc:
  "row_with key k (rows @ [r]) = (case row_with key k rows of Some q \<Rightarrow> Some q | None \<Rightarrow> if key r = k then Some r else None)"
  by (induction rows) (auto simp: row_with_def)

lemma map_update_where [simp]: "(\<And>r. key (f r) = key r) \<Longrightarrow> map key (update_where P f rows) = map key rows"
  by (auto simp: update_where_def)

lemma set_update_where: "set (update_where P f rows) = {r \<in> set rows. \<not> P r} \<union> f ` {r \<in> set rows. P r}"
  by (auto simp: update_where_def)

section \<open>The schema\<close>

definition schema_ok :: "pairing_store \<Rightarrow> bool" where
  "schema_ok s \<longleftrightarrow>
     distinct (map pr_id (requests s)) \<and> distinct (map pd_device_id (devices s)) \<and> distinct (map tk_hash (tokens s)) \<and>
     pr_status ` set (requests s) \<subseteq> range status_as_str \<and> dv_status ` set (devices s) \<subseteq> {''active'', ''revoked''} \<and>
     tk_device_id ` set (tokens s) \<subseteq> pd_device_id ` set (devices s)"

lemma status_from_as_str [simp]: "status_from_str (status_as_str st) = st"
  by (cases st) (simp_all add: status_from_str_def)

lemma range_status_as_str: "range status_as_str = {''pending'', ''approved'', ''rejected'', ''expired''}"
proof -
  have "UNIV = {Pending, Approved, Rejected, Expired}" using pair_status.exhaust by auto
  then have "range status_as_str = status_as_str ` {Pending, Approved, Rejected, Expired}" by simp
  then show ?thesis by simp
qed

lemma image_update_where_subset:
  "g ` set rows \<subseteq> S \<Longrightarrow> (\<And>r. P r \<Longrightarrow> g (f r) \<in> S) \<Longrightarrow> g ` set (update_where P f rows) \<subseteq> S"
  by (auto simp: set_update_where)

lemma schema_set_request_status:
  "schema_ok s \<Longrightarrow> st \<in> range status_as_str \<Longrightarrow> schema_ok (set_request_status pid st s)"
  by (simp add: schema_ok_def set_request_status_def image_update_where_subset)

lemma schema_issue_token: "schema_ok s \<Longrightarrow> schema_ok (snd (issue_token E now rand dev scopes s))"
  by (auto simp: schema_ok_def issue_token_def insert_token_def row_with_None split: option.splits if_splits)

lemma schema_revoke_tokens: "schema_ok s \<Longrightarrow> schema_ok (revoke_tokens_of dev s)"
  by (auto simp: schema_ok_def revoke_tokens_of_def set_update_where)

lemma schema_devices_update:
  assumes "schema_ok s" "\<And>d. pd_device_id (f d) = pd_device_id d" "\<And>d. P d \<Longrightarrow> dv_status (f d) \<in> {''active'', ''revoked''}"
  shows "schema_ok (s\<lparr>devices := update_where P f (devices s)\<rparr>)"
proof -
  have "pd_device_id ` set (update_where P f (devices s)) = pd_device_id ` set (devices s)"
    using map_update_where [of pd_device_id f P "devices s"] assms(2) by (metis set_map)
  moreover have "dv_status ` set (update_where P f (devices s)) \<subseteq> {''active'', ''revoked''}"
    by (rule image_update_where_subset) (use assms in \<open>simp_all add: schema_ok_def\<close>)
  ultimately show ?thesis using assms(1,2) unfolding schema_ok_def by simp
qed

lemma schema_new_device:
  assumes "schema_ok s" "pd_device_id d \<notin> pd_device_id ` set (devices s)" "dv_status d = ''active''"
  shows "schema_ok (s\<lparr>devices := devices s @ [d]\<rparr>)"
  using assms by (auto simp: schema_ok_def)

lemma schema_upsert: "schema_ok s \<Longrightarrow> schema_ok (upsert_device E now dev name platform key s)"
  unfolding upsert_device_def by (auto simp: row_with_None intro!: schema_new_device schema_devices_update)

lemmas schema_intros = schema_set_request_status schema_issue_token schema_revoke_tokens schema_devices_update
  schema_new_device schema_upsert

lemma schema_mark_revoked: "schema_ok s \<Longrightarrow> schema_ok (mark_revoked E now dev s)"
  unfolding mark_revoked_def by (rule schema_devices_update) simp_all

lemma schema_insert_device: "schema_ok s \<Longrightarrow> insert_device E now dev name platform s = Some s' \<Longrightarrow> schema_ok s'"
  by (auto simp: insert_device_def row_with_None intro!: schema_new_device split: if_splits)

lemma schema_pin_update: "schema_ok s \<Longrightarrow> schema_ok (snd (pin_update dev key s))"
  by (auto simp: pin_update_def Let_def intro!: schema_intros)

lemma schema_task_step: "schema_ok s \<Longrightarrow> schema_ok (snd (task_step E now rand t s))"
proof (cases t)
  case (Issuing dev scopes)
  then show "schema_ok s \<Longrightarrow> ?thesis" using schema_issue_token [of s E now rand dev scopes] by (auto split: prod.split sum.split)
next
  case (PinUpdating dev key)
  then show "schema_ok s \<Longrightarrow> ?thesis" using schema_pin_update [of s dev key] by (auto split: prod.split)
qed (auto simp: range_status_as_str intro: schema_intros schema_mark_revoked schema_insert_device split: sum.split option.split)

definition world_ok :: "pairing_world \<Rightarrow> bool" where
  "world_ok w \<longleftrightarrow> schema_ok (pw_store w)"

lemma schema_store_step: "world_ok w \<Longrightarrow> world_ok (store_step E w m)"
proof (cases m)
  case (AskPair now pair_id nonce dev name platform key)
  then show "world_ok w \<Longrightarrow> ?thesis"
    by (auto simp: world_ok_def request_pair_def Let_def schema_ok_def row_with_None range_status_as_str)
next
  case (EvictExpired now)
  then show "world_ok w \<Longrightarrow> ?thesis"
    by (auto simp: world_ok_def evict_expired_now_def evict_expired_at_def Let_def schema_ok_def range_status_as_str image_update_where_subset)
next
  case (Go k now rand)
  then show "world_ok w \<Longrightarrow> ?thesis"
    using schema_task_step [of "pw_store w" E now rand "pw_tasks w ! k"] by (auto simp: world_ok_def split: prod.split)
qed (simp add: world_ok_def)

interpretation pairing: event_machine "store_step E" "\<lambda>_ _. True" world_ok for E
  by unfold_locales (rule schema_store_step)

lemma empty_world_ok: "world_ok empty_world"
  by (simp add: world_ok_def schema_ok_def empty_world_def empty_store_def)

text \<open>An operation that nothing interrupts does what its function says.\<close>

definition steps :: "nat \<Rightarrow> pair_env \<Rightarrow> nat \<Rightarrow> string \<Rightarrow> pairing_task \<Rightarrow> pairing_store \<Rightarrow> pairing_task \<times> pairing_store" where
  "steps n E now rand t s = ((\<lambda>(t, s). task_step E now rand t s) ^^ n) (t, s)"

lemma steps_simps [simp]:
  "steps 0 E now rand t s = (t, s)"
  "steps (Suc n) E now rand t s = (case task_step E now rand t s of (t, s) \<Rightarrow> steps n E now rand t s)"
  by (simp_all add: steps_def funpow_swap1 split: prod.split)

lemma uninterrupted:
  "steps 4 E now rand (Approving pid) s = (case approve E now rand pid s of (r, s') \<Rightarrow> (Finished (case_sum GotError GotToken r), s'))"
  "steps 2 E now rand (Rejecting pid) s = (case reject pid s of (r, s') \<Rightarrow> (Finished (case_sum GotError (\<lambda>_. GotUnit) r), s'))"
  "steps 4 E now rand (Rotating dev) s = (case rotate_token E now rand dev s of (r, s') \<Rightarrow> (Finished (case_sum GotError GotToken r), s'))"
  "steps 3 E now rand (Revoking dev) s = (case revoke_token E now dev s of (r, s') \<Rightarrow> (Finished (case_sum GotError (\<lambda>_. GotUnit) r), s'))"
  "steps 2 E now rand (Creating dev name platform) s =
     (case create_device_token E now dev rand name platform s of (r, s') \<Rightarrow> (Finished (case_sum GotError GotToken r), s'))"
  "steps 3 E now rand (Pinning dev key) s = (case pin_public_key dev key s of (r, s') \<Rightarrow> (Finished (GotPin r), s'))"
  by (auto simp: numeral_eq_Suc approve_def approve_write_def reject_def rotate_token_def revoke_token_def create_device_token_def
      pin_public_key_def Let_def split: sum.split option.split prod.split)

section \<open>Grants and their withdrawal\<close>

text \<open>A machine whose events hand out grants and withdraw them: what is held is what some event handed out
  and no later event withdrew.\<close>

fun kept_through :: "('s \<Rightarrow> 'e \<Rightarrow> 's) \<Rightarrow> ('s \<Rightarrow> 'e \<Rightarrow> bool) \<Rightarrow> 's \<Rightarrow> 'e list \<Rightarrow> bool" where
  "kept_through step takes s [] = True"
| "kept_through step takes s (e # es) = (\<not> takes s e \<and> kept_through step takes (step s e) es)"

lemma kept_through_snoc [simp]:
  "kept_through step takes s (es @ [e]) = (kept_through step takes s es \<and> \<not> takes (foldl step s es) e)"
  by (induction es arbitrary: s) auto

locale ledger = event_machine step "\<lambda>_ _. True" inv
  for step :: "'s \<Rightarrow> 'e \<Rightarrow> 's" and inv :: "'s \<Rightarrow> bool" +
  fixes holds :: "'s \<Rightarrow> 'g \<Rightarrow> bool"
    and gives :: "'s \<Rightarrow> 'e \<Rightarrow> 'g \<Rightarrow> bool"
    and takes :: "'g \<Rightarrow> 's \<Rightarrow> 'e \<Rightarrow> bool"
  assumes holds_step: "inv s \<Longrightarrow> holds (step s e) g \<longleftrightarrow> gives s e g \<or> holds s g \<and> \<not> takes g s e"
begin

lemma holds_run:
  assumes "inv s" "\<not> holds s g"
  shows "holds (foldl step s es) g \<longleftrightarrow>
    (\<exists>pre e post. es = pre @ e # post \<and> gives (foldl step s pre) e g \<and> kept_through step (takes g) (foldl step s (pre @ [e])) post)"
proof (induction es rule: rev_induct)
  case Nil
  then show ?case using assms(2) by simp
next
  case (snoc e es)
  have "inv (foldl step s es)" using inv_run [OF assms(1)] by simp
  note step = holds_step [OF this, of e g]
  show ?case
  proof
    assume "holds (foldl step s (es @ [e])) g"
    then consider "gives (foldl step s es) e g" | "holds (foldl step s es) g" "\<not> takes g (foldl step s es) e" using step by auto
    then show "\<exists>pre e' post. es @ [e] = pre @ e' # post \<and> gives (foldl step s pre) e' g \<and>
        kept_through step (takes g) (foldl step s (pre @ [e'])) post"
    proof cases
      case 1
      then show ?thesis by (intro exI [of _ es] exI [of _ e] exI [of _ "[]"]) simp
    next
      case 2
      then obtain pre e' post where "es = pre @ e' # post" "gives (foldl step s pre) e' g"
          "kept_through step (takes g) (foldl step s (pre @ [e'])) post"
        using snoc.IH by blast
      then show ?thesis using 2(2) by (intro exI [of _ pre] exI [of _ e'] exI [of _ "post @ [e]"]) simp
    qed
  next
    assume "\<exists>pre e' post. es @ [e] = pre @ e' # post \<and> gives (foldl step s pre) e' g \<and>
        kept_through step (takes g) (foldl step s (pre @ [e'])) post"
    then obtain pre e' post where split: "es @ [e] = pre @ e' # post" "gives (foldl step s pre) e' g"
        "kept_through step (takes g) (foldl step s (pre @ [e'])) post" by blast
    show "holds (foldl step s (es @ [e])) g"
    proof (cases post rule: rev_cases)
      case Nil
      then show ?thesis using split step by simp
    next
      case (snoc post' x)
      then have es: "es = pre @ e' # post'" "x = e" using split(1) by auto
      then have "holds (foldl step s es) g" "\<not> takes g (foldl step s es) e" using snoc.IH split snoc by auto
      then show ?thesis using step by simp
    qed
  qed
qed

end

subsection \<open>Tokens of the store\<close>

definition token_held :: "pairing_store \<Rightarrow> string \<times> string \<times> string list \<Rightarrow> bool" where
  "token_held s g \<longleftrightarrow> (case g of (h, dev, scopes) \<Rightarrow>
     \<exists>t\<in>set (tokens s). tk_hash t = h \<and> tk_device_id t = dev \<and> tk_scopes t = scopes \<and> \<not> tk_revoked t)"

definition token_given :: "pair_env \<Rightarrow> pairing_world \<Rightarrow> pairing_move \<Rightarrow> string \<times> string \<times> string list \<Rightarrow> bool" where
  "token_given E w m g \<longleftrightarrow> (case g of (h, dev, scopes) \<Rightarrow>
     \<exists>t. hands_out E w m = Some t \<and> sha256 E (dt_token t) = h \<and> dt_device_id t = dev \<and> dt_scopes t = scopes)"

lemma held_issue_token:
  "token_held (snd (issue_token E now rand dev scopes s)) g \<longleftrightarrow>
     token_held s g \<or> (\<exists>t. fst (issue_token E now rand dev scopes s) = Inr t \<and>
       g = (sha256 E (dt_token t), dt_device_id t, dt_scopes t))"
  by (auto simp: issue_token_def insert_token_def token_held_def split: option.splits prod.splits)

lemma held_frame:
  "tokens s' = tokens s \<Longrightarrow> token_held s' = token_held s"
  by (simp add: token_held_def fun_eq_iff)

lemma held_revoke_tokens: "token_held (revoke_tokens_of dev s) g \<longleftrightarrow> token_held s g \<and> fst (snd g) \<noteq> dev"
  by (auto simp: token_held_def revoke_tokens_of_def set_update_where split: prod.splits)

lemma held_no_device: "schema_ok s \<Longrightarrow> row_with pd_device_id dev (devices s) = None \<Longrightarrow> \<not> token_held s (h, dev, scopes)"
  unfolding row_with_None by (auto simp: schema_ok_def token_held_def)

lemma tokens_upsert [simp]: "tokens (upsert_device E now dev name platform key s) = tokens s"
  by (simp add: upsert_device_def)

lemma tokens_set_status [simp]: "tokens (set_request_status pid st s) = tokens s"
  by (simp add: set_request_status_def)

lemma tokens_insert_device: "insert_device E now dev name platform s = Some s' \<Longrightarrow> tokens s' = tokens s"
  by (auto simp: insert_device_def split: if_splits)

lemma tokens_other [simp]:
  "tokens (mark_revoked E now dev s) = tokens s" "tokens (snd (pin_update dev key s)) = tokens s"
  "tokens (snd (request_pair E now pid nonce dev name platform pkey s)) = tokens s" "tokens (snd (evict_expired_now E now s)) = tokens s"
  by (auto simp: mark_revoked_def pin_update_def request_pair_def evict_expired_now_def evict_expired_at_def Let_def)

text \<open>A statement that is neither an insertion of a token nor a revocation leaves them alone.\<close>

fun touches_tokens :: "pairing_task \<Rightarrow> bool" where
  "touches_tokens (Issuing dev scopes) = True"
| "touches_tokens (RotateRevoking dev scopes) = True"
| "touches_tokens (RevokingTokens dev) = True"
| "touches_tokens _ = False"

lemma tokens_task_step:
  assumes "\<not> touches_tokens t"
  shows "tokens (snd (task_step E now rand t s)) = tokens s"
proof (cases t)
  case (PinUpdating dev key)
  then show ?thesis using tokens_other(2) [of dev key s] by (cases "pin_update dev key s") (simp del: tokens_other)
qed (use assms in \<open>auto simp: tokens_insert_device split: sum.split option.split\<close>)

interpretation token_ledger: ledger "store_step E" world_ok "\<lambda>w. token_held (pw_store w)" "token_given E" "\<lambda>g. withdraws (fst (snd g))" for E
proof
  fix w m g assume "world_ok w"
  show "token_held (pw_store (store_step E w m)) g \<longleftrightarrow>
      token_given E w m g \<or> token_held (pw_store w) g \<and> \<not> withdraws (fst (snd g)) w m"
  proof (cases "\<exists>k now rand. m = Go k now rand \<and> k < length (pw_tasks w)")
    case False
    have "tokens (pw_store (store_step E w m)) = tokens (pw_store w) \<and> hands_out E w m = None \<and> \<not> withdraws (fst (snd g)) w m"
    proof (cases m)
      case (Go k now rand)
      then have "\<not> k < length (pw_tasks w)" using False by simp
      then show ?thesis using Go by (simp add: next_statement_def)
    qed simp_all
    then show ?thesis using held_frame [of "pw_store (store_step E w m)" "pw_store w"] by (simp add: token_given_def split: prod.split)
  next
    case True
    then obtain k now rand where m: "m = Go k now rand" "k < length (pw_tasks w)" by blast
    let ?t = "pw_tasks w ! k" and ?s = "pw_store w"
    have st: "pw_store (store_step E w m) = snd (task_step E now rand ?t ?s)" "next_statement w k = Some ?t"
      using m by (simp_all add: next_statement_def split: prod.split)
    show ?thesis
    proof (cases "touches_tokens ?t")
      case False
      then have "token_held (snd (task_step E now rand ?t ?s)) = token_held ?s" by (intro held_frame tokens_task_step)
      moreover have "hands_out E w m = None" "\<not> withdraws (fst (snd g)) w m" using False st(2) by (cases ?t; simp add: m)+
      ultimately show ?thesis by (simp add: st(1) token_given_def split: prod.split)
    next
      case True
      then consider dev scopes where "?t = Issuing dev scopes" | dev where "?t = RevokingTokens dev"
        | dev scopes where "?t = RotateRevoking dev scopes"
        by (cases ?t) auto
      then show ?thesis
      proof cases
        case 1
        then show ?thesis using st held_issue_token [of E now rand dev scopes ?s g]
          by (cases g) (auto simp: m token_given_def split: sum.splits prod.splits)
      qed (use st in \<open>auto simp: m token_given_def held_revoke_tokens split: prod.split\<close>)
    qed
  qed
qed

lemma find_unique:
  assumes "distinct (map key rows)" "r \<in> set rows" "key r = k" "P r"
  shows "find (\<lambda>r. key r = k \<and> P r) rows = Some r"
  using assms by (induction rows) auto

lemma verify_held:
  assumes "schema_ok s"
  shows "verify_device_token E raw s = Some v \<longleftrightarrow>
    token_held s (sha256 E raw, dtv_device_id v, dtv_scopes v) \<and> device_active (dtv_device_id v) s"
proof -
  have active: "find (\<lambda>d. pd_device_id d = dev \<and> dv_status d = ''active'') (devices s) \<noteq> None \<longleftrightarrow> device_active dev s" for dev
    by (auto simp: device_active_def find_None_iff list_ex_iff simp del: not_None_eq)
  have row: "find (\<lambda>t. tk_hash t = sha256 E raw \<and> \<not> tk_revoked t) (tokens s) = Some t \<longleftrightarrow>
      t \<in> set (tokens s) \<and> tk_hash t = sha256 E raw \<and> \<not> tk_revoked t" for t
    using find_unique [of tk_hash "tokens s" t "sha256 E raw" "\<lambda>t. \<not> tk_revoked t"] assms
    by (auto simp: schema_ok_def dest: find_Some_iff [THEN iffD1] nth_mem)
  have "verify_device_token E raw s = Some v \<longleftrightarrow>
      (\<exists>t. find (\<lambda>t. tk_hash t = sha256 E raw \<and> \<not> tk_revoked t) (tokens s) = Some t \<and> device_active (tk_device_id t) s \<and>
         v = \<lparr>dtv_device_id = tk_device_id t, dtv_scopes = tk_scopes t\<rparr>)"
    unfolding verify_device_token_def active [symmetric] by (auto split: option.splits)
  then show ?thesis unfolding row token_held_def by (cases v) auto
qed

section \<open>Settled requests\<close>

lemma status_frame: "requests s' = requests s \<Longrightarrow> get_pair_status pid s' = get_pair_status pid s"
  by (simp add: get_pair_status_def)

lemma settled_status: "status_from_str x \<noteq> Pending \<Longrightarrow> x \<noteq> ''pending''"
  by (auto simp: status_from_str_def)

lemma load_settled:
  assumes "get_pair_status pid s = Some st" "st \<noteq> Pending"
  shows "approve_load pid s = Inl (PairRequestNotPending st)" "reject_load pid s = Inl (PairRequestNotPending st)"
  using assms by (auto simp: get_pair_status_def approve_load_def reject_load_def Let_def)

lemma status_set_other:
  "pid \<noteq> other \<Longrightarrow> get_pair_status pid (set_request_status other st s) = get_pair_status pid s"
  unfolding get_pair_status_def set_request_status_def
  by (cases "row_with pr_id pid (requests s)") (auto simp: row_with_update_where dest: row_with_SomeD)

text \<open>An operation that has read the request as pending and is about to write its status.\<close>

fun deciding :: "string \<Rightarrow> pairing_task \<Rightarrow> bool" where
  "deciding pid (Expiring p) = (p = pid)"
| "deciding pid (Marking p r) = (p = pid)"
| "deciding pid (MarkingRejected p) = (p = pid)"
| "deciding pid _ = False"

lemma requests_task_step:
  "requests (snd (task_step E now rand t s)) =
     (case t of
        Expiring p \<Rightarrow> requests (set_request_status p ''expired'' s)
      | Marking p r \<Rightarrow> requests (set_request_status p ''approved'' s)
      | MarkingRejected p \<Rightarrow> requests (set_request_status p ''rejected'' s)
      | _ \<Rightarrow> requests s)"
proof -
  have "requests (snd (issue_token E now rand dev scopes s)) = requests s" "requests (upsert_device E now dev name platform key s) = requests s"
    "requests (revoke_tokens_of dev s) = requests s" "requests (mark_revoked E now dev s) = requests s"
    "requests (snd (pin_update dev pkey s)) = requests s" "insert_device E now dev name platform s = Some s' \<Longrightarrow> requests s' = requests s"
    for dev scopes name platform key pkey s'
    by (auto simp: issue_token_def insert_token_def upsert_device_def revoke_tokens_of_def mark_revoked_def pin_update_def insert_device_def
        Let_def split: option.splits if_splits)
  note frames = this
  show ?thesis
  proof (cases t)
    case (Issuing dev scopes)
    then show ?thesis using frames(1) [of dev scopes] by (auto split: prod.split sum.split)
  next
    case (PinUpdating dev key)
    then show ?thesis using frames(5) [of dev key] by (auto split: prod.split)
  qed (auto simp: frames split: sum.split option.split)
qed

lemma settled_task_step:
  assumes "get_pair_status pid s = Some st" "st \<noteq> Pending" "\<not> deciding pid t"
  shows "get_pair_status pid (snd (task_step E now rand t s)) = Some st \<and> \<not> deciding pid (fst (task_step E now rand t s))"
proof
  have "get_pair_status pid (snd (task_step E now rand t s)) = get_pair_status pid s"
    using assms(3) status_set_other [of pid _ _ s] requests_task_step [of E now rand t s]
    by (cases t) (auto simp: get_pair_status_def)
  then show "get_pair_status pid (snd (task_step E now rand t s)) = Some st" using assms(1) by simp
  show "\<not> deciding pid (fst (task_step E now rand t s))"
  proof (cases t)
    case (Approving p)
    then show ?thesis using load_settled [OF assms(1,2)] by (cases "p = pid") (auto split: sum.splits)
  next
    case (Rejecting p)
    then show ?thesis using load_settled [OF assms(1,2)] by (cases "p = pid") (auto split: sum.splits)
  qed (use assms(3) in \<open>auto split: prod.split sum.split option.split\<close>)
qed

definition settled_as :: "string \<Rightarrow> pair_status \<Rightarrow> pairing_world \<Rightarrow> bool" where
  "settled_as pid st w \<longleftrightarrow> get_pair_status pid (pw_store w) = Some st \<and> list_all (\<lambda>t. \<not> deciding pid t) (pw_tasks w)"

lemma settled_step:
  assumes "settled_as pid st w" "st \<noteq> Pending"
  shows "settled_as pid st (store_step E w m)"
proof (cases m)
  case (AskPair now pair_id nonce dev name platform key)
  then show ?thesis using assms
    by (auto simp: settled_as_def request_pair_def Let_def get_pair_status_def row_with_snoc split: option.splits)
next
  case (EvictExpired now)
  obtain r where "row_with pr_id pid (requests (pw_store w)) = Some r" "status_from_str (pr_status r) = st"
    using assms(1) by (auto simp: settled_as_def get_pair_status_def)
  then show ?thesis using EvictExpired assms settled_status [of "pr_status r"]
    by (simp add: settled_as_def evict_expired_now_def evict_expired_at_def Let_def get_pair_status_def row_with_update_where)
next
  case (Begin t)
  then show ?thesis using assms by (cases t) (auto simp: settled_as_def)
next
  case (Go k now rand)
  show ?thesis
  proof (cases "k < length (pw_tasks w)")
    case True
    have "\<not> deciding pid (pw_tasks w ! k)" using assms(1) True by (simp add: settled_as_def list_all_length)
    with settled_task_step [of pid "pw_store w" st "pw_tasks w ! k" E now rand] assms True Go show ?thesis
      by (auto simp: settled_as_def list_all_length nth_list_update split: prod.split)
  qed (use Go assms in simp)
qed

lemma settled_run: "settled_as pid st w \<Longrightarrow> st \<noteq> Pending \<Longrightarrow> settled_as pid st (foldl (store_step E) w ms)"
  by (induction ms arbitrary: w) (simp_all add: settled_step)

section \<open>Properties\<close>

text \<open>C21: However the statements of the operations interleave, a device token is accepted exactly when the last statement of an approval, a
  rotation or a creation handed out a token with its digest, no statement of a later rotation or revocation revoked the tokens of its
  device since, and the device is active; the device and the scopes accepted are those of the token handed out. A revoked token is
  never accepted again, whatever is approved later.\<close>

theorem device_token_accepted_iff:
  "verify_device_token E raw (pw_store (store_run E ms)) = Some v \<longleftrightarrow>
     device_active (dtv_device_id v) (pw_store (store_run E ms)) \<and>
     (\<exists>pre m post t. ms = pre @ m # post \<and> hands_out E (store_run E pre) m = Some t \<and>
        sha256 E (dt_token t) = sha256 E raw \<and> dt_device_id t = dtv_device_id v \<and> dt_scopes t = dtv_scopes v \<and>
        kept_through (store_step E) (withdraws (dtv_device_id v)) (store_run E (pre @ [m])) post)"
proof -
  let ?g = "(sha256 E raw, dtv_device_id v, dtv_scopes v)"
  have "world_ok (store_run E ms)" by (rule pairing.inv_run [OF empty_world_ok]) simp
  then have "schema_ok (pw_store (store_run E ms))" by (simp add: world_ok_def)
  from verify_held [OF this] have "verify_device_token E raw (pw_store (store_run E ms)) = Some v \<longleftrightarrow>
      token_held (pw_store (store_run E ms)) ?g \<and> device_active (dtv_device_id v) (pw_store (store_run E ms))" .
  also have "token_held (pw_store (store_run E ms)) ?g \<longleftrightarrow>
      (\<exists>pre m post. ms = pre @ m # post \<and> token_given E (store_run E pre) m ?g \<and>
         kept_through (store_step E) (withdraws (dtv_device_id v)) (store_run E (pre @ [m])) post)"
    using token_ledger.holds_run [OF empty_world_ok, of ?g E ms] by (simp add: token_held_def empty_world_def empty_store_def)
  finally show ?thesis by (auto simp: token_given_def)
qed

text \<open>C24: A pair request that was approved, rejected or has expired keeps this status through any interleaving of operations, if none of those
  under way has read it as pending and is about to write its status; and an approval or a rejection that begins from then on ends
  at its first statement with an error that names the status, and changes nothing. (Operations that are about to write may
  still overwrite the status: see \<open>approvals_race\<close> and \<open>rejection_undoes_approval\<close>.)\<close>

theorem settled_requests_stay_settled:
  assumes "get_pair_status pid (pw_store w) = Some st" "st \<noteq> Pending" "list_all (\<lambda>t. \<not> deciding pid t) (pw_tasks w)"
  shows "get_pair_status pid (pw_store (foldl (store_step E) w ms)) = Some st \<and>
    task_step E now rand (Approving pid) (pw_store (foldl (store_step E) w ms)) =
      (Finished (GotError (PairRequestNotPending st)), pw_store (foldl (store_step E) w ms)) \<and>
    task_step E now rand (Rejecting pid) (pw_store (foldl (store_step E) w ms)) =
      (Finished (GotError (PairRequestNotPending st)), pw_store (foldl (store_step E) w ms))"
proof -
  have "settled_as pid st (foldl (store_step E) w ms)" using assms by (intro settled_run) (simp_all add: settled_as_def)
  then have "get_pair_status pid (pw_store (foldl (store_step E) w ms)) = Some st" by (simp add: settled_as_def)
  then show ?thesis using load_settled [OF _ assms(2)] by simp
qed

definition plain_env :: pair_env where
  "plain_env = \<lparr>rfc3339 = (\<lambda>n. replicate n CHR ''t''), rfc3339_parse = (\<lambda>s. Some (length s)), sqlite_text = (\<lambda>n. []),
     julianday = (\<lambda>s. Some (length s)), sha256 = (\<lambda>s. s)\<rparr>"

theorem settled_requests_stay_settled_witness:
  "get_pair_status ''p'' (pw_store (foldl (store_step plain_env)
     (store_run plain_env [AskPair 0 ''p'' ''n'' ''d'' None ''x'' None, Begin (Rejecting ''p''), Go 0 0 [], Go 0 0 []])
     [Begin (Approving ''p''), Go 1 0 ''r'', EvictExpired 9])) = Some Rejected"
proof -
  let ?w = "store_run plain_env [AskPair 0 ''p'' ''n'' ''d'' None ''x'' None, Begin (Rejecting ''p''), Go 0 0 [], Go 0 0 []]"
  have "get_pair_status ''p'' (pw_store ?w) = Some Rejected" "list_all (\<lambda>t. \<not> deciding ''p'' t) (pw_tasks ?w)"
    by (simp_all add: request_pair_def reject_load_def Let_def empty_world_def empty_store_def row_with_def get_pair_status_def
        set_request_status_def update_where_def status_from_str_def)
  from settled_requests_stay_settled [OF this(1) _ this(2), of plain_env "[Begin (Approving ''p''), Go 1 0 ''r'', EvictExpired 9]"]
  show ?thesis by (simp del: store_step.simps foldl_Cons)
qed

section \<open>What the code does not exclude\<close>

text \<open>Two approvals of one request that both read it before either writes hand out two tokens.\<close>

lemma approvals_race:
  assumes "approve_load pid s = Inr r" "\<not> is_expired E now (pr_expires_at r)"
    and "row_with tk_hash (sha256 E (raw_token a)) (tokens s) = None" "row_with tk_hash (sha256 E (raw_token b)) (tokens s) = None"
    and "sha256 E (raw_token a) \<noteq> sha256 E (raw_token b)"
  shows "fst (approve_write E now a pid r s) = Inr (mem_token now (raw_token a) (pr_device_id r) default_scopes) \<and>
    fst (approve_write E now b pid r (snd (approve_write E now a pid r s))) =
      Inr (mem_token now (raw_token b) (pr_device_id r) default_scopes)"
proof -
  have dev: "row_with pd_device_id (pr_device_id r) (devices (upsert_device E now (pr_device_id r) n p k s)) \<noteq> None" for n p k s
    by (auto simp: upsert_device_def row_with_snoc row_with_update_where)
  show ?thesis
    using assms dev by (auto simp: approve_write_def issue_token_def insert_token_def row_with_snoc mem_token_def)
qed

text \<open>A rejection that read the request before an approval wrote ends in success and leaves the request rejected, the device paired and its
  token accepted.\<close>

lemma rejection_undoes_approval:
  "let w = store_run plain_env
     [AskPair 0 ''p'' ''n'' ''d'' None ''x'' None, Begin (Approving ''p''), Begin (Rejecting ''p''), Go 0 0 [], Go 1 0 [], Go 0 0 [], Go 0 0 [],
      Go 0 0 ''r'', Go 1 0 []] in
   get_pair_status ''p'' (pw_store w) = Some Rejected \<and> pw_tasks w ! 1 = Finished GotUnit \<and>
     verify_device_token plain_env (raw_token ''r'') (pw_store w) = Some \<lparr>dtv_device_id = ''d'', dtv_scopes = default_scopes\<rparr>"
  by (simp add: request_pair_def approve_load_def reject_load_def Let_def empty_world_def empty_store_def row_with_def get_pair_status_def
      set_request_status_def update_where_def status_from_str_def is_expired_def plain_env_def pair_ttl_def upsert_device_def issue_token_def
      insert_token_def verify_device_token_def)

text \<open>A rotation hands out a token for a revoked device.\<close>

lemma rotation_of_revoked_device:
  assumes "row_with pd_device_id dev (devices s) = Some d" "row_with tk_hash (sha256 E (raw_token rand)) (tokens s) = None"
  shows "\<exists>t. fst (rotate_token E now rand dev s) = Inr t"
  using assms by (simp add: rotate_token_def Let_def issue_token_def insert_token_def revoke_tokens_of_def row_with_update_where)

text \<open>In memory a rotation brings a revoked device back.\<close>

lemma rotation_unrevokes_in_memory:
  assumes "map_of (mem_devices s) dev = Some d"
  shows "\<exists>t. fst (mem_rotate_token now uuid dev s) = Inr t \<and> t \<in> set (mem_list_devices (snd (mem_rotate_token now uuid dev s)))"
proof -
  have "(dev, t) \<in> set (AList.update dev t al)" for t and al :: "(string \<times> device_token) list"
    by (metis map_of_SomeD update_conv' fun_upd_same)
  then show ?thesis using assms by (force simp: mem_rotate_token_def mem_list_devices_def mem_token_def Let_def)
qed

text \<open>At the instant it expires a request is not listed any more and can still be approved.\<close>

lemma approvable_when_unlisted:
  assumes "rfc3339_parse E (rfc3339 E t) = Some t"
  shows "\<not> is_expired E t (rfc3339 E t) \<and> \<not> sql_later E (rfc3339 E t) (rfc3339 E t)"
  using assms by (simp add: is_expired_def sql_later_def split: option.splits)

end
