(* ===== verification/Pairing_Rpc.thy ===== *)
theory Pairing_Rpc
  imports Pairing
begin

text \<open>
  The RPC methods for pairing (\<open>crates/gateway/src/methods/pairing.rs\<close>). A method works on the store when
  the gateway has one and on the state in memory otherwise; the gateway also holds the switch for new nodes and
  announces requests and decisions to the operators. The parameters of a method are those it reads, absent when
  missing or not a string. The methods under \<open>device.pair\<close> that repeat those under \<open>node.pair\<close> differ in the
  event they announce.
\<close>

section \<open>The gateway\<close>

datatype pair_event =
    NodePairRequested string string "string option" string
  | NodePairResolved string string
  | DevicePairResolved string string

record gateway_pairing =
  gp_store :: "pairing_store option"
  gp_memory :: pairing_state
  gp_enabled :: bool
  gp_events :: "pair_event list"

datatype rpc_error = MissingParameter string | InvalidRequest pair_error | Internal pair_error | InvalidChallenge challenge_error | NotFound | NoPublicKey

definition announce :: "pair_event \<Rightarrow> gateway_pairing \<Rightarrow> gateway_pairing" where
  "announce e g = g\<lparr>gp_events := gp_events g @ [e]\<rparr>"

text \<open>An operation of the store or of the state in memory, and the way its errors are reported.\<close>

definition on_backend ::
  "(pair_error \<Rightarrow> rpc_error) \<Rightarrow> (pairing_store \<Rightarrow> (pair_error + 'a) \<times> pairing_store)
   \<Rightarrow> (pairing_state \<Rightarrow> (pair_error + 'a) \<times> pairing_state) \<Rightarrow> gateway_pairing \<Rightarrow> (rpc_error + 'a) \<times> gateway_pairing" where
  "on_backend err f h g =
     (case gp_store g of
        Some st \<Rightarrow> (case f st of (r, st') \<Rightarrow> (map_sum err (\<lambda>x. x) r, g\<lparr>gp_store := Some st'\<rparr>))
      | None \<Rightarrow> (case h (gp_memory g) of (r, m) \<Rightarrow> (map_sum err (\<lambda>x. x) r, g\<lparr>gp_memory := m\<rparr>)))"

section \<open>Requests\<close>

definition node_pair_request ::
  "pair_env \<Rightarrow> nat \<Rightarrow> string \<Rightarrow> string \<Rightarrow> string option \<Rightarrow> string option \<Rightarrow> string option \<Rightarrow> string option \<Rightarrow> gateway_pairing
   \<Rightarrow> (rpc_error + string \<times> string) \<times> gateway_pairing" where
  "node_pair_request E now uuid nonce device_id display_name platform public_key g =
     (case device_id of
        None \<Rightarrow> (Inl (MissingParameter ''deviceId''), g)
      | Some dev \<Rightarrow>
          (let platform = (case platform of Some p \<Rightarrow> p | None \<Rightarrow> ''unknown'') in
           case on_backend Internal (request_pair E now uuid nonce dev display_name platform public_key)
               (\<lambda>m. apfst Inr (mem_request_pair E now uuid nonce dev display_name platform public_key m)) g of
             (Inl e, g) \<Rightarrow> (Inl e, g)
           | (Inr req, g) \<Rightarrow>
               (Inr (pr_id req, pr_nonce req),
                announce (NodePairRequested (pr_id req) (pr_device_id req) (pr_display_name req) (pr_platform req)) g)))"

record pair_entry =
  pe_id :: string
  pe_device_id :: string
  pe_display_name :: "string option"
  pe_platform :: string
  pe_fingerprint :: "string option"

definition fingerprint_of :: "pair_crypto \<Rightarrow> string option \<Rightarrow> string option" where
  "fingerprint_of C key = (case key of None \<Rightarrow> None | Some k \<Rightarrow> (case public_key_fingerprint C k of Inl e \<Rightarrow> None | Inr fp \<Rightarrow> Some fp))"

definition pair_entry_of :: "pair_crypto \<Rightarrow> pair_status pair_request \<Rightarrow> pair_entry" where
  "pair_entry_of C r = \<lparr>pe_id = pr_id r, pe_device_id = pr_device_id r, pe_display_name = pr_display_name r,
     pe_platform = pr_platform r, pe_fingerprint = fingerprint_of C (pr_public_key r)\<rparr>"

definition pending_of :: "pair_env \<Rightarrow> nat \<Rightarrow> gateway_pairing \<Rightarrow> pair_status pair_request list" where
  "pending_of E now g =
     (case gp_store g of Some st \<Rightarrow> list_pending_now E now st | None \<Rightarrow> mem_list_pending E now (gp_memory g))"

definition node_pair_list :: "pair_env \<Rightarrow> pair_crypto \<Rightarrow> nat \<Rightarrow> gateway_pairing \<Rightarrow> pair_entry list" where
  "node_pair_list E C now g = map (pair_entry_of C) (pending_of E now g)"

definition find_pending_pair_request :: "pair_env \<Rightarrow> nat \<Rightarrow> string \<Rightarrow> gateway_pairing \<Rightarrow> rpc_error + pair_status pair_request" where
  "find_pending_pair_request E now pair_id g =
     (case find (\<lambda>r. pr_id r = pair_id) (pending_of E now g) of None \<Rightarrow> Inl NotFound | Some r \<Rightarrow> Inr r)"

definition verify_pairing_challenge ::
  "pair_env \<Rightarrow> pair_crypto \<Rightarrow> nat \<Rightarrow> string \<Rightarrow> string \<Rightarrow> gateway_pairing \<Rightarrow> rpc_error + bool" where
  "verify_pairing_challenge E C now pair_id signature g =
     (case find_pending_pair_request E now pair_id g of
        Inl e \<Rightarrow> Inl e
      | Inr r \<Rightarrow>
          (case pr_public_key r of
             None \<Rightarrow> Inl NoPublicKey
           | Some key \<Rightarrow>
               (case verify_ed25519_challenge C key (pr_nonce r) signature of
                  Inl e \<Rightarrow> Inl (InvalidChallenge e)
                | Inr verified \<Rightarrow> Inr verified)))"

section \<open>Decisions\<close>

definition pair_approve ::
  "(string \<Rightarrow> string \<Rightarrow> pair_event) \<Rightarrow> pair_env \<Rightarrow> nat \<Rightarrow> string \<Rightarrow> string \<Rightarrow> string option \<Rightarrow> gateway_pairing
   \<Rightarrow> (rpc_error + string \<times> string list) \<times> gateway_pairing" where
  "pair_approve ev E now rand uuid pair_id g =
     (case pair_id of
        None \<Rightarrow> (Inl (MissingParameter ''id''), g)
      | Some pid \<Rightarrow>
          (case on_backend InvalidRequest (approve E now rand pid) (mem_approve E now uuid pid) g of
             (Inl e, g) \<Rightarrow> (Inl e, g)
           | (Inr token, g) \<Rightarrow> (Inr (dt_token token, dt_scopes token), announce (ev pid ''approved'') g)))"

definition pair_reject ::
  "(string \<Rightarrow> string \<Rightarrow> pair_event) \<Rightarrow> string option \<Rightarrow> gateway_pairing \<Rightarrow> (rpc_error + unit) \<times> gateway_pairing" where
  "pair_reject ev pair_id g =
     (case pair_id of
        None \<Rightarrow> (Inl (MissingParameter ''id''), g)
      | Some pid \<Rightarrow>
          (case on_backend InvalidRequest (reject pid) (mem_reject pid) g of
             (Inl e, g) \<Rightarrow> (Inl e, g)
           | (Inr _, g) \<Rightarrow> (Inr (), announce (ev pid ''rejected'') g)))"

definition node_pair_approve where "node_pair_approve = pair_approve NodePairResolved"
definition node_pair_reject where "node_pair_reject = pair_reject NodePairResolved"
definition device_pair_approve where "device_pair_approve = pair_approve DevicePairResolved"
definition device_pair_reject where "device_pair_reject = pair_reject DevicePairResolved"

definition node_pairing_enable :: "gateway_pairing \<Rightarrow> gateway_pairing" where
  "node_pairing_enable g = g\<lparr>gp_enabled := True\<rparr>"

definition node_pairing_disable :: "gateway_pairing \<Rightarrow> gateway_pairing" where
  "node_pairing_disable g = g\<lparr>gp_enabled := False\<rparr>"

definition node_pairing_status :: "gateway_pairing \<Rightarrow> bool" where
  "node_pairing_status g = gp_enabled g"

section \<open>Devices\<close>

record device_entry =
  dl_device :: paired_device
  dl_fingerprint :: "string option"

definition device_pair_list :: "pair_crypto \<Rightarrow> gateway_pairing \<Rightarrow> device_entry list + (string \<times> string list \<times> nat) list" where
  "device_pair_list C g =
     (case gp_store g of
        Some st \<Rightarrow> Inl (map (\<lambda>d. \<lparr>dl_device = d, dl_fingerprint = fingerprint_of C (pd_public_key d)\<rparr>) (list_devices st))
      | None \<Rightarrow> Inr (map (\<lambda>d. (dt_device_id d, dt_scopes d, dt_issued_at_ms d)) (mem_list_devices (gp_memory g))))"

definition device_token_create ::
  "pair_env \<Rightarrow> nat \<Rightarrow> string \<Rightarrow> string \<Rightarrow> string \<Rightarrow> string option \<Rightarrow> string option \<Rightarrow> gateway_pairing
   \<Rightarrow> (rpc_error + string \<times> string \<times> string list) \<times> gateway_pairing" where
  "device_token_create E now dev rand uuid display_name platform g =
     (let platform = (case platform of Some p \<Rightarrow> p | None \<Rightarrow> ''remote'') in
      apfst (map_sum (\<lambda>e. e) (\<lambda>t. (dt_token t, dt_device_id t, dt_scopes t)))
        (on_backend Internal (create_device_token E now dev rand display_name platform)
          (\<lambda>m. apfst Inr (mem_create_device_token now dev uuid m)) g))"

definition device_token_rotate ::
  "pair_env \<Rightarrow> nat \<Rightarrow> string \<Rightarrow> string \<Rightarrow> string option \<Rightarrow> gateway_pairing \<Rightarrow> (rpc_error + string \<times> string list) \<times> gateway_pairing" where
  "device_token_rotate E now rand uuid device_id g =
     (case device_id of
        None \<Rightarrow> (Inl (MissingParameter ''deviceId''), g)
      | Some dev \<Rightarrow>
          apfst (map_sum (\<lambda>e. e) (\<lambda>t. (dt_token t, dt_scopes t)))
            (on_backend InvalidRequest (rotate_token E now rand dev) (mem_rotate_token now uuid dev) g))"

definition device_token_revoke ::
  "pair_env \<Rightarrow> nat \<Rightarrow> string option \<Rightarrow> gateway_pairing \<Rightarrow> (rpc_error + unit) \<times> gateway_pairing" where
  "device_token_revoke E now device_id g =
     (case device_id of
        None \<Rightarrow> (Inl (MissingParameter ''deviceId''), g)
      | Some dev \<Rightarrow> on_backend InvalidRequest (revoke_token E now dev) (mem_revoke_token dev) g)"

section \<open>Calls\<close>

datatype pairing_call =
    CallRequest nat string string "string option" "string option" "string option" "string option"
  | CallApprove "string \<Rightarrow> string \<Rightarrow> pair_event" nat string string "string option"
  | CallReject "string \<Rightarrow> string \<Rightarrow> pair_event" "string option"
  | CallEnable
  | CallDisable
  | CallCreate nat string string string "string option" "string option"
  | CallRotate nat string string "string option"
  | CallRevoke nat "string option"

fun call_step :: "pair_env \<Rightarrow> gateway_pairing \<Rightarrow> pairing_call \<Rightarrow> gateway_pairing" where
  "call_step E g (CallRequest now uuid nonce dev name platform key) = snd (node_pair_request E now uuid nonce dev name platform key g)"
| "call_step E g (CallApprove ev now rand uuid pid) = snd (pair_approve ev E now rand uuid pid g)"
| "call_step E g (CallReject ev pid) = snd (pair_reject ev pid g)"
| "call_step E g CallEnable = node_pairing_enable g"
| "call_step E g CallDisable = node_pairing_disable g"
| "call_step E g (CallCreate now dev rand uuid name platform) = snd (device_token_create E now dev rand uuid name platform g)"
| "call_step E g (CallRotate now rand uuid dev) = snd (device_token_rotate E now rand uuid dev g)"
| "call_step E g (CallRevoke now dev) = snd (device_token_revoke E now dev g)"

text \<open>The operation of the store behind a call, if the call gets as far as the store.\<close>

fun store_op :: "pairing_call \<Rightarrow> pairing_op option" where
  "store_op (CallRequest now uuid nonce dev name platform key) =
     map_option (\<lambda>d. Request now uuid nonce d name (case platform of Some p \<Rightarrow> p | None \<Rightarrow> ''unknown'') key) dev"
| "store_op (CallApprove ev now rand uuid pid) = map_option (Approve now rand) pid"
| "store_op (CallReject ev pid) = map_option Reject pid"
| "store_op (CallCreate now dev rand uuid name platform) =
     Some (Create now dev rand name (case platform of Some p \<Rightarrow> p | None \<Rightarrow> ''remote''))"
| "store_op (CallRotate now rand uuid dev) = map_option (Rotate now rand) dev"
| "store_op (CallRevoke now dev) = map_option (Revoke now) dev"
| "store_op _ = None"

lemma gp_store_announce [simp]: "gp_store (announce e g) = gp_store g"
  by (simp add: announce_def)

lemma on_backend_store:
  "gp_store g = Some st \<Longrightarrow>
     on_backend err f h g = (map_sum err (\<lambda>x. x) (fst (f st)), g\<lparr>gp_store := Some (snd (f st))\<rparr>)"
  by (simp add: on_backend_def split: prod.splits)

lemma call_on_store:
  assumes "gp_store g = Some st"
  shows "gp_store (call_step E g c) = Some (case store_op c of None \<Rightarrow> st | Some op \<Rightarrow> store_call E st op)"
  by (cases c)
    (use assms in \<open>auto simp: node_pair_request_def pair_approve_def pair_reject_def node_pairing_enable_def
       node_pairing_disable_def device_token_create_def device_token_rotate_def device_token_revoke_def on_backend_store Let_def
       split: option.splits sum.splits\<close>)

text \<open>With a database, the RPC methods for pairing change its tables only through the operations of the store:
  after any calls the tables are those of the run of the operations behind them, so that what holds of every
  run of the store holds of the gateway.\<close>

theorem calls_refine_store:
  "gp_store (foldl (call_step E) \<lparr>gp_store = Some empty_store, gp_memory = m, gp_enabled = b, gp_events = ev\<rparr> cs) =
     Some (foldl (store_call E) empty_store (List.map_filter store_op cs))"
proof -
  have "gp_store g = Some st \<Longrightarrow>
      gp_store (foldl (call_step E) g cs) = Some (foldl (store_call E) st (List.map_filter store_op cs))" for g st
    by (induction cs arbitrary: g st) (auto simp: call_on_store List.map_filter_simps split: option.splits)
  then show ?thesis by simp
qed

end
