(* ===== verification/Ws_Handshake.thy ===== *)
theory Ws_Handshake
  imports Pairing Http_Gates Method_Auth "HOL-Library.Word"
begin

unbundle bit_operations_syntax

text \<open>
  The handshake of a WebSocket connection (\<open>crates/httpd/src/ws.rs\<close>, \<open>handle_connection\<close> up to the
  registration of the client): the protocol version, keys of devices with pinning and challenge, pairing of unknown
  keys, device tokens, the credential store, the credentials of the environment, then identity, role and scopes.

  What the connection meets while it waits is an argument: the frames it receives for a challenge, and
  the store at each poll for the decision on its pair request, where \<open>None\<close> is a failing query. A query that fails is a
  flag of \<open>query_faults\<close>. The credential store answers as in \<open>cred_store\<close>.
\<close>

section \<open>Parameters of a connection\<close>

definition PROTOCOL_VERSION :: nat where "PROTOCOL_VERSION = 4"
definition role_node :: string where "role_node = ''node''"
definition role_operator :: string where "role_operator = ''operator''"
definition INVALID_REQUEST :: string where "INVALID_REQUEST = ''INVALID_REQUEST''"
definition INTERNAL :: string where "INTERNAL = ''INTERNAL''"
definition TIMEOUT :: string where "TIMEOUT = ''TIMEOUT''"
definition PROTOCOL_ERROR :: string where "PROTOCOL_ERROR = ''PROTOCOL_ERROR''"

record connect_auth =
  ca_token :: "string option"
  ca_password :: "string option"
  ca_api_key :: "string option"
  ca_device_token :: "string option"
  ca_public_key :: "string option"

record connect_params =
  min_protocol :: nat
  max_protocol :: nat
  client_id :: string
  client_display_name :: "string option"
  client_platform :: string
  requested_role :: "string option"
  connect_auth :: "connect_auth option"

definition auth_field :: "(connect_auth \<Rightarrow> string option) \<Rightarrow> connect_params \<Rightarrow> string option" where
  "auth_field f p = Option.bind (connect_auth p) f"

datatype auth_mode = TokenMode | PasswordMode

record resolved_auth =
  ra_mode :: auth_mode
  ra_token :: "string option"
  ra_password :: "string option"

record cred_store =
  cs_setup_complete :: bool
  cs_verify_api_key :: "string \<Rightarrow> string list option"
  cs_verify_password :: "string \<Rightarrow> bool"

record query_faults =
  qf_revoked :: bool
  qf_pinning :: bool
  qf_find :: bool
  qf_request :: bool
  qf_verify :: bool
  qf_pin :: bool

record ws_gateway =
  wg_pairing :: "pairing_store option"
  wg_pairing_enabled :: bool
  wg_credentials :: "cred_store option"
  wg_auth :: resolved_auth

section \<open>Legacy credentials\<close>

definition safe_equal :: "string \<Rightarrow> string \<Rightarrow> bool" where
  "safe_equal a b \<longleftrightarrow>
     length a = length b \<and> fold (\<lambda>(x, y) acc. acc OR (of_char x XOR of_char y)) (zip a b) (0 :: 8 word) = 0"

definition authorize_connect :: "resolved_auth \<Rightarrow> string option \<Rightarrow> string option \<Rightarrow> bool" where
  "authorize_connect auth provided_token provided_password =
     (case ra_mode auth of
        TokenMode \<Rightarrow>
          (case ra_token auth of
             None \<Rightarrow> True
           | Some expected \<Rightarrow> (case provided_token of Some t \<Rightarrow> safe_equal t expected | None \<Rightarrow> False))
      | PasswordMode \<Rightarrow>
          (case ra_password auth of
             None \<Rightarrow> True
           | Some expected \<Rightarrow> (case provided_password of Some p \<Rightarrow> safe_equal p expected | None \<Rightarrow> False)))"

definition resolve_auth :: "string option \<Rightarrow> string option \<Rightarrow> resolved_auth" where
  "resolve_auth token password =
     \<lparr>ra_mode = (if password \<noteq> None then PasswordMode else TokenMode), ra_token = token, ra_password = password\<rparr>"

section \<open>Challenges and approvals\<close>

text \<open>A text frame: its method and the signature among its parameters, or no JSON at all.\<close>

datatype ws_receipt = RxText "(string \<times> string option) option" | RxPing | RxPong | RxOther | RxError | RxTimeout

datatype challenge_failure = ChallengeTimeout | MissingSignature | UnexpectedBinary | SocketError | SocketClosed

fun receive_challenge_response :: "ws_receipt list \<Rightarrow> challenge_failure + string" where
  "receive_challenge_response [] = Inl SocketClosed"
| "receive_challenge_response (RxText None # rest) = receive_challenge_response rest"
| "receive_challenge_response (RxText (Some (mth, sig)) # rest) =
     (if mth \<noteq> ''node.auth.challenge-response'' then receive_challenge_response rest
      else case sig of Some s \<Rightarrow> Inr s | None \<Rightarrow> Inl MissingSignature)"
| "receive_challenge_response (RxPing # rest) = receive_challenge_response rest"
| "receive_challenge_response (RxPong # rest) = receive_challenge_response rest"
| "receive_challenge_response (RxOther # rest) = Inl UnexpectedBinary"
| "receive_challenge_response (RxError # rest) = Inl SocketError"
| "receive_challenge_response (RxTimeout # rest) = Inl ChallengeTimeout"

datatype pair_outcome = OutcomeApproved | OutcomeRejected | OutcomeExpired

text \<open>The polls before the deadline; when there are none left it has passed.\<close>

fun wait_for_pair_approval :: "string \<Rightarrow> pairing_store option list \<Rightarrow> pair_outcome" where
  "wait_for_pair_approval pid [] = OutcomeExpired"
| "wait_for_pair_approval pid (None # polls) = wait_for_pair_approval pid polls"
| "wait_for_pair_approval pid (Some st # polls) =
     (case get_pair_status pid st of
        Some Approved \<Rightarrow> OutcomeApproved
      | Some Rejected \<Rightarrow> OutcomeRejected
      | Some Expired \<Rightarrow> OutcomeExpired
      | Some Pending \<Rightarrow> wait_for_pair_approval pid polls
      | None \<Rightarrow> OutcomeExpired)"

text \<open>What the connection meets: the frames for its challenge and its nonce, the polls, and the id and nonce of a pair request.\<close>

record ws_meets =
  wm_now :: nat
  wm_frames :: "ws_receipt list"
  wm_nonce :: string
  wm_pair_id :: string
  wm_pair_nonce :: string
  wm_polls :: "pairing_store option list"

section \<open>Authentication\<close>

datatype 'a auth_step = Refuse string | Pass 'a

record ws_auth =
  authenticated :: bool
  api_key_scopes :: "string list option"
  device_token_device_id :: "string option"

definition challenge_passed :: "pair_crypto \<Rightarrow> string \<Rightarrow> ws_meets \<Rightarrow> bool" where
  "challenge_passed C key w =
     (case receive_challenge_response (wm_frames w) of
        Inl e \<Rightarrow> False
      | Inr sig \<Rightarrow> verify_ed25519_challenge C key (wm_nonce w) sig = Inr True)"

definition as_device :: "string \<Rightarrow> ws_auth" where
  "as_device dev = \<lparr>authenticated = True, api_key_scopes = Some default_scopes, device_token_device_id = Some dev\<rparr>"

definition not_yet :: ws_auth where
  "not_yet = \<lparr>authenticated = False, api_key_scopes = None, device_token_device_id = None\<rparr>"

text \<open>The key of a device: malformed, revoked and mismatching keys are refused; a known key is challenged; an unknown one is
  left to the device token if there is one, or becomes a pair request.\<close>

definition pair_unknown_key ::
  "pair_env \<Rightarrow> pair_crypto \<Rightarrow> query_faults \<Rightarrow> ws_meets \<Rightarrow> connect_params \<Rightarrow> string \<Rightarrow> pairing_store \<Rightarrow> ws_auth auth_step \<times> pairing_store" where
  "pair_unknown_key E C q w p key st =
     (case (if qf_request q then (Inl Db, st)
            else request_pair E (wm_now w) (wm_pair_id w) (wm_pair_nonce w) (client_id p) (client_display_name p)
                   (client_platform p) (Some key) st) of
        (Inl e, st) \<Rightarrow> (Refuse INTERNAL, st)
      | (Inr req, st) \<Rightarrow>
          (case wait_for_pair_approval (pr_id req) (wm_polls w) of
             OutcomeApproved \<Rightarrow> if challenge_passed C key w then (Pass (as_device (client_id p)), st) else (Refuse FORBIDDEN, st)
           | OutcomeRejected \<Rightarrow> (Refuse FORBIDDEN, st)
           | OutcomeExpired \<Rightarrow> (Refuse TIMEOUT, st)))"

definition key_auth ::
  "pair_env \<Rightarrow> pair_crypto \<Rightarrow> query_faults \<Rightarrow> ws_meets \<Rightarrow> ws_gateway \<Rightarrow> connect_params \<Rightarrow> string \<Rightarrow> pairing_store
   \<Rightarrow> ws_auth auth_step \<times> pairing_store" where
  "key_auth E C q w g p key st =
     (case public_key_fingerprint C key of
        Inl e \<Rightarrow> (Refuse INVALID_REQUEST, st)
      | Inr fingerprint \<Rightarrow>
          if \<not> qf_revoked q \<and> is_public_key_revoked key st then (Refuse FORBIDDEN, st)
          else
            (case (if qf_pinning q then NoPinnedKey else check_key_pinning (client_id p) key st) of
               Revoked \<Rightarrow> (Refuse FORBIDDEN, st)
             | Mismatch expected \<Rightarrow> (Refuse FORBIDDEN, st)
             | _ \<Rightarrow>
                 if qf_find q then (Pass not_yet, st)
                 else
                   (case find_device_by_public_key key st of
                      Some d \<Rightarrow>
                        if challenge_passed C key w then (Pass (as_device (pd_device_id d)), st) else (Refuse FORBIDDEN, st)
                    | None \<Rightarrow>
                        if (case auth_field ca_device_token p of Some t \<Rightarrow> t \<noteq> [] | None \<Rightarrow> False) then (Pass not_yet, st)
                        else if \<not> wg_pairing_enabled g then (Refuse FORBIDDEN, st)
                        else pair_unknown_key E C q w p key st)))"

text \<open>The token of a device; a key presented with it is pinned.\<close>

definition token_auth ::
  "pair_env \<Rightarrow> query_faults \<Rightarrow> connect_params \<Rightarrow> string \<Rightarrow> pairing_store \<Rightarrow> ws_auth auth_step \<times> pairing_store" where
  "token_auth E q p dt st =
     (case (if qf_verify q then None else verify_device_token E dt st) of
        None \<Rightarrow> (Pass not_yet, st)
      | Some v \<Rightarrow>
          (let accepted = \<lparr>authenticated = True, api_key_scopes = Some (dtv_scopes v),
               device_token_device_id = Some (dtv_device_id v)\<rparr> in
           case auth_field ca_public_key p of
             None \<Rightarrow> (Pass accepted, st)
           | Some key \<Rightarrow>
               if qf_pin q then (Refuse INTERNAL, st)
               else
                 (case pin_public_key (dtv_device_id v) key st of
                    (Pinned, st) \<Rightarrow> (Pass accepted, st)
                  | (AlreadyPinned, st) \<Rightarrow> (Pass accepted, st)
                  | (_, st) \<Rightarrow> (Refuse FORBIDDEN, st))))"

definition device_auth ::
  "pair_env \<Rightarrow> pair_crypto \<Rightarrow> query_faults \<Rightarrow> ws_meets \<Rightarrow> ws_gateway \<Rightarrow> connect_params \<Rightarrow> ws_auth \<Rightarrow> ws_auth auth_step \<times> pairing_store option" where
  "device_auth E C q w g p a =
     (case wg_pairing g of
        None \<Rightarrow> (Pass a, None)
      | Some st \<Rightarrow>
          (case (case auth_field ca_public_key p of
                   Some key \<Rightarrow> if authenticated a then (Pass a, st) else key_auth E C q w g p key st
                 | None \<Rightarrow> (Pass a, st)) of
             (Refuse e, st) \<Rightarrow> (Refuse e, Some st)
           | (Pass a, st) \<Rightarrow>
               (case auth_field ca_device_token p of
                  Some dt \<Rightarrow> if authenticated a then (Pass a, Some st) else apsnd Some (token_auth E q p dt st)
                | None \<Rightarrow> (Pass a, Some st))))"

definition credential_auth :: "ws_gateway \<Rightarrow> connect_params \<Rightarrow> bool \<Rightarrow> ws_auth \<Rightarrow> ws_auth" where
  "credential_auth g p is_local a =
     (if authenticated a then a
      else
        (case wg_credentials g of
           None \<Rightarrow> a
         | Some cs \<Rightarrow>
             if cs_setup_complete cs then
               (case Option.bind (auth_field ca_api_key p) (cs_verify_api_key cs) of
                  Some sc \<Rightarrow> a\<lparr>authenticated := True, api_key_scopes := Some sc\<rparr>
                | None \<Rightarrow>
                    (case auth_field ca_password p of
                       Some pw \<Rightarrow> if cs_verify_password cs pw then a\<lparr>authenticated := True\<rparr> else a
                     | None \<Rightarrow> a))
             else if is_local then a\<lparr>authenticated := True\<rparr>
             else a))"

definition legacy_auth :: "ws_gateway \<Rightarrow> connect_params \<Rightarrow> ws_auth \<Rightarrow> ws_auth" where
  "legacy_auth g p a =
     (if authenticated a then a
      else if ra_token (wg_auth g) \<noteq> None \<or> ra_password (wg_auth g) \<noteq> None then
        (if authorize_connect (wg_auth g) (auth_field ca_token p) (auth_field ca_password p) then a\<lparr>authenticated := True\<rparr> else a)
      else if wg_credentials g = None then a\<lparr>authenticated := True\<rparr>
      else a)"

section \<open>Role and scopes\<close>

definition resolve_connection_role :: "string option \<Rightarrow> bool \<Rightarrow> string option" where
  "resolve_connection_role requested device_authenticated =
     (if device_authenticated then
        (case requested of Some r \<Rightarrow> if r \<noteq> role_node then None else Some role_node | None \<Rightarrow> Some role_node)
      else if requested = Some role_node then None
      else Some (case requested of Some r \<Rightarrow> r | None \<Rightarrow> role_operator))"

definition validate_node_identity :: "string option \<Rightarrow> string \<Rightarrow> bool" where
  "validate_node_identity authenticated_id cid =
     (case authenticated_id of Some d \<Rightarrow> d = cid | None \<Rightarrow> True)"

definition full_scopes :: "string list" where
  "full_scopes = [scope_admin, scope_read, scope_write, scope_approvals, scope_pairing]"

definition connection_scopes :: "bool \<Rightarrow> string list option \<Rightarrow> string list option" where
  "connection_scopes device_authenticated key_scopes =
     (if device_authenticated then Some []
      else (case key_scopes of Some sc \<Rightarrow> if sc \<noteq> [] then Some sc else None | None \<Rightarrow> Some full_scopes))"

datatype handshake = Refused string | Connected string "string list" "string option"

definition initial_auth :: "auth_identity option \<Rightarrow> ws_auth" where
  "initial_auth header_identity =
     \<lparr>authenticated = (header_identity \<noteq> None),
      api_key_scopes = (case header_identity of Some i \<Rightarrow> if auth_method_of i = ApiKey then Some (Http_Gates.scopes i) else None | None \<Rightarrow> None),
      device_token_device_id = None\<rparr>"

definition finish_handshake :: "connect_params \<Rightarrow> ws_auth \<Rightarrow> handshake" where
  "finish_handshake p a =
     (if \<not> authenticated a then Refused UNAUTHORIZED
      else if \<not> validate_node_identity (device_token_device_id a) (client_id p) then Refused FORBIDDEN
      else
        (case resolve_connection_role (requested_role p) (device_token_device_id a \<noteq> None) of
           None \<Rightarrow> Refused FORBIDDEN
         | Some role \<Rightarrow>
             (case connection_scopes (device_token_device_id a \<noteq> None) (api_key_scopes a) of
                None \<Rightarrow> Refused FORBIDDEN
              | Some sc \<Rightarrow> Connected role sc (device_token_device_id a))))"

definition handle_connection ::
  "pair_env \<Rightarrow> pair_crypto \<Rightarrow> query_faults \<Rightarrow> ws_meets \<Rightarrow> ws_gateway \<Rightarrow> auth_identity option \<Rightarrow> bool \<Rightarrow> connect_params
   \<Rightarrow> handshake \<times> pairing_store option" where
  "handle_connection E C q w g header_identity is_local p =
     (if PROTOCOL_VERSION < min_protocol p \<or> max_protocol p < PROTOCOL_VERSION then (Refused PROTOCOL_ERROR, wg_pairing g)
      else
        (case device_auth E C q w g p (initial_auth header_identity) of
           (Refuse e, st) \<Rightarrow> (Refused e, st)
         | (Pass a, st) \<Rightarrow> (finish_handshake p (legacy_auth g p (credential_auth g p is_local a)), st)))"

section \<open>Comparison of secrets\<close>

lemma byte_eq_iff: "(of_char x :: 8 word) = of_char y \<longleftrightarrow> x = y"
proof
  have nat: "unat (of_char c :: 8 word) = of_char c" for c
    by (simp add: of_nat_of_char [symmetric, where 'a = "8 word"] unat_of_nat)
  assume "(of_char x :: 8 word) = of_char y"
  then have "unat (of_char x :: 8 word) = unat (of_char y :: 8 word)" by simp
  then show "x = y" unfolding nat by simp
qed simp

lemma word_or_zero: "a OR b = 0 \<longleftrightarrow> a = 0 \<and> b = 0" for a b :: "8 word"
  by (auto simp: bit_eq_iff bit_or_iff)

lemma word_xor_zero: "a XOR b = 0 \<longleftrightarrow> a = b" for a b :: "8 word"
  by (auto simp: bit_eq_iff bit_xor_iff)

lemma diff_zero_iff:
  "length a = length b \<Longrightarrow>
   fold (\<lambda>(x, y) acc. acc OR (of_char x XOR of_char y)) (zip a b) acc = (0 :: 8 word) \<longleftrightarrow> acc = 0 \<and> a = b"
  by (induction a b arbitrary: acc rule: list_induct2) (auto simp: word_or_zero word_xor_zero byte_eq_iff)

lemma safe_equal_iff: "safe_equal a b \<longleftrightarrow> a = b"
  by (auto simp: safe_equal_def diff_zero_iff)

section \<open>What a connection has shown\<close>

definition device_shown :: "pair_env \<Rightarrow> pair_crypto \<Rightarrow> ws_meets \<Rightarrow> ws_gateway \<Rightarrow> connect_params \<Rightarrow> string \<Rightarrow> bool" where
  "device_shown E C w g p d \<longleftrightarrow> (\<exists>st. wg_pairing g = Some st \<and>
     ((\<exists>key. auth_field ca_public_key p = Some key \<and> challenge_passed C key w \<and>
         ((\<exists>dv. find_device_by_public_key key st = Some dv \<and> pd_device_id dv = d) \<or>
          wg_pairing_enabled g \<and> (\<exists>now'. Some now' \<in> set (wm_polls w) \<and> get_pair_status (wm_pair_id w) now' = Some Approved))) \<or>
      (\<exists>dt v. auth_field ca_device_token p = Some dt \<and> verify_device_token E dt st = Some v \<and> dtv_device_id v = d)))"

definition client_shown :: "ws_gateway \<Rightarrow> auth_identity option \<Rightarrow> bool \<Rightarrow> connect_params \<Rightarrow> bool" where
  "client_shown g header_identity is_local p \<longleftrightarrow>
     header_identity \<noteq> None \<or>
     (\<exists>cs. wg_credentials g = Some cs \<and>
        (if cs_setup_complete cs
         then (\<exists>k sc. auth_field ca_api_key p = Some k \<and> cs_verify_api_key cs k = Some sc) \<or>
              (\<exists>pw. auth_field ca_password p = Some pw \<and> cs_verify_password cs pw)
         else is_local)) \<or>
     (\<exists>t. ra_mode (wg_auth g) = TokenMode \<and> ra_token (wg_auth g) = Some t \<and> auth_field ca_token p = Some t) \<or>
     (\<exists>pw. ra_mode (wg_auth g) = PasswordMode \<and> ra_password (wg_auth g) = Some pw \<and> auth_field ca_password p = Some pw) \<or>
     (wg_credentials g = None \<and> ra_token (wg_auth g) = None \<and> ra_password (wg_auth g) = None)"

lemma approval_seen:
  "wait_for_pair_approval pid polls = OutcomeApproved \<Longrightarrow> \<exists>st. Some st \<in> set polls \<and> get_pair_status pid st = Some Approved"
  by (induction pid polls rule: wait_for_pair_approval.induct) (auto split: option.splits pair_status.splits)

lemma pair_unknown_key_Pass:
  assumes "pair_unknown_key E C q w p key st = (Pass a, st')"
  shows "a = as_device (client_id p) \<and> challenge_passed C key w \<and>
    (\<exists>now'. Some now' \<in> set (wm_polls w) \<and> get_pair_status (wm_pair_id w) now' = Some Approved)"
  using assms approval_seen [of "wm_pair_id w" "wm_polls w"]
  by (auto simp: pair_unknown_key_def request_pair_def as_pending_def Let_def split: if_splits pair_outcome.splits)

lemma key_auth_Pass:
  assumes "key_auth E C q w g p key st = (Pass a, st')"
  shows "a = not_yet \<and> st' = st \<or>
    challenge_passed C key w \<and>
      ((\<exists>d. find_device_by_public_key key st = Some d \<and> a = as_device (pd_device_id d)) \<or>
       a = as_device (client_id p) \<and> wg_pairing_enabled g \<and>
       (\<exists>now'. Some now' \<in> set (wm_polls w) \<and> get_pair_status (wm_pair_id w) now' = Some Approved))"
proof -
  have "a = not_yet \<and> st' = st \<or> pair_unknown_key E C q w p key st = (Pass a, st') \<and> wg_pairing_enabled g \<or>
      (\<exists>d. find_device_by_public_key key st = Some d \<and> a = as_device (pd_device_id d) \<and> challenge_passed C key w)"
    using assms unfolding key_auth_def by (auto split: sum.splits if_splits key_pinning_result.splits option.splits)
  then show ?thesis using pair_unknown_key_Pass [of E C q w p key st a st'] by blast
qed

lemma token_auth_Pass:
  assumes "token_auth E q p dt st = (Pass a, st')"
  shows "a = not_yet \<or> (\<exists>v. verify_device_token E dt st = Some v \<and> authenticated a \<and> device_token_device_id a = Some (dtv_device_id v))"
  using assms by (auto simp: token_auth_def Let_def split: option.splits if_splits prod.splits pin_public_key_result.splits)

text \<open>The states of authentication that the devices leave behind.\<close>

lemma device_auth_Pass:
  assumes "device_auth E C q w g p a0 = (Pass a, st')" "device_token_device_id a0 = None" "authenticated a0 \<or> a0 = not_yet"
  shows "a = a0 \<or> (\<exists>d. authenticated a \<and> device_token_device_id a = Some d \<and>
    (d = client_id p \<longrightarrow> device_shown E C w g p d))"
proof (cases "wg_pairing g")
  case None
  then show ?thesis using assms(1) by (simp add: device_auth_def)
next
  case (Some st)
  show ?thesis
  proof (cases "authenticated a0")
    case True
    then show ?thesis using assms(1) Some by (auto simp: device_auth_def split: option.splits)
  next
    case False
    then have a0: "a0 = not_yet" using assms(3) by simp
    let ?shown = "\<lambda>a. \<exists>d. authenticated a \<and> device_token_device_id a = Some d \<and>
      (d = client_id p \<longrightarrow> device_shown E C w g p d)"
    obtain a1 st1 where k: "(case auth_field ca_public_key p of Some key \<Rightarrow> key_auth E C q w g p key st | None \<Rightarrow> (Pass a0, st)) = (Pass a1, st1)"
      and t: "(case auth_field ca_device_token p of
          Some dt \<Rightarrow> if authenticated a1 then (Pass a1, Some st1) else apsnd Some (token_auth E q p dt st1)
        | None \<Rightarrow> (Pass a1, Some st1)) = (Pass a, st')"
      using assms(1) False Some unfolding device_auth_def
      by (auto split: prod.splits auth_step.splits option.splits)
    have "a1 = not_yet \<and> st1 = st \<or> ?shown a1"
    proof (cases "auth_field ca_public_key p")
      case None
      then show ?thesis using k a0 by simp
    next
      case key: (Some key)
      then have "key_auth E C q w g p key st = (Pass a1, st1)" using k by simp
      from key_auth_Pass [OF this] key Some show ?thesis by (auto simp: as_device_def device_shown_def)
    qed
    then show ?thesis
    proof
      assume "?shown a1"
      then show ?thesis using t by (auto split: option.splits)
    next
      assume a1: "a1 = not_yet \<and> st1 = st"
      show ?thesis
      proof (cases "auth_field ca_device_token p")
        case None
        then show ?thesis using t a1 a0 by simp
      next
        case dt: (Some dt)
        then obtain st2 where "token_auth E q p dt st = (Pass a, st2)" using t a1 False a0 by (cases "token_auth E q p dt st") auto
        from token_auth_Pass [OF this] dt Some a0 show ?thesis by (auto simp: device_shown_def)
      qed
    qed
  qed
qed

lemma initial_auth_cases: "device_token_device_id (initial_auth h) = None" "authenticated (initial_auth h) \<or> initial_auth h = not_yet"
  by (auto simp: initial_auth_def not_yet_def split: option.splits)

lemma later_auth_device:
  "device_token_device_id (legacy_auth g p (credential_auth g p l a)) = device_token_device_id a"
  "authenticated a \<Longrightarrow> legacy_auth g p (credential_auth g p l a) = a"
  by (auto simp: legacy_auth_def credential_auth_def split: option.splits)

lemma finish_Connected:
  "finish_handshake p a = Connected role sc dev \<longleftrightarrow>
     authenticated a \<and> dev = device_token_device_id a \<and> validate_node_identity dev (client_id p) \<and>
     resolve_connection_role (requested_role p) (dev \<noteq> None) = Some role \<and>
     connection_scopes (dev \<noteq> None) (api_key_scopes a) = Some sc"
  by (auto simp: finish_handshake_def split: option.splits)

lemma handle_Connected:
  assumes "fst (handle_connection E C q w g h l p) = Connected role sc dev"
  obtains a where "finish_handshake p (legacy_auth g p (credential_auth g p l a)) = Connected role sc dev"
    and "a = initial_auth h \<or> (\<exists>d. authenticated a \<and> device_token_device_id a = Some d \<and> (d = client_id p \<longrightarrow> device_shown E C w g p d))"
  using assms device_auth_Pass [OF _ initial_auth_cases, of E C q w g p h]
  by (auto simp: handle_connection_def split: if_splits prod.splits auth_step.splits)

lemma node_methods_only: "authorize_method m role_node [] = None \<longleftrightarrow> m \<in> set NODE_METHODS"
  by (simp add: authorize_method_def role_node_def)

text \<open>A gateway for the examples: one device with the token \<open>mdt_t\<close>, and the password \<open>pw\<close>.\<close>

definition plain_crypto :: pair_crypto where
  "plain_crypto = \<lparr>b64_decode = Some, b64_encode = (\<lambda>s. s), is_verifying_key = (\<lambda>s. True), ed25519_verify = (\<lambda>k n s. False), sha256_digest = (\<lambda>s. s)\<rparr>"

definition no_faults :: query_faults where
  "no_faults = \<lparr>qf_revoked = False, qf_pinning = False, qf_find = False, qf_request = False, qf_verify = False, qf_pin = False\<rparr>"

definition no_meets :: ws_meets where
  "no_meets = \<lparr>wm_now = 0, wm_frames = [], wm_nonce = [], wm_pair_id = [], wm_pair_nonce = [], wm_polls = []\<rparr>"

definition plain_gateway :: ws_gateway where
  "plain_gateway = \<lparr>wg_pairing = Some (store_call plain_env empty_store (Create 0 ''d'' ''t'' None ''x'')), wg_pairing_enabled = False,
     wg_credentials = Some \<lparr>cs_setup_complete = True, cs_verify_api_key = (\<lambda>k. None), cs_verify_password = (\<lambda>w. w = ''pw'')\<rparr>,
     wg_auth = resolve_auth None None\<rparr>"

definition plain_connect :: "string option \<Rightarrow> string option \<Rightarrow> connect_params" where
  "plain_connect password device_token =
     \<lparr>min_protocol = 3, max_protocol = 4, client_id = ''d'', client_display_name = None, client_platform = ''x'', requested_role = None,
      connect_auth = Some \<lparr>ca_token = None, ca_password = password, ca_api_key = None, ca_device_token = device_token, ca_public_key = None\<rparr>\<rparr>"

lemmas plain_defs = plain_env_def plain_crypto_def no_faults_def no_meets_def plain_gateway_def plain_connect_def
  create_device_token_def insert_device_def issue_token_def insert_token_def row_with_def empty_store_def raw_token_def

lemmas handshake_defs = handle_connection_def device_auth_def token_auth_def verify_device_token_def initial_auth_def not_yet_def
  auth_field_def PROTOCOL_VERSION_def finish_handshake_def legacy_auth_def credential_auth_def resolve_connection_role_def
  connection_scopes_def validate_node_identity_def role_node_def role_operator_def Let_def

text \<open>C22: A connection is taken for a device only after it showed that it is this device: it signed the fresh nonce with a
  key that is pinned to an active device or whose pair request was approved while pairing was enabled, or it presented
  a device token the store accepts. The device is the client id it announced, it gets the role of a node
  and no scopes, and with these the dispatcher lets it call the methods for nodes and nothing else.\<close>

theorem node_connection_is_shown_and_confined:
  assumes "fst (handle_connection E C q w g h l p) = Connected role sc (Some d)"
  shows "role = role_node \<and> sc = [] \<and> client_id p = d \<and> device_shown E C w g p d \<and>
    (authorize_method m role sc = None \<longleftrightarrow> m \<in> set NODE_METHODS)"
proof -
  obtain a where fin: "finish_handshake p (legacy_auth g p (credential_auth g p l a)) = Connected role sc (Some d)"
    and a: "a = initial_auth h \<or> (\<exists>d. authenticated a \<and> device_token_device_id a = Some d \<and> (d = client_id p \<longrightarrow> device_shown E C w g p d))"
    using handle_Connected [OF assms] by blast
  have dev: "device_token_device_id a = Some d" and "client_id p = d" and "role = role_node" and "sc = []"
    using fin by (auto simp: finish_Connected later_auth_device validate_node_identity_def resolve_connection_role_def
      connection_scopes_def split: option.splits if_splits)
  moreover have "device_shown E C w g p d" using a dev \<open>client_id p = d\<close> by (auto simp: initial_auth_cases)
  ultimately show ?thesis by (simp add: node_methods_only)
qed

theorem node_connection_is_shown_and_confined_witness:
  "fst (handle_connection plain_env plain_crypto no_faults no_meets plain_gateway None False (plain_connect None (Some ''mdt_t''))) =
     Connected ''node'' [] (Some ''d'') \<and>
   device_shown plain_env plain_crypto no_meets plain_gateway (plain_connect None (Some ''mdt_t'')) ''d''"
proof -
  have "fst (handle_connection plain_env plain_crypto no_faults no_meets plain_gateway None False (plain_connect None (Some ''mdt_t''))) =
     Connected ''node'' [] (Some ''d'')" by (simp add: plain_defs handshake_defs)
  from this node_connection_is_shown_and_confined [OF this] show ?thesis by blast
qed

lemma later_auth_shown:
  assumes "authenticated (legacy_auth g p (credential_auth g p l (initial_auth h)))" "wg_auth g = resolve_auth tk pw"
  shows "client_shown g h l p"
  using assms
  by (auto simp: legacy_auth_def credential_auth_def authorize_connect_def initial_auth_def client_shown_def resolve_auth_def safe_equal_iff
    split: option.splits if_splits bind_splits)

text \<open>The scopes of the API key that a connection shows: with its HTTP request, or, when that shows nothing and the
  setup is complete, in its first message.\<close>

definition key_scopes_shown :: "ws_gateway \<Rightarrow> auth_identity option \<Rightarrow> connect_params \<Rightarrow> string list option" where
  "key_scopes_shown g header_identity p =
     (case header_identity of
        Some i \<Rightarrow> if auth_method_of i = ApiKey then Some (Http_Gates.scopes i) else None
      | None \<Rightarrow>
          (case wg_credentials g of
             None \<Rightarrow> None
           | Some cs \<Rightarrow> if cs_setup_complete cs then Option.bind (auth_field ca_api_key p) (cs_verify_api_key cs) else None))"

lemma later_auth_scopes:
  "api_key_scopes (legacy_auth g p (credential_auth g p l (initial_auth h))) = key_scopes_shown g h p"
  by (auto simp: legacy_auth_def credential_auth_def initial_auth_def key_scopes_shown_def
    split: option.splits if_splits)

text \<open>C23: Any other connection has shown credentials: the identity of its HTTP request, an API key or the password of the
  credential store, or, before the setup is complete, that it is local, or else the token or the password of the
  environment; only a gateway without any credentials lets everyone in. It never has the role of a node. One that
  shows an API key, in its HTTP request or, without any identity there, in its first message, has exactly the scopes
  of that key, which are not empty; one that shows none has all scopes.\<close>

theorem client_connection_shows_credentials:
  assumes "fst (handle_connection E C q w g h l p) = Connected role sc None" "wg_auth g = resolve_auth tk pw"
  shows "client_shown g h l p \<and> role \<noteq> role_node \<and>
    (case key_scopes_shown g h p of
       Some key_scopes \<Rightarrow> key_scopes \<noteq> [] \<and> sc = key_scopes
     | None \<Rightarrow> sc = [scope_admin, scope_read, scope_write, scope_approvals, scope_pairing])"
proof -
  obtain a where fin: "finish_handshake p (legacy_auth g p (credential_auth g p l a)) = Connected role sc None"
    and a: "a = initial_auth h \<or> (\<exists>d. authenticated a \<and> device_token_device_id a = Some d \<and> (d = client_id p \<longrightarrow> device_shown E C w g p d))"
    using handle_Connected [OF assms(1)] by blast
  then have a: "a = initial_auth h" by (auto simp: finish_Connected later_auth_device)
  let ?a = "legacy_auth g p (credential_auth g p l (initial_auth h))"
  have "authenticated ?a" and role: "resolve_connection_role (requested_role p) False = Some role"
    and sc: "connection_scopes False (key_scopes_shown g h p) = Some sc"
    using fin unfolding a by (auto simp: finish_Connected later_auth_scopes)
  have "client_shown g h l p" using \<open>authenticated ?a\<close> assms(2) by (rule later_auth_shown)
  moreover have "role \<noteq> role_node"
    using role by (auto simp: resolve_connection_role_def role_node_def role_operator_def split: if_splits option.splits)
  ultimately show ?thesis
    using sc by (auto simp: connection_scopes_def full_scopes_def split: option.splits if_splits)
qed

theorem client_connection_shows_credentials_witness:
  "fst (handle_connection plain_env plain_crypto no_faults no_meets plain_gateway None False (plain_connect (Some ''pw'') None)) =
     Connected ''operator'' full_scopes None \<and>
   client_shown plain_gateway None False (plain_connect (Some ''pw'') None)"
proof -
  have c: "fst (handle_connection plain_env plain_crypto no_faults no_meets plain_gateway None False (plain_connect (Some ''pw'') None)) =
     Connected ''operator'' full_scopes None" by (simp add: plain_defs handshake_defs)
  have "wg_auth plain_gateway = resolve_auth None None" by (simp add: plain_gateway_def)
  from c client_connection_shows_credentials [OF c this] show ?thesis by blast
qed

section \<open>What the code does not exclude\<close>

text \<open>When the query for revoked keys fails the key counts as not revoked.\<close>

lemma failed_revocation_query_passes:
  assumes "public_key_fingerprint C key = Inr fp" "qf_revoked q" "qf_pinning q" "qf_find q"
  shows "key_auth E C q w g p key st = (Pass not_yet, st)"
  using assms by (simp add: key_auth_def)

text \<open>A binary frame ends the wait for a challenge response.\<close>

lemma binary_frame_aborts: "receive_challenge_response (RxOther # frames) = Inl UnexpectedBinary"
  by simp

text \<open>Once an approval was seen only the signature counts, whatever has become of the device meanwhile.\<close>

lemma approved_then_revoked_connects:
  assumes "row_with pr_id (wm_pair_id w) (requests st) = None" "\<not> qf_request q" "challenge_passed C key w"
    and "wm_polls w = Some seen # later" "get_pair_status (wm_pair_id w) seen = Some Approved"
  shows "fst (pair_unknown_key E C q w p key st) = Pass (as_device (client_id p))"
  using assms by (simp add: pair_unknown_key_def request_pair_def Let_def as_pending_def)

end
