(* ===== verification/Webhooks.thy ===== *)
theory Webhooks
  imports Tool_Args Request_Throttle "HOL-Library.Char_ord" "HOL-Library.List_Lexorder"
begin

text \<open>
  Webhooks (\<open>crates/webhooks/src\<close>): verification of the sender (\<open>auth.rs\<close>), the limiter (\<open>rate_limit.rs\<close>), the event filter and
  the delivery rows (\<open>types.rs\<close>, \<open>store.rs\<close>), duplicates (\<open>dedup.rs\<close>), messages and headers (\<open>normalize.rs\<close>), the worker
  (\<open>worker.rs\<close>), and the handler that takes deliveries in (\<open>crates/httpd/src/server/gateway.rs\<close>).

  HMAC, hexadecimal text, JSON text and parsing, networks, source profiles, and what an agent or a channel answers are
  parameters. The webhook of a request is given with its secrets decrypted. Each statement of the store is atomic.
\<close>

section \<open>Types\<close>

datatype webhook_auth_mode = NoAuth | StaticHeader | Bearer | GithubHmacSha256 | GitlabToken | StripeWebhookSignature
  | LinearWebhookSignature | PagerdutyV2Signature | SentryWebhookSignature

datatype session_mode = PerDelivery | PerEntity | NamedSession

record event_filter =
  ef_allow :: "string list"
  ef_deny :: "string list"

definition accepts :: "event_filter \<Rightarrow> string \<Rightarrow> bool" where
  "accepts f event_type =
     (if ef_allow f \<noteq> [] \<and> event_type \<notin> set (ef_allow f) then False else event_type \<notin> set (ef_deny f))"

record 'f webhook =
  wh_id :: nat
  wh_name :: string
  wh_enabled :: bool
  wh_public_id :: string
  wh_agent_id :: "string option"
  wh_model :: "string option"
  wh_prompt_suffix :: "string option"
  wh_auth_mode :: webhook_auth_mode
  wh_auth_config :: "'f json_value option"
  wh_source_profile :: string
  wh_event_filter :: event_filter
  wh_session_mode :: session_mode
  wh_named_session_key :: "string option"
  wh_allowed_cidrs :: "string list"
  wh_max_body_bytes :: nat
  wh_rate_limit :: nat
  wh_deliver_only :: bool
  wh_prompt_template :: "string option"
  wh_deliver_to :: "string option"
  wh_deliver_extra :: "'f json_value option"
  wh_delivery_count :: nat
  wh_last_delivery_at :: "string option"

datatype delivery_status = Received | Filtered | Deduplicated | DeliveryRejected | Queued | Processing | Completed | Failed

record delivery =
  dl_id :: nat
  dl_webhook_id :: nat
  dl_received_at :: string
  dl_status :: delivery_status
  dl_event_type :: "string option"
  dl_entity_key :: "string option"
  dl_delivery_key :: "string option"
  dl_content_type :: "string option"
  dl_remote_ip :: "string option"
  dl_headers :: "(string \<times> string) list"
  dl_body :: string
  dl_session_key :: "string option"
  dl_run_error :: "string option"

record webhook_crypto =
  hmac_sha256 :: "string \<Rightarrow> string \<Rightarrow> string"
  hex_decode :: "string \<Rightarrow> string option"
  hex_encode :: "string \<Rightarrow> string"

section \<open>Authentication\<close>

type_synonym verdict = "string + unit"

definition get_config_str :: "'f json_value option \<Rightarrow> string \<Rightarrow> string + string" where
  "get_config_str config key =
     (case Option.bind (Option.bind (Option.bind config as_object) (\<lambda>ms. map_of ms key)) as_str of
        Some s \<Rightarrow> Inr s
      | None \<Rightarrow> Inl (''missing auth config key: '' @ key))"

definition get_header_str :: "header_map \<Rightarrow> string \<Rightarrow> string + string" where
  "get_header_str h name =
     (case header_str h name of Some s \<Rightarrow> Inr s | None \<Rightarrow> Inl (''missing header: '' @ name))"

text \<open>The question mark of the code.\<close>

definition try_then :: "'e + 'a \<Rightarrow> ('a \<Rightarrow> 'e + 'b) \<Rightarrow> 'e + 'b" where
  "try_then r k = (case r of Inl e \<Rightarrow> Inl e | Inr x \<Rightarrow> k x)"

definition require :: "bool \<Rightarrow> string \<Rightarrow> verdict" where
  "require b msg = (if b then Inr () else Inl msg)"

definition verify_static_header :: "'f json_value option \<Rightarrow> header_map \<Rightarrow> verdict" where
  "verify_static_header config h =
     try_then (get_config_str config ''header'') (\<lambda>header_name.
     try_then (get_config_str config ''value'') (\<lambda>expected.
     try_then (get_header_str h header_name) (\<lambda>actual.
       require (actual = expected) ''static header mismatch'')))"

definition verify_bearer :: "'f json_value option \<Rightarrow> header_map \<Rightarrow> verdict" where
  "verify_bearer config h =
     try_then (get_config_str config ''token'') (\<lambda>expected.
     try_then (get_header_str h ''authorization'') (\<lambda>auth.
       case strip_prefix auth ''Bearer '' of
         None \<Rightarrow> Inl ''invalid Bearer format''
       | Some token \<Rightarrow> require (token = expected) ''bearer token mismatch''))"

definition verify_hmac_header ::
  "webhook_crypto \<Rightarrow> 'f json_value option \<Rightarrow> header_map \<Rightarrow> string \<Rightarrow> string \<Rightarrow> string \<Rightarrow> string \<Rightarrow> verdict" where
  "verify_hmac_header C config h body header_name config_key pre =
     try_then (get_config_str config config_key) (\<lambda>secret.
     try_then (get_header_str h header_name) (\<lambda>sig_header.
       case (if pre = [] then Some sig_header else strip_prefix sig_header pre) of
         None \<Rightarrow> Inl (''invalid '' @ header_name @ '' format'')
       | Some sig_hex \<Rightarrow>
           (case hex_decode C sig_hex of
              None \<Rightarrow> Inl ''invalid signature hex''
            | Some sig_bytes \<Rightarrow> require (hmac_sha256 C secret body = sig_bytes) (header_name @ '' mismatch''))))"

definition verify_github_hmac :: "webhook_crypto \<Rightarrow> 'f json_value option \<Rightarrow> header_map \<Rightarrow> string \<Rightarrow> verdict" where
  "verify_github_hmac C config h body =
     try_then (get_config_str config ''secret'') (\<lambda>secret.
     try_then (get_header_str h ''x-hub-signature-256'') (\<lambda>sig_header.
       case strip_prefix sig_header ''sha256='' of
         None \<Rightarrow> Inl ''invalid signature format''
       | Some sig_hex \<Rightarrow>
           (case hex_decode C sig_hex of
              None \<Rightarrow> Inl ''invalid signature hex''
            | Some sig_bytes \<Rightarrow> require (hmac_sha256 C secret body = sig_bytes) ''HMAC signature mismatch'')))"

definition verify_gitlab_token :: "'f json_value option \<Rightarrow> header_map \<Rightarrow> verdict" where
  "verify_gitlab_token config h =
     try_then (get_config_str config ''token'') (\<lambda>expected.
     try_then (get_header_str h ''x-gitlab-token'') (\<lambda>actual.
       require (actual = expected) ''GitLab token mismatch''))"

text \<open>\<open>t=TIMESTAMP,v1=SIG\<close>: the last timestamp and all signatures.\<close>

definition stripe_timestamp :: "string \<Rightarrow> string option" where
  "stripe_timestamp sig_header =
     fold (\<lambda>part t. case split_once CHR ''='' part of Some (k, v) \<Rightarrow> if k = ''t'' then Some v else t | None \<Rightarrow> t)
       (split_by (\<lambda>c. c = CHR '','') sig_header) None"

definition stripe_signatures :: "string \<Rightarrow> string list" where
  "stripe_signatures sig_header =
     List.map_filter (\<lambda>part. case split_once CHR ''='' part of Some (k, v) \<Rightarrow> if k = ''v1'' then Some v else None | None \<Rightarrow> None)
       (split_by (\<lambda>c. c = CHR '','') sig_header)"

text \<open>The difference of two \<open>i64\<close> wraps around.\<close>

definition wrap_i64 :: "int \<Rightarrow> int" where
  "wrap_i64 i = (i + 2 ^ 63) mod 2 ^ 64 - 2 ^ 63"

definition verify_stripe_signature :: "webhook_crypto \<Rightarrow> int \<Rightarrow> 'f json_value option \<Rightarrow> header_map \<Rightarrow> string \<Rightarrow> verdict" where
  "verify_stripe_signature C now config h body =
     try_then (get_config_str config ''secret'') (\<lambda>secret.
     try_then (get_header_str h ''stripe-signature'') (\<lambda>sig_header.
       case stripe_timestamp sig_header of
         None \<Rightarrow> Inl ''missing timestamp in Stripe signature''
       | Some ts \<Rightarrow>
           if stripe_signatures sig_header = [] then Inl ''missing v1 signature''
           else
             (case parse_i64 ts of
                None \<Rightarrow> Inl ''invalid Stripe signature timestamp''
              | Some ts_secs \<Rightarrow>
                  if 300 < \<bar>wrap_i64 (now - ts_secs)\<bar> then Inl ''Stripe signature timestamp too old''
                  else require (hex_encode C (hmac_sha256 C secret (ts @ ''.'' @ body)) \<in> set (stripe_signatures sig_header))
                         ''Stripe signature mismatch'')))"

definition verify_pagerduty_signature :: "webhook_crypto \<Rightarrow> 'f json_value option \<Rightarrow> header_map \<Rightarrow> string \<Rightarrow> verdict" where
  "verify_pagerduty_signature C config h body =
     try_then (get_config_str config ''secret'') (\<lambda>secret.
     try_then (get_header_str h ''x-pagerduty-signature'') (\<lambda>sig_header.
       require (list_ex (\<lambda>part. strip_prefix (trim part) ''v1='' = Some (hex_encode C (hmac_sha256 C secret body)))
           (split_by (\<lambda>c. c = CHR '','') sig_header))
         ''x-pagerduty-signature mismatch''))"

definition verify_webhook ::
  "webhook_crypto \<Rightarrow> int \<Rightarrow> webhook_auth_mode \<Rightarrow> 'f json_value option \<Rightarrow> header_map \<Rightarrow> string \<Rightarrow> verdict" where
  "verify_webhook C now mode config h body =
     (case mode of
        NoAuth \<Rightarrow> Inr ()
      | StaticHeader \<Rightarrow> verify_static_header config h
      | Bearer \<Rightarrow> verify_bearer config h
      | GithubHmacSha256 \<Rightarrow> verify_github_hmac C config h body
      | GitlabToken \<Rightarrow> verify_gitlab_token config h
      | StripeWebhookSignature \<Rightarrow> verify_stripe_signature C now config h body
      | LinearWebhookSignature \<Rightarrow> verify_hmac_header C config h body ''linear-signature'' ''secret'' ''sha256=''
      | PagerdutyV2Signature \<Rightarrow> verify_pagerduty_signature C config h body
      | SentryWebhookSignature \<Rightarrow> verify_hmac_header C config h body ''sentry-hook-signature'' ''secret'' [])"

section \<open>The limiter\<close>

record rate_limit_state =
  rl_per_webhook :: "nat \<rightharpoonup> nat list"
  rl_global :: "nat list"

definition new_rate_limit :: rate_limit_state where
  "new_rate_limit = \<lparr>rl_per_webhook = Map.empty, rl_global = []\<rparr>"

definition webhook_rate_check :: "nat \<Rightarrow> nat \<Rightarrow> nat \<Rightarrow> nat \<Rightarrow> rate_limit_state \<Rightarrow> bool \<times> rate_limit_state" where
  "webhook_rate_check global_max now webhook_id per_webhook_max s =
     (let g = prune_window 60000 now (rl_global s); s = s\<lparr>rl_global := g\<rparr> in
      if global_max \<le> length g then (False, s)
      else
        (let w = prune_window 60000 now (case rl_per_webhook s webhook_id of Some w \<Rightarrow> w | None \<Rightarrow> []);
             s = s\<lparr>rl_per_webhook := (rl_per_webhook s)(webhook_id \<mapsto> w)\<rparr> in
         if per_webhook_max \<le> length w then (False, s)
         else (True, s\<lparr>rl_per_webhook := (rl_per_webhook s)(webhook_id \<mapsto> w @ [now]), rl_global := g @ [now]\<rparr>)))"

section \<open>Deliveries\<close>

record webhook_store =
  ws_deliveries :: "delivery list"
  ws_next_id :: nat
  ws_counts :: "nat \<rightharpoonup> nat \<times> string"

definition find_by_delivery_key :: "nat \<Rightarrow> string \<Rightarrow> webhook_store \<Rightarrow> nat option" where
  "find_by_delivery_key webhook_id key st =
     map_option dl_id (find (\<lambda>d. dl_webhook_id d = webhook_id \<and> dl_delivery_key d = Some key) (ws_deliveries st))"

definition check_duplicate :: "nat \<Rightarrow> string option \<Rightarrow> webhook_store \<Rightarrow> nat option" where
  "check_duplicate webhook_id delivery_key st =
     (case delivery_key of
        Some key \<Rightarrow> if key \<noteq> [] then find_by_delivery_key webhook_id key st else None
      | None \<Rightarrow> None)"

text \<open>The unique index on the webhook and the key; rows without a key are not in it.\<close>

definition insert_delivery :: "delivery \<Rightarrow> webhook_store \<Rightarrow> nat option \<times> webhook_store" where
  "insert_delivery d st =
     (if dl_delivery_key d \<noteq> None \<and>
         list_ex (\<lambda>e. dl_webhook_id e = dl_webhook_id d \<and> dl_delivery_key e = dl_delivery_key d) (ws_deliveries st)
      then (None, st)
      else (Some (ws_next_id st),
        st\<lparr>ws_deliveries := ws_deliveries st @ [d\<lparr>dl_id := ws_next_id st\<rparr>], ws_next_id := ws_next_id st + 1\<rparr>))"

definition increment_delivery_count :: "nat \<Rightarrow> string \<Rightarrow> webhook_store \<Rightarrow> webhook_store" where
  "increment_delivery_count webhook_id received_at st =
     st\<lparr>ws_counts := (ws_counts st)(webhook_id \<mapsto>
       (case ws_counts st webhook_id of Some (n, _) \<Rightarrow> (n + 1, received_at) | None \<Rightarrow> (1, received_at)))\<rparr>"

definition update_delivery_status ::
  "nat \<Rightarrow> delivery_status \<Rightarrow> string option \<Rightarrow> string option \<Rightarrow> webhook_store \<Rightarrow> webhook_store" where
  "update_delivery_status i status session_key run_error st =
     st\<lparr>ws_deliveries := map (\<lambda>d. if dl_id d = i then d\<lparr>dl_status := status,
         dl_session_key := (case session_key of Some k \<Rightarrow> Some k | None \<Rightarrow> dl_session_key d),
         dl_run_error := (case run_error of Some e \<Rightarrow> Some e | None \<Rightarrow> dl_run_error d)\<rparr> else d) (ws_deliveries st)\<rparr>"

definition get_delivery :: "nat \<Rightarrow> webhook_store \<Rightarrow> delivery option" where
  "get_delivery i st = find (\<lambda>d. dl_id d = i) (ws_deliveries st)"

definition list_unprocessed_deliveries :: "webhook_store \<Rightarrow> nat list" where
  "list_unprocessed_deliveries st =
     map dl_id (sort_key dl_received_at (filter (\<lambda>d. dl_status d \<in> {Received, Queued, Processing}) (ws_deliveries st)))"

section \<open>Messages\<close>

record 'f json_text =
  json_parse :: "string \<Rightarrow> 'f json_value option"
  json_compact :: "'f json_value \<Rightarrow> string"
  json_pretty :: "'f json_value \<Rightarrow> string"
  number_text :: "'f json_number \<Rightarrow> string"

definition truncate_str :: "string \<Rightarrow> nat \<Rightarrow> string" where
  "truncate_str s max_bytes = (if byte_len s \<le> max_bytes then s else truncate_chars max_bytes s)"

definition build_delivery_message ::
  "'f webhook \<Rightarrow> string option \<Rightarrow> string option \<Rightarrow> string \<Rightarrow> string \<Rightarrow> string" where
  "build_delivery_message wh event_type delivery_key received_at summary =
     ''Webhook delivery received.'' @ [newline, newline] @
     ''Webhook: '' @ wh_name wh @ '' ('' @ wh_public_id wh @ '')'' @ [newline] @
     ''Source: '' @ wh_source_profile wh @ [newline] @
     (case event_type of Some et \<Rightarrow> ''Event: '' @ et @ [newline] | None \<Rightarrow> []) @
     (case delivery_key of Some dk \<Rightarrow> ''Delivery: '' @ dk @ [newline] | None \<Rightarrow> []) @
     ''Received: '' @ received_at @ [newline] @
     [newline] @ ''---'' @ [newline, newline] @ summary @
     (case wh_prompt_suffix wh of Some sfx \<Rightarrow> [newline, newline] @ ''---'' @ [newline, newline] @ sfx | None \<Rightarrow> [])"

fun resolve_segments :: "'f json_value \<Rightarrow> string list \<Rightarrow> 'f json_value option" where
  "resolve_segments v [] = Some v"
| "resolve_segments v (seg # segs) =
     (case Option.bind (as_object v) (\<lambda>ms. map_of ms seg) of None \<Rightarrow> None | Some w \<Rightarrow> resolve_segments w segs)"

definition resolve_path :: "'f json_value \<Rightarrow> string \<Rightarrow> 'f json_value option" where
  "resolve_path v path = resolve_segments v (split_by (\<lambda>c. c = CHR ''.'') path)"

definition render_key :: "'f json_text \<Rightarrow> 'f json_value \<Rightarrow> string \<Rightarrow> string" where
  "render_key J payload key =
     (if key = [] then ''{}''
      else if key = ''__raw__'' then truncate_str (json_pretty J payload) 4000
      else
        (case resolve_path payload key of
           Some (String s) \<Rightarrow> s
         | Some (Number n) \<Rightarrow> number_text J n
         | Some (Bool b) \<Rightarrow> if b then ''true'' else ''false''
         | Some Null \<Rightarrow> ''null''
         | Some other \<Rightarrow> truncate_str (json_compact J other) 2000
         | None \<Rightarrow> ''{'' @ key @ ''}''))"

function render_template :: "'f json_text \<Rightarrow> 'f json_value \<Rightarrow> string \<Rightarrow> string" where
  "render_template J payload [] = []"
| "render_template J payload (c # cs) =
     (if c = CHR ''{'' then
        (case split_once CHR ''}'' cs of
           None \<Rightarrow> c # cs
         | Some (key, rest) \<Rightarrow> render_key J payload key @ render_template J payload rest)
      else c # render_template J payload cs)"
  by pat_completeness auto
termination
  by (relation "measure (\<lambda>(J, v, s). length s)") (auto simp: split_once_Some)

definition safe_prefixes :: "string list" where
  "safe_prefixes = [''x-github-'', ''x-gitlab-'', ''x-stripe-'', ''x-pagerduty-'', ''x-linear-'', ''x-sentry-'', ''x-request-id'',
     ''x-delivery-id'', ''x-event-type'', ''content-type'', ''content-length'', ''user-agent'', ''idempotency-key'']"

definition denied_headers :: "string list" where
  "denied_headers = [''authorization'', ''x-gitlab-token'', ''cookie'', ''x-hub-signature-256'', ''x-pagerduty-signature'',
     ''stripe-signature'', ''linear-signature'', ''sentry-hook-signature'']"

definition extract_safe_headers :: "header_map \<Rightarrow> (string \<times> string) list" where
  "extract_safe_headers h =
     fold (\<lambda>(name, v) out.
         let name = to_lowercase name in
         if name \<in> set denied_headers then out
         else if list_ex (starts_with name) safe_prefixes then AList.update name v out
         else out)
       h []"

definition build_session_key :: "'f webhook \<Rightarrow> nat \<Rightarrow> string option \<Rightarrow> string" where
  "build_session_key wh delivery_id entity_key =
     (case wh_session_mode wh of
        PerDelivery \<Rightarrow> ''webhook:'' @ wh_public_id wh @ '':'' @ show_nat delivery_id
      | PerEntity \<Rightarrow>
          (case entity_key of
             Some e \<Rightarrow> ''webhook:'' @ wh_public_id wh @ '':'' @ e
           | None \<Rightarrow> ''webhook:'' @ wh_public_id wh @ '':'' @ show_nat delivery_id)
      | NamedSession \<Rightarrow> (case wh_named_session_key wh of Some k \<Rightarrow> k | None \<Rightarrow> ''webhook:'' @ wh_public_id wh))"

section \<open>Taking a delivery in\<close>

record 'f source_profile =
  sp_event_type :: "header_map \<Rightarrow> string \<Rightarrow> string option"
  sp_delivery_key :: "header_map \<Rightarrow> string \<Rightarrow> string option"
  sp_entity_key :: "string \<Rightarrow> 'f json_value \<Rightarrow> string option"
  sp_summary :: "string \<Rightarrow> 'f json_value \<Rightarrow> string"

record 'f ingest_env =
  ie_crypto :: webhook_crypto
  ie_json :: "'f json_text"
  ie_profile :: "string \<Rightarrow> 'f source_profile option"
  ie_decrypt :: "'f webhook \<Rightarrow> 'f webhook option"
  ie_is_ip :: "string \<Rightarrow> bool"
  ie_net_contains :: "string \<Rightarrow> string \<Rightarrow> bool option"
  ie_behind_proxy :: bool
  ie_global_max :: nat

record 'f ingest_state =
  is_webhooks :: "'f webhook list"
  is_store :: webhook_store
  is_limiter :: rate_limit_state
  is_queue :: "nat list"

datatype ingest_answer = WebhookNotFound | SecretsUnavailable | IpNotAllowed | PayloadTooLarge nat | AuthenticationFailed
  | FilteredEvent string | RateLimited | DeduplicatedAs nat | PersistFailed | Accepted nat

fun answer_code :: "ingest_answer \<Rightarrow> nat" where
  "answer_code WebhookNotFound = 404"
| "answer_code SecretsUnavailable = 503"
| "answer_code IpNotAllowed = 403"
| "answer_code (PayloadTooLarge n) = 413"
| "answer_code AuthenticationFailed = 401"
| "answer_code (FilteredEvent et) = 200"
| "answer_code RateLimited = 429"
| "answer_code (DeduplicatedAs i) = 200"
| "answer_code PersistFailed = 500"
| "answer_code (Accepted i) = 202"

text \<open>A request: the time in milliseconds, its text, the peer, the headers and the body.\<close>

record ingest_request =
  rq_public_id :: string
  rq_now_ms :: nat
  rq_received_at :: string
  rq_peer :: string
  rq_headers :: header_map
  rq_body :: string

definition remote_ip :: "'f ingest_env \<Rightarrow> ingest_request \<Rightarrow> string" where
  "remote_ip E r =
     (if ie_behind_proxy E then
        (case header_str (rq_headers r) ''x-forwarded-for'' of
           Some v \<Rightarrow> trim (hd (split_by (\<lambda>c. c = CHR '','') v))
         | None \<Rightarrow> (case header_str (rq_headers r) ''x-real-ip'' of Some v \<Rightarrow> trim v | None \<Rightarrow> rq_peer r))
      else rq_peer r)"

definition ip_allowed :: "'f ingest_env \<Rightarrow> string list \<Rightarrow> string \<Rightarrow> bool" where
  "ip_allowed E cidrs ip =
     (if cidrs = [] then True
      else ie_is_ip E ip \<and> list_ex (\<lambda>cidr. case ie_net_contains E cidr ip of Some b \<Rightarrow> b | None \<Rightarrow> cidr = ip) cidrs)"

definition new_delivery :: "'f ingest_env \<Rightarrow> 'f webhook \<Rightarrow> ingest_request \<Rightarrow> string option \<Rightarrow> string option \<Rightarrow> delivery" where
  "new_delivery E wh r event_type delivery_key =
     \<lparr>dl_id = 0, dl_webhook_id = wh_id wh, dl_received_at = rq_received_at r, dl_status = Queued, dl_event_type = event_type,
      dl_entity_key = (case (ie_profile E (wh_source_profile wh), event_type) of
          (Some p, Some et) \<Rightarrow> sp_entity_key p et (case json_parse (ie_json E) (rq_body r) of Some v \<Rightarrow> v | None \<Rightarrow> Null)
        | _ \<Rightarrow> None),
      dl_delivery_key = delivery_key, dl_content_type = header_str (rq_headers r) ''content-type'',
      dl_remote_ip = Some (remote_ip E r), dl_headers = extract_safe_headers (rq_headers r), dl_body = rq_body r,
      dl_session_key = None, dl_run_error = None\<rparr>"

definition ingest_counted ::
  "'f ingest_env \<Rightarrow> 'f webhook \<Rightarrow> ingest_request \<Rightarrow> string option \<Rightarrow> string option \<Rightarrow> 'f ingest_state \<Rightarrow> ingest_answer \<times> 'f ingest_state" where
  "ingest_counted E wh r event_type delivery_key s =
     (case webhook_rate_check (ie_global_max E) (rq_now_ms r) (wh_id wh) (wh_rate_limit wh) (is_limiter s) of (ok, lim) \<Rightarrow>
        (let s = s\<lparr>is_limiter := lim\<rparr> in
         if \<not> ok then (RateLimited, s)
         else
           (case check_duplicate (wh_id wh) delivery_key (is_store s) of
              Some existing \<Rightarrow> (DeduplicatedAs existing, s)
            | None \<Rightarrow>
                (case insert_delivery (new_delivery E wh r event_type delivery_key) (is_store s) of
                   (None, st) \<Rightarrow> (PersistFailed, s\<lparr>is_store := st\<rparr>)
                 | (Some i, st) \<Rightarrow>
                     (Accepted i, s\<lparr>is_store := increment_delivery_count (wh_id wh) (rq_received_at r) st,
                        is_queue := is_queue s @ [i]\<rparr>)))))"

definition ingest_checked ::
  "'f ingest_env \<Rightarrow> 'f webhook \<Rightarrow> ingest_request \<Rightarrow> 'f ingest_state \<Rightarrow> ingest_answer \<times> 'f ingest_state" where
  "ingest_checked E wh r s =
     (let profile = ie_profile E (wh_source_profile wh);
          event_type = Option.bind profile (\<lambda>p. sp_event_type p (rq_headers r) (rq_body r));
          delivery_key = Option.bind profile (\<lambda>p. sp_delivery_key p (rq_headers r) (rq_body r)) in
      case event_type of
        Some et \<Rightarrow>
          if \<not> accepts (wh_event_filter wh) et then (FilteredEvent et, s)
          else ingest_counted E wh r event_type delivery_key s
      | None \<Rightarrow> ingest_counted E wh r event_type delivery_key s)"

definition ingest :: "'f ingest_env \<Rightarrow> ingest_request \<Rightarrow> 'f ingest_state \<Rightarrow> ingest_answer \<times> 'f ingest_state" where
  "ingest E r s =
     (case find (\<lambda>w. wh_public_id w = rq_public_id r) (is_webhooks s) of
        None \<Rightarrow> (WebhookNotFound, s)
      | Some stored \<Rightarrow>
          if \<not> wh_enabled stored then (WebhookNotFound, s)
          else
            (case ie_decrypt E stored of
               None \<Rightarrow> (SecretsUnavailable, s)
             | Some wh \<Rightarrow>
                 if \<not> ip_allowed E (wh_allowed_cidrs wh) (remote_ip E r) then (IpNotAllowed, s)
                 else if wh_max_body_bytes wh < length (rq_body r) then (PayloadTooLarge (wh_max_body_bytes wh), s)
                 else
                   (case verify_webhook (ie_crypto E) (int (rq_now_ms r div 1000)) (wh_auth_mode wh) (wh_auth_config wh)
                       (rq_headers r) (rq_body r) of
                      Inl e \<Rightarrow> (AuthenticationFailed, s)
                    | Inr _ \<Rightarrow> ingest_checked E wh r s)))"

section \<open>The worker\<close>

record exec_request =
  er_webhook_id :: nat
  er_delivery_id :: nat
  er_session_key :: string
  er_agent_id :: "string option"
  er_model :: "string option"
  er_message :: string

record 'f deliver_request =
  dr_channel :: string
  dr_message :: string
  dr_extra :: "'f json_value option"

record 'f worker_env =
  we_json :: "'f json_text"
  we_profile :: "string \<Rightarrow> 'f source_profile option"
  we_generic :: "'f source_profile"
  we_execute :: "exec_request \<Rightarrow> string + string"
  we_deliver :: "('f deliver_request \<Rightarrow> string + unit) option"

datatype 'f effect = Executed exec_request | Delivered "'f deliver_request"

definition delivery_message :: "'f worker_env \<Rightarrow> 'f webhook \<Rightarrow> delivery \<Rightarrow> 'f json_value \<Rightarrow> string" where
  "delivery_message E wh d body =
     (case wh_prompt_template wh of
        Some template \<Rightarrow> render_template (we_json E) body template
      | None \<Rightarrow>
          (let p = (case we_profile E (wh_source_profile wh) of Some p \<Rightarrow> p | None \<Rightarrow> we_generic E);
               event_type = (case dl_event_type d of Some et \<Rightarrow> et | None \<Rightarrow> ''unknown'') in
           build_delivery_message wh (dl_event_type d) (dl_delivery_key d) (dl_received_at d) (sp_summary p event_type body)))"

definition render_extra :: "'f json_text \<Rightarrow> 'f json_value \<Rightarrow> 'f json_value \<Rightarrow> 'f json_value" where
  "render_extra J body v =
     (case v of
        Object ms \<Rightarrow> Object (map (\<lambda>(k, x). (k, case x of String s \<Rightarrow> String (render_template J body s) | _ \<Rightarrow> x)) ms)
      | _ \<Rightarrow> v)"

definition deliver_only ::
  "'f worker_env \<Rightarrow> 'f webhook \<Rightarrow> nat \<Rightarrow> string \<Rightarrow> 'f json_value \<Rightarrow> webhook_store \<Rightarrow> 'f effect list \<times> webhook_store" where
  "deliver_only E wh i message body st =
     (let channel = (case wh_deliver_to wh of Some c \<Rightarrow> c | None \<Rightarrow> ''log'');
          req = \<lparr>dr_channel = channel, dr_message = message, dr_extra = map_option (render_extra (we_json E) body) (wh_deliver_extra wh)\<rparr>;
          result = (case we_deliver E of
             Some f \<Rightarrow> f req
           | None \<Rightarrow> if channel = ''log'' then Inr () else Inl ''deliver_only: no deliver callback configured'') in
      ((case we_deliver E of Some f \<Rightarrow> [Delivered req] | None \<Rightarrow> []),
       (case result of
          Inr _ \<Rightarrow> update_delivery_status i Completed (Some (''deliver_only:'' @ channel)) None st
        | Inl e \<Rightarrow> update_delivery_status i Failed None (Some e) st)))"

definition process_delivery :: "'f worker_env \<Rightarrow> 'f webhook list \<Rightarrow> nat \<Rightarrow> webhook_store \<Rightarrow> 'f effect list \<times> webhook_store" where
  "process_delivery E whs i st =
     (let st = update_delivery_status i Processing None None st in
      case get_delivery i st of
        None \<Rightarrow> ([], st)
      | Some d \<Rightarrow>
          (case find (\<lambda>w. wh_id w = dl_webhook_id d) whs of
             None \<Rightarrow> ([], st)
           | Some wh \<Rightarrow>
               (let body = (case json_parse (we_json E) (dl_body d) of Some v \<Rightarrow> v | None \<Rightarrow> Null);
                    message = delivery_message E wh d body in
                if wh_deliver_only wh then deliver_only E wh i message body st
                else
                  (let req = \<lparr>er_webhook_id = wh_id wh, er_delivery_id = i, er_session_key = build_session_key wh i (dl_entity_key d),
                       er_agent_id = wh_agent_id wh, er_model = wh_model wh, er_message = message\<rparr> in
                   ([Executed req],
                    (case we_execute E req of
                       Inr session_key \<Rightarrow> update_delivery_status i Completed (Some session_key) None st
                     | Inl e \<Rightarrow> update_delivery_status i Failed None (Some e) st))))))"

text \<open>The loop: what an earlier run left, then the ids of the channel.\<close>

definition process_all :: "'f worker_env \<Rightarrow> 'f webhook list \<Rightarrow> nat list \<Rightarrow> 'f effect list \<times> webhook_store \<Rightarrow> 'f effect list \<times> webhook_store" where
  "process_all E whs ids s = foldl (\<lambda>(es, st) i. case process_delivery E whs i st of (es', st) \<Rightarrow> (es @ es', st)) s ids"

definition worker_run :: "'f worker_env \<Rightarrow> 'f webhook list \<Rightarrow> nat list \<Rightarrow> webhook_store \<Rightarrow> 'f effect list \<times> webhook_store" where
  "worker_run E whs queue st = process_all E whs (list_unprocessed_deliveries st @ queue) ([], st)"

section \<open>Who sent it\<close>

definition cfg_str :: "'f json_value option \<Rightarrow> string \<Rightarrow> string option" where
  "cfg_str config key = Option.bind (Option.bind (Option.bind config as_object) (\<lambda>ms. map_of ms key)) as_str"

definition signed_in :: "webhook_crypto \<Rightarrow> 'f json_value option \<Rightarrow> header_map \<Rightarrow> string \<Rightarrow> string \<Rightarrow> string \<Rightarrow> bool" where
  "signed_in C config h body header_name pre \<longleftrightarrow>
     (\<exists>secret sig. cfg_str config ''secret'' = Some secret \<and> header_str h header_name = Some (pre @ sig) \<and>
        hex_decode C sig = Some (hmac_sha256 C secret body))"

text \<open>What each mode asks of a request: the secret of the webhook in its header, or a signature of the body with it; for
  Stripe over a timestamp of the last five minutes as well.\<close>

definition authentic :: "webhook_crypto \<Rightarrow> int \<Rightarrow> webhook_auth_mode \<Rightarrow> 'f json_value option \<Rightarrow> header_map \<Rightarrow> string \<Rightarrow> bool" where
  "authentic C now mode config h body =
     (case mode of
        NoAuth \<Rightarrow> True
      | StaticHeader \<Rightarrow> \<exists>name v. cfg_str config ''header'' = Some name \<and> cfg_str config ''value'' = Some v \<and> header_str h name = Some v
      | Bearer \<Rightarrow> \<exists>t. cfg_str config ''token'' = Some t \<and> header_str h ''authorization'' = Some (''Bearer '' @ t)
      | GithubHmacSha256 \<Rightarrow> signed_in C config h body ''x-hub-signature-256'' ''sha256=''
      | GitlabToken \<Rightarrow> \<exists>t. cfg_str config ''token'' = Some t \<and> header_str h ''x-gitlab-token'' = Some t
      | StripeWebhookSignature \<Rightarrow>
          \<exists>secret v ts n. cfg_str config ''secret'' = Some secret \<and> header_str h ''stripe-signature'' = Some v \<and>
            stripe_timestamp v = Some ts \<and> parse_i64 ts = Some n \<and> \<bar>wrap_i64 (now - n)\<bar> \<le> 300 \<and>
            hex_encode C (hmac_sha256 C secret (ts @ ''.'' @ body)) \<in> set (stripe_signatures v)
      | LinearWebhookSignature \<Rightarrow> signed_in C config h body ''linear-signature'' ''sha256=''
      | PagerdutyV2Signature \<Rightarrow>
          \<exists>secret v part. cfg_str config ''secret'' = Some secret \<and> header_str h ''x-pagerduty-signature'' = Some v \<and>
            part \<in> set (split_by (\<lambda>c. c = CHR '','') v) \<and> trim part = ''v1='' @ hex_encode C (hmac_sha256 C secret body)
      | SentryWebhookSignature \<Rightarrow> signed_in C config h body ''sentry-hook-signature'' [])"

lemma try_then_Inr: "try_then r k = Inr y \<longleftrightarrow> (\<exists>x. r = Inr x \<and> k x = Inr y)"
  by (auto simp: try_then_def split: sum.splits)

lemma require_Inr: "require b msg = Inr () \<longleftrightarrow> b"
  by (simp add: require_def)

lemma get_config_Inr: "get_config_str config key = Inr v \<longleftrightarrow> cfg_str config key = Some v"
  by (auto simp: get_config_str_def cfg_str_def split: option.splits)

lemma get_header_Inr: "get_header_str h name = Inr v \<longleftrightarrow> header_str h name = Some v"
  by (auto simp: get_header_str_def split: option.splits)

lemma case_option_Inr: "(case r of None \<Rightarrow> Inl e | Some x \<Rightarrow> k x) = Inr y \<longleftrightarrow> (\<exists>x. r = Some x \<and> k x = Inr y)"
  by (auto split: option.splits)

lemma if_Inr: "(if b then Inl e else r) = Inr y \<longleftrightarrow> \<not> b \<and> r = Inr y"
  by simp

lemmas verdict_simps = try_then_Inr require_Inr get_config_Inr get_header_Inr case_option_Inr if_Inr

lemma hmac_header_iff:
  "verify_hmac_header C config h body name ''secret'' pre = Inr () \<longleftrightarrow> signed_in C config h body name pre"
proof -
  have strip: "(if pre = [] then Some v else strip_prefix v pre) = Some x \<longleftrightarrow> v = pre @ x" for v x
    by (auto simp: strip_prefix_Some)
  show ?thesis unfolding verify_hmac_header_def signed_in_def verdict_simps strip by blast
qed

lemma github_iff:
  "verify_github_hmac C config h body = Inr () \<longleftrightarrow> signed_in C config h body ''x-hub-signature-256'' ''sha256=''"
  unfolding verify_github_hmac_def signed_in_def verdict_simps strip_prefix_Some by blast

lemma stripe_iff:
  "verify_stripe_signature C now config h body = Inr () \<longleftrightarrow> authentic C now StripeWebhookSignature config h body"
  unfolding verify_stripe_signature_def authentic_def verdict_simps not_less webhook_auth_mode.case by fastforce

lemma pagerduty_iff:
  "verify_pagerduty_signature C config h body = Inr () \<longleftrightarrow> authentic C now PagerdutyV2Signature config h body"
  unfolding verify_pagerduty_signature_def authentic_def verdict_simps list_ex_iff strip_prefix_Some webhook_auth_mode.case by blast

lemma static_iff: "verify_static_header config h = Inr () \<longleftrightarrow> authentic C now StaticHeader config h body"
  unfolding verify_static_header_def authentic_def verdict_simps by auto

lemma bearer_iff: "verify_bearer config h = Inr () \<longleftrightarrow> authentic C now Bearer config h body"
  unfolding verify_bearer_def authentic_def verdict_simps strip_prefix_Some webhook_auth_mode.case by blast

lemma gitlab_iff: "verify_gitlab_token config h = Inr () \<longleftrightarrow> authentic C now GitlabToken config h body"
  unfolding verify_gitlab_token_def authentic_def verdict_simps by auto

lemma verify_authentic: "verify_webhook C now mode config h body = Inr () \<longleftrightarrow> authentic C now mode config h body"
proof (cases mode)
  case StripeWebhookSignature
  then show ?thesis by (simp add: verify_webhook_def stripe_iff)
next
  case PagerdutyV2Signature
  then show ?thesis by (simp add: verify_webhook_def pagerduty_iff)
next
  case StaticHeader
  then show ?thesis by (simp add: verify_webhook_def static_iff)
next
  case Bearer
  then show ?thesis by (simp add: verify_webhook_def bearer_iff)
next
  case GitlabToken
  then show ?thesis by (simp add: verify_webhook_def gitlab_iff)
qed (simp_all add: verify_webhook_def authentic_def hmac_header_iff github_iff)

section \<open>The limiter holds\<close>

type_synonym arrival = "nat \<times> nat"

definition arrival_step :: "nat \<Rightarrow> (nat \<Rightarrow> nat) \<Rightarrow> rate_limit_state \<Rightarrow> arrival \<Rightarrow> rate_limit_state" where
  "arrival_step global_max lims s a = snd (webhook_rate_check global_max (fst a) (snd a) (lims (snd a)) s)"

definition admitted :: "nat \<Rightarrow> (nat \<Rightarrow> nat) \<Rightarrow> rate_limit_state \<Rightarrow> arrival \<Rightarrow> bool" where
  "admitted global_max lims s a = fst (webhook_rate_check global_max (fst a) (snd a) (lims (snd a)) s)"

definition window_of :: "nat \<Rightarrow> rate_limit_state \<Rightarrow> nat list" where
  "window_of i s = (case rl_per_webhook s i of Some w \<Rightarrow> w | None \<Rightarrow> [])"

interpretation global_window: sliding_window "arrival_step G lims" fst "admitted G lims" rl_global 60000 G for G lims
  by unfold_locales (auto simp: arrival_step_def admitted_def webhook_rate_check_def Let_def split: if_splits)

interpretation webhook_window: sliding_window "arrival_step G lims" fst "\<lambda>s a. snd a = i \<and> admitted G lims s a"
    "window_of i" 60000 "lims i" for G lims i
proof
  fix s :: rate_limit_state and a :: arrival
  show "snd a = i \<and> admitted G lims s a \<Longrightarrow>
      window_of i (arrival_step G lims s a) = prune_window 60000 (fst a) (window_of i s) @ [fst a] \<and>
      length (prune_window 60000 (fst a) (window_of i s)) < lims i"
    by (auto simp: arrival_step_def admitted_def webhook_rate_check_def window_of_def Let_def split: if_splits)
  show "\<not> (snd a = i \<and> admitted G lims s a) \<Longrightarrow>
      window_of i (arrival_step G lims s a) = window_of i s \<or>
      window_of i (arrival_step G lims s a) = prune_window 60000 (fst a) (window_of i s)"
    by (cases "snd a = i") (auto simp: arrival_step_def admitted_def webhook_rate_check_def window_of_def Let_def split: if_splits)
qed

text \<open>Within any minute at most \<open>G\<close> webhook requests get past the limiter, and of those at most \<open>lims i\<close> for the webhook
  \<open>i\<close>, however the requests of the webhooks are interleaved.\<close>

theorem webhook_rate_bounded:
  assumes "sorted (map fst as)"
  shows "length (in_window 60000 t (admissions (admitted G lims) fst (arrival_step G lims) new_rate_limit as)) \<le> G \<and>
    length (in_window 60000 t (admissions (\<lambda>s a. snd a = i \<and> admitted G lims s a) fst (arrival_step G lims) new_rate_limit as)) \<le> lims i"
proof
  show "length (in_window 60000 t (admissions (admitted G lims) fst (arrival_step G lims) new_rate_limit as)) \<le> G"
    using assms by (intro global_window.admissions_bounded) (simp_all add: new_rate_limit_def)
  show "length (in_window 60000 t (admissions (\<lambda>s a. snd a = i \<and> admitted G lims s a) fst (arrival_step G lims) new_rate_limit as)) \<le> lims i"
    using assms by (intro webhook_window.admissions_bounded) (simp_all add: new_rate_limit_def window_of_def)
qed

theorem webhook_rate_bounded_witness:
  "length (in_window 60000 5 (admissions (admitted 9 (\<lambda>_. 2)) fst (arrival_step 9 (\<lambda>_. 2)) new_rate_limit [(1, 7), (2, 7), (3, 7), (4, 8)])) = 3 \<and>
   length (in_window 60000 5 (admissions (\<lambda>s a. snd a = 7 \<and> admitted 9 (\<lambda>_. 2) s a) fst (arrival_step 9 (\<lambda>_. 2)) new_rate_limit
     [(1, 7), (2, 7), (3, 7), (4, 8)])) \<le> 2"
proof
  show "length (in_window 60000 5 (admissions (admitted 9 (\<lambda>_. 2)) fst (arrival_step 9 (\<lambda>_. 2)) new_rate_limit [(1, 7), (2, 7), (3, 7), (4, 8)])) = 3"
    by (simp add: admitted_def arrival_step_def webhook_rate_check_def new_rate_limit_def prune_window_def in_window_def Let_def)
qed (use webhook_rate_bounded [of "[(1, 7), (2, 7), (3, 7), (4, 8)]" 5 9 "\<lambda>_. 2" 7] in simp)

section \<open>What is taken in\<close>

lemma ingest_counted_Accepted:
  assumes "ingest_counted E wh r et dk s = (Accepted i, s')"
  shows "admitted (ie_global_max E) (\<lambda>_. wh_rate_limit wh) (is_limiter s) (rq_now_ms r, wh_id wh) \<and>
    check_duplicate (wh_id wh) dk (is_store s) = None \<and>
    ws_deliveries (is_store s') = ws_deliveries (is_store s) @ [(new_delivery E wh r et dk)\<lparr>dl_id := i\<rparr>] \<and>
    is_queue s' = is_queue s @ [i]"
  using assms by (auto simp: ingest_counted_def admitted_def insert_delivery_def increment_delivery_count_def Let_def
    split: prod.splits if_splits option.splits)

lemma ingest_counted_other:
  assumes "ingest_counted E wh r et dk s = (a, s')" "\<forall>i. a \<noteq> Accepted i"
  shows "is_store s' = is_store s \<and> is_queue s' = is_queue s"
  using assms by (auto simp: ingest_counted_def insert_delivery_def Let_def split: prod.splits if_splits option.splits)

definition event_type_of :: "'f ingest_env \<Rightarrow> 'f webhook \<Rightarrow> ingest_request \<Rightarrow> string option" where
  "event_type_of E wh r = Option.bind (ie_profile E (wh_source_profile wh)) (\<lambda>p. sp_event_type p (rq_headers r) (rq_body r))"

definition delivery_key_of :: "'f ingest_env \<Rightarrow> 'f webhook \<Rightarrow> ingest_request \<Rightarrow> string option" where
  "delivery_key_of E wh r = Option.bind (ie_profile E (wh_source_profile wh)) (\<lambda>p. sp_delivery_key p (rq_headers r) (rq_body r))"

lemma ingest_checked_eq:
  "ingest_checked E wh r s =
     (case event_type_of E wh r of
        Some et \<Rightarrow> if accepts (wh_event_filter wh) et then ingest_counted E wh r (Some et) (delivery_key_of E wh r) s else (FilteredEvent et, s)
      | None \<Rightarrow> ingest_counted E wh r None (delivery_key_of E wh r) s)"
  by (auto simp: ingest_checked_def event_type_of_def delivery_key_of_def Let_def split: option.splits)

text \<open>A request that may be taken in for a webhook.\<close>

definition admissible :: "'f ingest_env \<Rightarrow> 'f webhook \<Rightarrow> ingest_request \<Rightarrow> 'f ingest_state \<Rightarrow> bool" where
  "admissible E wh r s \<longleftrightarrow>
     ip_allowed E (wh_allowed_cidrs wh) (remote_ip E r) \<and> length (rq_body r) \<le> wh_max_body_bytes wh \<and>
     authentic (ie_crypto E) (int (rq_now_ms r div 1000)) (wh_auth_mode wh) (wh_auth_config wh) (rq_headers r) (rq_body r) \<and>
     (case event_type_of E wh r of Some et \<Rightarrow> accepts (wh_event_filter wh) et | None \<Rightarrow> True) \<and>
     admitted (ie_global_max E) (\<lambda>_. wh_rate_limit wh) (is_limiter s) (rq_now_ms r, wh_id wh) \<and>
     check_duplicate (wh_id wh) (delivery_key_of E wh r) (is_store s) = None"

lemma ingest_reaches:
  assumes "ingest E r s = (Accepted i, s')"
  obtains stored wh where "find (\<lambda>w. wh_public_id w = rq_public_id r) (is_webhooks s) = Some stored" "wh_enabled stored"
    "ie_decrypt E stored = Some wh" "ip_allowed E (wh_allowed_cidrs wh) (remote_ip E r)" "length (rq_body r) \<le> wh_max_body_bytes wh"
    "authentic (ie_crypto E) (int (rq_now_ms r div 1000)) (wh_auth_mode wh) (wh_auth_config wh) (rq_headers r) (rq_body r)"
    "ingest_checked E wh r s = (Accepted i, s')"
  using assms by (auto simp: ingest_def verify_authentic [symmetric] not_less split: option.splits if_splits sum.splits)

text \<open>C25: A delivery is taken in only for an enabled webhook, from an address it allows, with a body within its limit, with
  the secret or the signature its mode asks for, of an event it accepts when the profile finds the event's type, within
  the rate, and not twice under one key. Then exactly one row is added, queued with the body that was checked, and its
  id is handed to the worker. Any other request leaves the deliveries and the queue as they were: filtered,
  duplicate and rejected deliveries are not logged, as the documentation says they are.\<close>

theorem deliveries_are_admissible:
  assumes "ingest E r s = (a, s')"
  shows "(\<exists>i stored wh. a = Accepted i \<and> find (\<lambda>w. wh_public_id w = rq_public_id r) (is_webhooks s) = Some stored \<and> wh_enabled stored \<and>
      ie_decrypt E stored = Some wh \<and> admissible E wh r s \<and> is_queue s' = is_queue s @ [i] \<and>
      ws_deliveries (is_store s') = ws_deliveries (is_store s) @
        [(new_delivery E wh r (event_type_of E wh r) (delivery_key_of E wh r))\<lparr>dl_id := i\<rparr>]) \<or>
    (\<forall>i. a \<noteq> Accepted i) \<and> is_store s' = is_store s \<and> is_queue s' = is_queue s"
proof (cases "\<exists>i. a = Accepted i")
  case True
  then obtain i where i: "ingest E r s = (Accepted i, s')" "a = Accepted i" using assms by auto
  obtain stored wh where reach: "find (\<lambda>w. wh_public_id w = rq_public_id r) (is_webhooks s) = Some stored" "wh_enabled stored"
      "ie_decrypt E stored = Some wh" "ip_allowed E (wh_allowed_cidrs wh) (remote_ip E r)" "length (rq_body r) \<le> wh_max_body_bytes wh"
      "authentic (ie_crypto E) (int (rq_now_ms r div 1000)) (wh_auth_mode wh) (wh_auth_config wh) (rq_headers r) (rq_body r)"
      and checked: "ingest_checked E wh r s = (Accepted i, s')"
    using ingest_reaches [OF i(1)] by metis
  have "ingest_counted E wh r (event_type_of E wh r) (delivery_key_of E wh r) s = (Accepted i, s') \<and>
      (case event_type_of E wh r of Some et \<Rightarrow> accepts (wh_event_filter wh) et | None \<Rightarrow> True)"
    using checked by (auto simp: ingest_checked_eq split: option.splits if_splits)
  with ingest_counted_Accepted [of E wh r "event_type_of E wh r" "delivery_key_of E wh r" s i s'] reach i(2)
  show ?thesis unfolding admissible_def by blast
next
  case False
  then have "is_store s' = is_store s \<and> is_queue s' = is_queue s"
    using assms ingest_counted_other [of E _ r _ _ s a s']
    by (auto simp: ingest_def ingest_checked_eq split: option.splits if_splits sum.splits)
  then show ?thesis using False by blast
qed

definition plain_webhook :: "unit webhook" where
  "plain_webhook = \<lparr>wh_id = 1, wh_name = ''w'', wh_enabled = True, wh_public_id = ''p'', wh_agent_id = None, wh_model = None,
     wh_prompt_suffix = None, wh_auth_mode = Bearer, wh_auth_config = Some (Object [(''token'', String ''s'')]),
     wh_source_profile = ''generic'', wh_event_filter = \<lparr>ef_allow = [], ef_deny = []\<rparr>, wh_session_mode = PerDelivery,
     wh_named_session_key = None, wh_allowed_cidrs = [], wh_max_body_bytes = 9, wh_rate_limit = 2, wh_deliver_only = False,
     wh_prompt_template = Some ''go'', wh_deliver_to = None, wh_deliver_extra = None, wh_delivery_count = 0, wh_last_delivery_at = None\<rparr>"

definition plain_ingest :: "unit ingest_env" where
  "plain_ingest = \<lparr>ie_crypto = \<lparr>hmac_sha256 = (\<lambda>k m. []), hex_decode = Some, hex_encode = (\<lambda>s. s)\<rparr>,
     ie_json = \<lparr>json_parse = (\<lambda>s. None), json_compact = (\<lambda>v. []), json_pretty = (\<lambda>v. []), number_text = (\<lambda>n. [])\<rparr>,
     ie_profile = (\<lambda>n. None), ie_decrypt = Some, ie_is_ip = (\<lambda>s. True), ie_net_contains = (\<lambda>c i. None), ie_behind_proxy = False, ie_global_max = 5\<rparr>"

definition plain_state :: "unit ingest_state" where
  "plain_state = \<lparr>is_webhooks = [plain_webhook], is_store = \<lparr>ws_deliveries = [], ws_next_id = 1, ws_counts = Map.empty\<rparr>,
     is_limiter = new_rate_limit, is_queue = []\<rparr>"

definition plain_request :: ingest_request where
  "plain_request = \<lparr>rq_public_id = ''p'', rq_now_ms = 0, rq_received_at = ''t'', rq_peer = ''a'',
     rq_headers = [(''authorization'', ''Bearer s'')], rq_body = ''{}''\<rparr>"

lemmas plain_ingest_defs = plain_webhook_def plain_ingest_def plain_state_def plain_request_def

lemma plain_accepted: "fst (ingest plain_ingest plain_request plain_state) = Accepted 1"
  by (simp add: plain_ingest_defs ingest_def ip_allowed_def remote_ip_def verify_webhook_def verify_bearer_def get_config_str_def
    get_header_str_def header_str_def visible_ascii_def try_then_def require_def as_object_def as_str_def strip_prefix_def
    ingest_checked_def ingest_counted_def webhook_rate_check_def new_rate_limit_def prune_window_def check_duplicate_def insert_delivery_def Let_def)

theorem deliveries_are_admissible_witness:
  "ws_deliveries (is_store (snd (ingest plain_ingest plain_request plain_state))) \<noteq> []"
  using deliveries_are_admissible [of plain_ingest plain_request plain_state "Accepted 1" "snd (ingest plain_ingest plain_request plain_state)"]
    plain_accepted by (metis append_is_Nil_conv list.distinct(1) prod.collapse)

section \<open>The worker settles deliveries\<close>

definition settled :: "delivery_status \<Rightarrow> bool" where
  "settled st \<longleftrightarrow> st = Completed \<or> st = Failed"

lemma find_map_id: "(\<And>d. dl_id (f d) = dl_id d) \<Longrightarrow> find (\<lambda>d. dl_id d = i) (map f ds) = map_option f (find (\<lambda>d. dl_id d = i) ds)"
  by (induction ds) auto

lemma get_update_status:
  "get_delivery i (update_delivery_status j status key err st) =
     map_option (\<lambda>d. if i = j then d\<lparr>dl_status := status, dl_session_key := (case key of Some k \<Rightarrow> Some k | None \<Rightarrow> dl_session_key d),
         dl_run_error := (case err of Some e \<Rightarrow> Some e | None \<Rightarrow> dl_run_error d)\<rparr> else d) (get_delivery i st)"
proof (cases "find (\<lambda>d. dl_id d = i) (ws_deliveries st)")
  case None
  then show ?thesis by (simp add: get_delivery_def update_delivery_status_def find_map_id)
next
  case (Some d)
  then have "dl_id d = i" by (auto simp: find_Some_iff)
  then show ?thesis using Some by (simp add: get_delivery_def update_delivery_status_def find_map_id)
qed

text \<open>Processing one delivery settles it, keeps the webhook of every delivery, and leaves the others alone.\<close>

lemma deliver_only_status:
  assumes "deliver_only E wh i message body st = (es, st')" "get_delivery i st = Some d"
  shows "\<exists>d'. get_delivery i st' = Some d' \<and> settled (dl_status d') \<and> dl_webhook_id d' = dl_webhook_id d"
  using assms by (auto simp: deliver_only_def Let_def get_update_status settled_def split: sum.splits)

lemma process_settles:
  assumes "get_delivery i st = Some d" "find (\<lambda>w. wh_id w = dl_webhook_id d) whs = Some wh"
  shows "\<exists>d'. get_delivery i (snd (process_delivery E whs i st)) = Some d' \<and> settled (dl_status d') \<and> dl_webhook_id d' = dl_webhook_id d"
proof -
  let ?st = "update_delivery_status i Processing None None st"
  obtain d1 where d1: "get_delivery i ?st = Some d1" "dl_webhook_id d1 = dl_webhook_id d"
    using assms(1) by (auto simp: get_update_status)
  show ?thesis
  proof (cases "wh_deliver_only wh")
    case True
    then have "\<exists>es message body. deliver_only E wh i message body ?st = (es, snd (process_delivery E whs i st))"
      using assms(2) d1 by (simp add: process_delivery_def Let_def) (metis prod.collapse)
    then show ?thesis using deliver_only_status d1 by metis
  next
    case False
    then show ?thesis using assms(2) d1
      by (auto simp: process_delivery_def Let_def get_update_status settled_def split: sum.splits)
  qed
qed

lemma process_other:
  assumes "i \<noteq> j"
  shows "get_delivery j (snd (process_delivery E whs i st)) = get_delivery j st"
proof -
  have same: "get_delivery j (update_delivery_status i status key err st) = get_delivery j st" for status key err st
    using assms by (cases "get_delivery j st") (auto simp: get_update_status)
  show ?thesis
    by (auto simp: process_delivery_def deliver_only_def Let_def same split: option.splits sum.splits)
qed

lemma process_all_snoc:
  "snd (process_all E whs (ids @ [i]) s) = snd (process_delivery E whs i (snd (process_all E whs ids s)))"
  by (simp add: process_all_def split: prod.splits)

lemma process_all_webhook:
  assumes "get_delivery i st = Some d" "find (\<lambda>w. wh_id w = dl_webhook_id d) whs = Some wh"
  shows "\<exists>d'. get_delivery i (snd (process_all E whs ids (es, st))) = Some d' \<and> dl_webhook_id d' = dl_webhook_id d \<and>
    (i \<in> set ids \<longrightarrow> settled (dl_status d'))"
proof (induction ids rule: rev_induct)
  case Nil
  then show ?case using assms by (simp add: process_all_def)
next
  case (snoc j ids)
  then obtain d1 where d1: "get_delivery i (snd (process_all E whs ids (es, st))) = Some d1" "dl_webhook_id d1 = dl_webhook_id d"
      "i \<in> set ids \<longrightarrow> settled (dl_status d1)" by blast
  show ?case
  proof (cases "j = i")
    case True
    then show ?thesis using process_settles [OF d1(1), of whs wh E] assms(2) d1(2) by (auto simp: process_all_snoc)
  next
    case False
    then show ?thesis using d1 by (auto simp: process_all_snoc process_other)
  qed
qed

text \<open>The lifecycle of a delivery: what still waits for the worker, and what is done with.\<close>

fun awaiting :: "delivery_status \<Rightarrow> bool" where
  "awaiting Received = True"
| "awaiting Queued = True"
| "awaiting Processing = True"
| "awaiting Filtered = False"
| "awaiting Deduplicated = False"
| "awaiting DeliveryRejected = False"
| "awaiting Completed = False"
| "awaiting Failed = False"

lemma recovered_ids:
  assumes "distinct (map dl_id (ws_deliveries st))" "get_delivery i st = Some d"
  shows "i \<in> set (list_unprocessed_deliveries st) \<longleftrightarrow> awaiting (dl_status d)"
proof -
  have d: "d \<in> set (ws_deliveries st)" "dl_id d = i"
    using assms(2) by (auto simp: get_delivery_def find_Some_iff)
  then have one: "e = d" if "e \<in> set (ws_deliveries st)" "dl_id e = i" for e
    using assms(1) that by (metis distinct_map inj_on_eq_iff)
  have "i \<in> set (list_unprocessed_deliveries st) \<longleftrightarrow>
      (\<exists>e\<in>set (ws_deliveries st). dl_id e = i \<and> dl_status e \<in> {Received, Queued, Processing})"
    by (simp only: list_unprocessed_deliveries_def set_map set_sort set_filter) blast
  also have "\<dots> \<longleftrightarrow> dl_status d \<in> {Received, Queued, Processing}" using d one by blast
  also have "\<dots> \<longleftrightarrow> awaiting (dl_status d)" by (cases "dl_status d") simp_all
  finally show ?thesis .
qed

lemma process_all_other: "i \<notin> set ids \<Longrightarrow> get_delivery i (snd (process_all E whs ids s)) = get_delivery i (snd s)"
  by (induction ids rule: rev_induct) (simp add: process_all_def, simp add: process_all_snoc process_other)

text \<open>C26: No delivery is forgotten and none is taken up again. When a worker has started on a store and gone through its
  queue, whatever the agents and channels answered, every delivery of an existing webhook that was received, queued or
  processing at the start, or whose id came through the queue, is completed or failed; any other is as it was.\<close>

theorem worker_settles_deliveries:
  assumes "get_delivery i st = Some d" "find (\<lambda>w. wh_id w = dl_webhook_id d) whs \<noteq> None"
    and "distinct (map dl_id (ws_deliveries st))"
  shows "\<exists>d'. get_delivery i (snd (worker_run E whs queue st)) = Some d' \<and>
    (if awaiting (dl_status d) \<or> i \<in> set queue then settled (dl_status d') else d' = d)"
proof -
  let ?ids = "list_unprocessed_deliveries st @ queue"
  have ids: "i \<in> set ?ids \<longleftrightarrow> awaiting (dl_status d) \<or> i \<in> set queue"
    using recovered_ids [OF assms(3,1)] by simp
  obtain wh where "find (\<lambda>w. wh_id w = dl_webhook_id d) whs = Some wh" using assms(2) by blast
  from process_all_webhook [OF assms(1) this, of E ?ids "[]"]
  show ?thesis using ids assms(1) process_all_other [of i ?ids E whs "([], st)"] by (auto simp: worker_run_def)
qed

definition plain_worker :: "unit worker_env" where
  "plain_worker = \<lparr>we_json = ie_json plain_ingest, we_profile = (\<lambda>n. None),
     we_generic = \<lparr>sp_event_type = (\<lambda>h b. None), sp_delivery_key = (\<lambda>h b. None), sp_entity_key = (\<lambda>e v. None), sp_summary = (\<lambda>e v. [])\<rparr>,
     we_execute = (\<lambda>r. Inl ''down''), we_deliver = None\<rparr>"

definition plain_delivery :: delivery where
  "plain_delivery = \<lparr>dl_id = 1, dl_webhook_id = 1, dl_received_at = ''t'', dl_status = Queued, dl_event_type = None, dl_entity_key = None,
     dl_delivery_key = None, dl_content_type = None, dl_remote_ip = None, dl_headers = [], dl_body = ''{}'', dl_session_key = None, dl_run_error = None\<rparr>"

theorem worker_settles_deliveries_witness:
  "\<exists>d'. get_delivery 1 (snd (worker_run plain_worker [plain_webhook] []
      \<lparr>ws_deliveries = [plain_delivery], ws_next_id = 2, ws_counts = Map.empty\<rparr>)) = Some d' \<and> settled (dl_status d')"
proof -
  let ?st = "\<lparr>ws_deliveries = [plain_delivery], ws_next_id = 2, ws_counts = Map.empty\<rparr>"
  have start: "get_delivery 1 ?st = Some plain_delivery" "find (\<lambda>w. wh_id w = dl_webhook_id plain_delivery) [plain_webhook] \<noteq> None"
      "distinct (map dl_id (ws_deliveries ?st))"
    by (simp_all add: get_delivery_def plain_delivery_def plain_webhook_def)
  have "awaiting (dl_status plain_delivery)" by (simp add: plain_delivery_def)
  then show ?thesis using worker_settles_deliveries [OF start, of plain_worker "[]"] by (simp only: if_True simp_thms)
qed

section \<open>Headers kept for the audit\<close>

lemma safe_headers_kept:
  assumes "(name, v) \<in> set (extract_safe_headers h)"
  shows "name \<notin> set denied_headers \<and> (\<exists>p\<in>set safe_prefixes. prefix p name)"
proof -
  have "(name, v) \<in> set (fold (\<lambda>(name, v) out.
         let name = to_lowercase name in
         if name \<in> set denied_headers then out
         else if list_ex (starts_with name) safe_prefixes then AList.update name v out
         else out) h out) \<Longrightarrow>
      (name, v) \<in> set out \<or> name \<notin> set denied_headers \<and> (\<exists>p\<in>set safe_prefixes. prefix p name)" for out
  proof (induction h arbitrary: out)
    case Nil
    then show ?case by simp
  next
    case (Cons nv h)
    obtain n w where nv: "nv = (n, w)" by (cases nv)
    show ?case
      using Cons.IH [of "let name = to_lowercase n in if name \<in> set denied_headers then out
          else if list_ex (starts_with name) safe_prefixes then AList.update name w out else out"] Cons.prems
      unfolding nv by (auto simp: Let_def list_ex_iff starts_with_def dest: set_alist_updateD split: if_splits)
  qed
  from this [of "[]"] assms show ?thesis unfolding extract_safe_headers_def by simp
qed

section \<open>What the code does not exclude\<close>

text \<open>An event whose type the profile does not find passes every filter, a list of allowed events too.\<close>

lemma untyped_event_passes_filter:
  "event_type_of E wh r = None \<Longrightarrow> ingest_checked E wh r s = ingest_counted E wh r None (delivery_key_of E wh r) s"
  by (simp add: ingest_checked_eq)

text \<open>A duplicate is counted by the rate limit before it is recognised.\<close>

lemma duplicates_spend_the_rate:
  assumes "ingest_counted E wh r et dk s = (DeduplicatedAs e, s')"
  shows "window_of (wh_id wh) (is_limiter s') = prune_window 60000 (rq_now_ms r) (window_of (wh_id wh) (is_limiter s)) @ [rq_now_ms r]"
  using assms by (auto simp: ingest_counted_def webhook_rate_check_def window_of_def Let_def
    split: prod.splits if_splits option.splits)

text \<open>Behind a proxy the allowlist looks at the first address of a header that the client writes.\<close>

lemma forwarded_address_is_the_clients:
  assumes "ie_behind_proxy E" "header_str (rq_headers r) ''x-forwarded-for'' = Some (ip @ '','' @ rest)" "CHR '','' \<notin> set ip" "trim ip = ip"
  shows "remote_ip E r = ip"
proof -
  have "hd (split_by (\<lambda>c. c = CHR '','') (ip @ '','' @ rest)) = ip"
    using assms(3) by (induction ip) (auto split: list.splits)
  then show ?thesis using assms by (simp add: remote_ip_def)
qed

text \<open>The unique index knows an empty key, the test for duplicates does not: the second delivery fails instead of being recognised.\<close>

lemma empty_key_fails:
  assumes "dl_delivery_key d = Some []" "e \<in> set (ws_deliveries st)" "dl_webhook_id e = dl_webhook_id d" "dl_delivery_key e = Some []"
  shows "check_duplicate (dl_webhook_id d) (dl_delivery_key d) st = None \<and> fst (insert_delivery d st) = None"
  using assms by (auto simp: check_duplicate_def insert_delivery_def list_ex_iff)

text \<open>A delivery that is completed already is executed again when its id comes twice.\<close>

lemma completed_delivery_runs_again:
  assumes "get_delivery i st = Some d" "find (\<lambda>w. wh_id w = dl_webhook_id d) whs = Some wh" "\<not> wh_deliver_only wh"
  shows "\<exists>req. fst (process_delivery E whs i st) = [Executed req]"
  using assms by (auto simp: process_delivery_def Let_def get_update_status split: option.splits)

end
