(* ===== verification/Channel_Webhook.thy ===== *)
theory Channel_Webhook
  imports Complex_Main Request_Throttle
begin

text \<open>
  The pipeline of the webhooks of channels: the guard of timestamps and the policies
  (\<open>crates/channels/src/channel_webhook_middleware.rs\<close>), token buckets
  (\<open>crates/gateway/src/channel_webhook_rate_limit.rs\<close>), the store against duplicates
  (\<open>crates/gateway/src/channel_webhook_dedup.rs\<close>) and the gate that runs them
  (\<open>crates/gateway/src/channel_webhook_middleware.rs\<close>).

  The verifier of a channel is a record of its answers. The tokens of a bucket are rational numbers, where the
  code has \<open>f64\<close>; instants count nanoseconds, seconds for the guard and milliseconds for the store, and one call reads the clock once.
  A hash map inside a partition lists its entries in the order of insertion.
\<close>

section \<open>Types\<close>

record rate_policy =
  max_requests_per_minute :: nat
  burst :: nat

definition default_policy :: rate_policy where
  "default_policy = \<lparr>max_requests_per_minute = 60, burst = 10\<rparr>"

record verified_webhook =
  idempotency_key :: "string option"
  verified_body :: string
  timestamp_epoch :: "int option"

datatype rejection = BadSignature string | StaleTimestamp nat nat | MissingHeaders string | DuplicateRequest | ChannelRateLimited "rat option"

fun reason_label :: "rejection \<Rightarrow> string" where
  "reason_label (BadSignature m) = ''bad_signature''"
| "reason_label (StaleTimestamp a m) = ''stale_timestamp''"
| "reason_label (MissingHeaders h) = ''missing_headers''"
| "reason_label DuplicateRequest = ''duplicate''"
| "reason_label (ChannelRateLimited t) = ''rate_limited''"

datatype dedupe_result = New | Duplicate

record verifier =
  vf_verify :: "header_map \<Rightarrow> string \<Rightarrow> rejection + verified_webhook"
  vf_max_age :: nat
  vf_policy :: rate_policy
  vf_channel :: string

section \<open>Timestamps\<close>

text \<open>The difference of two \<open>i64\<close> wraps around, its absolute value is a \<open>u64\<close>.\<close>

definition age_of :: "int \<Rightarrow> int \<Rightarrow> nat" where
  "age_of now ts = nat \<bar>(now - ts + 2 ^ 63) mod 2 ^ 64 - 2 ^ 63\<bar>"

definition timestamp_check :: "int \<Rightarrow> int option \<Rightarrow> nat \<Rightarrow> rejection + unit" where
  "timestamp_check now timestamp max_age =
     (case timestamp of
        None \<Rightarrow> Inr ()
      | Some ts \<Rightarrow> if max_age < age_of now ts then Inl (StaleTimestamp (age_of now ts) max_age) else Inr ())"

section \<open>Token buckets\<close>

definition bucket_key :: "string \<Rightarrow> string \<Rightarrow> string \<Rightarrow> string" where
  "bucket_key channel account_id endpoint =
     show_nat (byte_len channel) @ '':'' @ channel @ show_nat (byte_len account_id) @ '':'' @ account_id @
     show_nat (byte_len endpoint) @ '':'' @ endpoint"

record bucket =
  tokens :: rat
  last_refill :: nat

record channel_rate_limiter =
  cw_buckets :: "(string \<times> bucket) list"
  max_buckets :: nat

definition new_channel_limiter :: channel_rate_limiter where
  "new_channel_limiter = \<lparr>cw_buckets = [], max_buckets = 10000\<rparr>"

definition rate_per_sec :: "rate_policy \<Rightarrow> rat" where
  "rate_per_sec p = of_nat (max_requests_per_minute p) / 60"

definition capacity :: "rate_policy \<Rightarrow> rat" where
  "capacity p = of_nat ((max_requests_per_minute p + burst p) mod 2 ^ 32)"

definition refill :: "rate_policy \<Rightarrow> nat \<Rightarrow> bucket \<Rightarrow> bucket" where
  "refill p now b =
     \<lparr>tokens = min (tokens b + of_nat (now - last_refill b) / 10 ^ 9 * rate_per_sec p) (capacity p), last_refill = now\<rparr>"

definition evict_if_full :: "channel_rate_limiter \<Rightarrow> channel_rate_limiter" where
  "evict_if_full l =
     (if length (cw_buckets l) \<le> max_buckets l then l
      else
        (let oldest = map fst (sort_key (\<lambda>e. last_refill (snd e)) (cw_buckets l));
             gone = take (length oldest div 2) oldest in
         l\<lparr>cw_buckets := filter (\<lambda>e. fst e \<notin> set gone) (cw_buckets l)\<rparr>))"

definition evict_stale :: "nat \<Rightarrow> nat \<Rightarrow> channel_rate_limiter \<Rightarrow> channel_rate_limiter" where
  "evict_stale now max_idle l = l\<lparr>cw_buckets := alist_retain (\<lambda>b. int now - int max_idle < int (last_refill b)) (cw_buckets l)\<rparr>"

text \<open>The wait is none where the code panics: with a rate of zero it is infinite, which is no duration.\<close>

definition retry_after :: "rate_policy \<Rightarrow> bucket \<Rightarrow> rat option" where
  "retry_after p b = (if rate_per_sec p = 0 then None else Some ((1 - tokens b) / rate_per_sec p))"

definition bucket_check ::
  "nat \<Rightarrow> string \<Rightarrow> string \<Rightarrow> string \<Rightarrow> rate_policy \<Rightarrow> channel_rate_limiter \<Rightarrow> (rejection + unit) \<times> channel_rate_limiter" where
  "bucket_check now channel account_id endpoint p l =
     (let key = bucket_key channel account_id endpoint;
          b = refill p now (case map_of (cw_buckets l) key of Some b \<Rightarrow> b | None \<Rightarrow> \<lparr>tokens = capacity p, last_refill = now\<rparr>) in
      if 1 \<le> tokens b then
        (Inr (), evict_if_full (l\<lparr>cw_buckets := AList.update key (b\<lparr>tokens := tokens b - 1\<rparr>) (cw_buckets l)\<rparr>))
      else
        (Inl (ChannelRateLimited (retry_after p b)), evict_if_full (l\<lparr>cw_buckets := AList.update key b (cw_buckets l)\<rparr>)))"

section \<open>Duplicates\<close>

definition DEDUPE_TTL_MS :: duration where "DEDUPE_TTL_MS = 300000"
definition MAX_ENTRIES_PER_SCOPE :: nat where "MAX_ENTRIES_PER_SCOPE = 2500"

type_synonym dedupe_scope = "string \<times> string \<times> string"
type_synonym partition = "(string \<times> instant) list"

definition unscoped :: dedupe_scope where
  "unscoped = ([], [], [])"

record dedupe_store =
  partitions :: "dedupe_scope \<rightharpoonup> partition"
  dedupe_ttl :: duration
  max_entries :: nat

definition new_dedupe :: dedupe_store where
  "new_dedupe = \<lparr>partitions = Map.empty, dedupe_ttl = DEDUPE_TTL_MS, max_entries = MAX_ENTRIES_PER_SCOPE\<rparr>"

definition entries :: "dedupe_scope \<Rightarrow> dedupe_store \<Rightarrow> partition" where
  "entries sc s = (case partitions s sc of Some es \<Rightarrow> es | None \<Rightarrow> [])"

definition evict_old :: "instant \<Rightarrow> dedupe_store \<Rightarrow> dedupe_store" where
  "evict_old now s =
     s\<lparr>partitions := (\<lambda>sc.
       case partitions s sc of
         None \<Rightarrow> None
       | Some es \<Rightarrow>
           (let es = alist_retain (\<lambda>t. now - int (dedupe_ttl s) < t) es in if es = [] then None else Some es))\<rparr>"

fun oldest_key :: "partition \<Rightarrow> string option" where
  "oldest_key [] = None"
| "oldest_key ((k, t) # es) = (if list_all (\<lambda>(_, u). t \<le> u) es then Some k else oldest_key es)"

definition insert_new :: "instant \<Rightarrow> dedupe_scope \<Rightarrow> string \<Rightarrow> dedupe_store \<Rightarrow> dedupe_store" where
  "insert_new now sc key s =
     (let es = entries sc s;
          es = (if max_entries s \<le> length es then (case oldest_key es of Some k \<Rightarrow> AList.delete k es | None \<Rightarrow> es) else es) in
      s\<lparr>partitions := (partitions s)(sc \<mapsto> AList.update key now es)\<rparr>)"

definition check_and_insert_in :: "instant \<Rightarrow> dedupe_scope \<Rightarrow> string \<Rightarrow> dedupe_store \<Rightarrow> bool \<times> dedupe_store" where
  "check_and_insert_in now sc key s =
     (let s = evict_old now s in
      if map_of (entries sc s) key \<noteq> None then (True, s) else (False, insert_new now sc key s))"

definition check_and_insert :: "instant \<Rightarrow> string \<Rightarrow> dedupe_store \<Rightarrow> bool \<times> dedupe_store" where
  "check_and_insert now key s = check_and_insert_in now unscoped key s"

definition check_and_insert_scoped :: "instant \<Rightarrow> string \<Rightarrow> string \<Rightarrow> string \<Rightarrow> string \<Rightarrow> dedupe_store \<Rightarrow> bool \<times> dedupe_store" where
  "check_and_insert_scoped now channel account_id endpoint key s = check_and_insert_in now (channel, account_id, endpoint) key s"

datatype dedupe_admission = AdmissionDuplicate | AdmissionAdmitted | AdmissionRejected

text \<open>The work is offered only for a key that is new, and the key is kept only if the work is taken.\<close>

definition admit_scoped ::
  "instant \<Rightarrow> string \<Rightarrow> string \<Rightarrow> string \<Rightarrow> string \<Rightarrow> ('w \<Rightarrow> bool \<times> 'w) \<Rightarrow> dedupe_store \<Rightarrow> 'w \<Rightarrow> dedupe_admission \<times> dedupe_store \<times> 'w" where
  "admit_scoped now channel account_id endpoint key admit s w =
     (let sc = (channel, account_id, endpoint); s = evict_old now s in
      if map_of (entries sc s) key \<noteq> None then (AdmissionDuplicate, s, w)
      else
        (case admit w of (ok, w) \<Rightarrow>
           if \<not> ok then (AdmissionRejected, s, w) else (AdmissionAdmitted, insert_new now sc key s, w)))"

section \<open>The gate\<close>

record webhook_clock =
  clock_ns :: nat
  clock_secs :: int
  clock_ms :: instant

definition verify_channel_webhook ::
  "verifier \<Rightarrow> webhook_clock \<Rightarrow> string \<Rightarrow> string \<Rightarrow> header_map \<Rightarrow> string \<Rightarrow> channel_rate_limiter \<Rightarrow> (rejection + verified_webhook) \<times> channel_rate_limiter" where
  "verify_channel_webhook v c account_id endpoint headers body l =
     (case vf_verify v headers body of
        Inl e \<Rightarrow> (Inl e, l)
      | Inr envelope \<Rightarrow>
          (case timestamp_check (clock_secs c) (timestamp_epoch envelope) (vf_max_age v) of
             Inl e \<Rightarrow> (Inl e, l)
           | Inr _ \<Rightarrow>
               (case bucket_check (clock_ns c) (vf_channel v) account_id endpoint (vf_policy v) l of
                  (Inl e, l) \<Rightarrow> (Inl e, l)
                | (Inr _, l) \<Rightarrow> (Inr envelope, l))))"

definition channel_webhook_gate ::
  "verifier \<Rightarrow> webhook_clock \<Rightarrow> string \<Rightarrow> string \<Rightarrow> header_map \<Rightarrow> string \<Rightarrow> channel_rate_limiter \<Rightarrow> dedupe_store
   \<Rightarrow> (rejection + verified_webhook \<times> dedupe_result) \<times> channel_rate_limiter \<times> dedupe_store" where
  "channel_webhook_gate v c account_id endpoint headers body l s =
     (case verify_channel_webhook v c account_id endpoint headers body l of
        (Inl e, l) \<Rightarrow> (Inl e, l, s)
      | (Inr envelope, l) \<Rightarrow>
          (case idempotency_key envelope of
             Some key \<Rightarrow>
               (case check_and_insert_scoped (clock_ms c) (vf_channel v) account_id endpoint key s of
                  (dup, s) \<Rightarrow> (Inr (envelope, if dup then Duplicate else New), l, s))
           | None \<Rightarrow> (Inr (envelope, New), l, s)))"

section \<open>Keys of buckets\<close>

lemma bucket_key_inject:
  "bucket_key a b c = bucket_key a' b' c' \<longleftrightarrow> a = a' \<and> b = b' \<and> c = c'"
proof
  assume "bucket_key a b c = bucket_key a' b' c'"
  then have "show_nat (byte_len a) @ CHR '':'' # a @ (show_nat (byte_len b) @ CHR '':'' # b @ (show_nat (byte_len c) @ CHR '':'' # c @ [])) =
      show_nat (byte_len a') @ CHR '':'' # a' @ (show_nat (byte_len b') @ CHR '':'' # b' @ (show_nat (byte_len c') @ CHR '':'' # c' @ []))"
    by (simp add: bucket_key_def)
  from length_prefixed [OF this] have "a = a'" and
    rest: "show_nat (byte_len b) @ CHR '':'' # b @ (show_nat (byte_len c) @ CHR '':'' # c @ []) =
      show_nat (byte_len b') @ CHR '':'' # b' @ (show_nat (byte_len c') @ CHR '':'' # c' @ [])" by blast+
  from length_prefixed [OF rest] have "b = b'" and
    rest: "show_nat (byte_len c) @ CHR '':'' # c @ [] = show_nat (byte_len c') @ CHR '':'' # c' @ []" by blast+
  from length_prefixed [OF rest] \<open>a = a'\<close> \<open>b = b'\<close> show "a = a' \<and> b = b' \<and> c = c'" by blast
qed simp

section \<open>The rate of one bucket\<close>

text \<open>Requests, each with its instant and its tuple; every tuple has its policy.\<close>

type_synonym knock = "nat \<times> string \<times> string \<times> string"

definition knock_key :: "knock \<Rightarrow> string" where
  "knock_key k = (case k of (now, ch, acc, ep) \<Rightarrow> bucket_key ch acc ep)"

definition knock_step :: "(string \<Rightarrow> rate_policy) \<Rightarrow> channel_rate_limiter \<Rightarrow> knock \<Rightarrow> channel_rate_limiter" where
  "knock_step pol l k = (case k of (now, ch, acc, ep) \<Rightarrow> snd (bucket_check now ch acc ep (pol (bucket_key ch acc ep)) l))"

definition let_in :: "(string \<Rightarrow> rate_policy) \<Rightarrow> channel_rate_limiter \<Rightarrow> knock \<Rightarrow> bool" where
  "let_in pol l k = (case k of (now, ch, acc, ep) \<Rightarrow> fst (bucket_check now ch acc ep (pol (bucket_key ch acc ep)) l) = Inr ())"

text \<open>How many requests a bucket let in, and whether the bucket was kept all the time.\<close>

fun let_in_count :: "(string \<Rightarrow> rate_policy) \<Rightarrow> string \<Rightarrow> channel_rate_limiter \<Rightarrow> knock list \<Rightarrow> nat" where
  "let_in_count pol key l [] = 0"
| "let_in_count pol key l (k # ks) =
     (if knock_key k = key \<and> let_in pol l k then 1 else 0) + let_in_count pol key (knock_step pol l k) ks"

fun kept :: "(string \<Rightarrow> rate_policy) \<Rightarrow> string \<Rightarrow> channel_rate_limiter \<Rightarrow> knock list \<Rightarrow> bool" where
  "kept pol key l [] = True"
| "kept pol key l (k # ks) =
     ((knock_key k = key \<or> map_of (cw_buckets l) key \<noteq> None \<longrightarrow> map_of (cw_buckets (knock_step pol l k)) key \<noteq> None) \<and> kept pol key (knock_step pol l k) ks)"

lemma map_of_evict:
  "map_of (cw_buckets (evict_if_full l)) key \<noteq> None \<Longrightarrow> map_of (cw_buckets (evict_if_full l)) key = map_of (cw_buckets l) key"
proof -
  have "map_of (filter (\<lambda>e. fst e \<notin> S) al) key = (if key \<in> S then None else map_of al key)" for S and al :: "(string \<times> bucket) list"
    by (induction al) auto
  then show "map_of (cw_buckets (evict_if_full l)) key \<noteq> None \<Longrightarrow> ?thesis"
    by (auto simp: evict_if_full_def Let_def split: if_splits)
qed

text \<open>The tokens of a bucket after a request: refilled, and one less if it was let in.\<close>

definition current :: "rate_policy \<Rightarrow> nat \<Rightarrow> channel_rate_limiter \<Rightarrow> string \<Rightarrow> bucket" where
  "current p now l key = (case map_of (cw_buckets l) key of Some b \<Rightarrow> b | None \<Rightarrow> \<lparr>tokens = capacity p, last_refill = now\<rparr>)"

definition spend :: "bucket \<Rightarrow> bucket" where
  "spend b = (if 1 \<le> tokens b then b\<lparr>tokens := tokens b - 1\<rparr> else b)"

lemma knock_eqs:
  "knock_step pol l (now, ch, acc, ep) =
     (let key = bucket_key ch acc ep in
      evict_if_full (l\<lparr>cw_buckets := AList.update key (spend (refill (pol key) now (current (pol key) now l key))) (cw_buckets l)\<rparr>))"
  "let_in pol l (now, ch, acc, ep) \<longleftrightarrow>
     1 \<le> tokens (refill (pol (bucket_key ch acc ep)) now (current (pol (bucket_key ch acc ep)) now l (bucket_key ch acc ep)))"
  by (simp_all add: knock_step_def let_in_def bucket_check_def current_def spend_def Let_def)

lemma kept_bucket:
  assumes "map_of (cw_buckets (evict_if_full (l\<lparr>cw_buckets := AList.update k v (cw_buckets l)\<rparr>))) key = Some b"
  shows "if key = k then b = v else map_of (cw_buckets l) key = Some b"
  using assms map_of_evict [of "l\<lparr>cw_buckets := AList.update k v (cw_buckets l)\<rparr>" key]
  by (cases "key = k") (simp_all add: update_conv')

lemma knock_same:
  assumes "knock_key k = key" "map_of (cw_buckets (knock_step pol l k)) key = Some b"
  shows "b = spend (refill (pol key) (fst k) (current (pol key) (fst k) l key)) \<and>
    (let_in pol l k \<longleftrightarrow> 1 \<le> tokens (refill (pol key) (fst k) (current (pol key) (fst k) l key)))"
proof -
  obtain now ch acc ep where k: "k = (now, ch, acc, ep)" by (cases k) auto
  have "bucket_key ch acc ep = key" using assms(1) k by (simp add: knock_key_def)
  then show ?thesis using kept_bucket [where l = l and k = key and key = key and b = b] assms(2) unfolding k by (simp add: knock_eqs Let_def)
qed

lemma knock_other:
  assumes "knock_key k \<noteq> key" "map_of (cw_buckets (knock_step pol l k)) key = Some b"
  shows "map_of (cw_buckets l) key = Some b"
proof -
  obtain now ch acc ep where k: "k = (now, ch, acc, ep)" by (cases k) auto
  have "bucket_key ch acc ep \<noteq> key" using assms(1) k by (simp add: knock_key_def)
  then show ?thesis using kept_bucket [where l = l and k = "bucket_key ch acc ep" and key = key and b = b] assms(2) unfolding k by (simp add: knock_eqs Let_def)
qed

lemma knock_creates:
  assumes "knock_key k \<noteq> key" "map_of (cw_buckets l) key = None"
  shows "map_of (cw_buckets (knock_step pol l k)) key = None"
  using knock_other [OF assms(1)] assms(2) by (metis not_None_eq)

definition allowance :: "rate_policy \<Rightarrow> nat \<Rightarrow> rat" where
  "allowance p d = of_nat d / 10 ^ 9 * rate_per_sec p"

lemma allowance_mono: "d \<le> e \<Longrightarrow> allowance p d \<le> allowance p e"
  by (simp add: allowance_def rate_per_sec_def mult_right_mono divide_right_mono)

lemma allowance_nonneg: "0 \<le> allowance p d"
  by (simp add: allowance_def rate_per_sec_def)

lemma allowance_zero: "allowance p 0 = 0"
  by (simp add: allowance_def)

lemma allowance_add: "allowance p (d + e) = allowance p d + allowance p e"
  by (simp add: allowance_def add_divide_distrib distrib_right)

lemma allowance_between: "a \<le> b \<Longrightarrow> b \<le> c \<Longrightarrow> allowance p (c - a) = allowance p (b - a) + allowance p (c - b)"
  unfolding allowance_add [symmetric] by simp

text \<open>What a bucket can still let in: its tokens, or everything while there is no bucket.\<close>

definition credit :: "rate_policy \<Rightarrow> string \<Rightarrow> channel_rate_limiter \<Rightarrow> nat \<Rightarrow> rat" where
  "credit p key l now = (case map_of (cw_buckets l) key of Some b \<Rightarrow> tokens b + allowance p (now - last_refill b) | None \<Rightarrow> capacity p)"

lemma tokens_refill: "tokens (refill p now b) \<le> tokens b + allowance p (now - last_refill b)"
  by (simp add: refill_def allowance_def)

lemma tokens_spend: "tokens (spend b) = tokens b - (if 1 \<le> tokens b then 1 else 0)" "last_refill (spend b) = last_refill b"
  by (simp_all add: spend_def)

lemma credit_knock:
  assumes "kept pol key l [k]" "now \<le> fst k" "\<forall>b. map_of (cw_buckets l) key = Some b \<longrightarrow> last_refill b \<le> now"
  shows "(if knock_key k = key \<and> let_in pol l k then 1 else 0) + credit (pol key) key (knock_step pol l k) (fst k)
      \<le> credit (pol key) key l now + allowance (pol key) (fst k - now)"
proof (cases "knock_key k = key")
  case True
  show ?thesis
  proof (cases "map_of (cw_buckets (knock_step pol l k)) key")
    case None
    then show ?thesis using assms(1) True by auto
  next
    case (Some b)
    let ?r = "refill (pol key) (fst k) (current (pol key) (fst k) l key)"
    have b: "b = spend ?r" "let_in pol l k \<longleftrightarrow> 1 \<le> tokens ?r" using knock_same [OF True Some] by auto
    have "(if let_in pol l k then 1 else 0) + credit (pol key) key (knock_step pol l k) (fst k) = tokens ?r"
      using Some b by (simp add: credit_def tokens_spend refill_def allowance_def)
    also have "\<dots> \<le> credit (pol key) key l now + allowance (pol key) (fst k - now)"
    proof (cases "map_of (cw_buckets l) key")
      case None
      then show ?thesis using tokens_refill [of "pol key" "fst k" "current (pol key) (fst k) l key"]
        allowance_nonneg [of "pol key" "fst k - now"] by (simp add: current_def credit_def allowance_zero)
    next
      case (Some c)
      have "tokens ?r \<le> tokens c + allowance (pol key) (fst k - last_refill c)"
        using Some tokens_refill [of "pol key" "fst k" c] by (simp add: current_def)
      also have "\<dots> = tokens c + (allowance (pol key) (now - last_refill c) + allowance (pol key) (fst k - now))"
        using assms(2,3) Some allowance_between [of "last_refill c" now "fst k" "pol key"] by simp
      finally show ?thesis using Some by (simp add: credit_def)
    qed
    finally show ?thesis using True by simp
  qed
next
  case False
  show ?thesis
  proof (cases "map_of (cw_buckets l) key")
    case None
    then have "credit (pol key) key (knock_step pol l k) (fst k) = credit (pol key) key l now"
      using knock_creates [OF False None] by (simp add: credit_def)
    then show ?thesis using False allowance_nonneg [of "pol key" "fst k - now"] by simp
  next
    case (Some c)
    then obtain b where b: "map_of (cw_buckets (knock_step pol l k)) key = Some b" using assms(1) by auto
    from knock_other [OF False b] Some have "b = c" by simp
    then have "map_of (cw_buckets (knock_step pol l k)) key = Some c" using b by simp
    moreover have "allowance (pol key) (fst k - last_refill c) = allowance (pol key) (now - last_refill c) + allowance (pol key) (fst k - now)"
      using Some assms(2,3) allowance_between [of "last_refill c" now "fst k" "pol key"] by simp
    ultimately show ?thesis using False Some by (simp add: credit_def)
  qed
qed

lemma knock_refilled:
  assumes "map_of (cw_buckets (knock_step pol l k)) key = Some b" "\<forall>b. map_of (cw_buckets l) key = Some b \<longrightarrow> last_refill b \<le> now" "now \<le> fst k"
  shows "last_refill b \<le> fst k"
proof (cases "knock_key k = key")
  case True
  then show ?thesis using knock_same [OF True assms(1)] by (simp add: tokens_spend refill_def)
next
  case False
  then show ?thesis using knock_other [OF False assms(1)] assms(2,3) by auto
qed

lemma let_in_bounded:
  assumes "kept pol key l ks" "sorted (now # map fst ks)" "\<forall>b. map_of (cw_buckets l) key = Some b \<longrightarrow> last_refill b \<le> now"
    and "\<forall>k\<in>set ks. fst k \<le> until" "now \<le> until"
    and "\<forall>b. map_of (cw_buckets l) key = Some b \<longrightarrow> 0 \<le> tokens b"
  shows "of_nat (let_in_count pol key l ks) \<le> credit (pol key) key l now + allowance (pol key) (until - now)"
  using assms
proof (induction ks arbitrary: l now)
  case Nil
  then show ?case
    by (auto simp: credit_def capacity_def split: option.splits intro!: add_nonneg_nonneg allowance_nonneg)
next
  case (Cons k ks)
  let ?l = "knock_step pol l k"
  have le: "now \<le> fst k" "fst k \<le> until" using Cons.prems by auto
  have refilled: "\<forall>b. map_of (cw_buckets ?l) key = Some b \<longrightarrow> last_refill b \<le> fst k"
    using knock_refilled Cons.prems(3) le(1) by blast
  have nonneg: "\<forall>b. map_of (cw_buckets ?l) key = Some b \<longrightarrow> 0 \<le> tokens b"
  proof (intro allI impI)
    fix b assume b: "map_of (cw_buckets ?l) key = Some b"
    show "0 \<le> tokens b"
    proof (cases "knock_key k = key")
      case True
      have "0 \<le> tokens (current (pol key) (fst k) l key)"
        using Cons.prems(6) by (auto simp: current_def capacity_def split: option.splits)
      then have "0 \<le> tokens (refill (pol key) (fst k) (current (pol key) (fst k) l key))"
        using allowance_nonneg [of "pol key" "fst k - last_refill (current (pol key) (fst k) l key)"]
        by (simp add: refill_def allowance_def capacity_def)
      then show ?thesis using knock_same [OF True b] by (simp add: tokens_spend)
    next
      case False
      then show ?thesis using knock_other [OF False b] Cons.prems(6) by blast
    qed
  qed
  have "of_nat (let_in_count pol key ?l ks) \<le> credit (pol key) key ?l (fst k) + allowance (pol key) (until - fst k)"
    by (rule Cons.IH) (use Cons.prems le refilled nonneg in auto)
  moreover have "(if knock_key k = key \<and> let_in pol l k then 1 else 0) + credit (pol key) key ?l (fst k) \<le>
      credit (pol key) key l now + allowance (pol key) (fst k - now)"
    by (rule credit_knock) (use Cons.prems le in auto)
  moreover have "allowance (pol key) (until - now) = allowance (pol key) (fst k - now) + allowance (pol key) (until - fst k)"
    by (rule allowance_between [OF le])
  ultimately show ?case by (cases "knock_key k = key \<and> let_in pol l k") auto
qed

text \<open>The bucket of a channel, an account and an endpoint lets in at most its capacity plus what its rate refills: in any
  stretch of time, whatever requests for other tuples come in between, as long as the bucket is not evicted.
  Different tuples have different buckets.\<close>

theorem bucket_rate_bounded:
  assumes "kept pol (bucket_key ch acc ep) new_channel_limiter ks" "sorted (map fst ks)" "\<forall>k\<in>set ks. start \<le> fst k \<and> fst k \<le> start + d"
  shows "of_nat (let_in_count pol (bucket_key ch acc ep) new_channel_limiter ks) \<le>
      capacity (pol (bucket_key ch acc ep)) + of_nat d / 10 ^ 9 * rate_per_sec (pol (bucket_key ch acc ep)) \<and>
    (bucket_key ch acc ep = bucket_key ch' acc' ep' \<longleftrightarrow> ch = ch' \<and> acc = acc' \<and> ep = ep')"
  using let_in_bounded [of pol "bucket_key ch acc ep" new_channel_limiter ks start "start + d"] assms
  by (auto simp: bucket_key_inject credit_def new_channel_limiter_def allowance_def)

theorem bucket_rate_bounded_witness:
  "of_nat (let_in_count (\<lambda>_. default_policy) (bucket_key ''slack'' ''a'' ''/e'') new_channel_limiter
      [(0, ''slack'', ''a'', ''/e''), (5, ''msteams'', ''a'', ''/e''), (10 ^ 9, ''slack'', ''a'', ''/e'')]) \<le> (71 :: rat)"
proof -
  let ?k = "bucket_key ''slack'' ''a'' ''/e''" and ?o = "bucket_key ''msteams'' ''a'' ''/e''"
  let ?ks = "[(0, ''slack'', ''a'', ''/e''), (5, ''msteams'', ''a'', ''/e''), (10 ^ 9, ''slack'', ''a'', ''/e'')]"
  have "kept (\<lambda>_. default_policy) ?k new_channel_limiter ?ks"
    by (simp add: knock_eqs knock_key_def new_channel_limiter_def evict_if_full_def bucket_key_inject Let_def update_conv')
  from bucket_rate_bounded [OF this, of 0 "10 ^ 9"] show ?thesis
    by (simp add: capacity_def rate_per_sec_def default_policy_def)
qed

section \<open>Duplicates exactly\<close>

lemma entries_evict: "entries sc (evict_old now s) = alist_retain (\<lambda>t. now - int (dedupe_ttl s) < t) (entries sc s)"
  by (simp add: entries_def evict_old_def alist_retain_def Let_def split: option.splits)

lemma entries_set: "entries sc' (s\<lparr>partitions := (partitions s)(sc \<mapsto> es)\<rparr>) = (if sc' = sc then es else entries sc' s)"
  by (simp add: entries_def)

lemma entries_insert:
  "entries sc' (insert_new now sc key s) =
     (if sc' = sc
      then AList.update key now (if max_entries s \<le> length (entries sc s)
        then (case oldest_key (entries sc s) of Some k \<Rightarrow> AList.delete k (entries sc s) | None \<Rightarrow> entries sc s) else entries sc s)
      else entries sc' s)"
  by (simp add: insert_new_def entries_set Let_def)

text \<open>The keys that were new to a scope, oldest first, as a run of requests leaves them.\<close>

type_synonym probe = "instant \<times> dedupe_scope \<times> string"

definition probe_step :: "dedupe_store \<Rightarrow> probe \<Rightarrow> dedupe_store" where
  "probe_step s p = (case p of (now, sc, key) \<Rightarrow> snd (check_and_insert_in now sc key s))"

fun recorded_keys :: "dedupe_scope \<Rightarrow> dedupe_store \<Rightarrow> probe list \<Rightarrow> partition" where
  "recorded_keys sc s [] = []"
| "recorded_keys sc s (p # ps) =
     (case p of (now, sc', key) \<Rightarrow>
        (if sc' = sc \<and> \<not> fst (check_and_insert_in now sc' key s) then [(key, now)] else [])) @ recorded_keys sc (probe_step s p) ps"

text \<open>Of a history with rising instants, the recent entries are its end.\<close>

definition recent :: "duration \<Rightarrow> instant \<Rightarrow> partition \<Rightarrow> partition" where
  "recent ttl now H = filter (\<lambda>e. now - int ttl < snd e) H"

lemma recent_suffix:
  assumes "sorted (map snd H)"
  shows "recent ttl now H = rev (takeWhile (\<lambda>e. now - int ttl < snd e) (rev H))"
  using assms
proof (induction H rule: rev_induct)
  case (snoc e H)
  show ?case
  proof (cases "now - int ttl < snd e")
    case True
    then show ?thesis using snoc by (simp add: recent_def sorted_append)
  next
    case False
    then have "recent ttl now H = []" using snoc.prems by (fastforce simp: recent_def sorted_append filter_empty_conv)
    then show ?thesis using False by (simp add: recent_def)
  qed
qed (simp add: recent_def)

lemma last_n_rev: "last_n n xs = rev (take n (rev xs))"
  by (simp add: last_n_def take_rev)

lemma takeWhile_take: "takeWhile P (take n xs) = take n (takeWhile P xs)"
  by (induction xs arbitrary: n) (auto simp: take_Cons split: nat.splits)

lemma sorted_last_n: "sorted (map snd H) \<Longrightarrow> sorted (map snd (last_n n H))"
  by (simp add: last_n_def drop_map [symmetric] sorted_wrt_drop)

lemma recent_last_n: "sorted (map snd H) \<Longrightarrow> recent ttl now (last_n n H) = last_n n (recent ttl now H)"
  using recent_suffix [OF sorted_last_n] by (simp add: recent_suffix last_n_rev takeWhile_take)

lemma recent_recent: "now \<le> later \<Longrightarrow> recent ttl later (recent ttl now H) = recent ttl later H"
  by (auto simp: recent_def intro: filter_cong)

lemma last_n_push:
  "0 < n \<Longrightarrow> last_n n (xs @ [x]) = (if n \<le> length (last_n n xs) then tl (last_n n xs) else last_n n xs) @ [x]"
  by (auto simp: last_n_def tl_drop Suc_diff_le drop_Suc [symmetric] split: if_splits)

lemma update_new: "k \<notin> fst ` set al \<Longrightarrow> AList.update k v al = al @ [(k, v)]"
  by (induction al) auto

lemma oldest_is_first:
  "sorted (map snd es) \<Longrightarrow> es \<noteq> [] \<Longrightarrow> oldest_key es = Some (fst (hd es))"
  by (cases es) (fastforce simp: list_all_iff)+

lemma delete_first: "distinct (map fst es) \<Longrightarrow> es \<noteq> [] \<Longrightarrow> AList.delete (fst (hd es)) es = tl es"
  by (cases es) (force simp: AList.delete_eq filter_id_conv)+

text \<open>The entries of a scope are the last of what was recorded and is recent.\<close>

definition tracks_in :: "dedupe_store \<Rightarrow> instant \<Rightarrow> dedupe_scope \<Rightarrow> partition \<Rightarrow> bool" where
  "tracks_in s now sc h \<longleftrightarrow> entries sc s = last_n (max_entries s) (recent (dedupe_ttl s) now h) \<and> distinct (map fst (entries sc s)) \<and>
     sorted (map snd h) \<and> (\<forall>e\<in>set h. snd e \<le> now)"

definition tracks_recent :: "dedupe_store \<Rightarrow> instant \<Rightarrow> (dedupe_scope \<Rightarrow> partition) \<Rightarrow> bool" where
  "tracks_recent s now H \<longleftrightarrow> 0 < max_entries s \<and> 0 < dedupe_ttl s \<and> (\<forall>sc. tracks_in s now sc (H sc))"

lemma sorted_recent: "sorted (map snd h) \<Longrightarrow> sorted (map snd (recent ttl now h))"
  by (simp add: recent_def sorted_filter)

lemma tracks_evict_in:
  assumes "tracks_in s now sc h" "now \<le> later"
  shows "tracks_in (evict_old later s) later sc h"
proof -
  have same: "max_entries (evict_old later s) = max_entries s" "dedupe_ttl (evict_old later s) = dedupe_ttl s"
    by (simp_all add: evict_old_def)
  have ev: "entries sc (evict_old later s) = recent (dedupe_ttl s) later (entries sc s)"
    by (simp add: entries_evict recent_def alist_retain_def split_def)
  have "entries sc (evict_old later s) = last_n (max_entries s) (recent (dedupe_ttl s) later h)"
    using assms unfolding ev by (simp add: tracks_in_def recent_last_n sorted_recent recent_recent)
  moreover have "distinct (map fst (entries sc (evict_old later s)))"
    using assms(1) unfolding entries_evict tracks_in_def by (intro distinct_keys_retain) blast
  ultimately show ?thesis using assms unfolding tracks_in_def same by fastforce
qed

lemma tracks_evict:
  "tracks_recent s now H \<Longrightarrow> now \<le> later \<Longrightarrow> tracks_recent (evict_old later s) later H"
proof -
  have same: "max_entries (evict_old later s) = max_entries s" "dedupe_ttl (evict_old later s) = dedupe_ttl s"
    by (simp_all add: evict_old_def)
  show "tracks_recent s now H \<Longrightarrow> now \<le> later \<Longrightarrow> ?thesis"
    using tracks_evict_in unfolding tracks_recent_def same by blast
qed

lemma tracks_insert_in:
  assumes inv: "tracks_in s now sc h" and "map_of (entries sc s) key = None" and pos: "0 < max_entries s" "0 < dedupe_ttl s"
  shows "tracks_in (insert_new now sc key s) now sc (h @ [(key, now)])"
proof -
  let ?n = "max_entries s" and ?A = "recent (dedupe_ttl s) now h" and ?E = "entries sc s"
  let ?K = "if ?n \<le> length ?E then tl ?E else ?E"
  have same: "max_entries (insert_new now sc key s) = ?n" "dedupe_ttl (insert_new now sc key s) = dedupe_ttl s"
    by (simp_all add: insert_new_def Let_def)
  have E: "?E = last_n ?n ?A" "distinct (map fst ?E)" "sorted (map snd h)" "\<forall>e\<in>set h. snd e \<le> now"
    using inv by (auto simp: tracks_in_def)
  have "sorted (map snd ?E)" unfolding E(1) by (intro sorted_last_n sorted_recent E(3))
  then have room: "(if ?n \<le> length ?E then (case oldest_key ?E of Some k \<Rightarrow> AList.delete k ?E | None \<Rightarrow> ?E) else ?E) = ?K"
    using pos E(2) by (cases "?E = []") (auto simp: oldest_is_first delete_first)
  have "set ?K \<subseteq> set ?E" by (cases ?E) auto
  then have absent: "key \<notin> fst ` set ?K" using assms(2) by (auto simp: map_of_eq_None_iff)
  have new: "entries sc (insert_new now sc key s) = ?K @ [(key, now)]"
    using update_new [OF absent] unfolding entries_insert room by simp
  also have "\<dots> = last_n ?n (?A @ [(key, now)])" using last_n_push [OF pos(1), of ?A] E(1) by simp
  also have "?A @ [(key, now)] = recent (dedupe_ttl s) now (h @ [(key, now)])" using pos(2) by (simp add: recent_def)
  finally have "entries sc (insert_new now sc key s) = last_n ?n (recent (dedupe_ttl s) now (h @ [(key, now)]))" .
  moreover have "distinct (map fst (entries sc (insert_new now sc key s)))"
    using E(2) absent unfolding new by (auto simp: distinct_tl map_tl)
  ultimately show ?thesis using E(3,4) unfolding tracks_in_def same by (auto simp: sorted_append)
qed

lemma tracks_insert:
  assumes "tracks_recent s now H" "map_of (entries sc s) key = None"
  shows "tracks_recent (insert_new now sc key s) now (H(sc := H sc @ [(key, now)]))"
proof -
  have same: "max_entries (insert_new now sc key s) = max_entries s" "dedupe_ttl (insert_new now sc key s) = dedupe_ttl s"
    by (simp_all add: insert_new_def Let_def)
  have "tracks_in (insert_new now sc key s) now sc' ((H(sc := H sc @ [(key, now)])) sc')" for sc'
  proof (cases "sc' = sc")
    case True
    have "tracks_in s now sc (H sc)" "0 < max_entries s" "0 < dedupe_ttl s" using assms(1) unfolding tracks_recent_def by blast+
    from tracks_insert_in [OF this(1) assms(2) this(2,3)] True show ?thesis by simp
  next
    case False
    moreover have "tracks_in s now sc' (H sc')" using assms(1) unfolding tracks_recent_def by blast
    moreover have "entries sc' (insert_new now sc key s) = entries sc' s" using False by (simp add: entries_insert)
    ultimately show ?thesis unfolding tracks_in_def same by auto
  qed
  then show ?thesis using assms(1) unfolding tracks_recent_def same by blast
qed

lemma tracks_probe:
  assumes "tracks_recent s now H" "now \<le> later"
  shows "tracks_recent (snd (check_and_insert_in later sc key s)) later
      (if fst (check_and_insert_in later sc key s) then H else H(sc := H sc @ [(key, later)]))"
proof (cases "map_of (entries sc (evict_old later s)) key")
  case None
  then show ?thesis using tracks_insert [OF tracks_evict [OF assms] None] by (simp add: check_and_insert_in_def Let_def)
next
  case (Some t)
  then show ?thesis using tracks_evict [OF assms] by (simp add: check_and_insert_in_def Let_def)
qed

lemma dedupe_run_tracks:
  assumes "tracks_recent s now H" "sorted (now # map fst ps)"
  shows "tracks_recent (foldl probe_step s ps) (last (now # map fst ps)) (\<lambda>sc. H sc @ recorded_keys sc s ps)"
  using assms
proof (induction ps arbitrary: s now H)
  case (Cons p ps)
  obtain later sc key where p: "p = (later, sc, key)" by (cases p) auto
  let ?dup = "fst (check_and_insert_in later sc key s)"
  have "tracks_recent (probe_step s p) later (if ?dup then H else H(sc := H sc @ [(key, later)]))"
    using tracks_probe [of s now H later sc key] Cons.prems p by (simp add: probe_step_def)
  from Cons.IH [OF this] Cons.prems(2) p
  have "tracks_recent (foldl probe_step s (p # ps)) (last (now # map fst (p # ps)))
      (\<lambda>sc'. (if ?dup then H else H(sc := H sc @ [(key, later)])) sc' @ recorded_keys sc' (probe_step s p) ps)" by simp
  also have "(\<lambda>sc'. (if ?dup then H else H(sc := H sc @ [(key, later)])) sc' @ recorded_keys sc' (probe_step s p) ps) =
      (\<lambda>sc'. H sc' @ recorded_keys sc' s (p # ps))"
    by (rule ext) (auto simp: p)
  finally show ?case .
qed simp

lemma tracks_new: "tracks_recent new_dedupe now (\<lambda>sc. [])"
  by (simp add: tracks_recent_def tracks_in_def entries_def new_dedupe_def DEDUPE_TTL_MS_def MAX_ENTRIES_PER_SCOPE_def recent_def last_n_def)

lemma probe_step_kept: "max_entries (probe_step s p) = max_entries s" "dedupe_ttl (probe_step s p) = dedupe_ttl s"
  by (cases p, simp add: probe_step_def check_and_insert_in_def insert_new_def evict_old_def Let_def)+

lemma probes_kept: "max_entries (foldl probe_step s ps) = max_entries s" "dedupe_ttl (foldl probe_step s ps) = dedupe_ttl s"
  by (induction ps arbitrary: s) (simp_all add: probe_step_kept)

text \<open>C27: The check for duplicates is exact. After any requests at instants that do not decrease, a key is a duplicate
  in its scope if and only if it is among the last 2500 keys that were new to that scope and came less than five minutes ago;
  the keys of other scopes never count.\<close>

theorem duplicates_exact:
  assumes "sorted (map fst ps @ [now])"
  shows "fst (check_and_insert_in now sc key (foldl probe_step new_dedupe ps)) \<longleftrightarrow>
     key \<in> fst ` set (last_n 2500 (recent 300000 now (recorded_keys sc new_dedupe ps)))"
proof -
  define start where "start = hd (map fst ps @ [now])"
  have "sorted (start # map fst ps) \<and> last (start # map fst ps) \<le> now"
    using assms by (cases "map fst ps") (auto simp: start_def sorted_append)
  then have rising: "sorted (start # map fst ps)" "last (start # map fst ps) \<le> now" by blast+
  from tracks_evict [OF dedupe_run_tracks [OF tracks_new rising(1)] rising(2)]
  have "tracks_in (evict_old now (foldl probe_step new_dedupe ps)) now sc (recorded_keys sc new_dedupe ps)"
    unfolding tracks_recent_def append_Nil by blast
  then have "entries sc (evict_old now (foldl probe_step new_dedupe ps)) = last_n 2500 (recent 300000 now (recorded_keys sc new_dedupe ps))"
    by (simp add: tracks_in_def evict_old_def probes_kept new_dedupe_def DEDUPE_TTL_MS_def MAX_ENTRIES_PER_SCOPE_def)
  then show ?thesis by (simp add: check_and_insert_in_def Let_def map_of_eq_None_iff)
qed

theorem duplicates_exact_witness:
  "fst (check_and_insert_in 1000 unscoped ''k'' (foldl probe_step new_dedupe [(0, unscoped, ''k''), (5, (''slack'', ''a'', ''/e''), ''j'')])) \<and>
   \<not> fst (check_and_insert_in 1000 unscoped ''j'' (foldl probe_step new_dedupe [(0, unscoped, ''k''), (5, (''slack'', ''a'', ''/e''), ''j'')])) \<and>
   \<not> fst (check_and_insert_in 300000 unscoped ''k'' (foldl probe_step new_dedupe [(0, unscoped, ''k''), (5, (''slack'', ''a'', ''/e''), ''j'')]))"
  (is "fst (check_and_insert_in _ _ _ (foldl probe_step new_dedupe ?ps)) \<and> _")
proof -
  have "recorded_keys unscoped new_dedupe ?ps = [(''k'', 0)]" by (simp add: unscoped_def check_and_insert_in_def entries_def evict_old_def new_dedupe_def)
  then show ?thesis
    using duplicates_exact [of ?ps 1000 unscoped "''k''"] duplicates_exact [of ?ps 1000 unscoped "''j''"] duplicates_exact [of ?ps 300000 unscoped "''k''"]
    by (simp add: last_n_def recent_def)
qed

section \<open>What passes the gate\<close>

lemma bucket_check_ok:
  assumes "bucket_check now ch acc ep p l = (Inr (), l')"
  shows "1 \<le> tokens (refill p now (current p now l (bucket_key ch acc ep)))"
  using assms by (auto simp: bucket_check_def current_def Let_def split: if_splits)

text \<open>A request that the gate lets through to a channel is one its verifier accepted, whose timestamp, if it has one, is no more
  than the allowed age away from the clock, in the past or in the future, and for which the bucket of the channel, the account and the endpoint
  had a token. It is reported new only if its key is not in the store after the old ones left, and then it is in the store afterwards.\<close>

lemma gate_lets_through:
  assumes "channel_webhook_gate v c acc ep headers body l s = (Inr (w, r), l', s')"
  shows "vf_verify v headers body = Inr w \<and>
    (case timestamp_epoch w of None \<Rightarrow> True | Some ts \<Rightarrow> age_of (clock_secs c) ts \<le> vf_max_age v) \<and>
    1 \<le> tokens (refill (vf_policy v) (clock_ns c) (current (vf_policy v) (clock_ns c) l (bucket_key (vf_channel v) acc ep))) \<and>
    (case idempotency_key w of
       None \<Rightarrow> r = New \<and> s' = s
     | Some k \<Rightarrow>
         (r = New \<longleftrightarrow> map_of (entries (vf_channel v, acc, ep) (evict_old (clock_ms c) s)) k = None) \<and>
         map_of (entries (vf_channel v, acc, ep) s') k \<noteq> None)"
  using assms
  by (auto simp: channel_webhook_gate_def verify_channel_webhook_def timestamp_check_def check_and_insert_scoped_def check_and_insert_in_def
      entries_insert update_conv' Let_def dest: bucket_check_ok split: sum.splits prod.splits option.splits if_splits)

end
