(* ===== verification/Provider_Chain.thy ===== *)
theory Provider_Chain
  imports Moltis_Prelude Tool_Args
begin

text \<open>
  What the agent does when a language model fails: the chain of providers with its circuit breakers
  (\<open>crates/agents/src/provider_chain.rs\<close>), the events of a stream (\<open>crates/agents/src/model/stream.rs\<close>), the classification
  of errors and the delays of retries (\<open>crates/agents/src/runner/retry.rs\<close>), and the same breaker in front of the
  providers of embeddings (\<open>crates/memory/src/embeddings_fallback.rs\<close>).

  The providers are outside the repository's control: what provider \<open>i\<close> of a chain answers, and how long it takes, is an argument of a call. A
  stream is the list of events it yields until it ends. Calls of one chain are modelled one after the other.
\<close>

section \<open>Errors\<close>

datatype provider_error_kind = RateLimit | AuthError | ServerError | BillingExhausted | ContextWindow | InvalidRequest | Unknown

definition should_failover :: "provider_error_kind \<Rightarrow> bool" where
  "should_failover k \<longleftrightarrow> k \<in> {RateLimit, AuthError, ServerError, BillingExhausted, Unknown}"

definition contains_any :: "string list \<Rightarrow> string \<Rightarrow> bool" where
  "contains_any patterns msg = list_ex (contains_sub msg) patterns"

definition CHAIN_CONTEXT_WINDOW_PATTERNS :: "string list" where
  "CHAIN_CONTEXT_WINDOW_PATTERNS = [''context_length_exceeded'', ''context_window_exceeded'', ''model_context_window_exceeded'', ''max_tokens'',
     ''too many tokens'', ''request too large'', ''maximum context length'', ''context window'', ''token limit'', ''input too long'',
     ''input_too_long'', ''content_too_large'', ''request_too_large'']"

definition classify_error :: "string \<Rightarrow> provider_error_kind" where
  "classify_error err =
     (let msg = to_lowercase err in
      if contains_any CHAIN_CONTEXT_WINDOW_PATTERNS msg then ContextWindow
      else if contains_any [''429'', ''rate limit'', ''rate_limit'', ''too many requests''] msg then RateLimit
      else if contains_any [''401'', ''403'', ''unauthorized'', ''forbidden'', ''invalid api key'', ''invalid_api_key'', ''authentication''] msg then AuthError
      else if contains_any [''billing'', ''quota'', ''insufficient_quota'', ''usage limit'', ''credit''] msg then BillingExhausted
      else if contains_any [''500'', ''502'', ''503'', ''504'', ''internal server error'', ''bad gateway'', ''service unavailable'', ''overloaded''] msg
        then ServerError
      else if contains_any [''400'', ''bad request'', ''invalid_request''] msg then InvalidRequest
      else Unknown)"

section \<open>Retries\<close>

definition CONTEXT_WINDOW_PATTERNS :: "string list" where
  "CONTEXT_WINDOW_PATTERNS = [''context_length_exceeded'', ''context_window_exceeded'', ''context_window_exceeded'', ''max_tokens'',
     ''too many tokens'', ''request too large'', ''maximum context length'', ''context window'', ''token limit'', ''input too long'',
     ''input_too_long'', ''content_too_large'', ''request_too_large'']"

definition is_context_window_error :: "string \<Rightarrow> bool" where
  "is_context_window_error msg = contains_any CONTEXT_WINDOW_PATTERNS (to_lowercase msg)"

definition RETRYABLE_SERVER_PATTERNS :: "string list" where
  "RETRYABLE_SERVER_PATTERNS = [''http 500'', ''http 502'', ''http 503'', ''http 529'', ''server_error'', ''internal server error'', ''overloaded'',
     ''bad gateway'', ''service unavailable'', ''the server had an error processing your request'']"

definition is_retryable_server_error :: "string \<Rightarrow> bool" where
  "is_retryable_server_error msg = contains_any RETRYABLE_SERVER_PATTERNS (to_ascii_lowercase msg)"

definition RATE_LIMIT_PATTERNS :: "string list" where
  "RATE_LIMIT_PATTERNS = [''http 429'', ''status=429'', ''status 429'', ''status: 429'', ''too many requests'', ''rate limit'', ''rate_limit'']"

definition is_rate_limit_error :: "string \<Rightarrow> bool" where
  "is_rate_limit_error msg = contains_any RATE_LIMIT_PATTERNS (to_ascii_lowercase msg)"

definition BILLING_QUOTA_PATTERNS :: "string list" where
  "BILLING_QUOTA_PATTERNS = [''insufficient_quota'', ''quota exceeded'', ''current quota'', ''billing details'', ''billing limit'', ''credit balance'']"

definition is_billing_quota_error :: "string \<Rightarrow> bool" where
  "is_billing_quota_error msg = contains_any BILLING_QUOTA_PATTERNS (to_ascii_lowercase msg)"

definition SERVER_RETRY_DELAY :: nat where "SERVER_RETRY_DELAY = 2000"
definition RATE_LIMIT_INITIAL_RETRY_MS :: nat where "RATE_LIMIT_INITIAL_RETRY_MS = 2000"
definition RATE_LIMIT_MAX_RETRY_MS :: nat where "RATE_LIMIT_MAX_RETRY_MS = 60000"
definition RATE_LIMIT_MAX_RETRIES :: nat where "RATE_LIMIT_MAX_RETRIES = 10"

definition clamp :: "nat \<Rightarrow> nat \<Rightarrow> nat \<Rightarrow> nat" where
  "clamp lo hi x = (if x < lo then lo else if hi < x then hi else x)"

definition saturating_mul :: "nat \<Rightarrow> nat \<Rightarrow> nat" where
  "saturating_mul a b = min (a * b) u64_max"

definition next_rate_limit_retry_ms :: "nat option \<Rightarrow> nat" where
  "next_rate_limit_retry_ms previous_ms =
     clamp RATE_LIMIT_INITIAL_RETRY_MS RATE_LIMIT_MAX_RETRY_MS
       (case previous_ms of Some ms \<Rightarrow> saturating_mul ms 2 | None \<Rightarrow> RATE_LIMIT_INITIAL_RETRY_MS)"

definition parse_retry_delay_ms_from_fragment :: "string \<Rightarrow> bool \<Rightarrow> nat \<Rightarrow> nat option" where
  "parse_retry_delay_ms_from_fragment fragment unit_default_ms max_ms =
     (let tail = dropWhile (\<lambda>c. \<not> is_ascii_digit c) fragment;
          digits = takeWhile is_ascii_digit tail in
      if tail = [] then None
      else
        (case parse_u64 digits of
           None \<Rightarrow> None
         | Some amount \<Rightarrow>
             (let u = trim_start_by is_whitespace (drop (length digits) tail);
                  ms = (if starts_with u ''ms'' \<or> starts_with u ''millisecond'' then amount
                        else if starts_with u ''sec'' \<or> starts_with u ''second'' \<or> starts_with u ''s'' then saturating_mul amount 1000
                        else if starts_with u ''min'' \<or> starts_with u ''minute'' \<or> starts_with u ''m'' then saturating_mul amount 60000
                        else if unit_default_ms then amount
                        else saturating_mul amount 1000) in
              Some (clamp 1 max_ms ms))))"

definition RETRY_NEEDLES :: "(string \<times> bool) list" where
  "RETRY_NEEDLES = [(''retry_after_ms='', True), (''retry-after-ms='', True), (''retry_after='', False), (''retry-after:'', False),
     (''retry after '', False), (''retry in '', False)]"

fun first_hint :: "string \<Rightarrow> nat \<Rightarrow> (string \<times> bool) list \<Rightarrow> nat option" where
  "first_hint lowered max_ms [] = None"
| "first_hint lowered max_ms ((needle, default_ms) # ns) =
     (case find_sub needle lowered of
        None \<Rightarrow> first_hint lowered max_ms ns
      | Some idx \<Rightarrow>
          (case parse_retry_delay_ms_from_fragment (drop (idx + length needle) lowered) default_ms max_ms of
             Some ms \<Rightarrow> Some ms
           | None \<Rightarrow> first_hint lowered max_ms ns))"

definition extract_retry_after_ms :: "string \<Rightarrow> nat \<Rightarrow> nat option" where
  "extract_retry_after_ms msg max_ms = first_hint (to_ascii_lowercase msg) max_ms RETRY_NEEDLES"

text \<open>The budgets of a run of the agent, and what is left of them after an error.\<close>

record retry_budget =
  server_retries :: nat
  rate_limit_retries :: nat
  rate_limit_backoff :: "nat option"

definition new_budget :: retry_budget where
  "new_budget = \<lparr>server_retries = 1, rate_limit_retries = RATE_LIMIT_MAX_RETRIES, rate_limit_backoff = None\<rparr>"

definition next_retry_delay_ms :: "string \<Rightarrow> retry_budget \<Rightarrow> nat option \<times> retry_budget" where
  "next_retry_delay_ms msg b =
     (if is_billing_quota_error msg then (None, b)
      else if is_rate_limit_error msg then
        (if rate_limit_retries b = 0 then (None, b)
         else
           (let backoff = next_rate_limit_retry_ms (rate_limit_backoff b);
                b = b\<lparr>rate_limit_retries := rate_limit_retries b - 1, rate_limit_backoff := Some backoff\<rparr>;
                delay = (case extract_retry_after_ms msg RATE_LIMIT_MAX_RETRY_MS of Some ms \<Rightarrow> ms | None \<Rightarrow> backoff) in
            (Some (clamp 1 RATE_LIMIT_MAX_RETRY_MS delay), b)))
      else if is_retryable_server_error msg then
        (if server_retries b = 0 then (None, b)
         else (Some SERVER_RETRY_DELAY, b\<lparr>server_retries := server_retries b - 1\<rparr>))
      else (None, b))"

definition DEFAULT_AGENT_MAX_ITERATIONS :: nat where "DEFAULT_AGENT_MAX_ITERATIONS = 25"

definition resolve_agent_max_iterations :: "nat \<Rightarrow> nat" where
  "resolve_agent_max_iterations configured = (if configured = 0 then DEFAULT_AGENT_MAX_ITERATIONS else configured)"

section \<open>Circuit breakers\<close>

record breaker =
  failures :: nat
  last_failure :: "instant option"

definition new_breaker :: breaker where
  "new_breaker = \<lparr>failures = 0, last_failure = None\<rparr>"

definition record_success :: "breaker \<Rightarrow> breaker" where
  "record_success b = b\<lparr>failures := 0\<rparr>"

definition record_failure :: "instant \<Rightarrow> breaker \<Rightarrow> breaker" where
  "record_failure now b = \<lparr>failures = (failures b + 1) mod 2 ^ 64, last_failure = Some now\<rparr>"

definition is_tripped :: "instant \<Rightarrow> breaker \<Rightarrow> bool \<times> breaker" where
  "is_tripped now b =
     (if failures b < 3 then (False, b)
      else
        (case last_failure b of
           Some t \<Rightarrow> if duration_since now t < 60000 then (True, b) else (False, b\<lparr>failures := 0\<rparr>)
         | None \<Rightarrow> (False, b\<lparr>failures := 0\<rparr>)))"

section \<open>The chain of providers\<close>

record provider_identity =
  pi_provider :: string
  pi_model :: string

datatype attempt_event = Started provider_identity | AttemptFailed provider_identity string

record chain_entry =
  ce_provider :: provider_identity
  ce_state :: breaker

definition new_chain :: "provider_identity list \<Rightarrow> chain_entry list" where
  "new_chain providers = map (\<lambda>p. \<lparr>ce_provider = p, ce_state = new_breaker\<rparr>) providers"

definition single_chain :: "provider_identity \<Rightarrow> chain_entry list" where
  "single_chain p = new_chain [p]"

text \<open>\<open>all\<close> stops at the first entry that is not tripped; the entries it asked may have been reset.\<close>

fun all_tripped :: "instant \<Rightarrow> chain_entry list \<Rightarrow> bool \<times> chain_entry list" where
  "all_tripped now [] = (True, [])"
| "all_tripped now (e # es) =
     (case is_tripped now (ce_state e) of (t, b) \<Rightarrow>
        (if t then (case all_tripped now es of (a, es) \<Rightarrow> (a, e\<lparr>ce_state := b\<rparr> # es))
         else (False, e\<lparr>ce_state := b\<rparr> # es)))"

text \<open>What the providers do in one call: the answer and the milliseconds of provider \<open>i\<close>.\<close>

record 'r answers =
  an_answer :: "nat \<Rightarrow> string + 'r"
  an_took :: "nat \<Rightarrow> nat"

definition error_entry :: "provider_identity \<Rightarrow> string \<Rightarrow> string" where
  "error_entry p e = pi_model p @ '': '' @ e"

fun join_errors :: "string list \<Rightarrow> string" where
  "join_errors [] = []"
| "join_errors [e] = e"
| "join_errors (e # es) = e @ ''; '' @ join_errors es"

definition all_failed :: "string list \<Rightarrow> string" where
  "all_failed errors = ''all providers in failover chain failed: '' @ join_errors errors"

text \<open>The result of a call also has the attempts that were reported and the indices of the providers that were asked.\<close>

record 'r completion =
  co_result :: "string + 'r"
  co_attempts :: "attempt_event list"
  co_tried :: "nat list"
  co_chain :: "chain_entry list"

fun complete_loop ::
  "'r answers \<Rightarrow> bool \<Rightarrow> nat \<Rightarrow> instant \<Rightarrow> string list \<Rightarrow> chain_entry list \<Rightarrow> 'r completion" where
  "complete_loop A force_primary i now errors [] =
     \<lparr>co_result = Inl (all_failed errors), co_attempts = [], co_tried = [], co_chain = []\<rparr>"
| "complete_loop A force_primary i now errors (e # es) =
     (case is_tripped now (ce_state e) of (t, b) \<Rightarrow>
        (let e = e\<lparr>ce_state := b\<rparr> in
         if t \<and> \<not> (force_primary \<and> i = 0) then
           (let c = complete_loop A force_primary (Suc i) now errors es in c\<lparr>co_chain := e # co_chain c\<rparr>)
         else
           (let now = instant_add now (an_took A i) in
            case an_answer A i of
              Inr resp \<Rightarrow>
                \<lparr>co_result = Inr resp, co_attempts = [Started (ce_provider e)], co_tried = [i],
                 co_chain = e\<lparr>ce_state := record_success (ce_state e)\<rparr> # es\<rparr>
            | Inl err \<Rightarrow>
                (let e = e\<lparr>ce_state := record_failure now (ce_state e)\<rparr>;
                     att = [Started (ce_provider e), AttemptFailed (ce_provider e) err] in
                 if \<not> should_failover (classify_error err) then
                   \<lparr>co_result = Inl err, co_attempts = att, co_tried = [i], co_chain = e # es\<rparr>
                 else
                   (let c = complete_loop A force_primary (Suc i) now (errors @ [error_entry (ce_provider e) err]) es in
                    c\<lparr>co_attempts := att @ co_attempts c, co_tried := i # co_tried c, co_chain := e # co_chain c\<rparr>)))))"

definition complete :: "'r answers \<Rightarrow> instant \<Rightarrow> chain_entry list \<Rightarrow> 'r completion" where
  "complete A now chain = (case all_tripped now chain of (force_primary, chain) \<Rightarrow> complete_loop A force_primary 0 now [] chain)"

section \<open>Streams\<close>

record usage =
  input_tokens :: nat
  output_tokens :: nat
  cache_read_tokens :: nat
  cache_write_tokens :: nat

datatype 'f stream_event = Delta string | ProviderRaw "'f json_value" | ReasoningDelta string
  | ToolCallStart string string nat "(string \<times> 'f json_value) list option" | ToolCallArgumentsDelta nat string | ToolCallComplete nat
  | Done usage | StreamError string

datatype 'f tracked_event = Attempt attempt_event | Event "'f stream_event"

datatype attempt_end = Finished | Stopped | FailedOver string

definition NO_TERMINAL :: string where
  "NO_TERMINAL = ''provider stream ended without a terminal event''"

fun attempt_stream :: "provider_identity \<Rightarrow> bool \<Rightarrow> 'f stream_event list \<Rightarrow> 'f tracked_event list \<times> attempt_end" where
  "attempt_stream p emitted_output [] =
     (if emitted_output then ([Attempt (AttemptFailed p NO_TERMINAL), Event (StreamError NO_TERMINAL)], Stopped)
      else ([Attempt (AttemptFailed p NO_TERMINAL)], FailedOver NO_TERMINAL))"
| "attempt_stream p emitted_output (ev # evs) =
     (case ev of
        StreamError err \<Rightarrow>
          if should_failover (classify_error err) \<and> \<not> emitted_output then ([Attempt (AttemptFailed p err)], FailedOver err)
          else ([Attempt (AttemptFailed p err), Event (StreamError err)], Stopped)
      | Done u \<Rightarrow> ([Event (Done u)], Finished)
      | ProviderRaw raw \<Rightarrow> (case attempt_stream p emitted_output evs of (out, r) \<Rightarrow> (Event ev # out, r))
      | _ \<Rightarrow> (case attempt_stream p True evs of (out, r) \<Rightarrow> (Event ev # out, r)))"

text \<open>What the providers stream in one call.\<close>

record 'f streams =
  st_events :: "nat \<Rightarrow> 'f stream_event list"
  st_took :: "nat \<Rightarrow> nat"

record 'f streamed =
  sd_events :: "'f tracked_event list"
  sd_tried :: "nat list"
  sd_chain :: "chain_entry list"

fun stream_loop :: "'f streams \<Rightarrow> bool \<Rightarrow> nat \<Rightarrow> instant \<Rightarrow> string list \<Rightarrow> chain_entry list \<Rightarrow> 'f streamed" where
  "stream_loop S force_primary i now errors [] =
     \<lparr>sd_events = [Event (StreamError (all_failed errors))], sd_tried = [], sd_chain = []\<rparr>"
| "stream_loop S force_primary i now errors (e # es) =
     (case is_tripped now (ce_state e) of (t, b) \<Rightarrow>
        (let e = e\<lparr>ce_state := b\<rparr> in
         if t \<and> \<not> (force_primary \<and> i = 0) then
           (let c = stream_loop S force_primary (Suc i) now errors es in c\<lparr>sd_chain := e # sd_chain c\<rparr>)
         else
           (let now = instant_add now (st_took S i) in
            case attempt_stream (ce_provider e) False (st_events S i) of (out, r) \<Rightarrow>
              (let out = Attempt (Started (ce_provider e)) # out in
               case r of
                 Finished \<Rightarrow> \<lparr>sd_events = out, sd_tried = [i], sd_chain = e\<lparr>ce_state := record_success (ce_state e)\<rparr> # es\<rparr>
               | Stopped \<Rightarrow> \<lparr>sd_events = out, sd_tried = [i], sd_chain = e\<lparr>ce_state := record_failure now (ce_state e)\<rparr> # es\<rparr>
               | FailedOver err \<Rightarrow>
                   (let e = e\<lparr>ce_state := record_failure now (ce_state e)\<rparr>;
                        c = stream_loop S force_primary (Suc i) now (errors @ [error_entry (ce_provider e) err]) es in
                    c\<lparr>sd_events := out @ sd_events c, sd_tried := i # sd_tried c, sd_chain := e # sd_chain c\<rparr>)))))"

definition failover_stream :: "'f streams \<Rightarrow> instant \<Rightarrow> chain_entry list \<Rightarrow> 'f streamed" where
  "failover_stream S now chain = (case all_tripped now chain of (force_primary, chain) \<Rightarrow> stream_loop S force_primary 0 now [] chain)"

fun untracked :: "'f tracked_event list \<Rightarrow> 'f stream_event list" where
  "untracked [] = []"
| "untracked (Attempt a # evs) = untracked evs"
| "untracked (Event ev # evs) = ev # untracked evs"

definition stream_with_tools_and_options :: "'f streams \<Rightarrow> instant \<Rightarrow> chain_entry list \<Rightarrow> 'f stream_event list \<times> chain_entry list" where
  "stream_with_tools_and_options S now chain = (let c = failover_stream S now chain in (untracked (sd_events c), sd_chain c))"

section \<open>Embeddings\<close>

text \<open>The chain of embedding providers remembers the provider that answered last and goes round from there.\<close>

record embedding_chain =
  em_chain :: "chain_entry list"
  em_active :: nat

definition all_embedding_failed :: "string list \<Rightarrow> string" where
  "all_embedding_failed errors = ''all embedding providers failed: '' @ join_errors errors"

fun embed_loop ::
  "'r answers \<Rightarrow> nat \<Rightarrow> instant \<Rightarrow> string list \<Rightarrow> nat list \<Rightarrow> embedding_chain \<Rightarrow> (string + 'r) \<times> nat list \<times> embedding_chain" where
  "embed_loop A start_idx now errors [] c = (Inl (all_embedding_failed errors), [], c)"
| "embed_loop A start_idx now errors (offset # offsets) c =
     (let idx = (start_idx + offset) mod length (em_chain c);
          e = em_chain c ! idx in
      case is_tripped now (ce_state e) of (t, b) \<Rightarrow>
        (let c = c\<lparr>em_chain := (em_chain c)[idx := e\<lparr>ce_state := b\<rparr>]\<rparr> in
         if t then embed_loop A start_idx now errors offsets c
         else
           (let now = instant_add now (an_took A idx) in
            case an_answer A idx of
              Inr v \<Rightarrow>
                (Inr v, [idx],
                 c\<lparr>em_chain := (em_chain c)[idx := e\<lparr>ce_state := record_success b\<rparr>],
                   em_active := (if idx \<noteq> start_idx then idx else em_active c)\<rparr>)
            | Inl err \<Rightarrow>
                (let c = c\<lparr>em_chain := (em_chain c)[idx := e\<lparr>ce_state := record_failure now b\<rparr>]\<rparr> in
                 case embed_loop A start_idx now (errors @ [pi_provider (ce_provider e) @ '': '' @ err]) offsets c of
                   (r, tried, c) \<Rightarrow> (r, idx # tried, c)))))"

definition embed :: "'r answers \<Rightarrow> instant \<Rightarrow> embedding_chain \<Rightarrow> (string + 'r) \<times> nat list \<times> embedding_chain" where
  "embed A now c = embed_loop A (em_active c) now [] [0..<length (em_chain c)] c"

definition active_provider_name :: "embedding_chain \<Rightarrow> string" where
  "active_provider_name c = (if em_active c < length (em_chain c) then pi_provider (ce_provider (em_chain c ! em_active c)) else ''none'')"

section \<open>Delays and budgets\<close>

lemma clamp_bounds: "lo \<le> hi \<Longrightarrow> lo \<le> clamp lo hi x \<and> clamp lo hi x \<le> hi"
  by (simp add: clamp_def)

text \<open>A retry costs one unit of the budget, and its delay is between a millisecond and a minute.\<close>

definition retries_left :: "retry_budget \<Rightarrow> nat" where
  "retries_left b = server_retries b + rate_limit_retries b"

lemma retry_costs:
  assumes "next_retry_delay_ms msg b = (Some d, b')"
  shows "Suc (retries_left b') = retries_left b \<and> 1 \<le> d \<and> d \<le> RATE_LIMIT_MAX_RETRY_MS"
  using assms clamp_bounds [of 1 RATE_LIMIT_MAX_RETRY_MS]
  by (auto simp: next_retry_delay_ms_def retries_left_def SERVER_RETRY_DELAY_def RATE_LIMIT_MAX_RETRY_MS_def Let_def split: if_splits)

lemma no_retry_keeps: "next_retry_delay_ms msg b = (None, b') \<Longrightarrow> b' = b"
  by (auto simp: next_retry_delay_ms_def Let_def split: if_splits)

lemma new_budget_left: "retries_left new_budget = 11"
  by (simp add: retries_left_def new_budget_def RATE_LIMIT_MAX_RETRIES_def)

section \<open>Who is asked\<close>

definition tripped :: "instant \<Rightarrow> breaker \<Rightarrow> bool" where
  "tripped now b \<longleftrightarrow> fst (is_tripped now b)"

lemma tripped_iff: "tripped now b \<longleftrightarrow> 3 \<le> failures b \<and> (\<exists>t. last_failure b = Some t \<and> now < instant_add t 60000)"
  by (auto simp: tripped_def is_tripped_def duration_since_less_iff split: option.splits)

lemma tripped_after_check:
  assumes "now \<le> later"
  shows "tripped later (snd (is_tripped now b)) \<longleftrightarrow> tripped later b"
proof (cases "tripped now b")
  case True
  then have "snd (is_tripped now b) = b" by (auto simp: tripped_def is_tripped_def split: option.splits if_splits)
  then show ?thesis by simp
next
  case False
  then have "\<not> tripped later b" using assms by (auto simp: tripped_iff)
  moreover have "\<not> tripped later (snd (is_tripped now b))"
    using False calculation by (auto simp: tripped_iff is_tripped_def tripped_def split: option.splits if_splits)
  ultimately show ?thesis by simp
qed

lemma all_tripped_iff: "fst (all_tripped now es) \<longleftrightarrow> list_all (\<lambda>e. tripped now (ce_state e)) es"
  by (induction es) (auto simp: tripped_def split: prod.splits)

lemma all_tripped_length [simp]: "length (snd (all_tripped now es)) = length es"
  by (induction es) (auto split: prod.splits)

lemma all_tripped_provider: "map ce_provider (snd (all_tripped now es)) = map ce_provider es"
  by (induction es) (auto split: prod.splits)

lemma all_tripped_state:
  "now \<le> later \<Longrightarrow> i < length es \<Longrightarrow> tripped later (ce_state (snd (all_tripped now es) ! i)) \<longleftrightarrow> tripped later (ce_state (es ! i))"
proof (induction es arbitrary: i)
  case (Cons e es)
  show ?case
  proof (cases i)
    case 0
    then show ?thesis using tripped_after_check [OF Cons.prems(1), of "ce_state e"]
      by (auto split: prod.splits)
  next
    case (Suc j)
    then show ?thesis using Cons.IH [of j] Cons.prems by (auto split: prod.splits)
  qed
qed simp

text \<open>A provider passes the call on if it failed with an error that another provider may not have.\<close>

definition passes_on :: "'r answers \<Rightarrow> nat \<Rightarrow> bool" where
  "passes_on A i \<longleftrightarrow> (case an_answer A i of Inl err \<Rightarrow> should_failover (classify_error err) | Inr r \<Rightarrow> False)"

definition asked_at :: "(nat \<Rightarrow> nat) \<Rightarrow> instant \<Rightarrow> nat list \<Rightarrow> nat \<Rightarrow> instant" where
  "asked_at took now tried i = instant_add now (sum_list (map took (filter (\<lambda>j. j < i) tried)))"

definition error_of :: "'r answers \<Rightarrow> nat \<Rightarrow> string" where
  "error_of A i = (case an_answer A i of Inl err \<Rightarrow> err | Inr r \<Rightarrow> [])"

text \<open>The answer of a call: of the last provider asked, or that all failed.\<close>

lemma tried_Cons:
  "co_tried (complete_loop A force i now errors (e # es)) =
     (if tripped now (ce_state e) \<and> \<not> (force \<and> i = 0) then co_tried (complete_loop A force (Suc i) now errors es)
      else if passes_on A i
      then i # co_tried (complete_loop A force (Suc i) (instant_add now (an_took A i)) (errors @ [error_entry (ce_provider e) (error_of A i)]) es)
      else [i])"
  by (cases "is_tripped now (ce_state e)"; cases "an_answer A i") (auto simp: tripped_def passes_on_def error_of_def Let_def)

lemma result_Cons:
  "co_result (complete_loop A force i now errors (e # es)) =
     (if tripped now (ce_state e) \<and> \<not> (force \<and> i = 0) then co_result (complete_loop A force (Suc i) now errors es)
      else if passes_on A i
      then co_result (complete_loop A force (Suc i) (instant_add now (an_took A i)) (errors @ [error_entry (ce_provider e) (error_of A i)]) es)
      else an_answer A i)"
  by (cases "is_tripped now (ce_state e)"; cases "an_answer A i") (auto simp: tripped_def passes_on_def error_of_def Let_def)

declare complete_loop.simps(2) [simp del]

lemma tried_range: "list_all (\<lambda>i. k \<le> i \<and> i < k + length es) (co_tried (complete_loop A force k now errors es))"
proof (induction es arbitrary: k now errors)
  case (Cons e es)
  have "list_all (\<lambda>i. k < i \<and> i < k + Suc (length es)) (co_tried (complete_loop A force (Suc k) now' errs es))" for now' errs
    using Cons.IH [of "Suc k" now' errs] by (rule list.pred_mono_strong) auto
  then show ?case by (auto simp: tried_Cons list_all_iff less_imp_le)
qed simp

lemma tried_later: "i \<in> set (co_tried (complete_loop A force (Suc k) now errors es)) \<Longrightarrow> k < i"
  using tried_range [of "Suc k"] by (fastforce simp: list_all_iff)

lemma tried_rising: "sorted_wrt (<) (co_tried (complete_loop A force k now errors es))"
  by (induction es arbitrary: k now errors) (auto simp: tried_Cons dest: tried_later)

lemma loop_outcome:
  fixes A errors es k
  defines "c now force \<equiv> complete_loop A force k now errors es"
  shows "if list_all (passes_on A) (co_tried (c now force))
    then co_result (c now force) = Inl (all_failed (errors @ map (\<lambda>i. error_entry (ce_provider (es ! (i - k))) (error_of A i)) (co_tried (c now force))))
    else co_result (c now force) = an_answer A (last (co_tried (c now force))) \<and> list_all (passes_on A) (butlast (co_tried (c now force)))"
  unfolding c_def
proof (induction es arbitrary: k now errors)
  case (Cons e es)
  have shift: "map (\<lambda>i. error_entry (ce_provider ((e # es) ! (i - k))) (error_of A i)) (co_tried (complete_loop A force (Suc k) now' errs es)) =
      map (\<lambda>i. error_entry (ce_provider (es ! (i - Suc k))) (error_of A i)) (co_tried (complete_loop A force (Suc k) now' errs es))" for now' errs
    by (rule map_cong) (auto dest!: tried_later simp: nth_Cons')
  let ?later = "complete_loop A force (Suc k) (instant_add now (an_took A k)) (errors @ [error_entry (ce_provider e) (error_of A k)]) es"
  show ?case
  proof (cases "tripped now (ce_state e) \<and> \<not> (force \<and> k = 0)")
    case True
    then show ?thesis using Cons.IH [of "Suc k" now errors] by (simp add: tried_Cons result_Cons shift)
  next
    case False
    show ?thesis
    proof (cases "passes_on A k")
      case True
      then show ?thesis using False Cons.IH [of "Suc k" "instant_add now (an_took A k)" "errors @ [error_entry (ce_provider e) (error_of A k)]"]
        by (cases "co_tried ?later = []") (auto simp: tried_Cons result_Cons shift)
    next
      case noPass: False
      then show ?thesis using False by (auto simp: tried_Cons result_Cons)
    qed
  qed
qed simp

text \<open>Which providers are asked, as far as the call gets.\<close>

definition reached :: "'r answers \<Rightarrow> nat list \<Rightarrow> nat \<Rightarrow> bool" where
  "reached A tried i \<longleftrightarrow> list_all (passes_on A) tried \<or> i \<le> last tried"

lemma asked_at_Cons: "k < i \<Longrightarrow> asked_at took now (k # ks) i = asked_at took (instant_add now (took k)) ks i"
  by (simp add: asked_at_def instant_add_def)

lemma loop_asks:
  assumes "k \<le> i" "i < k + length es" "reached A (co_tried (complete_loop A force k now errors es)) i"
  shows "i \<in> set (co_tried (complete_loop A force k now errors es)) \<longleftrightarrow>
    \<not> tripped (asked_at (an_took A) now (co_tried (complete_loop A force k now errors es)) i) (ce_state (es ! (i - k))) \<or> (force \<and> i = 0)"
  using assms
proof (induction es arbitrary: k now errors)
  case (Cons e es)
  let ?skip = "complete_loop A force (Suc k) now errors es"
  let ?later = "complete_loop A force (Suc k) (instant_add now (an_took A k)) (errors @ [error_entry (ce_provider e) (error_of A k)]) es"
  have none: "filter (\<lambda>j. j < k) (co_tried (complete_loop A force (Suc k) now' errs es)) = []" for now' errs
    by (auto simp: filter_empty_conv dest: tried_later)
  show ?case
  proof (cases "i = k")
    case True
    then show ?thesis using none [of now errors] none [of "instant_add now (an_took A k)"]
      by (auto simp: tried_Cons asked_at_def instant_add_def dest: tried_later)
  next
    case False
    then have i: "Suc k \<le> i" "i < Suc k + length es" "(e # es) ! (i - k) = es ! (i - Suc k)" using Cons.prems by (auto simp: nth_Cons')
    consider "tripped now (ce_state e) \<and> \<not> (force \<and> k = 0)" | "\<not> (tripped now (ce_state e) \<and> \<not> (force \<and> k = 0))" "passes_on A k"
      | "\<not> (tripped now (ce_state e) \<and> \<not> (force \<and> k = 0))" "\<not> passes_on A k" by blast
    then show ?thesis
    proof cases
      case 1
      then show ?thesis using Cons.IH [OF i(1,2), of now errors] Cons.prems(3) i by (simp add: tried_Cons)
    next
      case 2
      then have "reached A (co_tried ?later) i" using Cons.prems(3) i(1) by (auto simp: reached_def tried_Cons split: if_splits)
      moreover have "co_tried (complete_loop A force k now errors (e # es)) = k # co_tried ?later" using 2 by (auto simp: tried_Cons)
      ultimately show ?thesis
        using Cons.IH [OF i(1,2), of "instant_add now (an_took A k)" "errors @ [error_entry (ce_provider e) (error_of A k)]"] i False
        by (simp add: asked_at_Cons)
    next
      case 3
      then have "co_tried (complete_loop A force k now errors (e # es)) = [k]" by (auto simp: tried_Cons)
      then show ?thesis using Cons.prems(3) 3(2) i(1) by (simp add: reached_def)
    qed
  qed
qed simp

lemma loop_asks_someone:
  assumes "\<not> list_all (\<lambda>e. tripped now (ce_state e)) es \<or> (force \<and> k = 0)" "es \<noteq> []"
  shows "co_tried (complete_loop A force k now errors es) \<noteq> []"
  using assms
proof (induction es arbitrary: k)
  case (Cons e es)
  then show ?case by (cases "es = []") (auto simp: tried_Cons)
qed simp

text \<open>C28: A call to the chain asks providers in their order, each at most once, and always at least one if there is any. As far as the call
  gets, it asks exactly the providers whose breaker is closed at that moment, which is open after three failures in a row for a minute after
  the last, and the primary when every breaker is open. The answer is that of the last provider asked, and all before it failed with an error that is
  passed on; if the last did too, the error names the failures of all providers asked, in their order.\<close>

theorem chain_asks_in_order:
  assumes "chain \<noteq> []"
  shows "case complete A now chain of c \<Rightarrow>
    co_tried c \<noteq> [] \<and> sorted_wrt (<) (co_tried c) \<and>
    (if list_all (passes_on A) (co_tried c)
     then co_result c = Inl (all_failed (map (\<lambda>i. error_entry (ce_provider (chain ! i)) (error_of A i)) (co_tried c)))
     else co_result c = an_answer A (last (co_tried c)) \<and> list_all (passes_on A) (butlast (co_tried c))) \<and>
    (\<forall>i<length chain. reached A (co_tried c) i \<longrightarrow>
       (i \<in> set (co_tried c) \<longleftrightarrow>
          \<not> tripped (asked_at (an_took A) now (co_tried c) i) (ce_state (chain ! i)) \<or>
          (i = 0 \<and> list_all (\<lambda>e. tripped now (ce_state e)) chain)))"
proof -
  obtain force es where ft: "all_tripped now chain = (force, es)" by fastforce
  have force: "force \<longleftrightarrow> list_all (\<lambda>e. tripped now (ce_state e)) chain" and len: "length es = length chain"
    and prov: "map ce_provider es = map ce_provider chain"
    using all_tripped_iff [of now chain] all_tripped_length [of now chain] all_tripped_provider [of now chain] ft by simp_all
  let ?c = "complete_loop A force 0 now [] es"
  have c: "complete A now chain = ?c" by (simp add: complete_def ft)
  have same: "tripped later (ce_state (es ! i)) \<longleftrightarrow> tripped later (ce_state (chain ! i))" if "now \<le> later" "i < length chain" for later i
    using all_tripped_state [OF that] ft by simp
  have "list_all (\<lambda>e. tripped now (ce_state e)) es \<longleftrightarrow> list_all (\<lambda>e. tripped now (ce_state e)) chain"
    using same [of now] len by (auto simp: list_all_length)
  then have some: "co_tried ?c \<noteq> []" using assms len force by (intro loop_asks_someone) auto
  have name: "ce_provider (es ! i) = ce_provider (chain ! i)" if "i < length chain" for i
    using prov len that by (metis nth_map)
  have names: "map (\<lambda>i. error_entry (ce_provider (es ! i)) (error_of A i)) (co_tried ?c) =
      map (\<lambda>i. error_entry (ce_provider (chain ! i)) (error_of A i)) (co_tried ?c)"
    using tried_range [of 0 es A force now "[]"] len by (intro map_cong) (auto simp: list_all_iff name)
  have asks: "i \<in> set (co_tried ?c) \<longleftrightarrow> \<not> tripped (asked_at (an_took A) now (co_tried ?c) i) (ce_state (chain ! i)) \<or>
      (i = 0 \<and> list_all (\<lambda>e. tripped now (ce_state e)) chain)" if "i < length chain" "reached A (co_tried ?c) i" for i
  proof -
    have "now \<le> asked_at (an_took A) now (co_tried ?c) i" by (simp add: asked_at_def instant_add_def)
    from same [OF this that(1)] loop_asks [of 0 i es A force now "[]"] that len force show ?thesis by auto
  qed
  have "if list_all (passes_on A) (co_tried ?c)
     then co_result ?c = Inl (all_failed (map (\<lambda>i. error_entry (ce_provider (chain ! i)) (error_of A i)) (co_tried ?c)))
     else co_result ?c = an_answer A (last (co_tried ?c)) \<and> list_all (passes_on A) (butlast (co_tried ?c))"
    using loop_outcome [where A = A and errors = "[]" and es = es and k = 0 and force = force and now = now] by (simp only: diff_zero append_Nil names)
  then show ?thesis using some tried_rising [of A force 0 now "[]" es] asks unfolding c by blast
qed

definition busy_primary :: "nat answers" where
  "busy_primary = \<lparr>an_answer = \<lambda>i. if i = 0 then Inl ''HTTP 429'' else Inr 42, an_took = \<lambda>_. 5\<rparr>"

definition two_providers :: "chain_entry list" where
  "two_providers = new_chain [\<lparr>pi_provider = ''a'', pi_model = ''m''\<rparr>, \<lparr>pi_provider = ''b'', pi_model = ''n''\<rparr>]"

lemma busy_passes_on: "passes_on busy_primary 0" "\<not> passes_on busy_primary (Suc 0)"
proof -
  have "should_failover (classify_error ''HTTP 429'')" by code_simp
  then show "passes_on busy_primary 0" "\<not> passes_on busy_primary (Suc 0)" by (simp_all add: passes_on_def busy_primary_def)
qed

lemma busy_tried: "co_tried (complete busy_primary 0 two_providers) = [0, Suc 0]"
  by (simp add: complete_def two_providers_def new_chain_def new_breaker_def is_tripped_def tried_Cons tripped_iff busy_passes_on)

theorem chain_asks_in_order_witness:
  "co_tried (complete busy_primary 0 two_providers) = [0, 1] \<and> co_result (complete busy_primary 0 two_providers) = Inr 42"
  using chain_asks_in_order [of two_providers busy_primary 0] busy_passes_on
  unfolding busy_tried by (simp add: two_providers_def new_chain_def) (simp add: busy_primary_def)

text \<open>Between the look at all breakers and the loop another call can open the breakers that were closed: then nobody is asked.\<close>

lemma nobody_asked:
  "list_all (\<lambda>e. tripped now (ce_state e)) es \<Longrightarrow> co_tried (complete_loop A False k now errors es) = []"
  by (induction es arbitrary: k) (auto simp: tried_Cons)

section \<open>What a client of a stream hears\<close>

definition is_terminal :: "'f stream_event \<Rightarrow> bool" where
  "is_terminal ev \<longleftrightarrow> (case ev of Done u \<Rightarrow> True | StreamError err \<Rightarrow> True | _ \<Rightarrow> False)"

definition is_raw :: "'f stream_event \<Rightarrow> bool" where
  "is_raw ev \<longleftrightarrow> (case ev of ProviderRaw r \<Rightarrow> True | _ \<Rightarrow> False)"

text \<open>A stream up to its first terminal event, and that event, or the error for a stream without one.\<close>

definition heard :: "'f stream_event list \<Rightarrow> 'f stream_event list" where
  "heard evs = takeWhile (\<lambda>ev. \<not> is_terminal ev) evs"

definition closing :: "'f stream_event list \<Rightarrow> 'f stream_event" where
  "closing evs = (case dropWhile (\<lambda>ev. \<not> is_terminal ev) evs of [] \<Rightarrow> StreamError NO_TERMINAL | ev # _ \<Rightarrow> ev)"

definition gave_up :: "'f stream_event list \<Rightarrow> bool" where
  "gave_up evs \<longleftrightarrow> list_all is_raw (heard evs) \<and> (case closing evs of StreamError err \<Rightarrow> should_failover (classify_error err) | _ \<Rightarrow> False)"

definition closing_error :: "'f stream_event list \<Rightarrow> string" where
  "closing_error evs = (case closing evs of StreamError err \<Rightarrow> err | _ \<Rightarrow> [])"

lemma no_terminal_fails_over: "should_failover (classify_error NO_TERMINAL)"
  by code_simp

lemma is_terminal_simps [simp]:
  "is_terminal (Done u)" "is_terminal (StreamError err)" "\<not> is_terminal (Delta t)" "\<not> is_terminal (ProviderRaw r)" "\<not> is_terminal (ReasoningDelta t)"
  "\<not> is_terminal (ToolCallStart a n k m)" "\<not> is_terminal (ToolCallArgumentsDelta k t)" "\<not> is_terminal (ToolCallComplete k)"
  by (simp_all add: is_terminal_def)

lemma is_raw_simps [simp]:
  "is_raw (ProviderRaw r)" "\<not> is_raw (Delta t)" "\<not> is_raw (ReasoningDelta t)" "\<not> is_raw (ToolCallStart a n k m)"
  "\<not> is_raw (ToolCallArgumentsDelta k t)" "\<not> is_raw (ToolCallComplete k)"
  by (simp_all add: is_raw_def)

lemma heard_simps [simp]:
  "heard [] = []" "heard (ev # evs) = (if is_terminal ev then [] else ev # heard evs)"
  "closing [] = StreamError NO_TERMINAL" "closing (ev # evs) = (if is_terminal ev then ev else closing evs)"
  by (simp_all add: heard_def closing_def)

lemma gave_up_Nil [simp]: "gave_up []" "closing_error [] = NO_TERMINAL"
  using no_terminal_fails_over by (simp_all add: gave_up_def closing_error_def)

lemma gave_up_Cons [simp]:
  "gave_up (ev # evs) \<longleftrightarrow>
     (case ev of StreamError err \<Rightarrow> should_failover (classify_error err) | Done u \<Rightarrow> False | ProviderRaw r \<Rightarrow> gave_up evs | _ \<Rightarrow> False)"
  by (cases ev) (simp_all add: gave_up_def)

lemma closing_error_Cons [simp]:
  "closing_error (ev # evs) = (case ev of StreamError err \<Rightarrow> err | Done u \<Rightarrow> [] | _ \<Rightarrow> closing_error evs)"
  by (cases ev) (simp_all add: closing_error_def)

lemma attempt_stream_end:
  "snd (attempt_stream p emitted evs) =
     (if \<not> emitted \<and> gave_up evs then FailedOver (closing_error evs) else if \<exists>u. closing evs = Done u then Finished else Stopped)"
proof (induction evs arbitrary: emitted)
  case (Cons ev evs)
  show ?case using Cons.IH [of True] Cons.IH [of emitted] by (cases ev) (simp_all add: split_beta)
qed simp

lemma attempt_stream_heard:
  "untracked (fst (attempt_stream p emitted evs)) = heard evs @ (if \<not> emitted \<and> gave_up evs then [] else [closing evs])"
proof (induction evs arbitrary: emitted)
  case (Cons ev evs)
  show ?case using Cons.IH [of True] Cons.IH [of emitted] by (cases ev) (simp_all add: split_beta)
qed simp

text \<open>The providers that a stream asks are those that a call asks whose answers are an error exactly for the streams that gave up.\<close>

definition as_answers :: "'f streams \<Rightarrow> unit answers" where
  "as_answers S =
     \<lparr>an_answer = \<lambda>i. if gave_up (st_events S i) then Inl (closing_error (st_events S i)) else Inr (), an_took = st_took S\<rparr>"

lemma as_answers_passes_on: "passes_on (as_answers S) i \<longleftrightarrow> gave_up (st_events S i)"
  by (auto simp: passes_on_def as_answers_def gave_up_def closing_error_def split: stream_event.splits)

lemma as_answers_error: "gave_up (st_events S i) \<Longrightarrow> error_of (as_answers S) i = closing_error (st_events S i)"
  by (simp add: error_of_def as_answers_def)

lemma untracked_append [simp]: "untracked (xs @ ys) = untracked xs @ untracked ys"
  by (induction xs rule: untracked.induct) auto

lemma stream_Cons:
  "sd_tried (stream_loop S force i now errors (e # es)) =
     (if tripped now (ce_state e) \<and> \<not> (force \<and> i = 0) then sd_tried (stream_loop S force (Suc i) now errors es)
      else if gave_up (st_events S i)
      then i # sd_tried (stream_loop S force (Suc i) (instant_add now (st_took S i))
        (errors @ [error_entry (ce_provider e) (closing_error (st_events S i))]) es)
      else [i])"
  "untracked (sd_events (stream_loop S force i now errors (e # es))) =
     (if tripped now (ce_state e) \<and> \<not> (force \<and> i = 0) then untracked (sd_events (stream_loop S force (Suc i) now errors es))
      else if gave_up (st_events S i)
      then heard (st_events S i) @ untracked (sd_events (stream_loop S force (Suc i) (instant_add now (st_took S i))
        (errors @ [error_entry (ce_provider e) (closing_error (st_events S i))]) es))
      else heard (st_events S i) @ [closing (st_events S i)])"
proof -
  obtain out r where out: "attempt_stream (ce_provider e) False (st_events S i) = (out, r)" by fastforce
  have r: "r = (if gave_up (st_events S i) then FailedOver (closing_error (st_events S i))
      else if \<exists>u. closing (st_events S i) = Done u then Finished else Stopped)"
    using attempt_stream_end [of "ce_provider e" False "st_events S i"] out by simp
  have u: "untracked out = heard (st_events S i) @ (if gave_up (st_events S i) then [] else [closing (st_events S i)])"
    using attempt_stream_heard [of "ce_provider e" False "st_events S i"] out by simp
  show "sd_tried (stream_loop S force i now errors (e # es)) =
     (if tripped now (ce_state e) \<and> \<not> (force \<and> i = 0) then sd_tried (stream_loop S force (Suc i) now errors es)
      else if gave_up (st_events S i)
      then i # sd_tried (stream_loop S force (Suc i) (instant_add now (st_took S i))
        (errors @ [error_entry (ce_provider e) (closing_error (st_events S i))]) es)
      else [i])"
    by (cases "is_tripped now (ce_state e)") (auto simp: tripped_def out r Let_def)
  show "untracked (sd_events (stream_loop S force i now errors (e # es))) =
     (if tripped now (ce_state e) \<and> \<not> (force \<and> i = 0) then untracked (sd_events (stream_loop S force (Suc i) now errors es))
      else if gave_up (st_events S i)
      then heard (st_events S i) @ untracked (sd_events (stream_loop S force (Suc i) (instant_add now (st_took S i))
        (errors @ [error_entry (ce_provider e) (closing_error (st_events S i))]) es))
      else heard (st_events S i) @ [closing (st_events S i)])"
    by (cases "is_tripped now (ce_state e)") (auto simp: tripped_def out r u Let_def)
qed

declare stream_loop.simps(2) [simp del]

lemma stream_asks: "sd_tried (stream_loop S force k now errors es) = co_tried (complete_loop (as_answers S) force k now errors es)"
proof (induction es arbitrary: k now errors)
  case (Cons e es)
  have "an_took (as_answers S) = st_took S" by (simp add: as_answers_def)
  then show ?case using Cons.IH by (auto simp: stream_Cons tried_Cons as_answers_passes_on as_answers_error)
qed simp

lemma stream_heard:
  fixes S errors es k
  defines "c now force \<equiv> stream_loop S force k now errors es"
  shows "untracked (sd_events (c now force)) = concat (map (\<lambda>i. heard (st_events S i)) (sd_tried (c now force))) @
    [if list_all (\<lambda>i. gave_up (st_events S i)) (sd_tried (c now force))
     then StreamError (all_failed (errors @ map (\<lambda>i. error_entry (ce_provider (es ! (i - k))) (closing_error (st_events S i))) (sd_tried (c now force))))
     else closing (st_events S (last (sd_tried (c now force))))]"
  unfolding c_def
proof (induction es arbitrary: k now errors)
  case (Cons e es)
  have shift: "map (\<lambda>i. error_entry (ce_provider ((e # es) ! (i - k))) (closing_error (st_events S i))) (sd_tried (stream_loop S force (Suc k) now' errs es)) =
      map (\<lambda>i. error_entry (ce_provider (es ! (i - Suc k))) (closing_error (st_events S i))) (sd_tried (stream_loop S force (Suc k) now' errs es))" for now' errs
    by (rule map_cong) (auto simp: stream_asks nth_Cons' dest!: tried_later)
  let ?errs = "errors @ [error_entry (ce_provider e) (closing_error (st_events S k))]"
  let ?later = "stream_loop S force (Suc k) (instant_add now (st_took S k)) ?errs es"
  consider "tripped now (ce_state e) \<and> \<not> (force \<and> k = 0)" | "\<not> (tripped now (ce_state e) \<and> \<not> (force \<and> k = 0))" "gave_up (st_events S k)"
    | "\<not> (tripped now (ce_state e) \<and> \<not> (force \<and> k = 0))" "\<not> gave_up (st_events S k)" by blast
  then show ?case
  proof cases
    case 1
    then show ?thesis using Cons.IH [of "Suc k" now errors] by (simp add: stream_Cons shift)
  next
    case 2
    then have "sd_tried (stream_loop S force k now errors (e # es)) = k # sd_tried ?later"
      "untracked (sd_events (stream_loop S force k now errors (e # es))) = heard (st_events S k) @ untracked (sd_events ?later)"
      by (auto simp: stream_Cons)
    then show ?thesis using 2(2) Cons.IH [of "Suc k" "instant_add now (st_took S k)" ?errs]
      by (cases "sd_tried ?later = []") (auto simp: shift)
  next
    case 3
    then have "sd_tried (stream_loop S force k now errors (e # es)) = [k]"
      "untracked (sd_events (stream_loop S force k now errors (e # es))) = heard (st_events S k) @ [closing (st_events S k)]"
      by (auto simp: stream_Cons)
    then show ?thesis using 3(2) by simp
  qed
qed simp

text \<open>C29: A stream has one voice. Its client gets the events of the providers that were asked, each up to its first terminal event, and then exactly
  one terminal event; every provider before the last gave up, which means that it streamed nothing but raw payloads and failed with
  an error that is passed on. So the text and the tool calls all come from the last provider, and a provider whose output the client has seen is never
  replaced. The terminal event is that of the last provider, or the error that names the failures of all.\<close>

theorem stream_has_one_voice:
  assumes "chain \<noteq> []"
  shows "case failover_stream S now chain of c \<Rightarrow>
    sd_tried c \<noteq> [] \<and> sorted_wrt (<) (sd_tried c) \<and> list_all (\<lambda>i. gave_up (st_events S i)) (butlast (sd_tried c)) \<and>
    untracked (sd_events c) = concat (map (\<lambda>i. heard (st_events S i)) (sd_tried c)) @
      [if list_all (\<lambda>i. gave_up (st_events S i)) (sd_tried c)
       then StreamError (all_failed (map (\<lambda>i. error_entry (ce_provider (chain ! i)) (closing_error (st_events S i))) (sd_tried c)))
       else closing (st_events S (last (sd_tried c)))]"
proof -
  obtain force es where ft: "all_tripped now chain = (force, es)" by fastforce
  have len: "length es = length chain" and prov: "map ce_provider es = map ce_provider chain"
    and force: "force \<longleftrightarrow> list_all (\<lambda>e. tripped now (ce_state e)) chain"
    using all_tripped_length [of now chain] all_tripped_provider [of now chain] all_tripped_iff [of now chain] ft by simp_all
  let ?c = "stream_loop S force 0 now [] es" and ?a = "complete_loop (as_answers S) force 0 now [] es"
  have c: "failover_stream S now chain = ?c" by (simp add: failover_stream_def ft)
  have "list_all (\<lambda>e. tripped now (ce_state e)) es \<longleftrightarrow> list_all (\<lambda>e. tripped now (ce_state e)) chain"
    using all_tripped_state [of now now _ chain] ft len by (auto simp: list_all_length)
  then have some: "sd_tried ?c \<noteq> []" unfolding stream_asks using assms len force by (intro loop_asks_someone) auto
  have "list_all (passes_on (as_answers S)) (butlast (co_tried ?a))"
    using loop_outcome [where A = "as_answers S" and errors = "[]" and es = es and k = 0 and force = force and now = now]
    by (auto simp: list_all_iff dest: in_set_butlastD split: if_splits)
  then have before: "list_all (\<lambda>i. gave_up (st_events S i)) (butlast (sd_tried ?c))"
    by (simp add: stream_asks as_answers_passes_on [abs_def] list_all_iff)
  have "ce_provider (es ! i) = ce_provider (chain ! i)" if "i \<in> set (sd_tried ?c)" for i
    using that tried_range [of 0 es "as_answers S" force now "[]"] prov len by (metis (no_types, lifting) add_0 list_all_iff nth_map stream_asks)
  then have names: "map (\<lambda>i. error_entry (ce_provider (es ! i)) (closing_error (st_events S i))) (sd_tried ?c) =
      map (\<lambda>i. error_entry (ce_provider (chain ! i)) (closing_error (st_events S i))) (sd_tried ?c)" by simp
  have "sorted_wrt (<) (sd_tried ?c)" unfolding stream_asks by (rule tried_rising)
  moreover note stream_heard [where S = S and errors = "[]" and es = es and k = 0 and force = force and now = now, unfolded diff_zero append_Nil names]
  ultimately show ?thesis using some before unfolding c by blast
qed

definition cut_primary :: "unit streams" where
  "cut_primary = \<lparr>st_events = \<lambda>i. if i = 0 then [ProviderRaw Null] else [Delta ''hi'', Done \<lparr>input_tokens = 1, output_tokens = 1, cache_read_tokens = 0,
     cache_write_tokens = 0\<rparr>], st_took = \<lambda>_. 5\<rparr>"

lemma cut_tried: "sd_tried (failover_stream cut_primary 0 two_providers) = [0, Suc 0]"
  by (simp add: failover_stream_def two_providers_def new_chain_def new_breaker_def is_tripped_def stream_Cons tripped_iff cut_primary_def)

theorem stream_has_one_voice_witness:
  "untracked (sd_events (failover_stream cut_primary 0 two_providers)) =
     [ProviderRaw Null, Delta ''hi'', Done \<lparr>input_tokens = 1, output_tokens = 1, cache_read_tokens = 0, cache_write_tokens = 0\<rparr>]"
proof -
  have "two_providers \<noteq> []" by (simp add: two_providers_def new_chain_def)
  from stream_has_one_voice [OF this, of cut_primary 0] show ?thesis unfolding cut_tried by (simp add: cut_primary_def)
qed

section \<open>What the breakers do not mean to do\<close>

text \<open>An error that is the caller's, such as a prompt that is too long, counts against the provider: three of them and it is skipped.\<close>

lemma callers_errors_open_the_breaker:
  fixes A :: "nat answers" and e
  defines "A \<equiv> \<lparr>an_answer = \<lambda>_. Inl ''maximum context length'', an_took = \<lambda>_. 1\<rparr>"
  defines "again \<equiv> \<lambda>chain now. co_chain (complete A now chain)"
  shows "\<not> should_failover (classify_error ''maximum context length'') \<and>
    tripped 3 (ce_state (hd (again (again (again (new_chain [p, q]) 0) 1) 2)))"
proof -
  have kind: "\<not> should_failover (classify_error ''maximum context length'')" by code_simp
  have chain: "co_chain (complete_loop A f 0 now [] (e # es)) =
      e\<lparr>ce_state := record_failure (now + 1) (snd (is_tripped now (ce_state e)))\<rparr> # es" if "\<not> tripped now (ce_state e)" for f now e es
    using that kind by (cases "is_tripped now (ce_state e)") (simp add: complete_loop.simps(2) tripped_def A_def instant_add_def)
  have step: "again (e # es) now = e\<lparr>ce_state := record_failure (now + 1) (ce_state e)\<rparr> # es" if "failures (ce_state e) < 3" for e es now
    using that by (simp add: again_def complete_def is_tripped_def chain tripped_iff)
  show ?thesis using kind by (simp add: step new_chain_def new_breaker_def record_failure_def tripped_iff instant_add_def)
qed

text \<open>The chain of embeddings has no such rule for the primary: while all breakers are open it asks nobody.\<close>

lemma embeddings_ask_nobody:
  assumes "list_all (\<lambda>e. tripped now (ce_state e)) (em_chain c)"
  shows "embed A now c = (Inl (all_embedding_failed []), [], c)"
proof -
  have "embed_loop A s now [] offs c = (Inl (all_embedding_failed []), [], c)" if "em_chain c \<noteq> []" for s offs
  proof (induction offs)
    case (Cons off offs)
    let ?i = "(s + off) mod length (em_chain c)"
    have "tripped now (ce_state (em_chain c ! ?i))" using assms that by (simp add: list_all_length)
    then have "is_tripped now (ce_state (em_chain c ! ?i)) = (True, ce_state (em_chain c ! ?i))"
      by (auto simp: tripped_def is_tripped_def split: option.splits if_splits)
    then show ?case using Cons.IH by (simp add: Let_def)
  qed simp
  then show ?thesis by (cases "em_chain c = []") (simp_all add: embed_def)
qed

end
