(* ===== verification/Tool_Registry.thy ===== *)
theory Tool_Registry
  imports Moltis_Prelude Tool_Args "HOL-Library.List_Lexorder" "HOL-Library.Char_ord"
begin

text \<open>
  The registry of tools of an agent run (\<open>crates/agents/src/tool_registry.rs\<close>) and its lazy form, in which the model finds tools with
  \<open>tool_search\<close> and activates them (\<open>crates/agents/src/lazy_tools.rs\<close>).

  A tool is what the registry knows of it: name, description and schema of its parameters. The hash maps are association lists with distinct
  keys in the order of insertion. The set of activated tools is a field of the registry that shares it; the search tool gets it as an argument.
\<close>

section \<open>Tools\<close>

record 'f agent_tool =
  to_name :: string
  to_description :: string
  to_parameters :: "'f json_value"

datatype tool_source = Builtin | Mcp string | Wasm "nat list"

datatype tool_audience = Public | Trusted

fun audience_allows :: "tool_audience \<Rightarrow> tool_audience \<Rightarrow> bool" where
  "audience_allows Trusted required = True"
| "audience_allows Public required = (required = Public)"

fun audience_as_str :: "tool_audience \<Rightarrow> string" where
  "audience_as_str Public = ''public''"
| "audience_as_str Trusted = ''trusted''"

record 'f tool_entry =
  te_tool :: "'f agent_tool"
  te_source :: tool_source
  te_audience :: tool_audience

type_synonym 'f tool_map = "(string \<times> 'f tool_entry) list"

record 'f tool_registry =
  rg_tools :: "'f tool_map"
  rg_activated :: "'f tool_map"

definition new_registry :: "'f tool_registry" where
  "new_registry = \<lparr>rg_tools = [], rg_activated = []\<rparr>"

definition registry_is_empty :: "'f tool_registry \<Rightarrow> bool" where
  "registry_is_empty r \<longleftrightarrow> rg_tools r = [] \<and> rg_activated r = []"

section \<open>Registration\<close>

definition insert_tool :: "'f agent_tool \<Rightarrow> tool_source \<Rightarrow> tool_audience \<Rightarrow> 'f tool_registry \<Rightarrow> 'f tool_registry" where
  "insert_tool t src aud r =
     (if map_of (rg_tools r) (to_name t) \<noteq> None then r
      else r\<lparr>rg_tools := AList.update (to_name t) \<lparr>te_tool = t, te_source = src, te_audience = aud\<rparr> (rg_tools r)\<rparr>)"

definition register_builtin :: "'f agent_tool \<Rightarrow> tool_audience \<Rightarrow> 'f tool_registry \<Rightarrow> 'f tool_registry" where
  "register_builtin t aud r = insert_tool t Builtin aud r"

definition register :: "'f agent_tool \<Rightarrow> 'f tool_registry \<Rightarrow> 'f tool_registry" where
  "register t r = register_builtin t Trusted r"

definition register_public :: "'f agent_tool \<Rightarrow> 'f tool_registry \<Rightarrow> 'f tool_registry" where
  "register_public t r = register_builtin t Public r"

definition register_mcp :: "'f agent_tool \<Rightarrow> string \<Rightarrow> 'f tool_registry \<Rightarrow> 'f tool_registry" where
  "register_mcp t server r = insert_tool t (Mcp server) Trusted r"

definition register_wasm :: "'f agent_tool \<Rightarrow> nat list \<Rightarrow> 'f tool_registry \<Rightarrow> 'f tool_registry" where
  "register_wasm t component_hash r = insert_tool t (Wasm component_hash) Trusted r"

definition replace_tool :: "'f agent_tool \<Rightarrow> 'f tool_registry \<Rightarrow> bool \<times> 'f tool_registry" where
  "replace_tool t r =
     (let (src, aud) = (case map_of (rg_tools r) (to_name t) of Some e \<Rightarrow> (te_source e, te_audience e) | None \<Rightarrow> (Builtin, Trusted)) in
      (map_of (rg_tools r) (to_name t) \<noteq> None,
       r\<lparr>rg_tools := AList.update (to_name t) \<lparr>te_tool = t, te_source = src, te_audience = aud\<rparr> (rg_tools r)\<rparr>))"

definition unregister :: "string \<Rightarrow> 'f tool_registry \<Rightarrow> bool \<times> 'f tool_registry" where
  "unregister name r = (map_of (rg_tools r) name \<noteq> None, r\<lparr>rg_tools := AList.delete name (rg_tools r)\<rparr>)"

definition is_mcp :: "tool_source \<Rightarrow> bool" where
  "is_mcp src \<longleftrightarrow> (case src of Mcp server \<Rightarrow> True | _ \<Rightarrow> False)"

definition unregister_mcp :: "'f tool_registry \<Rightarrow> nat \<times> 'f tool_registry" where
  "unregister_mcp r =
     (let kept = filter (\<lambda>e. \<not> is_mcp (te_source (snd e))) (rg_tools r) in
      (length (rg_tools r) - length kept, r\<lparr>rg_tools := kept\<rparr>))"

definition extend_from :: "'f tool_registry \<Rightarrow> 'f tool_registry \<Rightarrow> 'f tool_registry" where
  "extend_from other r = r\<lparr>rg_tools := fold (\<lambda>(name, e). AList.update name e) (rg_tools other) (rg_tools r)\<rparr>"

section \<open>Lookup\<close>

definition get_entry :: "string \<Rightarrow> 'f tool_registry \<Rightarrow> 'f tool_entry option" where
  "get_entry name r = (case map_of (rg_tools r) name of Some e \<Rightarrow> Some e | None \<Rightarrow> map_of (rg_activated r) name)"

definition get_tool :: "string \<Rightarrow> 'f tool_registry \<Rightarrow> 'f agent_tool option" where
  "get_tool name r = map_option te_tool (get_entry name r)"

definition get_source :: "string \<Rightarrow> 'f tool_registry \<Rightarrow> tool_source option" where
  "get_source name r = map_option te_source (map_of (rg_tools r) name)"

definition get_audience :: "string \<Rightarrow> 'f tool_registry \<Rightarrow> tool_audience option" where
  "get_audience name r = map_option te_audience (map_of (rg_tools r) name)"

definition is_public_tool_name :: "string \<Rightarrow> bool" where
  "is_public_tool_name name \<longleftrightarrow> \<not> ends_with name ''_wasm''"

definition hex_digit :: "nat \<Rightarrow> char" where
  "hex_digit n = (if n < 10 then char_of (48 + n) else char_of (87 + n))"

definition hex_component_hash :: "nat list \<Rightarrow> string" where
  "hex_component_hash bytes = concat (map (\<lambda>b. [hex_digit (b div 16), hex_digit (b mod 16)]) bytes)"

definition entry_to_schema :: "'f tool_entry \<Rightarrow> 'f json_value" where
  "entry_to_schema e =
     Object ([(''name'', String (to_name (te_tool e))), (''description'', String (to_description (te_tool e))),
       (''parameters'', to_parameters (te_tool e)), (''audience'', String (audience_as_str (te_audience e)))] @
       (case te_source e of
          Builtin \<Rightarrow> [(''source'', String ''builtin'')]
        | Mcp server \<Rightarrow> [(''source'', String ''mcp''), (''mcpServer'', String server)]
        | Wasm h \<Rightarrow> [(''source'', String ''wasm''), (''componentHash'', String (hex_component_hash h))]))"

text \<open>The entries that are listed: the registered ones, then the activated ones that are not registered too.\<close>

definition listed :: "'f tool_registry \<Rightarrow> 'f tool_map" where
  "listed r =
     filter (\<lambda>(name, e). is_public_tool_name name) (rg_tools r) @
     filter (\<lambda>(name, e). map_of (rg_tools r) name = None \<and> is_public_tool_name name) (rg_activated r)"

definition schema_name :: "'f json_value \<Rightarrow> string option" where
  "schema_name schema = Option.bind (Option.bind (as_object schema) (\<lambda>ms. map_of ms ''name'')) as_str"

definition list_schemas :: "'f tool_registry \<Rightarrow> 'f json_value list" where
  "list_schemas r = sort_key (\<lambda>s. case schema_name s of Some n \<Rightarrow> n | None \<Rightarrow> []) (map (\<lambda>(name, e). entry_to_schema e) (listed r))"

definition list_schemas_allowed_by :: "(string \<Rightarrow> bool) \<Rightarrow> 'f tool_registry \<Rightarrow> 'f json_value list" where
  "list_schemas_allowed_by P r = filter (\<lambda>s. case schema_name s of Some n \<Rightarrow> P n | None \<Rightarrow> False) (list_schemas r)"

definition list_names :: "'f tool_registry \<Rightarrow> string list" where
  "list_names r = sort (map fst (listed r))"

section \<open>Filtered copies\<close>

definition filtered_copy :: "(string \<times> 'f tool_entry \<Rightarrow> bool) \<Rightarrow> 'f tool_registry \<Rightarrow> 'f tool_registry" where
  "filtered_copy P r = \<lparr>rg_tools = filter P (rg_tools r), rg_activated = []\<rparr>"

definition clone_without_prefix :: "string \<Rightarrow> 'f tool_registry \<Rightarrow> 'f tool_registry" where
  "clone_without_prefix p r = filtered_copy (\<lambda>(name, e). \<not> starts_with name p) r"

definition clone_without_mcp :: "'f tool_registry \<Rightarrow> 'f tool_registry" where
  "clone_without_mcp r = filtered_copy (\<lambda>(name, e). \<not> is_mcp (te_source e)) r"

definition clone_without :: "string list \<Rightarrow> 'f tool_registry \<Rightarrow> 'f tool_registry" where
  "clone_without exclude r = filtered_copy (\<lambda>(name, e). name \<notin> set exclude) r"

definition clone_allowed_entries :: "(string \<Rightarrow> tool_source \<Rightarrow> bool) \<Rightarrow> 'f tool_registry \<Rightarrow> 'f tool_registry" where
  "clone_allowed_entries P r = filtered_copy (\<lambda>(name, e). P name (te_source e)) r"

definition clone_allowed_by :: "(string \<Rightarrow> bool) \<Rightarrow> 'f tool_registry \<Rightarrow> 'f tool_registry" where
  "clone_allowed_by P r = clone_allowed_entries (\<lambda>name src. P name) r"

definition clone_for_audience :: "tool_audience \<Rightarrow> 'f tool_registry \<Rightarrow> 'f tool_registry" where
  "clone_for_audience aud r = filtered_copy (\<lambda>(name, e). audience_allows aud (te_audience e)) r"

section \<open>Lazy registries\<close>

definition MAX_SEARCH_RESULTS :: nat where "MAX_SEARCH_RESULTS = 15"

definition search_score :: "string \<Rightarrow> 'f agent_tool \<Rightarrow> string \<Rightarrow> nat" where
  "search_score query t name =
     (let q = to_lowercase query; n = to_lowercase name; d = to_lowercase (to_description t) in
      if n = q then 100
      else if contains_sub n q then 50
      else length (filter (\<lambda>w. contains_sub n w \<or> contains_sub d w) (split_whitespace q)) * 10)"

definition keyword_search :: "string \<Rightarrow> 'f tool_registry \<Rightarrow> (string \<times> string \<times> nat) list" where
  "keyword_search query full =
     take MAX_SEARCH_RESULTS (sort_key (\<lambda>(name, d, score). - int score)
       (List.map_filter (\<lambda>name.
          case get_tool name full of
            None \<Rightarrow> None
          | Some t \<Rightarrow>
              (let score = search_score query t name in
               if 0 < score then Some (name, to_description t, score) else None))
        (list_names full)))"

definition search_items :: "(string \<times> string \<times> nat) list \<Rightarrow> 'f json_value" where
  "search_items results = Array (map (\<lambda>(name, d, score). Object [(''name'', String name), (''description'', String d)]) results)"

definition mcp_servers :: "'f tool_registry \<Rightarrow> string list" where
  "mcp_servers full = remdups_adj (sort (List.map_filter (\<lambda>s.
     if Option.bind (Option.bind (as_object s) (\<lambda>ms. map_of ms ''source'')) as_str = Some ''mcp''
     then Option.bind (Option.bind (as_object s) (\<lambda>ms. map_of ms ''mcpServer'')) as_str else None) (list_schemas full)))"

definition SEARCH_HINT :: string where
  "SEARCH_HINT = ''To use a tool, call tool_search again with `name` set to the exact tool name.''"

definition UNKNOWN_HINT :: string where
  "UNKNOWN_HINT = ''The `name` field must be an exact tool name from search results or Available Tools. Skills are not tools. For connected MCP servers, search with query set to the server or domain name, then activate the exact `mcp__<server>__<tool>` name.''"

definition unknown_tool_response :: "string \<Rightarrow> 'f tool_registry \<Rightarrow> 'f json_value" where
  "unknown_tool_response name full =
     Object [(''activated'', Bool False), (''name'', String name), (''error'', String (''unknown tool: '' @ name)),
       (''suggestions'', search_items (keyword_search name full)), (''mcpServers'', Array (map String (mcp_servers full))),
       (''hint'', String UNKNOWN_HINT)]"

definition activate_tool :: "string \<Rightarrow> 'f tool_registry \<Rightarrow> 'f tool_map \<Rightarrow> 'f json_value \<times> 'f tool_map" where
  "activate_tool name full activated =
     (case get_tool name full of
        None \<Rightarrow> (unknown_tool_response name full, activated)
      | Some t \<Rightarrow>
          (let src = (case get_source name full of Some s \<Rightarrow> s | None \<Rightarrow> Builtin);
               aud = (case get_audience name full of Some a \<Rightarrow> a | None \<Rightarrow> Trusted) in
           (Object [(''activated'', Bool True), (''name'', String name), (''description'', String (to_description t)),
              (''parameters'', to_parameters t),
              (''hint'', String (''Tool `'' @ name @ ''` is now available. Call it directly on your next turn.''))],
            AList.update name \<lparr>te_tool = t, te_source = src, te_audience = aud\<rparr> activated)))"

definition member_str :: "string \<Rightarrow> 'f json_value \<Rightarrow> string option" where
  "member_str key v = Option.bind (Option.bind (as_object v) (\<lambda>ms. map_of ms key)) as_str"

definition tool_search_execute :: "'f json_value \<Rightarrow> 'f tool_registry \<Rightarrow> 'f tool_map \<Rightarrow> (string + 'f json_value) \<times> 'f tool_map" where
  "tool_search_execute params full activated =
     (case (member_str ''name'' params, member_str ''query'' params) of
        (Some name, _) \<Rightarrow> (case activate_tool name full activated of (v, activated) \<Rightarrow> (Inr v, activated))
      | (None, Some query) \<Rightarrow>
          (Inr (Object [(''results'', search_items (keyword_search query full)), (''hint'', String SEARCH_HINT)]), activated)
      | (None, None) \<Rightarrow> (Inl ''Provide either `name` (to activate a tool) or `query` (to search).'', activated))"

definition tool_search_tool :: "'f agent_tool" where
  "tool_search_tool =
     \<lparr>to_name = ''tool_search'',
      to_description = ''Search for available tools by keyword, or activate a specific tool by exact name. Use `query` to find tools (returns name + description, max 15 results). Use `name` to activate a tool and get its full parameter schema.'',
      to_parameters = Object [(''type'', String ''object''),
        (''properties'', Object [
          (''query'', Object [(''type'', String ''string''), (''description'', String ''Keyword to search tool names and descriptions'')]),
          (''name'', Object [(''type'', String ''string''), (''description'', String ''Exact tool name to activate (returns full schema)'')])]),
        (''additionalProperties'', Bool False)]\<rparr>"

text \<open>The lazy registry, with the registry it searches, which is none if it is the registry itself.\<close>

definition wrap_registry_lazy :: "'f tool_registry \<Rightarrow> 'f tool_registry" where
  "wrap_registry_lazy full = (if registry_is_empty full then full else register_public tool_search_tool new_registry)"

definition run_tool_search :: "'f tool_registry \<Rightarrow> 'f tool_registry \<Rightarrow> 'f json_value \<Rightarrow> 'f tool_registry" where
  "run_tool_search full lzy params = lzy\<lparr>rg_activated := snd (tool_search_execute params full (rg_activated lzy))\<rparr>"

section \<open>The ceiling of the audience\<close>

text \<open>What is done to a registry between the ceiling and a turn: tools are taken away, and in lazy mode the model searches.\<close>

datatype narrowing = WithoutPrefix string | WithoutMcp | Without "string list" | AllowedBy "string \<Rightarrow> bool"
  | AllowedEntries "string \<Rightarrow> tool_source \<Rightarrow> bool" | ForAudience tool_audience | Unregister string | UnregisterMcp

fun narrow :: "'f tool_registry \<Rightarrow> narrowing \<Rightarrow> 'f tool_registry" where
  "narrow r (WithoutPrefix p) = clone_without_prefix p r"
| "narrow r WithoutMcp = clone_without_mcp r"
| "narrow r (Without names) = clone_without names r"
| "narrow r (AllowedBy P) = clone_allowed_by P r"
| "narrow r (AllowedEntries P) = clone_allowed_entries P r"
| "narrow r (ForAudience aud) = clone_for_audience aud r"
| "narrow r (Unregister name) = snd (unregister name r)"
| "narrow r UnregisterMcp = snd (unregister_mcp r)"

lemmas copy_defs = clone_without_prefix_def clone_without_mcp_def clone_without_def clone_allowed_by_def clone_allowed_entries_def
  clone_for_audience_def filtered_copy_def

lemma narrow_subset: "set (rg_tools (narrow r op)) \<subseteq> set (rg_tools r)" "rg_activated r = [] \<Longrightarrow> rg_activated (narrow r op) = []"
  by (cases op; auto simp: copy_defs unregister_def unregister_mcp_def Let_def AList.delete_eq)+

lemma narrows_subset:
  "set (rg_tools (foldl narrow r ops)) \<subseteq> set (rg_tools r)" "rg_activated r = [] \<Longrightarrow> rg_activated (foldl narrow r ops) = []"
  by (induction ops arbitrary: r) (use narrow_subset in fastforce)+

lemma narrow_distinct: "distinct (map fst (rg_tools r)) \<Longrightarrow> distinct (map fst (rg_tools (narrow r op)))"
  by (cases op) (auto simp: copy_defs unregister_def unregister_mcp_def Let_def AList.delete_eq distinct_map_filter)

lemma narrows_distinct: "distinct (map fst (rg_tools r)) \<Longrightarrow> distinct (map fst (rg_tools (foldl narrow r ops)))"
  by (induction ops arbitrary: r) (auto intro: narrow_distinct)

text \<open>Activation copies an entry of the registry that is searched.\<close>

lemma activate_entry:
  assumes "snd (activate_tool name full act) = act'" "rg_activated full = []" "map_of act' n = Some e"
  shows "map_of act n = Some e \<or> map_of (rg_tools full) n = Some e"
  using assms
  by (auto simp: activate_tool_def get_tool_def get_entry_def get_source_def get_audience_def update_conv' Let_def
      split: option.splits if_splits)

lemma search_entry:
  assumes "rg_activated full = []" "map_of (rg_activated (run_tool_search full lzy params)) n = Some e"
  shows "map_of (rg_activated lzy) n = Some e \<or> map_of (rg_tools full) n = Some e"
proof (cases "member_str ''name'' params")
  case None
  then show ?thesis using assms(2) by (auto simp: run_tool_search_def tool_search_execute_def split: option.splits)
next
  case (Some name)
  then have "map_of (snd (activate_tool name full (rg_activated lzy))) n = Some e"
    using assms(2) by (simp add: run_tool_search_def tool_search_execute_def split_beta)
  from activate_entry [OF refl assms(1) this] show ?thesis .
qed

lemma searches_tools: "rg_tools (foldl (run_tool_search full) lzy ps) = rg_tools lzy"
  by (induction ps arbitrary: lzy) (simp_all add: run_tool_search_def)

lemma searches_entry:
  assumes "rg_activated full = []" "map_of (rg_activated (foldl (run_tool_search full) lzy ps)) n = Some e"
  shows "map_of (rg_activated lzy) n = Some e \<or> map_of (rg_tools full) n = Some e"
  using assms(2)
proof (induction ps arbitrary: lzy)
  case (Cons p ps)
  then have "map_of (rg_activated (run_tool_search full lzy p)) n = Some e \<or> map_of (rg_tools full) n = Some e" by simp
  then show ?case using search_entry [OF assms(1)] by blast
qed simp

lemma narrowed_entry:
  assumes "distinct (map fst (rg_tools r))" "map_of (rg_tools (foldl narrow (clone_for_audience Public r) ops)) n = Some e"
  shows "map_of (rg_tools r) n = Some e \<and> te_audience e = Public"
proof -
  have "(n, e) \<in> set (rg_tools (clone_for_audience Public r))"
    using map_of_SomeD [OF assms(2)] narrows_subset(1) by blast
  then show ?thesis using assms(1) by (auto simp: copy_defs)
qed

text \<open>C30: The audience is a ceiling. After a registry was cut to the public tools, no narrowing by name, source or audience and no search in lazy
  mode gives the turn a tool that was not registered as public: every tool it can look up is, under the same name, an entry that the host
  registered for the public, or the search tool itself.\<close>

theorem audience_is_a_ceiling:
  fixes r :: "'f tool_registry" and ops
  defines "full \<equiv> foldl narrow (clone_for_audience Public r) ops"
  assumes "distinct (map fst (rg_tools r))"
  shows "(get_entry n full = Some e \<longrightarrow> map_of (rg_tools r) n = Some e \<and> te_audience e = Public) \<and>
    (get_entry n (foldl (run_tool_search full) (wrap_registry_lazy full) searches) = Some e \<longrightarrow>
       map_of (rg_tools r) n = Some e \<and> te_audience e = Public \<or> n = ''tool_search'' \<and> te_tool e = tool_search_tool)"
proof -
  let ?lazy = "foldl (run_tool_search full) (wrap_registry_lazy full) searches"
  have act: "rg_activated full = []" unfolding full_def by (rule narrows_subset) (simp add: copy_defs)
  have full: "map_of (rg_tools full) n = Some e \<Longrightarrow> map_of (rg_tools r) n = Some e \<and> te_audience e = Public"
    unfolding full_def by (rule narrowed_entry [OF assms(2)])
  have wrapped: "rg_activated (wrap_registry_lazy full) = []"
    and tools: "map_of (rg_tools (wrap_registry_lazy full)) n = Some e \<Longrightarrow> n = ''tool_search'' \<and> te_tool e = tool_search_tool"
    using act by (auto simp: wrap_registry_lazy_def registry_is_empty_def register_public_def register_builtin_def insert_tool_def new_registry_def
        tool_search_tool_def split: if_splits)
  have "get_entry n full = Some e \<Longrightarrow> map_of (rg_tools full) n = Some e" using act by (simp add: get_entry_def split: option.splits)
  moreover have "get_entry n ?lazy = Some e \<Longrightarrow> map_of (rg_tools (wrap_registry_lazy full)) n = Some e \<or> map_of (rg_tools full) n = Some e"
    using searches_entry [OF act, of "wrap_registry_lazy full" searches n e] wrapped by (auto simp: get_entry_def searches_tools split: option.splits)
  ultimately show ?thesis using full tools by blast
qed

definition plain_tool :: "string \<Rightarrow> unit agent_tool" where
  "plain_tool name = \<lparr>to_name = name, to_description = [], to_parameters = Object []\<rparr>"

definition plain_registry :: "unit tool_registry" where
  "plain_registry = register (plain_tool ''exec'') (register_public (plain_tool ''calc'') new_registry)"

lemma plain_registry_tools:
  "rg_tools plain_registry = [(''calc'', \<lparr>te_tool = plain_tool ''calc'', te_source = Builtin, te_audience = Public\<rparr>),
     (''exec'', \<lparr>te_tool = plain_tool ''exec'', te_source = Builtin, te_audience = Trusted\<rparr>)]"
  by (simp add: plain_registry_def register_def register_public_def register_builtin_def insert_tool_def new_registry_def plain_tool_def)

theorem audience_is_a_ceiling_witness:
  "get_entry ''exec'' (foldl (run_tool_search (clone_for_audience Public plain_registry)) (wrap_registry_lazy (clone_for_audience Public plain_registry))
     [Object [(''name'', String ''exec'')]]) = None" (is "get_entry _ ?r = None")
proof -
  have d: "distinct (map fst (rg_tools plain_registry))" by (simp add: plain_registry_tools)
  have "get_entry ''exec'' ?r \<noteq> Some e" for e
    using audience_is_a_ceiling [OF d, where n = "''exec''" and ops = "[]" and searches = "[Object [(''name'', String ''exec'')]]" and e = e]
    by (auto simp: plain_registry_tools)
  then show ?thesis by fastforce
qed

end
