(* ===== verification/Hooks.thy ===== *)
theory Hooks
  imports Moltis_Prelude Tool_Args "HOL-Library.Multiset" "HOL-Library.List_Lexorder" "HOL-Library.Char_ord"
begin

text \<open>
  Hooks: the registry of handlers that may block or rewrite what the assistant does (\<open>crates/common/src/hooks.rs\<close>), hooks that run a
  shell command (\<open>crates/plugins/src/shell_hook.rs\<close>, \<open>hook_metadata.rs\<close>, \<open>hook_eligibility.rs\<close>), and the registration of the hooks
  that were found (\<open>crates/gateway/src/server/hooks.rs\<close>).

  A handler is a record with its methods; what it answers and how long it takes depends on the event, the payload and the time. The
  statistics of a handler are shared by its entries for all events, so an entry holds an index into one list. Instants and durations of this
  theory count microseconds. A dispatch awaits every handler, so dispatches interleave: \<open>hook_step\<close> makes the moves of all of them, and
  \<open>dispatch\<close> is one that nothing interrupts. Logs are left out.
\<close>

section \<open>Events, payloads and actions\<close>

datatype hook_event =
    EvBeforeAgentStart | EvAgentEnd | EvBeforeLLMCall | EvAfterLLMCall | EvBeforeCompaction | EvAfterCompaction
  | EvMessageReceived | EvMessageSending | EvMessageSent | EvBeforeToolCall | EvAfterToolCall | EvToolResultPersist
  | EvSessionStart | EvSessionEnd | EvGatewayStart | EvGatewayStop | EvCommand

definition ALL_EVENTS :: "hook_event list" where
  "ALL_EVENTS =
     [EvBeforeAgentStart, EvAgentEnd, EvBeforeLLMCall, EvAfterLLMCall, EvBeforeCompaction, EvAfterCompaction,
      EvMessageReceived, EvMessageSending, EvMessageSent, EvBeforeToolCall, EvAfterToolCall, EvToolResultPersist,
      EvSessionStart, EvSessionEnd, EvGatewayStart, EvGatewayStop, EvCommand]"

fun show_event :: "hook_event \<Rightarrow> string" where
  "show_event EvBeforeAgentStart = ''BeforeAgentStart''"
| "show_event EvAgentEnd = ''AgentEnd''"
| "show_event EvBeforeLLMCall = ''BeforeLLMCall''"
| "show_event EvAfterLLMCall = ''AfterLLMCall''"
| "show_event EvBeforeCompaction = ''BeforeCompaction''"
| "show_event EvAfterCompaction = ''AfterCompaction''"
| "show_event EvMessageReceived = ''MessageReceived''"
| "show_event EvMessageSending = ''MessageSending''"
| "show_event EvMessageSent = ''MessageSent''"
| "show_event EvBeforeToolCall = ''BeforeToolCall''"
| "show_event EvAfterToolCall = ''AfterToolCall''"
| "show_event EvToolResultPersist = ''ToolResultPersist''"
| "show_event EvSessionStart = ''SessionStart''"
| "show_event EvSessionEnd = ''SessionEnd''"
| "show_event EvGatewayStart = ''GatewayStart''"
| "show_event EvGatewayStop = ''GatewayStop''"
| "show_event EvCommand = ''Command''"

definition event_from_str :: "string \<Rightarrow> string + hook_event" where
  "event_from_str t =
     (if t = ''BeforeAgentStart'' then Inr EvBeforeAgentStart
      else if t = ''AgentEnd'' then Inr EvAgentEnd
      else if t = ''BeforeLLMCall'' then Inr EvBeforeLLMCall
      else if t = ''AfterLLMCall'' then Inr EvAfterLLMCall
      else if t = ''BeforeCompaction'' then Inr EvBeforeCompaction
      else if t = ''AfterCompaction'' then Inr EvAfterCompaction
      else if t = ''MessageReceived'' then Inr EvMessageReceived
      else if t = ''MessageSending'' then Inr EvMessageSending
      else if t = ''MessageSent'' then Inr EvMessageSent
      else if t = ''BeforeToolCall'' then Inr EvBeforeToolCall
      else if t = ''AfterToolCall'' then Inr EvAfterToolCall
      else if t = ''ToolResultPersist'' then Inr EvToolResultPersist
      else if t = ''SessionStart'' then Inr EvSessionStart
      else if t = ''SessionEnd'' then Inr EvSessionEnd
      else if t = ''GatewayStart'' then Inr EvGatewayStart
      else if t = ''GatewayStop'' then Inr EvGatewayStop
      else if t = ''Command'' then Inr EvCommand
      else Inl (''unknown hook event '' @ [CHR 0x27] @ t @ [CHR 0x27]))"

fun is_read_only :: "hook_event \<Rightarrow> bool" where
  "is_read_only EvAgentEnd = True"
| "is_read_only EvAfterToolCall = True"
| "is_read_only EvMessageSent = True"
| "is_read_only EvAfterCompaction = True"
| "is_read_only EvSessionStart = True"
| "is_read_only EvSessionEnd = True"
| "is_read_only EvGatewayStart = True"
| "is_read_only EvGatewayStop = True"
| "is_read_only EvCommand = True"
| "is_read_only _ = False"

lemma event_round_trip: "event_from_str (show_event e) = Inr e"
  by (cases e) (simp_all add: event_from_str_def)

lemma all_events: "set ALL_EVENTS = UNIV" "distinct ALL_EVENTS"
proof -
  have "e \<in> set ALL_EVENTS" for e by (cases e) (simp_all add: ALL_EVENTS_def)
  then show "set ALL_EVENTS = UNIV" by auto
  show "distinct ALL_EVENTS" by (simp add: ALL_EVENTS_def)
qed

record channel_binding =
  cb_surface :: "string option"
  cb_session_kind :: "string option"
  cb_channel_type :: "string option"
  cb_account_id :: "string option"
  cb_chat_id :: "string option"
  cb_outbound_to :: "string option"
  cb_chat_type :: "string option"
  cb_sender_id :: "string option"

datatype 'f hook_payload =
    BeforeAgentStart string string
  | AgentEnd string string nat nat
  | BeforeLLMCall string string string "'f json_value" nat nat
  | AfterLLMCall string string string "string option" "'f json_value list" nat nat nat
  | BeforeCompaction string nat
  | AfterCompaction string nat
  | MessageReceived string string "string option" "channel_binding option"
  | MessageSending string string
  | MessageSent string string
  | BeforeToolCall string string "'f json_value" "channel_binding option"
  | AfterToolCall string string bool "'f json_value option" "channel_binding option"
  | ToolResultPersist string string "'f json_value" "channel_binding option"
  | SessionStart string "channel_binding option"
  | SessionEnd string
  | GatewayStart string
  | GatewayStop
  | Command string string "string option"

fun payload_event :: "'f hook_payload \<Rightarrow> hook_event" where
  "payload_event (BeforeAgentStart a b) = EvBeforeAgentStart"
| "payload_event (AgentEnd a b c d) = EvAgentEnd"
| "payload_event (BeforeLLMCall a b c d e f) = EvBeforeLLMCall"
| "payload_event (AfterLLMCall a b c d e f g h) = EvAfterLLMCall"
| "payload_event (BeforeCompaction a b) = EvBeforeCompaction"
| "payload_event (AfterCompaction a b) = EvAfterCompaction"
| "payload_event (MessageReceived a b c d) = EvMessageReceived"
| "payload_event (MessageSending a b) = EvMessageSending"
| "payload_event (MessageSent a b) = EvMessageSent"
| "payload_event (BeforeToolCall a b c d) = EvBeforeToolCall"
| "payload_event (AfterToolCall a b c d e) = EvAfterToolCall"
| "payload_event (ToolResultPersist a b c d) = EvToolResultPersist"
| "payload_event (SessionStart a b) = EvSessionStart"
| "payload_event (SessionEnd a) = EvSessionEnd"
| "payload_event (GatewayStart a) = EvGatewayStart"
| "payload_event GatewayStop = EvGatewayStop"
| "payload_event (Command a b c) = EvCommand"

datatype 'f hook_action = HookContinue | HookBlock string | ModifyPayload "'f json_value"

section \<open>Handlers and their statistics\<close>

record 'f hook_handler =
  hh_name :: string
  hh_events :: "hook_event list"
  hh_priority :: int
  hh_handle :: "hook_event \<Rightarrow> 'f hook_payload \<Rightarrow> instant \<Rightarrow> (string + 'f hook_action) \<times> duration"
  hh_handle_sync :: "hook_event \<Rightarrow> 'f hook_payload \<Rightarrow> instant \<Rightarrow> (string + 'f hook_action) \<times> duration"

record hook_stats =
  call_count :: nat
  failure_count :: nat
  consecutive_failures :: nat
  total_latency_us :: nat
  hs_disabled :: bool
  disabled_at :: "instant option"

definition new_stats :: hook_stats where
  "new_stats = \<lparr>call_count = 0, failure_count = 0, consecutive_failures = 0, total_latency_us = 0, hs_disabled = False, disabled_at = None\<rparr>"

definition fetch_add :: "nat \<Rightarrow> nat \<Rightarrow> nat" where
  "fetch_add a b = (a + b) mod 2 ^ 64"

definition stats_success :: "duration \<Rightarrow> hook_stats \<Rightarrow> hook_stats" where
  "stats_success latency st =
     st\<lparr>call_count := fetch_add (call_count st) 1, consecutive_failures := 0,
        total_latency_us := fetch_add (total_latency_us st) latency\<rparr>"

definition stats_failure :: "duration \<Rightarrow> hook_stats \<Rightarrow> hook_stats" where
  "stats_failure latency st =
     st\<lparr>call_count := fetch_add (call_count st) 1, failure_count := fetch_add (failure_count st) 1,
        consecutive_failures := fetch_add (consecutive_failures st) 1,
        total_latency_us := fetch_add (total_latency_us st) latency\<rparr>"

definition avg_latency :: "hook_stats \<Rightarrow> duration" where
  "avg_latency st = (if call_count st = 0 then 0 else total_latency_us st div call_count st)"

section \<open>The registry\<close>

record 'f handler_entry =
  he_handler :: "'f hook_handler"
  he_stats :: nat

record 'f hook_registry =
  hr_handlers :: "hook_event \<rightharpoonup> 'f handler_entry list"
  hr_stats :: "hook_stats list"
  circuit_breaker_threshold :: nat
  circuit_breaker_cooldown :: duration
  dry_run :: bool

definition new_hook_registry :: "'f hook_registry" where
  "new_hook_registry =
     \<lparr>hr_handlers = Map.empty, hr_stats = [], circuit_breaker_threshold = 3, circuit_breaker_cooldown = 60000000, dry_run = False\<rparr>"

definition with_circuit_breaker :: "nat \<Rightarrow> duration \<Rightarrow> 'f hook_registry \<Rightarrow> 'f hook_registry" where
  "with_circuit_breaker threshold cooldown r = r\<lparr>circuit_breaker_threshold := threshold, circuit_breaker_cooldown := cooldown\<rparr>"

definition with_dry_run :: "bool \<Rightarrow> 'f hook_registry \<Rightarrow> 'f hook_registry" where
  "with_dry_run b r = r\<lparr>dry_run := b\<rparr>"

definition entries_for :: "'f hook_registry \<Rightarrow> hook_event \<Rightarrow> 'f handler_entry list" where
  "entries_for r ev = (case hr_handlers r ev of Some es \<Rightarrow> es | None \<Rightarrow> [])"

definition by_priority :: "'f handler_entry list \<Rightarrow> 'f handler_entry list" where
  "by_priority es = sort_key (\<lambda>e. - hh_priority (he_handler e)) es"

definition push_entry :: "'f handler_entry \<Rightarrow> 'f hook_registry \<Rightarrow> hook_event \<Rightarrow> 'f hook_registry" where
  "push_entry e r ev = r\<lparr>hr_handlers := (hr_handlers r)(ev \<mapsto> by_priority (entries_for r ev @ [e]))\<rparr>"

definition register_hook :: "'f hook_registry \<Rightarrow> 'f hook_handler \<Rightarrow> 'f hook_registry" where
  "register_hook r h =
     (let i = length (hr_stats r) in
      foldl (push_entry \<lparr>he_handler = h, he_stats = i\<rparr>) (r\<lparr>hr_stats := hr_stats r @ [new_stats]\<rparr>) (hh_events h))"

definition has_handlers :: "'f hook_registry \<Rightarrow> hook_event \<Rightarrow> bool" where
  "has_handlers r ev = (case hr_handlers r ev of Some es \<Rightarrow> es \<noteq> [] | None \<Rightarrow> False)"

text \<open>\<open>values()\<close> of a hash map has no order of its own: \<open>order\<close> is the one in which it yields the events.\<close>

definition all_entries :: "hook_event list \<Rightarrow> 'f hook_registry \<Rightarrow> 'f handler_entry list" where
  "all_entries order r = concat (map (entries_for r) order)"

definition handler_stats :: "hook_event list \<Rightarrow> string \<Rightarrow> 'f hook_registry \<Rightarrow> hook_stats option" where
  "handler_stats order name r =
     map_option (\<lambda>e. hr_stats r ! he_stats e) (find (\<lambda>e. hh_name (he_handler e) = name) (all_entries order r))"

definition handler_names :: "hook_event list \<Rightarrow> 'f hook_registry \<Rightarrow> string list" where
  "handler_names order r = remdups_adj (sort (map (\<lambda>e. hh_name (he_handler e)) (all_entries order r)))"

definition set_stats :: "nat \<Rightarrow> hook_stats \<Rightarrow> 'f hook_registry \<Rightarrow> 'f hook_registry" where
  "set_stats i st r = r\<lparr>hr_stats := (hr_stats r)[i := st]\<rparr>"

text \<open>True when the handler is to be skipped.\<close>

definition check_circuit_breaker :: "instant \<Rightarrow> nat \<Rightarrow> 'f hook_registry \<Rightarrow> bool \<times> 'f hook_registry" where
  "check_circuit_breaker now i r =
     (let st = hr_stats r ! i in
      if \<not> hs_disabled st then
        (if circuit_breaker_threshold r \<le> consecutive_failures st
         then (True, set_stats i (st\<lparr>hs_disabled := True, disabled_at := Some now\<rparr>) r)
         else (False, r))
      else
        (case disabled_at st of
           Some at \<Rightarrow>
             (if circuit_breaker_cooldown r \<le> duration_since now at
              then (False, set_stats i (st\<lparr>hs_disabled := False, consecutive_failures := 0\<rparr>) r)
              else (True, r))
         | None \<Rightarrow> (True, r)))"

section \<open>Dispatch\<close>

text \<open>The arms of the match on a handler's answer: go on, with the last modification, or stop.\<close>

definition take_answer ::
  "string + 'f hook_action \<Rightarrow> duration \<Rightarrow> nat \<Rightarrow> 'f json_value option \<Rightarrow> 'f hook_registry \<Rightarrow> ('f json_value option + 'f hook_action) \<times> 'f hook_registry" where
  "take_answer result latency i last_modify r =
     (case result of
        Inr HookContinue \<Rightarrow> (Inl last_modify, set_stats i (stats_success latency (hr_stats r ! i)) r)
      | Inr (ModifyPayload v) \<Rightarrow>
          (Inl (if dry_run r then last_modify else Some v), set_stats i (stats_success latency (hr_stats r ! i)) r)
      | Inr (HookBlock reason) \<Rightarrow>
          (if dry_run r then Inl last_modify else Inr (HookBlock reason), set_stats i (stats_success latency (hr_stats r ! i)) r)
      | Inl err \<Rightarrow> (Inl last_modify, set_stats i (stats_failure latency (hr_stats r ! i)) r))"

definition at_end :: "'f json_value option \<Rightarrow> 'f hook_action" where
  "at_end last_modify = (case last_modify of Some v \<Rightarrow> ModifyPayload v | None \<Rightarrow> HookContinue)"

definition ask_handler :: "bool \<Rightarrow> 'f hook_handler \<Rightarrow> 'f hook_payload \<Rightarrow> instant \<Rightarrow> (string + 'f hook_action) \<times> duration" where
  "ask_handler sync h p now = (if sync then hh_handle_sync h (payload_event p) p now else hh_handle h (payload_event p) p now)"

text \<open>The loop that \<open>dispatch_sequential\<close> and \<open>dispatch_sync\<close> share; \<open>sync\<close> says which method they call.\<close>

fun ask_in_order ::
  "bool \<Rightarrow> 'f hook_payload \<Rightarrow> 'f handler_entry list \<Rightarrow> 'f json_value option \<Rightarrow> instant \<Rightarrow> 'f hook_registry \<Rightarrow> 'f hook_action \<times> instant \<times> 'f hook_registry" where
  "ask_in_order sync p [] last_modify now r = (at_end last_modify, now, r)"
| "ask_in_order sync p (e # es) last_modify now r =
     (case check_circuit_breaker now (he_stats e) r of (skip, r1) \<Rightarrow>
        if skip then ask_in_order sync p es last_modify now r1
        else
          (case ask_handler sync (he_handler e) p now of (result, latency) \<Rightarrow>
             (case take_answer result latency (he_stats e) last_modify r1 of
                (Inl m, r2) \<Rightarrow> ask_in_order sync p es m (instant_add now latency) r2
              | (Inr a, r2) \<Rightarrow> (a, instant_add now latency, r2))))"

definition dispatch_sequential :: "'f hook_payload \<Rightarrow> instant \<Rightarrow> 'f hook_registry \<Rightarrow> 'f hook_action \<times> instant \<times> 'f hook_registry" where
  "dispatch_sequential p now r = ask_in_order False p (entries_for r (payload_event p)) None now r"

definition dispatch_sync :: "'f hook_payload \<Rightarrow> instant \<Rightarrow> 'f hook_registry \<Rightarrow> 'f hook_action \<times> instant \<times> 'f hook_registry" where
  "dispatch_sync p now r = ask_in_order True p (entries_for r (payload_event p)) None now r"

text \<open>A parallel dispatch checks all breakers, starts the handlers that pass, and joins them. Its answer is always to go on.\<close>

fun admit_entries :: "instant \<Rightarrow> 'f handler_entry list \<Rightarrow> 'f hook_registry \<Rightarrow> 'f handler_entry list \<times> 'f hook_registry" where
  "admit_entries now [] r = ([], r)"
| "admit_entries now (e # es) r =
     (case check_circuit_breaker now (he_stats e) r of (skip, r) \<Rightarrow>
        (case admit_entries now es r of (rest, r) \<Rightarrow> (if skip then rest else e # rest, r)))"

definition note_answer :: "string + 'f hook_action \<Rightarrow> duration \<Rightarrow> nat \<Rightarrow> 'f hook_registry \<Rightarrow> 'f hook_registry" where
  "note_answer result latency i r =
     (case result of
        Inr a \<Rightarrow> set_stats i (stats_success latency (hr_stats r ! i)) r
      | Inl err \<Rightarrow> set_stats i (stats_failure latency (hr_stats r ! i)) r)"

fun join_all :: "'f hook_payload \<Rightarrow> instant \<Rightarrow> 'f handler_entry list \<Rightarrow> instant \<Rightarrow> 'f hook_registry \<Rightarrow> instant \<times> 'f hook_registry" where
  "join_all p start [] now r = (now, r)"
| "join_all p start (e # es) now r =
     (case ask_handler False (he_handler e) p start of (result, latency) \<Rightarrow>
        join_all p start es (max now (instant_add start latency)) (note_answer result latency (he_stats e) r))"

definition dispatch_parallel :: "'f hook_payload \<Rightarrow> instant \<Rightarrow> 'f hook_registry \<Rightarrow> 'f hook_action \<times> instant \<times> 'f hook_registry" where
  "dispatch_parallel p now r =
     (case admit_entries now (entries_for r (payload_event p)) r of (es, r) \<Rightarrow>
        (HookContinue, join_all p now es now r))"

definition dispatch :: "'f hook_payload \<Rightarrow> instant \<Rightarrow> 'f hook_registry \<Rightarrow> 'f hook_action \<times> instant \<times> 'f hook_registry" where
  "dispatch p now r =
     (if \<not> has_handlers r (payload_event p) then (HookContinue, now, r)
      else if is_read_only (payload_event p) then dispatch_parallel p now r
      else dispatch_sequential p now r)"

section \<open>Dispatches that interleave\<close>

text \<open>A dispatch between two of its awaits: it goes on with entries, waits for a handler that it asked at some time, observes one of a
  parallel dispatch, or is done.\<close>

datatype 'f phase =
    Asking "'f handler_entry list" "'f json_value option"
  | Waiting "'f handler_entry" "'f handler_entry list" "'f json_value option" instant
  | Observing "'f handler_entry" instant
  | Finished "'f hook_action"

record 'f hook_task =
  tk_payload :: "'f hook_payload"
  tk_sync :: bool
  tk_phase :: "'f phase"

record 'f hook_world =
  hw_registry :: "'f hook_registry"
  hw_tasks :: "'f hook_task list"

datatype 'f hook_move = Begin bool "'f hook_payload" instant | Check nat instant | Answer nat

definition set_phase :: "nat \<Rightarrow> 'f phase \<Rightarrow> 'f hook_registry \<Rightarrow> 'f hook_world \<Rightarrow> 'f hook_world" where
  "set_phase k ph r w = w\<lparr>hw_registry := r, hw_tasks := (hw_tasks w)[k := (hw_tasks w ! k)\<lparr>tk_phase := ph\<rparr>]\<rparr>"

definition begin_dispatch :: "bool \<Rightarrow> 'f hook_payload \<Rightarrow> instant \<Rightarrow> 'f hook_world \<Rightarrow> 'f hook_world" where
  "begin_dispatch sync p now w =
     (let es = entries_for (hw_registry w) (payload_event p) in
      if is_read_only (payload_event p) \<and> \<not> sync then
        (case admit_entries now es (hw_registry w) of (admitted, r) \<Rightarrow>
           w\<lparr>hw_registry := r,
             hw_tasks := hw_tasks w @ map (\<lambda>e. \<lparr>tk_payload = p, tk_sync = False, tk_phase = Observing e now\<rparr>) admitted\<rparr>)
      else w\<lparr>hw_tasks := hw_tasks w @ [\<lparr>tk_payload = p, tk_sync = sync, tk_phase = Asking es None\<rparr>]\<rparr>)"

definition check_next :: "nat \<Rightarrow> instant \<Rightarrow> 'f hook_world \<Rightarrow> 'f hook_world" where
  "check_next k now w =
     (case tk_phase (hw_tasks w ! k) of
        Asking (e # es) m \<Rightarrow>
          (case check_circuit_breaker now (he_stats e) (hw_registry w) of (skip, r) \<Rightarrow>
             set_phase k (if skip then Asking es m else Waiting e es m now) r w)
      | Asking [] m \<Rightarrow> set_phase k (Finished (at_end m)) (hw_registry w) w
      | _ \<Rightarrow> w)"

definition handler_answers :: "nat \<Rightarrow> 'f hook_world \<Rightarrow> 'f hook_world" where
  "handler_answers k w =
     (let tk = hw_tasks w ! k in
      case tk_phase tk of
        Waiting e es m start \<Rightarrow>
          (case ask_handler (tk_sync tk) (he_handler e) (tk_payload tk) start of (result, latency) \<Rightarrow>
             (case take_answer result latency (he_stats e) m (hw_registry w) of
                (Inl m', r) \<Rightarrow> set_phase k (Asking es m') r w
              | (Inr a, r) \<Rightarrow> set_phase k (Finished a) r w))
      | Observing e start \<Rightarrow>
          (case ask_handler False (he_handler e) (tk_payload tk) start of (result, latency) \<Rightarrow>
             set_phase k (Finished HookContinue) (note_answer result latency (he_stats e) (hw_registry w)) w)
      | _ \<Rightarrow> w)"

fun hook_step :: "'f hook_world \<Rightarrow> 'f hook_move \<Rightarrow> 'f hook_world" where
  "hook_step w (Begin sync p now) = begin_dispatch sync p now w"
| "hook_step w (Check k now) = (if k < length (hw_tasks w) then check_next k now w else w)"
| "hook_step w (Answer k) = (if k < length (hw_tasks w) then handler_answers k w else w)"

definition hooks_idle :: "'f hook_registry \<Rightarrow> 'f hook_world" where
  "hooks_idle r = \<lparr>hw_registry = r, hw_tasks = []\<rparr>"

section \<open>What registration builds\<close>

definition build_registry :: "nat \<Rightarrow> duration \<Rightarrow> 'f hook_handler list \<Rightarrow> 'f hook_registry" where
  "build_registry threshold cooldown hs = foldl register_hook (with_circuit_breaker threshold cooldown new_hook_registry) hs"

lemma sort_key_part: "filter (\<lambda>x. f k = f x) (sort_key f xs) = filter (\<lambda>x. f k = f x) xs"
  using sort_key_stable [of f "f k" xs] by (simp add: eq_commute [of "f k"])

lemma by_priority_append: "by_priority (by_priority xs @ ys) = by_priority (xs @ ys)"
  unfolding by_priority_def
  by (rule properties_for_sort_key) (simp_all only: filter_append sort_key_part [of "\<lambda>e. - hh_priority (he_handler e)"] mset_append mset_sort sorted_sort_key)

lemma by_priority_again [simp]: "by_priority (by_priority xs) = by_priority xs"
  using by_priority_append [of xs "[]"] by simp

lemma set_by_priority [simp]: "set (by_priority xs) = set xs"
  by (simp add: by_priority_def)

lemma entries_stats [simp]: "entries_for (r\<lparr>hr_stats := st\<rparr>) ev = entries_for r ev"
  by (simp add: entries_for_def)

lemma entries_push:
  "entries_for (push_entry e r ev') ev = (if ev = ev' then by_priority (entries_for r ev @ [e]) else entries_for r ev)"
  by (simp add: entries_for_def push_entry_def)

lemma entries_push_all:
  assumes "by_priority (entries_for r ev) = entries_for r ev"
  shows "entries_for (foldl (push_entry e) r evs) ev = by_priority (entries_for r ev @ replicate (count_list evs ev) e)"
  using assms
proof (induction evs arbitrary: r)
  case (Cons ev' evs)
  have "by_priority (entries_for (push_entry e r ev') ev) = entries_for (push_entry e r ev') ev"
    using Cons.prems by (simp add: entries_push)
  from Cons.IH [OF this] show ?case by (simp add: entries_push by_priority_append)
qed simp

definition same_settings :: "'f hook_registry \<Rightarrow> 'f hook_registry \<Rightarrow> bool" where
  "same_settings r r' \<longleftrightarrow> hr_stats r' = hr_stats r \<and> circuit_breaker_threshold r' = circuit_breaker_threshold r \<and>
     circuit_breaker_cooldown r' = circuit_breaker_cooldown r \<and> dry_run r' = dry_run r"

lemma push_all_settings: "same_settings r (foldl (push_entry e) r evs)"
  by (induction evs arbitrary: r) (auto simp: same_settings_def push_entry_def)

text \<open>The entries for an event before they are sorted.\<close>

definition subscriptions :: "hook_event \<Rightarrow> 'f hook_handler list \<Rightarrow> 'f handler_entry list" where
  "subscriptions ev hs =
     concat (map (\<lambda>i. replicate (count_list (hh_events (hs ! i)) ev) \<lparr>he_handler = hs ! i, he_stats = i\<rparr>) [0..<length hs])"

lemma subscriptions_snoc:
  "subscriptions ev (hs @ [h]) = subscriptions ev hs @ replicate (count_list (hh_events h) ev) \<lparr>he_handler = h, he_stats = length hs\<rparr>"
proof -
  have "map (\<lambda>i. replicate (count_list (hh_events ((hs @ [h]) ! i)) ev) \<lparr>he_handler = (hs @ [h]) ! i, he_stats = i\<rparr>) [0..<length hs] =
      map (\<lambda>i. replicate (count_list (hh_events (hs ! i)) ev) \<lparr>he_handler = hs ! i, he_stats = i\<rparr>) [0..<length hs]"
    by (rule map_cong) (simp_all add: nth_append)
  note same = this
  have "[0..<length (hs @ [h])] = [0..<length hs] @ [length hs]" by simp
  then show ?thesis unfolding subscriptions_def by (simp only: map_append concat_append same) simp
qed

lemma set_subscriptions:
  "e \<in> set (subscriptions ev hs) \<longleftrightarrow>
     he_stats e < length hs \<and> ev \<in> set (hh_events (hs ! he_stats e)) \<and> e = \<lparr>he_handler = hs ! he_stats e, he_stats = he_stats e\<rparr>"
  by (cases e) (auto simp: subscriptions_def count_list_0_iff intro!: bexI)

lemma built_registry:
  "(\<forall>ev. entries_for (build_registry t c hs) ev = by_priority (subscriptions ev hs)) \<and>
   hr_stats (build_registry t c hs) = replicate (length hs) new_stats \<and> circuit_breaker_threshold (build_registry t c hs) = t \<and>
   circuit_breaker_cooldown (build_registry t c hs) = c \<and> \<not> dry_run (build_registry t c hs)"
proof (induction hs rule: rev_induct)
  case Nil
  show ?case
    by (simp add: build_registry_def with_circuit_breaker_def new_hook_registry_def entries_for_def subscriptions_def by_priority_def)
next
  case (snoc h hs)
  let ?r = "build_registry t c hs"
  let ?r1 = "?r\<lparr>hr_stats := hr_stats ?r @ [new_stats]\<rparr>"
  let ?e = "\<lparr>he_handler = h, he_stats = length (hr_stats ?r)\<rparr>"
  have r: "build_registry t c (hs @ [h]) = foldl (push_entry ?e) ?r1 (hh_events h)"
    by (simp add: build_registry_def register_hook_def Let_def)
  have "same_settings ?r1 (build_registry t c (hs @ [h]))" unfolding r by (rule push_all_settings)
  moreover have "entries_for (build_registry t c (hs @ [h])) ev = by_priority (subscriptions ev (hs @ [h]))" for ev
  proof -
    have es: "entries_for ?r ev = by_priority (subscriptions ev hs)" "length (hr_stats ?r) = length hs" using snoc.IH by simp_all
    then have "by_priority (entries_for ?r1 ev) = entries_for ?r1 ev" by simp
    from entries_push_all [OF this] show ?thesis unfolding r entries_stats es by (simp add: by_priority_append subscriptions_snoc)
  qed
  ultimately show ?case using snoc.IH by (simp add: same_settings_def flip: replicate_append_same)
qed

section \<open>A handler that always answers\<close>

text \<open>A handler that never fails, and a payload that it always blocks.\<close>

definition dependable :: "'f hook_handler \<Rightarrow> bool" where
  "dependable h \<longleftrightarrow> (\<forall>sync p now. \<exists>a. fst (ask_handler sync h p now) = Inr a)"

definition objects :: "'f hook_handler \<Rightarrow> 'f hook_payload \<Rightarrow> bool" where
  "objects h p \<longleftrightarrow> (\<forall>sync now. \<exists>reason. fst (ask_handler sync h p now) = Inr (HookBlock reason))"

definition healthy :: "hook_stats \<Rightarrow> bool" where
  "healthy st \<longleftrightarrow> \<not> hs_disabled st \<and> consecutive_failures st = 0"

text \<open>The handler \<open>h\<close> has the statistics \<open>i\<close>, and they stay good.\<close>

definition own_entry :: "'f hook_handler \<Rightarrow> nat \<Rightarrow> 'f handler_entry \<Rightarrow> bool" where
  "own_entry h i e \<longleftrightarrow> (he_stats e = i \<longrightarrow> he_handler e = h)"

definition on_duty :: "'f hook_handler \<Rightarrow> nat \<Rightarrow> 'f hook_registry \<Rightarrow> bool" where
  "on_duty h i r \<longleftrightarrow> \<not> dry_run r \<and> 0 < circuit_breaker_threshold r \<and> i < length (hr_stats r) \<and> healthy (hr_stats r ! i) \<and>
     (\<forall>ev. list_all (own_entry h i) (entries_for r ev) \<and> (ev \<in> set (hh_events h) \<longrightarrow> i \<in> he_stats ` set (entries_for r ev)))"

lemma set_stats_simps [simp]:
  "entries_for (set_stats j st r) ev = entries_for r ev" "dry_run (set_stats j st r) = dry_run r"
  "circuit_breaker_threshold (set_stats j st r) = circuit_breaker_threshold r" "length (hr_stats (set_stats j st r)) = length (hr_stats r)"
  by (simp_all add: set_stats_def)

lemma on_duty_set: "on_duty h i r \<Longrightarrow> (j = i \<Longrightarrow> healthy st) \<Longrightarrow> on_duty h i (set_stats j st r)"
  unfolding on_duty_def by (cases "j = i") (simp_all, simp_all add: set_stats_def)

lemma check_on_duty:
  assumes "on_duty h i r" "check_circuit_breaker now j r = (skip, r')"
  shows "on_duty h i r' \<and> (j = i \<longrightarrow> \<not> skip)"
proof (cases "j = i")
  case True
  then show ?thesis using assms by (auto simp: check_circuit_breaker_def on_duty_def healthy_def Let_def)
next
  case False
  have "r' = r \<or> (\<exists>st. r' = set_stats j st r)"
    using assms(2) by (auto simp: check_circuit_breaker_def Let_def split: if_splits option.splits)
  then show ?thesis using on_duty_set [OF assms(1)] assms(1) False by blast
qed

lemma success_healthy [simp]: "\<not> hs_disabled st \<Longrightarrow> healthy (stats_success us st)"
  by (simp add: healthy_def stats_success_def)

lemma on_duty_healthy: "on_duty h i r \<Longrightarrow> \<not> hs_disabled (hr_stats r ! i)"
  by (simp add: on_duty_def healthy_def)

lemma take_on_duty:
  assumes "on_duty h i r" "take_answer result us j m r = (outcome, r')" "j = i \<longrightarrow> (\<exists>a. result = Inr a)"
  shows "on_duty h i r' \<and> (\<forall>a. outcome = Inr a \<longrightarrow> (\<exists>reason. a = HookBlock reason)) \<and>
    (\<forall>reason. result = Inr (HookBlock reason) \<longrightarrow> outcome = Inr (HookBlock reason))"
proof -
  have "r' = set_stats j (stats_success us (hr_stats r ! j)) r \<or> j \<noteq> i \<and> r' = set_stats j (stats_failure us (hr_stats r ! j)) r"
    using assms(2,3) by (auto simp: take_answer_def split: sum.splits hook_action.splits if_splits)
  then have "on_duty h i r'" using assms(1) on_duty_healthy [OF assms(1)] by (auto intro!: on_duty_set)
  moreover have "\<not> dry_run r" using assms(1) by (simp add: on_duty_def)
  ultimately show ?thesis using assms(2) by (auto simp: take_answer_def split: sum.splits hook_action.splits)
qed

lemma note_on_duty:
  assumes "on_duty h i r" "j = i \<longrightarrow> (\<exists>a. result = Inr a)"
  shows "on_duty h i (note_answer result us j r)"
  using assms on_duty_healthy [OF assms(1)] by (auto simp: note_answer_def intro!: on_duty_set split: sum.split)

lemma admit_on_duty:
  "on_duty h i r \<Longrightarrow> admit_entries now es r = (admitted, r') \<Longrightarrow> on_duty h i r' \<and> set admitted \<subseteq> set es"
proof (induction es arbitrary: r admitted r')
  case (Cons e es)
  obtain skip r1 where c: "check_circuit_breaker now (he_stats e) r = (skip, r1)" by fastforce
  obtain rest r2 where a: "admit_entries now es r1 = (rest, r2)" by fastforce
  from Cons.IH [OF conjunct1 [OF check_on_duty [OF Cons.prems(1) c]] a] Cons.prems(2) show ?case
    by (auto simp: c a split: if_splits)
qed simp

text \<open>A dispatch that the handler has to answer keeps its entry until it has blocked.\<close>

definition concerned :: "'f hook_handler \<Rightarrow> 'f hook_task \<Rightarrow> bool" where
  "concerned h tk \<longleftrightarrow> objects h (tk_payload tk) \<and> payload_event (tk_payload tk) \<in> set (hh_events h) \<and>
     (is_read_only (payload_event (tk_payload tk)) \<longrightarrow> tk_sync tk)"

fun phase_ok :: "'f hook_handler \<Rightarrow> nat \<Rightarrow> bool \<Rightarrow> 'f phase \<Rightarrow> bool" where
  "phase_ok h i must (Asking es m) \<longleftrightarrow> list_all (own_entry h i) es \<and> (must \<longrightarrow> i \<in> he_stats ` set es)"
| "phase_ok h i must (Waiting e es m t) \<longleftrightarrow> list_all (own_entry h i) (e # es) \<and> (must \<longrightarrow> i \<in> he_stats ` set (e # es))"
| "phase_ok h i must (Observing e t) \<longleftrightarrow> own_entry h i e \<and> \<not> must"
| "phase_ok h i must (Finished a) \<longleftrightarrow> (must \<longrightarrow> (\<exists>reason. a = HookBlock reason))"

definition guarded_world :: "'f hook_handler \<Rightarrow> nat \<Rightarrow> 'f hook_world \<Rightarrow> bool" where
  "guarded_world h i w \<longleftrightarrow> on_duty h i (hw_registry w) \<and>
     list_all (\<lambda>tk. phase_ok h i (concerned h tk) (tk_phase tk)) (hw_tasks w)"

lemma guarded_set_phase:
  assumes "guarded_world h i w" "k < length (hw_tasks w)" "on_duty h i r" "phase_ok h i (concerned h (hw_tasks w ! k)) ph"
  shows "guarded_world h i (set_phase k ph r w)"
proof -
  have "concerned h ((hw_tasks w ! k)\<lparr>tk_phase := ph\<rparr>) = concerned h (hw_tasks w ! k)" by (simp add: concerned_def)
  then show ?thesis using assms by (auto simp: guarded_world_def set_phase_def list_all_length nth_list_update)
qed

lemma begin_guarded:
  assumes "guarded_world h i w"
  shows "guarded_world h i (begin_dispatch sync p now w)"
proof -
  let ?es = "entries_for (hw_registry w) (payload_event p)"
  have duty: "on_duty h i (hw_registry w)" using assms by (simp add: guarded_world_def)
  then have es: "list_all (own_entry h i) ?es" "payload_event p \<in> set (hh_events h) \<Longrightarrow> i \<in> he_stats ` set ?es"
    by (simp_all add: on_duty_def)
  obtain admitted r where a: "admit_entries now ?es (hw_registry w) = (admitted, r)" by fastforce
  have "on_duty h i r" "list_all (own_entry h i) admitted"
    using admit_on_duty [OF duty a] es(1) by (auto simp: list_all_iff)
  then show ?thesis
    using assms es by (auto simp: begin_dispatch_def guarded_world_def a Let_def concerned_def list_all_iff)
qed

lemma check_guarded:
  assumes "guarded_world h i w" "k < length (hw_tasks w)"
  shows "guarded_world h i (check_next k now w)"
proof -
  have duty: "on_duty h i (hw_registry w)" and ok: "phase_ok h i (concerned h (hw_tasks w ! k)) (tk_phase (hw_tasks w ! k))"
    using assms by (simp_all add: guarded_world_def list_all_length)
  show ?thesis
  proof (cases "tk_phase (hw_tasks w ! k)")
    case (Asking es m)
    note phase = this
    show ?thesis
    proof (cases es)
      case Nil
      then show ?thesis using phase ok by (auto simp: check_next_def intro!: guarded_set_phase assms duty)
    next
      case (Cons e rest)
      obtain skip r where c: "check_circuit_breaker now (he_stats e) (hw_registry w) = (skip, r)" by fastforce
      note after = check_on_duty [OF duty c]
      have "phase_ok h i (concerned h (hw_tasks w ! k)) (if skip then Asking rest m else Waiting e rest m now)"
        using ok after by (auto simp: phase Cons)
      then show ?thesis using after by (auto simp: check_next_def phase Cons c intro!: guarded_set_phase assms)
    qed
  qed (use assms(1) in \<open>simp_all add: check_next_def\<close>)
qed

lemma answer_guarded:
  assumes "dependable h" "guarded_world h i w" "k < length (hw_tasks w)"
  shows "guarded_world h i (handler_answers k w)"
proof -
  let ?tk = "hw_tasks w ! k"
  have duty: "on_duty h i (hw_registry w)" and ok: "phase_ok h i (concerned h ?tk) (tk_phase ?tk)"
    using assms by (simp_all add: guarded_world_def list_all_length)
  have sure: "\<exists>a. result = Inr a"
    if "own_entry h i e" "he_stats e = i" "ask_handler sync (he_handler e) p t = (result, us)" for e sync p t result us
    using assms(1) that by (metis dependable_def fst_conv own_entry_def)
  show ?thesis
  proof (cases "tk_phase ?tk")
    case (Waiting e es m start)
    obtain result us where a: "ask_handler (tk_sync ?tk) (he_handler e) (tk_payload ?tk) start = (result, us)" by fastforce
    obtain outcome r where t: "take_answer result us (he_stats e) m (hw_registry w) = (outcome, r)" by fastforce
    have own: "own_entry h i e" using ok Waiting by simp
    have after: "on_duty h i r" "\<forall>a. outcome = Inr a \<longrightarrow> (\<exists>reason. a = HookBlock reason)"
        "\<forall>reason. result = Inr (HookBlock reason) \<longrightarrow> outcome = Inr (HookBlock reason)"
      using take_on_duty [OF duty t] sure [OF own _ a] by blast+
    have block: "\<exists>reason. outcome = Inr (HookBlock reason)" if "concerned h ?tk" "he_stats e = i"
    proof -
      have "he_handler e = h" using own that(2) by (simp add: own_entry_def)
      then have "\<exists>reason. fst (result, us) = Inr (HookBlock reason)"
        using that(1) unfolding a [symmetric] concerned_def objects_def by simp
      then obtain reason where "result = Inr (HookBlock reason)" by auto
      then show ?thesis using after(3) by auto
    qed
    show ?thesis
    proof (cases outcome)
      case (Inl m')
      have "phase_ok h i (concerned h ?tk) (Asking es m')" using ok block Inl by (auto simp: Waiting)
      moreover have "handler_answers k w = set_phase k (Asking es m') r w" by (simp add: handler_answers_def Waiting a t Inl Let_def)
      ultimately show ?thesis using guarded_set_phase [OF assms(2,3) after(1)] by simp
    next
      case (Inr act)
      have "phase_ok h i (concerned h ?tk) (Finished act)" using after(2) Inr by simp
      moreover have "handler_answers k w = set_phase k (Finished act) r w" by (simp add: handler_answers_def Waiting a t Inr Let_def)
      ultimately show ?thesis using guarded_set_phase [OF assms(2,3) after(1)] by simp
    qed
  next
    case (Observing e start)
    obtain result us where a: "ask_handler False (he_handler e) (tk_payload ?tk) start = (result, us)" by fastforce
    have "on_duty h i (note_answer result us (he_stats e) (hw_registry w))"
      using ok Observing sure [OF _ _ a] by (auto intro!: note_on_duty duty)
    then show ?thesis using ok by (auto simp: handler_answers_def Observing a Let_def intro!: guarded_set_phase assms)
  qed (use assms(2) in \<open>simp_all add: handler_answers_def\<close>)
qed

lemma guarded_step: "dependable h \<Longrightarrow> guarded_world h i w \<Longrightarrow> guarded_world h i (hook_step w e)"
  by (cases e) (auto intro: begin_guarded check_guarded answer_guarded)

text \<open>A handler among those that were registered.\<close>

interpretation hook_dispatches: event_machine hook_step "\<lambda>w e. dependable h" "guarded_world h i"
  for h :: "'f hook_handler" and i
  by unfold_locales (rule guarded_step)

lemma built_on_duty:
  assumes "i < length hs" "0 < threshold"
  shows "on_duty (hs ! i) i (build_registry threshold cooldown hs)"
proof -
  let ?r = "build_registry threshold cooldown hs"
  have es: "set (entries_for ?r ev) = set (subscriptions ev hs)" for ev using built_registry [of threshold cooldown hs] by simp
  have "list_all (own_entry (hs ! i) i) (entries_for ?r ev)" for ev
    unfolding list_all_iff es by (metis handler_entry.select_convs(1) own_entry_def set_subscriptions)
  moreover have "i \<in> he_stats ` set (entries_for ?r ev)" if "ev \<in> set (hh_events (hs ! i))" for ev
    unfolding es using assms(1) that by (intro image_eqI [of _ _ "\<lparr>he_handler = hs ! i, he_stats = i\<rparr>"]) (simp_all add: set_subscriptions)
  ultimately show ?thesis
    using assms built_registry [of threshold cooldown hs] by (simp add: on_duty_def healthy_def new_stats_def)
qed

lemma blocked_in_every_run:
  assumes "h \<in> set hs" "dependable h" "0 < threshold"
    and "tk \<in> set (hw_tasks (foldl hook_step (hooks_idle (build_registry threshold cooldown hs)) moves))"
    and "concerned h tk" "tk_phase tk = Finished a"
  shows "\<exists>reason. a = HookBlock reason"
proof -
  obtain i where i: "i < length hs" "h = hs ! i" using assms(1) by (metis in_set_conv_nth)
  let ?w = "hooks_idle (build_registry threshold cooldown hs)"
  have "guarded_world h i ?w" using built_on_duty [OF i(1) assms(3)] i(2) by (simp add: guarded_world_def hooks_idle_def)
  moreover have "guarded_run (\<lambda>w e. dependable h) hook_step ?w moves" using assms(2) guarded_run_True by simp
  ultimately have "guarded_world h i (foldl hook_step ?w moves)" by (rule hook_dispatches.inv_run)
  then show ?thesis using assms(4-6) by (auto simp: guarded_world_def list_all_iff)
qed

section \<open>A dispatch that nothing interrupts\<close>

lemma set_phase_again:
  assumes "k < length (hw_tasks w)"
  shows "hw_tasks (set_phase k ph r w) ! k = (hw_tasks w ! k)\<lparr>tk_phase := ph\<rparr>" "hw_registry (set_phase k ph r w) = r"
    "length (hw_tasks (set_phase k ph r w)) = length (hw_tasks w)" "set_phase k ph' r' (set_phase k ph r w) = set_phase k ph' r' w"
  using assms by (simp_all add: set_phase_def)

lemma order_is_a_run:
  assumes "k < length (hw_tasks w)" "tk_phase (hw_tasks w ! k) = Asking es m"
    and "ask_in_order (tk_sync (hw_tasks w ! k)) (tk_payload (hw_tasks w ! k)) es m now (hw_registry w) = (a, t, r)"
  shows "\<exists>moves. foldl hook_step w moves = set_phase k (Finished a) r w"
  using assms
proof (induction es arbitrary: m now w)
  case Nil
  then show ?case by (intro exI [of _ "[Check k now]"]) (simp add: check_next_def)
next
  case (Cons e es)
  let ?tk = "hw_tasks w ! k"
  note simps = set_phase_again [OF Cons.prems(1)]
  obtain skip r1 where c: "check_circuit_breaker now (he_stats e) (hw_registry w) = (skip, r1)" by fastforce
  show ?case
  proof (cases skip)
    case True
    let ?w = "set_phase k (Asking es m) r1 w"
    have step: "hook_step w (Check k now) = ?w" using Cons.prems(1,2) c True by (simp add: check_next_def)
    obtain moves where "foldl hook_step ?w moves = set_phase k (Finished a) r ?w"
      using Cons.IH [of ?w m now] Cons.prems c True by (auto simp: simps)
    then show ?thesis using step by (intro exI [of _ "Check k now # moves"]) (simp add: simps)
  next
    case False
    obtain result us where h: "ask_handler (tk_sync ?tk) (he_handler e) (tk_payload ?tk) now = (result, us)" by fastforce
    obtain outcome r2 where o: "take_answer result us (he_stats e) m r1 = (outcome, r2)" by fastforce
    let ?w = "set_phase k (Waiting e es m now) r1 w"
    have step: "hook_step w (Check k now) = ?w" using Cons.prems(1,2) c False by (simp add: check_next_def)
    show ?thesis
    proof (cases outcome)
      case (Inl m')
      let ?w2 = "set_phase k (Asking es m') r2 w"
      have step2: "hook_step ?w (Answer k) = ?w2"
        using Cons.prems(1) h o Inl by (simp add: handler_answers_def simps Let_def)
      obtain moves where "foldl hook_step ?w2 moves = set_phase k (Finished a) r ?w2"
        using Cons.IH [of ?w2 m' "instant_add now us"] Cons.prems c False h o Inl by (auto simp: simps)
      then show ?thesis using step step2 by (intro exI [of _ "Check k now # Answer k # moves"]) (simp add: simps)
    next
      case (Inr act)
      have "hook_step ?w (Answer k) = set_phase k (Finished act) r2 w"
        using Cons.prems(1) h o Inr by (simp add: handler_answers_def simps Let_def)
      moreover have "act = a" "r2 = r" using Cons.prems(3) c False h o Inr by simp_all
      ultimately show ?thesis using step by (intro exI [of _ "[Check k now, Answer k]"]) simp
    qed
  qed
qed

text \<open>What a registry may answer to a payload, whatever else goes on.\<close>

definition may_answer :: "'f hook_registry \<Rightarrow> 'f hook_payload \<Rightarrow> 'f hook_action \<Rightarrow> bool" where
  "may_answer r p a \<longleftrightarrow>
     (if is_read_only (payload_event p) then a = HookContinue
      else \<exists>moves. \<exists>tk\<in>set (hw_tasks (foldl hook_step (hooks_idle r) moves)). tk_payload tk = p \<and> tk_phase tk = Finished a)"

lemma dispatch_may_answer: "may_answer r p (fst (dispatch p now r))"
proof (cases "is_read_only (payload_event p)")
  case True
  then show ?thesis by (auto simp: may_answer_def dispatch_def dispatch_parallel_def split: prod.split)
next
  case False
  let ?es = "entries_for r (payload_event p)"
  let ?w = "(hooks_idle r)\<lparr>hw_tasks := [\<lparr>tk_payload = p, tk_sync = False, tk_phase = Asking ?es None\<rparr>]\<rparr>"
  obtain a t r' where a: "ask_in_order False p ?es None now r = (a, t, r')" by (cases "ask_in_order False p ?es None now r") auto
  obtain moves where m: "foldl hook_step ?w moves = set_phase 0 (Finished a) r' ?w"
    using order_is_a_run [of 0 ?w ?es None now a t r'] a by (auto simp: hooks_idle_def)
  have "hook_step (hooks_idle r) (Begin False p now) = ?w" using False by (simp add: begin_dispatch_def hooks_idle_def)
  then have "\<exists>tk\<in>set (hw_tasks (foldl hook_step (hooks_idle r) (Begin False p now # moves))). tk_payload tk = p \<and> tk_phase tk = Finished a"
    using m by (simp add: set_phase_def)
  then have ex: "\<exists>moves. \<exists>tk\<in>set (hw_tasks (foldl hook_step (hooks_idle r) moves)). tk_payload tk = p \<and> tk_phase tk = Finished a"
    by (rule exI)
  have "fst (dispatch p now r) = a"
    using False a by (auto simp: dispatch_def dispatch_sequential_def has_handlers_def entries_for_def at_end_def split: option.splits)
  then show ?thesis using False ex by (simp add: may_answer_def)
qed

lemma blocked_answer:
  assumes "h \<in> set hs" "dependable h" "0 < threshold" "objects h p" "payload_event p \<in> set (hh_events h)"
    and "\<not> is_read_only (payload_event p)" "may_answer (build_registry threshold cooldown hs) p a"
  shows "\<exists>reason. a = HookBlock reason"
proof -
  obtain moves tk where tk: "tk \<in> set (hw_tasks (foldl hook_step (hooks_idle (build_registry threshold cooldown hs)) moves))"
      "tk_payload tk = p" "tk_phase tk = Finished a"
    using assms(6,7) by (auto simp: may_answer_def)
  then have "concerned h tk" using assms(4-6) by (simp add: concerned_def)
  then show ?thesis using blocked_in_every_run [OF assms(1-3) tk(1) _ tk(3)] by blast
qed

section \<open>The answer of a dispatch\<close>

fun is_block :: "'f hook_action \<Rightarrow> bool" where
  "is_block (HookBlock reason) = True"
| "is_block _ = False"

fun is_modify :: "'f hook_action \<Rightarrow> bool" where
  "is_modify (ModifyPayload v) = True"
| "is_modify _ = False"

text \<open>The first that blocks, otherwise the last that modifies, otherwise to go on.\<close>

definition verdict :: "'f hook_action list \<Rightarrow> 'f hook_action" where
  "verdict acts =
     (case find is_block acts of
        Some a \<Rightarrow> a
      | None \<Rightarrow> (case filter is_modify acts of [] \<Rightarrow> HookContinue | m # ms \<Rightarrow> last (m # ms)))"

fun combine :: "'f json_value option \<Rightarrow> 'f hook_action list \<Rightarrow> 'f hook_action" where
  "combine m [] = at_end m"
| "combine m (HookContinue # acts) = combine m acts"
| "combine m (ModifyPayload v # acts) = combine (Some v) acts"
| "combine m (HookBlock reason # acts) = HookBlock reason"

lemma combine_verdict: "combine None acts = verdict acts"
proof -
  have "combine m acts =
      (case find is_block acts of Some a \<Rightarrow> a | None \<Rightarrow> (case filter is_modify acts of [] \<Rightarrow> at_end m | a # as \<Rightarrow> last (a # as)))" for m
    by (induction m acts rule: combine.induct) (auto simp: at_end_def split: option.split list.split)
  from this [of None] show ?thesis by (simp add: verdict_def at_end_def split: option.split list.split)
qed

definition all_healthy :: "'f hook_registry \<Rightarrow> bool" where
  "all_healthy r \<longleftrightarrow> \<not> dry_run r \<and> 0 < circuit_breaker_threshold r \<and> list_all healthy (hr_stats r)"

lemma healthy_check: "all_healthy r \<Longrightarrow> i < length (hr_stats r) \<Longrightarrow> check_circuit_breaker now i r = (False, r)"
  by (simp add: check_circuit_breaker_def all_healthy_def healthy_def list_all_length)

lemma healthy_set: "all_healthy r \<Longrightarrow> healthy st \<Longrightarrow> all_healthy (set_stats i st r)"
  using set_update_subset_insert [of "hr_stats r" i st] by (auto simp: all_healthy_def set_stats_def list_all_iff)

lemma healthy_take:
  assumes "all_healthy r" "i < length (hr_stats r)" "take_answer (Inr a) us i m r = (outcome, r')"
  shows "all_healthy r' \<and> length (hr_stats r') = length (hr_stats r) \<and>
    outcome = (case a of HookContinue \<Rightarrow> Inl m | ModifyPayload v \<Rightarrow> Inl (Some v) | HookBlock reason \<Rightarrow> Inr (HookBlock reason))"
proof -
  have "r' = set_stats i (stats_success us (hr_stats r ! i)) r" using assms(3) by (auto simp: take_answer_def split: hook_action.splits)
  moreover have "healthy (stats_success us (hr_stats r ! i))"
    using assms(1,2) by (auto simp: all_healthy_def list_all_length healthy_def intro!: success_healthy [unfolded healthy_def])
  moreover have "\<not> dry_run r" using assms(1) by (simp add: all_healthy_def)
  ultimately show ?thesis using assms(3) healthy_set [OF assms(1)] by (auto simp: take_answer_def split: hook_action.splits)
qed

lemma ask_in_order_combine:
  assumes "all_healthy r" "\<forall>e\<in>set es. he_stats e < length (hr_stats r) \<and> (\<forall>now. fst (ask_handler sync (he_handler e) p now) = Inr (act (he_handler e)))"
  shows "fst (ask_in_order sync p es m now r) = combine m (map (act \<circ> he_handler) es)"
  using assms
proof (induction es arbitrary: m now r)
  case (Cons e es)
  obtain us where h: "ask_handler sync (he_handler e) p now = (Inr (act (he_handler e)), us)" using Cons.prems(2) by (metis fst_conv list.set_intros(1) surj_pair)
  obtain outcome r' where t: "take_answer (Inr (act (he_handler e))) us (he_stats e) m r = (outcome, r')" by fastforce
  have i: "he_stats e < length (hr_stats r)" using Cons.prems(2) by simp
  note after = healthy_take [OF Cons.prems(1) i t]
  show ?case
  proof (cases "act (he_handler e)")
    case HookContinue
    then show ?thesis using Cons.IH [of r' m "instant_add now us"] Cons.prems after t by (simp add: healthy_check [OF Cons.prems(1) i] h)
  next
    case (HookBlock reason)
    then show ?thesis using after t by (simp add: healthy_check [OF Cons.prems(1) i] h)
  next
    case (ModifyPayload v)
    then show ?thesis using Cons.IH [of r' "Some v" "instant_add now us"] Cons.prems after t by (simp add: healthy_check [OF Cons.prems(1) i] h)
  qed
qed simp

lemma map_insort_key: "map f (insort_key (\<lambda>x. g (f x)) x xs) = insort_key g (f x) (map f xs)"
  by (induction xs) auto

lemma map_sort_key: "map f (sort_key (\<lambda>x. g (f x)) xs) = sort_key g (map f xs)"
  by (induction xs) (simp_all add: map_insort_key)

lemma count_distinct: "distinct xs \<Longrightarrow> count_list xs x = (if x \<in> set xs then 1 else 0)"
  by (induction xs) auto

definition subscribers :: "hook_event \<Rightarrow> 'f hook_handler list \<Rightarrow> 'f hook_handler list" where
  "subscribers ev hs = sort_key (\<lambda>h. - hh_priority h) (filter (\<lambda>h. ev \<in> set (hh_events h)) hs)"

lemma map_by_priority:
  assumes "\<forall>h\<in>set hs. distinct (hh_events h)"
  shows "map he_handler (by_priority (subscriptions ev hs)) = subscribers ev hs"
proof -
  have "map he_handler (subscriptions ev hs) = filter (\<lambda>h. ev \<in> set (hh_events h)) hs"
    using assms
  proof (induction hs rule: rev_induct)
    case Nil
    show ?case by (simp add: subscriptions_def)
  next
    case (snoc h hs)
    then show ?case by (auto simp: subscriptions_snoc count_distinct)
  qed
  then show ?thesis
    unfolding by_priority_def subscribers_def map_sort_key [of he_handler "\<lambda>h. - hh_priority h"] by (rule arg_cong)
qed

text \<open>As long as no handler fails, a dispatch of an event that may be modified asks the handlers that subscribed to it by falling
  priority, those of one priority in the order of their registration; the first that blocks decides, otherwise the last
  modification stands, and an event that is only observed goes on whatever the handlers say.\<close>

theorem dispatch_verdict:
  assumes "0 < threshold" "\<forall>h\<in>set hs. distinct (hh_events h) \<and> (\<forall>now. fst (ask_handler False h p now) = Inr (act h))"
  shows "fst (dispatch p now (build_registry threshold cooldown hs)) =
    (if is_read_only (payload_event p) then HookContinue else verdict (map act (subscribers (payload_event p) hs)))"
proof (cases "is_read_only (payload_event p)")
  case True
  then show ?thesis by (auto simp: dispatch_def dispatch_parallel_def split: prod.split)
next
  case False
  let ?r = "build_registry threshold cooldown hs" and ?ev = "payload_event p"
  note built = built_registry [of threshold cooldown hs]
  have es: "entries_for ?r ?ev = by_priority (subscriptions ?ev hs)" using built by simp
  have "fst (dispatch p now ?r) = fst (ask_in_order False p (entries_for ?r ?ev) None now ?r)"
    using False by (auto simp: dispatch_def dispatch_sequential_def has_handlers_def entries_for_def at_end_def split: option.splits)
  also have "\<dots> = combine None (map (act \<circ> he_handler) (entries_for ?r ?ev))"
  proof (rule ask_in_order_combine)
    show "all_healthy ?r" using built assms(1) by (simp add: all_healthy_def list_all_iff healthy_def new_stats_def)
    show "\<forall>e\<in>set (entries_for ?r ?ev). he_stats e < length (hr_stats ?r) \<and>
        (\<forall>now. fst (ask_handler False (he_handler e) p now) = Inr (act (he_handler e)))"
      unfolding es using built assms(2) by (auto simp: set_subscriptions) (metis handler_entry.select_convs(1) nth_mem)
  qed
  also have "\<dots> = verdict (map act (map he_handler (by_priority (subscriptions ?ev hs))))" by (simp add: combine_verdict es)
  also have "\<dots> = verdict (map act (subscribers ?ev hs))" using assms(2) by (subst map_by_priority) simp_all
  finally show ?thesis using False by simp
qed

end
