(* ===== verification/Agent_Loop.thy ===== *)
theory Agent_Loop
  imports Provider_Chain Tool_Registry Loop_Detector Hooks
begin

text \<open>
  The loop of an agent run: ask the model, run the tools it calls, and ask again
  (\<open>crates/agents/src/runner/non_streaming.rs\<close> and \<open>helpers.rs\<close>), with the messages of
  \<open>crates/agents/src/model/chat.rs\<close> and \<open>types.rs\<close> and the controls of \<open>crates/config/src/schema/agents.rs\<close>.
  It composes the retry budget, the tool registry, the validation of arguments and the loop detector.

  What the loop cannot decide is the record \<open>agent_env\<close>: the answers of the model and of the tools, the hooks, the printer of JSON,
  the texts with characters outside Latin-1, the parsers of tool calls in text, and the registry, which may change between calls. They get the number of the
  call, so that they may answer differently every time. The tools of a batch run concurrently; their results are
  taken in the order of the calls. A run writes down what it does as a list of \<open>agent_effect\<close>. Instrumentation and logs are left out,
  and so are the diagnostics and the metadata of tool calls.
\<close>

section \<open>Messages\<close>

record 'f tool_call =
  tc_id :: string
  tc_name :: string
  tc_arguments :: "'f json_value"

datatype content_part = TextPart string | ImagePart string string

datatype user_content = TextContent string | Multimodal "content_part list"

datatype 'f chat_message =
    SystemMsg string
  | UserMsg user_content "string option"
  | AssistantMsg "string option" "'f tool_call list" "string option"
  | ToolMsg string string

record 'f completion_response =
  cr_text :: "string option"
  cr_reasoning :: "string option"
  cr_tool_calls :: "'f tool_call list"
  cr_usage :: usage

definition user_msg :: "string \<Rightarrow> 'f chat_message" where
  "user_msg t = UserMsg (TextContent t) None"

definition assistant_msg :: "string \<Rightarrow> 'f chat_message" where
  "assistant_msg t = AssistantMsg (Some t) [] None"

definition from_response :: "'f completion_response \<Rightarrow> 'f chat_message" where
  "from_response r = AssistantMsg (cr_text r) (cr_tool_calls r) (cr_reasoning r)"

definition sanitize_message_name :: "string \<Rightarrow> string option" where
  "sanitize_message_name name =
     (let s = take 64 (filter (\<lambda>c. is_ascii_digit c \<or> c \<in> {CHR ''a''..CHR ''z''} \<or> c \<in> {CHR ''A''..CHR ''Z''} \<or> c = CHR ''_'' \<or> c = CHR ''-'')
        (map (\<lambda>c. if c = CHR '' '' then CHR ''_'' else c) name)) in
      if s = [] then None else Some s)"

definition part_value :: "content_part \<Rightarrow> 'f json_value" where
  "part_value p =
     (case p of
        TextPart t \<Rightarrow> Object [(''type'', String ''text''), (''text'', String t)]
      | ImagePart media_type d \<Rightarrow>
          Object [(''type'', String ''image_url''), (''image_url'', Object [(''url'', String (''data:'' @ media_type @ '';base64,'' @ d))])])"

definition call_value :: "('f json_value \<Rightarrow> string) \<Rightarrow> 'f tool_call \<Rightarrow> 'f json_value" where
  "call_value prnt tc =
     Object [(''id'', String (tc_id tc)), (''type'', String ''function''),
       (''function'', Object [(''name'', String (tc_name tc)), (''arguments'', String (prnt (tc_arguments tc)))])]"

fun to_openai_value :: "('f json_value \<Rightarrow> string) \<Rightarrow> 'f chat_message \<Rightarrow> 'f json_value" where
  "to_openai_value prnt (SystemMsg c) = Object [(''role'', String ''system''), (''content'', String c)]"
| "to_openai_value prnt (UserMsg c name) =
     Object ([(''role'', String ''user''),
       (''content'', case c of TextContent t \<Rightarrow> String t | Multimodal parts \<Rightarrow> Array (map part_value parts))] @
       (case Option.bind name sanitize_message_name of Some n \<Rightarrow> [(''name'', String n)] | None \<Rightarrow> []))"
| "to_openai_value prnt (AssistantMsg c calls reasoning) =
     (if calls = [] then Object [(''role'', String ''assistant''), (''content'', String (case c of Some t \<Rightarrow> t | None \<Rightarrow> []))]
      else Object ([(''role'', String ''assistant''), (''tool_calls'', Array (map (call_value prnt) calls))] @
        (case c of Some t \<Rightarrow> [(''content'', String t)] | None \<Rightarrow> [])))"
| "to_openai_value prnt (ToolMsg call_id c) =
     Object [(''role'', String ''tool''), (''tool_call_id'', String call_id), (''content'', String c)]"

definition usage_add :: "usage \<Rightarrow> usage \<Rightarrow> usage" where
  "usage_add u v =
     \<lparr>input_tokens = min (input_tokens u + input_tokens v) (2 ^ 32 - 1), output_tokens = min (output_tokens u + output_tokens v) (2 ^ 32 - 1),
      cache_read_tokens = min (cache_read_tokens u + cache_read_tokens v) (2 ^ 32 - 1),
      cache_write_tokens = min (cache_write_tokens u + cache_write_tokens v) (2 ^ 32 - 1)\<rparr>"

definition no_usage :: usage where
  "no_usage = \<lparr>input_tokens = 0, output_tokens = 0, cache_read_tokens = 0, cache_write_tokens = 0\<rparr>"

section \<open>Names of tools\<close>

definition strip_index :: "string \<Rightarrow> string" where
  "strip_index s =
     (let r = rev s; ds = takeWhile is_ascii_digit r in
      case drop (length ds) r of
        c # rest \<Rightarrow> if c = CHR ''_'' \<and> ds \<noteq> [] \<and> rest \<noteq> [] then rev rest else s
      | [] \<Rightarrow> s)"

definition sanitize_tool_name :: "string \<Rightarrow> string" where
  "sanitize_tool_name name =
     (let trimmed = trim name;
          unquoted = (case Option.bind (strip_prefix trimmed [double_quote]) (\<lambda>s. strip_suffix s [double_quote]) of Some s \<Rightarrow> s | None \<Rightarrow> trimmed);
          plain = (case strip_prefix unquoted ''functions_'' of Some s \<Rightarrow> s | None \<Rightarrow> unquoted) in
      strip_index plain)"

definition legacy_public_tool_alias :: "string \<Rightarrow> string option" where
  "legacy_public_tool_alias name = (case strip_suffix name ''_wasm'' of Some base \<Rightarrow> if base \<noteq> [] then Some base else None | None \<Rightarrow> None)"

definition resolve_tool_lookup :: "'f tool_registry \<Rightarrow> string \<Rightarrow> 'f agent_tool option \<times> string" where
  "resolve_tool_lookup reg name =
     (case legacy_public_tool_alias name of
        Some als \<Rightarrow> (case get_tool als reg of Some t \<Rightarrow> (Some t, als) | None \<Rightarrow> (get_tool name reg, name))
      | None \<Rightarrow> (get_tool name reg, name))"

definition find_empty_tool_name_call :: "'f tool_call list \<Rightarrow> 'f tool_call option" where
  "find_empty_tool_name_call calls = find (\<lambda>tc. sanitize_tool_name (tc_name tc) = []) calls"

definition has_named_tool_call :: "'f tool_call list \<Rightarrow> bool" where
  "has_named_tool_call calls = list_ex (\<lambda>tc. sanitize_tool_name (tc_name tc) \<noteq> []) calls"

section \<open>Texts\<close>

definition explicit_shell_command :: "string \<Rightarrow> string option" where
  "explicit_shell_command s =
     (let t = trim s in
      if t = [] \<or> 4096 < byte_len t \<or> newline \<in> set t \<or> carriage_return \<in> set t then None
      else
        (case strip_prefix t ''/'' of
           None \<Rightarrow> None
         | Some rest \<Rightarrow>
             (case find_char is_whitespace rest of
                None \<Rightarrow> None
              | Some i \<Rightarrow>
                  (let command = trim_start_by is_whitespace (drop i rest); hd_lower = to_ascii_lowercase (take i rest) in
                   if command = [] then None
                   else if hd_lower = ''sh'' \<or> (case strip_prefix hd_lower ''sh@'' of Some mention \<Rightarrow> mention \<noteq> [] | None \<Rightarrow> False) then Some command
                   else None))))"

definition explicit_shell_command_from_user_content :: "user_content \<Rightarrow> string option" where
  "explicit_shell_command_from_user_content c = (case c of TextContent t \<Rightarrow> explicit_shell_command t | Multimodal parts \<Rightarrow> None)"

definition AUTO_CONTINUE_SUBSTANTIVE_TEXT_THRESHOLD :: nat where "AUTO_CONTINUE_SUBSTANTIVE_TEXT_THRESHOLD = 40"

definition is_substantive_answer_text :: "string \<Rightarrow> bool" where
  "is_substantive_answer_text t \<longleftrightarrow> AUTO_CONTINUE_SUBSTANTIVE_TEXT_THRESHOLD \<le> length (trim t)"

definition record_answer_text :: "string \<Rightarrow> string option \<Rightarrow> string" where
  "record_answer_text last_text t = (case t of Some s \<Rightarrow> if s \<noteq> [] then s else last_text | None \<Rightarrow> last_text)"

definition MALFORMED_TOOL_RETRY_PROMPT :: string where
  "MALFORMED_TOOL_RETRY_PROMPT = ''Your tool call was malformed. Retry with exact format:'' @ [newline] @ ''```tool_call'' @ [newline] @
     ''{'' @ [double_quote] @ ''tool'' @ [double_quote] @ '': '' @ [double_quote] @ ''name'' @ [double_quote] @ '', '' @ [double_quote] @ ''arguments'' @ [double_quote] @
     '': {...}}'' @ [newline] @ ''```''"

definition EMPTY_TOOL_NAME_RETRY_PROMPT :: string where
  "EMPTY_TOOL_NAME_RETRY_PROMPT = ''Your structured tool call had an empty tool name. Retry the same tool call using the intended tool'' @ [single_quote] @ ''s exact name and the same arguments.''"

definition empty_tool_name_retry_prompt :: "('f json_value \<Rightarrow> string) \<Rightarrow> 'f tool_call \<Rightarrow> string" where
  "empty_tool_name_retry_prompt prnt tc = EMPTY_TOOL_NAME_RETRY_PROMPT @ [newline] @ ''Exact arguments JSON:'' @ [newline] @ prnt (tc_arguments tc)"

definition AUTO_CONTINUE_NUDGE :: string where
  "AUTO_CONTINUE_NUDGE = ''Your previous response ended without tool calls and without a final answer. If there are still steps to run, continue executing them. Otherwise reply with exactly: done''"

definition TOOL_RESULT_COMPACTION_PLACEHOLDER :: string where
  "TOOL_RESULT_COMPACTION_PLACEHOLDER = ''[tool result compacted to preserve context budget]''"

definition TOOL_RESULT_COMPACTION_MIN_BYTES :: nat where "TOOL_RESULT_COMPACTION_MIN_BYTES = 200"

section \<open>The budget of the context\<close>

datatype agent_error = ContextWindowExceeded string | OtherError string

definition estimate_prompt_text_tokens :: "string \<Rightarrow> nat" where
  "estimate_prompt_text_tokens t = (let n = byte_len (trim t) in if trim t = [] then 0 else max 1 ((n + 3) div 4))"

definition estimate_message_tokens :: "('f json_value \<Rightarrow> string) \<Rightarrow> 'f chat_message \<Rightarrow> nat" where
  "estimate_message_tokens prnt m = estimate_prompt_text_tokens (prnt (to_openai_value prnt m))"

definition estimate_prompt_tokens :: "('f json_value \<Rightarrow> string) \<Rightarrow> 'f chat_message list \<Rightarrow> 'f json_value list \<Rightarrow> nat" where
  "estimate_prompt_tokens prnt msgs schemas =
     sum_list (map (estimate_message_tokens prnt) msgs) + sum_list (map (\<lambda>s. estimate_prompt_text_tokens (prnt s)) schemas)"

definition is_tool_msg :: "'f chat_message \<Rightarrow> bool" where
  "is_tool_msg m \<longleftrightarrow> (case m of ToolMsg i c \<Rightarrow> True | _ \<Rightarrow> False)"

definition has_tool_result_messages :: "'f chat_message list \<Rightarrow> bool" where
  "has_tool_result_messages msgs = list_ex is_tool_msg msgs"

fun compact_loop :: "('f json_value \<Rightarrow> string) \<Rightarrow> nat \<Rightarrow> nat \<Rightarrow> 'f chat_message list \<Rightarrow> 'f chat_message list \<times> nat" where
  "compact_loop prnt needed reduced [] = ([], reduced)"
| "compact_loop prnt needed reduced (m # ms) =
     (if needed \<le> reduced then (m # ms, reduced)
      else
        (case m of
           ToolMsg call_id c \<Rightarrow>
             (if c = TOOL_RESULT_COMPACTION_PLACEHOLDER \<or> byte_len c < TOOL_RESULT_COMPACTION_MIN_BYTES
              then apfst (Cons m) (compact_loop prnt needed reduced ms)
              else
                (let short = ToolMsg call_id TOOL_RESULT_COMPACTION_PLACEHOLDER;
                     saved = estimate_message_tokens prnt m - estimate_message_tokens prnt short in
                 if saved = 0 then apfst (Cons m) (compact_loop prnt needed reduced ms)
                 else apfst (Cons short) (compact_loop prnt needed (reduced + saved) ms)))
         | _ \<Rightarrow> apfst (Cons m) (compact_loop prnt needed reduced ms)))"

definition compact_tool_results_oldest_first_in_place ::
  "('f json_value \<Rightarrow> string) \<Rightarrow> nat \<Rightarrow> 'f chat_message list \<Rightarrow> 'f chat_message list \<times> nat" where
  "compact_tool_results_oldest_first_in_place prnt needed msgs = (if needed = 0 then (msgs, 0) else compact_loop prnt needed 0 msgs)"

definition overflow_message :: "nat \<Rightarrow> nat \<Rightarrow> string \<Rightarrow> string" where
  "overflow_message tokens budget how =
     ''preemptive context overflow: estimated prompt size '' @ show_nat tokens @ '' tokens exceeds '' @ show_nat budget @ '' token budget '' @ how"

definition enforce_tool_result_context_budget ::
  "('f json_value \<Rightarrow> string) \<Rightarrow> 'f json_value list \<Rightarrow> nat \<Rightarrow> nat \<Rightarrow> nat \<Rightarrow> 'f chat_message list \<Rightarrow> agent_error + 'f chat_message list" where
  "enforce_tool_result_context_budget prnt schemas ctx_window compaction_ratio overflow_ratio msgs =
     (if ctx_window = 0 \<or> \<not> has_tool_result_messages msgs then Inr msgs
      else
        (let overflow_budget = saturating_mul ctx_window overflow_ratio div 100;
             current = estimate_prompt_tokens prnt msgs schemas in
         if compaction_ratio = 0 then
           (if overflow_budget < current then Inl (ContextWindowExceeded (overflow_message current overflow_budget ''(compaction disabled)'')) else Inr msgs)
         else
           (let compaction_budget = saturating_mul ctx_window compaction_ratio div 100;
                msgs = (if compaction_budget < current
                        then fst (compact_tool_results_oldest_first_in_place prnt (current - compaction_budget) msgs) else msgs);
                post = estimate_prompt_tokens prnt msgs schemas in
            if overflow_budget < post then Inl (ContextWindowExceeded (overflow_message post overflow_budget ''after tool-result compaction'')) else Inr msgs)))"

section \<open>The environment\<close>

datatype tool_choice = ChoiceAuto | ChoiceAny | ChoiceNone | ChoiceTool string

record tool_controls =
  active_tools :: "string list option"
  choice :: "tool_choice option"

record agent_config =
  agent_max_iterations :: nat
  lazy_registry :: bool
  max_tool_result_bytes :: nat
  max_auto_continues :: nat
  auto_continue_min_tool_calls :: nat
  tool_result_compaction_ratio :: nat
  preemptive_overflow_ratio :: nat
  compaction_min_iterations :: nat
  detector_window :: nat
  detector_strips :: bool

record 'f agent_env =
  ae_config :: agent_config
  ae_limit :: "nat option"
  ae_native :: bool
  ae_context_window :: nat
  ae_provider :: provider_identity
  ae_complete :: "nat \<Rightarrow> 'f chat_message list \<Rightarrow> 'f json_value list \<Rightarrow> string + 'f completion_response"
  ae_registry :: "nat \<Rightarrow> 'f tool_registry"
  ae_execute :: "nat \<Rightarrow> nat \<Rightarrow> string \<Rightarrow> 'f json_value \<Rightarrow> string + 'f json_value"
  ae_hooks :: "(nat \<Rightarrow> 'f hook_payload \<Rightarrow> string + 'f hook_action) option"
  ae_context :: "'f json_value option"
  ae_controls :: tool_controls
  ae_shell :: "string option"
  ae_floats :: "'f float_ops"
  ae_print :: "'f json_value \<Rightarrow> string"
  ae_number :: "'f json_number \<Rightarrow> string"
  ae_hash :: "string \<Rightarrow> nat"
  ae_text_calls :: "nat \<Rightarrow> string \<Rightarrow> 'f tool_call list \<times> string option"
  ae_looks_failed :: "string option \<Rightarrow> bool"
  ae_recover :: "nat \<Rightarrow> string \<Rightarrow> string \<times> 'f tool_call list"
  ae_forced_id :: "nat \<Rightarrow> string"
  ae_parse_messages :: "'f json_value list \<Rightarrow> 'f chat_message list"
  ae_sanitize :: "string \<Rightarrow> nat \<Rightarrow> string"
  ae_nudge :: "fingerprint list \<Rightarrow> string"
  ae_strip_note :: string
  ae_arg_error :: "string \<Rightarrow> 'f tool_arg_error \<Rightarrow> string"
  ae_clean :: "string \<Rightarrow> string"

definition max_iterations :: "'f agent_env \<Rightarrow> nat" where
  "max_iterations E =
     (let base = resolve_agent_max_iterations (case ae_limit E of Some n \<Rightarrow> n | None \<Rightarrow> agent_max_iterations (ae_config E)) in
      if lazy_registry (ae_config E) then base * 3 else base)"

definition session_key :: "'f agent_env \<Rightarrow> string" where
  "session_key E = (case Option.bind (ae_context E) (member_str ''_session_key'') of Some k \<Rightarrow> k | None \<Rightarrow> [])"

text \<open>\<open>serde_json::from_value\<close> reads a structure from an object, where other keys are ignored, or from an array with its fields in
  their order; a field that is missing or null is \<open>None\<close>.\<close>

fun optional_text :: "'f json_value option \<Rightarrow> string option option" where
  "optional_text None = Some None"
| "optional_text (Some Null) = Some None"
| "optional_text (Some (String t)) = Some (Some t)"
| "optional_text _ = None"

definition CHANNEL_FIELDS :: "string list" where
  "CHANNEL_FIELDS = [''surface'', ''session_kind'', ''channel_type'', ''account_id'', ''chat_id'', ''outbound_to'', ''chat_type'', ''sender_id'']"

definition channel_binding_from_value :: "'f json_value \<Rightarrow> channel_binding option" where
  "channel_binding_from_value v =
     (let fields = (case v of
          Object ms \<Rightarrow> those (map (\<lambda>name. optional_text (map_of ms name)) CHANNEL_FIELDS)
        | Array vs \<Rightarrow>
            if length vs \<le> length CHANNEL_FIELDS
            then those (map (\<lambda>i. optional_text (if i < length vs then Some (vs ! i) else None)) [0..<length CHANNEL_FIELDS]) else None
        | _ \<Rightarrow> None) in
      case fields of
        Some [a, b, c, d, e, f, g, h] \<Rightarrow>
          Some \<lparr>cb_surface = a, cb_session_kind = b, cb_channel_type = c, cb_account_id = d, cb_chat_id = e, cb_outbound_to = f,
            cb_chat_type = g, cb_sender_id = h\<rparr>
      | _ \<Rightarrow> None)"

definition channel_binding_from_tool_context :: "'f json_value option \<Rightarrow> channel_binding option" where
  "channel_binding_from_tool_context ctx =
     Option.bind (Option.bind (Option.bind ctx as_object) (\<lambda>ms. map_of ms ''_channel'')) channel_binding_from_value"

definition hook_channel :: "'f agent_env \<Rightarrow> channel_binding option" where
  "hook_channel E = channel_binding_from_tool_context (ae_context E)"

text \<open>\<open>from_tool_context\<close>, for contexts whose \<open>tool_choice\<close> is an object as serde writes it.\<close>

definition parse_tool_choice :: "'f json_value \<Rightarrow> tool_choice option" where
  "parse_tool_choice v =
     (case member_str ''type'' v of
        None \<Rightarrow> None
      | Some t \<Rightarrow>
          if t = ''auto'' then Some ChoiceAuto else if t = ''any'' then Some ChoiceAny else if t = ''none'' then Some ChoiceNone
          else if t = ''tool'' then map_option ChoiceTool (member_str ''name'' v) else None)"

definition from_tool_context :: "'f json_value option \<Rightarrow> tool_controls" where
  "from_tool_context ctx =
     (case ctx of
        None \<Rightarrow> \<lparr>active_tools = None, choice = None\<rparr>
      | Some c \<Rightarrow>
          \<lparr>active_tools = map_option (\<lambda>items. filter (\<lambda>n. n \<noteq> []) (map trim (List.map_filter as_str items)))
             (Option.bind (Option.bind (as_object c) (\<lambda>ms. map_of ms ''active_tools'')) as_array),
           choice = Option.bind (Option.bind (as_object c) (\<lambda>ms. map_of ms ''tool_choice'')) parse_tool_choice\<rparr>)"

section \<open>State and effects\<close>

datatype 'f runner_event =
    Iteration nat | Thinking | ThinkingDone
  | CallStart string string "'f json_value"
  | CallEnd string string bool "string option" "'f json_value option"
  | CallRejected string string "'f json_value" string
  | RetryingAfterError string nat
  | AutoContinue nat nat
  | LoopInterventionFired nat string

datatype 'f agent_effect =
    AskedModel "'f chat_message list" "'f json_value list"
  | RanTool string "'f json_value"
  | Dispatched "'f hook_payload"
  | Slept nat
  | Emitted "'f runner_event"

record 'f agent_state =
  iterations :: nat
  total_tool_calls :: nat
  usage_total :: usage
  usage_request :: usage
  budget :: retry_budget
  last_answer_text :: string
  malformed_retry_count :: nat
  empty_tool_name_retry_count :: nat
  auto_continue_count :: nat
  loop_detector :: detector
  strip_tools_next_iter :: bool
  messages :: "'f chat_message list"
  asked :: nat
  effects :: "'f agent_effect list"

record agent_run_result =
  rr_text :: string
  rr_iterations :: nat
  rr_tool_calls_made :: nat
  rr_usage :: usage
  rr_request_usage :: usage

type_synonym 'f pass_result = "'f agent_state + (agent_error + agent_run_result) \<times> 'f agent_state"

abbreviation again :: "'f agent_state \<Rightarrow> 'f pass_result" where
  "again s \<equiv> Inl s"

definition stop_with :: "agent_error \<Rightarrow> 'f agent_state \<Rightarrow> 'f pass_result" where
  "stop_with e s = Inr (Inl e, s)"

definition log :: "'f agent_effect list \<Rightarrow> 'f agent_state \<Rightarrow> 'f agent_state" where
  "log es s = s\<lparr>effects := effects s @ es\<rparr>"

definition finish_agent_run :: "'f agent_env \<Rightarrow> string \<Rightarrow> 'f agent_state \<Rightarrow> agent_run_result" where
  "finish_agent_run E t s =
     \<lparr>rr_text = ae_clean E t, rr_iterations = iterations s, rr_tool_calls_made = total_tool_calls s,
      rr_usage = usage_total s, rr_request_usage = usage_request s\<rparr>"

definition record_request :: "usage \<Rightarrow> 'f agent_state \<Rightarrow> 'f agent_state" where
  "record_request u s = s\<lparr>usage_total := usage_add (usage_total s) u, usage_request := u\<rparr>"

definition dispatch_hook :: "'f agent_env \<Rightarrow> nat \<Rightarrow> 'f hook_payload \<Rightarrow> 'f hook_action" where
  "dispatch_hook E n payload =
     (case ae_hooks E of
        None \<Rightarrow> HookContinue
      | Some hooks \<Rightarrow> (case hooks n payload of Inr a \<Rightarrow> a | Inl err \<Rightarrow> HookContinue))"

section \<open>Before the call\<close>

definition schemas_for_api :: "'f agent_env \<Rightarrow> 'f agent_state \<Rightarrow> agent_error + 'f json_value list" where
  "schemas_for_api E s =
     (if ae_native E \<and> \<not> strip_tools_next_iter s then
        (let reg = ae_registry E (asked s);
             schemas = (case active_tools (ae_controls E) of
                 Some active \<Rightarrow> list_schemas_allowed_by (\<lambda>n. n \<in> set active) reg
               | None \<Rightarrow> list_schemas reg) in
         case choice (ae_controls E) of
           Some ChoiceNone \<Rightarrow> Inr []
         | Some ChoiceAny \<Rightarrow>
             if schemas = [] then Inl (OtherError ''tool_choice any requires at least one active tool'') else Inr schemas
         | Some (ChoiceTool name) \<Rightarrow>
             if list_ex (\<lambda>sch. schema_name sch = Some name) schemas then Inr schemas
             else Inl (OtherError (''forced tool_choice references unavailable tool: '' @ name))
         | _ \<Rightarrow> Inr schemas)
      else Inr [])"

definition clear_strip :: "'f agent_state \<Rightarrow> 'f agent_state" where
  "clear_strip s =
     (if strip_tools_next_iter s
      then s\<lparr>strip_tools_next_iter := False, loop_detector := clear_strip_tools (loop_detector s)\<rparr> else s)"

definition apply_before_llm_call_modify_payload :: "'f agent_env \<Rightarrow> 'f json_value \<Rightarrow> 'f chat_message list \<Rightarrow> 'f chat_message list" where
  "apply_before_llm_call_modify_payload E payload msgs =
     (case (case Option.bind (Option.bind (as_object payload) (\<lambda>ms. map_of ms ''messages'')) as_array of
              Some vs \<Rightarrow> Some vs | None \<Rightarrow> as_array payload) of
        None \<Rightarrow> msgs
      | Some vs \<Rightarrow> (let parsed = ae_parse_messages E vs in if parsed = [] then msgs else parsed))"

definition before_llm_call :: "'f agent_env \<Rightarrow> 'f json_value list \<Rightarrow> 'f agent_state \<Rightarrow> agent_error + 'f agent_state" where
  "before_llm_call E schemas s =
     (case dispatch_hook E (asked s) (BeforeLLMCall (session_key E) (pi_provider (ae_provider E)) (pi_model (ae_provider E))
         (Array (map (to_openai_value (ae_print E)) (messages s))) (length schemas) (iterations s)) of
        HookBlock reason \<Rightarrow> Inl (OtherError (''blocked by BeforeLLMCall hook: '' @ reason))
      | ModifyPayload v \<Rightarrow> Inr (s\<lparr>messages := apply_before_llm_call_modify_payload E v (messages s)\<rparr>)
      | HookContinue \<Rightarrow> Inr s)"

section \<open>After the call\<close>

text \<open>An error: it is retried, without counting the iteration, or it ends the run.\<close>

definition on_model_error :: "string \<Rightarrow> 'f agent_state \<Rightarrow> 'f pass_result" where
  "on_model_error msg s =
     (if is_context_window_error msg then stop_with (ContextWindowExceeded msg) s
      else
        (case next_retry_delay_ms msg (budget s) of
           (Some delay_ms, b) \<Rightarrow>
             again (log [Emitted (RetryingAfterError msg delay_ms), Slept delay_ms]
               (s\<lparr>budget := b, iterations := iterations s - 1\<rparr>))
         | (None, b) \<Rightarrow> stop_with (OtherError msg) (s\<lparr>budget := b\<rparr>)))"

definition with_text_calls :: "'f agent_env \<Rightarrow> nat \<Rightarrow> 'f completion_response \<Rightarrow> 'f completion_response" where
  "with_text_calls E n r =
     (case (cr_tool_calls r, cr_text r) of
        ([], Some t) \<Rightarrow>
          (case ae_text_calls E n t of (parsed, remaining) \<Rightarrow>
             if parsed \<noteq> [] then r\<lparr>cr_text := remaining, cr_tool_calls := parsed\<rparr> else r)
      | _ \<Rightarrow> r)"

definition with_recovered_calls :: "'f agent_env \<Rightarrow> nat \<Rightarrow> 'f completion_response \<Rightarrow> 'f completion_response" where
  "with_recovered_calls E n r =
     (case (cr_tool_calls r, cr_text r) of
        ([], Some t) \<Rightarrow>
          if ae_native E then r
          else
            (case ae_recover E n t of (cleaned, recovered) \<Rightarrow>
               if recovered \<noteq> [] then r\<lparr>cr_text := (if cleaned = [] then None else Some cleaned), cr_tool_calls := recovered\<rparr> else r)
      | _ \<Rightarrow> r)"

definition with_forced_exec :: "'f agent_env \<Rightarrow> nat \<Rightarrow> 'f agent_state \<Rightarrow> 'f completion_response \<Rightarrow> 'f completion_response" where
  "with_forced_exec E n s r =
     (case ae_shell E of
        Some command \<Rightarrow>
          if cr_tool_calls r = [] \<and> iterations s = 1 \<and> total_tool_calls s = 0 \<and> get_tool ''exec'' (ae_registry E n) \<noteq> None
          then r\<lparr>cr_tool_calls := [\<lparr>tc_id = ae_forced_id E n, tc_name = ''exec'', tc_arguments = Object [(''command'', String command)]\<rparr>]\<rparr>
          else r
      | None \<Rightarrow> r)"

definition text_of :: "'f completion_response \<Rightarrow> string" where
  "text_of r = (case cr_text r of Some t \<Rightarrow> t | None \<Rightarrow> [])"

text \<open>No tool calls: the model is nudged to go on, or its text is the answer.\<close>

definition on_text_answer :: "'f agent_env \<Rightarrow> 'f completion_response \<Rightarrow> 'f agent_state \<Rightarrow> 'f pass_result" where
  "on_text_answer E r s =
     (let t = text_of r in
      if \<not> is_substantive_answer_text t \<and> 0 < total_tool_calls s \<and> auto_continue_min_tool_calls (ae_config E) \<le> total_tool_calls s \<and>
         auto_continue_count s < max_auto_continues (ae_config E)
      then again (log [Emitted (AutoContinue (iterations s) (max_iterations E))]
        (s\<lparr>auto_continue_count := auto_continue_count s + 1,
           messages := messages s @ (if t \<noteq> [] then [from_response r] else []) @ [user_msg AUTO_CONTINUE_NUDGE]\<rparr>))
      else
        (let final = (if t \<noteq> [] then t else last_answer_text s) in
         Inr (Inr (finish_agent_run E final s), s\<lparr>last_answer_text := (if t \<noteq> [] then last_answer_text s else [])\<rparr>)))"

section \<open>Tool calls\<close>

definition merge_context :: "'f json_value option \<Rightarrow> 'f json_value \<Rightarrow> 'f json_value" where
  "merge_context ctx args =
     (case (Option.bind ctx as_object, as_object args) of
        (Some cs, Some ms) \<Rightarrow> Object (fold (\<lambda>(k, v). AList.update k v) cs ms)
      | _ \<Rightarrow> args)"

definition tool_hidden :: "'f agent_env \<Rightarrow> string \<Rightarrow> bool" where
  "tool_hidden E name \<longleftrightarrow>
     choice (ae_controls E) = Some ChoiceNone \<or> (case active_tools (ae_controls E) of Some active \<Rightarrow> name \<notin> set active | None \<Rightarrow> False)"

definition hidden_reason :: "'f agent_env \<Rightarrow> string \<Rightarrow> string" where
  "hidden_reason E name =
     (if choice (ae_controls E) = Some ChoiceNone then ''tool `'' @ name @ ''` cannot be called: tool use is disabled for this turn''
      else ''tool `'' @ name @ ''` is not active for this turn; choose one of the currently available tools'')"

definition tool_result_failure :: "'f agent_env \<Rightarrow> 'f json_value \<Rightarrow> string option" where
  "tool_result_failure E v =
     (let field = (\<lambda>k. Option.bind (as_object v) (\<lambda>ms. map_of ms k)) in
      case field ''error'' of
        Some err \<Rightarrow>
          if err \<noteq> Null then Some (case as_str err of Some t \<Rightarrow> t | None \<Rightarrow> ae_print E err)
          else if field ''success'' = Some (Bool False) then Some ''tool returned success: false'' else None
      | None \<Rightarrow> if field ''success'' = Some (Bool False) then Some ''tool returned success: false'' else None)"

text \<open>A call before it runs: the name and the tool it resolves to, and its arguments, or why it is rejected.\<close>

record 'f prepared_call =
  pc_name :: string
  pc_tool :: "'f agent_tool option"
  pc_args :: "'f json_value"
  pc_rejected :: "string option"

definition prepare_call :: "'f agent_env \<Rightarrow> nat \<Rightarrow> 'f tool_call \<Rightarrow> 'f prepared_call" where
  "prepare_call E n tc =
     (case resolve_tool_lookup (ae_registry E n) (sanitize_tool_name (tc_name tc)) of (tool, name) \<Rightarrow>
        (let args = merge_context (ae_context E) (tc_arguments tc) in
         if tool_hidden E name then \<lparr>pc_name = name, pc_tool = tool, pc_args = args, pc_rejected = Some (hidden_reason E name)\<rparr>
         else
           (case tool of
              None \<Rightarrow> \<lparr>pc_name = name, pc_tool = tool, pc_args = args, pc_rejected = None\<rparr>
            | Some t \<Rightarrow>
                (let args = coerce_scalar_args (ae_floats E) (to_parameters t) args in
                 \<lparr>pc_name = name, pc_tool = tool, pc_args = args,
                  pc_rejected = (case validate_tool_args (ae_floats E) (to_parameters t) args of Inl e \<Rightarrow> Some (ae_arg_error E name e) | Inr _ \<Rightarrow> None)\<rparr>))))"

record 'f call_outcome =
  oc_success :: bool
  oc_result :: "'f json_value"
  oc_error :: "string option"
  oc_rejected :: bool
  oc_ran :: "(string \<times> 'f json_value) option"

definition failed_outcome :: "string \<Rightarrow> bool \<Rightarrow> (string \<times> 'f json_value) option \<Rightarrow> 'f call_outcome" where
  "failed_outcome err rejected did =
     \<lparr>oc_success = False, oc_result = Object [(''error'', String err)], oc_error = Some err, oc_rejected = rejected, oc_ran = did\<rparr>"

definition execute_tool :: "'f agent_env \<Rightarrow> nat \<Rightarrow> nat \<Rightarrow> string \<Rightarrow> 'f json_value \<Rightarrow> 'f call_outcome" where
  "execute_tool E n k name args =
     (case ae_execute E n k name args of
        Inr v \<Rightarrow>
          (let err = tool_result_failure E v in
           \<lparr>oc_success = (err = None), oc_result = Object [(''result'', v)], oc_error = err, oc_rejected = False, oc_ran = Some (name, args)\<rparr>)
      | Inl e \<Rightarrow> failed_outcome e False (Some (name, args)))"

definition run_call :: "'f agent_env \<Rightarrow> nat \<Rightarrow> nat \<Rightarrow> 'f prepared_call \<Rightarrow> 'f call_outcome" where
  "run_call E n k pc =
     (case pc_rejected pc of
        Some err \<Rightarrow> failed_outcome err True None
      | None \<Rightarrow>
          (let go = (\<lambda>args. case pc_tool pc of
               Some t \<Rightarrow> execute_tool E n k (pc_name pc) args
             | None \<Rightarrow> failed_outcome (''unknown tool: '' @ pc_name pc) False None) in
           case dispatch_hook E n (BeforeToolCall (session_key E) (pc_name pc) (pc_args pc) (hook_channel E)) of
             HookBlock reason \<Rightarrow> failed_outcome (''blocked by hook: '' @ reason) False None
           | ModifyPayload v \<Rightarrow>
               (case pc_tool pc of
                  Some t \<Rightarrow>
                    (let args = coerce_scalar_args (ae_floats E) (to_parameters t) v in
                     case validate_tool_args (ae_floats E) (to_parameters t) args of
                       Inl e \<Rightarrow> failed_outcome (ae_arg_error E (pc_name pc) e) False None
                     | Inr _ \<Rightarrow> go args)
                | None \<Rightarrow> go v)
           | HookContinue \<Rightarrow> go (pc_args pc)))"

text \<open>The fingerprint of a call hashes the arguments as the detector sees them.\<close>

fun to_json :: "('f json_number \<Rightarrow> string) \<Rightarrow> 'f json_value \<Rightarrow> json" where
  "to_json num Null = JNull"
| "to_json num (Bool b) = JBool b"
| "to_json num (Number n) = JNumber (num n)"
| "to_json num (String t) = JString t"
| "to_json num (Array vs) = JArray (map (to_json num) vs)"
| "to_json num (Object ms) = JObject (map (\<lambda>(k, v). (k, to_json num v)) ms)"

definition call_fingerprint :: "'f agent_env \<Rightarrow> 'f tool_call \<Rightarrow> 'f call_outcome \<Rightarrow> fingerprint" where
  "call_fingerprint E tc oc =
     (if oc_success oc then success_fp (ae_hash E) (tc_name tc) (to_json (ae_number E) (tc_arguments tc))
      else failure_fp (ae_hash E) (tc_name tc) (to_json (ae_number E) (tc_arguments tc)) (oc_error oc))"

definition end_event :: "'f tool_call \<Rightarrow> 'f call_outcome \<Rightarrow> 'f runner_event" where
  "end_event tc oc =
     (if oc_rejected oc then CallRejected (tc_id tc) (tc_name tc) (tc_arguments tc) (case oc_error oc of Some e \<Rightarrow> e | None \<Rightarrow> [])
      else CallEnd (tc_id tc) (tc_name tc) (oc_success oc) (oc_error oc)
        (if oc_success oc then Option.bind (as_object (oc_result oc)) (\<lambda>ms. map_of ms ''result'') else None))"

definition persisted_result :: "'f agent_env \<Rightarrow> nat \<Rightarrow> 'f tool_call \<Rightarrow> 'f call_outcome \<Rightarrow> 'f json_value" where
  "persisted_result E n tc oc =
     (case dispatch_hook E n (ToolResultPersist (session_key E) (sanitize_tool_name (tc_name tc)) (oc_result oc) (hook_channel E)) of
        ModifyPayload v \<Rightarrow> v
      | HookBlock reason \<Rightarrow> Object [(''error'', String (''blocked by hook: '' @ reason))]
      | HookContinue \<Rightarrow> oc_result oc)"

definition process_outcome :: "'f agent_env \<Rightarrow> nat \<Rightarrow> 'f agent_state \<Rightarrow> 'f tool_call \<times> 'f call_outcome \<Rightarrow> 'f agent_state" where
  "process_outcome E n s p =
     (case p of (tc, oc) \<Rightarrow>
        log [Emitted (end_event tc oc)]
          (s\<lparr>loop_detector := (if is_enabled (loop_detector s) then fst (record_call (loop_detector s) (call_fingerprint E tc oc)) else loop_detector s),
             messages := messages s @ [ToolMsg (tc_id tc)
               (ae_sanitize E (ae_print E (persisted_result E n tc oc)) (max_tool_result_bytes (ae_config E)))]\<rparr>))"

definition stuck_tool :: "detector \<Rightarrow> string" where
  "stuck_tool d = (case window_snapshot d of fp # _ \<Rightarrow> tool_name fp | [] \<Rightarrow> [])"

definition apply_loop_detector_intervention :: "'f agent_env \<Rightarrow> 'f agent_state \<Rightarrow> 'f agent_state" where
  "apply_loop_detector_intervention E s =
     (if \<not> is_enabled (loop_detector s) then s
      else
        (case consume_pending_action (loop_detector s) of (d, action) \<Rightarrow>
           (let s = s\<lparr>loop_detector := d\<rparr> in
            case action of
              NoAction \<Rightarrow> s
            | InjectNudge \<Rightarrow>
                log [Emitted (LoopInterventionFired 1 (stuck_tool d))] (s\<lparr>messages := messages s @ [user_msg (ae_nudge E (window_snapshot d))]\<rparr>)
            | StripTools \<Rightarrow>
                log [Emitted (LoopInterventionFired 2 (stuck_tool d))]
                  (s\<lparr>messages := messages s @ [user_msg (ae_strip_note E)], strip_tools_next_iter := True\<rparr>))))"

definition start_events :: "'f tool_call list \<Rightarrow> 'f prepared_call list \<Rightarrow> 'f agent_effect list" where
  "start_events tcs pcs =
     concat (map (\<lambda>(tc, pc). if pc_rejected pc = None then [Emitted (CallStart (tc_id tc) (tc_name tc) (pc_args pc))] else []) (zip tcs pcs))"

definition ran_effects :: "'f agent_env \<Rightarrow> 'f call_outcome list \<Rightarrow> 'f agent_effect list" where
  "ran_effects E ocs =
     concat (map (\<lambda>oc. case oc_ran oc of
        Some (name, args) \<Rightarrow>
          RanTool name args #
            (if ae_hooks E = None then []
             else [Dispatched (AfterToolCall (session_key E) name (oc_success oc)
               (Option.bind (as_object (oc_result oc)) (\<lambda>ms. map_of ms ''result'')) (hook_channel E))])
      | None \<Rightarrow> []) ocs)"

definition on_tool_calls :: "'f agent_env \<Rightarrow> nat \<Rightarrow> 'f completion_response \<Rightarrow> 'f agent_state \<Rightarrow> 'f agent_state" where
  "on_tool_calls E n r s =
     (let tcs = cr_tool_calls r;
          pcs = map (prepare_call E n) tcs;
          ocs = map (\<lambda>(k, pc). run_call E n k pc) (enumerate 0 pcs);
          s = s\<lparr>last_answer_text := record_answer_text (last_answer_text s) (cr_text r), messages := messages s @ [from_response r],
                total_tool_calls := total_tool_calls s + length tcs\<rparr>;
          s = log (start_events tcs pcs @ ran_effects E ocs) s in
      apply_loop_detector_intervention E (foldl (process_outcome E n) s (zip tcs ocs)))"

section \<open>One pass and the loop\<close>

definition after_llm_call :: "'f agent_env \<Rightarrow> nat \<Rightarrow> 'f completion_response \<Rightarrow> 'f agent_state \<Rightarrow> 'f pass_result" where
  "after_llm_call E n r s =
     (case dispatch_hook E n (AfterLLMCall (session_key E) (pi_provider (ae_provider E)) (pi_model (ae_provider E)) (cr_text r)
         (map (\<lambda>tc. Object [(''id'', String (tc_id tc)), (''name'', String (tc_name tc)), (''arguments'', tc_arguments tc)]) (cr_tool_calls r))
         (input_tokens (cr_usage r)) (output_tokens (cr_usage r)) (iterations s)) of
        HookBlock reason \<Rightarrow> stop_with (OtherError (''blocked by AfterLLMCall hook: '' @ reason)) s
      | _ \<Rightarrow> if cr_tool_calls r = [] then on_text_answer E r s else again (on_tool_calls E n r s))"

definition on_response :: "'f agent_env \<Rightarrow> nat \<Rightarrow> 'f completion_response \<Rightarrow> 'f agent_state \<Rightarrow> 'f pass_result" where
  "on_response E n r s =
     (let s = record_request (cr_usage r) (log [Emitted ThinkingDone] s);
          r = with_text_calls E n r in
      if cr_tool_calls r = [] \<and> ae_looks_failed E (cr_text r) \<and> malformed_retry_count s = 0 then
        again (s\<lparr>malformed_retry_count := 1,
          messages := messages s @ [assistant_msg (text_of r), user_msg MALFORMED_TOOL_RETRY_PROMPT]\<rparr>)
      else
        (let r = with_forced_exec E n s (with_recovered_calls E n r) in
         case find_empty_tool_name_call (cr_tool_calls r) of
           Some tc \<Rightarrow>
             if \<not> has_named_tool_call (cr_tool_calls r) \<and> empty_tool_name_retry_count s = 0 then
               again (s\<lparr>empty_tool_name_retry_count := 1, last_answer_text := record_answer_text (last_answer_text s) (cr_text r),
                 messages := messages s @ [assistant_msg (text_of r), user_msg (empty_tool_name_retry_prompt (ae_print E) tc)]\<rparr>)
             else after_llm_call E n r s
         | None \<Rightarrow> after_llm_call E n r s))"

definition ask_model :: "'f agent_env \<Rightarrow> 'f json_value list \<Rightarrow> 'f agent_state \<Rightarrow> 'f pass_result" where
  "ask_model E schemas s =
     (let n = asked s; s = log [Emitted Thinking, AskedModel (messages s) schemas] (s\<lparr>asked := Suc n\<rparr>) in
      case ae_complete E n (messages s) schemas of
        Inl msg \<Rightarrow> on_model_error msg s
      | Inr r \<Rightarrow> on_response E n r s)"

definition before_ask :: "'f agent_env \<Rightarrow> 'f agent_state \<Rightarrow> agent_error \<times> 'f agent_state + 'f json_value list \<times> 'f agent_state" where
  "before_ask E s =
     (let s = s\<lparr>iterations := Suc (iterations s)\<rparr> in
      if max_iterations E < iterations s then
        Inl (OtherError (''agent loop exceeded max iterations ('' @ show_nat (max_iterations E) @ '')''), s)
      else
        (case schemas_for_api E s of
           Inl e \<Rightarrow> Inl (e, s)
         | Inr schemas \<Rightarrow>
             (let s = clear_strip s;
                  ratio = (if compaction_min_iterations (ae_config E) < iterations s then tool_result_compaction_ratio (ae_config E) else 0) in
              case enforce_tool_result_context_budget (ae_print E) schemas (ae_context_window E) ratio (preemptive_overflow_ratio (ae_config E)) (messages s) of
                Inl e \<Rightarrow> Inl (e, s)
              | Inr msgs \<Rightarrow>
                  (let s = log [Emitted (Iteration (iterations s))] (s\<lparr>messages := msgs\<rparr>) in
                   case before_llm_call E schemas s of
                     Inl e \<Rightarrow> Inl (e, s)
                   | Inr s \<Rightarrow> Inr (schemas, s)))))"

definition agent_pass :: "'f agent_env \<Rightarrow> 'f agent_state \<Rightarrow> 'f pass_result" where
  "agent_pass E s = (case before_ask E s of Inl (e, s) \<Rightarrow> stop_with e s | Inr (schemas, s) \<Rightarrow> ask_model E schemas s)"

text \<open>What is left of a run: iterations, and retries of the model.\<close>

definition passes_left :: "'f agent_env \<Rightarrow> 'f agent_state \<Rightarrow> nat" where
  "passes_left E s = max_iterations E - iterations s + retries_left (budget s)"

definition state_of :: "'f pass_result \<Rightarrow> 'f agent_state" where
  "state_of x = (case x of Inl s \<Rightarrow> s | Inr r \<Rightarrow> snd r)"

lemma state_of_simps [simp]: "state_of (Inl s) = s" "state_of (Inr r) = snd r" "state_of (stop_with e s) = s"
  by (simp_all add: state_of_def stop_with_def)

text \<open>What a list of effects says: the calls of the model, and the pauses before retries.\<close>

definition model_calls :: "'f agent_effect list \<Rightarrow> nat" where
  "model_calls es = length (filter (\<lambda>e. case e of AskedModel m sch \<Rightarrow> True | _ \<Rightarrow> False) es)"

definition pauses :: "'f agent_effect list \<Rightarrow> nat list" where
  "pauses es = concat (map (\<lambda>e. case e of Slept d \<Rightarrow> [d] | _ \<Rightarrow> []) es)"

lemma model_calls_simps [simp]:
  "model_calls (xs @ ys) = model_calls xs + model_calls ys" "model_calls (AskedModel m sch # xs) = Suc (model_calls xs)"
  "model_calls (RanTool a v # xs) = model_calls xs" "model_calls (Dispatched p # xs) = model_calls xs"
  "model_calls (Slept d # xs) = model_calls xs" "model_calls (Emitted ev # xs) = model_calls xs" "model_calls [] = 0"
  by (simp_all add: model_calls_def)

lemma pauses_simps [simp]:
  "pauses (xs @ ys) = pauses xs @ pauses ys" "pauses (AskedModel m sch # xs) = pauses xs" "pauses (RanTool a v # xs) = pauses xs"
  "pauses (Dispatched p # xs) = pauses xs" "pauses (Slept d # xs) = d # pauses xs" "pauses (Emitted ev # xs) = pauses xs" "pauses [] = []"
  by (simp_all add: pauses_def)

text \<open>Everything that handles an answer keeps the counters of the loop: it neither asks nor waits.\<close>

definition same_counters :: "'f agent_state \<Rightarrow> 'f agent_state \<Rightarrow> bool" where
  "same_counters s t \<longleftrightarrow>
     iterations t = iterations s \<and> budget t = budget s \<and> asked t = asked s \<and>
     model_calls (effects t) = model_calls (effects s) \<and> pauses (effects t) = pauses (effects s)"

named_theorems counters \<open>steps of a pass that keep its counters\<close>

lemma counters_refl [counters]: "same_counters s s"
  by (simp add: same_counters_def)

lemma counters_trans: "same_counters s t \<Longrightarrow> same_counters t u \<Longrightarrow> same_counters s u"
  by (simp add: same_counters_def)

lemma counters_outcomes [counters]: "same_counters s (foldl (process_outcome E n) s ps)"
proof (induction ps arbitrary: s)
  case (Cons p ps)
  have "same_counters s (process_outcome E n s p)" by (cases p) (simp add: same_counters_def process_outcome_def log_def)
  then show ?case using Cons.IH counters_trans by fastforce
qed (simp add: same_counters_def)

lemma counters_intervention [counters]: "same_counters s (apply_loop_detector_intervention E s)"
  by (auto simp: same_counters_def apply_loop_detector_intervention_def log_def Let_def split: prod.splits detector_action.splits)

lemma quiet_start: "model_calls (start_events tcs pcs) = 0 \<and> pauses (start_events tcs pcs) = []"
  unfolding start_events_def by (induction tcs pcs rule: list_induct2') auto

lemma quiet_ran: "model_calls (ran_effects E ocs) = 0 \<and> pauses (ran_effects E ocs) = []"
  unfolding ran_effects_def by (induction ocs) (auto split: option.split)

lemma counters_tool_calls [counters]: "same_counters s (on_tool_calls E n r s)"
proof -
  let ?ps = "zip (cr_tool_calls r) (map (\<lambda>(k, pc). run_call E n k pc) (enumerate 0 (map (prepare_call E n) (cr_tool_calls r))))"
  have "\<exists>t. same_counters s t \<and> on_tool_calls E n r s = apply_loop_detector_intervention E (foldl (process_outcome E n) t ?ps)"
    unfolding on_tool_calls_def Let_def
    by (rule exI, rule conjI [OF _ refl]) (simp add: same_counters_def log_def quiet_start quiet_ran)
  then show ?thesis using counters_outcomes counters_intervention counters_trans by metis
qed

lemma after_llm_counters [counters]: "same_counters s (state_of (after_llm_call E n r s))"
  using counters_tool_calls [of s E n r]
  by (auto simp: after_llm_call_def on_text_answer_def same_counters_def log_def Let_def split: hook_action.splits)

lemma on_response_counters [counters]: "same_counters s (state_of (on_response E n r s))"
proof -
  let ?s = "record_request (cr_usage r) (log [Emitted ThinkingDone] s)"
  have s: "same_counters s ?s" by (simp add: same_counters_def record_request_def log_def)
  moreover have "same_counters ?s (state_of (on_response E n r s))"
    using after_llm_counters by (auto simp: on_response_def Let_def same_counters_def split: option.splits)
  ultimately show ?thesis by (rule counters_trans)
qed

lemma before_ask_counters:
  "before_ask E s = Inr (schemas, u) \<Longrightarrow> iterations s < max_iterations E \<and> same_counters (s\<lparr>iterations := Suc (iterations s)\<rparr>) u"
  "before_ask E s = Inl (e, u) \<Longrightarrow> same_counters (s\<lparr>iterations := Suc (iterations s)\<rparr>) u"
  by (auto simp: before_ask_def Let_def log_def clear_strip_def before_llm_call_def same_counters_def split: if_splits sum.splits hook_action.splits)

text \<open>What a pass does to the counters: it stops before the call, it gets an answer, it gives up on an error, or it retries.\<close>

lemma pass_counters:
  obtains (stopped) e where "agent_pass E s = Inr (Inl e, state_of (agent_pass E s))"
      "same_counters (s\<lparr>iterations := Suc (iterations s)\<rparr>) (state_of (agent_pass E s))"
  | (answered) u msgs schemas where "iterations s < max_iterations E" "same_counters (s\<lparr>iterations := Suc (iterations s)\<rparr>) u"
      "same_counters (log [AskedModel msgs schemas] (u\<lparr>asked := Suc (asked u)\<rparr>)) (state_of (agent_pass E s))"
  | (retried) u msgs schemas d b msg where "iterations s < max_iterations E" "same_counters (s\<lparr>iterations := Suc (iterations s)\<rparr>) u"
      "next_retry_delay_ms msg (budget u) = (Some d, b)"
      "same_counters (log [AskedModel msgs schemas, Slept d] (u\<lparr>asked := Suc (asked u), budget := b, iterations := iterations s\<rparr>)) (state_of (agent_pass E s))"
proof (cases "before_ask E s")
  case (Inl p)
  then show ?thesis using before_ask_counters(2) [of E s "fst p" "snd p"] stopped by (cases p) (auto simp: agent_pass_def stop_with_def)
next
  case (Inr p)
  then obtain schemas u where p: "before_ask E s = Inr (schemas, u)" by (cases p) auto
  note u = before_ask_counters(1) [OF p]
  let ?u = "log [Emitted Thinking, AskedModel (messages u) schemas] (u\<lparr>asked := Suc (asked u)\<rparr>)"
  have ask: "same_counters (log [AskedModel (messages u) schemas] (u\<lparr>asked := Suc (asked u)\<rparr>)) ?u" by (simp add: same_counters_def log_def)
  show ?thesis
  proof (cases "ae_complete E (asked u) (messages u) schemas")
    case (Inr r)
    then have "agent_pass E s = on_response E (asked u) r ?u" by (simp add: agent_pass_def p ask_model_def Let_def log_def)
    then show ?thesis using answered [OF _ _ counters_trans [OF ask]] u on_response_counters [of ?u E "asked u" r] by simp
  next
    case (Inl msg)
    then have pass: "agent_pass E s = on_model_error msg ?u" by (simp add: agent_pass_def p ask_model_def Let_def log_def)
    obtain x b where n: "next_retry_delay_ms msg (budget u) = (x, b)" by fastforce
    consider "is_context_window_error msg \<or> x = None" | d where "\<not> is_context_window_error msg" "x = Some d" by (cases x) auto
    then show ?thesis
    proof cases
      case 1
      then have "same_counters ?u (state_of (on_model_error msg ?u))"
        using n no_retry_keeps [of msg "budget u" b] by (auto simp: on_model_error_def same_counters_def log_def)
      then show ?thesis using answered [OF _ _ counters_trans [OF ask]] u pass by simp
    next
      case 2
      then have "same_counters (log [AskedModel (messages u) schemas, Slept d] (u\<lparr>asked := Suc (asked u), budget := b, iterations := iterations s\<rparr>))
          (state_of (agent_pass E s))"
        using n u by (simp add: pass on_model_error_def same_counters_def log_def)
      then show ?thesis using retried [OF _ _ n [unfolded 2(2)]] u by simp
    qed
  qed
qed

lemma pass_decreases:
  assumes "agent_pass E s = Inl t"
  shows "passes_left E t < passes_left E s \<and> asked t = Suc (asked s)"
proof (cases rule: pass_counters [of E s])
  case (retried u msgs schemas d b msg)
  then show ?thesis using assms retry_costs [OF retried(3)] by (auto simp: same_counters_def passes_left_def log_def)
qed (use assms in \<open>auto simp: same_counters_def passes_left_def log_def\<close>)

function agent_loop :: "'f agent_env \<Rightarrow> 'f agent_state \<Rightarrow> (agent_error + agent_run_result) \<times> 'f agent_state" where
  "agent_loop E s = (case agent_pass E s of Inl t \<Rightarrow> agent_loop E t | Inr r \<Rightarrow> r)"
  by pat_completeness auto
termination
  by (relation "measure (\<lambda>(E, s). passes_left E s)") (use pass_decreases in auto)

declare agent_loop.simps [simp del]

definition initial_state :: "'f agent_env \<Rightarrow> string \<Rightarrow> 'f chat_message list \<Rightarrow> user_content \<Rightarrow> string option \<Rightarrow> 'f agent_state" where
  "initial_state E system_prompt history content sender =
     \<lparr>iterations = 0, total_tool_calls = 0, usage_total = no_usage, usage_request = no_usage, budget = new_budget, last_answer_text = [],
      malformed_retry_count = 0, empty_tool_name_retry_count = 0, auto_continue_count = 0,
      loop_detector = new_detector (detector_window (ae_config E)) (detector_strips (ae_config E)), strip_tools_next_iter = False,
      messages = SystemMsg system_prompt # history @ [UserMsg content sender], asked = 0, effects = []\<rparr>"

definition turn_env :: "'f agent_env \<Rightarrow> user_content \<Rightarrow> 'f agent_env" where
  "turn_env E content = E\<lparr>ae_controls := from_tool_context (ae_context E), ae_shell := explicit_shell_command_from_user_content content\<rparr>"

definition run_agent_loop ::
  "'f agent_env \<Rightarrow> string \<Rightarrow> 'f chat_message list \<Rightarrow> user_content \<Rightarrow> string option \<Rightarrow> (agent_error + agent_run_result) \<times> 'f agent_state" where
  "run_agent_loop E system_prompt history content sender =
     (let E = turn_env E content; s = initial_state E system_prompt history content sender in
      case dispatch_hook E 0 (BeforeAgentStart (session_key E) (pi_model (ae_provider E))) of
        HookBlock reason \<Rightarrow> (Inl (OtherError (''blocked by BeforeAgentStart hook: '' @ reason)), s)
      | _ \<Rightarrow> agent_loop E s)"

section \<open>A run ends\<close>

lemma loop_invariant:
  assumes "\<And>s. P s \<Longrightarrow> P (state_of (agent_pass E s))" "P s"
  shows "P (snd (agent_loop E s))"
  using assms(2)
proof (induction s rule: measure_induct_rule [of "passes_left E"])
  case (less s)
  show ?case
  proof (cases "agent_pass E s")
    case (Inl t)
    then have "P t" using assms(1) [OF less.prems] by simp
    moreover have "passes_left E t < passes_left E s" using pass_decreases [OF Inl] by blast
    ultimately show ?thesis using less.IH Inl by (subst agent_loop.simps) simp
  next
    case (Inr r)
    then show ?thesis using assms(1) [OF less.prems] by (subst agent_loop.simps) simp
  qed
qed

text \<open>Every pass asks the model at most once, and a pass that is not the last costs an iteration or a retry.\<close>

lemma pass_asks: "asked (state_of (agent_pass E s)) \<le> asked s + (if iterations s < max_iterations E then 1 else 0)"
  by (cases rule: pass_counters [of E s]) (auto simp: same_counters_def log_def)

lemma loop_asks_bounded: "asked (snd (agent_loop E s)) \<le> asked s + passes_left E s"
proof (induction s rule: measure_induct_rule [of "passes_left E"])
  case (less s)
  show ?case
  proof (cases "agent_pass E s")
    case (Inl t)
    with pass_decreases [OF Inl] less.IH [of t] show ?thesis by (subst agent_loop.simps) simp
  next
    case (Inr r)
    with pass_asks [of E s] show ?thesis by (subst agent_loop.simps) (auto simp: passes_left_def split: if_splits)
  qed
qed

section \<open>Transcripts\<close>

text \<open>A transcript that services accept: after an assistant's message with tool calls come the results of exactly these calls, in their order,
  and results come nowhere else. The first argument lists the calls that still wait.\<close>

fun well_paired :: "string list \<Rightarrow> 'f chat_message list \<Rightarrow> bool" where
  "well_paired waiting [] = (waiting = [])"
| "well_paired waiting (ToolMsg i c # ms) = (case waiting of j # js \<Rightarrow> i = j \<and> well_paired js ms | [] \<Rightarrow> False)"
| "well_paired waiting (AssistantMsg c calls r # ms) = (waiting = [] \<and> well_paired (map tc_id calls) ms)"
| "well_paired waiting (SystemMsg c # ms) = (waiting = [] \<and> well_paired [] ms)"
| "well_paired waiting (UserMsg c n # ms) = (waiting = [] \<and> well_paired [] ms)"

lemma well_paired_append: "well_paired w xs \<Longrightarrow> well_paired [] ys \<Longrightarrow> well_paired w (xs @ ys)"
  by (induction w xs rule: well_paired.induct) (auto split: list.splits)

lemma well_paired_plain: "well_paired [] [user_msg t]" "well_paired [] [assistant_msg t, user_msg u]"
  by (simp_all add: user_msg_def assistant_msg_def)

lemma well_paired_results:
  "length ocs = length tcs \<Longrightarrow> well_paired (map tc_id tcs) (map (\<lambda>(tc, oc). ToolMsg (tc_id tc) (f tc oc)) (zip tcs ocs))"
  by (induction tcs ocs rule: list_induct2') auto

lemma compact_loop_paired: "well_paired w (fst (compact_loop prnt needed reduced ms)) \<longleftrightarrow> well_paired w ms"
proof (induction prnt needed reduced ms arbitrary: w rule: compact_loop.induct)
  case (2 prnt needed reduced m ms)
  then show ?case by (cases m) (auto simp: Let_def split: list.splits)
qed simp

lemma enforce_paired:
  "enforce_tool_result_context_budget prnt schemas cw cr ov ms = Inr ms' \<Longrightarrow> well_paired w ms' \<longleftrightarrow> well_paired w ms"
  by (auto simp: enforce_tool_result_context_budget_def compact_tool_results_oldest_first_in_place_def compact_loop_paired Let_def split: if_splits)

text \<open>Which tools run: visible ones of the registry, with arguments that passed the validation.\<close>

definition admitted_run :: "'f agent_env \<Rightarrow> string \<Rightarrow> 'f json_value \<Rightarrow> bool" where
  "admitted_run E name args \<longleftrightarrow>
     (\<exists>n t a seen. get_tool name (ae_registry E n) = Some t \<and> \<not> tool_hidden E name \<and>
        prepare_args (ae_floats E) (to_parameters t) (merge_context (ae_context E) a) = Inr seen \<and>
        (case dispatch_hook E n (BeforeToolCall (session_key E) name seen (hook_channel E)) of
           HookContinue \<Rightarrow> args = seen
         | ModifyPayload v \<Rightarrow> prepare_args (ae_floats E) (to_parameters t) v = Inr args
         | HookBlock reason \<Rightarrow> False))"

lemma resolve_is_get: "resolve_tool_lookup reg name = (tool, name') \<Longrightarrow> tool = get_tool name' reg"
  by (auto simp: resolve_tool_lookup_def split: option.splits)

lemma execute_tool_ran: "oc_ran (execute_tool E n k name args) = Some p \<Longrightarrow> p = (name, args)"
  by (auto simp: execute_tool_def failed_outcome_def Let_def split: sum.splits)

lemma prepare_args_iff:
  "prepare_args fl schema x = Inr args \<longleftrightarrow> args = coerce_scalar_args fl schema x \<and> validate_tool_args fl schema args = Inr ()"
  by (auto simp: prepare_args_def Let_def split: sum.splits)

lemma run_call_admitted:
  assumes "oc_ran (run_call E n k (prepare_call E n tc)) = Some (name, args)"
  shows "admitted_run E name args"
proof -
  obtain tool nm where res: "resolve_tool_lookup (ae_registry E n) (sanitize_tool_name (tc_name tc)) = (tool, nm)" by fastforce
  let ?pc = "prepare_call E n tc" and ?x = "merge_context (ae_context E) (tc_arguments tc)"
  have nm: "pc_name ?pc = nm" "pc_tool ?pc = tool" by (auto simp: prepare_call_def res Let_def split: option.splits)
  have acc: "pc_rejected ?pc = None" using assms by (cases "pc_rejected ?pc") (auto simp: run_call_def failed_outcome_def)
  then have vis: "\<not> tool_hidden E nm" by (auto simp: prepare_call_def res Let_def)
  obtain t where t: "tool = Some t"
    using assms acc nm by (cases tool) (auto simp: run_call_def failed_outcome_def Let_def split: hook_action.splits)
  have seen: "prepare_args (ae_floats E) (to_parameters t) ?x = Inr (pc_args ?pc)"
    using acc t vis by (auto simp: prepare_call_def res prepare_args_iff Let_def split: sum.splits)
  have hook: "name = nm \<and> (case dispatch_hook E n (BeforeToolCall (session_key E) nm (pc_args ?pc) (hook_channel E)) of
      HookContinue \<Rightarrow> args = pc_args ?pc
    | ModifyPayload v \<Rightarrow> prepare_args (ae_floats E) (to_parameters t) v = Inr args
    | HookBlock reason \<Rightarrow> False)"
    using assms acc nm t
    by (auto simp: run_call_def failed_outcome_def prepare_args_iff Let_def dest!: execute_tool_ran split: hook_action.splits sum.splits)
  moreover have "get_tool nm (ae_registry E n) = Some t" using resolve_is_get [OF res] t by simp
  ultimately show ?thesis
    using vis seen unfolding admitted_run_def by (intro exI [of _ n] exI [of _ t] exI [of _ "tc_arguments tc"] exI [of _ "pc_args ?pc"]) simp
qed

text \<open>The invariant of a run: every tool that ran was admitted and, where \<open>P\<close> asks for it, the transcript is well paired and so was every one that the model saw.\<close>

definition within_budget :: "'f agent_env \<Rightarrow> 'f chat_message list \<Rightarrow> 'f json_value list \<Rightarrow> bool" where
  "within_budget E msgs schemas \<longleftrightarrow>
     ae_context_window E = 0 \<or> \<not> has_tool_result_messages msgs \<or>
     estimate_prompt_tokens (ae_print E) msgs schemas \<le> saturating_mul (ae_context_window E) (preemptive_overflow_ratio (ae_config E)) div 100"

lemma enforce_within_budget:
  "enforce_tool_result_context_budget (ae_print E) schemas (ae_context_window E) cr (preemptive_overflow_ratio (ae_config E)) ms = Inr ms' \<Longrightarrow>
     within_budget E ms' schemas"
  by (auto simp: enforce_tool_result_context_budget_def within_budget_def Let_def split: if_splits)

fun effect_ok :: "bool \<Rightarrow> 'f agent_env \<Rightarrow> 'f agent_effect \<Rightarrow> bool" where
  "effect_ok P E (AskedModel msgs schemas) = ((P \<longrightarrow> well_paired [] msgs) \<and> (ae_hooks E = None \<longrightarrow> within_budget E msgs schemas))"
| "effect_ok P E (RanTool name args) = admitted_run E name args"
| "effect_ok P E _ = True"

definition run_ok :: "bool \<Rightarrow> 'f agent_env \<Rightarrow> 'f agent_state \<Rightarrow> bool" where
  "run_ok P E s \<longleftrightarrow> list_all (effect_ok P E) (effects s) \<and> (P \<longrightarrow> well_paired [] (messages s))"

definition hooks_pair :: "'f agent_env \<Rightarrow> bool" where
  "hooks_pair E \<longleftrightarrow> ae_hooks E = None \<or> (\<forall>vs. well_paired [] (ae_parse_messages E vs))"

lemma run_ok_log: "run_ok P E (log es s) \<longleftrightarrow> run_ok P E s \<and> list_all (effect_ok P E) es"
  by (auto simp: run_ok_def log_def)

lemma run_ok_cong: "effects t = effects s \<Longrightarrow> messages t = messages s \<Longrightarrow> run_ok P E t \<longleftrightarrow> run_ok P E s"
  by (simp add: run_ok_def)

lemma run_ok_push: "effects t = effects s \<Longrightarrow> messages t = messages s @ ms \<Longrightarrow> run_ok P E s \<Longrightarrow> well_paired [] ms \<Longrightarrow> run_ok P E t"
  by (simp add: run_ok_def well_paired_append)

lemma before_llm_call_ok:
  assumes "run_ok P E s" "P \<longrightarrow> hooks_pair E" "before_llm_call E schemas s = Inr u"
  shows "run_ok P E u"
proof (cases "ae_hooks E")
  case None
  then show ?thesis using assms by (simp add: before_llm_call_def dispatch_hook_def)
next
  case (Some hooks)
  then have "P \<longrightarrow> well_paired [] (apply_before_llm_call_modify_payload E v (messages s))" for v
    using assms(1,2) by (auto simp: apply_before_llm_call_modify_payload_def hooks_pair_def run_ok_def Let_def split: option.splits)
  then show ?thesis using assms(1,3) by (auto simp: before_llm_call_def run_ok_def split: hook_action.splits)
qed

lemma before_ask_ok:
  assumes "run_ok P E s" "P \<longrightarrow> hooks_pair E"
  shows "case before_ask E s of Inl (e, u) \<Rightarrow> run_ok P E u
    | Inr (schemas, u) \<Rightarrow> run_ok P E u \<and> (ae_hooks E = None \<longrightarrow> within_budget E (messages u) schemas)"
proof -
  let ?s = "s\<lparr>iterations := Suc (iterations s)\<rparr>"
  have s1: "run_ok P E ?s" "run_ok P E (clear_strip ?s)" using assms(1) by (simp_all add: run_ok_def clear_strip_def)
  have s2: "run_ok P E (log [Emitted ev] (clear_strip ?s\<lparr>messages := msgs\<rparr>))"
    if "enforce_tool_result_context_budget prnt schemas cw cr ov (messages (clear_strip ?s)) = Inr msgs" for prnt schemas cw cr ov msgs ev
    using s1(2) enforce_paired [OF that, of "[]"] by (simp add: run_ok_log) (simp add: run_ok_def)
  have s3: "ae_hooks E = None \<longrightarrow> within_budget E (messages u) schemas"
    if "enforce_tool_result_context_budget (ae_print E) schemas (ae_context_window E) cr (preemptive_overflow_ratio (ae_config E)) ms = Inr msgs"
      "before_llm_call E schemas (log es (t\<lparr>messages := msgs\<rparr>)) = Inr u" for schemas cr ms msgs es t u
    using enforce_within_budget [OF that(1)] that(2) by (auto simp: before_llm_call_def dispatch_hook_def log_def)
  show ?thesis unfolding before_ask_def Let_def
    using s1 s2 s3 before_llm_call_ok [OF s2 assms(2)] by (auto split: sum.splits)
qed

lemma process_outcome_eqs:
  "messages (process_outcome E n s (tc, oc)) = messages s @ [ToolMsg (tc_id tc)
     (ae_sanitize E (ae_print E (persisted_result E n tc oc)) (max_tool_result_bytes (ae_config E)))]"
  "effects (process_outcome E n s (tc, oc)) = effects s @ [Emitted (end_event tc oc)]"
  by (simp_all add: process_outcome_def log_def)

lemma outcomes_messages:
  "messages (foldl (process_outcome E n) s ps) = messages s @ map (\<lambda>(tc, oc). ToolMsg (tc_id tc)
     (ae_sanitize E (ae_print E (persisted_result E n tc oc)) (max_tool_result_bytes (ae_config E)))) ps"
proof (induction ps arbitrary: s)
  case (Cons p ps)
  obtain tc oc where "p = (tc, oc)" by fastforce
  then show ?case using Cons.IH [of "process_outcome E n s p"] by (simp add: process_outcome_eqs)
qed simp

lemma outcomes_effects: "list_all (effect_ok P E) (effects (foldl (process_outcome E n) s ps)) \<longleftrightarrow> list_all (effect_ok P E) (effects s)"
proof (induction ps arbitrary: s)
  case (Cons p ps)
  obtain tc oc where "p = (tc, oc)" by fastforce
  then show ?case using Cons.IH [of "process_outcome E n s p"] by (simp add: process_outcome_eqs)
qed simp

lemma intervention_ok:
  assumes "run_ok P E s"
  shows "run_ok P E (apply_loop_detector_intervention E s)"
proof -
  have push: "run_ok P E (log [Emitted ev] (s\<lparr>loop_detector := d, messages := messages s @ [user_msg m]\<rparr>))"
    "run_ok P E (log [Emitted ev] (s\<lparr>loop_detector := d, messages := messages s @ [user_msg m], strip_tools_next_iter := b\<rparr>))"
    "run_ok P E (s\<lparr>loop_detector := d\<rparr>)" for ev d m b
    using assms by (simp_all add: run_ok_def log_def well_paired_append well_paired_plain)
  obtain d action where "consume_pending_action (loop_detector s) = (d, action)" by fastforce
  then show ?thesis using assms push by (cases action) (simp_all add: apply_loop_detector_intervention_def)
qed

lemma on_tool_calls_ok:
  assumes "run_ok P E s"
  shows "run_ok P E (on_tool_calls E n r s)"
proof -
  let ?tcs = "cr_tool_calls r" and ?pcs = "map (prepare_call E n) (cr_tool_calls r)"
  let ?ocs = "map (\<lambda>(k, pc). run_call E n k pc) (enumerate 0 ?pcs)"
  let ?t = "log (start_events ?tcs ?pcs @ ran_effects E ?ocs) (s\<lparr>last_answer_text := record_answer_text (last_answer_text s) (cr_text r),
      messages := messages s @ [from_response r], total_tool_calls := total_tool_calls s + length ?tcs\<rparr>)"
  have "effect_ok P E ef" if ran: "ef \<in> set (ran_effects E ?ocs)" for ef
  proof (cases ef)
    case (RanTool name args)
    then obtain k pc where oc: "(k, pc) \<in> set (enumerate 0 ?pcs)" "Some (name, args) = oc_ran (run_call E n k pc)"
      using ran by (auto simp: ran_effects_def split: option.splits if_splits)
    then obtain tc where "pc = prepare_call E n tc" by (auto simp: in_set_enumerate_eq)
    then show ?thesis using run_call_admitted [of E n k tc name args] oc RanTool by simp
  next
    case (AskedModel m sch)
    then show ?thesis using ran by (auto simp: ran_effects_def split: option.splits if_splits)
  qed simp_all
  then have "list_all (effect_ok P E) (start_events ?tcs ?pcs @ ran_effects E ?ocs)"
    by (auto simp: list_all_iff start_events_def split: if_splits)
  then have effs: "list_all (effect_ok P E) (effects ?t)" using assms by (simp add: run_ok_def log_def)
  have "well_paired [] ([from_response r] @ map (\<lambda>(tc, oc). ToolMsg (tc_id tc)
      (ae_sanitize E (ae_print E (persisted_result E n tc oc)) (max_tool_result_bytes (ae_config E)))) (zip ?tcs ?ocs))"
    by (simp add: from_response_def well_paired_results)
  then have "run_ok P E (foldl (process_outcome E n) ?t (zip ?tcs ?ocs))"
    using assms effs by (simp add: run_ok_def outcomes_messages outcomes_effects well_paired_append log_def)
  then show ?thesis unfolding on_tool_calls_def Let_def by (rule intervention_ok)
qed

lemma on_text_answer_ok:
  assumes "run_ok P E s" "cr_tool_calls r = []"
  shows "run_ok P E (state_of (on_text_answer E r s))"
proof -
  have "well_paired [] ((if t \<noteq> [] then [from_response r] else []) @ [user_msg AUTO_CONTINUE_NUDGE])" for t :: string
    using assms(2) by (simp add: from_response_def user_msg_def)
  then have "run_ok P E (log [Emitted ev] (s\<lparr>auto_continue_count := c,
      messages := messages s @ (if t \<noteq> [] then [from_response r] else []) @ [user_msg AUTO_CONTINUE_NUDGE]\<rparr>))" for ev c and t :: string
    using assms(1) by (simp add: run_ok_def log_def well_paired_append)
  moreover have "run_ok P E (s\<lparr>last_answer_text := t\<rparr>)" for t using assms(1) by (simp add: run_ok_def)
  ultimately show ?thesis unfolding on_text_answer_def Let_def by (simp only: state_of_simps snd_conv split: if_split) blast
qed

lemma after_llm_ok: "run_ok P E s \<Longrightarrow> run_ok P E (state_of (after_llm_call E n r s))"
  unfolding after_llm_call_def by (simp add: on_text_answer_ok on_tool_calls_ok split: hook_action.split)

lemma on_response_ok:
  assumes "run_ok P E s"
  shows "run_ok P E (state_of (on_response E n r s))"
proof -
  have "run_ok P E (record_request (cr_usage r) (log [Emitted ThinkingDone] s))" using assms by (simp add: record_request_def run_ok_def log_def)
  then show ?thesis unfolding on_response_def Let_def
    by (auto intro: after_llm_ok run_ok_push [OF _ _ _ well_paired_plain(2)] split: option.splits)
qed

lemma pass_ok:
  assumes "P \<longrightarrow> hooks_pair E" "run_ok P E s"
  shows "run_ok P E (state_of (agent_pass E s))"
proof -
  have err: "run_ok P E (state_of (on_model_error msg u))" if "run_ok P E u" for msg u
    using that by (auto simp: on_model_error_def run_ok_log run_ok_def log_def split: prod.splits option.splits)
  have "run_ok P E (state_of (ask_model E schemas u))"
    if "run_ok P E u" "ae_hooks E = None \<longrightarrow> within_budget E (messages u) schemas" for schemas u
  proof -
    have "run_ok P E (log [Emitted Thinking, AskedModel (messages u) schemas] (u\<lparr>asked := Suc (asked u)\<rparr>))"
      using that by (simp add: run_ok_def log_def)
    then show ?thesis using err on_response_ok by (auto simp: ask_model_def Let_def split: sum.splits)
  qed
  then show ?thesis using before_ask_ok [OF assms(2,1)] by (auto simp: agent_pass_def split: sum.splits prod.splits)
qed

lemma run_invariant:
  assumes "P \<longrightarrow> hooks_pair E \<and> well_paired [] history"
  shows "list_all (effect_ok P (turn_env E content)) (effects (snd (run_agent_loop E system_prompt history content sender)))"
proof -
  let ?E = "turn_env E content"
  let ?s = "initial_state ?E system_prompt history content sender"
  have "P \<longrightarrow> hooks_pair ?E" using assms by (simp add: hooks_pair_def turn_env_def)
  moreover have "run_ok P ?E ?s" using assms by (simp add: run_ok_def initial_state_def well_paired_append)
  ultimately have "run_ok P ?E (snd (agent_loop ?E ?s))" using pass_ok by (intro loop_invariant [where P = "run_ok P ?E"])
  then show ?thesis by (simp add: run_agent_loop_def run_ok_def initial_state_def Let_def split: hook_action.split)
qed

lemma list_all_weaken: "list_all p xs \<Longrightarrow> (\<And>x. p x \<Longrightarrow> q x) \<Longrightarrow> list_all q xs"
  by (auto simp: list_all_iff)

section \<open>The end of a run\<close>

text \<open>The loop, cut after a number of passes.\<close>

fun cut_loop :: "nat \<Rightarrow> 'f agent_env \<Rightarrow> 'f agent_state \<Rightarrow> ((agent_error + agent_run_result) \<times> 'f agent_state) option" where
  "cut_loop 0 E s = None"
| "cut_loop (Suc n) E s = (case agent_pass E s of Inl t \<Rightarrow> cut_loop n E t | Inr r \<Rightarrow> Some r)"

lemma cut_loop_enough: "passes_left E s < n \<Longrightarrow> cut_loop n E s = Some (agent_loop E s)"
proof (induction n arbitrary: s)
  case (Suc n)
  show ?case
  proof (cases "agent_pass E s")
    case (Inl t)
    then have "cut_loop n E t = Some (agent_loop E t)" using pass_decreases [OF Inl] Suc by simp
    then show ?thesis using Inl by (simp add: agent_loop.simps [of E s])
  next
    case (Inr r)
    then show ?thesis by (simp add: agent_loop.simps [of E s])
  qed
qed simp

definition waits_ok :: "'f agent_state \<Rightarrow> bool" where
  "waits_ok s \<longleftrightarrow> model_calls (effects s) = asked s \<and> length (pauses (effects s)) + retries_left (budget s) \<le> 11 \<and>
     list_all (\<lambda>d. 1 \<le> d \<and> d \<le> RATE_LIMIT_MAX_RETRY_MS) (pauses (effects s))"

lemma pass_waits_ok:
  assumes "waits_ok s"
  shows "waits_ok (state_of (agent_pass E s))"
proof (cases rule: pass_counters [of E s])
  case (retried u msgs schemas d b msg)
  then show ?thesis using assms retry_costs [OF retried(3)] by (simp add: waits_ok_def same_counters_def log_def)
qed (use assms in \<open>simp_all add: waits_ok_def same_counters_def log_def\<close>)

text \<open>C31: every run ends: whatever the model, the tools and the hooks answer, the loop has returned after at most eleven passes more than its limit of
  iterations and one more, it has asked the model at most eleven times more than the limit, and it has waited at most eleven times, between a
  millisecond and a minute each.\<close>

theorem every_run_ends:
  "cut_loop (max_iterations E + 12) (turn_env E content) (initial_state (turn_env E content) system_prompt history content sender) =
     Some (agent_loop (turn_env E content) (initial_state (turn_env E content) system_prompt history content sender)) \<and>
   (case run_agent_loop E system_prompt history content sender of (result, s) \<Rightarrow>
      model_calls (effects s) \<le> max_iterations E + 11 \<and> length (pauses (effects s)) \<le> 11 \<and>
      list_all (\<lambda>d. 1 \<le> d \<and> d \<le> RATE_LIMIT_MAX_RETRY_MS) (pauses (effects s)))"
proof -
  let ?E = "turn_env E content"
  let ?s = "initial_state ?E system_prompt history content sender"
  have left: "passes_left ?E ?s = max_iterations E + 11"
    by (cases "ae_limit E") (simp_all add: passes_left_def initial_state_def new_budget_left max_iterations_def turn_env_def Let_def)
  have init: "waits_ok ?s" by (simp add: waits_ok_def initial_state_def new_budget_left)
  then have final: "waits_ok (snd (agent_loop ?E ?s))" using pass_waits_ok by (rule loop_invariant [rotated])
  have asks: "asked (snd (agent_loop ?E ?s)) \<le> max_iterations E + 11"
    using loop_asks_bounded [of ?E ?s] left by (simp add: initial_state_def)
  have "run_agent_loop E system_prompt history content sender = agent_loop ?E ?s \<or>
      snd (run_agent_loop E system_prompt history content sender) = ?s"
    by (auto simp: run_agent_loop_def Let_def split: hook_action.split)
  then have "waits_ok (snd (run_agent_loop E system_prompt history content sender)) \<and>
      asked (snd (run_agent_loop E system_prompt history content sender)) \<le> max_iterations E + 11"
    using init final asks by (auto simp: initial_state_def)
  then show ?thesis using cut_loop_enough [of ?E ?s "max_iterations E + 12"] left by (simp add: waits_ok_def split_beta)
qed

text \<open>C32: a tool runs only if the registry has it at that moment, neither the active tools of the turn nor a tool choice of none exclude it,
  the arguments of the call, with the members of the run's context written over theirs where both are objects, passed the validation of
  its schema, and no hook blocked the call; where a hook put other arguments in their place, those that the tool gets were validated too.
  This holds for calls of the model, for calls found in its text, and for the command that the user gave with \<open>/sh\<close>. It does not
  cover the empty list of tools with which the loop detector asks: see \<open>stripped_turn_runs_tools\<close>.\<close>

theorem tools_run_when_admitted:
  "list_all (\<lambda>e. case e of RanTool name args \<Rightarrow> admitted_run (turn_env E content) name args | _ \<Rightarrow> True)
     (effects (snd (run_agent_loop E system_prompt history content sender)))"
proof (rule list_all_weaken)
  show "list_all (effect_ok False (turn_env E content)) (effects (snd (run_agent_loop E system_prompt history content sender)))"
    by (intro run_invariant) blast
  show "case e of RanTool name args \<Rightarrow> admitted_run (turn_env E content) name args | _ \<Rightarrow> True" if "effect_ok False (turn_env E content) e" for e
    using that by (cases e) simp_all
qed

text \<open>C34: where the history is well paired, and the hooks that rewrite a transcript keep it so, every transcript that the model gets is: the
  results of the calls of an assistant's message follow it, one for every call, in the order of the calls, through retries, nudges,
  interventions of the loop detector and the compaction of old results.\<close>

theorem model_sees_paired_transcripts:
  assumes "well_paired [] history" "hooks_pair E"
  shows "list_all (\<lambda>e. case e of AskedModel msgs schemas \<Rightarrow> well_paired [] msgs | _ \<Rightarrow> True)
     (effects (snd (run_agent_loop E system_prompt history content sender)))"
proof (rule list_all_weaken)
  show "list_all (effect_ok True (turn_env E content)) (effects (snd (run_agent_loop E system_prompt history content sender)))"
    using assms by (intro run_invariant) blast
  show "case e of AskedModel msgs schemas \<Rightarrow> well_paired [] msgs | _ \<Rightarrow> True" if "effect_ok True (turn_env E content) e" for e
    using that by (cases e) simp_all
qed

text \<open>Without hooks, a transcript with tool results that goes to the model is estimated to fit the part of the context window that
  the configuration allows; one that does not fit ends the run.\<close>

theorem asked_within_budget:
  assumes "ae_hooks E = None"
  shows "list_all (\<lambda>e. case e of AskedModel msgs schemas \<Rightarrow> within_budget E msgs schemas | _ \<Rightarrow> True)
     (effects (snd (run_agent_loop E system_prompt history content sender)))"
proof (rule list_all_weaken)
  let ?E = "turn_env E content"
  show "list_all (effect_ok False ?E) (effects (snd (run_agent_loop E system_prompt history content sender)))"
    by (intro run_invariant) blast
  have same: "within_budget ?E msgs schemas = within_budget E msgs schemas" "ae_hooks ?E = None" for msgs schemas
    using assms by (simp_all add: within_budget_def turn_env_def)
  show "case e of AskedModel msgs schemas \<Rightarrow> within_budget E msgs schemas | _ \<Rightarrow> True" if "effect_ok False ?E e" for e
    using that same(2) by (cases e) (simp_all add: same(1))
qed

section \<open>A run\<close>

text \<open>A model without native tools answers with a call in its text, and with a plain text once it has seen a result.\<close>

definition sample_call :: "unit tool_call" where
  "sample_call = \<lparr>tc_id = ''c1'', tc_name = ''ls'', tc_arguments = Object []\<rparr>"

definition sample_env :: "unit agent_env" where
  "sample_env =
     \<lparr>ae_config = \<lparr>agent_max_iterations = 25, lazy_registry = False, max_tool_result_bytes = 50000, max_auto_continues = 2,
        auto_continue_min_tool_calls = 3, tool_result_compaction_ratio = 75, preemptive_overflow_ratio = 90, compaction_min_iterations = 3,
        detector_window = 3, detector_strips = True\<rparr>,
      ae_limit = None, ae_native = True, ae_context_window = 1000, ae_provider = \<lparr>pi_provider = ''p'', pi_model = ''m''\<rparr>,
      ae_complete = (\<lambda>n msgs schemas. Inr \<lparr>cr_text = Some (if has_tool_result_messages msgs then ''done'' else ''call''), cr_reasoning = None,
        cr_tool_calls = [], cr_usage = no_usage\<rparr>),
      ae_registry = (\<lambda>n. register \<lparr>to_name = ''ls'', to_description = [], to_parameters = Object []\<rparr> new_registry),
      ae_execute = (\<lambda>n k name args. Inr (String ''a'')), ae_hooks = None, ae_context = None,
      ae_controls = \<lparr>active_tools = None, choice = None\<rparr>, ae_shell = None,
      ae_floats = \<lparr>parse_f64 = (\<lambda>t. None), finite_f64 = (\<lambda>x. True), integral_f64 = (\<lambda>x. True)\<rparr>,
      ae_print = (\<lambda>v. ''{}''), ae_number = (\<lambda>x. ''0''), ae_hash = length,
      ae_text_calls = (\<lambda>n t. if t = ''call'' then ([sample_call], None) else ([], Some t)),
      ae_looks_failed = (\<lambda>t. False), ae_recover = (\<lambda>n t. (t, [])), ae_forced_id = (\<lambda>n. ''f''), ae_parse_messages = (\<lambda>vs. []),
      ae_sanitize = (\<lambda>t n. t), ae_nudge = (\<lambda>fps. ''nudge''), ae_strip_note = ''strip'', ae_arg_error = (\<lambda>n e. n), ae_clean = (\<lambda>t. t)\<rparr>"

lemma sample_hooks: "ae_hooks sample_env = None"
  by (simp add: sample_env_def)

theorem model_sees_paired_transcripts_witness:
  "list_all (\<lambda>e. case e of AskedModel msgs schemas \<Rightarrow> well_paired [] msgs | _ \<Rightarrow> True)
     (effects (snd (run_agent_loop sample_env ''Be brief.'' [user_msg ''Hi'', assistant_msg ''Hello''] (TextContent ''List the files'') None)))"
  by (rule model_sees_paired_transcripts) (simp_all add: user_msg_def assistant_msg_def hooks_pair_def sample_hooks)

theorem asked_within_budget_witness:
  "list_all (\<lambda>e. case e of AskedModel msgs schemas \<Rightarrow> within_budget sample_env msgs schemas | _ \<Rightarrow> True)
     (effects (snd (run_agent_loop sample_env ''Be brief.'' [ToolMsg ''c0'' ''old''] (TextContent ''List the files'') None)))"
  by (rule asked_within_budget) (rule sample_hooks)

text \<open>A turn without tools still runs a call that the model wrote as text.\<close>

lemma sample_names: "sanitize_tool_name ''ls'' = ''ls''" "legacy_public_tool_alias ''ls'' = None"
  by code_simp+

lemma sample_runs: "oc_ran (run_call sample_env n k (prepare_call sample_env n sample_call)) = Some (''ls'', Object [])"
proof -
  have "resolve_tool_lookup (ae_registry sample_env n) ''ls'' = (Some \<lparr>to_name = ''ls'', to_description = [], to_parameters = Object []\<rparr>, ''ls'')"
    by (simp add: resolve_tool_lookup_def sample_names sample_env_def get_tool_def get_entry_def register_def register_builtin_def insert_tool_def new_registry_def)
  then have "prepare_call sample_env n sample_call = \<lparr>pc_name = ''ls'', pc_tool = Some \<lparr>to_name = ''ls'', to_description = [], to_parameters = Object []\<rparr>,
      pc_args = Object [], pc_rejected = None\<rparr>"
    by (simp add: prepare_call_def sample_call_def sample_names merge_context_def tool_hidden_def sample_env_def coerce_scalar_args_def validate_tool_args_def as_object_def schema_properties_def Let_def)
  then show ?thesis
    by (simp add: run_call_def dispatch_hook_def sample_hooks execute_tool_def Let_def split: sum.split) (simp add: sample_env_def)
qed

lemma tool_calls_keep_effects: "set (effects s) \<union> set (ran_effects E (map (\<lambda>(k, pc). run_call E n k pc) (enumerate 0 (map (prepare_call E n) (cr_tool_calls r)))))
    \<subseteq> set (effects (on_tool_calls E n r s))"
proof -
  have i: "set (effects s) \<subseteq> set (effects (apply_loop_detector_intervention E s))" for s :: "'a agent_state"
    by (auto simp: apply_loop_detector_intervention_def log_def Let_def split: prod.splits detector_action.splits)
  have f: "set (effects s) \<subseteq> set (effects (foldl (process_outcome E n) s ps))" for s ps
    by (induction ps arbitrary: s) (fastforce simp: process_outcome_eqs)+
  show ?thesis unfolding on_tool_calls_def Let_def by (rule subset_trans [OF _ subset_trans [OF f i]]) (auto simp: log_def)
qed

lemma sample_answer:
  assumes "cr_text r = Some ''call''" "cr_tool_calls r = []"
  shows "\<exists>u. effects u = effects s @ [Emitted ThinkingDone] \<and>
    on_response sample_env n r s = Inl (on_tool_calls sample_env n (r\<lparr>cr_text := None, cr_tool_calls := [sample_call]\<rparr>) u)"
proof -
  let ?s = "record_request (cr_usage r) (log [Emitted ThinkingDone] s)"
  have calls: "with_text_calls sample_env n r = r\<lparr>cr_text := None, cr_tool_calls := [sample_call]\<rparr>"
    using assms by (simp add: with_text_calls_def) (simp add: sample_env_def)
  have named: "find_empty_tool_name_call [sample_call] = None"
    by (simp add: find_empty_tool_name_call_def sample_call_def sample_names)
  have "on_response sample_env n r s = after_llm_call sample_env n (r\<lparr>cr_text := None, cr_tool_calls := [sample_call]\<rparr>) ?s"
    by (simp add: on_response_def Let_def calls with_recovered_calls_def with_forced_exec_def named split: option.split)
  then have "on_response sample_env n r s = Inl (on_tool_calls sample_env n (r\<lparr>cr_text := None, cr_tool_calls := [sample_call]\<rparr>) ?s)"
    by (simp add: after_llm_call_def dispatch_hook_def sample_hooks)
  moreover have "effects ?s = effects s @ [Emitted ThinkingDone]" by (simp add: record_request_def log_def)
  ultimately show ?thesis by blast
qed

lemma stripped_turn_runs_tools:
  "case agent_pass sample_env (initial_state sample_env [] [] (TextContent ''x'') None\<lparr>strip_tools_next_iter := True\<rparr>) of
     Inl t \<Rightarrow> AskedModel [SystemMsg [], UserMsg (TextContent ''x'') None] [] \<in> set (effects t) \<and> RanTool ''ls'' (Object []) \<in> set (effects t)
   | Inr r \<Rightarrow> False"
proof -
  let ?s = "initial_state sample_env [] [] (TextContent ''x'') None\<lparr>strip_tools_next_iter := True\<rparr>"
  let ?msgs = "[SystemMsg [], UserMsg (TextContent ''x'') None] :: unit chat_message list"
  have fits: "enforce_tool_result_context_budget p sch cw cr ov ?msgs = Inr ?msgs" for p sch cw cr ov
    by (simp add: enforce_tool_result_context_budget_def has_tool_result_messages_def is_tool_msg_def)
  have limit: "max_iterations sample_env = 25" by (simp add: max_iterations_def sample_env_def resolve_agent_max_iterations_def)
  obtain u where u: "before_ask sample_env ?s = Inr ([], u)" "messages u = ?msgs"
    by (simp add: before_ask_def Let_def limit schemas_for_api_def clear_strip_def initial_state_def fits before_llm_call_def dispatch_hook_def
        sample_hooks log_def)
  let ?u = "log [Emitted Thinking, AskedModel ?msgs []] (u\<lparr>asked := Suc (asked u)\<rparr>)"
  let ?r = "\<lparr>cr_text = Some ''call'', cr_reasoning = None, cr_tool_calls = [], cr_usage = no_usage\<rparr> :: unit completion_response"
  have "ae_complete sample_env (asked u) ?msgs [] = Inr ?r"
    by (simp add: sample_env_def has_tool_result_messages_def is_tool_msg_def)
  then have pass: "agent_pass sample_env ?s = on_response sample_env (asked u) ?r ?u"
    by (simp add: agent_pass_def u ask_model_def Let_def log_def)
  obtain v where v: "effects v = effects ?u @ [Emitted ThinkingDone]"
    "on_response sample_env (asked u) ?r ?u = Inl (on_tool_calls sample_env (asked u) (?r\<lparr>cr_text := None, cr_tool_calls := [sample_call]\<rparr>) v)"
    using sample_answer [of ?r ?u "asked u"] by auto
  have "set (effects v) \<union> {RanTool ''ls'' (Object [])}
      \<subseteq> set (effects (on_tool_calls sample_env (asked u) (?r\<lparr>cr_text := None, cr_tool_calls := [sample_call]\<rparr>) v))"
    using tool_calls_keep_effects [of v sample_env "asked u" "?r\<lparr>cr_text := None, cr_tool_calls := [sample_call]\<rparr>"]
    by (simp add: ran_effects_def sample_runs)
  moreover have "AskedModel ?msgs [] \<in> set (effects v)" by (simp add: v(1) log_def)
  ultimately show ?thesis unfolding pass v(2) by auto
qed

end
