(* ===== verification/Shell_Hooks.thy ===== *)
theory Shell_Hooks
  imports Hooks
begin

text \<open>
  Hooks that run a shell command (\<open>crates/plugins/src/shell_hook.rs\<close>), their description in a \<open>HOOK.md\<close> (\<open>hook_metadata.rs\<close>), the check of what
  they need (\<open>hook_eligibility.rs\<close>), and the registry that the gateway builds from the hooks it found, those of the configuration and its
  own (\<open>crates/gateway/src/server/hooks.rs\<close>).

  What a process does is the record \<open>shell_process\<close>, given by \<open>shell_env\<close> for the command, its environment, its directory, the text on its
  input and the time. The parsers of TOML and JSON are parameters. The search of the directories and the texts for the web page are
  left out.
\<close>

section \<open>Running a command\<close>

text \<open>\<open>sp_write\<close> is an error of writing the payload other than a broken pipe, \<open>sp_output\<close> the exit code (none after a signal) with the
  decoded output and error output.\<close>

record shell_process =
  sp_spawn_error :: "string option"
  sp_write :: "string option"
  sp_write_us :: duration
  sp_run_us :: duration
  sp_output :: "string + int option \<times> string \<times> string"

record 'f shell_env =
  se_run :: "string \<Rightarrow> (string \<rightharpoonup> string) \<Rightarrow> string option \<Rightarrow> string \<Rightarrow> instant \<Rightarrow> shell_process"
  se_to_json :: "'f hook_payload \<Rightarrow> string + string"
  se_response :: "string \<Rightarrow> (string \<times> 'f json_value option) option"

record shell_hook =
  hook_name :: string
  hook_command :: string
  subscribed_events :: "hook_event list"
  hook_timeout :: nat
  hook_environment :: "string \<rightharpoonup> string"
  working_dir :: "string option"

definition show_secs :: "nat \<Rightarrow> string" where
  "show_secs n = (if n = 0 then ''0ns'' else show_nat n @ ''s'')"

definition show_i32 :: "int \<Rightarrow> string" where
  "show_i32 i = (if i < 0 then ''-'' @ show_nat (nat (- i)) else show_nat (nat i))"

definition hook_says :: "shell_hook \<Rightarrow> string \<Rightarrow> string" where
  "hook_says h t = ''hook '' @ [single_quote] @ hook_name h @ [single_quote] @ t"

definition read_output :: "'f shell_env \<Rightarrow> shell_hook \<Rightarrow> int option \<times> string \<times> string \<Rightarrow> string + 'f hook_action" where
  "read_output S h out =
     (case out of (status, stdout, stderr) \<Rightarrow>
       (let exit_code = (case status of Some c \<Rightarrow> c | None \<Rightarrow> -1) in
        if exit_code = 1 then
          Inr (HookBlock (if stderr = [] then hook_says h '' blocked the action'' else trim stderr))
        else if exit_code \<noteq> 0 then
          Inl (hook_says h ('' exited with code '' @ show_i32 exit_code @ '': '' @ trim stderr))
        else if trim stdout = [] then Inr HookContinue
        else
          (case se_response S (trim stdout) of
             Some (action, data) \<Rightarrow>
               (if action = ''modify'' then (case data of Some v \<Rightarrow> Inr (ModifyPayload v) | None \<Rightarrow> Inr HookContinue)
                else Inr HookContinue)
           | None \<Rightarrow> Inr HookContinue)))"

definition shell_handle ::
  "'f shell_env \<Rightarrow> shell_hook \<Rightarrow> hook_event \<Rightarrow> 'f hook_payload \<Rightarrow> instant \<Rightarrow> (string + 'f hook_action) \<times> duration" where
  "shell_handle S h ev p now =
     (case se_to_json S p of
        Inl source \<Rightarrow> (Inl (''failed to serialize hook payload: '' @ source), 0)
      | Inr payload_json \<Rightarrow>
          (let pr = se_run S (hook_command h) (hook_environment h) (working_dir h) payload_json now in
           case sp_spawn_error pr of
             Some source \<Rightarrow>
               (Inl (''failed to spawn hook command '' @ [single_quote] @ hook_command h @ [single_quote] @ '': '' @ source), 0)
           | None \<Rightarrow>
               (case sp_write pr of
                  Some e \<Rightarrow> (Inl (''failed writing payload to '' @ hook_says h ('': '' @ e)), sp_write_us pr)
                | None \<Rightarrow>
                    if hook_timeout h * 1000000 < sp_run_us pr then
                      (Inl (hook_says h ('' timed out after '' @ show_secs (hook_timeout h))), sp_write_us pr + hook_timeout h * 1000000)
                    else
                      (case sp_output pr of
                         Inl source \<Rightarrow> Inl (hook_says h ('' failed to complete: '' @ source))
                       | Inr out \<Rightarrow> read_output S h out, sp_write_us pr + sp_run_us pr))))"

text \<open>The trait's defaults give the priority and the synchronous method.\<close>

definition shell_hook_handler :: "'f shell_env \<Rightarrow> shell_hook \<Rightarrow> 'f hook_handler" where
  "shell_hook_handler S h =
     \<lparr>hh_name = hook_name h, hh_events = subscribed_events h, hh_priority = 0, hh_handle = shell_handle S h, hh_handle_sync = shell_handle S h\<rparr>"

section \<open>Descriptions and requirements\<close>

record hook_requirements =
  rq_os :: "string list"
  rq_bins :: "string list"
  rq_env :: "string list"
  rq_config :: "string list"

record hook_metadata =
  hm_name :: string
  hm_description :: string
  hm_emoji :: "string option"
  hm_events :: "hook_event list"
  hm_command :: "string option"
  hm_timeout :: nat
  hm_priority :: int
  hm_env :: "string \<rightharpoonup> string"
  hm_requires :: hook_requirements

record parsed_hook =
  ph_metadata :: hook_metadata
  ph_body :: string
  ph_source_path :: string

datatype hook_md_error = NoFrontmatter | UnclosedFrontmatter | BadToml string

definition parse_hook_md :: "(string \<Rightarrow> string + hook_metadata) \<Rightarrow> string \<Rightarrow> string \<Rightarrow> hook_md_error + parsed_hook" where
  "parse_hook_md toml content source_path =
     (let trimmed = trim_start_by is_whitespace content in
      if \<not> starts_with trimmed ''+++'' then Inl NoFrontmatter
      else
        (let after_first = drop 3 trimmed in
         case find_sub (newline # ''+++'') after_first of
           None \<Rightarrow> Inl UnclosedFrontmatter
         | Some i \<Rightarrow>
             (case toml (trim (take i after_first)) of
                Inl source \<Rightarrow> Inl (BadToml source)
              | Inr metadata \<Rightarrow>
                  Inr \<lparr>ph_metadata = metadata, ph_body = trim (drop (i + 4) after_first), ph_source_path = source_path\<rparr>)))"

record hook_host =
  ho_os :: string
  ho_bin_exists :: "string \<Rightarrow> bool"
  ho_env_var :: "string \<Rightarrow> bool"

record eligibility_result =
  el_eligible :: bool
  el_missing_os :: bool
  el_missing_bins :: "string list"
  el_missing_env :: "string list"
  el_missing_config :: "string list"

definition check_hook_eligibility :: "hook_host \<Rightarrow> hook_metadata \<Rightarrow> eligibility_result" where
  "check_hook_eligibility host m =
     (let r = hm_requires m;
          missing_os = (rq_os r \<noteq> [] \<and> ho_os host \<notin> set (rq_os r));
          missing_bins = filter (\<lambda>b. \<not> ho_bin_exists host b) (rq_bins r);
          missing_env = filter (\<lambda>v. \<not> ho_env_var host v) (rq_env r) in
      \<lparr>el_eligible = (\<not> missing_os \<and> missing_bins = [] \<and> missing_env = []), el_missing_os = missing_os,
       el_missing_bins = missing_bins, el_missing_env = missing_env, el_missing_config = []\<rparr>)"

section \<open>The hooks of the gateway\<close>

datatype hook_source = ProjectHook | UserHook | BundledHook

record shell_hook_config_entry =
  hc_name :: string
  hc_command :: string
  hc_events :: "string list"
  hc_timeout :: nat
  hc_env :: "string \<rightharpoonup> string"

record discovered_hook_info =
  di_name :: string
  di_events :: "string list"
  di_command :: "string option"
  di_timeout :: nat
  di_priority :: int
  di_source :: string
  di_eligible :: bool
  di_missing_os :: bool
  di_missing_bins :: "string list"
  di_missing_env :: "string list"
  di_enabled :: bool

fun source_str :: "hook_source \<Rightarrow> string" where
  "source_str ProjectHook = ''project''"
| "source_str UserHook = ''user''"
| "source_str BundledHook = ''bundled''"

type_synonym 'f hooks_build = "'f hook_registry \<times> discovered_hook_info list"

definition shell_hook_of_metadata :: "parsed_hook \<Rightarrow> string \<Rightarrow> shell_hook" where
  "shell_hook_of_metadata parsed command =
     (let m = ph_metadata parsed in
      \<lparr>hook_name = hm_name m, hook_command = command, subscribed_events = hm_events m, hook_timeout = hm_timeout m,
       hook_environment = hm_env m, working_dir = Some (ph_source_path parsed)\<rparr>)"

definition add_discovered ::
  "'f shell_env \<Rightarrow> hook_host \<Rightarrow> string list \<Rightarrow> 'f hooks_build \<Rightarrow> parsed_hook \<times> hook_source \<Rightarrow> 'f hooks_build" where
  "add_discovered S host disabled b d =
     (case b of (registry, infos) \<Rightarrow> case d of (parsed, source) \<Rightarrow>
       (let m = ph_metadata parsed;
            elig = check_hook_eligibility host m;
            is_enabled = (el_eligible elig \<and> hm_name m \<notin> set disabled) in
        ((case hm_command m of
            Some command \<Rightarrow>
              (if is_enabled then register_hook registry (shell_hook_handler S (shell_hook_of_metadata parsed command)) else registry)
          | None \<Rightarrow> registry),
         infos @ [\<lparr>di_name = hm_name m, di_events = map show_event (hm_events m), di_command = hm_command m, di_timeout = hm_timeout m,
           di_priority = hm_priority m, di_source = source_str source, di_eligible = el_eligible elig,
           di_missing_os = el_missing_os elig, di_missing_bins = el_missing_bins elig, di_missing_env = el_missing_env elig,
           di_enabled = is_enabled\<rparr>])))"

definition parse_events :: "string list \<Rightarrow> hook_event list" where
  "parse_events es = List.map_filter (\<lambda>e. case event_from_str e of Inr ev \<Rightarrow> Some ev | Inl err \<Rightarrow> None) es"

definition shell_hook_of_config :: "shell_hook_config_entry \<Rightarrow> shell_hook" where
  "shell_hook_of_config hk =
     \<lparr>hook_name = hc_name hk, hook_command = hc_command hk, subscribed_events = parse_events (hc_events hk), hook_timeout = hc_timeout hk,
      hook_environment = hc_env hk, working_dir = None\<rparr>"

text \<open>A hook of the configuration yields to one of its name in the directories, and to the first of its name.\<close>

definition add_configured ::
  "'f shell_env \<Rightarrow> string list \<Rightarrow> string list \<Rightarrow> 'f hooks_build \<times> string list \<Rightarrow> shell_hook_config_entry \<Rightarrow> 'f hooks_build \<times> string list" where
  "add_configured S disabled filesystem_hook_names st hk =
     (case st of ((registry, infos), seen) \<Rightarrow>
       if hc_name hk \<in> set filesystem_hook_names then ((registry, infos), seen)
       else if hc_name hk \<in> set seen then ((registry, infos), seen)
       else
         (let events = parse_events (hc_events hk);
              is_enabled = (hc_name hk \<notin> set disabled \<and> events \<noteq> []) in
          ((if is_enabled then register_hook registry (shell_hook_handler S (shell_hook_of_config hk)) else registry,
            infos @ [\<lparr>di_name = hc_name hk, di_events = map show_event events, di_command = Some (hc_command hk), di_timeout = hc_timeout hk,
              di_priority = 0, di_source = ''config'', di_eligible = (events \<noteq> []), di_missing_os = False, di_missing_bins = [],
              di_missing_env = [], di_enabled = is_enabled\<rparr>]),
           hc_name hk # seen)))"

record 'f builtin_hooks =
  bh_command_logger :: "'f hook_handler"
  bh_session_memory :: "'f hook_handler"
  bh_auto_checkpoint :: "'f hook_handler"

definition builtin_info :: "string \<Rightarrow> hook_event list \<Rightarrow> bool \<Rightarrow> discovered_hook_info" where
  "builtin_info name events enabled =
     \<lparr>di_name = name, di_events = map show_event events, di_command = None, di_timeout = 0, di_priority = 0, di_source = ''builtin'',
      di_eligible = True, di_missing_os = False, di_missing_bins = [], di_missing_env = [], di_enabled = enabled\<rparr>"

definition builtin_hook_metadata :: "(string \<times> hook_event list) list" where
  "builtin_hook_metadata =
     [(''command-logger'', [EvCommand]), (''session-memory'', [EvCommand]), (''auto-checkpoint'', [EvBeforeToolCall])]"

definition discover_and_build_hooks ::
  "'f shell_env \<Rightarrow> hook_host \<Rightarrow> 'f builtin_hooks \<Rightarrow> string list \<Rightarrow> (parsed_hook \<times> hook_source) list \<Rightarrow> shell_hook_config_entry list option \<Rightarrow>
   bool \<Rightarrow> bool \<Rightarrow> 'f hooks_build" where
  "discover_and_build_hooks S host B disabled discovered configured has_session_store exports_sessions =
     (let b = foldl (add_discovered S host disabled) (new_hook_registry, []) discovered;
          filesystem_hook_names = map (\<lambda>(parsed, source). hm_name (ph_metadata parsed)) discovered;
          (registry, infos) = (case configured of
              Some hooks \<Rightarrow> fst (foldl (add_configured S disabled filesystem_hook_names) (b, []) hooks)
            | None \<Rightarrow> b);
          registry = register_hook registry (bh_command_logger B);
          registry = (if has_session_store \<and> exports_sessions then register_hook registry (bh_session_memory B) else registry);
          registry = register_hook registry (bh_auto_checkpoint B) in
      (registry,
       infos @ map (\<lambda>(name, events). builtin_info name events (name = ''session-memory'' \<longrightarrow> exports_sessions)) builtin_hook_metadata))"

section \<open>Which hooks are registered\<close>

definition usable :: "hook_host \<Rightarrow> string list \<Rightarrow> hook_metadata \<Rightarrow> bool" where
  "usable host disabled m \<longleftrightarrow> el_eligible (check_hook_eligibility host m) \<and> hm_name m \<notin> set disabled"

definition discovered_hooks :: "hook_host \<Rightarrow> string list \<Rightarrow> (parsed_hook \<times> hook_source) list \<Rightarrow> shell_hook list" where
  "discovered_hooks host disabled ds =
     List.map_filter (\<lambda>(parsed, source).
       if usable host disabled (ph_metadata parsed) then map_option (shell_hook_of_metadata parsed) (hm_command (ph_metadata parsed)) else None) ds"

text \<open>The first of every name.\<close>

fun firsts :: "shell_hook_config_entry list \<Rightarrow> shell_hook_config_entry list" where
  "firsts [] = []"
| "firsts (h # hs) = h # filter (\<lambda>g. hc_name g \<noteq> hc_name h) (firsts hs)"

definition configured_hooks :: "string list \<Rightarrow> string list \<Rightarrow> shell_hook_config_entry list \<Rightarrow> shell_hook list" where
  "configured_hooks disabled names hks =
     map shell_hook_of_config (filter (\<lambda>h. hc_name h \<notin> set disabled \<and> parse_events (hc_events h) \<noteq> [])
       (firsts (filter (\<lambda>h. hc_name h \<notin> set names) hks)))"

lemma add_discovered_all:
  "fst (foldl (add_discovered S host disabled) (r, infos) ds) = foldl register_hook r (map (shell_hook_handler S) (discovered_hooks host disabled ds))"
proof (induction ds arbitrary: r infos)
  case (Cons d ds)
  obtain parsed source where d: "d = (parsed, source)" by fastforce
  let ?b = "add_discovered S host disabled (r, infos) d"
  have "discovered_hooks host disabled (d # ds) =
      (if usable host disabled (ph_metadata parsed) \<and> hm_command (ph_metadata parsed) \<noteq> None
       then [shell_hook_of_metadata parsed (the (hm_command (ph_metadata parsed)))] else []) @ discovered_hooks host disabled ds"
    by (auto simp: discovered_hooks_def map_filter_simps d)
  moreover obtain r' infos' where step: "add_discovered S host disabled (r, infos) d = (r', infos')" by fastforce
  moreover from step have "r' = (if usable host disabled (ph_metadata parsed) \<and> hm_command (ph_metadata parsed) \<noteq> None
      then register_hook r (shell_hook_handler S (shell_hook_of_metadata parsed (the (hm_command (ph_metadata parsed))))) else r)"
    by (auto simp: add_discovered_def d usable_def Let_def split: option.splits)
  ultimately show ?case using Cons.IH [of r' infos'] by auto
qed (simp add: discovered_hooks_def map_filter_simps)

lemma add_configured_all:
  "fst (fst (foldl (add_configured S disabled names) ((r, infos), seen) hks)) =
     foldl register_hook r (map (\<lambda>h. shell_hook_handler S (shell_hook_of_config h))
       (filter (\<lambda>h. hc_name h \<notin> set disabled \<and> parse_events (hc_events h) \<noteq> [])
         (filter (\<lambda>h. hc_name h \<notin> set seen) (firsts (filter (\<lambda>h. hc_name h \<notin> set names) hks)))))"
proof (induction hks arbitrary: r infos seen)
  case (Cons h hks)
  show ?case
  proof (cases "hc_name h \<in> set names \<or> hc_name h \<in> set seen")
    case True
    have step: "add_configured S disabled names ((r, infos), seen) h = ((r, infos), seen)" using True by (auto simp: add_configured_def)
    have "filter (\<lambda>g. hc_name g \<notin> set seen) (filter (\<lambda>g. hc_name g \<noteq> hc_name h) gs) = filter (\<lambda>g. hc_name g \<notin> set seen) gs"
      if "hc_name h \<in> set seen" for gs using that by (induction gs) auto
    then have "filter (\<lambda>g. hc_name g \<notin> set seen) (firsts (filter (\<lambda>g. hc_name g \<notin> set names) (h # hks))) =
        filter (\<lambda>g. hc_name g \<notin> set seen) (firsts (filter (\<lambda>g. hc_name g \<notin> set names) hks))"
      using True by (cases "hc_name h \<in> set names") (simp_all del: filter_filter)
    then show ?thesis unfolding foldl_Cons step using Cons.IH [of r infos seen] by (simp only:)
  next
    case False
    obtain r' infos' where step: "add_configured S disabled names ((r, infos), seen) h = ((r', infos'), hc_name h # seen)"
      and r': "r' = (if hc_name h \<notin> set disabled \<and> parse_events (hc_events h) \<noteq> []
        then register_hook r (shell_hook_handler S (shell_hook_of_config h)) else r)"
      using False by (simp add: add_configured_def Let_def)
    have "filter (\<lambda>g. hc_name g \<notin> set (hc_name h # seen)) gs =
        filter (\<lambda>g. hc_name g \<notin> set seen) (filter (\<lambda>g. hc_name g \<noteq> hc_name h) gs)" for gs
      by (auto simp: filter_filter intro!: filter_cong)
    then show ?thesis using False Cons.IH [of r' infos' "hc_name h # seen"] by (simp add: step r')
  qed
qed simp

definition gateway_hooks ::
  "'f shell_env \<Rightarrow> hook_host \<Rightarrow> 'f builtin_hooks \<Rightarrow> string list \<Rightarrow> (parsed_hook \<times> hook_source) list \<Rightarrow> shell_hook_config_entry list option \<Rightarrow>
   bool \<Rightarrow> bool \<Rightarrow> 'f hook_handler list" where
  "gateway_hooks S host B disabled ds configured has_session_store exports_sessions =
     map (shell_hook_handler S) (discovered_hooks host disabled ds @
       (case configured of
          Some hks \<Rightarrow> configured_hooks disabled (map (\<lambda>(parsed, source). hm_name (ph_metadata parsed)) ds) hks | None \<Rightarrow> [])) @
     [bh_command_logger B] @ (if has_session_store \<and> exports_sessions then [bh_session_memory B] else []) @ [bh_auto_checkpoint B]"

lemma hooks_registered:
  "fst (discover_and_build_hooks S host B disabled ds configured has_session_store exports_sessions) =
     build_registry 3 60000000 (gateway_hooks S host B disabled ds configured has_session_store exports_sessions)"
proof -
  have new: "with_circuit_breaker 3 60000000 new_hook_registry = new_hook_registry"
    by (simp add: with_circuit_breaker_def new_hook_registry_def)
  let ?b = "foldl (add_discovered S host disabled) (new_hook_registry, []) ds"
  have b: "fst ?b = foldl register_hook new_hook_registry (map (shell_hook_handler S) (discovered_hooks host disabled ds))"
    by (rule add_discovered_all)
  obtain r infos where r: "?b = (r, infos)" by fastforce
  note r' = b [unfolded r fst_conv]
  show ?thesis
  proof (cases configured)
    case None
    then show ?thesis by (simp add: discover_and_build_hooks_def gateway_hooks_def build_registry_def new Let_def r r')
  next
    case (Some hks)
    let ?names = "map (\<lambda>(parsed, source). hm_name (ph_metadata parsed)) ds"
    obtain r2 infos2 seen where c: "foldl (add_configured S disabled ?names) ((r, infos), []) hks = ((r2, infos2), seen)"
      by (metis surj_pair)
    have "r2 = foldl register_hook r (map (shell_hook_handler S) (configured_hooks disabled ?names hks))"
      using add_configured_all [of S disabled ?names r infos "[]" hks] by (simp add: c configured_hooks_def comp_def)
    then show ?thesis by (simp add: discover_and_build_hooks_def gateway_hooks_def build_registry_def new Some Let_def r r' c [unfolded r'])
  qed
qed

text \<open>The priority that a \<open>HOOK.md\<close> declares has no effect.\<close>

definition with_priority :: "(string \<Rightarrow> int) \<Rightarrow> parsed_hook \<times> hook_source \<Rightarrow> parsed_hook \<times> hook_source" where
  "with_priority f d =
     (case d of (parsed, source) \<Rightarrow>
       (parsed\<lparr>ph_metadata := (ph_metadata parsed)\<lparr>hm_priority := f (hm_name (ph_metadata parsed))\<rparr>\<rparr>, source))"

lemma declared_priority_is_ignored:
  "fst (discover_and_build_hooks S host B disabled (map (with_priority f) ds) configured store exports) =
     fst (discover_and_build_hooks S host B disabled ds configured store exports)"
proof -
  have "usable host disabled (m\<lparr>hm_priority := x\<rparr>) = usable host disabled m"
    "shell_hook_of_metadata (p\<lparr>ph_metadata := m\<lparr>hm_priority := x\<rparr>\<rparr>) = shell_hook_of_metadata (p\<lparr>ph_metadata := m\<rparr>)" for m p x
    by (simp_all add: usable_def check_hook_eligibility_def shell_hook_of_metadata_def Let_def fun_eq_iff)
  then have "discovered_hooks host disabled (map (with_priority f) ds) = discovered_hooks host disabled ds"
    by (induction ds) (simp_all add: discovered_hooks_def map_filter_simps with_priority_def split_beta split: option.split)
  moreover have "map (\<lambda>(parsed, source). hm_name (ph_metadata parsed)) (map (with_priority f) ds) =
      map (\<lambda>(parsed, source). hm_name (ph_metadata parsed)) ds"
    by (simp add: with_priority_def split_beta)
  ultimately show ?thesis unfolding hooks_registered gateway_hooks_def by (simp only:)
qed

text \<open>A hook of the configuration is dropped for one of its name in the directories that is not registered either.\<close>

lemma ineligible_hook_shadows_configured:
  assumes "\<forall>(parsed, source)\<in>set ds. hm_name (ph_metadata parsed) = name \<longrightarrow> \<not> usable host disabled (ph_metadata parsed)"
    and "name \<in> set (map (\<lambda>(parsed, source). hm_name (ph_metadata parsed)) ds)"
  shows "name \<notin> set (map hook_name (discovered_hooks host disabled ds @
    configured_hooks disabled (map (\<lambda>(parsed, source). hm_name (ph_metadata parsed)) ds) hks))"
proof -
  have "set (firsts hs) \<subseteq> set hs" for hs by (induction hs) auto
  then have "name \<notin> hook_name ` set (configured_hooks disabled (map (\<lambda>(parsed, source). hm_name (ph_metadata parsed)) ds) hks)"
    using assms(2) by (fastforce simp: configured_hooks_def shell_hook_of_config_def)
  moreover have "name \<notin> hook_name ` set (discovered_hooks host disabled ds)"
    using assms(1) by (fastforce simp: discovered_hooks_def List.map_filter_def shell_hook_of_metadata_def Let_def split: if_splits)
  ultimately show ?thesis by auto
qed

section \<open>Commands that decide\<close>

text \<open>The exit code that a handler sees in time.\<close>

definition exits :: "'f shell_env \<Rightarrow> shell_hook \<Rightarrow> 'f hook_payload \<Rightarrow> instant \<Rightarrow> int option" where
  "exits S h p now =
     (case se_to_json S p of
        Inl source \<Rightarrow> None
      | Inr payload_json \<Rightarrow>
          (let pr = se_run S (hook_command h) (hook_environment h) (working_dir h) payload_json now in
           if sp_spawn_error pr \<noteq> None \<or> sp_write pr \<noteq> None \<or> hook_timeout h * 1000000 < sp_run_us pr then None
           else (case sp_output pr of Inl source \<Rightarrow> None | Inr out \<Rightarrow> fst out)))"

lemma exit_one_blocks:
  assumes "exits S h p now = Some 1"
  shows "\<exists>reason. fst (shell_handle S h ev p now) = Inr (HookBlock reason)"
  using assms by (auto simp: exits_def shell_handle_def read_output_def Let_def split: sum.splits if_splits option.splits prod.splits)

lemma exit_zero_answers:
  assumes "exits S h p now = Some 0"
  shows "\<exists>a. fst (shell_handle S h ev p now) = Inr a"
  using assms
  by (auto simp: exits_def shell_handle_def read_output_def Let_def split: sum.splits if_splits option.splits prod.splits)

lemma script_dependable:
  assumes "\<forall>p now. exits S h p now = Some 0 \<or> exits S h p now = Some 1"
  shows "dependable (shell_hook_handler S h)"
proof -
  have "\<exists>a. fst (shell_handle S h ev p now) = Inr a" for ev p now
    using assms exit_one_blocks [of S h p now] exit_zero_answers [of S h p now] by metis
  then show ?thesis by (simp add: dependable_def ask_handler_def shell_hook_handler_def)
qed

lemma script_objects: "\<forall>now. exits S h p now = Some 1 \<Longrightarrow> objects (shell_hook_handler S h) p"
  using exit_one_blocks [of S h p] by (simp add: objects_def ask_handler_def shell_hook_handler_def)

text \<open>The time limit begins when the payload is written: a process that does not read it may hold the dispatch up as long as it likes.\<close>

lemma hook_outlasts_its_timeout:
  assumes "se_to_json S p = Inr t" "sp_spawn_error (se_run S (hook_command h) (hook_environment h) (working_dir h) t now) = None"
  shows "sp_write_us (se_run S (hook_command h) (hook_environment h) (working_dir h) t now) \<le> snd (shell_handle S h ev p now)"
  using assms by (simp add: shell_handle_def Let_def split: option.split)

end
