(* ===== verification/Agent_Hooks.thy ===== *)
theory Agent_Hooks
  imports Agent_Loop Shell_Hooks
begin

text \<open>
  The hooks of a run of the agent: \<open>Agent_Loop\<close> with the registry that the gateway builds (\<open>Shell_Hooks\<close>), which dispatches other
  events at the same time (\<open>hook_step\<close> of \<open>Hooks\<close>).
\<close>

section \<open>A hook that forbids a tool\<close>

text \<open>What the run hears from its hooks is what the registry may answer at that moment, whatever other dispatches are under way.\<close>

definition asks_registry :: "'f agent_env \<Rightarrow> 'f hook_registry \<Rightarrow> bool" where
  "asks_registry E r \<longleftrightarrow> (\<exists>answers. ae_hooks E = Some answers \<and> (\<forall>n p. \<exists>a. answers n p = Inr a \<and> may_answer r p a))"

lemma discovered_is_registered:
  assumes "(parsed, source) \<in> set ds" "usable host disabled (ph_metadata parsed)" "hm_command (ph_metadata parsed) = Some command"
  shows "shell_hook_handler S (shell_hook_of_metadata parsed command) \<in> set (gateway_hooks S host B disabled ds configured store exports)"
proof -
  have "shell_hook_of_metadata parsed command \<in> set (discovered_hooks host disabled ds)"
    using assms by (force simp: discovered_hooks_def List.map_filter_def intro!: image_eqI [of _ _ "(parsed, source)"])
  then show ?thesis by (simp add: gateway_hooks_def)
qed

lemma hook_blocks_call:
  assumes "asks_registry E (build_registry threshold cooldown hs)" "h \<in> set hs" "dependable h" "0 < threshold"
    and "EvBeforeToolCall \<in> set (hh_events h)" "objects h (BeforeToolCall key name args ch)"
  shows "\<exists>reason. dispatch_hook E n (BeforeToolCall key name args ch) = HookBlock reason"
proof -
  obtain answers where answers: "ae_hooks E = Some answers" "\<forall>n p. \<exists>a. answers n p = Inr a \<and> may_answer (build_registry threshold cooldown hs) p a"
    using assms(1) by (auto simp: asks_registry_def)
  then obtain a where a: "answers n (BeforeToolCall key name args ch) = Inr a"
      "may_answer (build_registry threshold cooldown hs) (BeforeToolCall key name args ch) a" by blast
  from blocked_answer [OF assms(2-4,6) _ _ a(2)] assms(5) obtain reason where "a = HookBlock reason" by auto
  then show ?thesis using answers(1) a(1) by (simp add: dispatch_hook_def)
qed

lemma admitted_not_blocked:
  fixes E :: "'f agent_env"
  assumes "admitted_run E name args"
  shows "\<exists>n seen. \<not> is_block (dispatch_hook E n (BeforeToolCall (session_key E) name seen (hook_channel E)))"
proof -
  obtain n seen and t :: "'f agent_tool" where "case dispatch_hook E n (BeforeToolCall (session_key E) name seen (hook_channel E)) of
      HookContinue \<Rightarrow> args = seen
    | ModifyPayload v \<Rightarrow> prepare_args (ae_floats E) (to_parameters t) v = Inr args
    | HookBlock reason \<Rightarrow> False"
    using assms unfolding admitted_run_def by (elim exE conjE) (rule that, assumption)
  then show ?thesis by (intro exI [of _ n] exI [of _ seen]) (simp split: hook_action.splits)
qed

text \<open>C33: a tool that a command of the hook directories forbids never runs: if the hook is eligible and not disabled, subscribes to the
  event before tool calls, always exits with 0 or 1 within its time, and with 1 for every call of the tool, then no run of the agent with
  the gateway's hooks runs the tool, whatever the other hooks, their failures and their modifications, and whichever dispatches of other
  sessions happen in between.\<close>

theorem blocked_tool_never_runs:
  assumes "asks_registry E (fst (discover_and_build_hooks S host B disabled ds configured store exports))"
    and "(parsed, source) \<in> set ds" "usable host disabled (ph_metadata parsed)" "hm_command (ph_metadata parsed) = Some command"
    and "EvBeforeToolCall \<in> set (hm_events (ph_metadata parsed))"
    and "\<forall>p now. exits S (shell_hook_of_metadata parsed command) p now = Some 0 \<or> exits S (shell_hook_of_metadata parsed command) p now = Some 1"
    and "\<forall>args now. exits S (shell_hook_of_metadata parsed command) (BeforeToolCall (session_key E) name args (hook_channel E)) now = Some 1"
  shows "list_all (\<lambda>e. case e of RanTool tool args \<Rightarrow> tool \<noteq> name | _ \<Rightarrow> True)
    (effects (snd (run_agent_loop E system_prompt history content sender)))"
proof (rule list_all_weaken)
  let ?E = "turn_env E content" and ?h = "shell_hook_handler S (shell_hook_of_metadata parsed command)"
  show "list_all (effect_ok False ?E) (effects (snd (run_agent_loop E system_prompt history content sender)))"
    by (intro run_invariant) blast
  have same: "session_key ?E = session_key E" "hook_channel ?E = hook_channel E" "dispatch_hook ?E = dispatch_hook E"
    by (simp_all add: turn_env_def session_key_def hook_channel_def dispatch_hook_def fun_eq_iff)
  have registered: "?h \<in> set (gateway_hooks S host B disabled ds configured store exports)" using assms(2-4) by (rule discovered_is_registered)
  have event: "EvBeforeToolCall \<in> set (hh_events ?h)" using assms(5) by (simp add: shell_hook_handler_def shell_hook_of_metadata_def Let_def)
  have "\<exists>reason. dispatch_hook ?E n (BeforeToolCall (session_key ?E) name args (hook_channel ?E)) = HookBlock reason" for n args
    unfolding same
    by (rule hook_blocks_call [OF assms(1) [unfolded hooks_registered] registered script_dependable [OF assms(6)] _ event])
      (use assms(7) in \<open>auto intro: script_objects\<close>)
  note blocked = this
  have "\<not> admitted_run ?E name args" for args
  proof
    assume "admitted_run ?E name args"
    then obtain n seen where "\<not> is_block (dispatch_hook ?E n (BeforeToolCall (session_key ?E) name seen (hook_channel ?E)))"
      using admitted_not_blocked by blast
    then show False using blocked [of n seen] by auto
  qed
  then show "case e of RanTool tool args \<Rightarrow> tool \<noteq> name | _ \<Rightarrow> True" if "effect_ok False ?E e" for e
    using that by (cases e) auto
qed

text \<open>A directory with one hook, whose command exits with 1.\<close>

definition strict_shell :: "unit shell_env" where
  "strict_shell =
     \<lparr>se_run = (\<lambda>command env dir payload now. \<lparr>sp_spawn_error = None, sp_write = None, sp_write_us = 5, sp_run_us = 1000, sp_output = Inr (Some 1, [], ''no'')\<rparr>),
      se_to_json = (\<lambda>p. Inr ''{}''), se_response = (\<lambda>t. None)\<rparr>"

definition guard_hook :: parsed_hook where
  "guard_hook =
     \<lparr>ph_metadata = \<lparr>hm_name = ''guard'', hm_description = [], hm_emoji = None, hm_events = [EvBeforeToolCall], hm_command = Some ''./handler.sh'',
        hm_timeout = 5, hm_priority = 0, hm_env = Map.empty, hm_requires = \<lparr>rq_os = [''linux''], rq_bins = [], rq_env = [], rq_config = []\<rparr>\<rparr>,
      ph_body = [], ph_source_path = ''guard''\<rparr>"

definition linux_host :: hook_host where
  "linux_host = \<lparr>ho_os = ''linux'', ho_bin_exists = (\<lambda>b. False), ho_env_var = (\<lambda>v. False)\<rparr>"

definition idle_handler :: "unit hook_handler" where
  "idle_handler = \<lparr>hh_name = ''idle'', hh_events = [EvCommand], hh_priority = 0, hh_handle = (\<lambda>ev p now. (Inr HookContinue, 1)),
     hh_handle_sync = (\<lambda>ev p now. (Inr HookContinue, 1))\<rparr>"

definition idle_builtins :: "unit builtin_hooks" where
  "idle_builtins = \<lparr>bh_command_logger = idle_handler, bh_session_memory = idle_handler, bh_auto_checkpoint = idle_handler\<rparr>"

definition guarded_registry :: "unit hook_registry" where
  "guarded_registry = fst (discover_and_build_hooks strict_shell linux_host idle_builtins [] [(guard_hook, UserHook)] None True True)"

definition guarded_env :: "unit agent_env" where
  "guarded_env = sample_env\<lparr>ae_hooks := Some (\<lambda>n p. Inr (fst (dispatch p 0 guarded_registry)))\<rparr>"

theorem blocked_tool_never_runs_witness:
  "list_all (\<lambda>e. case e of RanTool tool args \<Rightarrow> tool \<noteq> ''ls'' | _ \<Rightarrow> True)
    (effects (snd (run_agent_loop guarded_env ''s'' [] (TextContent ''x'') None)))"
proof (rule blocked_tool_never_runs)
  show "asks_registry guarded_env (fst (discover_and_build_hooks strict_shell linux_host idle_builtins [] [(guard_hook, UserHook)] None True True))"
    by (simp add: asks_registry_def guarded_env_def guarded_registry_def dispatch_may_answer)
  show "(guard_hook, UserHook) \<in> set [(guard_hook, UserHook)]" by simp
  show "usable linux_host [] (ph_metadata guard_hook)" by (simp add: usable_def check_hook_eligibility_def linux_host_def guard_hook_def Let_def)
  show "hm_command (ph_metadata guard_hook) = Some ''./handler.sh''" "EvBeforeToolCall \<in> set (hm_events (ph_metadata guard_hook))"
    by (simp_all add: guard_hook_def)
  have "exits strict_shell (shell_hook_of_metadata guard_hook c) p now = Some 1" for c p now
    by (simp add: exits_def strict_shell_def shell_hook_of_metadata_def guard_hook_def Let_def)
  then show "\<forall>p now. exits strict_shell (shell_hook_of_metadata guard_hook ''./handler.sh'') p now = Some 0 \<or>
      exits strict_shell (shell_hook_of_metadata guard_hook ''./handler.sh'') p now = Some 1"
    "\<forall>args now. exits strict_shell (shell_hook_of_metadata guard_hook ''./handler.sh'')
      (BeforeToolCall (session_key guarded_env) ''ls'' args (hook_channel guarded_env)) now = Some 1"
    by simp_all
qed

section \<open>What the registry does not exclude\<close>

text \<open>A guard that fails three times in a row, be it for other events, is not asked any more for a minute: the calls it forbids pass.\<close>

definition flaky_guard :: "unit hook_handler" where
  "flaky_guard =
     (let answer = (\<lambda>ev p now. (if ev = EvMessageSending then Inl ''down'' else Inr (HookBlock ''no''), 1)) in
      \<lparr>hh_name = ''guard'', hh_events = [EvMessageSending, EvBeforeToolCall], hh_priority = 0, hh_handle = answer, hh_handle_sync = answer\<rparr>)"

lemma failing_guard_is_skipped:
  "let call = BeforeToolCall ''s'' ''exec'' (Object []) None; message = MessageSending ''s'' ''hello'';
       r0 = build_registry 3 60000000 [flaky_guard];
       (a1, t1, r1) = dispatch message 0 r0; (a2, t2, r2) = dispatch message t1 r1; (a3, t3, r3) = dispatch message t2 r2 in
   objects flaky_guard call \<and> fst (dispatch call 0 r0) = HookBlock ''no'' \<and> fst (dispatch call t3 r3) = HookContinue"
  by (simp add: build_registry_def flaky_guard_def register_hook_def push_entry_def by_priority_def entries_for_def with_circuit_breaker_def
      new_hook_registry_def dispatch_def has_handlers_def dispatch_sequential_def ask_handler_def check_circuit_breaker_def take_answer_def
      set_stats_def stats_failure_def stats_success_def new_stats_def fetch_add_def at_end_def objects_def Let_def)

text \<open>A guard sees the arguments of the model only: when another hook rewrites them, the call goes on with arguments that the guard
  forbids.\<close>

definition argument_guard :: "unit hook_handler" where
  "argument_guard =
     (let answer = (\<lambda>ev p now. (case p of
          BeforeToolCall key name args ch \<Rightarrow> Inr (if args = String ''rm'' then HookBlock ''no'' else HookContinue) | _ \<Rightarrow> Inr HookContinue, 1)) in
      \<lparr>hh_name = ''guard'', hh_events = [EvBeforeToolCall], hh_priority = 0, hh_handle = answer, hh_handle_sync = answer\<rparr>)"

definition rewriting_hook :: "unit hook_handler" where
  "rewriting_hook =
     (let answer = (\<lambda>ev p now. (Inr (ModifyPayload (String ''rm'')), 1)) in
      \<lparr>hh_name = ''rewrite'', hh_events = [EvBeforeToolCall], hh_priority = 0, hh_handle = answer, hh_handle_sync = answer\<rparr>)"

lemma guard_misses_rewritten_arguments:
  "objects argument_guard (BeforeToolCall key name (String ''rm'') ch) \<and>
   fst (dispatch (BeforeToolCall key name (Object []) ch) 0 (build_registry 3 60000000 [rewriting_hook, argument_guard])) = ModifyPayload (String ''rm'')"
  by (simp add: build_registry_def argument_guard_def rewriting_hook_def register_hook_def push_entry_def by_priority_def entries_for_def
      with_circuit_breaker_def new_hook_registry_def dispatch_def has_handlers_def dispatch_sequential_def ask_handler_def
      check_circuit_breaker_def take_answer_def set_stats_def stats_failure_def stats_success_def new_stats_def fetch_add_def at_end_def
      objects_def Let_def)

end
