(* ===== verification/Credentials.thy ===== *)
theory Credentials
  imports Vault "HOL-Library.List_Lexorder" "HOL-Library.Char_ord"
begin

text \<open>
  The credential store (\<open>crates/auth/src/credential_store\<close>: \<open>sessions.rs\<close>, \<open>api_keys.rs\<close>, \<open>passkeys.rs\<close>, \<open>env_vars.rs\<close> and
  \<open>types.rs\<close>): the password and how it is kept in step with the vault, passkeys, sessions, API keys, environment
  variables and the audit log.

  A table is the list of its rows in the order of their row numbers, and a method of the store is one step; time is in seconds, the
  resolution of \<open>datetime('now')\<close>. Argon2, the hashes, the texts of lists and dates are the record \<open>cred_lib\<close>; random
  values are arguments. Failures of the database other than violated keys, and failures to write the configuration file, are left
  out, and so are the tables of SSH keys.
\<close>

section \<open>Data\<close>

record cred_lib =
  argon_hash :: "string \<Rightarrow> string \<Rightarrow> string option"
  argon_verify :: "string \<Rightarrow> string \<Rightarrow> bool"
  key_sha256 :: "string \<Rightarrow> string"
  key_hmac :: "string \<Rightarrow> string \<Rightarrow> string"
  scopes_text :: "string list \<Rightarrow> string"
  scopes_of_text :: "string \<Rightarrow> string list option"
  time_text :: "nat \<Rightarrow> string"

record session_row =
  ss_token :: string
  ss_created :: nat
  ss_expires :: nat

record passkey_row =
  pk_id :: nat
  pk_credential :: bytes
  pk_name :: string
  pk_data :: bytes
  pk_created :: nat

record api_key_row =
  ak_id :: nat
  ak_label :: string
  ak_hash :: string
  ak_prefix :: string
  ak_created :: nat
  ak_revoked :: "nat option"
  ak_scopes :: "string option"
  ak_salt :: "string option"

record env_row =
  ev_id :: nat
  ev_key :: string
  ev_value :: string
  ev_encrypted :: bool
  ev_created :: nat
  ev_updated :: nat

record audit_row =
  au_event :: string
  au_ip :: "string option"
  au_detail :: "string option"
  au_created :: nat

record credentials =
  password_hash :: "string option"
  passkey_rows :: "passkey_row list"
  last_passkey_id :: nat
  key_rows :: "api_key_row list"
  last_key_id :: nat
  session_rows :: "session_row list"
  env_rows :: "env_row list"
  last_env_id :: nat
  audit_rows :: "audit_row list"
  disabled_row :: "bool option"
  disabled_config :: bool
  setup_flag :: bool
  disabled_flag :: bool
  cred_vault :: "vault option"
  encryption_flag :: bool

datatype cred_error = ValidationError string | CryptoError | KeyViolation

datatype password_vault_error =
    IncorrectCurrentPassword | VaultBadCredential | VaultStateChanged | PvAuth cred_error | PvVault vault_error

datatype vault_init_error =
    ViIncorrectPassword | ViAlreadyInitialized | ViAuth cred_error | ViVault vault_error

definition map_vault_password_change_error :: "vault_error \<Rightarrow> password_vault_error" where
  "map_vault_password_change_error e = (if e = BadCredential then VaultBadCredential else if e = Sealed then VaultStateChanged else PvVault e)"

text \<open>What is drawn at random when a password is set: the salt of its hash, and what the vault needs.\<close>

record password_draw =
  pd_salt :: string
  pd_vault_salt :: bytes
  pd_vault_nonce :: bytes
  pd_init :: init_random

section \<open>Opening the store\<close>

definition has_password :: "credentials \<Rightarrow> bool" where "has_password s \<longleftrightarrow> password_hash s \<noteq> None"

definition has_passkeys :: "credentials \<Rightarrow> bool" where "has_passkeys s \<longleftrightarrow> passkey_rows s \<noteq> []"

text \<open>\<open>with_config\<close> and \<open>with_vault\<close>: the tables are those of the database, the flags are computed from them.\<close>

definition with_vault :: "bool \<Rightarrow> bool \<Rightarrow> vault option \<Rightarrow> credentials \<Rightarrow> credentials" where
  "with_vault config_disabled vault_enabled v s =
     (let disabled = (case disabled_row s of Some b \<Rightarrow> b | None \<Rightarrow> config_disabled) in
      s\<lparr>setup_flag := has_password s \<or> has_passkeys s, disabled_row := Some disabled, disabled_flag := disabled,
        cred_vault := v, encryption_flag := vault_enabled\<rparr>)"

definition with_config :: "bool \<Rightarrow> credentials \<Rightarrow> credentials" where
  "with_config config_disabled s = with_vault config_disabled False None s"

definition persist_auth_disabled :: "bool \<Rightarrow> credentials \<Rightarrow> credentials" where
  "persist_auth_disabled b s = s\<lparr>disabled_row := Some b, disabled_config := b\<rparr>"

definition clear_auth_disabled :: "credentials \<Rightarrow> credentials" where
  "clear_auth_disabled s = persist_auth_disabled False (s\<lparr>disabled_flag := False\<rparr>)"

definition mark_setup_complete :: "credentials \<Rightarrow> (cred_error + unit) \<times> credentials" where
  "mark_setup_complete s =
     (if \<not> has_password s \<and> \<not> has_passkeys s then (Inl (ValidationError ''cannot mark setup complete without any credentials''), s)
      else (Inr (), persist_auth_disabled False (s\<lparr>setup_flag := True, disabled_flag := False\<rparr>)))"

definition recompute_setup_complete :: "credentials \<Rightarrow> credentials" where
  "recompute_setup_complete s = s\<lparr>setup_flag := has_password s \<or> has_passkeys s\<rparr>"

section \<open>The password\<close>

definition ALREADY_SET :: cred_error where "ALREADY_SET = ValidationError ''password already set''"

definition insert_password :: "string \<Rightarrow> credentials \<Rightarrow> cred_error + credentials" where
  "insert_password h s = (if has_password s then Inl KeyViolation else Inr (s\<lparr>password_hash := Some h\<rparr>))"

definition set_initial_password :: "cred_lib \<Rightarrow> string \<Rightarrow> string \<Rightarrow> credentials \<Rightarrow> (cred_error + unit) \<times> credentials" where
  "set_initial_password L salt password s =
     (if setup_flag s then (Inl ALREADY_SET, s)
      else
        (case argon_hash L salt password of
           None \<Rightarrow> (Inl CryptoError, s)
         | Some h \<Rightarrow>
             (case insert_password h s of
                Inl e \<Rightarrow> (Inl e, s)
              | Inr t \<Rightarrow> (Inr (), persist_auth_disabled False (t\<lparr>setup_flag := True, disabled_flag := False\<rparr>)))))"

definition add_password :: "cred_lib \<Rightarrow> string \<Rightarrow> string \<Rightarrow> credentials \<Rightarrow> (cred_error + unit) \<times> credentials" where
  "add_password L salt password s =
     (if has_password s then (Inl ALREADY_SET, s)
      else
        (case argon_hash L salt password of
           None \<Rightarrow> (Inl CryptoError, s)
         | Some h \<Rightarrow> (case insert_password h s of Inl e \<Rightarrow> (Inl e, s) | Inr t \<Rightarrow> mark_setup_complete t)))"

definition verify_password :: "cred_lib \<Rightarrow> string \<Rightarrow> credentials \<Rightarrow> bool" where
  "verify_password L password s = (case password_hash s of Some h \<Rightarrow> argon_verify L password h | None \<Rightarrow> False)"

definition change_password :: "cred_lib \<Rightarrow> string \<Rightarrow> string \<Rightarrow> string \<Rightarrow> credentials \<Rightarrow> (cred_error + unit) \<times> credentials" where
  "change_password L salt current new s =
     (if \<not> verify_password L current s then (Inl (ValidationError ''current password is incorrect''), s)
      else
        (case argon_hash L salt new of
           None \<Rightarrow> (Inl CryptoError, s)
         | Some h \<Rightarrow> (Inr (), s\<lparr>password_hash := Some h, session_rows := []\<rparr>)))"

text \<open>The vault that a sealed one becomes when the password is tried on it.\<close>

definition unseal_if_sealed :: "crypto \<Rightarrow> string \<Rightarrow> vault \<Rightarrow> (vault_error + unit) \<times> vault" where
  "unseal_if_sealed C password v = (if vault_status_of v = IsSealed then unseal C password v else (Inr (), v))"

text \<open>The transaction of a first password: the vault's row, and the recovery key of a new vault.\<close>

definition prepare_vault :: "crypto \<Rightarrow> password_draw \<Rightarrow> string \<Rightarrow> vault \<Rightarrow> password_vault_error + vault_row \<times> string option" where
  "prepare_vault C d password v =
     (case vault_status_of v of
        Uninitialized \<Rightarrow>
          (case initialize_in_transaction C (pd_init d) password (row v) of
             Inl e \<Rightarrow> Inl (PvVault e)
           | Inr (phrase, r) \<Rightarrow> Inr (r, Some phrase))
      | IsSealed \<Rightarrow> Inl VaultStateChanged
      | Unsealed \<Rightarrow>
          (case rewrap_unsealed_in_transaction C (pd_vault_salt d) (pd_vault_nonce d) password v of
             Inl e \<Rightarrow> Inl (map_vault_password_change_error e)
           | Inr r \<Rightarrow> Inr (r, None)))"

definition insert_password_and_prepare_vault ::
  "crypto \<Rightarrow> cred_lib \<Rightarrow> password_draw \<Rightarrow> string \<Rightarrow> credentials \<Rightarrow> (password_vault_error + string option) \<times> credentials" where
  "insert_password_and_prepare_vault C L d password s =
     (case cred_vault s of
        None \<Rightarrow> (case add_password L (pd_salt d) password s of (Inl e, t) \<Rightarrow> (Inl (PvAuth e), t) | (Inr _, t) \<Rightarrow> (Inr None, t))
      | Some v \<Rightarrow>
          (case unseal_if_sealed C password v of
             (Inl e, v) \<Rightarrow> (Inl (map_vault_password_change_error e), s\<lparr>cred_vault := Some v\<rparr>)
           | (Inr _, v) \<Rightarrow>
               (let s = s\<lparr>cred_vault := Some v\<rparr> in
                if has_password s then (Inl (PvAuth ALREADY_SET), s)
                else
                  (case prepare_vault C d password v of
                     Inl e \<Rightarrow> (Inl e, s)
                   | Inr (r, phrase) \<Rightarrow>
                       (case argon_hash L (pd_salt d) password of
                          None \<Rightarrow> (Inl (PvAuth CryptoError), s)
                        | Some h \<Rightarrow>
                            (let v = v\<lparr>row := Some r\<rparr>; s = s\<lparr>password_hash := Some h, disabled_row := Some False, cred_vault := Some v\<rparr> in
                             case (if phrase = None then (Inr (), v) else unseal C password v) of
                               (Inl e, v) \<Rightarrow> (Inl (map_vault_password_change_error e), s\<lparr>cred_vault := Some v\<rparr>)
                             | (Inr _, v) \<Rightarrow>
                                 (Inr phrase, s\<lparr>cred_vault := Some v, setup_flag := True, disabled_flag := False, disabled_config := False\<rparr>)))))))"

definition set_initial_password_and_prepare_vault ::
  "crypto \<Rightarrow> cred_lib \<Rightarrow> password_draw \<Rightarrow> string \<Rightarrow> credentials \<Rightarrow> (password_vault_error + string option) \<times> credentials" where
  "set_initial_password_and_prepare_vault C L d password s =
     (if setup_flag s then (Inl (PvAuth ALREADY_SET), s) else insert_password_and_prepare_vault C L d password s)"

definition add_password_and_prepare_vault ::
  "crypto \<Rightarrow> cred_lib \<Rightarrow> password_draw \<Rightarrow> string \<Rightarrow> credentials \<Rightarrow> (password_vault_error + string option) \<times> credentials" where
  "add_password_and_prepare_vault C L d password s = insert_password_and_prepare_vault C L d password s"

text \<open>The vault's row for a new password: wrapped anew with the old password, or, when the vault does not take it, with the key in memory.\<close>

definition rotate_row :: "crypto \<Rightarrow> password_draw \<Rightarrow> string \<Rightarrow> string \<Rightarrow> vault \<Rightarrow> password_vault_error + vault_row option" where
  "rotate_row C d current new v =
     (case vault_status_of v of
        Uninitialized \<Rightarrow> Inr (row v)
      | IsSealed \<Rightarrow> Inl VaultStateChanged
      | Unsealed \<Rightarrow>
          (case change_password_in_transaction C (pd_vault_salt d) (pd_vault_nonce d) current new v of
             Inr r \<Rightarrow> Inr (Some r)
           | Inl e \<Rightarrow>
               if e = BadCredential then
                 (case rewrap_unsealed_in_transaction C (pd_vault_salt d) (pd_vault_nonce d) new v of
                    Inr r \<Rightarrow> Inr (Some r)
                  | Inl e \<Rightarrow> Inl (map_vault_password_change_error e))
               else Inl (map_vault_password_change_error e)))"

definition change_password_and_rotate_vault ::
  "crypto \<Rightarrow> cred_lib \<Rightarrow> password_draw \<Rightarrow> string \<Rightarrow> string \<Rightarrow> credentials \<Rightarrow> (password_vault_error + unit) \<times> credentials" where
  "change_password_and_rotate_vault C L d current new s =
     (case cred_vault s of
        None \<Rightarrow> (case change_password L (pd_salt d) current new s of (Inl e, t) \<Rightarrow> (Inl (PvAuth e), t) | (Inr _, t) \<Rightarrow> (Inr (), t))
      | Some v \<Rightarrow>
          if \<not> verify_password L current s then (Inl IncorrectCurrentPassword, s)
          else
            (case unseal_if_sealed C current v of
               (Inl e, v) \<Rightarrow> (Inl (map_vault_password_change_error e), s\<lparr>cred_vault := Some v\<rparr>)
             | (Inr _, v) \<Rightarrow>
                 (let s = s\<lparr>cred_vault := Some v\<rparr> in
                  case rotate_row C d current new v of
                    Inl e \<Rightarrow> (Inl e, s)
                  | Inr r \<Rightarrow>
                      (case argon_hash L (pd_salt d) new of
                         None \<Rightarrow> (Inl (PvAuth CryptoError), s)
                       | Some h \<Rightarrow> (Inr (), s\<lparr>password_hash := Some h, session_rows := [], cred_vault := Some (v\<lparr>row := r\<rparr>)\<rparr>)))))"

definition initialize_vault_for_current_password ::
  "crypto \<Rightarrow> cred_lib \<Rightarrow> init_random \<Rightarrow> string \<Rightarrow> credentials \<Rightarrow> (vault_init_error + string \<times> bool) \<times> credentials" where
  "initialize_vault_for_current_password C L rnd current s =
     (case cred_vault s of
        None \<Rightarrow> (Inl (ViVault NotInitialized), s)
      | Some v \<Rightarrow>
          if \<not> verify_password L current s then (Inl ViIncorrectPassword, s)
          else if vault_status_of v \<noteq> Uninitialized then (Inl ViAlreadyInitialized, s)
          else
            (case initialize_in_transaction C rnd current (row v) of
               Inl e \<Rightarrow> (Inl (ViVault e), s)
             | Inr (phrase, r) \<Rightarrow>
                 (case unseal C current (v\<lparr>row := Some r\<rparr>) of
                    (res, v) \<Rightarrow> (Inr (phrase, res = Inr ()), s\<lparr>cred_vault := Some v\<rparr>))))"

section \<open>Sessions\<close>

definition MAX_SESSIONS :: nat where "MAX_SESSIONS = 10"

definition SESSION_SECONDS :: nat where "SESSION_SECONDS = 30 * 24 * 60 * 60"

definition unexpired :: "nat \<Rightarrow> session_row list \<Rightarrow> session_row list" where
  "unexpired now rows = filter (\<lambda>r. now < ss_expires r) rows"

definition drop_oldest :: "nat \<Rightarrow> session_row list \<Rightarrow> session_row list" where
  "drop_oldest n rows = (let old = map ss_token (take n (sort_key ss_created rows)) in filter (\<lambda>r. ss_token r \<notin> set old) rows)"

definition create_session :: "string \<Rightarrow> nat \<Rightarrow> credentials \<Rightarrow> (cred_error + string) \<times> credentials" where
  "create_session token now s =
     (let rows = unexpired now (session_rows s);
          rows = (if MAX_SESSIONS \<le> length rows then drop_oldest (length rows - MAX_SESSIONS + 1) rows else rows);
          s = s\<lparr>session_rows := rows\<rparr> in
      if token \<in> set (map ss_token rows) then (Inl KeyViolation, s)
      else (Inr token, s\<lparr>session_rows := rows @ [\<lparr>ss_token = token, ss_created = now, ss_expires = now + SESSION_SECONDS\<rparr>]\<rparr>))"

definition validate_session :: "string \<Rightarrow> nat \<Rightarrow> credentials \<Rightarrow> bool" where
  "validate_session token now s = list_ex (\<lambda>r. ss_token r = token \<and> now < ss_expires r) (session_rows s)"

definition delete_session :: "string \<Rightarrow> credentials \<Rightarrow> credentials" where
  "delete_session token s = s\<lparr>session_rows := filter (\<lambda>r. ss_token r \<noteq> token) (session_rows s)\<rparr>"

definition cleanup_expired_sessions :: "nat \<Rightarrow> credentials \<Rightarrow> nat \<times> credentials" where
  "cleanup_expired_sessions now s =
     (length (session_rows s) - length (unexpired now (session_rows s)), s\<lparr>session_rows := unexpired now (session_rows s)\<rparr>)"

definition reset_all :: "credentials \<Rightarrow> credentials" where
  "reset_all s =
     persist_auth_disabled True
       (s\<lparr>password_hash := None, session_rows := [], passkey_rows := [], key_rows := [], setup_flag := False, disabled_flag := True\<rparr>)"

section \<open>API keys\<close>

record api_key_entry =
  ke_id :: nat
  ke_label :: string
  ke_prefix :: string
  ke_created :: string
  ke_scopes :: "string list option"

definition create_api_key :: "cred_lib \<Rightarrow> string \<Rightarrow> string \<Rightarrow> nat \<Rightarrow> string \<Rightarrow> string list option \<Rightarrow> credentials \<Rightarrow> (nat \<times> string) \<times> credentials" where
  "create_api_key L token salt now label scope_list s =
     (let raw = ''mk_'' @ token; new_id = Suc (last_key_id s) in
      ((new_id, raw),
       s\<lparr>last_key_id := new_id,
         key_rows := key_rows s @ [\<lparr>ak_id = new_id, ak_label = label, ak_hash = key_hmac L raw salt, ak_prefix = take 11 raw, ak_created = now,
           ak_revoked = None, ak_scopes = (case scope_list of Some (x # xs) \<Rightarrow> Some (scopes_text L (x # xs)) | _ \<Rightarrow> None), ak_salt = Some salt\<rparr>]\<rparr>))"

definition list_api_keys :: "cred_lib \<Rightarrow> credentials \<Rightarrow> api_key_entry list" where
  "list_api_keys L s =
     map (\<lambda>r. \<lparr>ke_id = ak_id r, ke_label = ak_label r, ke_prefix = ak_prefix r, ke_created = time_text L (ak_created r),
         ke_scopes = (case Option.bind (ak_scopes r) (scopes_of_text L) of Some (x # xs) \<Rightarrow> Some (x # xs) | _ \<Rightarrow> None)\<rparr>)
       (rev (sort_key ak_created (rev (filter (\<lambda>r. ak_revoked r = None) (key_rows s)))))"

definition revoke_api_key :: "nat \<Rightarrow> nat \<Rightarrow> credentials \<Rightarrow> credentials" where
  "revoke_api_key now key_id s =
     s\<lparr>key_rows := map (\<lambda>r. if ak_id r = key_id \<and> ak_revoked r = None then r\<lparr>ak_revoked := Some now\<rparr> else r) (key_rows s)\<rparr>"

definition key_matches :: "cred_lib \<Rightarrow> string \<Rightarrow> api_key_row \<Rightarrow> bool" where
  "key_matches L raw r = (case ak_salt r of Some salt \<Rightarrow> key_hmac L raw salt = ak_hash r | None \<Rightarrow> key_sha256 L raw = ak_hash r)"

definition granted_scopes :: "cred_lib \<Rightarrow> api_key_row \<Rightarrow> string list" where
  "granted_scopes L r = (case Option.bind (ak_scopes r) (scopes_of_text L) of Some xs \<Rightarrow> xs | None \<Rightarrow> [])"

definition verify_api_key :: "cred_lib \<Rightarrow> string \<Rightarrow> credentials \<Rightarrow> (nat \<times> string list) option" where
  "verify_api_key L raw s =
     map_option (\<lambda>r. (ak_id r, granted_scopes L r)) (find (key_matches L raw) (filter (\<lambda>r. ak_revoked r = None) (key_rows s)))"

section \<open>Passkeys\<close>

definition store_passkey :: "nat \<Rightarrow> bytes \<Rightarrow> string \<Rightarrow> bytes \<Rightarrow> credentials \<Rightarrow> (cred_error + nat) \<times> credentials" where
  "store_passkey now credential name data s =
     (if credential \<in> set (map pk_credential (passkey_rows s)) then (Inl KeyViolation, s)
      else
        (let new_id = Suc (last_passkey_id s);
             s = s\<lparr>last_passkey_id := new_id, passkey_rows := passkey_rows s @
               [\<lparr>pk_id = new_id, pk_credential = credential, pk_name = name, pk_data = data, pk_created = now\<rparr>]\<rparr> in
         case mark_setup_complete s of (Inl e, s) \<Rightarrow> (Inl e, s) | (Inr _, s) \<Rightarrow> (Inr new_id, s)))"

definition list_passkeys :: "cred_lib \<Rightarrow> credentials \<Rightarrow> (nat \<times> string \<times> string) list" where
  "list_passkeys L s = map (\<lambda>r. (pk_id r, pk_name r, time_text L (pk_created r))) (rev (sort_key pk_created (rev (passkey_rows s))))"

definition remove_passkey :: "nat \<Rightarrow> credentials \<Rightarrow> credentials" where
  "remove_passkey passkey_id s = recompute_setup_complete (s\<lparr>passkey_rows := filter (\<lambda>r. pk_id r \<noteq> passkey_id) (passkey_rows s)\<rparr>)"

definition rename_passkey :: "nat \<Rightarrow> string \<Rightarrow> credentials \<Rightarrow> credentials" where
  "rename_passkey passkey_id name s =
     s\<lparr>passkey_rows := map (\<lambda>r. if pk_id r = passkey_id then r\<lparr>pk_name := name\<rparr> else r) (passkey_rows s)\<rparr>"

definition load_all_passkey_data :: "credentials \<Rightarrow> (nat \<times> bytes) list" where
  "load_all_passkey_data s = map (\<lambda>r. (pk_id r, pk_data r)) (passkey_rows s)"

section \<open>Environment variables and the audit log\<close>

definition env_aad :: "string \<Rightarrow> string" where "env_aad key = ''env:'' @ key"

definition env_stored :: "crypto \<Rightarrow> bytes \<Rightarrow> string \<Rightarrow> string \<Rightarrow> credentials \<Rightarrow> cred_error + string \<times> bool" where
  "env_stored C nonce key v s =
     (case (encryption_flag s, cred_vault s) of
        (True, Some vlt) \<Rightarrow>
          if is_unsealed vlt then
            (case encrypt_string C nonce v (env_aad key) vlt of Inl e \<Rightarrow> Inl CryptoError | Inr enc \<Rightarrow> Inr (enc, True))
          else Inr (v, False)
      | _ \<Rightarrow> Inr (v, False))"

text \<open>The number that \<open>last_insert_rowid\<close> gives after an update is that of some earlier insertion on the connection, an argument here.\<close>

definition set_env_var :: "crypto \<Rightarrow> bytes \<Rightarrow> nat \<Rightarrow> nat \<Rightarrow> string \<Rightarrow> string \<Rightarrow> credentials \<Rightarrow> (cred_error + nat) \<times> credentials" where
  "set_env_var C nonce now conn_rowid key v s =
     (case env_stored C nonce key v s of
        Inl e \<Rightarrow> (Inl e, s)
      | Inr (stored, enc) \<Rightarrow>
          if key \<in> set (map ev_key (env_rows s)) then
            (Inr conn_rowid,
             s\<lparr>env_rows := map (\<lambda>r. if ev_key r = key then r\<lparr>ev_value := stored, ev_encrypted := enc, ev_updated := now\<rparr> else r) (env_rows s)\<rparr>)
          else
            (let new_id = Suc (last_env_id s) in
             (Inr new_id,
              s\<lparr>last_env_id := new_id, env_rows := env_rows s @
                [\<lparr>ev_id = new_id, ev_key = key, ev_value = stored, ev_encrypted = enc, ev_created = now, ev_updated = now\<rparr>]\<rparr>)))"

definition delete_env_var :: "nat \<Rightarrow> credentials \<Rightarrow> string option \<times> credentials" where
  "delete_env_var env_id s =
     (map_option ev_key (find (\<lambda>r. ev_id r = env_id) (env_rows s)), s\<lparr>env_rows := filter (\<lambda>r. ev_id r \<noteq> env_id) (env_rows s)\<rparr>)"

definition env_plaintext :: "crypto \<Rightarrow> vault option \<Rightarrow> env_row \<Rightarrow> string option" where
  "env_plaintext C v r =
     (if ev_encrypted r then
        (case v of
           Some vlt \<Rightarrow> (case decrypt_string C (ev_value r) (env_aad (ev_key r)) vlt of Inr pt \<Rightarrow> Some pt | Inl e \<Rightarrow> None)
         | None \<Rightarrow> None)
      else Some (ev_value r))"

definition get_all_env_values :: "crypto \<Rightarrow> credentials \<Rightarrow> (string \<times> string) list" where
  "get_all_env_values C s =
     List.map_filter (\<lambda>r. map_option (Pair (ev_key r)) (env_plaintext C (cred_vault s) r)) (sort_key ev_key (env_rows s))"

definition list_env_vars :: "cred_lib \<Rightarrow> credentials \<Rightarrow> (nat \<times> string \<times> string \<times> string \<times> bool) list" where
  "list_env_vars L s =
     map (\<lambda>r. (ev_id r, ev_key r, time_text L (ev_created r), time_text L (ev_updated r), ev_encrypted r)) (sort_key ev_key (env_rows s))"

text \<open>
  When the vault opens, plain values are encrypted (\<open>migrate_env_vars\<close> of \<open>vault/src/migration.rs\<close>), row by row until the first
  failure; when encryption is given up, they are decrypted again (\<open>gateway/src/vault_lifecycle.rs\<close>). \<open>rnd\<close> gives the nonce for a row.
\<close>

fun migrate_env_rows :: "crypto \<Rightarrow> (nat \<Rightarrow> bytes) \<Rightarrow> nat \<Rightarrow> vault \<Rightarrow> env_row list \<Rightarrow> (vault_error + nat) \<times> env_row list" where
  "migrate_env_rows C rnd now v [] = (Inr 0, [])"
| "migrate_env_rows C rnd now v (r # rs) =
     (if ev_encrypted r then (case migrate_env_rows C rnd now v rs of (res, rs) \<Rightarrow> (res, r # rs))
      else
        (case encrypt_string C (rnd (ev_id r)) (ev_value r) (env_aad (ev_key r)) v of
           Inl e \<Rightarrow> (Inl e, r # rs)
         | Inr enc \<Rightarrow>
             (case migrate_env_rows C rnd now v rs of
                (res, rs) \<Rightarrow> (map_sum id Suc res, r\<lparr>ev_value := enc, ev_encrypted := True, ev_updated := now\<rparr> # rs))))"

definition run_vault_env_migration :: "crypto \<Rightarrow> (nat \<Rightarrow> bytes) \<Rightarrow> nat \<Rightarrow> credentials \<Rightarrow> credentials" where
  "run_vault_env_migration C rnd now s =
     (case cred_vault s of None \<Rightarrow> s | Some v \<Rightarrow> s\<lparr>env_rows := snd (migrate_env_rows C rnd now v (env_rows s))\<rparr>)"

fun decrypt_env_rows :: "crypto \<Rightarrow> nat \<Rightarrow> vault \<Rightarrow> env_row list \<Rightarrow> (vault_error + nat) \<times> env_row list" where
  "decrypt_env_rows C now v [] = (Inr 0, [])"
| "decrypt_env_rows C now v (r # rs) =
     (if \<not> ev_encrypted r then (case decrypt_env_rows C now v rs of (res, rs) \<Rightarrow> (res, r # rs))
      else
        (case decrypt_string C (ev_value r) (env_aad (ev_key r)) v of
           Inl e \<Rightarrow> (Inl e, r # rs)
         | Inr pt \<Rightarrow>
             (case decrypt_env_rows C now v rs of
                (res, rs) \<Rightarrow> (map_sum id Suc res, r\<lparr>ev_value := pt, ev_encrypted := False, ev_updated := now\<rparr> # rs))))"

text \<open>Whether the secrets that come after the environment variables (keys, channels, webhooks, files) decrypt is the argument \<open>others_ok\<close>.
  What was decrypted before a failure stays so.\<close>

definition disable_vault_and_decrypt_all :: "crypto \<Rightarrow> nat \<Rightarrow> bool \<Rightarrow> credentials \<Rightarrow> bool \<times> credentials" where
  "disable_vault_and_decrypt_all C now others_ok s =
     (case cred_vault s of
        None \<Rightarrow> (False, s)
      | Some v \<Rightarrow>
          if \<not> is_unsealed v then (False, s)
          else (case decrypt_env_rows C now v (env_rows s) of (res, rows) \<Rightarrow> (\<not> isl res \<and> others_ok, s\<lparr>env_rows := rows\<rparr>)))"

text \<open>The route that gives the vault up (\<open>httpd/src/auth_routes/vault.rs\<close>) then seals it and clears the flag of the store.\<close>

definition disable_vault :: "crypto \<Rightarrow> nat \<Rightarrow> bool \<Rightarrow> credentials \<Rightarrow> bool \<times> credentials" where
  "disable_vault C now others_ok s =
     (case disable_vault_and_decrypt_all C now others_ok s of
        (ok, t) \<Rightarrow> (ok, if ok then t\<lparr>cred_vault := map_option seal (cred_vault t), encryption_flag := False\<rparr> else t))"

definition AUDIT_SECONDS :: nat where "AUDIT_SECONDS = 90 * 24 * 60 * 60"

definition audit_log :: "string \<Rightarrow> string option \<Rightarrow> string option \<Rightarrow> nat \<Rightarrow> credentials \<Rightarrow> credentials" where
  "audit_log event ip detail now s =
     s\<lparr>audit_rows := filter (\<lambda>r. now \<le> au_created r + AUDIT_SECONDS)
        (audit_rows s @ [\<lparr>au_event = event, au_ip = ip, au_detail = detail, au_created = now\<rparr>])\<rparr>"

section \<open>Runs of the store\<close>

text \<open>The operations on the store, with what they draw and when they happen; the vault is also opened and sealed beside the store.\<close>

datatype cred_event =
    SetInitial string string
  | AddPassword string string
  | ChangePassword string string string
  | PrepareVault password_draw string
  | RotateVault password_draw string string
  | InitVault init_random string
  | OpenVault string
  | RecoverVault string
  | CloseVault
  | NewSession string nat
  | Logout string
  | CleanSessions nat
  | ResetAll
  | NewKey string string nat string "string list option"
  | RevokeKey nat nat
  | NewPasskey nat bytes string bytes
  | RemovePasskey nat
  | RenamePasskey nat string
  | SetEnv bytes nat nat string string
  | DeleteEnv nat
  | MigrateEnv "nat \<Rightarrow> bytes" nat
  | DisableVault nat bool
  | Audit string "string option" "string option" nat
  | MarkComplete
  | ClearDisabled
  | Reopen bool bool

definition on_vault :: "(vault \<Rightarrow> vault) \<Rightarrow> credentials \<Rightarrow> credentials" where
  "on_vault f s = s\<lparr>cred_vault := map_option f (cred_vault s)\<rparr>"

fun cred_step :: "crypto \<Rightarrow> cred_lib \<Rightarrow> credentials \<Rightarrow> cred_event \<Rightarrow> credentials" where
  "cred_step C L s (SetInitial salt p) = snd (set_initial_password L salt p s)"
| "cred_step C L s (AddPassword salt p) = snd (add_password L salt p s)"
| "cred_step C L s (ChangePassword salt old new) = snd (change_password L salt old new s)"
| "cred_step C L s (PrepareVault d p) = snd (insert_password_and_prepare_vault C L d p s)"
| "cred_step C L s (RotateVault d old new) = snd (change_password_and_rotate_vault C L d old new s)"
| "cred_step C L s (InitVault rnd p) = snd (initialize_vault_for_current_password C L rnd p s)"
| "cred_step C L s (OpenVault p) = on_vault (\<lambda>v. snd (unseal C p v)) s"
| "cred_step C L s (RecoverVault phrase) = on_vault (\<lambda>v. snd (unseal_with_recovery C phrase v)) s"
| "cred_step C L s CloseVault = on_vault seal s"
| "cred_step C L s (NewSession token now) = snd (create_session token now s)"
| "cred_step C L s (Logout token) = delete_session token s"
| "cred_step C L s (CleanSessions now) = snd (cleanup_expired_sessions now s)"
| "cred_step C L s ResetAll = reset_all s"
| "cred_step C L s (NewKey token salt now label sc) = snd (create_api_key L token salt now label sc s)"
| "cred_step C L s (RevokeKey now key_id) = revoke_api_key now key_id s"
| "cred_step C L s (NewPasskey now cred name data) = snd (store_passkey now cred name data s)"
| "cred_step C L s (RemovePasskey passkey_id) = remove_passkey passkey_id s"
| "cred_step C L s (RenamePasskey passkey_id name) = rename_passkey passkey_id name s"
| "cred_step C L s (SetEnv nonce now conn_rowid key v) = snd (set_env_var C nonce now conn_rowid key v s)"
| "cred_step C L s (DeleteEnv env_id) = snd (delete_env_var env_id s)"
| "cred_step C L s (MigrateEnv rnd now) = run_vault_env_migration C rnd now s"
| "cred_step C L s (DisableVault now others_ok) = snd (disable_vault C now others_ok s)"
| "cred_step C L s (Audit event ip detail now) = audit_log event ip detail now s"
| "cred_step C L s MarkComplete = snd (mark_setup_complete s)"
| "cred_step C L s ClearDisabled = clear_auth_disabled s"
| "cred_step C L s (Reopen disabled enabled) = with_vault disabled enabled (map_option (\<lambda>v. new_vault (row v)) (cred_vault s)) s"

text \<open>The state of an empty database, with a vault or without.\<close>

definition fresh_store :: "bool \<Rightarrow> bool \<Rightarrow> vault option \<Rightarrow> credentials" where
  "fresh_store disabled enabled v =
     with_vault disabled enabled v
       \<lparr>password_hash = None, passkey_rows = [], last_passkey_id = 0, key_rows = [], last_key_id = 0, session_rows = [], env_rows = [],
        last_env_id = 0, audit_rows = [], disabled_row = None, disabled_config = disabled, setup_flag = False, disabled_flag = False,
        cred_vault = None, encryption_flag = False\<rparr>"

section \<open>What the operations keep\<close>

lemmas password_ops = set_initial_password_def add_password_def change_password_def insert_password_def mark_setup_complete_def
  persist_auth_disabled_def clear_auth_disabled_def recompute_setup_complete_def

lemmas vault_ops = insert_password_and_prepare_vault_def change_password_and_rotate_vault_def initialize_vault_for_current_password_def

lemmas row_ops = create_api_key_def revoke_api_key_def store_passkey_def remove_passkey_def rename_passkey_def set_env_var_def delete_env_var_def
  audit_log_def reset_all_def with_vault_def on_vault_def

lemmas all_splits = option.splits sum.splits prod.splits if_splits vault_status.splits

section \<open>Sessions that are in force\<close>

text \<open>Events that end all sessions: a reset, and a password change that succeeds.\<close>

definition ends_sessions :: "crypto \<Rightarrow> cred_lib \<Rightarrow> credentials \<Rightarrow> cred_event \<Rightarrow> bool" where
  "ends_sessions C L s e \<longleftrightarrow>
     (case e of
        ResetAll \<Rightarrow> True
      | ChangePassword salt old new \<Rightarrow> fst (change_password L salt old new s) = Inr ()
      | RotateVault d old new \<Rightarrow> fst (change_password_and_rotate_vault C L d old new s) = Inr ()
      | _ \<Rightarrow> False)"

text \<open>What a session list should hold: the ten newest sessions that were not logged out, since the last event that ended all.\<close>

definition newest_sessions :: "crypto \<Rightarrow> cred_lib \<Rightarrow> credentials \<Rightarrow> (string \<times> nat) list \<Rightarrow> cred_event \<Rightarrow> (string \<times> nat) list" where
  "newest_sessions C L s xs e =
     (case e of
        NewSession token now \<Rightarrow> last_n (MAX_SESSIONS - 1) xs @ [(token, now)]
      | Logout token \<Rightarrow> filter (\<lambda>x. fst x \<noteq> token) xs
      | _ \<Rightarrow> if ends_sessions C L s e then [] else xs)"

fun clock_after :: "nat \<Rightarrow> cred_event \<Rightarrow> nat" where
  "clock_after clock (NewSession token now) = now"
| "clock_after clock (CleanSessions now) = now"
| "clock_after clock _ = clock"

fun watched_step :: "crypto \<Rightarrow> cred_lib \<Rightarrow> credentials \<times> (string \<times> nat) list \<times> nat \<Rightarrow> cred_event \<Rightarrow> credentials \<times> (string \<times> nat) list \<times> nat" where
  "watched_step C L (s, xs, clock) e = (cred_step C L s e, newest_sessions C L s xs e, clock_after clock e)"

text \<open>The clock does not run backwards, and a new token is not one in force.\<close>

fun watched_ok :: "credentials \<times> (string \<times> nat) list \<times> nat \<Rightarrow> cred_event \<Rightarrow> bool" where
  "watched_ok (s, xs, clock) e \<longleftrightarrow>
     clock \<le> clock_after clock e \<and> (case e of NewSession token now \<Rightarrow> token \<notin> set (map fst xs) | _ \<Rightarrow> True)"

definition row_of :: "string \<times> nat \<Rightarrow> session_row" where
  "row_of x = \<lparr>ss_token = fst x, ss_created = snd x, ss_expires = snd x + SESSION_SECONDS\<rparr>"

definition over :: "nat \<Rightarrow> (string \<times> nat) list \<Rightarrow> bool" where
  "over now xs \<longleftrightarrow> (\<forall>x\<in>set xs. snd x + SESSION_SECONDS \<le> now)"

text \<open>The table holds the rows of the list, but for some at its front that have expired.\<close>

definition tracks :: "nat \<Rightarrow> session_row list \<Rightarrow> (string \<times> nat) list \<Rightarrow> bool" where
  "tracks clock rows xs \<longleftrightarrow>
     sorted (map snd xs) \<and> distinct (map fst xs) \<and> length xs \<le> MAX_SESSIONS \<and> (\<forall>x\<in>set xs. snd x \<le> clock) \<and>
     (\<exists>ys zs. xs = ys @ zs \<and> rows = map row_of zs \<and> over clock ys)"

lemma row_of_simps [simp]: "ss_token (row_of x) = fst x" "ss_created (row_of x) = snd x" "ss_expires (row_of x) = snd x + SESSION_SECONDS"
  by (simp_all add: row_of_def)

lemma over_append [simp]: "over now (xs @ ys) \<longleftrightarrow> over now xs \<and> over now ys"
  by (auto simp: over_def)

lemma over_later: "over t xs \<Longrightarrow> t \<le> u \<Longrightarrow> over u xs"
  by (auto simp: over_def)

lemma expired_front:
  assumes "sorted (map snd zs)"
  obtains us vs where "zs = us @ vs" "over now us" "unexpired now (map row_of zs) = map row_of vs"
proof -
  have "\<exists>us vs. zs = us @ vs \<and> over now us \<and> (\<forall>x\<in>set vs. now < snd x + SESSION_SECONDS)" using assms
  proof (induction zs)
    case (Cons z zs)
    then obtain us vs where uv: "zs = us @ vs" "over now us" "\<forall>x\<in>set vs. now < snd x + SESSION_SECONDS" by auto
    show ?case
    proof (cases "now < snd z + SESSION_SECONDS")
      case True
      then have "\<forall>x\<in>set (z # zs). now < snd x + SESSION_SECONDS" using Cons.prems by fastforce
      then show ?thesis by (intro exI [of _ "[]"] exI [of _ "z # zs"]) (simp add: over_def)
    next
      case False
      then show ?thesis using uv by (intro exI [of _ "z # us"] exI [of _ vs]) (simp add: over_def)
    qed
  qed (simp add: over_def)
  then obtain us vs where uv: "zs = us @ vs" "over now us" "\<forall>x\<in>set vs. now < snd x + SESSION_SECONDS" by blast
  have "unexpired now (map row_of us) = []" using uv(2) by (auto simp: unexpired_def over_def filter_empty_conv)
  moreover have "unexpired now (map row_of vs) = map row_of vs" using uv(3) by (auto simp: unexpired_def)
  ultimately have "unexpired now (map row_of zs) = map row_of vs" by (simp add: uv(1) unexpired_def)
  with uv(1,2) show ?thesis by (rule that)
qed

lemma drop_first_row:
  assumes "sorted (map snd (v # vs))" "distinct (map fst (v # vs))"
  shows "drop_oldest 1 (map row_of (v # vs)) = map row_of vs"
proof -
  have "sorted (map ss_created (map row_of (v # vs)))" using assms(1) by (simp add: comp_def)
  then have "sort_key ss_created (map row_of (v # vs)) = map row_of (v # vs)" by (rule sort_key_id_if_sorted)
  moreover have "filter (\<lambda>r. ss_token r \<noteq> fst v) (map row_of vs) = map row_of vs"
  proof (rule filter_True)
    have "fst v \<notin> fst ` set vs" using assms(2) by simp
    then have "fst x \<noteq> fst v" if "x \<in> set vs" for x using imageI [OF that, of fst] by metis
    then show "\<forall>r\<in>set (map row_of vs). ss_token r \<noteq> fst v" by simp
  qed
  ultimately show ?thesis by (simp add: drop_oldest_def)
qed

lemma session_tracks_new:
  assumes tr: "tracks clock (session_rows s) xs" and now: "clock \<le> now" and new: "token \<notin> set (map fst xs)"
  shows "tracks now (session_rows (snd (create_session token now s))) (last_n (MAX_SESSIONS - 1) xs @ [(token, now)])"
proof -
  from tr obtain ys zs where xs: "xs = ys @ zs" "session_rows s = map row_of zs" "over clock ys"
    and inv: "sorted (map snd xs)" "distinct (map fst xs)" "length xs \<le> MAX_SESSIONS" "\<forall>x\<in>set xs. snd x \<le> clock"
    by (auto simp: tracks_def)
  have "sorted (map snd zs)" using inv(1) xs(1) by (simp add: sorted_append)
  then obtain us vs where uv: "zs = us @ vs" "over now us" "unexpired now (map row_of zs) = map row_of vs" by (rule expired_front)
  let ?kept = "last_n (MAX_SESSIONS - 1) xs" and ?front = "ys @ us"
  have front: "over now ?front" using uv(2) over_later [OF xs(3) now] by simp
  have split: "xs = ?front @ vs" using xs(1) uv(1) by simp
  define rows where "rows = (if MAX_SESSIONS \<le> length vs then drop_oldest (length vs - MAX_SESSIONS + 1) (map row_of vs) else map row_of vs)"
  have "\<exists>fs gs. ?kept = fs @ gs \<and> over now fs \<and> rows = map row_of gs"
  proof (cases "MAX_SESSIONS \<le> length vs")
    case True
    have "length ?front + length vs \<le> MAX_SESSIONS" using inv(3) split by simp
    then have len: "length vs = MAX_SESSIONS" and "length ?front = 0" using True by linarith+
    then have empty: "?front = []" by simp
    then obtain w ws where ws: "vs = w # ws" using len by (cases vs) (auto simp: MAX_SESSIONS_def)
    have "rows = map row_of ws"
      using drop_first_row [of w ws] inv(1,2) split empty len True by (simp add: rows_def ws)
    moreover have "?kept = ws" using split empty len by (simp add: last_n_def ws MAX_SESSIONS_def)
    ultimately show ?thesis by (intro exI [of _ "[]"] exI [of _ ws]) (simp add: over_def)
  next
    case False
    then have rows: "rows = map row_of vs" by (simp add: rows_def)
    have short: "length xs - (MAX_SESSIONS - 1) \<le> length ?front" using inv(3) False split by (simp add: MAX_SESSIONS_def)
    then have "?kept = drop (length xs - (MAX_SESSIONS - 1)) ?front @ vs" by (subst split) (simp add: last_n_def split)
    moreover have "over now (drop (length xs - (MAX_SESSIONS - 1)) ?front)" using front by (auto simp: over_def dest: in_set_dropD)
    ultimately show ?thesis using rows by blast
  qed
  then obtain fs gs where fg: "?kept = fs @ gs" "over now fs" "rows = map row_of gs" by blast
  have sub: "set ?kept \<subseteq> set xs" by (simp add: last_n_def set_drop_subset)
  then have "set gs \<subseteq> set xs" using fg(1) by simp
  then have absent: "token \<notin> set (map ss_token (map row_of gs))" using new by auto
  let ?rest = "unexpired now (session_rows s)"
  have "(if MAX_SESSIONS \<le> length ?rest then drop_oldest (length ?rest - MAX_SESSIONS + 1) ?rest else ?rest) = map row_of gs"
    using fg(3) by (simp only: xs(2) uv(3) rows_def length_map)
  then have table: "session_rows (snd (create_session token now s)) = map row_of (gs @ [(token, now)])"
    using absent by (simp only: create_session_def Let_def) (simp add: row_of_def)
  have kept: "sorted (map snd ?kept)" "distinct (map fst ?kept)" "length ?kept < MAX_SESSIONS"
    using inv(1-3) by (simp_all add: last_n_def MAX_SESSIONS_def drop_map [symmetric] sorted_wrt_drop)
  then have "sorted (map snd (?kept @ [(token, now)]))" "distinct (map fst (?kept @ [(token, now)]))" "\<forall>x\<in>set (?kept @ [(token, now)]). snd x \<le> now"
    using inv(4) now new sub by (fastforce simp: sorted_append)+
  moreover have "?kept @ [(token, now)] = fs @ (gs @ [(token, now)])" using fg(1) by simp
  then have "\<exists>ys zs. ?kept @ [(token, now)] = ys @ zs \<and> map row_of (gs @ [(token, now)]) = map row_of zs \<and> over now ys" using fg(2) by blast
  moreover have "length (?kept @ [(token, now)]) \<le> MAX_SESSIONS" using kept(3) by simp
  ultimately show ?thesis unfolding tracks_def table by blast
qed

lemma tracks_logout: "tracks clock rows xs \<Longrightarrow> tracks clock (filter (\<lambda>r. ss_token r \<noteq> token) rows) (filter (\<lambda>x. fst x \<noteq> token) xs)"
proof -
  assume tr: "tracks clock rows xs"
  then obtain ys zs where xs: "xs = ys @ zs" "rows = map row_of zs" "over clock ys" by (auto simp: tracks_def)
  let ?f = "filter (\<lambda>x. fst x \<noteq> token)"
  have "filter (\<lambda>r. ss_token r \<noteq> token) rows = map row_of (?f zs)" by (simp add: xs(2) filter_map comp_def)
  moreover have "sorted (map snd (?f xs))" "distinct (map fst (?f xs))" "length (?f xs) \<le> MAX_SESSIONS"
    using tr by (auto simp: tracks_def sorted_filter distinct_map_filter intro: order_trans [OF length_filter_le])
  moreover have "?f xs = ?f ys @ ?f zs" "over clock (?f ys)" using xs by (auto simp: over_def)
  moreover have "\<forall>x\<in>set (?f xs). snd x \<le> clock" using tr by (auto simp: tracks_def)
  ultimately show ?thesis unfolding tracks_def by blast
qed

lemma tracks_clean:
  assumes "tracks clock rows xs" "clock \<le> now"
  shows "tracks now (unexpired now rows) xs"
proof -
  obtain ys zs where xs: "xs = ys @ zs" "rows = map row_of zs" "over clock ys" and inv: "sorted (map snd xs)" "\<forall>x\<in>set xs. snd x \<le> clock"
    using assms(1) by (auto simp: tracks_def)
  have "sorted (map snd zs)" using inv(1) xs(1) by (simp add: sorted_append)
  then obtain us vs where "zs = us @ vs" "over now us" "unexpired now (map row_of zs) = map row_of vs" by (rule expired_front)
  then have "\<exists>fs gs. xs = fs @ gs \<and> unexpired now rows = map row_of gs \<and> over now fs"
    using xs over_later [OF xs(3) assms(2)] by (metis append.assoc over_append)
  moreover have "\<forall>x\<in>set xs. snd x \<le> now" using inv(2) assms(2) by fastforce
  ultimately show ?thesis using assms(1) unfolding tracks_def by blast
qed

lemma tracks_none: "tracks clock [] []"
  by (auto simp: tracks_def over_def)

lemma password_change_sessions:
  "fst (change_password L salt old new s) = Inr () \<Longrightarrow> session_rows (snd (change_password L salt old new s)) = []"
  "fst (change_password L salt old new s) \<noteq> Inr () \<Longrightarrow> session_rows (snd (change_password L salt old new s)) = session_rows s"
  by (auto simp: change_password_def split: option.splits)

lemma rotation_sessions:
  "fst (change_password_and_rotate_vault C L d old new s) = Inr () \<Longrightarrow> session_rows (snd (change_password_and_rotate_vault C L d old new s)) = []"
  "fst (change_password_and_rotate_vault C L d old new s) \<noteq> Inr () \<Longrightarrow>
     session_rows (snd (change_password_and_rotate_vault C L d old new s)) = session_rows s"
  using password_change_sessions [of L "pd_salt d" old new s]
  by (auto simp: change_password_and_rotate_vault_def Let_def split: option.splits sum.splits prod.splits)

lemma other_sessions:
  "session_rows (snd (set_initial_password L salt p s)) = session_rows s"
  "session_rows (snd (add_password L salt p s)) = session_rows s"
  "session_rows (snd (mark_setup_complete s)) = session_rows s"
  "session_rows (clear_auth_disabled s) = session_rows s"
  "session_rows (remove_passkey n s) = session_rows s"
  "session_rows (snd (store_passkey now cred name data s)) = session_rows s"
  "session_rows (snd (create_api_key L token salt now label sc s)) = session_rows s"
  "session_rows (revoke_api_key now n s) = session_rows s"
  "session_rows (rename_passkey n name s) = session_rows s"
  "session_rows (snd (delete_env_var n s)) = session_rows s"
  "session_rows (audit_log event ip detail now s) = session_rows s"
  "session_rows (with_vault b c v s) = session_rows s"
  "session_rows (on_vault f s) = session_rows s"
  "session_rows (reset_all s) = []"
  "session_rows (run_vault_env_migration C rnd now s) = session_rows s"
  "session_rows (snd (disable_vault C now ok s)) = session_rows s"
  by (auto simp: run_vault_env_migration_def disable_vault_def disable_vault_and_decrypt_all_def password_ops row_ops Let_def split: option.splits prod.splits)

lemma prepare_sessions: "session_rows (snd (insert_password_and_prepare_vault C L d p s)) = session_rows s"
  using other_sessions(2) [of L "pd_salt d" p s]
  by (auto simp: insert_password_and_prepare_vault_def Let_def split: option.splits sum.splits prod.splits)

lemma init_sessions: "session_rows (snd (initialize_vault_for_current_password C L rnd p s)) = session_rows s"
  by (auto simp: initialize_vault_for_current_password_def split: option.splits sum.splits prod.splits)

lemma set_env_sessions: "session_rows (snd (set_env_var C nonce now conn_rowid key v s)) = session_rows s"
  by (auto simp: set_env_var_def Let_def split: sum.splits prod.splits)

lemma tracks_step:
  assumes "watched_ok (s, xs, clock) e" "tracks clock (session_rows s) xs"
  shows "tracks (clock_after clock e) (session_rows (cred_step C L s e)) (newest_sessions C L s xs e)"
proof (cases e)
  case (NewSession token now)
  then show ?thesis using assms session_tracks_new by (simp add: newest_sessions_def)
next
  case (Logout token)
  then show ?thesis using assms tracks_logout by (simp add: newest_sessions_def delete_session_def)
next
  case (CleanSessions now)
  then show ?thesis using assms tracks_clean by (simp add: newest_sessions_def ends_sessions_def cleanup_expired_sessions_def)
next
  case (ChangePassword salt old new)
  then show ?thesis using assms password_change_sessions [of L salt old new s] tracks_none
    by (simp add: newest_sessions_def ends_sessions_def)
next
  case (RotateVault d old new)
  then show ?thesis using assms rotation_sessions [of C L d old new s] tracks_none
    by (simp add: newest_sessions_def ends_sessions_def)
qed (use assms tracks_none in \<open>simp_all add: newest_sessions_def ends_sessions_def other_sessions prepare_sessions init_sessions
      set_env_sessions\<close>)

interpretation session_watch: event_machine "watched_step C L" watched_ok "\<lambda>(s, xs, clock). tracks clock (session_rows s) xs" for C L
proof
  fix t and e
  assume "case t of (s, xs, clock) \<Rightarrow> tracks clock (session_rows s) xs" "watched_ok t e"
  then show "case watched_step C L t e of (s, xs, clock) \<Rightarrow> tracks clock (session_rows s) xs"
    using tracks_step by (cases t) simp
qed

lemma tracks_valid:
  assumes "tracks clock (session_rows s) xs" "clock \<le> now"
  shows "validate_session token now s \<longleftrightarrow> (\<exists>x\<in>set xs. fst x = token \<and> now < snd x + SESSION_SECONDS)"
proof -
  obtain ys zs where xs: "xs = ys @ zs" "session_rows s = map row_of zs" "over now ys"
    using assms over_later by (auto simp: tracks_def)
  have "\<not> now < snd x + SESSION_SECONDS" if "x \<in> set ys" for x using xs(3) that by (auto simp: over_def)
  then have "(\<exists>x\<in>set xs. fst x = token \<and> now < snd x + SESSION_SECONDS) \<longleftrightarrow> (\<exists>x\<in>set zs. fst x = token \<and> now < snd x + SESSION_SECONDS)"
    unfolding xs(1) by auto
  moreover have "validate_session token now s \<longleftrightarrow> (\<exists>x\<in>set zs. fst x = token \<and> now < snd x + SESSION_SECONDS)"
    unfolding validate_session_def xs(2) by (simp add: list_ex_iff)
  ultimately show ?thesis by simp
qed

text \<open>C35: sessions in force. After any operations on a new store at times that do not go back, with tokens that are not in force already, a
  token passes exactly when it is one of the ten newest sessions that nobody logged out of since all sessions were ended by a reset or by
  a password change that succeeded, and its thirty days are not over. The table never holds more than ten rows.\<close>

theorem sessions_in_force:
  assumes "guarded_run watched_ok (watched_step C L) (fresh_store disabled enabled v, [], 0) es"
    and "foldl (watched_step C L) (fresh_store disabled enabled v, [], 0) es = (s, xs, clock)" "clock \<le> now"
  shows "(validate_session token now s \<longleftrightarrow> (\<exists>created. (token, created) \<in> set xs \<and> now < created + 2592000)) \<and>
     length (session_rows s) \<le> 10"
proof -
  have "tracks 0 (session_rows (fresh_store disabled enabled v)) []"
    by (simp add: fresh_store_def with_vault_def Let_def tracks_none)
  then have tr: "tracks clock (session_rows s) xs"
    using session_watch.inv_run [of "(fresh_store disabled enabled v, [], 0)", OF _ assms(1)] assms(2) by simp
  then have "length (session_rows s) \<le> 10" by (auto simp: tracks_def MAX_SESSIONS_def)
  moreover have "(\<exists>x\<in>set xs. fst x = token \<and> now < snd x + SESSION_SECONDS) \<longleftrightarrow> (\<exists>created. (token, created) \<in> set xs \<and> now < created + 2592000)"
    by (force simp: SESSION_SECONDS_def)
  ultimately show ?thesis using tracks_valid [OF tr assms(3), of token] by simp
qed

definition plain_lib :: cred_lib where
  "plain_lib = \<lparr>argon_hash = (\<lambda>salt p. Some p), argon_verify = (\<lambda>p h. p = h), key_sha256 = (\<lambda>k. k), key_hmac = (\<lambda>k salt. salt @ k),
     scopes_text = concat, scopes_of_text = (\<lambda>t. Some [t]), time_text = (\<lambda>n. [])\<rparr>"

theorem sessions_in_force_witness:
  "let s = foldl (cred_step clear_crypto plain_lib) (fresh_store False False None) [NewSession ''a'' 0, NewSession ''b'' 5, Logout ''a''] in
   validate_session ''b'' 6 s \<and> \<not> validate_session ''a'' 6 s"
proof -
  let ?start = "fresh_store False False None" and ?es = "[NewSession ''a'' 0, NewSession ''b'' 5, Logout ''a'']"
  let ?w = "watched_step clear_crypto plain_lib" and ?s = "foldl (cred_step clear_crypto plain_lib) ?start ?es"
  have ok: "guarded_run watched_ok ?w (?start, [], 0) ?es"
    by (simp add: newest_sessions_def last_n_def MAX_SESSIONS_def)
  have end_state: "foldl ?w (?start, [], 0) ?es = (?s, [(''b'', 5)], 5)"
    by (simp add: newest_sessions_def last_n_def MAX_SESSIONS_def)
  show ?thesis
    using sessions_in_force [OF ok end_state, of 6 "''b''"] sessions_in_force [OF ok end_state, of 6 "''a''"] by (simp add: Let_def)
qed

section \<open>API keys in force\<close>

text \<open>Keys that were given out and not withdrawn: the text of the key, its number and its scopes.\<close>

definition issued_keys :: "credentials \<Rightarrow> (string \<times> nat \<times> string list) list \<Rightarrow> cred_event \<Rightarrow> (string \<times> nat \<times> string list) list" where
  "issued_keys s ks e =
     (case e of
        NewKey token salt now label sc \<Rightarrow> ks @ [(''mk_'' @ token, Suc (last_key_id s), case sc of Some xs \<Rightarrow> xs | None \<Rightarrow> [])]
      | RevokeKey now key_id \<Rightarrow> filter (\<lambda>k. fst (snd k) \<noteq> key_id) ks
      | ResetAll \<Rightarrow> []
      | _ \<Rightarrow> ks)"

fun key_step :: "crypto \<Rightarrow> cred_lib \<Rightarrow> credentials \<times> (string \<times> nat \<times> string list) list \<Rightarrow> cred_event \<Rightarrow> credentials \<times> (string \<times> nat \<times> string list) list" where
  "key_step C L (s, ks) e = (cred_step C L s e, issued_keys s ks e)"

fun key_ok :: "credentials \<times> (string \<times> nat \<times> string list) list \<Rightarrow> cred_event \<Rightarrow> bool" where
  "key_ok (s, ks) e = (case e of NewKey token salt now label sc \<Rightarrow> ''mk_'' @ token \<notin> set (map fst ks) | _ \<Rightarrow> True)"

text \<open>The documented behaviour of the libraries: a keyed hash has no collisions for one key, and a list of scopes can be read back.\<close>

definition key_law :: "cred_lib \<Rightarrow> bool" where
  "key_law L \<longleftrightarrow> (\<forall>k k' salt. key_hmac L k salt = key_hmac L k' salt \<longrightarrow> k = k') \<and> (\<forall>xs. scopes_of_text L (scopes_text L xs) = Some xs)"

definition live_rows :: "credentials \<Rightarrow> api_key_row list" where
  "live_rows s = filter (\<lambda>r. ak_revoked r = None) (key_rows s)"

definition row_for :: "cred_lib \<Rightarrow> api_key_row \<Rightarrow> string \<times> nat \<times> string list \<Rightarrow> bool" where
  "row_for L r k \<longleftrightarrow> (\<exists>salt. ak_salt r = Some salt \<and> ak_hash r = key_hmac L (fst k) salt) \<and> ak_id r = fst (snd k) \<and> granted_scopes L r = snd (snd k)"

definition keys_track :: "cred_lib \<Rightarrow> credentials \<Rightarrow> (string \<times> nat \<times> string list) list \<Rightarrow> bool" where
  "keys_track L s ks \<longleftrightarrow> list_all2 (row_for L) (live_rows s) ks \<and> distinct (map fst ks)"

lemma row_for_matches:
  assumes "key_law L" "row_for L r k"
  shows "key_matches L raw r \<longleftrightarrow> raw = fst k"
proof -
  obtain salt where r: "ak_salt r = Some salt" "ak_hash r = key_hmac L (fst k) salt" using assms(2) by (auto simp: row_for_def)
  have "key_hmac L raw salt = key_hmac L (fst k) salt \<longleftrightarrow> raw = fst k" using assms(1) unfolding key_law_def by metis
  then show ?thesis by (simp add: key_matches_def r)
qed

lemma keys_track_verify:
  assumes "key_law L" "list_all2 (row_for L) rows ks" "distinct (map fst ks)"
  shows "map_option (\<lambda>r. (ak_id r, granted_scopes L r)) (find (key_matches L raw) rows) = map_of ks raw"
  using assms(2,3)
proof (induction rule: list_all2_induct)
  case (Cons r rows k ks)
  then show ?case using row_for_matches [OF assms(1) Cons.hyps(1), of raw] by (cases k) (auto simp: row_for_def)
qed simp

lemma live_revoked:
  "live_rows (revoke_api_key now n s) = filter (\<lambda>r. ak_id r \<noteq> n) (live_rows s)"
proof -
  have "filter (\<lambda>r. ak_revoked r = None) (map (\<lambda>r. if ak_id r = n \<and> ak_revoked r = None then r\<lparr>ak_revoked := Some now\<rparr> else r) rows) =
      filter (\<lambda>r. ak_id r \<noteq> n) (filter (\<lambda>r. ak_revoked r = None) rows)" for rows
    by (induction rows) auto
  then show ?thesis by (simp add: live_rows_def revoke_api_key_def)
qed

lemma list_all2_filter:
  "list_all2 R xs ys \<Longrightarrow> (\<And>x y. R x y \<Longrightarrow> P x \<longleftrightarrow> Q y) \<Longrightarrow> list_all2 R (filter P xs) (filter Q ys)"
  by (induction rule: list_all2_induct) auto

lemma prepare_keys: "key_rows (snd (insert_password_and_prepare_vault C L d p s)) = key_rows s"
  by (auto simp: insert_password_and_prepare_vault_def password_ops Let_def split: option.splits sum.splits prod.splits if_splits)

lemma rotation_keys: "key_rows (snd (change_password_and_rotate_vault C L d old new s)) = key_rows s"
  by (auto simp: change_password_and_rotate_vault_def password_ops Let_def split: option.splits sum.splits prod.splits if_splits)

lemma init_keys: "key_rows (snd (initialize_vault_for_current_password C L rnd p s)) = key_rows s"
  by (auto simp: initialize_vault_for_current_password_def split: option.splits sum.splits prod.splits)

lemma other_keys:
  "key_rows (snd (set_initial_password L salt p s)) = key_rows s"
  "key_rows (snd (add_password L salt p s)) = key_rows s"
  "key_rows (snd (change_password L salt old new s)) = key_rows s"
  "key_rows (snd (mark_setup_complete s)) = key_rows s"
  "key_rows (clear_auth_disabled s) = key_rows s"
  "key_rows (remove_passkey n s) = key_rows s"
  "key_rows (snd (store_passkey now cred name data s)) = key_rows s"
  "key_rows (rename_passkey n name s) = key_rows s"
  "key_rows (snd (set_env_var C nonce now conn_rowid key v s)) = key_rows s"
  "key_rows (snd (delete_env_var n s)) = key_rows s"
  "key_rows (audit_log event ip detail now s) = key_rows s"
  "key_rows (with_vault b c vlt s) = key_rows s"
  "key_rows (on_vault f s) = key_rows s"
  "key_rows (reset_all s) = []"
  "key_rows (snd (create_session token now s)) = key_rows s"
  "key_rows (delete_session token s) = key_rows s"
  "key_rows (snd (cleanup_expired_sessions now s)) = key_rows s"
  "key_rows (run_vault_env_migration C rnd now s) = key_rows s"
  "key_rows (snd (disable_vault C now ok s)) = key_rows s"
  by (auto simp: run_vault_env_migration_def disable_vault_def disable_vault_and_decrypt_all_def password_ops row_ops create_session_def delete_session_def cleanup_expired_sessions_def Let_def split: option.splits sum.splits prod.splits)

lemma keys_track_new:
  assumes "key_law L" "keys_track L s ks" "''mk_'' @ token \<notin> set (map fst ks)"
  shows "keys_track L (snd (create_api_key L token salt now label sc s)) (ks @ [(''mk_'' @ token, Suc (last_key_id s), case sc of Some xs \<Rightarrow> xs | None \<Rightarrow> [])])"
proof -
  let ?k = "(''mk_'' @ token, Suc (last_key_id s), case sc of Some xs \<Rightarrow> xs | None \<Rightarrow> [])"
  let ?r = "last (key_rows (snd (create_api_key L token salt now label sc s)))"
  have rows: "live_rows (snd (create_api_key L token salt now label sc s)) = live_rows s @ [?r]"
    by (simp add: create_api_key_def live_rows_def Let_def)
  have "granted_scopes L ?r = (case sc of Some xs \<Rightarrow> xs | None \<Rightarrow> [])"
    using assms(1) by (auto simp: create_api_key_def granted_scopes_def key_law_def Let_def split: option.splits list.splits)
  then have "row_for L ?r ?k" by (simp add: row_for_def create_api_key_def Let_def)
  then show ?thesis using assms(2,3) by (auto simp: keys_track_def rows intro: list_all2_appendI)
qed

lemma keys_track_step:
  assumes "key_law L" "keys_track L s ks" "key_ok (s, ks) e"
  shows "keys_track L (cred_step C L s e) (issued_keys s ks e)"
proof (cases e)
  case (NewKey token salt now label sc)
  then show ?thesis using assms keys_track_new by (simp add: issued_keys_def)
next
  case (RevokeKey now n)
  have "list_all2 (row_for L) (filter (\<lambda>r. ak_id r \<noteq> n) (live_rows s)) (filter (\<lambda>k. fst (snd k) \<noteq> n) ks)"
    using assms(2) by (intro list_all2_filter) (auto simp: keys_track_def row_for_def)
  then show ?thesis using assms(2) RevokeKey by (auto simp: issued_keys_def keys_track_def live_revoked distinct_map_filter)
next
  case ResetAll
  then show ?thesis by (simp add: issued_keys_def keys_track_def live_rows_def other_keys)
qed (use assms(2) in \<open>simp_all add: issued_keys_def keys_track_def live_rows_def other_keys prepare_keys rotation_keys init_keys\<close>)

interpretation key_watch: event_machine "key_step C L" key_ok "\<lambda>(s, ks). key_law L \<longrightarrow> keys_track L s ks" for C L
proof
  fix t and e
  assume "case t of (s, ks) \<Rightarrow> key_law L \<longrightarrow> keys_track L s ks" "key_ok t e"
  then show "case key_step C L t e of (s, ks) \<Rightarrow> key_law L \<longrightarrow> keys_track L s ks" using keys_track_step by (cases t) simp
qed

text \<open>C36: keys in force. After any operations on a new store, a text is accepted as an API key, with a number and a list of scopes, exactly when it was
  given out as a key with that number and those scopes, and was not revoked since, nor was everything reset.\<close>

theorem api_key_accepted_iff:
  assumes "key_law L" "guarded_run key_ok (key_step C L) (fresh_store disabled enabled v, []) es"
    and "foldl (key_step C L) (fresh_store disabled enabled v, []) es = (s, ks)"
  shows "verify_api_key L raw s = Some (n, sc) \<longleftrightarrow> (raw, n, sc) \<in> set ks"
proof -
  have "keys_track L (fresh_store disabled enabled v) []"
    by (simp add: keys_track_def live_rows_def fresh_store_def with_vault_def Let_def)
  then have tr: "keys_track L s ks"
    using key_watch.inv_run [of L "(fresh_store disabled enabled v, [])", OF _ assms(2)] assms(1,3) by simp
  then have "verify_api_key L raw s = map_of ks raw"
    using keys_track_verify [OF assms(1), of "live_rows s" ks raw] by (simp add: verify_api_key_def live_rows_def [symmetric] keys_track_def)
  then show ?thesis using tr by (simp add: keys_track_def)
qed

fun write_scopes :: "string list \<Rightarrow> string" where
  "write_scopes [] = []"
| "write_scopes (s # ss) = concat (map (\<lambda>c. [CHR ''c'', c]) s) @ ''.'' @ write_scopes ss"

fun read_scopes :: "string \<Rightarrow> string \<Rightarrow> string list" where
  "read_scopes acc (x # c # r) =
     (if x = CHR ''c'' then read_scopes (acc @ [c]) r else if x = CHR ''.'' then acc # read_scopes [] (c # r) else [])"
| "read_scopes acc [x] = (if x = CHR ''.'' then [acc] else [])"
| "read_scopes acc [] = []"

lemma read_scopes_chars: "read_scopes acc (concat (map (\<lambda>c. [CHR ''c'', c]) s) @ r) = read_scopes (acc @ s) r"
  by (induction s arbitrary: acc) auto

lemma read_scopes_dot: "read_scopes acc (CHR ''.'' # r) = acc # read_scopes [] r"
  by (cases r) auto

lemma read_write_scopes: "read_scopes [] (write_scopes ss) = ss"
  by (induction ss) (simp_all add: read_scopes_chars read_scopes_dot)

definition scope_lib :: cred_lib where
  "scope_lib = plain_lib\<lparr>scopes_text := write_scopes, scopes_of_text := \<lambda>t. Some (read_scopes [] t)\<rparr>"

theorem api_key_accepted_iff_witness:
  "let s = foldl (cred_step clear_crypto scope_lib) (fresh_store False False None)
     [NewKey ''a'' [] 0 ''cli'' (Some [''operator.read'']), NewKey ''b'' [] 0 ''old'' None, RevokeKey 5 2] in
   verify_api_key scope_lib ''mk_a'' s = Some (1, [''operator.read'']) \<and> verify_api_key scope_lib ''mk_b'' s \<noteq> Some (2, [])"
proof -
  let ?start = "fresh_store False False None"
    and ?es = "[NewKey ''a'' [] 0 ''cli'' (Some [''operator.read'']), NewKey ''b'' [] 0 ''old'' None, RevokeKey 5 2]"
  let ?t = "foldl (cred_step clear_crypto scope_lib) ?start ?es"
  have law: "key_law scope_lib" by (simp add: key_law_def scope_lib_def plain_lib_def read_write_scopes)
  have ids: "last_key_id ?start = 0" "last_key_id (snd (create_api_key L tok salt now label sc s)) = Suc (last_key_id s)" for L tok salt now label sc s
    by (simp_all add: fresh_store_def with_vault_def create_api_key_def Let_def)
  have ok: "guarded_run key_ok (key_step clear_crypto scope_lib) (?start, []) ?es" by (simp add: issued_keys_def)
  have fin: "foldl (key_step clear_crypto scope_lib) (?start, []) ?es = (?t, [(''mk_a'', 1, [''operator.read''])])"
    by (simp add: issued_keys_def ids)
  show ?thesis
    using api_key_accepted_iff [OF law ok fin, of "''mk_a''" 1 "[''operator.read'']"] api_key_accepted_iff [OF law ok fin, of "''mk_b''" 2 "[]"]
    by (simp add: Let_def)
qed

end
