(* ===== verification/Credential_Vault.thy ===== *)
theory Credential_Vault
  imports Credentials
begin

text \<open>
  The password and the vault kept together (\<open>auth/src/credential_store/sessions.rs\<close> on \<open>vault/src/vault.rs\<close>): the operations
  that set or change a password write the hash of the password and the wrapped key of the vault in one transaction. And what
  follows for the environment variables, which are encrypted under the key of the vault.
\<close>

section \<open>What is relied on\<close>

text \<open>The documented behaviour of Argon2's hash: it verifies the password it was made of, and no other.\<close>

definition password_law :: "cred_lib \<Rightarrow> bool" where
  "password_law L \<longleftrightarrow> (\<forall>salt p h q. argon_hash L salt p = Some h \<longrightarrow> (argon_verify L q h \<longleftrightarrow> q = p))"

text \<open>What is drawn at random has the lengths of the cipher.\<close>

definition draw_ok :: "password_draw \<Rightarrow> bool" where
  "draw_ok d \<longleftrightarrow> length (pd_vault_nonce d) = NONCE_LEN \<and> random_ok (pd_init d)"

text \<open>The methods that know nothing of the vault are for a store without one.\<close>

fun paired_ok :: "credentials \<Rightarrow> cred_event \<Rightarrow> bool" where
  "paired_ok s (SetInitial salt p) = (cred_vault s = None)"
| "paired_ok s (AddPassword salt p) = (cred_vault s = None)"
| "paired_ok s (Credentials.ChangePassword salt old new) = (cred_vault s = None)"
| "paired_ok s (PrepareVault d p) = draw_ok d"
| "paired_ok s (RotateVault d old new) = draw_ok d"
| "paired_ok s (InitVault rnd p) = random_ok rnd"
| "paired_ok s (SetEnv nonce now conn_rowid key v) = (length nonce = NONCE_LEN)"
| "paired_ok s (MigrateEnv rnd now) = (\<forall>n. length (rnd n) = NONCE_LEN)"
| "paired_ok s _ = True"

section \<open>The invariant\<close>

text \<open>The row wraps one key for the password and for a recovery phrase, and the key in memory is that key.\<close>

definition vault_holds :: "crypto \<Rightarrow> bytes \<Rightarrow> string \<Rightarrow> vault \<Rightarrow> bool" where
  "vault_holds C d pw v \<longleftrightarrow> length d = 32 \<and> (dek v = None \<or> dek v = Some d) \<and>
     (\<exists>r phrase. row v = Some r \<and> password_row C d pw r \<and> recovery_row C d phrase r)"

definition hash_of :: "cred_lib \<Rightarrow> string \<Rightarrow> string option \<Rightarrow> bool" where
  "hash_of L pw h \<longleftrightarrow> (case h of None \<Rightarrow> True | Some h \<Rightarrow> \<forall>q. argon_verify L q h \<longleftrightarrow> q = pw)"

text \<open>The rows hold the values of a list of variables (number, name, value), plain or encrypted under the key.\<close>

definition row_reads :: "crypto \<Rightarrow> bytes option \<Rightarrow> env_row \<Rightarrow> nat \<times> string \<times> string \<Rightarrow> bool" where
  "row_reads C d r x \<longleftrightarrow> ev_id r = fst x \<and> ev_key r = fst (snd x) \<and>
     (if ev_encrypted r
      then \<exists>k. d = Some k \<and> (\<forall>v. dek v = Some k \<longrightarrow> decrypt_string C (ev_value r) (env_aad (ev_key r)) v = Inr (snd (snd x)))
      else ev_value r = snd (snd x))"

definition rows_read :: "crypto \<Rightarrow> credentials \<Rightarrow> (nat \<times> string \<times> string) list \<Rightarrow> bytes option \<Rightarrow> bool" where
  "rows_read C s xs d \<longleftrightarrow> list_all2 (row_reads C d) (env_rows s) xs"

definition vault_agrees :: "crypto \<Rightarrow> cred_lib \<Rightarrow> (bytes option \<Rightarrow> bool) \<Rightarrow> string option \<Rightarrow> vault \<Rightarrow> bool" where
  "vault_agrees C L Q h v \<longleftrightarrow>
     (if row v = None then dek v = None \<and> (\<forall>hash. h = Some hash \<longrightarrow> (\<exists>pw. hash_of L pw h)) \<and> Q None
      else (\<exists>d pw. vault_holds C d pw v \<and> hash_of L pw h \<and> Q (Some d)))"

definition store_agrees :: "crypto \<Rightarrow> cred_lib \<Rightarrow> (nat \<times> string \<times> string) list \<Rightarrow> credentials \<Rightarrow> bool" where
  "store_agrees C L xs s \<longleftrightarrow>
     (case cred_vault s of
        None \<Rightarrow> rows_read C s xs None
      | Some v \<Rightarrow> vault_agrees C L (rows_read C s xs) (password_hash s) v)"

lemma row_reads_later: "row_reads C None r x \<Longrightarrow> row_reads C d r x"
  by (auto simp: row_reads_def split: if_splits)

lemma rows_read_later: "rows_read C s xs None \<Longrightarrow> rows_read C s xs d"
  unfolding rows_read_def by (erule list_all2_mono) (rule row_reads_later)

lemma rows_read_fun: "rows_read C s xs = (\<lambda>d. list_all2 (row_reads C d) (env_rows s) xs)"
  by (simp add: rows_read_def fun_eq_iff)

lemma rows_read_cong: "env_rows t = env_rows s \<Longrightarrow> rows_read C t = rows_read C s"
  by (simp add: rows_read_def fun_eq_iff)

lemma unseal_holds:
  assumes "kdf_law C" "vault_holds C d pw v"
  shows "fst (unseal C p v) = Inr () \<longleftrightarrow> p = pw" "vault_holds C d pw (snd (unseal C p v))"
    "p = pw \<Longrightarrow> dek (snd (unseal C p v)) = Some d"
proof -
  obtain r phrase salt kek where r: "row v = Some r" "recovery_row C d phrase r" "password_row C d pw r" "length d = 32"
      "decode_salt C (kdf_salt r) = Inr salt" "derive_key C (as_bytes pw) salt (row_params r) = Inr kek" "wraps C kek d (wrapped_dek r)"
      "dek v = None \<or> dek v = Some d"
    using assms(2) by (auto simp: vault_holds_def password_row_def)
  have same: "derive_key C (as_bytes p) salt (row_params r) = Inr kek \<longleftrightarrow> p = pw"
    using assms(1) r(6) by (auto simp: kdf_law_def derive_key_def split: option.splits) (metis as_bytes_inject)
  show "fst (unseal C p v) = Inr () \<longleftrightarrow> p = pw"
    using r(1,5-7) same by (auto simp: unseal_def wraps_def split: sum.splits)
  show "p = pw \<Longrightarrow> dek (snd (unseal C p v)) = Some d"
    using r(1,5-7) by (simp add: unseal_def wraps_def)
  show "vault_holds C d pw (snd (unseal C p v))"
    using unseal_dek [OF r(1,3), of p] r(1-4,8) by (auto simp: vault_holds_def)
qed

lemma new_row_holds:
  assumes "base64_law C" "aead_law C" "random_ok rnd" "initialize_in_transaction C rnd p None = Inr (phrase, r)" "row v = Some r" "dek v = None"
  shows "vault_holds C (rnd_dek rnd) p v"
proof -
  have "\<exists>salt kek. decode_salt C (kdf_salt r) = Inr salt \<and> derive_key C (as_bytes p) salt (row_params r) = Inr kek \<and>
      wrap_dek C (rnd_nonce rnd) kek (rnd_dek rnd) = Inr (wrapped_dek r)"
    and "\<exists>kek w. derive_recovery_kek C phrase = Inr kek \<and> wrap_dek C (rnd_recovery_nonce rnd) kek (rnd_dek rnd) = Inr w \<and> recovery_wrapped_dek r = Some w"
    using assms(4) by (auto simp: initialize_in_transaction_def wrap_with_recovery_def Let_def split: sum.splits prod.splits)
  then show ?thesis
    using wrap_dek_wraps [OF assms(1,2)] assms(3,5,6) unfolding vault_holds_def password_row_def recovery_row_def random_ok_def by metis
qed


lemma rewrapped_holds:
  assumes "base64_law C" "aead_law C" "length nonce = NONCE_LEN" "vault_holds C d pw v" "row v = Some r"
    and "dek v = Some k" "rewrapped_row C salt nonce new k r = Inr r'"
  shows "vault_holds C d new (v\<lparr>row := Some r'\<rparr>)"
proof -
  have "k = d" "length d = 32" using assms(4,6) by (auto simp: vault_holds_def)
  then have "password_row C d new r'" "recovery_wrapped_dek r' = recovery_wrapped_dek r"
    using rewrapped_row_password [OF assms(1-3), of d salt new r r'] assms(7) by simp_all
  then show ?thesis using assms(4,5) by (auto simp: vault_holds_def recovery_row_def)
qed

lemma recover_holds:
  assumes "vault_holds C d pw v"
  shows "vault_holds C d pw (snd (unseal_with_recovery C phrase v))"
proof -
  obtain r ph where r: "row v = Some r" "recovery_row C d ph r" using assms by (auto simp: vault_holds_def)
  then show ?thesis using assms unseal_with_recovery_dek [OF r, of phrase] by (auto simp: vault_holds_def)
qed

lemma hash_of_new: "password_law L \<Longrightarrow> argon_hash L salt p = Some h \<Longrightarrow> hash_of L p (Some h)"
  by (simp add: hash_of_def password_law_def)

lemma agrees_unseal:
  assumes "kdf_law C" "vault_agrees C L Q h v"
  shows "vault_agrees C L Q h (snd (unseal C p v))"
proof (cases "row v")
  case None
  then show ?thesis using assms(2) by (simp add: vault_agrees_def unseal_def)
next
  case (Some r)
  then show ?thesis using assms unseal_holds(2) [OF assms(1)] by (simp add: vault_agrees_def) blast
qed

lemma agrees_recover:
  assumes "vault_agrees C L Q h v"
  shows "vault_agrees C L Q h (snd (unseal_with_recovery C p v))"
proof (cases "row v")
  case None
  then show ?thesis using assms by (simp add: vault_agrees_def unseal_with_recovery_def)
next
  case (Some r)
  then show ?thesis using assms recover_holds by (simp add: vault_agrees_def) blast
qed

lemma agrees_forget:
  assumes "vault_agrees C L Q h v" "row v' = row v" "dek v' = None"
  shows "vault_agrees C L Q h v'"
proof -
  have "vault_holds C d pw v \<Longrightarrow> vault_holds C d pw v'" for d pw using assms(2,3) by (simp add: vault_holds_def)
  then show ?thesis using assms by (simp add: vault_agrees_def split: if_splits) blast
qed

lemma agrees_sealed: "vault_agrees C L Q h v \<Longrightarrow> vault_agrees C L Q h (seal v)"
  by (erule agrees_forget) (simp_all add: seal_def)

lemma agrees_restart: "vault_agrees C L Q h v \<Longrightarrow> vault_agrees C L Q h (new_vault (row v))"
  by (erule agrees_forget) (simp_all add: new_vault_def)

lemma hash_of_none [simp]: "hash_of L pw None"
  by (simp add: hash_of_def)

lemma agrees_reset: "vault_agrees C L Q h v \<Longrightarrow> vault_agrees C L Q None v"
  by (auto simp: vault_agrees_def split: if_splits)

lemma agrees_if_sealed:
  assumes "kdf_law C" "vault_agrees C L Q h v" "unseal_if_sealed C p v = (res, v')"
  shows "vault_agrees C L Q h v'"
  using assms(2,3) agrees_unseal [OF assms(1,2), of p] by (auto simp: unseal_if_sealed_def split: if_splits)

lemma prepared_agrees:
  assumes laws: "base64_law C" "aead_law C" "kdf_law C" "password_law L" and d: "draw_ok d"
    and later: "\<And>k. Q None \<Longrightarrow> Q (Some k)" and v: "vault_agrees C L Q h v" and prep: "prepare_vault C d p v = Inr (r, phrase)" and hash: "argon_hash L salt p = Some new"
  shows "vault_agrees C L Q (Some new) (v\<lparr>row := Some r\<rparr>)"
proof (cases "row v")
  case None
  then have "initialize_in_transaction C (pd_init d) p None = Inr (the phrase, r)" "dek v = None"
    using prep v by (auto simp: prepare_vault_def vault_status_of_def vault_agrees_def split: sum.splits prod.splits)
  then have "vault_holds C (rnd_dek (pd_init d)) p (v\<lparr>row := Some r\<rparr>)"
    using new_row_holds [OF laws(1,2), of "pd_init d" p] d by (simp add: draw_ok_def)
  moreover have "Q (Some k)" for k using v None later by (simp add: vault_agrees_def)
  ultimately show ?thesis using hash_of_new [OF laws(4) hash] by (auto simp: vault_agrees_def)
next
  case (Some old)
  then obtain k pw where k: "vault_holds C k pw v" and q: "Q (Some k)" using v by (auto simp: vault_agrees_def)
  obtain x where x: "dek v = Some x" "rewrapped_row C (pd_vault_salt d) (pd_vault_nonce d) p x old = Inr r"
    using prep Some
    by (auto simp: prepare_vault_def vault_status_of_def rewrap_unsealed_in_transaction_def split: sum.splits prod.splits option.splits if_splits)
  have "length (pd_vault_nonce d) = NONCE_LEN" using d by (simp add: draw_ok_def)
  from rewrapped_holds [OF laws(1,2) this k Some x] show ?thesis
    using hash_of_new [OF laws(4) hash] q by (auto simp: vault_agrees_def)
qed

lemma change_in_transaction_rewraps:
  assumes "change_password_in_transaction C salt nonce current p v = Inr r" "row v = Some old" "dek v = Some x"
  shows "rewrapped_row C salt nonce p x old = Inr r"
  using assms by (simp add: change_password_in_transaction_def split: sum.splits)

lemma rotate_row_rewraps:
  assumes rot: "rotate_row C d current p v = Inr r" and row: "row v = Some old"
  obtains x r' where "dek v = Some x" "rewrapped_row C (pd_vault_salt d) (pd_vault_nonce d) p x old = Inr r'" "r = Some r'"
proof -
  have status: "vault_status_of v = Unsealed" using rot row by (auto simp: rotate_row_def vault_status_of_def split: if_splits)
  then obtain x where x: "dek v = Some x" using row by (auto simp: vault_status_of_def split: if_splits)
  let ?change = "change_password_in_transaction C (pd_vault_salt d) (pd_vault_nonce d) current p v"
  let ?rewrap = "rewrap_unsealed_in_transaction C (pd_vault_salt d) (pd_vault_nonce d) p v"
  have "\<exists>r'. r = Some r' \<and> (?change = Inr r' \<or> ?rewrap = Inr r')"
    using rot by (auto simp: rotate_row_def status split: sum.splits if_splits)
  then obtain r' where r': "r = Some r'" "?change = Inr r' \<or> ?rewrap = Inr r'" by blast
  have "?rewrap = rewrapped_row C (pd_vault_salt d) (pd_vault_nonce d) p x old"
    using row x by (simp add: rewrap_unsealed_in_transaction_def)
  then have "rewrapped_row C (pd_vault_salt d) (pd_vault_nonce d) p x old = Inr r'"
    using r'(2) change_in_transaction_rewraps [OF _ row x] by metis
  then show ?thesis using x r'(1) that by blast
qed

lemma rotated_agrees:
  assumes laws: "base64_law C" "aead_law C" "kdf_law C" "password_law L" and d: "draw_ok d"
    and v: "vault_agrees C L Q h v" and rot: "rotate_row C d current p v = Inr r" and hash: "argon_hash L salt p = Some new"
  shows "vault_agrees C L Q (Some new) (v\<lparr>row := r\<rparr>)"
proof (cases "row v")
  case None
  then have "r = None" using rot by (simp add: rotate_row_def vault_status_of_def)
  then show ?thesis using v None hash_of_new [OF laws(4) hash] by (auto simp: vault_agrees_def)
next
  case (Some old)
  then obtain k pw where k: "vault_holds C k pw v" and q: "Q (Some k)" using v by (auto simp: vault_agrees_def)
  obtain x r' where x: "dek v = Some x" "rewrapped_row C (pd_vault_salt d) (pd_vault_nonce d) p x old = Inr r'" "r = Some r'"
    by (rule rotate_row_rewraps [OF rot Some])
  have "length (pd_vault_nonce d) = NONCE_LEN" using d by (simp add: draw_ok_def)
  from rewrapped_holds [OF laws(1,2) this k Some x(1,2)] show ?thesis
    using hash_of_new [OF laws(4) hash] x(3) q by (auto simp: vault_agrees_def)
qed

lemma initialized_agrees:
  assumes laws: "base64_law C" "aead_law C" and rnd: "random_ok rnd"
    and later: "\<And>k. Q None \<Longrightarrow> Q (Some k)" and v: "vault_agrees C L Q h v" and init: "initialize_in_transaction C rnd p (row v) = Inr (phrase, r)"
    and known: "h = Some hash" "argon_verify L p hash"
  shows "vault_agrees C L Q h (v\<lparr>row := Some r\<rparr>)"
proof -
  have row: "row v = None" using init by (simp add: initialize_in_transaction_def split: if_splits)
  then have "vault_holds C (rnd_dek rnd) p (v\<lparr>row := Some r\<rparr>)"
    using new_row_holds [OF laws rnd, of p phrase r] init v by (simp add: vault_agrees_def)
  moreover obtain pw where "hash_of L pw h" using v row known(1) by (auto simp: vault_agrees_def)
  then have "hash_of L p h" using known by (simp add: hash_of_def)
  moreover have "Q (Some k)" for k using v row later by (simp add: vault_agrees_def)
  ultimately show ?thesis by (auto simp: vault_agrees_def)
qed

section \<open>Every step keeps it\<close>

lemma store_agrees_vault: "store_agrees C L xs s \<Longrightarrow> cred_vault s = Some v \<Longrightarrow> vault_agrees C L (rows_read C s xs) (password_hash s) v"
  by (simp add: store_agrees_def)

lemma store_agreesI:
  assumes "cred_vault t = Some v" "env_rows t = env_rows s" "vault_agrees C L (rows_read C s xs) (password_hash t) v"
  shows "store_agrees C L xs t"
  using assms rows_read_cong [OF assms(2), of C] by (simp add: store_agrees_def)

lemma store_agrees_same:
  assumes "cred_vault t = cred_vault s" "env_rows t = env_rows s" "password_hash t = password_hash s \<or> cred_vault s = None"
  shows "store_agrees C L xs t = store_agrees C L xs s"
  using assms rows_read_cong [OF assms(2), of C] by (auto simp: store_agrees_def split: option.splits)

lemma no_vault_agrees: "store_agrees C L xs s \<Longrightarrow> cred_vault s = None \<Longrightarrow> cred_vault t = None \<Longrightarrow> env_rows t = env_rows s \<Longrightarrow> store_agrees C L xs t"
  using store_agrees_same [of t s] by simp

lemma prepare_agrees:
  assumes laws: "base64_law C" "aead_law C" "kdf_law C" "password_law L" and d: "draw_ok d" and s: "store_agrees C L xs s"
  shows "store_agrees C L xs (snd (insert_password_and_prepare_vault C L d p s))"
proof (cases "cred_vault s")
  case None
  show ?thesis
    by (rule no_vault_agrees [OF s None])
      (use None in \<open>simp_all add: insert_password_and_prepare_vault_def password_ops Let_def split: option.splits sum.splits prod.splits\<close>)
next
  case (Some v)
  obtain res v1 where v1: "unseal_if_sealed C p v = (res, v1)" by fastforce
  note a1 = agrees_if_sealed [OF laws(3) store_agrees_vault [OF s Some] v1]
  have keep: "store_agrees C L xs (s\<lparr>cred_vault := Some v1\<rparr>)" by (rule store_agreesI [where v = v1 and s = s]) (use a1 in simp_all)
  consider e where "res = Inl e" | "res = Inr ()" "has_password s" | e where "res = Inr ()" "\<not> has_password s" "prepare_vault C d p v1 = Inl e"
    | r phrase where "res = Inr ()" "\<not> has_password s" "prepare_vault C d p v1 = Inr (r, phrase)" "argon_hash L (pd_salt d) p = None"
    | r phrase h where "res = Inr ()" "\<not> has_password s" "prepare_vault C d p v1 = Inr (r, phrase)" "argon_hash L (pd_salt d) p = Some h"
    by (cases res; cases "prepare_vault C d p v1"; cases "argon_hash L (pd_salt d) p") auto
  then show ?thesis
  proof cases
    case 5
    let ?v = "v1\<lparr>row := Some r\<rparr>" and ?t = "snd (insert_password_and_prepare_vault C L d p s)"
    have a: "vault_agrees C L (rows_read C s xs) (Some h) ?v" by (rule prepared_agrees [OF laws d rows_read_later a1 5(3,4)])
    obtain res2 v2 where v2: "(if phrase = None then (Inr (), ?v) else unseal C p ?v) = (res2, v2)" by fastforce
    then have "vault_agrees C L (rows_read C s xs) (Some h) v2" using a agrees_unseal [OF laws(3) a, of p] by (auto split: if_splits)
    moreover have "cred_vault ?t = Some v2" "password_hash ?t = Some h" "env_rows ?t = env_rows s"
      using 5 Some v1 v2 by (cases res2; simp add: insert_password_and_prepare_vault_def has_password_def Let_def)+
    ultimately show ?thesis using store_agreesI [where t = ?t and v = v2 and s = s] by simp
  qed (use Some v1 keep in \<open>simp_all add: insert_password_and_prepare_vault_def has_password_def Let_def\<close>)
qed

lemma rotation_agrees:
  assumes laws: "base64_law C" "aead_law C" "kdf_law C" "password_law L" and d: "draw_ok d" and s: "store_agrees C L xs s"
  shows "store_agrees C L xs (snd (change_password_and_rotate_vault C L d old new s))"
proof (cases "cred_vault s")
  case None
  show ?thesis
    by (rule no_vault_agrees [OF s None])
      (use None in \<open>simp_all add: change_password_and_rotate_vault_def password_ops Let_def split: option.splits sum.splits prod.splits\<close>)
next
  case (Some v)
  obtain res v1 where v1: "unseal_if_sealed C old v = (res, v1)" by fastforce
  note a1 = agrees_if_sealed [OF laws(3) store_agrees_vault [OF s Some] v1]
  have keep: "store_agrees C L xs (s\<lparr>cred_vault := Some v1\<rparr>)" by (rule store_agreesI [where v = v1 and s = s]) (use a1 in simp_all)
  consider "\<not> verify_password L old s" | e where "verify_password L old s" "res = Inl e"
    | e where "verify_password L old s" "res = Inr ()" "rotate_row C d old new v1 = Inl e"
    | r where "verify_password L old s" "res = Inr ()" "rotate_row C d old new v1 = Inr r" "argon_hash L (pd_salt d) new = None"
    | r h where "verify_password L old s" "res = Inr ()" "rotate_row C d old new v1 = Inr r" "argon_hash L (pd_salt d) new = Some h"
    by (cases res; cases "rotate_row C d old new v1"; cases "argon_hash L (pd_salt d) new") auto
  then show ?thesis
  proof cases
    case 5
    have a: "vault_agrees C L (rows_read C s xs) (Some h) (v1\<lparr>row := r\<rparr>)" by (rule rotated_agrees [OF laws d a1 5(3,4)])
    show ?thesis
      by (rule store_agreesI [where v = "v1\<lparr>row := r\<rparr>" and s = s])
        (use 5 Some v1 a in \<open>simp_all add: change_password_and_rotate_vault_def Let_def\<close>)
  qed (use Some s v1 keep in \<open>simp_all add: change_password_and_rotate_vault_def Let_def\<close>)
qed

lemma initialization_agrees:
  assumes laws: "base64_law C" "aead_law C" "kdf_law C" and rnd: "random_ok rnd" and s: "store_agrees C L xs s"
  shows "store_agrees C L xs (snd (initialize_vault_for_current_password C L rnd p s))"
proof (cases "cred_vault s")
  case None
  then show ?thesis using s by (simp add: initialize_vault_for_current_password_def)
next
  case (Some v)
  show ?thesis
  proof (cases "verify_password L p s \<and> vault_status_of v = Uninitialized \<and> (\<exists>x. initialize_in_transaction C rnd p (row v) = Inr x)")
    case True
    then obtain phrase r h where x: "initialize_in_transaction C rnd p (row v) = Inr (phrase, r)" "password_hash s = Some h" "argon_verify L p h"
      by (auto simp: verify_password_def split: option.splits)
    obtain res v2 where v2: "unseal C p (v\<lparr>row := Some r\<rparr>) = (res, v2)" by fastforce
    have "vault_agrees C L (rows_read C s xs) (password_hash s) (v\<lparr>row := Some r\<rparr>)"
      by (rule initialized_agrees [OF laws(1,2) rnd rows_read_later store_agrees_vault [OF s Some] x])
    from agrees_unseal [OF laws(3) this, of p] have a: "vault_agrees C L (rows_read C s xs) (password_hash s) v2" by (simp add: v2)
    show ?thesis
      by (rule store_agreesI [where v = v2 and s = s]) (use True x v2 Some a in \<open>simp_all add: initialize_vault_for_current_password_def\<close>)
  next
    case False
    then have "snd (initialize_vault_for_current_password C L rnd p s) = s"
      using Some by (auto simp: initialize_vault_for_current_password_def split: sum.splits)
    then show ?thesis using s by simp
  qed
qed

text \<open>The operations that touch neither the password, the vault nor the variables.\<close>

lemma elsewhere_keeps:
  "store_agrees C L xs (snd (create_session token now s)) = store_agrees C L xs s"
  "store_agrees C L xs (delete_session token s) = store_agrees C L xs s"
  "store_agrees C L xs (snd (cleanup_expired_sessions now s)) = store_agrees C L xs s"
  "store_agrees C L xs (snd (create_api_key L token salt now label sc s)) = store_agrees C L xs s"
  "store_agrees C L xs (revoke_api_key now n s) = store_agrees C L xs s"
  "store_agrees C L xs (remove_passkey n s) = store_agrees C L xs s"
  "store_agrees C L xs (rename_passkey n name s) = store_agrees C L xs s"
  "store_agrees C L xs (audit_log event ip detail now s) = store_agrees C L xs s"
  "store_agrees C L xs (clear_auth_disabled s) = store_agrees C L xs s"
  "store_agrees C L xs (snd (mark_setup_complete s)) = store_agrees C L xs s"
  "store_agrees C L xs (snd (store_passkey now cred name data s)) = store_agrees C L xs s"
  by (rule store_agrees_same; simp add: create_session_def delete_session_def cleanup_expired_sessions_def create_api_key_def revoke_api_key_def
    remove_passkey_def rename_passkey_def audit_log_def password_ops store_passkey_def Let_def split: sum.splits prod.splits)+

section \<open>Environment variables\<close>

text \<open>What the variables should be: number, name and value, in the order of the rows.\<close>

definition variables_after :: "crypto \<Rightarrow> credentials \<Rightarrow> (nat \<times> string \<times> string) list \<Rightarrow> cred_event \<Rightarrow> (nat \<times> string \<times> string) list" where
  "variables_after C s xs e =
     (case e of
        SetEnv nonce now conn_rowid key value \<Rightarrow>
          (if isl (fst (set_env_var C nonce now conn_rowid key value s)) then xs
           else if key \<in> set (map (fst \<circ> snd) xs) then map (\<lambda>(n, k, x). (n, k, if k = key then value else x)) xs
           else xs @ [(Suc (last_env_id s), key, value)])
      | DeleteEnv n \<Rightarrow> filter (\<lambda>x. fst x \<noteq> n) xs
      | _ \<Rightarrow> xs)"

lemma rows_read_keys: "list_all2 (row_reads C d) rows xs \<Longrightarrow> map ev_key rows = map (fst \<circ> snd) xs"
  by (induction rule: list_all2_induct) (simp_all add: row_reads_def)

lemma rows_read_delete:
  assumes "list_all2 (row_reads C d) rows xs"
  shows "list_all2 (row_reads C d) (filter (\<lambda>r. ev_id r \<noteq> n) rows) (filter (\<lambda>x. fst x \<noteq> n) xs)"
  using assms by (rule list_all2_filter) (simp add: row_reads_def)

text \<open>A value as it is stored by \<open>set_env_var\<close> reads back.\<close>

definition stored_reads :: "crypto \<Rightarrow> bytes option \<Rightarrow> string \<Rightarrow> string \<times> bool \<Rightarrow> string \<Rightarrow> bool" where
  "stored_reads C d key st value \<longleftrightarrow>
     (if snd st then \<exists>k. d = Some k \<and> (\<forall>v. dek v = Some k \<longrightarrow> decrypt_string C (fst st) (env_aad key) v = Inr value) else fst st = value)"

lemma encrypted_reads:
  assumes "base64_law C" "aead_law C" "length nonce = NONCE_LEN" "dek v = Some k" "encrypt_string C nonce value (env_aad key) v = Inr enc"
  shows "stored_reads C (Some k) key (enc, True) value"
  using decrypt_encrypt [OF assms(1-3,5,4)] by (simp add: stored_reads_def)

lemma env_stored_reads:
  assumes laws: "base64_law C" "aead_law C" and len: "length nonce = NONCE_LEN" and st: "env_stored C nonce key value s = Inr st"
    and d: "\<And>v k. cred_vault s = Some v \<Longrightarrow> dek v = Some k \<Longrightarrow> d = Some k"
  shows "stored_reads C d key st value"
proof (cases "snd st")
  case True
  then obtain v k where "cred_vault s = Some v" "dek v = Some k" "encrypt_string C nonce value (env_aad key) v = Inr (fst st)"
    using st by (auto simp: env_stored_def is_unsealed_def split: bool.splits option.splits if_splits sum.splits)
  then show ?thesis using encrypted_reads [OF laws len] d True by (metis prod.collapse)
next
  case False
  then show ?thesis using st by (auto simp: stored_reads_def env_stored_def split: bool.splits option.splits if_splits sum.splits)
qed

lemma rows_read_set:
  assumes "list_all2 (row_reads C d) rows xs" "stored_reads C d key (v, enc) value"
  shows "list_all2 (row_reads C d) (map (\<lambda>r. if ev_key r = key then r\<lparr>ev_value := v, ev_encrypted := enc, ev_updated := now\<rparr> else r) rows)
     (map (\<lambda>(n, k, x). (n, k, if k = key then value else x)) xs)"
  using assms by (induction rule: list_all2_induct) (auto simp: row_reads_def stored_reads_def split: if_splits)

lemma set_env_reads:
  assumes laws: "base64_law C" "aead_law C" and len: "length nonce = NONCE_LEN"
    and d: "\<And>v k. cred_vault s = Some v \<Longrightarrow> dek v = Some k \<Longrightarrow> d = Some k" and rows: "rows_read C s xs d"
  shows "rows_read C (snd (set_env_var C nonce now conn_rowid key value s)) (variables_after C s xs (SetEnv nonce now conn_rowid key value)) d"
proof (cases "env_stored C nonce key value s")
  case (Inl e)
  then show ?thesis using rows by (simp add: set_env_var_def variables_after_def)
next
  case (Inr st)
  obtain v enc where st: "st = (v, enc)" by fastforce
  have reads: "stored_reads C d key st value" by (rule env_stored_reads [OF laws len Inr]) (rule d)
  have keys: "map ev_key (env_rows s) = map (fst \<circ> snd) xs" using rows rows_read_keys by (simp add: rows_read_def)
  show ?thesis
  proof (cases "key \<in> set (map ev_key (env_rows s))")
    case True
    then have key: "key \<in> set (map (fst \<circ> snd) xs)" unfolding keys .
    show ?thesis
      using True key Inr st rows_read_set [OF rows [unfolded rows_read_def] reads [unfolded st]]
      by (simp only: set_env_var_def variables_after_def rows_read_def) (simp add: rows_read_def)
  next
    case False
    then have key: "key \<notin> set (map (fst \<circ> snd) xs)" unfolding keys .
    have "row_reads C d \<lparr>ev_id = Suc (last_env_id s), ev_key = key, ev_value = v, ev_encrypted = enc, ev_created = now, ev_updated = now\<rparr>
        (Suc (last_env_id s), key, value)"
      using reads by (auto simp: row_reads_def stored_reads_def st split: if_splits)
    then show ?thesis using False key Inr st rows
      by (simp only: set_env_var_def variables_after_def rows_read_def) (simp add: rows_read_def list_all2_appendI Let_def)
  qed
qed

lemma migrated_rows_read:
  assumes laws: "base64_law C" "aead_law C" and len: "\<forall>n. length (rnd n) = NONCE_LEN"
    and d: "\<And>k. dek v = Some k \<Longrightarrow> d = Some k" and rows: "list_all2 (row_reads C d) rows xs"
  shows "list_all2 (row_reads C d) (snd (migrate_env_rows C rnd now v rows)) xs"
  using rows
proof (induction rule: list_all2_induct)
  case (Cons r rows x xs)
  show ?case
  proof (cases "\<not> ev_encrypted r \<and> \<not> isl (encrypt_string C (rnd (ev_id r)) (ev_value r) (env_aad (ev_key r)) v)")
    case True
    then obtain enc where enc: "encrypt_string C (rnd (ev_id r)) (ev_value r) (env_aad (ev_key r)) v = Inr enc"
      by (cases "encrypt_string C (rnd (ev_id r)) (ev_value r) (env_aad (ev_key r)) v") auto
    then obtain k where k: "dek v = Some k" by (auto simp: encrypt_string_def split: option.splits)
    have "stored_reads C (Some k) (ev_key r) (enc, True) (ev_value r)"
      by (rule encrypted_reads [OF laws _ k enc]) (use len in simp)
    then have "row_reads C d (r\<lparr>ev_value := enc, ev_encrypted := True, ev_updated := now\<rparr>) x"
      using True d [OF k] Cons.hyps(1) by (simp add: row_reads_def stored_reads_def)
    then show ?thesis using True enc Cons by (cases "migrate_env_rows C rnd now v rows") simp
  next
    case False
    then show ?thesis using Cons by (auto split: prod.splits sum.splits)
  qed
qed simp

lemma decrypted_rows_read:
  assumes d: "\<And>k. dek v = Some k \<Longrightarrow> d = Some k" and rows: "list_all2 (row_reads C d) rows xs"
  shows "list_all2 (row_reads C d) (snd (decrypt_env_rows C now v rows)) xs"
  using rows
proof (induction rule: list_all2_induct)
  case (Cons r rows x xs)
  show ?case
  proof (cases "ev_encrypted r \<and> \<not> isl (decrypt_string C (ev_value r) (env_aad (ev_key r)) v)")
    case True
    then obtain pt where pt: "decrypt_string C (ev_value r) (env_aad (ev_key r)) v = Inr pt"
      by (cases "decrypt_string C (ev_value r) (env_aad (ev_key r)) v") auto
    then obtain k where k: "dek v = Some k" by (auto simp: decrypt_string_def split: option.splits)
    have "decrypt_string C (ev_value r) (env_aad (ev_key r)) v = Inr (snd (snd x))"
      using Cons.hyps(1) True d [OF k] k by (auto simp: row_reads_def)
    then have "pt = snd (snd x)" using pt by simp
    then have "row_reads C d (r\<lparr>ev_value := pt, ev_encrypted := False, ev_updated := now\<rparr>) x"
      using Cons.hyps(1) by (simp add: row_reads_def)
    then show ?thesis using True pt Cons by (cases "decrypt_env_rows C now v rows") simp
  next
    case False
    then show ?thesis using Cons by (auto split: prod.splits sum.splits)
  qed
qed simp

section \<open>Runs\<close>

lemma agrees_rows:
  assumes "store_agrees C L xs s"
    and "cred_vault t = cred_vault s" "password_hash t = password_hash s"
    and "\<And>d. (\<And>v k. cred_vault s = Some v \<Longrightarrow> dek v = Some k \<Longrightarrow> d = Some k) \<Longrightarrow> rows_read C s xs d \<Longrightarrow> rows_read C t ys d"
  shows "store_agrees C L ys t"
proof (cases "cred_vault s")
  case None
  then show ?thesis using assms(1-3) assms(4) [of None] by (simp add: store_agrees_def)
next
  case (Some v)
  show ?thesis
  proof (cases "row v")
    case None
    then have "dek v = None" "rows_read C s xs None" using assms(1) Some by (auto simp: store_agrees_def vault_agrees_def)
    moreover have "rows_read C t ys None" by (rule assms(4)) (use \<open>dek v = None\<close> \<open>rows_read C s xs None\<close> Some in auto)
    ultimately show ?thesis using None Some assms(1-3) by (simp add: store_agrees_def vault_agrees_def)
  next
    case row: (Some r)
    then obtain d pw where d: "vault_holds C d pw v" "hash_of L pw (password_hash s)" "rows_read C s xs (Some d)"
      using assms(1) Some by (auto simp: store_agrees_def vault_agrees_def)
    have "rows_read C t ys (Some d)" by (rule assms(4)) (use d(1,3) Some in \<open>auto simp: vault_holds_def\<close>)
    then show ?thesis using d row Some assms(2,3) by (auto simp: store_agrees_def vault_agrees_def)
  qed
qed

lemma disabled_agrees:
  assumes "store_agrees C L xs s"
  shows "store_agrees C L xs (snd (disable_vault C now others_ok s))"
proof (cases "cred_vault s")
  case None
  then show ?thesis using assms by (simp add: disable_vault_def disable_vault_and_decrypt_all_def)
next
  case (Some v)
  let ?t = "s\<lparr>env_rows := snd (decrypt_env_rows C now v (env_rows s))\<rparr>"
  have t: "store_agrees C L xs ?t"
  proof (rule agrees_rows [OF assms])
    fix d
    assume d: "\<And>v k. cred_vault s = Some v \<Longrightarrow> dek v = Some k \<Longrightarrow> d = Some k" and "rows_read C s xs d"
    then show "rows_read C ?t xs d"
      using decrypted_rows_read [of v d C "env_rows s" xs now] Some by (simp add: rows_read_def)
  qed simp_all
  then have "vault_agrees C L (rows_read C ?t xs) (password_hash s) (seal v)"
    using agrees_sealed store_agrees_vault [OF t, of v] Some by simp
  then have "store_agrees C L xs (?t\<lparr>cred_vault := Some (seal v), encryption_flag := False\<rparr>)"
    by (intro store_agreesI [where v = "seal v" and s = ?t]) simp_all
  then show ?thesis using assms t Some by (auto simp: disable_vault_def disable_vault_and_decrypt_all_def Let_def split: prod.splits)
qed

lemma paired_step:
  assumes laws: "base64_law C" "aead_law C" "kdf_law C" "password_law L" and s: "store_agrees C L xs s" and ok: "paired_ok s e"
  shows "store_agrees C L (variables_after C s xs e) (cred_step C L s e)"
proof (cases e)
  case (SetInitial salt p)
  then show ?thesis using ok
    by (auto intro: no_vault_agrees [OF s] simp: variables_after_def password_ops Let_def split: option.splits)
next
  case (AddPassword salt p)
  then show ?thesis using ok
    by (auto intro: no_vault_agrees [OF s] simp: variables_after_def password_ops Let_def split: option.splits)
next
  case (ChangePassword salt old new)
  then show ?thesis using ok
    by (auto intro: no_vault_agrees [OF s] simp: variables_after_def password_ops split: option.splits)
next
  case (PrepareVault d p)
  then show ?thesis using ok prepare_agrees [OF laws _ s] by (simp add: variables_after_def)
next
  case (RotateVault d old new)
  then show ?thesis using ok rotation_agrees [OF laws _ s] by (simp add: variables_after_def)
next
  case (InitVault rnd p)
  then show ?thesis using ok initialization_agrees [OF laws(1-3) _ s] by (simp add: variables_after_def)
next
  case (OpenVault p)
  then show ?thesis using s agrees_unseal [OF laws(3)]
    by (auto simp: rows_read_fun variables_after_def store_agrees_def on_vault_def split: option.splits)
next
  case (RecoverVault phrase)
  then show ?thesis using s agrees_recover
    by (auto simp: rows_read_fun variables_after_def store_agrees_def on_vault_def split: option.splits)
next
  case CloseVault
  then show ?thesis using s agrees_sealed
    by (auto simp: rows_read_fun variables_after_def store_agrees_def on_vault_def split: option.splits)
next
  case ResetAll
  then show ?thesis using s agrees_reset
    by (auto simp: rows_read_fun variables_after_def store_agrees_def reset_all_def persist_auth_disabled_def split: option.splits)
next
  case (Reopen disabled enabled)
  then show ?thesis using s agrees_restart
    by (auto simp: rows_read_fun variables_after_def store_agrees_def with_vault_def Let_def split: option.splits)
next
  case (SetEnv nonce now conn_rowid key x)
  let ?t = "snd (set_env_var C nonce now conn_rowid key x s)"
  have "cred_vault ?t = cred_vault s" "password_hash ?t = password_hash s"
    by (simp_all add: set_env_var_def Let_def split: sum.splits prod.splits)
  then show ?thesis using SetEnv ok set_env_reads [OF laws(1,2)] by (auto intro!: agrees_rows [OF s])
next
  case (DeleteEnv n)
  then show ?thesis using rows_read_delete by (auto intro!: agrees_rows [OF s] simp: delete_env_var_def variables_after_def rows_read_def)
next
  case (MigrateEnv rnd now)
  then show ?thesis using ok migrated_rows_read [OF laws(1,2)]
    by (auto intro!: agrees_rows [OF s] simp: run_vault_env_migration_def variables_after_def rows_read_def split: option.splits)
next
  case (DisableVault now others_ok)
  then show ?thesis using disabled_agrees [OF s] by (simp add: variables_after_def)
qed (use s in \<open>simp_all add: elsewhere_keeps variables_after_def\<close>)

fun variables_step :: "crypto \<Rightarrow> cred_lib \<Rightarrow> credentials \<times> (nat \<times> string \<times> string) list \<Rightarrow> cred_event \<Rightarrow> credentials \<times> (nat \<times> string \<times> string) list" where
  "variables_step C L (s, xs) e = (cred_step C L s e, variables_after C s xs e)"

fun variables_ok :: "credentials \<times> (nat \<times> string \<times> string) list \<Rightarrow> cred_event \<Rightarrow> bool" where
  "variables_ok (s, xs) e = paired_ok s e"

interpretation agreement: event_machine "variables_step C L" variables_ok
  "\<lambda>(s, xs). base64_law C \<and> aead_law C \<and> kdf_law C \<and> password_law L \<longrightarrow> store_agrees C L xs s" for C L
  by unfold_locales (auto simp: paired_step)

lemma fresh_agrees:
  assumes "v = None \<or> v = Some (new_vault None)"
  shows "store_agrees C L [] (fresh_store disabled enabled v)"
  using assms by (auto simp: store_agrees_def fresh_store_def with_vault_def vault_agrees_def new_vault_def rows_read_def Let_def)

lemma run_agrees:
  assumes "base64_law C" "aead_law C" "kdf_law C" "password_law L" "v = None \<or> v = Some (new_vault None)"
    and "guarded_run variables_ok (variables_step C L) (fresh_store disabled enabled v, []) es"
    and "foldl (variables_step C L) (fresh_store disabled enabled v, []) es = (s, xs)"
  shows "store_agrees C L xs s"
  using agreement.inv_run [of C L "(fresh_store disabled enabled v, [])", OF _ assms(6)] assms(1-4,7) fresh_agrees [OF assms(5)] by simp

lemma insort_related:
  "list_all2 R xs ys \<Longrightarrow> R x y \<Longrightarrow> (\<And>x y. R x y \<Longrightarrow> f x = g y) \<Longrightarrow> list_all2 R (insort_key f x xs) (insort_key g y ys)"
  by (induction rule: list_all2_induct) auto

lemma sort_related: "list_all2 R xs ys \<Longrightarrow> (\<And>x y. R x y \<Longrightarrow> f x = g y) \<Longrightarrow> list_all2 R (sort_key f xs) (sort_key g ys)"
  by (induction rule: list_all2_induct) (auto intro: insort_related)

lemma rows_listed:
  assumes "list_all2 (row_reads C d) rows xs" and "\<And>k. d = Some k \<Longrightarrow> \<exists>v. vlt = Some v \<and> dek v = Some k"
  shows "List.map_filter (\<lambda>r. map_option (Pair (ev_key r)) (env_plaintext C vlt r)) rows = map (\<lambda>(n, k, x). (k, x)) xs"
  using assms(1)
proof (induction rule: list_all2_induct)
  case (Cons r rows x xs)
  have "env_plaintext C vlt r = Some (snd (snd x))" using Cons.hyps(1) assms(2) by (auto simp: row_reads_def env_plaintext_def split: if_splits)
  then show ?case using Cons by (simp add: map_filter_simps row_reads_def split: prod.splits)
qed (simp add: map_filter_simps)

section \<open>Properties\<close>

text \<open>At startup the gateway sets the password of \<open>MOLTIS_PASSWORD\<close> with \<open>set_initial_password\<close>, which does not touch the vault: after a reset
  a vault keeps the old password, and the new one does not open it.\<close>

lemma startup_password_leaves_vault:
  assumes "kdf_law C" "password_law L" "argon_hash L salt p = Some h" "\<not> setup_flag s" "\<not> has_password s"
    and "cred_vault s = Some v" "vault_holds C d old v" "p \<noteq> old"
  shows "verify_password L p (snd (set_initial_password L salt p s))" "cred_vault (snd (set_initial_password L salt p s)) = Some v"
    "fst (unseal C p v) \<noteq> Inr ()"
  using assms unseal_holds(1) [OF assms(1,7)]
  by (auto simp: set_initial_password_def insert_password_def persist_auth_disabled_def verify_password_def password_law_def Let_def)

text \<open>Encryption that was given up comes back: a vault that is unsealed afterwards (a login does this) encrypts the values again, whatever
  \<open>encryption_flag\<close> says, and a gateway that starts without the vault, as the configuration then tells it, cannot read them.\<close>

lemma disabled_vault_encrypts_again:
  assumes "cred_vault s = Some v" "is_unsealed v" "\<forall>r\<in>set (env_rows s). \<not> ev_encrypted r"
    and "fst (migrate_env_rows C rnd now v (env_rows s)) = Inr n"
  shows "get_all_env_values C (with_config disabled (run_vault_env_migration C rnd now s)) = []"
proof -
  have all: "fst (migrate_env_rows C rnd now v rows) = Inr m \<Longrightarrow> r \<in> set (snd (migrate_env_rows C rnd now v rows)) \<Longrightarrow> ev_encrypted r" for rows m r
  proof (induction rows arbitrary: m)
    case (Cons q rows)
    then show ?case
      by (cases "migrate_env_rows C rnd now v rows"; cases "fst (migrate_env_rows C rnd now v rows)") (auto split: if_splits sum.splits)
  qed simp
  have none: "List.map_filter (\<lambda>r. map_option (Pair (ev_key r)) (env_plaintext C None r)) rows = []" if "\<forall>r\<in>set rows. ev_encrypted r" for rows
    using that by (induction rows) (simp_all add: map_filter_simps env_plaintext_def)
  show ?thesis
    using assms(1) all [OF assms(4)] by (simp add: get_all_env_values_def with_config_def with_vault_def run_vault_env_migration_def Let_def none)
qed

text \<open>C37: the password opens the vault. After any operations on a new store with a vault that leave the password to the methods made for a
  vault, in any order and with any failures, resets and restarts between them: when a password is set and the vault is initialized, a text is
  the password exactly when it unseals the vault.\<close>

theorem password_opens_the_vault:
  assumes "base64_law C" "aead_law C" "kdf_law C" "password_law L"
    and "guarded_run variables_ok (variables_step C L) (fresh_store disabled enabled (Some (new_vault None)), []) es"
    and "foldl (variables_step C L) (fresh_store disabled enabled (Some (new_vault None)), []) es = (s, xs)"
    and "cred_vault s = Some v" "row v \<noteq> None" "has_password s"
  shows "verify_password L p s \<longleftrightarrow> fst (unseal C p v) = Inr ()"
proof -
  have "store_agrees C L xs s" by (rule run_agrees [OF assms(1-4) _ assms(5,6)]) simp
  then obtain d pw where d: "vault_holds C d pw v" "hash_of L pw (password_hash s)"
    using assms(7,8) by (auto simp: store_agrees_def vault_agrees_def)
  have "verify_password L p s \<longleftrightarrow> p = pw" using d(2) assms(9) by (auto simp: verify_password_def has_password_def hash_of_def)
  then show ?thesis using unseal_holds(1) [OF assms(3) d(1)] by simp
qed

text \<open>C38: environment variables read back. After the same operations on a new store, with a vault or without, every variable has the value
  that was set last, whether it was stored plain or encrypted, migrated when the vault opened, or decrypted when encryption was given up,
  and through changes of the password and restarts, whenever the vault is unsealed.\<close>

theorem variables_read_back:
  assumes "base64_law C" "aead_law C" "kdf_law C" "password_law L" "vlt = None \<or> vlt = Some (new_vault None)"
    and "guarded_run variables_ok (variables_step C L) (fresh_store disabled enabled vlt, []) es"
    and "foldl (variables_step C L) (fresh_store disabled enabled vlt, []) es = (s, xs)"
    and "case cred_vault s of Some v \<Rightarrow> is_unsealed v | None \<Rightarrow> True"
  shows "get_all_env_values C s = map (\<lambda>(n, key, x). (key, x)) (sort_key (fst \<circ> snd) xs)"
proof -
  have agree: "store_agrees C L xs s" by (rule run_agrees [OF assms(1-7)])
  have "\<exists>d. rows_read C s xs d \<and> (\<forall>k. d = Some k \<longrightarrow> (\<exists>v. cred_vault s = Some v \<and> dek v = Some k))"
  proof (cases "cred_vault s")
    case None
    then show ?thesis using agree by (auto simp: store_agrees_def)
  next
    case (Some v)
    then have "dek v \<noteq> None" "vault_agrees C L (rows_read C s xs) (password_hash s) v"
      using assms(8) agree by (simp_all add: is_unsealed_def store_agrees_def)
    then obtain k where "dek v = Some k" "rows_read C s xs (Some k)" by (auto simp: vault_agrees_def vault_holds_def split: if_splits)
    then show ?thesis using Some by blast
  qed
  then obtain d where d: "rows_read C s xs d" "\<And>k. d = Some k \<Longrightarrow> \<exists>v. cred_vault s = Some v \<and> dek v = Some k" by blast
  have "list_all2 (row_reads C d) (sort_key ev_key (env_rows s)) (sort_key (fst \<circ> snd) xs)"
    by (rule sort_related) (use d(1) in \<open>simp_all add: rows_read_def row_reads_def\<close>)
  then show ?thesis unfolding get_all_env_values_def by (rule rows_listed) (rule d(2))
qed

section \<open>Witnesses\<close>

definition example_draw :: password_draw where
  "example_draw = \<lparr>pd_salt = [], pd_vault_salt = replicate 16 4, pd_vault_nonce = replicate 24 8, pd_init = example_random\<rparr>"

lemma plain_password_law: "password_law plain_lib"
  by (simp add: password_law_def plain_lib_def)

abbreviation vault_store :: credentials where
  "vault_store \<equiv> fresh_store False True (Some (new_vault None))"

lemma example_prepared:
  obtains v where "password_hash (snd (insert_password_and_prepare_vault clear_crypto plain_lib example_draw p vault_store)) = Some p"
    "cred_vault (snd (insert_password_and_prepare_vault clear_crypto plain_lib example_draw p vault_store)) = Some v" "row v \<noteq> None" "is_unsealed v"
proof -
  let ?t = "snd (insert_password_and_prepare_vault clear_crypto plain_lib example_draw p vault_store)"
  obtain v where init: "initialize clear_crypto example_random True p (new_vault None) = (Inr (generate_recovery_key (rnd_entropy example_random)), v)"
    using clear_initialize [OF example_ok(1), of p] by blast
  then obtain phrase r where tx: "initialize_in_transaction clear_crypto example_random p None = Inr (phrase, r)"
      "unseal clear_crypto p (new_vault None\<lparr>row := Some r\<rparr>) = (Inr (), v)"
    by (auto simp: initialize_def new_vault_def split: sum.splits prod.splits)
  have fresh: "cred_vault vault_store = Some (new_vault None)" "password_hash vault_store = None"
    by (simp_all add: fresh_store_def with_vault_def Let_def)
  have row: "row v = Some r" using tx(2) unseal_row [of clear_crypto p "new_vault None\<lparr>row := Some r\<rparr>"] by simp
  have "prepare_vault clear_crypto example_draw p (new_vault None) = Inr (r, Some phrase)"
    by (simp add: prepare_vault_def vault_status_of_def new_vault_def example_draw_def tx(1))
  moreover have "unseal_if_sealed clear_crypto p (new_vault None) = (Inr (), new_vault None)"
    by (simp add: unseal_if_sealed_def vault_status_of_def new_vault_def)
  moreover have "argon_hash plain_lib salt p = Some p" for salt by (simp add: plain_lib_def)
  ultimately have "password_hash ?t = Some p" "cred_vault ?t = Some v"
    using fresh tx(2) by (simp_all add: insert_password_and_prepare_vault_def has_password_def Let_def)
  moreover have "is_unsealed v" by (rule initialize_ok(2) [OF clear_crypto_laws(1,2) example_ok(1) init])
  ultimately show ?thesis using row that by simp
qed

lemma example_draw_ok: "draw_ok example_draw"
  by (simp add: draw_ok_def example_draw_def NONCE_LEN_def)

theorem password_opens_the_vault_witness:
  "\<exists>v. let s = cred_step clear_crypto plain_lib vault_store (PrepareVault example_draw ''pw'') in
     cred_vault s = Some v \<and> fst (unseal clear_crypto ''pw'' v) = Inr () \<and> fst (unseal clear_crypto ''no'' v) \<noteq> Inr ()"
proof -
  let ?e = "PrepareVault example_draw ''pw''" and ?w = "variables_step clear_crypto plain_lib"
  let ?t = "cred_step clear_crypto plain_lib vault_store ?e"
  obtain v where t: "password_hash ?t = Some ''pw''" "cred_vault ?t = Some v" "row v \<noteq> None"
    by (rule example_prepared [of "''pw''"]) auto
  have run: "guarded_run variables_ok ?w (vault_store, []) [?e]" using example_draw_ok by simp
  have fin: "foldl ?w (vault_store, []) [?e] = (?t, [])" by (simp add: variables_after_def)
  have known: "has_password ?t" "verify_password plain_lib p ?t \<longleftrightarrow> p = ''pw''" for p
    using t(1) by (simp_all add: has_password_def verify_password_def plain_lib_def)
  note now = password_opens_the_vault [OF clear_crypto_laws plain_password_law run fin t(2,3) known(1)]
  have "fst (unseal clear_crypto ''pw'' v) = Inr ()" "fst (unseal clear_crypto ''no'' v) \<noteq> Inr ()"
    using now [of "''pw''"] now [of "''no''"] known(2) [of "''pw''"] known(2) [of "''no''"] by simp_all
  then show ?thesis using t(2) by (auto simp: Let_def)
qed

theorem variables_read_back_witness:
  "get_all_env_values clear_crypto
     (foldl (cred_step clear_crypto plain_lib) vault_store [PrepareVault example_draw ''pw'', SetEnv (replicate 24 2) 0 0 ''KEY'' ''s3cret'']) =
   [(''KEY'', ''s3cret'')]"
proof -
  let ?p = "PrepareVault example_draw ''pw''" and ?e = "SetEnv (replicate 24 2) 0 0 ''KEY'' ''s3cret''"
    and ?w = "variables_step clear_crypto plain_lib"
  let ?t = "cred_step clear_crypto plain_lib vault_store ?p"
  let ?u = "cred_step clear_crypto plain_lib ?t ?e"
  obtain v where v: "cred_vault ?t = Some v" "is_unsealed v" by (rule example_prepared [of "''pw''"]) auto
  have "\<exists>st. env_stored clear_crypto (replicate 24 2) ''KEY'' ''s3cret'' ?t = Inr st"
    using v clear_encrypt [of v _ "replicate 24 2" "''s3cret''" "env_aad ''KEY''"]
    by (auto simp: env_stored_def is_unsealed_def split: bool.splits sum.splits)
  then have ok: "\<not> isl (fst (set_env_var clear_crypto (replicate 24 2) 0 0 ''KEY'' ''s3cret'' ?t))"
    by (auto simp: set_env_var_def Let_def split: prod.splits if_splits)
  have run: "guarded_run variables_ok ?w (vault_store, []) [?p, ?e]" using example_draw_ok by (simp add: NONCE_LEN_def)
  have fin: "foldl ?w (vault_store, []) [?p, ?e] = (?u, [(Suc (last_env_id ?t), ''KEY'', ''s3cret'')])"
    using ok by (simp add: variables_after_def)
  have "cred_vault ?u = cred_vault ?t" by (simp add: set_env_var_def Let_def split: sum.splits prod.splits)
  then have open_vault: "case cred_vault ?u of Some v \<Rightarrow> is_unsealed v | None \<Rightarrow> True" using v by simp
  show ?thesis
    using variables_read_back [OF clear_crypto_laws plain_password_law disjI2 run fin open_vault] by simp
qed

end
