(* ===== verification/Auth_Routes.thy ===== *)
theory Auth_Routes
  imports Credential_Vault Http_Gates Login_Guard
begin

text \<open>
  The routes under \<open>/api/auth\<close> (\<open>crates/httpd/src/auth_routes.rs\<close> and \<open>auth_routes/vault.rs\<close>) and the challenges of passkeys
  (\<open>crates/auth/src/webauthn.rs\<close>): setup, login, logout, reset, passwords, API keys, passkeys and the vault, over the credential store, the
  guard against guessing and the gates of \<open>Http_Gates\<close>.

  A handler is a function from the state of the server to its reply and the new state. What the library for passkeys answers is the
  record \<open>webauthn_lib\<close>; what a request draws at random, and the two clocks (milliseconds of \<open>Instant\<close>, seconds of the database), are
  fields of \<open>auth_request\<close>. Texts of errors in replies, the start of channels when the vault opens, and failures of the database are left
  out; the build has the default features.
\<close>

section \<open>Passkeys\<close>

record webauthn_instance =
  wi_rp :: string
  wi_origins :: "string list"

record passkey =
  py_cred :: bytes
  py_key :: string

record webauthn_lib =
  wl_build :: "string \<Rightarrow> string list \<Rightarrow> bool"
  wl_url_host :: "string \<Rightarrow> string option"
  wl_start_reg :: "webauthn_instance \<Rightarrow> bytes list option \<Rightarrow> string \<Rightarrow> (string \<times> string) option"
  wl_finish_reg :: "webauthn_instance \<Rightarrow> string \<Rightarrow> string \<Rightarrow> passkey option"
  wl_start_auth :: "webauthn_instance \<Rightarrow> passkey list \<Rightarrow> string \<Rightarrow> (string \<times> string) option"
  wl_finish_auth :: "webauthn_instance \<Rightarrow> string \<Rightarrow> string \<Rightarrow> bool"
  wl_json :: "passkey \<Rightarrow> bytes option"
  wl_passkey :: "bytes \<Rightarrow> passkey option"

datatype webauthn_error = BuilderRefused | NoPending | ChallengeExpired | LibraryRefused | NoPasskeys

text \<open>A pending challenge is the state of the library and the time at which it was made.\<close>

record webauthn_state =
  wa_instance :: webauthn_instance
  pending_registrations :: "string \<rightharpoonup> string \<times> instant"
  pending_authentications :: "string \<rightharpoonup> string \<times> instant"

record webauthn_entry =
  we_rp :: string
  we_hosts :: "string list"
  we_state :: webauthn_state

definition CHALLENGE_TTL_SECS :: nat where "CHALLENGE_TTL_SECS = 300"

definition normalize_host :: "string \<Rightarrow> string" where
  "normalize_host host =
     (let trimmed = trim_end_by (\<lambda>c. c = CHR ''.'') (trim host) in
      if trimmed = [] then []
      else
        to_ascii_lowercase
          (if starts_with trimmed ''['' then
             trim_end_by (\<lambda>c. c = CHR '']'') (trim_start_by (\<lambda>c. c = CHR ''['')
               (case before_last '']:'' trimmed of Some a \<Rightarrow> a | None \<Rightarrow> trimmed))
           else if 1 < length (filter (\<lambda>c. c = CHR '':'') trimmed) then trimmed
           else (case before_last '':'' trimmed of Some a \<Rightarrow> a | None \<Rightarrow> trimmed)))"

definition get_allowed_origins :: "webauthn_instance \<Rightarrow> string list" where
  "get_allowed_origins w = map (\<lambda>s. case strip_suffix s ''/'' of Some t \<Rightarrow> t | None \<Rightarrow> s) (wi_origins w)"

definition collect_allowed_hosts :: "webauthn_lib \<Rightarrow> string \<Rightarrow> webauthn_state \<Rightarrow> string list" where
  "collect_allowed_hosts W rp w =
     foldl (\<lambda>hosts origin.
         case wl_url_host W origin of
           None \<Rightarrow> hosts
         | Some host \<Rightarrow> (let h = normalize_host host in if h \<noteq> [] \<and> h \<notin> set hosts then hosts @ [h] else hosts))
       (if normalize_host rp = [] then [] else [normalize_host rp]) (get_allowed_origins (wa_instance w))"

definition new_webauthn :: "webauthn_lib \<Rightarrow> string \<Rightarrow> string \<Rightarrow> string list \<Rightarrow> webauthn_error + webauthn_state" where
  "new_webauthn W rp origin extra =
     (if wl_build W rp (origin # extra)
      then Inr \<lparr>wa_instance = \<lparr>wi_rp = rp, wi_origins = origin # extra\<rparr>, pending_registrations = Map.empty, pending_authentications = Map.empty\<rparr>
      else Inl BuilderRefused)"

definition cleanup_expired :: "instant \<Rightarrow> webauthn_state \<Rightarrow> webauthn_state" where
  "cleanup_expired now w =
     (let fresh = (\<lambda>(st, created). duration_since now created < CHALLENGE_TTL_SECS * 1000) in
      w\<lparr>pending_registrations := map_retain fresh (pending_registrations w),
        pending_authentications := map_retain fresh (pending_authentications w)\<rparr>)"

definition too_old :: "instant \<Rightarrow> instant \<Rightarrow> bool" where
  "too_old now created \<longleftrightarrow> CHALLENGE_TTL_SECS < duration_since now created div 1000"

definition start_registration :: "webauthn_lib \<Rightarrow> instant \<Rightarrow> string \<Rightarrow> string \<Rightarrow> passkey list \<Rightarrow> webauthn_state \<Rightarrow>
    (webauthn_error + string \<times> string) \<times> webauthn_state" where
  "start_registration W now draw challenge existing w =
     (let w = cleanup_expired now w;
          exclude = map py_cred existing in
      case wl_start_reg W (wa_instance w) (if exclude = [] then None else Some exclude) draw of
        None \<Rightarrow> (Inl LibraryRefused, w)
      | Some (ccr, st) \<Rightarrow> (Inr (challenge, ccr), w\<lparr>pending_registrations := (pending_registrations w)(challenge \<mapsto> (st, now))\<rparr>))"

definition finish_registration :: "webauthn_lib \<Rightarrow> instant \<Rightarrow> string \<Rightarrow> string \<Rightarrow> webauthn_state \<Rightarrow> (webauthn_error + passkey) \<times> webauthn_state" where
  "finish_registration W now challenge response w =
     (case pending_registrations w challenge of
        None \<Rightarrow> (Inl NoPending, w)
      | Some (st, created) \<Rightarrow>
          (let w = w\<lparr>pending_registrations := (pending_registrations w)(challenge := None)\<rparr> in
           if too_old now created then (Inl ChallengeExpired, w)
           else (case wl_finish_reg W (wa_instance w) response st of None \<Rightarrow> (Inl LibraryRefused, w) | Some pk \<Rightarrow> (Inr pk, w))))"

definition start_authentication :: "webauthn_lib \<Rightarrow> instant \<Rightarrow> string \<Rightarrow> string \<Rightarrow> passkey list \<Rightarrow> webauthn_state \<Rightarrow>
    (webauthn_error + string \<times> string) \<times> webauthn_state" where
  "start_authentication W now draw challenge passkeys w =
     (let w = cleanup_expired now w in
      if passkeys = [] then (Inl NoPasskeys, w)
      else
        (case wl_start_auth W (wa_instance w) passkeys draw of
           None \<Rightarrow> (Inl LibraryRefused, w)
         | Some (rcr, st) \<Rightarrow> (Inr (challenge, rcr), w\<lparr>pending_authentications := (pending_authentications w)(challenge \<mapsto> (st, now))\<rparr>)))"

definition finish_authentication :: "webauthn_lib \<Rightarrow> instant \<Rightarrow> string \<Rightarrow> string \<Rightarrow> webauthn_state \<Rightarrow> (webauthn_error + unit) \<times> webauthn_state" where
  "finish_authentication W now challenge response w =
     (case pending_authentications w challenge of
        None \<Rightarrow> (Inl NoPending, w)
      | Some (st, created) \<Rightarrow>
          (let w = w\<lparr>pending_authentications := (pending_authentications w)(challenge := None)\<rparr> in
           if too_old now created then (Inl ChallengeExpired, w)
           else if wl_finish_auth W (wa_instance w) response st then (Inr (), w) else (Inl LibraryRefused, w)))"

text \<open>The registry: one instance per name of the gateway.\<close>

definition registry_add :: "webauthn_lib \<Rightarrow> string \<Rightarrow> webauthn_state \<Rightarrow> webauthn_entry list \<Rightarrow> webauthn_entry list" where
  "registry_add W rp w reg =
     (let rp = normalize_host rp in reg @ [\<lparr>we_rp = rp, we_hosts = collect_allowed_hosts W rp w, we_state = w\<rparr>])"

definition contains_rp_id :: "string \<Rightarrow> webauthn_entry list \<Rightarrow> bool" where
  "contains_rp_id rp reg = list_ex (\<lambda>e. we_rp e = normalize_host rp) reg"

definition contains_host :: "string \<Rightarrow> webauthn_entry list \<Rightarrow> bool" where
  "contains_host host reg = list_ex (\<lambda>e. normalize_host host \<in> set (we_hosts e)) reg"

definition get_for_host :: "string \<Rightarrow> webauthn_entry list \<Rightarrow> webauthn_state option" where
  "get_for_host host reg = map_option we_state (find (\<lambda>e. normalize_host host \<in> set (we_hosts e)) reg)"

text \<open>The state is shared, so what happens to it is seen through the registry.\<close>

fun put_for_host :: "string \<Rightarrow> webauthn_state \<Rightarrow> webauthn_entry list \<Rightarrow> webauthn_entry list" where
  "put_for_host host w [] = []"
| "put_for_host host w (e # es) =
     (if normalize_host host \<in> set (we_hosts e) then e\<lparr>we_state := w\<rparr> # es else e # put_for_host host w es)"

definition get_all_origins :: "webauthn_entry list \<Rightarrow> string list" where
  "get_all_origins reg =
     foldl (\<lambda>origins x. if x \<in> set origins then origins else origins @ [x]) []
       (concat (map (\<lambda>e. get_allowed_origins (wa_instance (we_state e))) reg))"

definition load_passkeys :: "webauthn_lib \<Rightarrow> credentials \<Rightarrow> passkey list option" where
  "load_passkeys W s = those (map (\<lambda>(n, data). wl_passkey W data) (load_all_passkey_data s))"

section \<open>Cookies\<close>

definition first_part :: "string \<Rightarrow> string" where
  "first_part v = hd (split_on (CHR '','') v)"

definition should_secure_cookie :: "bool \<Rightarrow> bool \<Rightarrow> header_map \<Rightarrow> bool" where
  "should_secure_cookie tls proxied h =
     (if tls then True
      else if proxied then
        (case header_str h ''x-forwarded-proto'' of
           Some proto \<Rightarrow> eq_ignore_ascii_case (trim (first_part proto)) ''https''
         | None \<Rightarrow> False)
      else False)"

definition non_empty :: "string \<Rightarrow> string option" where
  "non_empty s = (if s = [] then None else Some s)"

definition cookie_host :: "header_map \<Rightarrow> bool \<Rightarrow> string option" where
  "cookie_host h proxied =
     (let host = Option.bind (header_str h ''host'') (\<lambda>v. non_empty (trim v)) in
      if \<not> proxied then host
      else
        (case Option.bind (header_str h ''x-forwarded-host'') (\<lambda>raw. non_empty (trim (first_part raw))) of
           Some v \<Rightarrow> Some v
         | None \<Rightarrow> host))"

definition localhost_cookie_domain :: "header_map \<Rightarrow> bool \<Rightarrow> string" where
  "localhost_cookie_domain h proxied =
     (case cookie_host h proxied of
        None \<Rightarrow> []
      | Some host \<Rightarrow>
          (let name = (case before_last '':'' host of Some a \<Rightarrow> a | None \<Rightarrow> host) in
           if ends_with name ''.localhost'' \<or> (\<not> proxied \<and> name = ''localhost'') then ''; Domain=localhost'' else []))"

definition cookie_attributes :: "string \<Rightarrow> header_map \<Rightarrow> bool \<Rightarrow> bool \<Rightarrow> string" where
  "cookie_attributes max_age h proxied secure =
     ''; HttpOnly; SameSite=Strict; Path=/; Max-Age='' @ max_age @ localhost_cookie_domain h proxied @ (if secure then ''; Secure'' else [])"

section \<open>The server, requests and replies\<close>

record auth_server =
  sv_store :: credentials
  sv_guard :: login_guard
  sv_code :: "string option"
  sv_code_at :: "instant option"
  sv_webauthn :: "webauthn_entry list option"
  sv_pending_hosts :: "string list"
  sv_disconnects :: "string list"
  sv_runtime :: bool

record auth_env =
  ae_crypto :: crypto
  ae_lib :: cred_lib
  ae_webauthn :: webauthn_lib
  ae_ip_of :: "string \<Rightarrow> ip_addr option"
  ae_socket_ip_of :: "string \<Rightarrow> ip_addr option"
  ae_ip_text :: "ip_addr \<Rightarrow> string"
  ae_proxied :: bool
  ae_docker :: bool
  ae_tls :: bool
  ae_localhost_only :: bool

record auth_request =
  rq_http :: http_request
  rq_host :: string
  rq_now :: instant
  rq_wall :: nat
  rq_token :: string
  rq_salt :: string
  rq_code :: string
  rq_challenge :: string
  rq_wa_draw :: string
  rq_draw :: password_draw
  rq_init :: init_random
  rq_nonces :: "nat \<Rightarrow> bytes"
  rq_others_ok :: bool

record auth_status =
  as_setup_required :: bool
  as_setup_complete :: bool
  as_has_passkeys :: bool
  as_authenticated :: bool
  as_auth_disabled :: bool
  as_code_required :: bool
  as_has_password :: bool
  as_localhost_only :: bool
  as_webauthn :: bool
  as_origins :: "string list"
  as_update_hosts :: "string list"

text \<open>The body of a reply; \<open>ErrorText\<close> is the text of an error.\<close>

datatype reply_body =
    Message string
  | ErrorText
  | OkBody
  | RecoveryKey string
  | Challenge string string
  | CreatedKey nat string
  | CreatedPasskey nat
  | KeyList "api_key_entry list"
  | PasskeyList "(nat \<times> string \<times> string) list"
  | StatusBody auth_status
  | VaultState string
  | VaultReady string string

text \<open>The cookie of the session: its value, and what follows.\<close>

record reply =
  rp_status :: nat
  rp_cookie :: "(string \<times> string) option"
  rp_retry :: "nat option"
  rp_body :: reply_body

definition say :: "nat \<Rightarrow> reply_body \<Rightarrow> reply" where
  "say n body = \<lparr>rp_status = n, rp_cookie = None, rp_retry = None, rp_body = body\<rparr>"

definition blocked_response :: "block_reason \<Rightarrow> reply" where
  "blocked_response reason =
     (let (msg, retry_after) =
        (case reason of
           IpBanned d \<Rightarrow> (''too many failed attempts from this address'', d)
         | AccountLocked d \<Rightarrow> (''account temporarily locked due to suspicious activity'', d)) in
      \<lparr>rp_status = 429, rp_cookie = None, rp_retry = Some (max (retry_after div 1000) 1), rp_body = Message msg\<rparr>)"

text \<open>The credential store as the gates ask it, at a time.\<close>

definition gate_store :: "auth_env \<Rightarrow> nat \<Rightarrow> credentials \<Rightarrow> credential_store" where
  "gate_store E wall s =
     \<lparr>auth_disabled = disabled_flag s, setup_complete = setup_flag s,
      validate_session = (\<lambda>token. Some (Credentials.validate_session token wall s)),
      verify_api_key = (\<lambda>key. map_option snd (Credentials.verify_api_key (ae_lib E) key s))\<rparr>"

definition gate_state :: "auth_env \<Rightarrow> auth_request \<Rightarrow> auth_server \<Rightarrow> gateway_state" where
  "gate_state E rq sv =
     \<lparr>credential_store_of = Some (gate_store E (rq_wall rq) (sv_store sv)), behind_proxy = ae_proxied E,
      trust_docker_loopback = ae_docker E, wizard_onboarded = None, vault = None\<rparr>"

definition local_request :: "auth_env \<Rightarrow> auth_request \<Rightarrow> bool" where
  "local_request E rq = is_local_connection (headers (rq_http rq)) (remote (rq_http rq)) (ae_proxied E) (ae_docker E)"

text \<open>The extractor \<open>AuthSession\<close>; the gate in front has put no identity into the request, see \<open>auth_paths_are_public\<close> below.\<close>

definition session_of :: "auth_env \<Rightarrow> auth_request \<Rightarrow> auth_server \<Rightarrow> (nat \<times> string) + auth_identity" where
  "session_of E rq sv = auth_session (gate_state E rq sv) (rq_http rq) None"

definition with_session :: "auth_env \<Rightarrow> auth_request \<Rightarrow> (auth_server \<Rightarrow> reply \<times> auth_server) \<Rightarrow> auth_server \<Rightarrow> reply \<times> auth_server" where
  "with_session E rq f sv = (case session_of E rq sv of Inl (n, msg) \<Rightarrow> (say n (Message msg), sv) | Inr identity \<Rightarrow> f sv)"

definition client_ip :: "auth_env \<Rightarrow> auth_request \<Rightarrow> ip_addr" where
  "client_ip E rq = resolve_client_ip (ae_ip_of E) (ae_socket_ip_of E) (headers (rq_http rq)) (remote (rq_http rq)) (ae_proxied E)"

definition cookie_for :: "auth_env \<Rightarrow> auth_request \<Rightarrow> string \<Rightarrow> string" where
  "cookie_for E rq max_age =
     (let h = headers (rq_http rq) in cookie_attributes max_age h (ae_proxied E) (should_secure_cookie (ae_tls E) (ae_proxied E) h))"

definition session_response :: "auth_env \<Rightarrow> auth_request \<Rightarrow> string \<Rightarrow> reply_body \<Rightarrow> reply" where
  "session_response E rq token body = \<lparr>rp_status = 200, rp_cookie = Some (token, cookie_for E rq ''2592000''), rp_retry = None, rp_body = body\<rparr>"

definition clear_session_response :: "auth_env \<Rightarrow> auth_request \<Rightarrow> reply" where
  "clear_session_response E rq = \<lparr>rp_status = 200, rp_cookie = Some ([], cookie_for E rq ''0''), rp_retry = None, rp_body = OkBody\<rparr>"

definition on_store :: "(credentials \<Rightarrow> credentials) \<Rightarrow> auth_server \<Rightarrow> auth_server" where
  "on_store f sv = sv\<lparr>sv_store := f (sv_store sv)\<rparr>"

definition disconnect_all :: "string \<Rightarrow> auth_server \<Rightarrow> auth_server" where
  "disconnect_all reason sv = sv\<lparr>sv_disconnects := sv_disconnects sv @ [reason]\<rparr>"

definition grant_session :: "auth_env \<Rightarrow> auth_request \<Rightarrow> reply_body \<Rightarrow> auth_server \<Rightarrow> reply \<times> auth_server" where
  "grant_session E rq body sv =
     (case create_session (rq_token rq) (rq_wall rq) (sv_store sv) of
        (Inl e, s) \<Rightarrow> (say 500 ErrorText, sv\<lparr>sv_store := s\<rparr>)
      | (Inr token, s) \<Rightarrow> (session_response E rq token body, sv\<lparr>sv_store := s\<rparr>))"

definition migrate :: "auth_env \<Rightarrow> auth_request \<Rightarrow> auth_server \<Rightarrow> auth_server" where
  "migrate E rq = on_store (run_vault_env_migration (ae_crypto E) (rq_nonces rq) (rq_wall rq))"

definition set_vault :: "vault \<Rightarrow> auth_server \<Rightarrow> auth_server" where
  "set_vault v = on_store (\<lambda>s. s\<lparr>cred_vault := Some v\<rparr>)"

section \<open>Setup\<close>

definition SETUP_ACCOUNT :: string where "SETUP_ACCOUNT = ''__setup__''"
definition PASSWORD_ACCOUNT :: string where "PASSWORD_ACCOUNT = ''__password__''"
definition PASSWORD_CHANGE_ACCOUNT :: string where "PASSWORD_CHANGE_ACCOUNT = ''__password_change__''"
definition PASSKEY_ACCOUNT :: string where "PASSKEY_ACCOUNT = ''__passkey__''"

definition record_failure :: "auth_env \<Rightarrow> auth_request \<Rightarrow> string \<Rightarrow> auth_server \<Rightarrow> auth_server" where
  "record_failure E rq account sv = sv\<lparr>sv_guard := record_failure_at (sv_guard sv) (client_ip E rq) account (rq_now rq)\<rparr>"

definition password_accepted :: "auth_env \<Rightarrow> auth_request \<Rightarrow> auth_server \<Rightarrow> auth_server" where
  "password_accepted E rq sv = sv\<lparr>sv_guard := record_success (sv_guard sv) (client_ip E rq)\<rparr>"

definition guarded :: "auth_env \<Rightarrow> auth_request \<Rightarrow> string \<Rightarrow> (auth_server \<Rightarrow> reply \<times> auth_server) \<Rightarrow> auth_server \<Rightarrow> reply \<times> auth_server" where
  "guarded E rq account f sv =
     (case check_at (sv_guard sv) (client_ip E rq) account (rq_now rq) of
        Some reason \<Rightarrow> (blocked_response reason, sv)
      | None \<Rightarrow> f sv)"

definition clear_code :: "auth_server \<Rightarrow> auth_server" where
  "clear_code sv = sv\<lparr>sv_code := None\<rparr>"

text \<open>The replies to an error of the operations on password and vault.\<close>

definition vault_error_reply :: "string \<Rightarrow> string \<Rightarrow> password_vault_error \<Rightarrow> reply" where
  "vault_error_reply bad changed e =
     (case e of
        VaultBadCredential \<Rightarrow> say 423 (Message bad)
      | VaultStateChanged \<Rightarrow> say 409 (Message changed)
      | _ \<Rightarrow> say 500 ErrorText)"

definition VAULT_KEEPS_PASSWORD :: string where
  "VAULT_KEEPS_PASSWORD = ''password must match the existing vault password; unlock with recovery key before setting a different password''"

definition setup_password :: "auth_env \<Rightarrow> auth_request \<Rightarrow> string \<Rightarrow> auth_server \<Rightarrow> (reply + reply_body) \<times> auth_server" where
  "setup_password E rq password sv =
     (if byte_len password < 12 then (Inl (say 400 (Message ''password must be at least 12 characters'')), sv)
      else if cred_vault (sv_store sv) \<noteq> None then
        (case set_initial_password_and_prepare_vault (ae_crypto E) (ae_lib E) (rq_draw rq) password (sv_store sv) of
           (Inl e, s) \<Rightarrow> (Inl (vault_error_reply VAULT_KEEPS_PASSWORD ''vault state changed while setting password; retry the setup'' e), sv\<lparr>sv_store := s\<rparr>)
         | (Inr key, s) \<Rightarrow>
             (Inr (case key of Some phrase \<Rightarrow> RecoveryKey phrase | None \<Rightarrow> OkBody), migrate E rq (sv\<lparr>sv_store := s\<rparr>)))
      else
        (case set_initial_password (ae_lib E) (rq_salt rq) password (sv_store sv) of
           (Inl e, s) \<Rightarrow> (Inl (say 500 ErrorText), sv\<lparr>sv_store := s\<rparr>)
         | (Inr _, s) \<Rightarrow> (Inr OkBody, sv\<lparr>sv_store := s\<rparr>)))"

definition setup_checked :: "auth_env \<Rightarrow> auth_request \<Rightarrow> string option \<Rightarrow> auth_server \<Rightarrow> reply \<times> auth_server" where
  "setup_checked E rq body_password sv =
     (let password = (case body_password of Some p \<Rightarrow> p | None \<Rightarrow> []) in
      case (if password = [] \<and> local_request E rq then (Inr OkBody, on_store clear_auth_disabled sv) else setup_password E rq password sv) of
        (Inl answer, sv) \<Rightarrow> (answer, sv)
      | (Inr body, sv) \<Rightarrow> grant_session E rq body (clear_code (disconnect_all ''setup_complete'' sv)))"

definition setup_handler :: "auth_env \<Rightarrow> auth_request \<Rightarrow> string option \<Rightarrow> string option \<Rightarrow> auth_server \<Rightarrow> reply \<times> auth_server" where
  "setup_handler E rq body_password body_code sv =
     (if setup_flag (sv_store sv) then (say 403 (Message ''setup already completed''), sv)
      else
        guarded E rq SETUP_ACCOUNT (\<lambda>sv.
          case sv_code sv of
            None \<Rightarrow> setup_checked E rq body_password sv
          | Some expected \<Rightarrow>
              (if (case sv_code_at sv of Some t \<Rightarrow> 30 * 60 * 1000 < duration_since (rq_now rq) t | None \<Rightarrow> False)
               then (say 410 (Message ''setup code has expired''), sv)
               else if body_code \<noteq> Some expected
               then (say 403 (Message ''invalid or missing setup code''), record_failure E rq SETUP_ACCOUNT sv)
               else setup_checked E rq body_password sv)) sv)"

section \<open>Login, logout, reset and password change\<close>

text \<open>The vault is opened with the password of the login when it takes it.\<close>

definition unseal_on_login :: "auth_env \<Rightarrow> auth_request \<Rightarrow> string \<Rightarrow> auth_server \<Rightarrow> auth_server" where
  "unseal_on_login E rq password sv =
     (case cred_vault (sv_store sv) of
        None \<Rightarrow> sv
      | Some v \<Rightarrow>
          (case unseal (ae_crypto E) password v of
             (Inr _, v) \<Rightarrow> migrate E rq (set_vault v sv)
           | (Inl e, v) \<Rightarrow> set_vault v sv))"

text \<open>A login asks the guard, awaits the comparison of the password, and writes the outcome down. \<open>login_answer\<close> is the second part; other
  requests may come between the two, see \<open>guess_step\<close>. \<open>login_handler\<close> is a login that nothing interrupts.\<close>

definition login_answer :: "auth_env \<Rightarrow> auth_request \<Rightarrow> string \<Rightarrow> auth_server \<Rightarrow> reply \<times> auth_server" where
  "login_answer E rq password sv =
      (let ip = client_ip E rq; log = (\<lambda>event. on_store (audit_log event (Some (ae_ip_text E ip)) None (rq_wall rq))) in
       if verify_password (ae_lib E) password (sv_store sv) then
         grant_session E rq OkBody (unseal_on_login E rq password (log ''login_success'' (password_accepted E rq sv)))
       else (say 401 (Message ''invalid password''), log ''login_failure'' (record_failure E rq PASSWORD_ACCOUNT sv)))"

definition login_handler :: "auth_env \<Rightarrow> auth_request \<Rightarrow> string \<Rightarrow> auth_server \<Rightarrow> reply \<times> auth_server" where
  "login_handler E rq password = guarded E rq PASSWORD_ACCOUNT (login_answer E rq password)"

definition logout_handler :: "auth_env \<Rightarrow> auth_request \<Rightarrow> auth_server \<Rightarrow> reply \<times> auth_server" where
  "logout_handler E rq sv =
     (clear_session_response E rq,
      case session_token (headers (rq_http rq)) of Some token \<Rightarrow> on_store (delete_session token) sv | None \<Rightarrow> sv)"

definition reset_auth_handler :: "auth_env \<Rightarrow> auth_request \<Rightarrow> auth_server \<Rightarrow> reply \<times> auth_server" where
  "reset_auth_handler E rq =
     with_session E rq (\<lambda>sv.
       (clear_session_response E rq,
        (disconnect_all ''auth_reset'' (on_store reset_all sv))\<lparr>sv_code := Some (rq_code rq), sv_code_at := Some (rq_now rq)\<rparr>))"

definition first_password :: "auth_env \<Rightarrow> auth_request \<Rightarrow> string \<Rightarrow> auth_server \<Rightarrow> reply \<times> auth_server" where
  "first_password E rq new sv =
     (if cred_vault (sv_store sv) \<noteq> None then
        (case add_password_and_prepare_vault (ae_crypto E) (ae_lib E) (rq_draw rq) new (sv_store sv) of
           (Inl e, s) \<Rightarrow> (vault_error_reply VAULT_KEEPS_PASSWORD ''vault state changed while setting password; retry the password change'' e, sv\<lparr>sv_store := s\<rparr>)
         | (Inr key, s) \<Rightarrow>
             (say 200 (case key of Some phrase \<Rightarrow> RecoveryKey phrase | None \<Rightarrow> OkBody),
              disconnect_all ''password_changed'' (migrate E rq (sv\<lparr>sv_store := s\<rparr>))))
      else
        (case add_password (ae_lib E) (rq_salt rq) new (sv_store sv) of
           (Inl e, s) \<Rightarrow> (say 500 ErrorText, sv\<lparr>sv_store := s\<rparr>)
         | (Inr _, s) \<Rightarrow> (say 200 OkBody, disconnect_all ''password_changed'' (sv\<lparr>sv_store := s\<rparr>))))"

definition replace_password :: "auth_env \<Rightarrow> auth_request \<Rightarrow> string \<Rightarrow> string \<Rightarrow> auth_server \<Rightarrow> reply \<times> auth_server" where
  "replace_password E rq current new sv =
     (if cred_vault (sv_store sv) \<noteq> None then
        (case change_password_and_rotate_vault (ae_crypto E) (ae_lib E) (rq_draw rq) current new (sv_store sv) of
           (Inr _, s) \<Rightarrow> (say 200 OkBody, disconnect_all ''password_changed'' (migrate E rq (password_accepted E rq (sv\<lparr>sv_store := s\<rparr>))))
         | (Inl e, s) \<Rightarrow>
             (if e = IncorrectCurrentPassword
              then (say 403 (Message ''current password is incorrect''), record_failure E rq PASSWORD_CHANGE_ACCOUNT (sv\<lparr>sv_store := s\<rparr>))
              else (vault_error_reply ''vault password does not match current password; unlock with recovery key before changing password''
                     ''vault state changed while changing password; retry the password change'' e, sv\<lparr>sv_store := s\<rparr>)))
      else
        (case Credentials.change_password (ae_lib E) (rq_salt rq) current new (sv_store sv) of
           (Inr _, s) \<Rightarrow> (say 200 OkBody, disconnect_all ''password_changed'' (password_accepted E rq (sv\<lparr>sv_store := s\<rparr>)))
         | (Inl e, s) \<Rightarrow>
             (if (case e of ValidationError msg \<Rightarrow> contains_sub msg ''incorrect'' | _ \<Rightarrow> False)
              then (say 403 ErrorText, record_failure E rq PASSWORD_CHANGE_ACCOUNT (sv\<lparr>sv_store := s\<rparr>))
              else (say 500 ErrorText, sv\<lparr>sv_store := s\<rparr>))))"

definition change_password_handler :: "auth_env \<Rightarrow> auth_request \<Rightarrow> string option \<Rightarrow> string \<Rightarrow> auth_server \<Rightarrow> reply \<times> auth_server" where
  "change_password_handler E rq current new =
     with_session E rq (\<lambda>sv.
       if byte_len new < 12 then (say 400 (Message ''new password must be at least 12 characters''), sv)
       else if \<not> has_password (sv_store sv) then first_password E rq new sv
       else guarded E rq PASSWORD_CHANGE_ACCOUNT (replace_password E rq (case current of Some p \<Rightarrow> p | None \<Rightarrow> []) new) sv)"

section \<open>API keys\<close>

definition VALID_SCOPES :: "string list" where
  "VALID_SCOPES = [''operator.admin'', ''operator.read'', ''operator.write'', ''operator.approvals'', ''operator.pairing'']"

definition list_api_keys_handler :: "auth_env \<Rightarrow> auth_request \<Rightarrow> auth_server \<Rightarrow> reply \<times> auth_server" where
  "list_api_keys_handler E rq = with_session E rq (\<lambda>sv. (say 200 (KeyList (list_api_keys (ae_lib E) (sv_store sv))), sv))"

definition create_api_key_handler :: "auth_env \<Rightarrow> auth_request \<Rightarrow> string \<Rightarrow> string list option \<Rightarrow> auth_server \<Rightarrow> reply \<times> auth_server" where
  "create_api_key_handler E rq label wanted =
     with_session E rq (\<lambda>sv.
       if trim label = [] then (say 400 (Message ''label is required''), sv)
       else
         (case find (\<lambda>scope. scope \<notin> set VALID_SCOPES) (case wanted of Some xs \<Rightarrow> xs | None \<Rightarrow> []) of
            Some scope \<Rightarrow> (say 400 (Message (''invalid scope: '' @ scope)), sv)
          | None \<Rightarrow>
              (case create_api_key (ae_lib E) (rq_token rq) (rq_salt rq) (rq_wall rq) (trim label) wanted (sv_store sv) of
                 ((n, key), s) \<Rightarrow>
                   (say 200 (CreatedKey n key),
                    sv\<lparr>sv_store := audit_log ''key_created'' None (Some (''id='' @ show_nat n @ '', label='' @ trim label)) (rq_wall rq) s\<rparr>))))"

definition revoke_api_key_handler :: "auth_env \<Rightarrow> auth_request \<Rightarrow> nat \<Rightarrow> auth_server \<Rightarrow> reply \<times> auth_server" where
  "revoke_api_key_handler E rq n =
     with_session E rq (\<lambda>sv.
       (say 200 OkBody, on_store (\<lambda>s. audit_log ''key_revoked'' None (Some (''id='' @ show_nat n)) (rq_wall rq) (revoke_api_key (rq_wall rq) n s)) sv))"

section \<open>Passkeys over HTTP\<close>

definition list_passkeys_handler :: "auth_env \<Rightarrow> auth_request \<Rightarrow> auth_server \<Rightarrow> reply \<times> auth_server" where
  "list_passkeys_handler E rq = with_session E rq (\<lambda>sv. (say 200 (PasskeyList (list_passkeys (ae_lib E) (sv_store sv))), sv))"

definition remove_passkey_handler :: "auth_env \<Rightarrow> auth_request \<Rightarrow> nat \<Rightarrow> auth_server \<Rightarrow> reply \<times> auth_server" where
  "remove_passkey_handler E rq n =
     with_session E rq (\<lambda>sv.
       let was = setup_flag (sv_store sv); sv = on_store (remove_passkey n) sv in
       (say 200 OkBody, if was \<and> \<not> setup_flag (sv_store sv) then disconnect_all ''last_credential_removed'' sv else sv))"

definition rename_passkey_handler :: "auth_env \<Rightarrow> auth_request \<Rightarrow> nat \<Rightarrow> string \<Rightarrow> auth_server \<Rightarrow> reply \<times> auth_server" where
  "rename_passkey_handler E rq n name =
     with_session E rq (\<lambda>sv.
       if trim name = [] then (say 400 (Message ''name cannot be empty''), sv)
       else (say 200 OkBody, on_store (rename_passkey n (trim name)) sv))"

text \<open>The instance for the host of the request, and its new state.\<close>

definition with_webauthn :: "auth_request \<Rightarrow> (webauthn_state \<Rightarrow> auth_server \<Rightarrow> reply \<times> auth_server) \<Rightarrow> auth_server \<Rightarrow> reply \<times> auth_server" where
  "with_webauthn rq f sv =
     (case sv_webauthn sv of
        None \<Rightarrow> (say 501 (Message ''passkeys not configured''), sv)
      | Some reg \<Rightarrow>
          (case get_for_host (rq_host rq) reg of
             None \<Rightarrow> (say 400 (Message ''no passkey config for this hostname''), sv)
           | Some w \<Rightarrow> f w sv))"

definition put_webauthn :: "auth_request \<Rightarrow> webauthn_state \<Rightarrow> auth_server \<Rightarrow> auth_server" where
  "put_webauthn rq w sv = sv\<lparr>sv_webauthn := map_option (put_for_host (rq_host rq) w) (sv_webauthn sv)\<rparr>"

definition clear_pending_host :: "string \<Rightarrow> auth_server \<Rightarrow> auth_server" where
  "clear_pending_host host sv = sv\<lparr>sv_pending_hosts := filter (\<lambda>h. h \<noteq> normalize_host host) (sv_pending_hosts sv)\<rparr>"

definition challenge_reply :: "nat \<Rightarrow> webauthn_error + string \<times> string \<Rightarrow> reply" where
  "challenge_reply status res = (case res of Inl e \<Rightarrow> say status ErrorText | Inr (challenge, options) \<Rightarrow> say 200 (Challenge challenge options))"

definition register_begin :: "auth_env \<Rightarrow> auth_request \<Rightarrow> auth_server \<Rightarrow> reply \<times> auth_server" where
  "register_begin E rq =
     with_webauthn rq (\<lambda>w sv.
       let existing = (case load_passkeys (ae_webauthn E) (sv_store sv) of Some ps \<Rightarrow> ps | None \<Rightarrow> []) in
       case start_registration (ae_webauthn E) (rq_now rq) (rq_wa_draw rq) (rq_challenge rq) existing w of
         (res, w) \<Rightarrow> (challenge_reply 500 res, put_webauthn rq w sv))"

definition register_finish :: "auth_env \<Rightarrow> auth_request \<Rightarrow> string \<Rightarrow> string \<Rightarrow> string \<Rightarrow> (nat \<Rightarrow> auth_server \<Rightarrow> reply \<times> auth_server) \<Rightarrow>
    auth_server \<Rightarrow> reply \<times> auth_server" where
  "register_finish E rq challenge name credential f =
     with_webauthn rq (\<lambda>w sv.
       case finish_registration (ae_webauthn E) (rq_now rq) challenge credential w of
         (Inl e, w) \<Rightarrow> (say 400 ErrorText, put_webauthn rq w sv)
       | (Inr pk, w) \<Rightarrow>
           (let sv = put_webauthn rq w sv in
            case wl_json (ae_webauthn E) pk of
              None \<Rightarrow> (say 500 ErrorText, sv)
            | Some data \<Rightarrow>
                (case store_passkey (rq_wall rq) (py_cred pk) (if trim name = [] then ''Passkey'' else trim name) data (sv_store sv) of
                   (Inl e, s) \<Rightarrow> (say 500 ErrorText, sv\<lparr>sv_store := s\<rparr>)
                 | (Inr n, s) \<Rightarrow> f n (clear_pending_host (rq_host rq) (sv\<lparr>sv_store := s\<rparr>)))))"

definition passkey_register_begin_handler :: "auth_env \<Rightarrow> auth_request \<Rightarrow> auth_server \<Rightarrow> reply \<times> auth_server" where
  "passkey_register_begin_handler E rq = with_session E rq (register_begin E rq)"

definition passkey_register_finish_handler :: "auth_env \<Rightarrow> auth_request \<Rightarrow> string \<Rightarrow> string \<Rightarrow> string \<Rightarrow> auth_server \<Rightarrow> reply \<times> auth_server" where
  "passkey_register_finish_handler E rq challenge name credential =
     with_session E rq (register_finish E rq challenge name credential (\<lambda>n sv. (say 200 (CreatedPasskey n), sv)))"

definition passkey_auth_begin_handler :: "auth_env \<Rightarrow> auth_request \<Rightarrow> auth_server \<Rightarrow> reply \<times> auth_server" where
  "passkey_auth_begin_handler E rq =
     with_webauthn rq (\<lambda>w sv.
       case load_passkeys (ae_webauthn E) (sv_store sv) of
         None \<Rightarrow> (say 500 ErrorText, sv)
       | Some passkeys \<Rightarrow>
           (case start_authentication (ae_webauthn E) (rq_now rq) (rq_wa_draw rq) (rq_challenge rq) passkeys w of
              (res, w) \<Rightarrow> (challenge_reply 400 res, put_webauthn rq w sv)))"

definition passkey_auth_finish_handler :: "auth_env \<Rightarrow> auth_request \<Rightarrow> string \<Rightarrow> string \<Rightarrow> auth_server \<Rightarrow> reply \<times> auth_server" where
  "passkey_auth_finish_handler E rq challenge credential =
     guarded E rq PASSKEY_ACCOUNT (with_webauthn rq (\<lambda>w sv.
       case finish_authentication (ae_webauthn E) (rq_now rq) challenge credential w of
         (Inr _, w) \<Rightarrow> grant_session E rq OkBody (password_accepted E rq (put_webauthn rq w sv))
       | (Inl e, w) \<Rightarrow> (say 401 ErrorText, record_failure E rq PASSKEY_ACCOUNT (put_webauthn rq w sv))))"

text \<open>Passkeys during setup: the code stands for the session; there is no guard and no age of the code.\<close>

definition with_setup_code :: "string option \<Rightarrow> (auth_server \<Rightarrow> reply \<times> auth_server) \<Rightarrow> auth_server \<Rightarrow> reply \<times> auth_server" where
  "with_setup_code body_code f sv =
     (if setup_flag (sv_store sv) then (say 403 (Message ''setup already completed''), sv)
      else if sv_code sv \<noteq> None \<and> body_code \<noteq> sv_code sv then (say 403 (Message ''invalid or missing setup code''), sv)
      else f sv)"

definition setup_passkey_register_begin_handler :: "auth_env \<Rightarrow> auth_request \<Rightarrow> string option \<Rightarrow> auth_server \<Rightarrow> reply \<times> auth_server" where
  "setup_passkey_register_begin_handler E rq body_code = with_setup_code body_code (register_begin E rq)"

definition setup_passkey_register_finish_handler :: "auth_env \<Rightarrow> auth_request \<Rightarrow> string \<Rightarrow> string \<Rightarrow> string option \<Rightarrow> string \<Rightarrow>
    auth_server \<Rightarrow> reply \<times> auth_server" where
  "setup_passkey_register_finish_handler E rq challenge name body_code credential =
     with_setup_code body_code (register_finish E rq challenge name credential (\<lambda>n sv.
       case mark_setup_complete (sv_store sv) of
         (Inl e, s) \<Rightarrow> (say 500 ErrorText, sv\<lparr>sv_store := s\<rparr>)
       | (Inr _, s) \<Rightarrow> grant_session E rq OkBody (clear_code (disconnect_all ''setup_complete'' (sv\<lparr>sv_store := s\<rparr>)))))"

section \<open>The vault over HTTP\<close>

definition status_text :: "vault \<Rightarrow> string" where
  "status_text v = (case vault_status_of v of Vault.vault_status.Uninitialized \<Rightarrow> ''uninitialized'' | IsSealed \<Rightarrow> ''sealed'' | Vault.vault_status.Unsealed \<Rightarrow> ''unsealed'')"

definition vault_status_handler :: "auth_server \<Rightarrow> reply \<times> auth_server" where
  "vault_status_handler sv =
     (say 200 (VaultState (if \<not> sv_runtime sv then ''disabled''
        else (case cred_vault (sv_store sv) of Some v \<Rightarrow> status_text v | None \<Rightarrow> ''disabled''))), sv)"

definition with_open_runtime :: "auth_env \<Rightarrow> auth_request \<Rightarrow> (vault \<Rightarrow> auth_server \<Rightarrow> reply \<times> auth_server) \<Rightarrow> auth_server \<Rightarrow> reply \<times> auth_server" where
  "with_open_runtime E rq f =
     with_session E rq (\<lambda>sv.
       if \<not> sv_runtime sv then (say 404 (Message ''vault not available''), sv)
       else (case cred_vault (sv_store sv) of None \<Rightarrow> (say 404 (Message ''vault not available''), sv) | Some v \<Rightarrow> f v sv))"

definition vault_initialize_handler :: "auth_env \<Rightarrow> auth_request \<Rightarrow> string \<Rightarrow> auth_server \<Rightarrow> reply \<times> auth_server" where
  "vault_initialize_handler E rq password =
     with_open_runtime E rq (\<lambda>v sv.
       case initialize_vault_for_current_password (ae_crypto E) (ae_lib E) (rq_init rq) password (sv_store sv) of
         (Inr (phrase, opened), s) \<Rightarrow>
           (say 200 (VaultReady phrase (if opened then ''unsealed'' else ''sealed'')),
            if opened then migrate E rq (sv\<lparr>sv_store := s\<rparr>) else sv\<lparr>sv_store := s\<rparr>)
       | (Inl ViIncorrectPassword, s) \<Rightarrow> (say 403 (Message ''current password is incorrect''), sv\<lparr>sv_store := s\<rparr>)
       | (Inl ViAlreadyInitialized, s) \<Rightarrow> (say 409 (Message ''vault is already initialized''), sv\<lparr>sv_store := s\<rparr>)
       | (Inl _, s) \<Rightarrow> (say 500 ErrorText, sv\<lparr>sv_store := s\<rparr>))"

definition unlock_reply :: "auth_env \<Rightarrow> auth_request \<Rightarrow> string \<Rightarrow> (vault_error + unit) \<times> vault \<Rightarrow> auth_server \<Rightarrow> reply \<times> auth_server" where
  "unlock_reply E rq bad res sv =
     (case res of
        (Inr _, v) \<Rightarrow> (say 200 OkBody, migrate E rq (set_vault v sv))
      | (Inl e, v) \<Rightarrow> (if e = BadCredential then say 423 (Message bad) else say 500 ErrorText, set_vault v sv))"

definition vault_unlock_handler :: "auth_env \<Rightarrow> auth_request \<Rightarrow> string \<Rightarrow> auth_server \<Rightarrow> reply \<times> auth_server" where
  "vault_unlock_handler E rq password =
     with_open_runtime E rq (\<lambda>v. unlock_reply E rq ''invalid password'' (unseal (ae_crypto E) password v))"

definition vault_recovery_handler :: "auth_env \<Rightarrow> auth_request \<Rightarrow> string \<Rightarrow> auth_server \<Rightarrow> reply \<times> auth_server" where
  "vault_recovery_handler E rq phrase =
     with_open_runtime E rq (\<lambda>v. unlock_reply E rq ''invalid recovery key'' (unseal_with_recovery (ae_crypto E) phrase v))"

definition vault_disable_unsealed :: "auth_env \<Rightarrow> auth_request \<Rightarrow> auth_server \<Rightarrow> reply \<times> auth_server" where
  "vault_disable_unsealed E rq sv =
     (case disable_vault (ae_crypto E) (rq_wall rq) (rq_others_ok rq) (sv_store sv) of
        (True, s) \<Rightarrow> (say 200 OkBody, sv\<lparr>sv_store := s, sv_runtime := False\<rparr>)
      | (False, s) \<Rightarrow> (say 500 ErrorText, sv\<lparr>sv_store := s\<rparr>))"

definition vault_disable_handler :: "auth_env \<Rightarrow> auth_request \<Rightarrow> string option \<Rightarrow> auth_server \<Rightarrow> reply \<times> auth_server" where
  "vault_disable_handler E rq password =
     with_open_runtime E rq (\<lambda>v sv.
       if is_unsealed v then vault_disable_unsealed E rq sv
       else
         (case Option.bind password non_empty of
            None \<Rightarrow> (say 423 (Message ''unlock the vault before disabling it''), sv)
          | Some p \<Rightarrow>
              (case unseal (ae_crypto E) p v of
                 (Inl e, v) \<Rightarrow> (if e = BadCredential then say 423 (Message ''invalid password'') else say 500 ErrorText, set_vault v sv)
               | (Inr _, v) \<Rightarrow> vault_disable_unsealed E rq (set_vault v sv))))"

section \<open>Status, and the router\<close>

definition status_handler :: "auth_env \<Rightarrow> auth_request \<Rightarrow> auth_server \<Rightarrow> reply \<times> auth_server" where
  "status_handler E rq sv =
     (let store = sv_store sv;
          decision = check_auth (gate_store E (rq_wall rq) store) (headers (rq_http rq)) (local_request E rq);
          has_keys = has_passkeys store;
          sv = (if has_keys then sv else sv\<lparr>sv_pending_hosts := []\<rparr>) in
      (say 200 (StatusBody
         \<lparr>as_setup_required = (decision = SetupRequired), as_setup_complete = setup_flag store, as_has_passkeys = has_keys,
          as_authenticated = (case decision of AuthAllowed identity \<Rightarrow> True | _ \<Rightarrow> False), as_auth_disabled = disabled_flag store,
          as_code_required = (sv_code sv \<noteq> None), as_has_password = has_password store, as_localhost_only = ae_localhost_only E,
          as_webauthn = (sv_webauthn sv \<noteq> None),
          as_origins = (case sv_webauthn sv of Some reg \<Rightarrow> get_all_origins reg | None \<Rightarrow> []),
          as_update_hosts = (if has_keys then sort (sv_pending_hosts sv) else [])\<rparr>), sv))"

datatype auth_call =
    StatusCall
  | SetupCall "string option" "string option"
  | LoginCall string
  | LogoutCall
  | ResetCall
  | ChangePasswordCall "string option" string
  | ListKeysCall
  | CreateKeyCall string "string list option"
  | RevokeKeyCall nat
  | ListPasskeysCall
  | RemovePasskeyCall nat
  | RenamePasskeyCall nat string
  | RegisterBeginCall
  | RegisterFinishCall string string string
  | AuthBeginCall
  | AuthFinishCall string string
  | SetupBeginCall "string option"
  | SetupFinishCall string string "string option" string
  | VaultStatusCall
  | VaultInitializeCall string
  | VaultUnlockCall string
  | VaultRecoveryCall string
  | VaultDisableCall "string option"

definition auth_router :: "auth_call \<Rightarrow> http_method \<times> string" where
  "auth_router call =
     (case call of
        StatusCall \<Rightarrow> (GET, ''/api/auth/status'')
      | SetupCall p c \<Rightarrow> (POST, ''/api/auth/setup'')
      | LoginCall p \<Rightarrow> (POST, ''/api/auth/login'')
      | LogoutCall \<Rightarrow> (POST, ''/api/auth/logout'')
      | ResetCall \<Rightarrow> (POST, ''/api/auth/reset'')
      | ChangePasswordCall c n \<Rightarrow> (POST, ''/api/auth/password/change'')
      | ListKeysCall \<Rightarrow> (GET, ''/api/auth/api-keys'')
      | CreateKeyCall l s \<Rightarrow> (POST, ''/api/auth/api-keys'')
      | RevokeKeyCall n \<Rightarrow> (OtherMethod ''DELETE'', ''/api/auth/api-keys/'' @ show_nat n)
      | ListPasskeysCall \<Rightarrow> (GET, ''/api/auth/passkeys'')
      | RemovePasskeyCall n \<Rightarrow> (OtherMethod ''DELETE'', ''/api/auth/passkeys/'' @ show_nat n)
      | RenamePasskeyCall n name \<Rightarrow> (OtherMethod ''PATCH'', ''/api/auth/passkeys/'' @ show_nat n)
      | RegisterBeginCall \<Rightarrow> (POST, ''/api/auth/passkey/register/begin'')
      | RegisterFinishCall c n cr \<Rightarrow> (POST, ''/api/auth/passkey/register/finish'')
      | AuthBeginCall \<Rightarrow> (POST, ''/api/auth/passkey/auth/begin'')
      | AuthFinishCall c cr \<Rightarrow> (POST, ''/api/auth/passkey/auth/finish'')
      | SetupBeginCall c \<Rightarrow> (POST, ''/api/auth/setup/passkey/register/begin'')
      | SetupFinishCall ch n c cr \<Rightarrow> (POST, ''/api/auth/setup/passkey/register/finish'')
      | VaultStatusCall \<Rightarrow> (GET, ''/api/auth/vault/status'')
      | VaultInitializeCall p \<Rightarrow> (POST, ''/api/auth/vault/initialize'')
      | VaultUnlockCall p \<Rightarrow> (POST, ''/api/auth/vault/unlock'')
      | VaultRecoveryCall k \<Rightarrow> (POST, ''/api/auth/vault/recovery'')
      | VaultDisableCall p \<Rightarrow> (POST, ''/api/auth/vault/disable''))"

fun auth_handler :: "auth_env \<Rightarrow> auth_request \<Rightarrow> auth_call \<Rightarrow> auth_server \<Rightarrow> reply \<times> auth_server" where
  "auth_handler E rq StatusCall = status_handler E rq"
| "auth_handler E rq (SetupCall password code) = setup_handler E rq password code"
| "auth_handler E rq (LoginCall password) = login_handler E rq password"
| "auth_handler E rq LogoutCall = logout_handler E rq"
| "auth_handler E rq ResetCall = reset_auth_handler E rq"
| "auth_handler E rq (ChangePasswordCall current new) = change_password_handler E rq current new"
| "auth_handler E rq ListKeysCall = list_api_keys_handler E rq"
| "auth_handler E rq (CreateKeyCall label wanted) = create_api_key_handler E rq label wanted"
| "auth_handler E rq (RevokeKeyCall n) = revoke_api_key_handler E rq n"
| "auth_handler E rq ListPasskeysCall = list_passkeys_handler E rq"
| "auth_handler E rq (RemovePasskeyCall n) = remove_passkey_handler E rq n"
| "auth_handler E rq (RenamePasskeyCall n name) = rename_passkey_handler E rq n name"
| "auth_handler E rq RegisterBeginCall = passkey_register_begin_handler E rq"
| "auth_handler E rq (RegisterFinishCall challenge name credential) = passkey_register_finish_handler E rq challenge name credential"
| "auth_handler E rq AuthBeginCall = passkey_auth_begin_handler E rq"
| "auth_handler E rq (AuthFinishCall challenge credential) = passkey_auth_finish_handler E rq challenge credential"
| "auth_handler E rq (SetupBeginCall code) = setup_passkey_register_begin_handler E rq code"
| "auth_handler E rq (SetupFinishCall challenge name code credential) = setup_passkey_register_finish_handler E rq challenge name code credential"
| "auth_handler E rq VaultStatusCall = vault_status_handler"
| "auth_handler E rq (VaultInitializeCall password) = vault_initialize_handler E rq password"
| "auth_handler E rq (VaultUnlockCall password) = vault_unlock_handler E rq password"
| "auth_handler E rq (VaultRecoveryCall phrase) = vault_recovery_handler E rq phrase"
| "auth_handler E rq (VaultDisableCall password) = vault_disable_handler E rq password"

section \<open>What stands in front\<close>

text \<open>The gate lets every request to these routes pass without an identity, so the extractor decides.\<close>

lemma auth_paths_are_public:
  assumes "path req = snd (auth_router call)"
  shows "auth_gate gw req = Handler None" "vault_guard gw req r = r"
proof -
  have "starts_with (path req) ''/api/auth/''"
    unfolding assms by (cases call) (simp_all add: auth_router_def starts_with_def)
  then show "auth_gate gw req = Handler None" "vault_guard gw req r = r"
    by (simp_all add: auth_gate_def is_public_path_def vault_guard_def is_vault_guard_exempt_path_def split: option.splits)
qed

section \<open>Lemmas on the handlers\<close>

text \<open>What a request shows that has no session: the password, a passkey, or, while there is no owner, the code.\<close>

definition shows_proof :: "auth_env \<Rightarrow> auth_request \<Rightarrow> auth_call \<Rightarrow> auth_server \<Rightarrow> bool" where
  "shows_proof E rq call sv =
     (case call of
        LoginCall p \<Rightarrow> verify_password (ae_lib E) p (sv_store sv)
      | AuthFinishCall challenge credential \<Rightarrow>
          (case Option.bind (sv_webauthn sv) (get_for_host (rq_host rq)) of
             Some w \<Rightarrow> fst (finish_authentication (ae_webauthn E) (rq_now rq) challenge credential w) = Inr ()
           | None \<Rightarrow> False)
      | SetupCall p c \<Rightarrow> \<not> setup_flag (sv_store sv) \<and> sv_code sv \<noteq> None \<and> c = sv_code sv
      | SetupBeginCall c \<Rightarrow> \<not> setup_flag (sv_store sv) \<and> sv_code sv \<noteq> None \<and> c = sv_code sv
      | SetupFinishCall challenge name c credential \<Rightarrow> \<not> setup_flag (sv_store sv) \<and> sv_code sv \<noteq> None \<and> c = sv_code sv
      | _ \<Rightarrow> False)"

text \<open>The gateway has an owner, or a code protects the setup. Otherwise the setup is open to everyone, see \<open>unclaimed_takes_any_setup\<close>.\<close>

definition claimed :: "auth_server \<Rightarrow> bool" where
  "claimed sv \<longleftrightarrow> setup_flag (sv_store sv) \<or> sv_code sv \<noteq> None"

text \<open>Everything that decides about access is as before, but for sessions that may have gone.\<close>

definition same_access :: "auth_server \<Rightarrow> auth_server \<Rightarrow> bool" where
  "same_access sv sv' \<longleftrightarrow>
     password_hash (sv_store sv') = password_hash (sv_store sv) \<and> passkey_rows (sv_store sv') = passkey_rows (sv_store sv) \<and>
     key_rows (sv_store sv') = key_rows (sv_store sv) \<and> env_rows (sv_store sv') = env_rows (sv_store sv) \<and>
     cred_vault (sv_store sv') = cred_vault (sv_store sv) \<and> setup_flag (sv_store sv') = setup_flag (sv_store sv) \<and>
     disabled_flag (sv_store sv') = disabled_flag (sv_store sv) \<and> sv_code sv' = sv_code sv \<and> sv_disconnects sv' = sv_disconnects sv \<and>
     sv_runtime sv' = sv_runtime sv \<and> set (session_rows (sv_store sv')) \<subseteq> set (session_rows (sv_store sv))"

definition no_session_given :: "reply \<Rightarrow> bool" where
  "no_session_given r \<longleftrightarrow> (case rp_cookie r of Some (token, attributes) \<Rightarrow> token = [] | None \<Rightarrow> True)"

lemma same_access_refl [simp]: "same_access sv sv"
  by (simp add: same_access_def)


lemma same_access_guard [simp]:
  "same_access sv (sv\<lparr>sv_guard := g\<rparr>)" "same_access sv (record_failure E rq account sv)" "same_access sv (put_webauthn rq w sv)"
  "same_access sv (record_failure E rq account (put_webauthn rq w sv))"
  by (simp_all add: same_access_def record_failure_def put_webauthn_def)

lemma no_session_say [simp]: "no_session_given (say n body)" "no_session_given (blocked_response reason)"
  by (simp_all add: no_session_given_def say_def blocked_response_def case_prod_unfold Let_def)

lemma no_session_clear [simp]: "no_session_given (clear_session_response E rq)"
  by (simp add: no_session_given_def clear_session_response_def)







section \<open>Runs\<close>





section \<open>What the guard sees\<close>

definition guard_moves :: "auth_env \<Rightarrow> auth_request \<Rightarrow> login_guard \<Rightarrow> login_guard \<Rightarrow> bool" where
  "guard_moves E rq g g' \<longleftrightarrow>
     g' = g \<or> g' = guard_step g (Success (client_ip E rq)) \<or> (\<exists>account. g' = guard_step g (Failure (client_ip E rq) account (rq_now rq)))"


lemma guard_moves_simps [simp]:
  "guard_moves E rq g g"
  "sv_guard t = g \<Longrightarrow> guard_moves E rq g (sv_guard (record_failure E rq account t))"
  "sv_guard t = g \<Longrightarrow> guard_moves E rq g (sv_guard (password_accepted E rq t))"
  by (auto simp: guard_moves_def record_failure_def password_accepted_def)









section \<open>Guessing\<close>

text \<open>Runs in which logins interleave: those that the guard admitted wait for the comparison. \<open>gw_compared\<close> counts the passwords of one address
  that were compared. Everything else is served as \<open>auth_handler\<close> does.\<close>

record guess_world =
  gw_server :: auth_server
  gw_pending :: "(auth_request \<times> string) list"
  gw_clock :: instant
  gw_moves :: nat
  gw_compared :: nat

datatype guess_move = Arrive auth_request string | Compare nat instant | Serve auth_request auth_call




fun guess_step :: "auth_env \<Rightarrow> ip_addr \<Rightarrow> guess_world \<Rightarrow> guess_move \<Rightarrow> guess_world" where
  "guess_step E ip w (Arrive rq p) =
     w\<lparr>gw_pending := gw_pending w @
         (if check_at (sv_guard (gw_server w)) (client_ip E rq) PASSWORD_ACCOUNT (rq_now rq) = None then [(rq, p)] else []),
       gw_clock := rq_now rq, gw_moves := gw_moves w + 1\<rparr>"
| "guess_step E ip w (Compare k now) =
     (if k < length (gw_pending w) then
        (case gw_pending w ! k of (rq, p) \<Rightarrow>
           w\<lparr>gw_server := snd (login_answer E (rq\<lparr>rq_now := now\<rparr>) p (gw_server w)),
             gw_pending := take k (gw_pending w) @ drop (Suc k) (gw_pending w), gw_clock := now, gw_moves := gw_moves w + 1,
             gw_compared := gw_compared w + (if client_ip E rq = ip then 1 else 0)\<rparr>)
      else w)"
| "guess_step E ip w (Serve rq call) =
     w\<lparr>gw_server := snd (auth_handler E rq call (gw_server w)), gw_clock := rq_now rq, gw_moves := gw_moves w + 1\<rparr>"















lemma client_ip_now [simp]: "client_ip E (rq\<lparr>rq_now := t\<rparr>) = client_ip E rq"
  by (simp add: client_ip_def)











text \<open>The comparison does not ask the guard again: whatever is in flight when the ban comes is compared all the same.\<close>

lemma pending_guess_is_compared:
  assumes "k < length (gw_pending w)" "gw_pending w ! k = (rq, p)" "client_ip E rq = ip"
  shows "gw_compared (guess_step E ip w (Compare k now)) = gw_compared w + 1"
  using assms by simp

section \<open>Behaviour that the routes do not mean to have\<close>

text \<open>\<open>RequireAdmin\<close> is for routes that manage credentials, but these ask for a session only: a key for reading makes a key for everything.\<close>

lemma find_later: "find P xs = None \<Longrightarrow> find P (xs @ ys) = find P ys"
  by (induction xs) (auto split: if_splits)

lemma any_key_makes_admin_key:
  assumes "session_of E rq sv = Inr identity" "trim label \<noteq> []" "key_law (ae_lib E)"
    and "\<forall>r\<in>set (live_rows (sv_store sv)). \<not> key_matches (ae_lib E) (''mk_'' @ rq_token rq) r"
  shows "\<exists>n. rp_body (fst (create_api_key_handler E rq label None sv)) = CreatedKey n (''mk_'' @ rq_token rq) \<and>
     Credentials.verify_api_key (ae_lib E) (''mk_'' @ rq_token rq) (sv_store (snd (create_api_key_handler E rq label None sv))) = Some (n, [])"
    "has_scope \<lparr>auth_method_of = ApiKey, scopes = []\<rparr> ''operator.admin''"
proof -
  have "find (key_matches (ae_lib E) (''mk_'' @ rq_token rq)) (filter (\<lambda>r. ak_revoked r = None) (key_rows (sv_store sv))) = None"
    using assms(4) by (auto simp: find_None_iff live_rows_def)
  then have "find (key_matches (ae_lib E) (''mk_'' @ rq_token rq)) (filter (\<lambda>r. ak_revoked r = None) (key_rows (sv_store sv)) @ rs) =
      find (key_matches (ae_lib E) (''mk_'' @ rq_token rq)) rs" for rs
    by (rule find_later)
  then show "\<exists>n. rp_body (fst (create_api_key_handler E rq label None sv)) = CreatedKey n (''mk_'' @ rq_token rq) \<and>
     Credentials.verify_api_key (ae_lib E) (''mk_'' @ rq_token rq) (sv_store (snd (create_api_key_handler E rq label None sv))) = Some (n, [])"
    using assms(1,2)
    by (simp add: create_api_key_handler_def with_session_def say_def create_api_key_def audit_log_def Credentials.verify_api_key_def
      key_matches_def granted_scopes_def Let_def)
  show "has_scope \<lparr>auth_method_of = ApiKey, scopes = []\<rparr> ''operator.admin''" by (simp add: has_scope_def)
qed

text \<open>A local user who skips the password leaves a gateway without owner and without code: the next who comes sets the password.\<close>

lemma skipped_setup_is_open:
  assumes "\<not> setup_flag (sv_store sv)" "local_request E rq" "sv_code sv = None \<or> c = sv_code sv \<and> sv_code_at sv = None"
    and "check_at (sv_guard sv) (client_ip E rq) SETUP_ACCOUNT (rq_now rq) = None"
  shows "sv_code (snd (setup_handler E rq None c sv)) = None" "\<not> setup_flag (sv_store (snd (setup_handler E rq None c sv)))"
    "\<not> claimed (snd (setup_handler E rq None c sv))"
proof -
  have "setup_handler E rq None c sv = setup_checked E rq None sv"
    using assms by (auto simp: setup_handler_def guarded_def split: option.splits)
  then show code: "sv_code (snd (setup_handler E rq None c sv)) = None" and flag: "\<not> setup_flag (sv_store (snd (setup_handler E rq None c sv)))"
    using assms(1,2)
    by (simp_all add: setup_checked_def grant_session_def clear_code_def disconnect_all_def on_store_def clear_auth_disabled_def
      persist_auth_disabled_def create_session_def Let_def split: prod.splits sum.splits)
  show "\<not> claimed (snd (setup_handler E rq None c sv))" using code flag by (simp add: claimed_def)
qed

text \<open>Whoever comes to a gateway without owner and code may make himself the owner: no code is asked for.\<close>

lemma unclaimed_takes_any_setup:
  assumes "\<not> claimed sv" "check_at (sv_guard sv) (client_ip E rq) SETUP_ACCOUNT (rq_now rq) = None"
  shows "setup_handler E rq p None sv = setup_checked E rq p sv"
  using assms by (simp add: setup_handler_def guarded_def claimed_def)

text \<open>So does the removal of the last credential: no code is made for the setup that follows.\<close>

lemma removed_credential_leaves_setup_open:
  assumes "session_of E rq sv = Inr identity" "sv_code sv = None" "password_hash (sv_store sv) = None"
    and "\<forall>r\<in>set (passkey_rows (sv_store sv)). pk_id r = n"
  shows "\<not> claimed (snd (remove_passkey_handler E rq n sv))"
  using assms
  by (simp add: remove_passkey_handler_def with_session_def claimed_def on_store_def remove_passkey_def recompute_setup_complete_def
    has_password_def has_passkeys_def disconnect_all_def filter_empty_conv Let_def)

text \<open>A passkey that is removed after a challenge was made still logs in with it.\<close>

lemma removed_passkey_logs_in:
  "shows_proof E rq (AuthFinishCall challenge credential) (on_store (remove_passkey n) sv) \<longleftrightarrow>
   shows_proof E rq (AuthFinishCall challenge credential) sv"
  by (simp add: shows_proof_def on_store_def)

section \<open>Properties\<close>



section \<open>Witnesses\<close>









end
